(* ===== verification/Prelude.thy ===== *)
theory Prelude
  imports Main "HOL-Library.AList"
begin

text \<open>
  What every component of the development shares: the exceptions of the modelled Python code and
  the result type that carries them, loops over lists that may raise, dictionaries as association
  lists in insertion order, and a stable sort that only uses the order it is given.
\<close>

subsection \<open>Hint collections\<close>

named_theorems res_simps \<open>evaluation of computations that may raise\<close>
named_theorems chain_simps \<open>filtering and projecting the events of a chain\<close>
named_theorems cfg_simps \<open>reads of the baseline configuration\<close>

subsection \<open>Exceptions and results\<close>

text \<open>
  One constructor per exception class that the modelled code raises or lets escape. Messages of
  exceptions are not modelled; messages that the code returns as values are.
\<close>

datatype pyexc =
    TypeError | ValueError | KeyError | IndexError | OverflowError | ZeroDivisionError
  | AttributeError | RuntimeError | AssertionError | OSError
  | InvalidPetition | InvalidAuthoritativeSnapshot | EventConstructionError

type_synonym 'a res = "pyexc + 'a"

definition bnd :: "'a res \<Rightarrow> ('a \<Rightarrow> 'b res) \<Rightarrow> 'b res" where
  "bnd m f = (case m of Inl e \<Rightarrow> Inl e | Inr x \<Rightarrow> f x)"

text \<open>\<open>try: m except (the classes in P): h\<close>\<close>

definition catching :: "(pyexc \<Rightarrow> bool) \<Rightarrow> 'a res \<Rightarrow> 'a res \<Rightarrow> 'a res" where
  "catching P m h = (case m of Inl e \<Rightarrow> (if P e then h else Inl e) | Inr x \<Rightarrow> Inr x)"

text \<open>
  The two \<open>except\<close> tuples of the code. \<open>InvalidPetition\<close>, \<open>InvalidAuthoritativeSnapshot\<close> and
  \<open>EventConstructionError\<close> are subclasses of \<open>ValueError\<close>.
\<close>

fun is_value_error :: "pyexc \<Rightarrow> bool" where
  "is_value_error ValueError = True"
| "is_value_error InvalidPetition = True"
| "is_value_error InvalidAuthoritativeSnapshot = True"
| "is_value_error EventConstructionError = True"
| "is_value_error _ = False"

definition type_or_value :: "pyexc \<Rightarrow> bool" where
  "type_or_value e \<longleftrightarrow> e = TypeError \<or> is_value_error e"

definition type_value_overflow :: "pyexc \<Rightarrow> bool" where
  "type_value_overflow e \<longleftrightarrow> type_or_value e \<or> e = OverflowError"

fun foldres :: "('a \<Rightarrow> 's \<Rightarrow> 's res) \<Rightarrow> 'a list \<Rightarrow> 's \<Rightarrow> 's res" where
  "foldres f [] s = Inr s"
| "foldres f (x # xs) s = bnd (f x s) (foldres f xs)"

fun mapres :: "('a \<Rightarrow> 'b res) \<Rightarrow> 'a list \<Rightarrow> 'b list res" where
  "mapres f [] = Inr []"
| "mapres f (x # xs) = bnd (f x) (\<lambda>y. bnd (mapres f xs) (\<lambda>ys. Inr (y # ys)))"

lemma bnd_Inl [simp, res_simps]: "bnd (Inl e) f = Inl e"
  by (simp add: bnd_def)

lemma bnd_Inr [simp, res_simps]: "bnd (Inr x) f = f x"
  by (simp add: bnd_def)

lemma bnd_eq_Inr: "bnd m f = Inr y \<longleftrightarrow> (\<exists>x. m = Inr x \<and> f x = Inr y)"
  by (cases m) auto

lemma bnd_eq_Inl: "bnd m f = Inl e \<longleftrightarrow> m = Inl e \<or> (\<exists>x. m = Inr x \<and> f x = Inl e)"
  by (cases m) auto

lemma bnd_InrE: "bnd m f = Inr y \<Longrightarrow> (\<And>x. m = Inr x \<Longrightarrow> f x = Inr y \<Longrightarrow> P) \<Longrightarrow> P"
  by (cases m) auto

lemma bnd_cong [fundef_cong]: "m = m' \<Longrightarrow> (\<And>x. m' = Inr x \<Longrightarrow> f x = f' x) \<Longrightarrow> bnd m f = bnd m' f'"
  by (cases m') (auto simp: bnd_def)

lemma catching_simps [simp, res_simps]:
  "catching P (Inr x) h = Inr x"
  "P e \<Longrightarrow> catching P (Inl e) h = h"
  "\<not> P e \<Longrightarrow> catching P (Inl e) h = Inl e"
  by (simp_all add: catching_def)

lemma except_classes [simp, res_simps]:
  "type_or_value TypeError" "type_or_value ValueError" "\<not> type_or_value OverflowError"
  "type_value_overflow TypeError" "type_value_overflow ValueError" "type_value_overflow OverflowError"
  by (simp_all add: type_or_value_def type_value_overflow_def)

lemma foldres_append: "foldres f (xs @ ys) s = bnd (foldres f xs s) (foldres f ys)"
  by (induction xs arbitrary: s) (auto simp: bnd_def split: sum.splits)

lemma foldres_total: "(\<And>x s. x \<in> set xs \<Longrightarrow> f x s = Inr (g x s)) \<Longrightarrow> foldres f xs s = Inr (fold g xs s)"
  by (induction xs arbitrary: s) auto

lemma foldres_invariant:
  assumes "foldres f xs s = Inr t" and "I s"
    and "\<And>x s s'. x \<in> set xs \<Longrightarrow> I s \<Longrightarrow> f x s = Inr s' \<Longrightarrow> I s'"
  shows "I t"
  using assms by (induction xs arbitrary: s) (auto elim!: bnd_InrE)

lemma mapres_append: "mapres f (xs @ ys) = bnd (mapres f xs) (\<lambda>as. bnd (mapres f ys) (\<lambda>bs. Inr (as @ bs)))"
  by (induction xs) (auto simp: bnd_def split: sum.splits)

lemma mapres_Inr_conv: "mapres f xs = Inr ys \<longleftrightarrow> list_all2 (\<lambda>x y. f x = Inr y) xs ys"
  by (induction xs arbitrary: ys) (auto simp: bnd_eq_Inr list_all2_Cons1)

lemma mapres_total: "(\<And>x. x \<in> set xs \<Longrightarrow> f x = Inr (g x)) \<Longrightarrow> mapres f xs = Inr (map g xs)"
  by (induction xs) auto

lemma mapres_length: "mapres f xs = Inr ys \<Longrightarrow> length ys = length xs"
  by (simp add: mapres_Inr_conv list_all2_lengthD)

lemma mapres_source: "mapres f xs = Inr ys \<Longrightarrow> y \<in> set ys \<Longrightarrow> \<exists>x \<in> set xs. f x = Inr y"
  by (induction xs arbitrary: ys) (auto simp: bnd_eq_Inr)

lemma mapres_target: "mapres f xs = Inr ys \<Longrightarrow> x \<in> set xs \<Longrightarrow> \<exists>y \<in> set ys. f x = Inr y"
  by (induction xs arbitrary: ys) (auto simp: bnd_eq_Inr)

subsection \<open>Dictionaries\<close>

text \<open>
  A dict that the code builds is an association list without duplicate keys, in insertion order:
  \<open>d[k] = v\<close> replaces in place or appends (\<^const>\<open>AList.update\<close>), \<open>d.get(k)\<close> is \<^const>\<open>map_of\<close>.
\<close>

definition dict_get :: "('k \<times> 'v) list \<Rightarrow> 'k \<Rightarrow> 'v \<Rightarrow> 'v" where
  "dict_get d k v0 = (case map_of d k of None \<Rightarrow> v0 | Some v \<Rightarrow> v)"

text \<open>\<open>d[k] = d.get(k, v0) + v\<close>, for an addition \<open>add\<close>\<close>

definition dict_add :: "('v \<Rightarrow> 'v \<Rightarrow> 'v) \<Rightarrow> 'v \<Rightarrow> 'k \<Rightarrow> 'v \<Rightarrow> ('k \<times> 'v) list \<Rightarrow> ('k \<times> 'v) list" where
  "dict_add add v0 k v d = AList.update k (add (dict_get d k v0) v) d"

lemma dict_get_update [simp]:
  "dict_get (AList.update k v d) k' v0 = (if k' = k then v else dict_get d k' v0)"
  by (simp add: dict_get_def update_conv')

lemma map_of_update_same [simp]: "map_of (AList.update k v d) = (map_of d)(k \<mapsto> v)"
  by (simp add: update_conv')

lemma keys_update [simp]: "fst ` set (AList.update k v d) = insert k (fst ` set d)"
  by (simp add: dom_update)

lemma keys_dict_add [simp]: "fst ` set (dict_add add v0 k v d) = insert k (fst ` set d)"
  by (simp add: dict_add_def)

lemma dict_get_Nil [simp]: "dict_get [] k v0 = v0"
  by (simp add: dict_get_def)

lemma distinct_dict_add [simp]: "distinct (map fst d) \<Longrightarrow> distinct (map fst (dict_add add v0 k v d))"
  by (simp add: dict_add_def distinct_update)

text \<open>A set that the code builds element by element: a list without duplicates, in insertion order.\<close>

definition set_add :: "'a \<Rightarrow> 'a list \<Rightarrow> 'a list" where
  "set_add x xs = (if x \<in> set xs then xs else xs @ [x])"

lemma set_set_add [simp]: "set (set_add x xs) = insert x (set xs)"
  by (auto simp: set_add_def)

lemma distinct_set_add [simp]: "distinct (set_add x xs) = distinct xs"
  by (auto simp: set_add_def)

lemma set_fold_set_add [simp]: "set (fold set_add xs ys) = set xs \<union> set ys"
  by (induction xs arbitrary: ys) auto

lemma distinct_fold_set_add [simp]: "distinct (fold set_add xs ys) = distinct ys"
  by (induction xs arbitrary: ys) auto

lemma find_append_cases: "find P (xs @ ys) = (case find P xs of Some x \<Rightarrow> Some x | None \<Rightarrow> find P ys)"
  by (induction xs) auto

lemma find_skip: "\<not> P x \<Longrightarrow> find P (xs @ x # ys) = find P (xs @ ys)"
  by (simp add: find_append_cases split: option.split)

lemma find_filter_skip: "\<not> P x \<Longrightarrow> find P (filter Q (xs @ x # ys)) = find P (filter Q (xs @ ys))"
  by (simp add: find_append_cases split: option.split)

lemma map_filter_Nil_iff: "List.map_filter f xs = [] \<longleftrightarrow> (\<forall>x \<in> set xs. f x = None)"
  by (auto simp: map_filter_def filter_empty_conv)

lemma set_map_filter: "set (List.map_filter f xs) = {y. \<exists>x \<in> set xs. f x = Some y}"
  by (force simp: map_filter_def image_iff)

subsection \<open>Stable sorting\<close>

text \<open>
  \<open>list.sort(key=...)\<close> with the comparison \<open>lt\<close> of the keys. Insertion of each element before the
  first one that is not smaller keeps equal elements in their order. Where \<open>lt\<close> is a strict weak
  order every stable sort returns this list; where it is not (a key is NaN) CPython's result is an
  unspecified permutation, and the model's is one of them.
\<close>

fun ins_by :: "('a \<Rightarrow> 'a \<Rightarrow> bool) \<Rightarrow> 'a \<Rightarrow> 'a list \<Rightarrow> 'a list" where
  "ins_by lt x [] = [x]"
| "ins_by lt x (y # ys) = (if lt y x then y # ins_by lt x ys else x # y # ys)"

definition sort_by :: "('a \<Rightarrow> 'a \<Rightarrow> bool) \<Rightarrow> 'a list \<Rightarrow> 'a list" where
  "sort_by lt xs = foldr (ins_by lt) xs []"

lemma sort_by_simps [simp]: "sort_by lt [] = []" "sort_by lt (x # xs) = ins_by lt x (sort_by lt xs)"
  by (simp_all add: sort_by_def)

lemma set_ins_by [simp]: "set (ins_by lt x ys) = insert x (set ys)"
  by (induction ys) auto

lemma set_sort_by [simp]: "set (sort_by lt xs) = set xs"
  by (induction xs) auto

lemma sort_by_cong: "(\<And>a b. a \<in> set xs \<Longrightarrow> b \<in> set xs \<Longrightarrow> lt a b = lt' a b) \<Longrightarrow> sort_by lt xs = sort_by lt' xs"
proof (induction xs)
  case (Cons x xs)
  have "ins_by lt x ys = ins_by lt' x ys" if "set ys \<subseteq> set xs" for ys using that Cons.prems by (induction ys) auto
  then have "ins_by lt x (sort_by lt xs) = ins_by lt' x (sort_by lt xs)" by simp
  with Cons show ?case by simp
qed simp

lemma length_ins_by [simp]: "length (ins_by lt x ys) = Suc (length ys)"
  by (induction ys) auto

lemma length_sort_by [simp]: "length (sort_by lt xs) = length xs"
  by (induction xs) auto

lemma sort_by_eq_Nil [simp]: "sort_by lt xs = [] \<longleftrightarrow> xs = []"
  by (metis length_0_conv length_sort_by)

lemma mset_ins_by_count: "count_list (ins_by lt x ys) z = count_list (x # ys) z"
  by (induction ys) auto

lemma count_sort_by: "count_list (sort_by lt xs) z = count_list xs z"
  by (induction xs) (auto simp: mset_ins_by_count)

lemma distinct_ins_by [simp]: "distinct (ins_by lt x ys) = distinct (x # ys)"
  by (induction ys) auto

lemma distinct_sort_by [simp]: "distinct (sort_by lt xs) = distinct xs"
  by (induction xs) auto

text \<open>A strict weak order, in the form the sort lemmas use it.\<close>

definition weak_order :: "('a \<Rightarrow> 'a \<Rightarrow> bool) \<Rightarrow> bool" where
  "weak_order lt \<longleftrightarrow> (\<forall>a b. lt a b \<longrightarrow> \<not> lt b a) \<and> (\<forall>a b c. \<not> lt b a \<longrightarrow> \<not> lt c b \<longrightarrow> \<not> lt c a)"

lemma weak_orderD:
  assumes "weak_order lt"
  shows "lt a b \<Longrightarrow> \<not> lt b a" and "\<not> lt b a \<Longrightarrow> \<not> lt c b \<Longrightarrow> \<not> lt c a"
  using assms unfolding weak_order_def by blast+

lemma ins_by_front: "\<forall>z \<in> set ys. \<not> lt z x \<Longrightarrow> ins_by lt x ys = x # ys"
  by (cases ys) auto

lemma sorted_ins_by:
  assumes "weak_order lt" and "sorted_wrt (\<lambda>a b. \<not> lt b a) ys"
  shows "sorted_wrt (\<lambda>a b. \<not> lt b a) (ins_by lt x ys)"
  using assms(2)
proof (induction ys)
  case (Cons y ys)
  show ?case
  proof (cases "lt y x")
    case True
    then show ?thesis using Cons weak_orderD(1) [OF assms(1)] by simp
  next
    case False
    then have "\<forall>z \<in> set ys. \<not> lt z x" using Cons.prems weak_orderD(2) [OF assms(1)] by (meson sorted_wrt.simps(2))
    with False Cons.prems show ?thesis by simp
  qed
qed simp

lemma sorted_sort_by: "weak_order lt \<Longrightarrow> sorted_wrt (\<lambda>a b. \<not> lt b a) (sort_by lt xs)"
  by (induction xs) (simp_all add: sorted_ins_by)

lemma filter_ins_by_drop: "\<not> P x \<Longrightarrow> filter P (ins_by lt x ys) = filter P ys"
  by (induction ys) auto

lemma filter_ins_by:
  assumes "weak_order lt" and "P x" and "sorted_wrt (\<lambda>a b. \<not> lt b a) ys"
  shows "filter P (ins_by lt x ys) = ins_by lt x (filter P ys)"
  using assms(3)
proof (induction ys)
  case (Cons y ys)
  show ?case
  proof (cases "lt y x")
    case True
    with Cons show ?thesis by simp
  next
    case False
    then have "\<forall>z \<in> set ys. \<not> lt z x" using Cons.prems weak_orderD(2) [OF assms(1)] by (meson sorted_wrt.simps(2))
    then have "ins_by lt x (filter P ys) = x # filter P ys" by (intro ins_by_front) simp
    with False assms(2) show ?thesis by simp
  qed
qed (simp add: assms(2))

text \<open>Sorting commutes with filtering: dropping elements never reorders the others.\<close>

lemma filter_sort_by:
  assumes "weak_order lt" shows "filter P (sort_by lt xs) = sort_by lt (filter P xs)"
  by (induction xs) (simp_all add: filter_ins_by_drop filter_ins_by assms sorted_sort_by)

end
