(* ===== verification/PyFloat.thy ===== *)
theory PyFloat
  imports Complex_Main Prelude "HOL-Library.Log_Nat"
begin

text \<open>
  Python's \<open>float\<close>: IEEE 754 binary64 with round-half-even, gradual underflow, overflow to the
  infinities and NaN. A finite float is the rational number it denotes; the sign of zero is not
  modelled, because Python raises on division by zero and the modelled code never prints a
  negative zero. Every arithmetic result is rounded by \<open>fl\<close>, so sums are not associative and
  shares of a pool need not add up to it, exactly as in the program.
\<close>

subsection \<open>Rounding\<close>

datatype pyfloat = Fin rat | PosInf | NegInf | NaN

definition ilog2 :: "rat \<Rightarrow> int" where
  "ilog2 q = (let (n, d) = quotient_of q; k = bitlen n - bitlen d
     in if 2 powi k \<le> q then k else k - 1)"

definition rnd_even :: "rat \<Rightarrow> int" where
  "rnd_even x = (let f = \<lfloor>x\<rfloor>; r = x - of_int f
     in if r < 1/2 then f else if 1/2 < r then f + 1 else if even f then f else f + 1)"

definition grid_exp :: "rat \<Rightarrow> int" where
  "grid_exp q = max (ilog2 \<bar>q\<bar> - 52) (- 1074)"

definition rnd64 :: "rat \<Rightarrow> rat" where
  "rnd64 q = (if q = 0 then 0
     else let e = grid_exp q in of_int (rnd_even (q / 2 powi e)) * 2 powi e)"

definition fl :: "rat \<Rightarrow> pyfloat" where
  "fl q = (let r = rnd64 q in if 2 ^ 1024 \<le> r then PosInf else if r \<le> - (2 ^ 1024) then NegInf else Fin r)"

lemma bitlen_pow_bounds:
  assumes "0 < n"
  shows "2 powi (bitlen n - 1) \<le> (of_int n :: rat)" "(of_int n :: rat) < 2 powi (bitlen n)"
proof -
  have b: "0 < bitlen n"
  proof -
    have "0 \<le> bitlen n" by (simp add: bitlen_def)
    moreover have "bitlen n \<noteq> 0"
      using assms bitlen_bounds [OF assms] by force
    ultimately show ?thesis by simp
  qed
  have "2 ^ nat (bitlen n - 1) \<le> n \<and> n < 2 ^ nat (bitlen n)"
    using assms by (rule bitlen_bounds)
  then have "(2 ^ nat (bitlen n - 1) :: rat) \<le> of_int n \<and> (of_int n :: rat) < 2 ^ nat (bitlen n)"
    by (metis (mono_tags) of_int_le_iff of_int_less_iff of_int_numeral of_int_power)
  with b show "2 powi (bitlen n - 1) \<le> (of_int n :: rat)" "(of_int n :: rat) < 2 powi (bitlen n)"
    by (simp_all add: power_int_def)
qed

lemma ilog2_bounds:
  assumes "0 < q"
  shows "2 powi (ilog2 q) \<le> q" and "q < 2 powi (ilog2 q + 1)"
proof -
  obtain n d where nd: "quotient_of q = (n, d)" by fastforce
  have d: "0 < d" using quotient_of_denom_pos [OF nd] .
  have q: "q = of_int n / of_int d" using quotient_of_div [OF nd] .
  have n: "0 < n" using assms d q by (simp add: zero_less_divide_iff)
  let ?k = "bitlen n - bitlen d"
  note bn = bitlen_pow_bounds [OF n] and bd = bitlen_pow_bounds [OF d]
  have up: "q < 2 powi (?k + 1)"
  proof -
    have "(of_int n :: rat) < 2 powi (bitlen n)" by (rule bn)
    also have "\<dots> = 2 powi (?k + 1) * (2::rat) powi (bitlen d - 1)"
      by (simp add: power_int_add [symmetric])
    also have "\<dots> \<le> 2 powi (?k + 1) * of_int d"
      using bd by simp
    finally show ?thesis using d by (simp add: q field_simps)
  qed
  have lo: "2 powi (?k - 1) \<le> q"
  proof -
    have "2 powi (?k - 1) * of_int d \<le> 2 powi (?k - 1) * (2::rat) powi bitlen d"
      using bd by simp
    also have "\<dots> = 2 powi (bitlen n - 1)" by (simp add: power_int_add [symmetric])
    also have "\<dots> \<le> of_int n" by (rule bn)
    finally show ?thesis using d by (simp add: q field_simps)
  qed
  show "2 powi (ilog2 q) \<le> q" using lo by (simp add: ilog2_def nd Let_def)
  show "q < 2 powi (ilog2 q + 1)" using up by (auto simp: ilog2_def nd Let_def)
qed

lemma ilog2_mono:
  assumes "0 < q" "q \<le> r" shows "ilog2 q \<le> ilog2 r"
proof (rule ccontr)
  assume "\<not> ?thesis"
  then have "ilog2 r + 1 \<le> ilog2 q" by simp
  then have "(2::rat) powi (ilog2 r + 1) \<le> 2 powi (ilog2 q)" by (intro power_int_increasing) auto
  with ilog2_bounds(2) [of r] ilog2_bounds(1) [of q] assms show False by auto
qed

lemma rnd_even_bounds: "\<lfloor>x\<rfloor> \<le> rnd_even x" "rnd_even x \<le> \<lceil>x\<rceil>"
proof -
  show "\<lfloor>x\<rfloor> \<le> rnd_even x" by (simp add: rnd_even_def Let_def)
  show "rnd_even x \<le> \<lceil>x\<rceil>"
    by (auto simp: rnd_even_def Let_def ceiling_altdef)
qed

lemma rnd_even_of_int [simp]: "rnd_even (of_int n) = n"
  by (simp add: rnd_even_def)

lemma rnd_even_mono: assumes "x \<le> y" shows "rnd_even x \<le> rnd_even y"
proof (cases "\<lfloor>x\<rfloor> = \<lfloor>y\<rfloor>")
  case True
  with assms show ?thesis by (auto simp: rnd_even_def Let_def)
next
  case False
  with assms have "\<lfloor>x\<rfloor> + 1 \<le> \<lfloor>y\<rfloor>" using floor_mono [OF assms] by linarith
  moreover have "\<lceil>x\<rceil> \<le> \<lfloor>x\<rfloor> + 1" by linarith
  ultimately show ?thesis using rnd_even_bounds [of x] rnd_even_bounds [of y] by linarith
qed

lemma rnd_even_minus: "rnd_even (- x) = - rnd_even x"
proof (cases "x = of_int \<lfloor>x\<rfloor>")
  case True
  then show ?thesis by (metis of_int_minus rnd_even_of_int)
next
  case False
  then have f: "\<lfloor>- x\<rfloor> = - \<lfloor>x\<rfloor> - 1" by linarith
  show ?thesis by (auto simp: rnd_even_def Let_def f)
qed

lemma rnd_even_error: "\<bar>of_int (rnd_even x) - x\<bar> \<le> 1/2"
proof -
  have f: "of_int \<lfloor>x\<rfloor> \<le> x" "x \<le> of_int \<lfloor>x\<rfloor> + 1" by linarith+
  have "rnd_even x = \<lfloor>x\<rfloor> \<and> x - of_int \<lfloor>x\<rfloor> \<le> 1/2 \<or> rnd_even x = \<lfloor>x\<rfloor> + 1 \<and> 1/2 \<le> x - of_int \<lfloor>x\<rfloor>"
    by (auto simp: rnd_even_def Let_def)
  with f show ?thesis by (elim disjE conjE) (simp_all add: abs_le_iff)
qed

lemma rnd_even_unique:
  assumes "\<bar>x - of_int m\<bar> < 1/2" shows "rnd_even x = m"
proof -
  have "\<bar>of_int (rnd_even x) - (of_int m :: rat)\<bar> < 1"
    using assms rnd_even_error [of x] by linarith
  then show ?thesis by linarith
qed

lemma rnd64_0 [simp]: "rnd64 0 = 0"
  by (simp add: rnd64_def)

lemma rnd64_minus: "rnd64 (- q) = - rnd64 q"
  by (simp add: rnd64_def grid_exp_def Let_def rnd_even_minus)

lemma powi_int_multiple:
  assumes "e \<le> j" shows "\<exists>n. (2::rat) powi j / 2 powi e = of_int n"
proof -
  have "(2::rat) powi j / 2 powi e = 2 powi (j - e)" by (simp add: power_int_diff)
  also have "\<dots> = of_int (2 ^ nat (j - e))" using assms by (simp add: power_int_def)
  finally show ?thesis ..
qed

lemma rnd64_le_grid:
  assumes q: "q \<noteq> 0" and "q \<le> g" and "g / 2 powi grid_exp q = of_int n"
  shows "rnd64 q \<le> g"
proof -
  have "q / 2 powi grid_exp q \<le> g / 2 powi grid_exp q"
    using assms(2) by (rule divide_right_mono) simp
  then have "rnd_even (q / 2 powi grid_exp q) \<le> n"
    using rnd_even_mono assms(3) by fastforce
  then have "of_int (rnd_even (q / 2 powi grid_exp q)) * 2 powi grid_exp q \<le> of_int n * (2::rat) powi grid_exp q"
    by simp
  also have "\<dots> = g" by (simp flip: assms(3))
  finally show ?thesis using q by (simp add: rnd64_def Let_def)
qed

lemma rnd64_ge_grid:
  assumes q: "q \<noteq> 0" and "g \<le> q" and "g / 2 powi grid_exp q = of_int n"
  shows "g \<le> rnd64 q"
proof -
  have "rnd64 (- q) \<le> - g"
    by (rule rnd64_le_grid [of _ _ "- n"]) (use assms in \<open>simp_all add: grid_exp_def\<close>)
  then show ?thesis by (simp add: rnd64_minus)
qed

lemma rnd64_le_pow2:
  assumes "0 < q" "q \<le> 2 powi j" "- 1074 \<le> j" shows "rnd64 q \<le> 2 powi j"
proof -
  have "2 powi (ilog2 q) \<le> (2::rat) powi j" using ilog2_bounds(1) [OF assms(1)] assms(2) by simp
  then have "ilog2 q \<le> j" using power_int_strict_increasing [of j "ilog2 q" "2::rat"] by force
  then have "grid_exp q \<le> j" using assms by (simp add: grid_exp_def)
  then obtain n where "(2::rat) powi j / 2 powi grid_exp q = of_int n" using powi_int_multiple by blast
  then show ?thesis using rnd64_le_grid assms by force
qed

lemma rnd64_ge_pow2:
  assumes "0 < q" "2 powi j \<le> q" "- 1074 \<le> j" "j = ilog2 q" shows "2 powi j \<le> rnd64 q"
proof -
  have "grid_exp q \<le> j" using assms by (simp add: grid_exp_def)
  then obtain n where "(2::rat) powi j / 2 powi grid_exp q = of_int n" using powi_int_multiple by blast
  then show ?thesis using rnd64_ge_grid assms by force
qed

lemma rnd64_nonneg: assumes "0 \<le> q" shows "0 \<le> rnd64 q"
proof (cases "q = 0")
  case False
  then show ?thesis by (rule rnd64_ge_grid [of _ _ 0]) (use assms in simp_all)
qed simp

lemma rnd64_mono_pos:
  assumes "0 < q" "q \<le> r" shows "rnd64 q \<le> rnd64 r"
proof (cases "grid_exp q = grid_exp r")
  case True
  have "q / 2 powi grid_exp r \<le> r / 2 powi grid_exp r" using assms by (simp add: divide_right_mono)
  then have "rnd_even (q / 2 powi grid_exp r) \<le> rnd_even (r / 2 powi grid_exp r)" by (rule rnd_even_mono)
  with True assms show ?thesis by (simp add: rnd64_def Let_def)
next
  case False
  let ?k = "ilog2 r"
  have "ilog2 q \<le> ?k" using ilog2_mono assms by blast
  with False assms have k: "ilog2 q < ?k" "- 1074 \<le> ?k" by (auto simp: grid_exp_def max_def split: if_splits)
  have "q \<le> 2 powi (ilog2 q + 1)" using ilog2_bounds(2) [OF assms(1)] by simp
  also have "\<dots> \<le> 2 powi ?k" using k by (intro power_int_increasing) auto
  finally have "rnd64 q \<le> 2 powi ?k" using rnd64_le_pow2 assms k by blast
  also have "\<dots> \<le> rnd64 r" using rnd64_ge_pow2 ilog2_bounds(1) k assms by simp
  finally show ?thesis .
qed

lemma rnd64_mono: assumes "q \<le> r" shows "rnd64 q \<le> rnd64 r"
proof -
  consider "0 < q" | "q \<le> 0" "0 \<le> r" | "r < 0" by linarith
  then show ?thesis
  proof cases
    case 1
    then show ?thesis using assms by (rule rnd64_mono_pos)
  next
    case 2
    then have "0 \<le> rnd64 (- q)" "0 \<le> rnd64 r" by (simp_all add: rnd64_nonneg)
    then show ?thesis by (simp add: rnd64_minus)
  next
    case 3
    then have "rnd64 (- r) \<le> rnd64 (- q)" using assms by (intro rnd64_mono_pos) auto
    then show ?thesis by (simp add: rnd64_minus)
  qed
qed


subsection \<open>Representable numbers\<close>

definition is_double :: "rat \<Rightarrow> bool" where
  "is_double r \<longleftrightarrow> (\<exists>m e. r = of_int m * 2 powi e \<and> \<bar>m\<bar> \<le> 2 ^ 53 \<and> - 1074 \<le> e)"

lemma powi_le_exp: assumes "(2::rat) powi a \<le> 2 powi b" shows "a \<le> b"
  using assms power_int_strict_increasing [of b a "2::rat"] by force

lemma rnd64_on_grid:
  assumes "q / 2 powi grid_exp q = of_int n" shows "rnd64 q = q"
proof (cases "q = 0")
  case False
  then show ?thesis
    using rnd64_le_grid [OF False order_refl assms] rnd64_ge_grid [OF False order_refl assms] by simp
qed simp

lemma rnd64_exact: assumes "is_double r" shows "rnd64 r = r"
proof (cases "r = 0")
  case False
  from assms obtain m e where r: "r = of_int m * 2 powi e" and m: "\<bar>m\<bar> \<le> 2 ^ 53" and e: "- 1074 \<le> e"
    unfolding is_double_def by blast
  let ?k = "ilog2 \<bar>r\<bar>" and ?g = "grid_exp r"
  have div: "r / 2 powi j = of_int m * (2 powi e / 2 powi j)" for j by (simp add: r)
  show ?thesis
  proof (cases "?g \<le> e")
    case True
    then obtain n where "(2::rat) powi e / 2 powi ?g = of_int n" using powi_int_multiple by blast
    then have "r / 2 powi ?g = of_int (m * n)" by (simp add: div)
    then show ?thesis by (rule rnd64_on_grid)
  next
    case False
    with e have g: "?g = ?k - 52" "e < ?k - 52" by (auto simp: grid_exp_def max_def split: if_splits)
    have "of_int \<bar>m\<bar> \<le> (of_int (2 ^ 53) :: rat)" using m by (simp only: of_int_le_iff)
    then have m': "of_int \<bar>m\<bar> \<le> (2::rat) powi 53" by simp
    have abs: "\<bar>r\<bar> = of_int \<bar>m\<bar> * 2 powi e" by (simp add: r abs_mult)
    have "2 powi ?k \<le> \<bar>r\<bar>" using ilog2_bounds(1) [of "\<bar>r\<bar>"] \<open>r \<noteq> 0\<close> by simp
    also have "\<dots> \<le> 2 powi 53 * 2 powi e" unfolding abs using m' by (intro mult_right_mono) auto
    finally have k: "2 powi ?k \<le> (2::rat) powi (53 + e)" and k': "2 powi ?k \<le> \<bar>r\<bar>"
      using \<open>2 powi ?k \<le> \<bar>r\<bar>\<close> by (simp_all add: power_int_add)
    then have "?k = 53 + e" using powi_le_exp g by fastforce
    then have "(2::rat) powi 53 * 2 powi e \<le> of_int \<bar>m\<bar> * 2 powi e" using k' abs by (simp add: power_int_add)
    then have "(2::rat) powi 53 \<le> of_int \<bar>m\<bar>" by simp
    with m' have "of_int \<bar>m\<bar> = (of_int (2 ^ 53) :: rat)" by simp
    then have am: "\<bar>m\<bar> = 2 ^ 53" by (simp only: of_int_eq_iff)
    have half: "2 powi e / 2 powi ?g = (1::rat) / 2"
      using g \<open>?k = 53 + e\<close> by (simp flip: power_int_diff)
    from am have "m = 2 ^ 53 \<or> m = - (2 ^ 53)" by linarith
    then have "r / 2 powi ?g = of_int (2 ^ 52) \<or> r / 2 powi ?g = of_int (- (2 ^ 52))"
      unfolding div half by (elim disjE) simp_all
    then show ?thesis using rnd64_on_grid by blast
  qed
qed simp


lemma is_double_rnd64: "is_double (rnd64 q)"
proof (cases "q = 0")
  case True
  then show ?thesis by (auto simp: is_double_def intro!: exI [of _ 0])
next
  case False
  let ?k = "ilog2 \<bar>q\<bar>" and ?g = "grid_exp q"
  have "\<bar>q\<bar> < 2 powi (?k + 1)" using False by (intro ilog2_bounds) simp
  also have "\<dots> \<le> 2 powi (53 + ?g)" by (intro power_int_increasing) (auto simp: grid_exp_def)
  also have "\<dots> = 2 powi 53 * 2 powi ?g" by (simp add: power_int_add)
  finally have "\<bar>q / 2 powi ?g\<bar> \<le> of_int (2 ^ 53)" by (simp add: field_simps)
  from abs_le_D1 [OF this] abs_le_D2 [OF this] have "- of_int (2 ^ 53) \<le> q / 2 powi ?g" "q / 2 powi ?g \<le> of_int (2 ^ 53)" by linarith+
  then have "rnd_even (- of_int (2 ^ 53)) \<le> rnd_even (q / 2 powi ?g)" "rnd_even (q / 2 powi ?g) \<le> rnd_even (of_int (2 ^ 53))"
    by (blast intro: rnd_even_mono)+
  then have "\<bar>rnd_even (q / 2 powi ?g)\<bar> \<le> 2 ^ 53"
    unfolding rnd_even_minus rnd_even_of_int by linarith
  moreover have "- 1074 \<le> ?g" by (simp add: grid_exp_def)
  ultimately show ?thesis using False by (auto simp: is_double_def rnd64_def Let_def)
qed

lemma rnd64_idem [simp]: "rnd64 (rnd64 q) = rnd64 q"
  by (rule rnd64_exact) (rule is_double_rnd64)

lemma is_double_of_int: "\<bar>n\<bar> \<le> 2 ^ 53 \<Longrightarrow> is_double (of_int n)"
  unfolding is_double_def by (rule exI [of _ n], rule exI [of _ 0]) simp

lemma is_double_dyadic: "\<bar>n\<bar> \<le> 2 ^ 53 \<Longrightarrow> j \<le> 1074 \<Longrightarrow> is_double (of_int n / 2 ^ j)"
  unfolding is_double_def by (rule exI [of _ n], rule exI [of _ "- int j"]) (simp add: power_int_minus divide_inverse)

lemma rnd64_error: "\<bar>rnd64 q - q\<bar> \<le> 2 powi grid_exp q / 2"
proof (cases "q = 0")
  case False
  let ?p = "(2::rat) powi grid_exp q"
  have "rnd64 q - q = (of_int (rnd_even (q / ?p)) - q / ?p) * ?p" using False by (simp add: rnd64_def Let_def algebra_simps)
  then have "\<bar>rnd64 q - q\<bar> = \<bar>of_int (rnd_even (q / ?p)) - q / ?p\<bar> * ?p" by (simp add: abs_mult)
  also have "\<dots> \<le> 1/2 * ?p" using rnd_even_error by (intro mult_right_mono) auto
  finally show ?thesis by simp
qed simp

lemma rnd64_rel_error: assumes "2 powi (- 1022) \<le> \<bar>q\<bar>" shows "\<bar>rnd64 q - q\<bar> \<le> \<bar>q\<bar> / 2 ^ 53"
proof -
  have q: "0 < \<bar>q\<bar>" using assms zero_less_power_int [of "2::rat" "- 1022"] by linarith
  have "(2::rat) powi (- 1022) < 2 powi (ilog2 \<bar>q\<bar> + 1)" using assms ilog2_bounds(2) [OF q] by linarith
  then have "- 1022 < ilog2 \<bar>q\<bar> + 1" using powi_le_exp by (metis linorder_not_le power_int_increasing one_le_numeral)
  then have "grid_exp q = ilog2 \<bar>q\<bar> - 52" by (simp add: grid_exp_def)
  then have "2 powi grid_exp q / 2 = (2::rat) powi (ilog2 \<bar>q\<bar>) / 2 ^ 53" by (simp add: power_int_diff)
  also have "\<dots> \<le> \<bar>q\<bar> / 2 ^ 53" using ilog2_bounds(1) [OF q] by (intro divide_right_mono) auto
  finally show ?thesis using rnd64_error [of q] by linarith
qed


subsection \<open>Rounding into the format\<close>

lemma fl_cases: "fl q = PosInf \<or> fl q = NegInf \<or> fl q = Fin (rnd64 q)"
  by (simp add: fl_def Let_def)

lemma fl_Fin_iff: "fl q = Fin r \<longleftrightarrow> r = rnd64 q \<and> \<bar>r\<bar> < 2 ^ 1024"
  by (auto simp: fl_def Let_def abs_less_iff)

lemma fl_not_NaN [simp]: "fl q \<noteq> NaN" "NaN \<noteq> fl q"
  using fl_cases [of q] by auto

lemma fl_exact: "is_double r \<Longrightarrow> \<bar>r\<bar> < 2 ^ 1024 \<Longrightarrow> fl r = Fin r"
  by (simp add: fl_Fin_iff rnd64_exact)

lemma fl_0 [simp]: "fl 0 = Fin 0"
  by (simp add: fl_def)

lemma small_lt_overflow: "\<bar>n\<bar> \<le> 2 ^ 53 \<Longrightarrow> \<bar>of_int n / 2 ^ j\<bar> < (2::rat) ^ 1024"
proof -
  assume "\<bar>n\<bar> \<le> 2 ^ 53"
  then have "of_int \<bar>n\<bar> \<le> (of_int (2 ^ 53) :: rat)" by (simp only: of_int_le_iff)
  then have n: "\<bar>of_int n\<bar> \<le> (2::rat) ^ 53" by simp
  have "\<bar>of_int n / 2 ^ j\<bar> = \<bar>of_int n\<bar> / (2::rat) ^ j" by simp
  also have "\<dots> \<le> \<bar>of_int n\<bar>" by (simp add: divide_le_eq mult_le_cancel_left1)
  also have "\<dots> < 2 ^ 1024" using n by (rule le_less_trans) (rule power_strict_increasing, simp_all)
  finally show ?thesis .
qed

lemma fl_dyadic: "\<bar>n\<bar> \<le> 2 ^ 53 \<Longrightarrow> j \<le> 1074 \<Longrightarrow> fl (of_int n / 2 ^ j) = Fin (of_int n / 2 ^ j)"
  by (rule fl_exact) (blast intro: is_double_dyadic small_lt_overflow)+

lemma fl_of_int: "\<bar>n\<bar> \<le> 2 ^ 53 \<Longrightarrow> fl (of_int n) = Fin (of_int n)"
  using fl_dyadic [of n 0] by simp

lemma fl_numeral [simp]: "numeral k \<le> (2 ^ 53 :: int) \<Longrightarrow> fl (numeral k) = Fin (numeral k)"
  using fl_of_int [of "numeral k"] by simp

lemma fl_neg_numeral [simp]: "numeral k \<le> (2 ^ 53 :: int) \<Longrightarrow> fl (- numeral k) = Fin (- numeral k)"
  using fl_of_int [of "- numeral k"] by simp

lemma fl_1 [simp]: "fl 1 = Fin 1" "fl (- 1) = Fin (- 1)"
  using fl_of_int [of 1] fl_of_int [of "- 1"] by simp_all

lemma ilog2_unique: assumes "2 powi k \<le> q" "q < 2 powi (k + 1)" shows "ilog2 q = k"
proof -
  have q: "0 < q" using assms(1) zero_less_power_int [of "2::rat" k] by linarith
  have "(2::rat) powi k < 2 powi (ilog2 q + 1)" using assms(1) ilog2_bounds(2) [OF q] by linarith
  moreover have "(2::rat) powi (ilog2 q) < 2 powi (k + 1)" using assms(2) ilog2_bounds(1) [OF q] by linarith
  ultimately show ?thesis
    by (metis add_le_imp_le_right linorder_not_le order_antisym power_int_increasing one_le_numeral zle_add1_eq_le zless_add1_eq order.order_iff_strict)
qed

text \<open>
  A certificate for the value of a decimal literal: the binade \<open>k\<close> and the 53-bit
  significand \<open>m\<close>. Evaluating \<open>fl\<close> through it needs arithmetic on numerals only.
\<close>

lemma fl_certificate:
  assumes "2 powi k \<le> q" "q < 2 powi (k + 1)" "- 1022 \<le> k" "k < 1000"
    and "\<bar>q / 2 powi (k - 52) - of_int m\<bar> < 1/2"
  shows "fl q = Fin (of_int m * 2 powi (k - 52))"
proof -
  have q: "0 < q" using assms(1) zero_less_power_int [of "2::rat" k] by linarith
  have k: "ilog2 q = k" by (rule ilog2_unique) fact+
  have "grid_exp q = k - 52" using q assms(3) by (simp add: grid_exp_def k)
  then have r: "rnd64 q = of_int m * 2 powi (k - 52)"
    using q rnd_even_unique [OF assms(5)] by (simp add: rnd64_def Let_def)
  have "rnd64 q \<le> 2 powi (k + 1)" using assms by (intro rnd64_le_pow2 q) auto
  also have "\<dots> < (2::rat) powi 1024" using assms(4) by (intro power_int_strict_increasing) auto
  finally have "\<bar>rnd64 q\<bar> < 2 ^ 1024" using rnd64_nonneg [of q] q by simp
  then show ?thesis by (simp add: fl_Fin_iff r)
qed

subsection \<open>Arithmetic and comparison\<close>

fun fneg :: "pyfloat \<Rightarrow> pyfloat" where
  "fneg (Fin a) = Fin (- a)"
| "fneg PosInf = NegInf"
| "fneg NegInf = PosInf"
| "fneg NaN = NaN"

fun fadd :: "pyfloat \<Rightarrow> pyfloat \<Rightarrow> pyfloat" where
  "fadd (Fin a) (Fin b) = fl (a + b)"
| "fadd NaN _ = NaN"
| "fadd _ NaN = NaN"
| "fadd PosInf NegInf = NaN"
| "fadd NegInf PosInf = NaN"
| "fadd PosInf _ = PosInf"
| "fadd _ PosInf = PosInf"
| "fadd NegInf _ = NegInf"
| "fadd _ NegInf = NegInf"

definition fsub :: "pyfloat \<Rightarrow> pyfloat \<Rightarrow> pyfloat" where
  "fsub x y = fadd x (fneg y)"

text \<open>An infinity times, or divided by, a number of sign \<open>s\<close>.\<close>

definition inf_sgn :: "rat \<Rightarrow> pyfloat" where
  "inf_sgn s = (if s = 0 then NaN else if 0 < s then PosInf else NegInf)"

fun fmul :: "pyfloat \<Rightarrow> pyfloat \<Rightarrow> pyfloat" where
  "fmul (Fin a) (Fin b) = fl (a * b)"
| "fmul NaN _ = NaN"
| "fmul _ NaN = NaN"
| "fmul PosInf (Fin b) = inf_sgn b"
| "fmul NegInf (Fin b) = inf_sgn (- b)"
| "fmul (Fin a) PosInf = inf_sgn a"
| "fmul (Fin a) NegInf = inf_sgn (- a)"
| "fmul PosInf PosInf = PosInf"
| "fmul NegInf NegInf = PosInf"
| "fmul PosInf NegInf = NegInf"
| "fmul NegInf PosInf = NegInf"

text \<open>\<open>x / y\<close>: Python raises on a zero divisor, also for an infinity or NaN dividend.\<close>

fun fdiv :: "pyfloat \<Rightarrow> pyfloat \<Rightarrow> pyfloat res" where
  "fdiv x (Fin b) = (if b = 0 then Inl ZeroDivisionError else Inr (case x of
      Fin a \<Rightarrow> fl (a / b) | NaN \<Rightarrow> NaN | PosInf \<Rightarrow> inf_sgn b | NegInf \<Rightarrow> inf_sgn (- b)))"
| "fdiv (Fin a) PosInf = Inr (Fin 0)"
| "fdiv (Fin a) NegInf = Inr (Fin 0)"
| "fdiv _ _ = Inr NaN"

fun flt :: "pyfloat \<Rightarrow> pyfloat \<Rightarrow> bool" where
  "flt (Fin a) (Fin b) = (a < b)"
| "flt NaN _ = False"
| "flt _ NaN = False"
| "flt PosInf _ = False"
| "flt _ NegInf = False"
| "flt NegInf _ = True"
| "flt _ PosInf = True"

fun feq :: "pyfloat \<Rightarrow> pyfloat \<Rightarrow> bool" where
  "feq NaN _ = False"
| "feq _ NaN = False"
| "feq x y = (x = y)"

definition fle :: "pyfloat \<Rightarrow> pyfloat \<Rightarrow> bool" where
  "fle x y \<longleftrightarrow> flt x y \<or> feq x y"

fun fisfinite :: "pyfloat \<Rightarrow> bool" where
  "fisfinite (Fin _) = True"
| "fisfinite _ = False"

text \<open>The built-ins \<open>max(a, b)\<close> and \<open>min(a, b)\<close> keep \<open>a\<close> unless \<open>b\<close> compares beyond it.\<close>

definition fmax :: "pyfloat \<Rightarrow> pyfloat \<Rightarrow> pyfloat" where
  "fmax a b = (if flt a b then b else a)"

definition fmin :: "pyfloat \<Rightarrow> pyfloat \<Rightarrow> pyfloat" where
  "fmin a b = (if flt b a then b else a)"

text \<open>\<open>sum(xs)\<close> of floats: a left fold from the integer 0 (Python 3.11, no compensation).\<close>

definition fsum :: "pyfloat list \<Rightarrow> pyfloat" where
  "fsum xs = foldl fadd (Fin 0) xs"

text \<open>\<open>float(n)\<close> of an integer, and \<open>a / b\<close> of two integers: correctly rounded, raising on overflow.\<close>

definition float_of_rat_exact :: "rat \<Rightarrow> pyfloat res" where
  "float_of_rat_exact q = (if fisfinite (fl q) then Inr (fl q) else Inl OverflowError)"

definition float_of_int :: "int \<Rightarrow> pyfloat res" where
  "float_of_int n = float_of_rat_exact (of_int n)"

definition int_truediv :: "int \<Rightarrow> int \<Rightarrow> pyfloat res" where
  "int_truediv a b = (if b = 0 then Inl ZeroDivisionError else float_of_rat_exact (of_int a / of_int b))"

subsection \<open>Facts about the operations\<close>

lemma fle_simps [simp]:
  "fle (Fin a) (Fin b) = (a \<le> b)" "\<not> fle NaN x" "\<not> fle x NaN"
  "fle (Fin a) PosInf" "\<not> fle PosInf (Fin a)" "\<not> fle (Fin a) NegInf" "fle NegInf (Fin a)"
  by (cases x; auto simp: fle_def)+

lemma flt_NaN [simp]: "\<not> flt NaN x" "\<not> flt x NaN"
  by (cases x; simp)+

lemma feq_NaN [simp]: "\<not> feq NaN x" "\<not> feq x NaN"
  by (cases x; simp)+

lemma flt_irrefl [simp]: "\<not> flt x x"
  by (cases x) auto

lemma flt_trans: "flt x y \<Longrightarrow> flt y z \<Longrightarrow> flt x z"
  by (cases x; cases y; cases z) auto

lemma flt_asym: "flt x y \<Longrightarrow> \<not> flt y x"
  using flt_trans flt_irrefl by blast

lemma flt_antisym_not: "flt x y \<Longrightarrow> \<not> fle y x"
  by (cases x; cases y) (auto simp: fle_def)

lemma fle_trans: "fle x y \<Longrightarrow> fle y z \<Longrightarrow> fle x z"
  by (cases x; cases y; cases z) (auto simp: fle_def)

lemma fisfiniteE: "fisfinite x \<Longrightarrow> (\<And>r. x = Fin r \<Longrightarrow> P) \<Longrightarrow> P"
  by (cases x) auto

lemma fisfinite_iff: "fisfinite x \<longleftrightarrow> (\<exists>r. x = Fin r)"
  by (cases x) auto

lemma fl_mono: assumes "a \<le> b" shows "fle (fl a) (fl b)"
  using rnd64_mono [OF assms] by (auto simp: fl_def Let_def fle_def)

lemma fl_nonneg: "0 \<le> a \<Longrightarrow> fle (Fin 0) (fl a)"
  using fl_mono [of 0 a] by simp

lemma float_of_int_small [simp]: "\<bar>n\<bar> \<le> 2 ^ 53 \<Longrightarrow> float_of_int n = Inr (Fin (of_int n))"
  by (simp add: float_of_int_def float_of_rat_exact_def fl_of_int)

lemma float_of_int_overflow: assumes "2 ^ 1024 \<le> n" shows "float_of_int n = Inl OverflowError"
proof -
  have "is_double (2 ^ 1024)" unfolding is_double_def by (rule exI [of _ 1], rule exI [of _ 1024]) simp
  then have "rnd64 (2 ^ 1024) = 2 ^ 1024" by (rule rnd64_exact)
  moreover have "(2 ^ 1024 :: rat) \<le> of_int n" using assms
    by (metis of_int_le_iff of_int_numeral of_int_power)
  ultimately have "2 ^ 1024 \<le> rnd64 (of_int n)" using rnd64_mono by metis
  then show ?thesis by (simp add: float_of_int_def float_of_rat_exact_def fl_def)
qed

text \<open>Nonnegative floats: closed under addition; the infinity is allowed, NaN is not.\<close>

definition fnonneg :: "pyfloat \<Rightarrow> bool" where
  "fnonneg x \<longleftrightarrow> fle (Fin 0) x"

definition fpos :: "pyfloat \<Rightarrow> bool" where
  "fpos x \<longleftrightarrow> flt (Fin 0) x"

lemma fnonneg_simps [simp]: "fnonneg (Fin a) \<longleftrightarrow> 0 \<le> a" "fnonneg PosInf" "\<not> fnonneg NegInf" "\<not> fnonneg NaN"
  by (simp_all add: fnonneg_def)

lemma fpos_simps [simp]: "fpos (Fin a) \<longleftrightarrow> 0 < a" "fpos PosInf" "\<not> fpos NegInf" "\<not> fpos NaN"
  by (simp_all add: fpos_def)

lemma fpos_nonneg: "fpos x \<Longrightarrow> fnonneg x"
  by (cases x) auto

lemma fl_fnonneg [simp]: "0 \<le> a \<Longrightarrow> fnonneg (fl a)"
  using fl_nonneg by (simp add: fnonneg_def)

lemma fadd_nonneg: "fnonneg x \<Longrightarrow> fnonneg y \<Longrightarrow> fnonneg (fadd x y)"
  by (cases x; cases y) auto

lemma fl_ge: "is_double a \<Longrightarrow> \<bar>a\<bar> < 2 ^ 1024 \<Longrightarrow> a \<le> b \<Longrightarrow> fle (Fin a) (fl b)"
  using fl_mono [of a b] by (simp add: fl_exact)

lemma foldl_fadd_nonneg: "fnonneg s \<Longrightarrow> \<forall>x \<in> set xs. fnonneg x \<Longrightarrow> fnonneg (foldl fadd s xs)"
  by (induction xs arbitrary: s) (auto simp: fadd_nonneg)

lemma fsum_nonneg: "\<forall>x \<in> set xs. fnonneg x \<Longrightarrow> fnonneg (fsum xs)"
  by (simp add: fsum_def foldl_fadd_nonneg)

lemma fsum_Nil [simp]: "fsum [] = Fin 0"
  by (simp add: fsum_def)

text \<open>An infinite summand makes every sum of nonnegative floats infinite.\<close>

lemma foldl_fadd_PosInf: "\<forall>x \<in> set xs. fnonneg x \<Longrightarrow> foldl fadd PosInf xs = PosInf"
proof (induction xs)
  case (Cons x xs)
  then have "fadd PosInf x = PosInf" by (cases x) auto
  with Cons show ?case by simp
qed simp

lemma fsum_PosInf: assumes "\<forall>x \<in> set xs. fnonneg x" and "PosInf \<in> set xs" shows "fsum xs = PosInf"
proof -
  obtain ys zs where xs: "xs = ys @ PosInf # zs" using assms(2) by (meson split_list)
  have "fnonneg (fsum ys)" using assms(1) by (intro fsum_nonneg) (simp add: xs)
  then have "fadd (fsum ys) PosInf = PosInf" by (cases "fsum ys") auto
  then show ?thesis using assms(1) foldl_fadd_PosInf [of zs] by (simp add: xs fsum_def)
qed

end
