(* ===== verification/PyValue.thy ===== *)
theory PyValue
  imports PyFloat
begin

text \<open>
  The values a decoded JSON document holds, and the Python operations the modelled code applies to
  them: truth value, \<open>float()\<close>, \<open>int()\<close>, \<open>str()\<close>, numeric comparison, membership in a tuple of
  strings, \<open>dict.get\<close>, \<open>str.strip\<close>. An operation that may raise returns a result.

  A string is a list of characters with code points below 256. An int has as many digits as it
  needs; \<open>json.loads\<close> refuses a literal of more than 4300 digits, so \<open>str()\<close> of a chain's int
  never fails.
\<close>

datatype pyval =
    PNone
  | PBool bool
  | PInt int
  | PFloat pyfloat
  | PStr string
  | PList "pyval list"
  | PDict "(string \<times> pyval) list"

type_synonym pydict = "(string \<times> pyval) list"

subsection \<open>Types and truth\<close>

fun is_str :: "pyval \<Rightarrow> bool" where
  "is_str (PStr _) = True" | "is_str _ = False"

fun is_dict :: "pyval \<Rightarrow> bool" where
  "is_dict (PDict _) = True" | "is_dict _ = False"

fun is_list :: "pyval \<Rightarrow> bool" where
  "is_list (PList _) = True" | "is_list _ = False"

fun is_bool :: "pyval \<Rightarrow> bool" where
  "is_bool (PBool _) = True" | "is_bool _ = False"

text \<open>\<open>isinstance(v, int) and not isinstance(v, bool)\<close>, and the same for \<open>(int, float)\<close>\<close>

fun is_int :: "pyval \<Rightarrow> bool" where
  "is_int (PInt _) = True" | "is_int _ = False"

fun is_number :: "pyval \<Rightarrow> bool" where
  "is_number (PInt _) = True" | "is_number (PFloat _) = True" | "is_number _ = False"

text \<open>Lists and dicts cannot be members of a set nor keys of a dict: looking one up raises.\<close>

fun hashable :: "pyval \<Rightarrow> bool" where
  "hashable (PList _) = False" | "hashable (PDict _) = False" | "hashable _ = True"

fun truthy :: "pyval \<Rightarrow> bool" where
  "truthy PNone = False"
| "truthy (PBool b) = b"
| "truthy (PInt n) = (n \<noteq> 0)"
| "truthy (PFloat f) = (f \<noteq> Fin 0)"
| "truthy (PStr s) = (s \<noteq> [])"
| "truthy (PList xs) = (xs \<noteq> [])"
| "truthy (PDict d) = (d \<noteq> [])"

text \<open>\<open>x or y\<close>\<close>

definition py_or :: "pyval \<Rightarrow> pyval \<Rightarrow> pyval" where
  "py_or x y = (if truthy x then x else y)"

text \<open>\<open>v in (s1, s2, ...)\<close> for a tuple of strings: equality only, so it never raises\<close>

definition in_strs :: "pyval \<Rightarrow> string list \<Rightarrow> bool" where
  "in_strs v ss \<longleftrightarrow> (\<exists>s \<in> set ss. v = PStr s)"

text \<open>\<open>v in s\<close> for a set (or dict) of strings: an unhashable \<open>v\<close> raises\<close>

definition in_str_set :: "pyval \<Rightarrow> string list \<Rightarrow> bool res" where
  "in_str_set v ss = (if hashable v then Inr (in_strs v ss) else Inl TypeError)"

text \<open>The value of a number, for comparison: Python compares int with float exactly.\<close>

fun num_val :: "pyval \<Rightarrow> pyfloat option" where
  "num_val (PBool b) = Some (Fin (if b then 1 else 0))"
| "num_val (PInt n) = Some (Fin (of_int n))"
| "num_val (PFloat f) = Some f"
| "num_val _ = None"

text \<open>\<open>d.get(k)\<close>\<close>

definition get :: "pydict \<Rightarrow> string \<Rightarrow> pyval" where
  "get d k = (case map_of d k of None \<Rightarrow> PNone | Some v \<Rightarrow> v)"

definition has_key :: "pydict \<Rightarrow> string \<Rightarrow> bool" where
  "has_key d k \<longleftrightarrow> map_of d k \<noteq> None"

lemma get_simps [simp]: "get [] k = PNone" "get ((k', v) # d) k = (if k = k' then v else get d k)"
  by (simp_all add: get_def)

lemma has_key_simps [simp]: "\<not> has_key [] k" "has_key ((k', v) # d) k = (k = k' \<or> has_key d k)"
  by (simp_all add: has_key_def)

lemma in_strs_simps [simp]:
  "\<not> in_strs v []" "in_strs (PStr s) (t # ts) = (s = t \<or> in_strs (PStr s) ts)"
  by (auto simp: in_strs_def)

lemma in_strs_iff: "in_strs v ss \<longleftrightarrow> (\<exists>s. v = PStr s \<and> s \<in> set ss)"
  by (auto simp: in_strs_def)

lemma in_strs_not_str [simp]:
  "\<not> in_strs PNone ss" "\<not> in_strs (PBool b) ss" "\<not> in_strs (PInt n) ss" "\<not> in_strs (PFloat f) ss"
  "\<not> in_strs (PList xs) ss" "\<not> in_strs (PDict d) ss"
  by (simp_all add: in_strs_def)

lemma is_strE: "is_str v \<Longrightarrow> (\<And>s. v = PStr s \<Longrightarrow> P) \<Longrightarrow> P"
  by (cases v) auto

lemma py_or_simps [simp]: "truthy x \<Longrightarrow> py_or x y = x" "\<not> truthy x \<Longrightarrow> py_or x y = y"
  by (simp_all add: py_or_def)

subsection \<open>Strings\<close>

text \<open>\<open>str.isspace\<close> below code point 256\<close>

definition is_space :: "char \<Rightarrow> bool" where
  "is_space c \<longleftrightarrow> (let n = of_char c :: nat in (9 \<le> n \<and> n \<le> 13) \<or> (28 \<le> n \<and> n \<le> 32) \<or> n = 133 \<or> n = 160)"

definition strip :: "string \<Rightarrow> string" where
  "strip s = rev (dropWhile is_space (rev (dropWhile is_space s)))"

lemma strip_eq_Nil: "strip s = [] \<longleftrightarrow> (\<forall>c \<in> set s. is_space c)"
proof -
  have "strip s = [] \<longleftrightarrow> (\<forall>c \<in> set (dropWhile is_space s). is_space c)" by (simp add: strip_def)
  also have "\<dots> \<longleftrightarrow> (\<forall>c \<in> set s. is_space c)" by (induction s) auto
  finally show ?thesis .
qed

definition is_digit :: "char \<Rightarrow> bool" where
  "is_digit c \<longleftrightarrow> (let n = of_char c :: nat in 48 \<le> n \<and> n \<le> 57)"

definition digit_val :: "char \<Rightarrow> int" where
  "digit_val c = int (of_char c) - 48"

definition digits_val :: "string \<Rightarrow> int" where
  "digits_val s = foldl (\<lambda>n c. 10 * n + digit_val c) 0 s"

text \<open>Underscores are accepted between two digits only, and then dropped.\<close>

fun underscores_ok :: "char \<Rightarrow> string \<Rightarrow> bool" where
  "underscores_ok p [] = (p \<noteq> CHR ''_'')"
| "underscores_ok p (c # cs) =
     ((c = CHR ''_'' \<longrightarrow> is_digit p) \<and> (p = CHR ''_'' \<longrightarrow> is_digit c) \<and> underscores_ok c cs)"

definition drop_underscores :: "string \<Rightarrow> string option" where
  "drop_underscores s = (if underscores_ok (CHR '' '') s then Some (filter (\<lambda>c. c \<noteq> CHR ''_'') s) else None)"

fun split_sign :: "string \<Rightarrow> int \<times> string" where
  "split_sign [] = (1, [])"
| "split_sign (c # cs) = (if c = CHR ''-'' then (- 1, cs) else if c = CHR ''+'' then (1, cs) else (1, c # cs))"

definition lower :: "char \<Rightarrow> char" where
  "lower c = (let n = of_char c :: nat in if 65 \<le> n \<and> n \<le> 90 then char_of (n + 32) else c)"

text \<open>The exponent part of a float literal: none, or \<open>e\<close>, a sign and digits up to the end.\<close>

definition parse_exponent :: "string \<Rightarrow> int option" where
  "parse_exponent s = (case s of [] \<Rightarrow> Some 0
     | c # cs \<Rightarrow> if lower c = CHR ''e''
         then (case split_sign cs of (sg, ds) \<Rightarrow> if ds \<noteq> [] \<and> list_all is_digit ds then Some (sg * digits_val ds) else None)
         else None)"

definition parse_decimal :: "string \<Rightarrow> rat option" where
  "parse_decimal s =
     (let ip = takeWhile is_digit s; r = dropWhile is_digit s;
          (fp, r') = (case r of [] \<Rightarrow> ([], []) | c # cs \<Rightarrow>
             if c = CHR ''.'' then (takeWhile is_digit cs, dropWhile is_digit cs) else ([], r))
      in if ip = [] \<and> fp = [] then None
         else map_option (\<lambda>e. of_int (digits_val (ip @ fp)) * 10 powi (e - int (length fp))) (parse_exponent r'))"

definition parse_float :: "string \<Rightarrow> pyfloat option" where
  "parse_float s0 = (case drop_underscores (strip s0) of None \<Rightarrow> None | Some s \<Rightarrow>
     (case split_sign s of (sg, t) \<Rightarrow>
        let w = map lower t in
        if w = ''inf'' \<or> w = ''infinity'' then Some (if sg = 1 then PosInf else NegInf)
        else if w = ''nan'' then Some NaN
        else map_option (\<lambda>q. fl (of_int sg * q)) (parse_decimal t)))"

definition parse_int :: "string \<Rightarrow> int option" where
  "parse_int s0 = (case drop_underscores (strip s0) of None \<Rightarrow> None | Some s \<Rightarrow>
     (case split_sign s of (sg, t) \<Rightarrow>
        if t \<noteq> [] \<and> list_all is_digit t \<and> length t \<le> 4300 then Some (sg * digits_val t) else None))"

subsection \<open>Conversions\<close>

text \<open>\<open>float(v)\<close>\<close>

fun py_float :: "pyval \<Rightarrow> pyfloat res" where
  "py_float (PBool b) = Inr (Fin (if b then 1 else 0))"
| "py_float (PInt n) = float_of_int n"
| "py_float (PFloat f) = Inr f"
| "py_float (PStr s) = (case parse_float s of Some f \<Rightarrow> Inr f | None \<Rightarrow> Inl ValueError)"
| "py_float _ = Inl TypeError"

text \<open>\<open>int(v)\<close>: a float is truncated towards zero\<close>

definition trunc :: "rat \<Rightarrow> int" where
  "trunc q = (if 0 \<le> q then \<lfloor>q\<rfloor> else \<lceil>q\<rceil>)"

fun py_int :: "pyval \<Rightarrow> int res" where
  "py_int (PBool b) = Inr (if b then 1 else 0)"
| "py_int (PInt n) = Inr n"
| "py_int (PFloat (Fin q)) = Inr (trunc q)"
| "py_int (PFloat NaN) = Inl ValueError"
| "py_int (PFloat _) = Inl OverflowError"
| "py_int (PStr s) = (case parse_int s of Some n \<Rightarrow> Inr n | None \<Rightarrow> Inl ValueError)"
| "py_int _ = Inl TypeError"

text \<open>
  \<open>try: x = float(v) except (TypeError, ValueError, OverflowError): return None;
  return x if math.isfinite(x) else None\<close>
\<close>

definition finite_float :: "pyval \<Rightarrow> pyfloat option" where
  "finite_float v = (case py_float v of Inl e \<Rightarrow> None | Inr f \<Rightarrow> if fisfinite f then Some f else None)"

lemma py_float_errors: "py_float v = Inl e \<Longrightarrow> type_value_overflow e"
  by (cases v) (auto simp: float_of_int_def float_of_rat_exact_def split: if_splits option.splits)

lemma py_int_errors: "py_int v = Inl e \<Longrightarrow> type_value_overflow e"
  by (cases v rule: py_int.cases) (auto split: option.splits)

lemma finite_float_Some: "finite_float v = Some f \<longleftrightarrow> py_float v = Inr f \<and> fisfinite f"
  by (auto simp: finite_float_def split: sum.splits if_splits)

lemma finite_float_finite: "finite_float v = Some f \<Longrightarrow> \<exists>r. f = Fin r"
  by (auto simp: finite_float_Some fisfinite_iff)

subsection \<open>Printing\<close>

function nat_digits :: "int \<Rightarrow> string" where
  "nat_digits n = (if n < 10 then [char_of (48 + n)] else nat_digits (n div 10) @ [char_of (48 + n mod 10)])"
  by pat_completeness auto
termination
  by (relation "measure nat") auto

declare nat_digits.simps [simp del]

definition int_str :: "int \<Rightarrow> string" where
  "int_str n = (if n < 0 then ''-'' @ nat_digits (- n) else nat_digits n)"

text \<open>
  \<open>repr(float)\<close>: the fewest significant digits that read back as the same float, the closest such
  number if there are several, in fixed notation for decimal exponents from -4 to 15.
\<close>

definition dec_exp :: "rat \<Rightarrow> int" where
  "dec_exp q = (let (n, d) = quotient_of q;
       k = int (length (nat_digits n)) - int (length (nat_digits d))
     in if 10 powi k \<le> q then k else k - 1)"

definition shortest_digits :: "rat \<Rightarrow> (int \<times> int) option" where
  "shortest_digits q =
     (let e = dec_exp q;
          cand = (\<lambda>p. let k = e - int p + 1; s = q / 10 powi k; lo = \<lfloor>s\<rfloor>
             in map (\<lambda>m. (m, k)) (if s - of_int lo \<le> of_int (lo + 1) - s then [lo, lo + 1] else [lo + 1, lo]))
      in find (\<lambda>(m, k). fl (of_int m * 10 powi k) = Fin q) (concat (map cand [1..<18])))"

definition format_digits :: "string \<Rightarrow> int \<Rightarrow> string" where
  "format_digits ds pt =
     (if pt \<le> - 4 \<or> 16 < pt
      then (let x = pt - 1; xs = nat_digits \<bar>x\<bar>
            in take 1 ds @ (if length ds = 1 then [] else ''.'' @ drop 1 ds) @ ''e''
               @ (if x < 0 then ''-'' else ''+'') @ (if length xs < 2 then ''0'' @ xs else xs))
      else if pt \<le> 0 then ''0.'' @ replicate (nat (- pt)) (CHR ''0'') @ ds
      else if int (length ds) \<le> pt then ds @ replicate (nat pt - length ds) (CHR ''0'') @ ''.0''
      else take (nat pt) ds @ ''.'' @ drop (nat pt) ds)"

fun float_repr :: "pyfloat \<Rightarrow> string" where
  "float_repr PosInf = ''inf''"
| "float_repr NegInf = ''-inf''"
| "float_repr NaN = ''nan''"
| "float_repr (Fin q) =
     (if q = 0 then ''0.0'' else (if q < 0 then ''-'' else []) @
       (case shortest_digits \<bar>q\<bar> of Some (m, k) \<Rightarrow>
          (let ds = nat_digits m in format_digits ds (int (length ds) + k)) | None \<Rightarrow> []))"

definition hex_digit :: "nat \<Rightarrow> char" where
  "hex_digit n = (if n < 10 then char_of (48 + n) else char_of (87 + n))"

definition repr_char :: "char \<Rightarrow> char \<Rightarrow> string" where
  "repr_char q c = (let n = of_char c :: nat in
     if c = q \<or> n = 92 then [char_of (92 :: nat), c]
     else if n = 10 then [char_of (92 :: nat), CHR ''n'']
     else if n = 13 then [char_of (92 :: nat), CHR ''r'']
     else if n = 9 then [char_of (92 :: nat), CHR ''t'']
     else if n < 32 \<or> (127 \<le> n \<and> n \<le> 160) \<or> n = 173
     then [char_of (92 :: nat), CHR ''x'', hex_digit (n div 16), hex_digit (n mod 16)]
     else [c])"

definition str_repr :: "string \<Rightarrow> string" where
  "str_repr s = (let q = (if char_of (39 :: nat) \<in> set s \<and> char_of (34 :: nat) \<notin> set s then char_of (34 :: nat) else char_of (39 :: nat))
     in [q] @ concat (map (repr_char q) s) @ [q])"

fun join :: "string \<Rightarrow> string list \<Rightarrow> string" where
  "join sep [] = []"
| "join sep [s] = s"
| "join sep (s # t # ts) = s @ sep @ join sep (t # ts)"

fun py_repr :: "pyval \<Rightarrow> string" where
  "py_repr PNone = ''None''"
| "py_repr (PBool b) = (if b then ''True'' else ''False'')"
| "py_repr (PInt n) = int_str n"
| "py_repr (PFloat f) = float_repr f"
| "py_repr (PStr s) = str_repr s"
| "py_repr (PList xs) = ''['' @ join '', '' (map py_repr xs) @ '']''"
| "py_repr (PDict d) = ''{'' @ join '', '' (map (\<lambda>(k, v). str_repr k @ '': '' @ py_repr v) d) @ ''}''"

fun py_str :: "pyval \<Rightarrow> string" where
  "py_str (PStr s) = s"
| "py_str v = py_repr v"

lemma nat_digits_not_Nil [simp]: "nat_digits n \<noteq> []"
  by (subst nat_digits.simps) simp

lemma int_str_not_Nil [simp]: "int_str n \<noteq> []"
  by (simp add: int_str_def)

end
