(* ===== verification/Config.thy ===== *)
theory Config
  imports PyValue
begin

text \<open>
  \<open>services/infonet/config.py\<close>: the constitutional principles, the baseline of the amendable
  parameters, their per-key schema, the cross-field invariants and the validators. \<open>CONFIG\<close> is a
  module-level dict that other modules read at every call: here it is an explicit argument
  \<open>cfg\<close>, and \<open>config_ok\<close> is the invariant that governance must keep of it. A float literal of the
  source is the rounded decimal \<open>fl 0.75\<close>.
\<close>

subsection \<open>The data\<close>

record schema_entry =
  stype :: string
  smin :: "pyval option"
  smax :: "pyval option"
  senum :: "pyval list option"

abbreviation entry :: "string \<Rightarrow> pyval option \<Rightarrow> pyval option \<Rightarrow> pyval list option \<Rightarrow> schema_entry" where
  "entry t lo hi en \<equiv> \<lparr>stype = t, smin = lo, smax = hi, senum = en\<rparr>"

definition immutable_principles :: pydict where
  "immutable_principles =
    [(''oracle_rep_source'', PStr ''predictions_only''),
     (''hashchain_append_only'', PBool True),
     (''audit_public'', PBool True),
     (''identity_permissionless'', PBool True),
     (''signature_required'', PBool True),
     (''redemption_path_exists'', PBool True),
     (''coin_governance_firewall'', PBool True),
     (''protocol_version'', PStr ''0.1.0'')]"

definition baseline_config :: pydict where
  "baseline_config =
    [(''vote_decay_days'', PInt 90),
     (''min_rep_to_vote'', PInt 3),
     (''min_rep_to_create_gate'', PInt 10),
     (''bootstrap_threshold'', PInt 1000),
     (''weekly_vote_base'', PInt 5),
     (''weekly_vote_per_oracle'', PInt 10),
     (''daily_vote_limit_per_target'', PInt 1),
     (''oracle_min_earned'', PFloat (fl 0.01)),
     (''farming_soft_threshold'', PFloat (fl 0.60)),
     (''farming_hard_threshold'', PFloat (fl 0.80)),
     (''farming_easy_bet_cutoff'', PFloat (fl 0.80)),
     (''subjective_oracle_rep_mint'', PBool False),
     (''min_market_participants'', PInt 5),
     (''min_market_total_stake'', PFloat (fl 10.0)),
     (''evidence_window_hours'', PInt 48),
     (''resolution_window_hours'', PInt 72),
     (''evidence_bond_cost'', PFloat (fl 2.0)),
     (''evidence_first_bonus'', PFloat (fl 0.5)),
     (''resolution_supermajority'', PFloat (fl 0.75)),
     (''min_resolution_stake_total'', PFloat (fl 20.0)),
     (''resolution_loser_burn_pct'', PFloat (fl 0.02)),
     (''data_unavailable_threshold'', PFloat (fl 0.33)),
     (''resolution_stalemate_burn_pct'', PFloat (fl 0.02)),
     (''governance_decay_days'', PInt 90),
     (''governance_decay_factor'', PFloat (fl 0.50)),
     (''max_future_event_drift_sec'', PInt 300),
     (''phase_boundary_stale_reject'', PBool True),
     (''rotation_blocked_during_stakes'', PBool True),
     (''vcs_min_weight'', PFloat (fl 0.10)),
     (''clustering_min_weight'', PFloat (fl 0.20)),
     (''temporal_burst_window_sec'', PInt 300),
     (''temporal_burst_min_upreps'', PInt 5),
     (''progressive_penalty_base'', PFloat (fl 1.0)),
     (''common_rep_weight_factor'', PFloat (fl 0.10)),
     (''progressive_penalty_threshold'', PFloat (fl 0.0)),
     (''gate_ratification_rep'', PInt 50),
     (''gate_lock_cost_per_member'', PInt 10),
     (''gate_lock_min_members'', PInt 5),
     (''gate_creation_rate_limit'', PInt 5),
     (''truth_stake_min_days'', PInt 1),
     (''truth_stake_max_days'', PInt 7),
     (''truth_stake_grace_hours'', PInt 24),
     (''truth_stake_max_extensions'', PInt 3),
     (''truth_stake_tie_burn_pct'', PFloat (fl 0.20)),
     (''truth_stake_self_stake'', PBool False),
     (''dispute_window_days'', PInt 7),
     (''dispute_common_rep_stakeable'', PBool True),
     (''monthly_mint_amount'', PInt 100000),
     (''ubi_share_pct'', PFloat (fl 0.50)),
     (''oracle_dividend_pct'', PFloat (fl 0.50)),
     (''citizenship_sacrifice_cost'', PInt 10),
     (''year1_max_coins_per_node'', PInt 10000),
     (''petition_filing_cost'', PInt 15),
     (''petition_signature_threshold'', PFloat (fl 0.25)),
     (''petition_signature_window_days'', PInt 14),
     (''petition_vote_window_days'', PInt 7),
     (''petition_supermajority'', PFloat (fl 0.67)),
     (''petition_quorum'', PFloat (fl 0.30)),
     (''challenge_filing_cost'', PInt 25),
     (''challenge_window_hours'', PInt 48),
     (''upgrade_filing_cost'', PInt 25),
     (''upgrade_signature_threshold'', PFloat (fl 0.25)),
     (''upgrade_signature_window_days'', PInt 14),
     (''upgrade_vote_window_days'', PInt 14),
     (''upgrade_supermajority'', PFloat (fl 0.80)),
     (''upgrade_quorum'', PFloat (fl 0.40)),
     (''upgrade_activation_threshold'', PFloat (fl 0.67)),
     (''upgrade_activation_window_days'', PInt 30),
     (''upgrade_challenge_window_hours'', PInt 48),
     (''gate_suspend_filing_cost'', PInt 15),
     (''gate_shutdown_filing_cost'', PInt 25),
     (''gate_suspend_supermajority'', PFloat (fl 0.67)),
     (''gate_suspend_locked_supermajority'', PFloat (fl 0.75)),
     (''gate_shutdown_supermajority'', PFloat (fl 0.75)),
     (''gate_shutdown_locked_supermajority'', PFloat (fl 0.80)),
     (''gate_shutdown_quorum'', PFloat (fl 0.30)),
     (''gate_suspend_duration_days'', PInt 30),
     (''gate_shutdown_execution_delay_days'', PInt 7),
     (''gate_shutdown_cooldown_days'', PInt 90),
     (''gate_shutdown_fail_penalty_days'', PInt 30),
     (''gate_shutdown_appeal_filing_cost'', PInt 20),
     (''gate_shutdown_appeal_window_hours'', PInt 48),
     (''gate_shutdown_appeal_vote_window_days'', PInt 7),
     (''gate_shutdown_appeal_supermajority'', PFloat (fl 0.67)),
     (''gate_shutdown_appeal_locked_supermajority'', PFloat (fl 0.75)),
     (''gate_shutdown_appeal_quorum'', PFloat (fl 0.30)),
     (''market_creation_bond'', PInt 3),
     (''market_creation_bond_return_threshold'', PInt 5),
     (''bootstrap_market_count'', PInt 100),
     (''bootstrap_evidence_bond_cost'', PInt 0),
     (''bootstrap_resolution_mode'', PStr ''eligible_node_one_vote''),
     (''bootstrap_resolution_supermajority'', PFloat (fl 0.75)),
     (''bootstrap_min_identity_age_days'', PInt 3),
     (''bootstrap_pow_algorithm'', PStr ''argon2id''),
     (''bootstrap_pow_argon2id_version'', PInt 19),
     (''bootstrap_pow_argon2id_m'', PInt 65536),
     (''bootstrap_pow_argon2id_t'', PInt 3),
     (''bootstrap_pow_argon2id_p'', PInt 1),
     (''bootstrap_pow_argon2id_output_len'', PInt 32),
     (''bootstrap_pow_difficulty'', PInt 16),
     (''ramp_staked_resolution_threshold'', PInt 1000),
     (''ramp_petitions_threshold'', PInt 2000),
     (''ramp_upgrade_threshold'', PInt 5000),
     (''ramp_commoncoin_threshold'', PInt 10000)]"

definition config_schema :: "(string \<times> schema_entry) list" where
  "config_schema =
    [(''vote_decay_days'', entry ''int'' (Some (PInt 7)) (Some (PInt 365)) None),
     (''min_rep_to_vote'', entry ''int'' (Some (PInt 0)) (Some (PInt 100)) None),
     (''min_rep_to_create_gate'', entry ''int'' (Some (PInt 1)) (Some (PInt 1000)) None),
     (''bootstrap_threshold'', entry ''int'' (Some (PInt 100)) (Some (PInt 100000)) None),
     (''weekly_vote_base'', entry ''int'' (Some (PInt 1)) (Some (PInt 100)) None),
     (''weekly_vote_per_oracle'', entry ''int'' (Some (PInt 1)) (Some (PInt 1000)) None),
     (''daily_vote_limit_per_target'', entry ''int'' (Some (PInt 1)) (Some (PInt 10)) None),
     (''oracle_min_earned'', entry ''float'' (Some (PFloat (fl 0.001))) (Some (PFloat (fl 1.0))) None),
     (''farming_soft_threshold'', entry ''float'' (Some (PFloat (fl 0.10))) (Some (PFloat (fl 0.95))) None),
     (''farming_hard_threshold'', entry ''float'' (Some (PFloat (fl 0.20))) (Some (PFloat (fl 0.99))) None),
     (''farming_easy_bet_cutoff'', entry ''float'' (Some (PFloat (fl 0.50))) (Some (PFloat (fl 0.99))) None),
     (''subjective_oracle_rep_mint'', entry ''bool'' None None None),
     (''min_market_participants'', entry ''int'' (Some (PInt 2)) (Some (PInt 100)) None),
     (''min_market_total_stake'', entry ''float'' (Some (PFloat (fl 1.0))) (Some (PFloat (fl 1000.0))) None),
     (''evidence_window_hours'', entry ''int'' (Some (PInt 12)) (Some (PInt 168)) None),
     (''resolution_window_hours'', entry ''int'' (Some (PInt 24)) (Some (PInt 336)) None),
     (''evidence_bond_cost'', entry ''float'' (Some (PFloat (fl 0.5))) (Some (PFloat (fl 50.0))) None),
     (''evidence_first_bonus'', entry ''float'' (Some (PFloat (fl 0.0))) (Some (PFloat (fl 10.0))) None),
     (''resolution_supermajority'', entry ''float'' (Some (PFloat (fl 0.51))) (Some (PFloat (fl 0.95))) None),
     (''min_resolution_stake_total'', entry ''float'' (Some (PFloat (fl 5.0))) (Some (PFloat (fl 500.0))) None),
     (''resolution_loser_burn_pct'', entry ''float'' (Some (PFloat (fl 0.0))) (Some (PFloat (fl 0.10))) None),
     (''data_unavailable_threshold'', entry ''float'' (Some (PFloat (fl 0.10))) (Some (PFloat (fl 0.50))) None),
     (''resolution_stalemate_burn_pct'', entry ''float'' (Some (PFloat (fl 0.0))) (Some (PFloat (fl 0.10))) None),
     (''governance_decay_days'', entry ''int'' (Some (PInt 7)) (Some (PInt 365)) None),
     (''governance_decay_factor'', entry ''float'' (Some (PFloat (fl 0.10))) (Some (PFloat (fl 0.99))) None),
     (''max_future_event_drift_sec'', entry ''int'' (Some (PInt 30)) (Some (PInt 3600)) None),
     (''phase_boundary_stale_reject'', entry ''bool'' None None None),
     (''rotation_blocked_during_stakes'', entry ''bool'' None None None),
     (''vcs_min_weight'', entry ''float'' (Some (PFloat (fl 0.0))) (Some (PFloat (fl 1.0))) None),
     (''clustering_min_weight'', entry ''float'' (Some (PFloat (fl 0.0))) (Some (PFloat (fl 1.0))) None),
     (''temporal_burst_window_sec'', entry ''int'' (Some (PInt 30)) (Some (PInt 3600)) None),
     (''temporal_burst_min_upreps'', entry ''int'' (Some (PInt 2)) (Some (PInt 100)) None),
     (''progressive_penalty_base'', entry ''float'' (Some (PFloat (fl 0.1))) (Some (PFloat (fl 100.0))) None),
     (''common_rep_weight_factor'', entry ''float'' (Some (PFloat (fl 0.0))) (Some (PFloat (fl 1.0))) None),
     (''progressive_penalty_threshold'', entry ''float'' (Some (PFloat (fl 0.0))) (Some (PFloat (fl 1.0))) None),
     (''gate_ratification_rep'', entry ''int'' (Some (PInt 1)) (Some (PInt 10000)) None),
     (''gate_lock_cost_per_member'', entry ''int'' (Some (PInt 1)) (Some (PInt 1000)) None),
     (''gate_lock_min_members'', entry ''int'' (Some (PInt 2)) (Some (PInt 1000)) None),
     (''gate_creation_rate_limit'', entry ''int'' (Some (PInt 1)) (Some (PInt 100)) None),
     (''truth_stake_min_days'', entry ''int'' (Some (PInt 1)) (Some (PInt 30)) None),
     (''truth_stake_max_days'', entry ''int'' (Some (PInt 1)) (Some (PInt 90)) None),
     (''truth_stake_grace_hours'', entry ''int'' (Some (PInt 1)) (Some (PInt 168)) None),
     (''truth_stake_max_extensions'', entry ''int'' (Some (PInt 0)) (Some (PInt 10)) None),
     (''truth_stake_tie_burn_pct'', entry ''float'' (Some (PFloat (fl 0.0))) (Some (PFloat (fl 0.50))) None),
     (''truth_stake_self_stake'', entry ''bool'' None None None),
     (''dispute_window_days'', entry ''int'' (Some (PInt 1)) (Some (PInt 30)) None),
     (''dispute_common_rep_stakeable'', entry ''bool'' None None None),
     (''monthly_mint_amount'', entry ''int'' (Some (PInt 1)) (Some (PInt 1000000000)) None),
     (''ubi_share_pct'', entry ''float'' (Some (PFloat (fl 0.0))) (Some (PFloat (fl 1.0))) None),
     (''oracle_dividend_pct'', entry ''float'' (Some (PFloat (fl 0.0))) (Some (PFloat (fl 1.0))) None),
     (''citizenship_sacrifice_cost'', entry ''int'' (Some (PInt 1)) (Some (PInt 1000)) None),
     (''year1_max_coins_per_node'', entry ''int'' (Some (PInt 1)) (Some (PInt 1000000000)) None),
     (''petition_filing_cost'', entry ''int'' (Some (PInt 1)) (Some (PInt 100)) None),
     (''petition_signature_threshold'', entry ''float'' (Some (PFloat (fl 0.05))) (Some (PFloat (fl 0.50))) None),
     (''petition_signature_window_days'', entry ''int'' (Some (PInt 1)) (Some (PInt 60)) None),
     (''petition_vote_window_days'', entry ''int'' (Some (PInt 1)) (Some (PInt 30)) None),
     (''petition_supermajority'', entry ''float'' (Some (PFloat (fl 0.51))) (Some (PFloat (fl 0.95))) None),
     (''petition_quorum'', entry ''float'' (Some (PFloat (fl 0.10))) (Some (PFloat (fl 0.80))) None),
     (''challenge_filing_cost'', entry ''int'' (Some (PInt 1)) (Some (PInt 200)) None),
     (''challenge_window_hours'', entry ''int'' (Some (PInt 12)) (Some (PInt 168)) None),
     (''upgrade_filing_cost'', entry ''int'' (Some (PInt 1)) (Some (PInt 200)) None),
     (''upgrade_signature_threshold'', entry ''float'' (Some (PFloat (fl 0.05))) (Some (PFloat (fl 0.50))) None),
     (''upgrade_signature_window_days'', entry ''int'' (Some (PInt 1)) (Some (PInt 60)) None),
     (''upgrade_vote_window_days'', entry ''int'' (Some (PInt 1)) (Some (PInt 60)) None),
     (''upgrade_supermajority'', entry ''float'' (Some (PFloat (fl 0.51))) (Some (PFloat (fl 0.99))) None),
     (''upgrade_quorum'', entry ''float'' (Some (PFloat (fl 0.10))) (Some (PFloat (fl 0.95))) None),
     (''upgrade_activation_threshold'', entry ''float'' (Some (PFloat (fl 0.51))) (Some (PFloat (fl 0.99))) None),
     (''upgrade_activation_window_days'', entry ''int'' (Some (PInt 1)) (Some (PInt 90)) None),
     (''upgrade_challenge_window_hours'', entry ''int'' (Some (PInt 12)) (Some (PInt 168)) None),
     (''gate_suspend_filing_cost'', entry ''int'' (Some (PInt 1)) (Some (PInt 200)) None),
     (''gate_shutdown_filing_cost'', entry ''int'' (Some (PInt 1)) (Some (PInt 200)) None),
     (''gate_suspend_supermajority'', entry ''float'' (Some (PFloat (fl 0.51))) (Some (PFloat (fl 0.95))) None),
     (''gate_suspend_locked_supermajority'', entry ''float'' (Some (PFloat (fl 0.51))) (Some (PFloat (fl 0.95))) None),
     (''gate_shutdown_supermajority'', entry ''float'' (Some (PFloat (fl 0.51))) (Some (PFloat (fl 0.99))) None),
     (''gate_shutdown_locked_supermajority'', entry ''float'' (Some (PFloat (fl 0.51))) (Some (PFloat (fl 0.99))) None),
     (''gate_shutdown_quorum'', entry ''float'' (Some (PFloat (fl 0.10))) (Some (PFloat (fl 0.80))) None),
     (''gate_suspend_duration_days'', entry ''int'' (Some (PInt 1)) (Some (PInt 365)) None),
     (''gate_shutdown_execution_delay_days'', entry ''int'' (Some (PInt 1)) (Some (PInt 90)) None),
     (''gate_shutdown_cooldown_days'', entry ''int'' (Some (PInt 7)) (Some (PInt 365)) None),
     (''gate_shutdown_fail_penalty_days'', entry ''int'' (Some (PInt 0)) (Some (PInt 365)) None),
     (''gate_shutdown_appeal_filing_cost'', entry ''int'' (Some (PInt 1)) (Some (PInt 200)) None),
     (''gate_shutdown_appeal_window_hours'', entry ''int'' (Some (PInt 12)) (Some (PInt 168)) None),
     (''gate_shutdown_appeal_vote_window_days'', entry ''int'' (Some (PInt 1)) (Some (PInt 30)) None),
     (''gate_shutdown_appeal_supermajority'', entry ''float'' (Some (PFloat (fl 0.51))) (Some (PFloat (fl 0.95))) None),
     (''gate_shutdown_appeal_locked_supermajority'', entry ''float'' (Some (PFloat (fl 0.51))) (Some (PFloat (fl 0.95))) None),
     (''gate_shutdown_appeal_quorum'', entry ''float'' (Some (PFloat (fl 0.10))) (Some (PFloat (fl 0.80))) None),
     (''market_creation_bond'', entry ''int'' (Some (PInt 0)) (Some (PInt 1000)) None),
     (''market_creation_bond_return_threshold'', entry ''int'' (Some (PInt 1)) (Some (PInt 1000)) None),
     (''bootstrap_market_count'', entry ''int'' (Some (PInt 0)) (Some (PInt 100000)) None),
     (''bootstrap_evidence_bond_cost'', entry ''float'' (Some (PFloat (fl 0.0))) (Some (PFloat (fl 50.0))) None),
     (''bootstrap_resolution_mode'', entry ''str'' None None (Some [PStr ''eligible_node_one_vote''])),
     (''bootstrap_resolution_supermajority'', entry ''float'' (Some (PFloat (fl 0.51))) (Some (PFloat (fl 0.95))) None),
     (''bootstrap_min_identity_age_days'', entry ''int'' (Some (PInt 0)) (Some (PInt 365)) None),
     (''bootstrap_pow_algorithm'', entry ''str'' None None (Some [PStr ''argon2id''])),
     (''bootstrap_pow_argon2id_version'', entry ''int'' None None (Some [PInt 19])),
     (''bootstrap_pow_argon2id_m'', entry ''int'' (Some (PInt 8192)) (Some (PInt 1048576)) None),
     (''bootstrap_pow_argon2id_t'', entry ''int'' (Some (PInt 1)) (Some (PInt 100)) None),
     (''bootstrap_pow_argon2id_p'', entry ''int'' (Some (PInt 1)) (Some (PInt 16)) None),
     (''bootstrap_pow_argon2id_output_len'', entry ''int'' None None (Some [PInt 32])),
     (''bootstrap_pow_difficulty'', entry ''int'' (Some (PInt 1)) (Some (PInt 64)) None),
     (''ramp_staked_resolution_threshold'', entry ''int'' (Some (PInt 1)) (Some (PInt 10000000)) None),
     (''ramp_petitions_threshold'', entry ''int'' (Some (PInt 1)) (Some (PInt 10000000)) None),
     (''ramp_upgrade_threshold'', entry ''int'' (Some (PInt 1)) (Some (PInt 10000000)) None),
     (''ramp_commoncoin_threshold'', entry ''int'' (Some (PInt 1)) (Some (PInt 10000000)) None)]"

definition cross_field_invariants :: "(string \<times> string \<times> string) list" where
  "cross_field_invariants =
    [(''petition_supermajority'', ''>'', ''petition_quorum''),
     (''resolution_supermajority'', ''>'', ''data_unavailable_threshold''),
     (''upgrade_supermajority'', ''>'', ''upgrade_quorum''),
     (''gate_shutdown_supermajority'', ''>'', ''gate_shutdown_quorum''),
     (''gate_suspend_supermajority'', ''>'', ''gate_shutdown_quorum''),
     (''farming_hard_threshold'', ''>'', ''farming_soft_threshold''),
     (''truth_stake_max_days'', ''>'', ''truth_stake_min_days''),
     (''upgrade_filing_cost'', ''>'', ''petition_filing_cost''),
     (''ramp_petitions_threshold'', ''>'', ''ramp_staked_resolution_threshold''),
     (''ramp_upgrade_threshold'', ''>'', ''ramp_petitions_threshold''),
     (''ramp_commoncoin_threshold'', ''>'', ''ramp_upgrade_threshold'')]"

definition reset_config_for_tests :: "pydict \<Rightarrow> pydict" where
  "reset_config_for_tests cfg = baseline_config"

subsection \<open>The validators\<close>

text \<open>Code-point order of strings, and \<open>a < b\<close> of two numbers or two strings.\<close>

fun str_lt :: "string \<Rightarrow> string \<Rightarrow> bool" where
  "str_lt _ [] = False"
| "str_lt [] (_ # _) = True"
| "str_lt (a # as) (b # bs) = (if a = b then str_lt as bs else (of_char a :: nat) < of_char b)"

fun py_lt :: "pyval \<Rightarrow> pyval \<Rightarrow> bool res" where
  "py_lt (PStr a) (PStr b) = Inr (str_lt a b)"
| "py_lt a b = (case (num_val a, num_val b) of (Some x, Some y) \<Rightarrow> Inr (flt x y) | _ \<Rightarrow> Inl TypeError)"

text \<open>\<open>a == b\<close> of two scalars\<close>

definition py_eq :: "pyval \<Rightarrow> pyval \<Rightarrow> bool" where
  "py_eq a b = (case (num_val a, num_val b) of (Some x, Some y) \<Rightarrow> feq x y | _ \<Rightarrow> a = b)"

definition type_matches :: "string \<Rightarrow> pyval \<Rightarrow> bool" where
  "type_matches t v =
     (if t = ''bool'' then is_bool v
      else if t = ''int'' then is_int v
      else if t = ''float'' then is_number v
      else is_str v)"

definition check_entry :: "schema_entry \<Rightarrow> pyval \<Rightarrow> unit res" where
  "check_entry sch value =
     (if stype sch \<notin> {''int'', ''float'', ''bool'', ''str''} then Inl InvalidPetition
      else if \<not> type_matches (stype sch) value then Inl InvalidPetition
      else bnd (case smin sch of None \<Rightarrow> Inr False | Some lo \<Rightarrow> py_lt value lo) (\<lambda>below.
        if below then Inl InvalidPetition
        else bnd (case smax sch of None \<Rightarrow> Inr False | Some hi \<Rightarrow> py_lt hi value) (\<lambda>above.
          if above then Inl InvalidPetition
          else case senum sch of
              None \<Rightarrow> Inr ()
            | Some vs \<Rightarrow> if \<exists>w \<in> set vs. py_eq value w then Inr () else Inl InvalidPetition)))"

definition validate_petition_value :: "string \<Rightarrow> pyval \<Rightarrow> unit res" where
  "validate_petition_value key value = (case map_of config_schema key of
       None \<Rightarrow> Inl InvalidPetition
     | Some sch \<Rightarrow> check_entry sch value)"

definition check_invariant :: "pydict \<Rightarrow> string \<times> string \<times> string \<Rightarrow> unit res" where
  "check_invariant cfg = (\<lambda>(left, op, right).
     if \<not> has_key cfg left then Inl InvalidPetition
     else if \<not> has_key cfg right then Inl InvalidPetition
     else if op = ''>'' then
       bnd (py_lt (get cfg right) (get cfg left)) (\<lambda>gt. if gt then Inr () else Inl InvalidPetition)
     else Inl InvalidPetition)"

definition validate_cross_field_invariants :: "pydict \<Rightarrow> unit res" where
  "validate_cross_field_invariants cfg = foldres (\<lambda>inv _. check_invariant cfg inv) cross_field_invariants ()"

definition validate_config_schema_completeness :: "pydict \<Rightarrow> unit res" where
  "validate_config_schema_completeness cfg =
     (if \<not> set (map fst cfg) \<subseteq> set (map fst config_schema) then Inl InvalidPetition
      else if \<not> set (map fst config_schema) \<subseteq> set (map fst cfg) then Inl InvalidPetition
      else Inr ())"

subsection \<open>Reading the configuration\<close>

text \<open>\<open>CONFIG[key]\<close>, \<open>float(CONFIG[key])\<close> and \<open>int(CONFIG[key])\<close>\<close>

definition cfg_get :: "pydict \<Rightarrow> string \<Rightarrow> pyval res" where
  "cfg_get cfg key = (case map_of cfg key of None \<Rightarrow> Inl KeyError | Some v \<Rightarrow> Inr v)"

definition cfg_float :: "pydict \<Rightarrow> string \<Rightarrow> pyfloat res" where
  "cfg_float cfg key = bnd (cfg_get cfg key) py_float"

definition cfg_int :: "pydict \<Rightarrow> string \<Rightarrow> int res" where
  "cfg_int cfg key = bnd (cfg_get cfg key) py_int"


subsection \<open>The invariant of the configuration\<close>

definition config_ok :: "pydict \<Rightarrow> bool" where
  "config_ok cfg \<longleftrightarrow> distinct (map fst cfg) \<and> validate_config_schema_completeness cfg = Inr ()
     \<and> (\<forall>(k, v) \<in> set cfg. validate_petition_value k v = Inr ())
     \<and> validate_cross_field_invariants cfg = Inr ()"

lemma py_lt_num [simp]:
  "py_lt (PInt a) (PInt b) = Inr (a < b)"
  "py_lt (PFloat x) (PFloat y) = Inr (flt x y)"
  "py_lt (PInt a) (PFloat y) = Inr (flt (Fin (of_int a)) y)"
  "py_lt (PFloat x) (PInt b) = Inr (flt x (Fin (of_int b)))"
  by simp_all

lemma flt_Fin_fl_False [simp]:
  "a \<le> numeral k \<Longrightarrow> numeral k \<le> (2 ^ 53 :: int) \<Longrightarrow> \<not> flt (Fin (numeral k)) (fl a)"
  "a \<le> 1 \<Longrightarrow> \<not> flt (Fin 1) (fl a)" "0 \<le> a \<Longrightarrow> \<not> flt (fl a) (Fin 0)"
  "numeral k \<le> a \<Longrightarrow> numeral k \<le> (2 ^ 53 :: int) \<Longrightarrow> \<not> flt (fl a) (Fin (numeral k))"
  "1 \<le> a \<Longrightarrow> \<not> flt (fl a) (Fin 1)"
  using fl_mono [of a "numeral k"] fl_mono [of a 1] fl_mono [of 0 a] fl_mono [of "numeral k" a] fl_mono [of 1 a]
  by (auto dest: flt_antisym_not)

text \<open>Two rounded literals compare as the decimals do, up to the rounding.\<close>

lemma flt_fl_False [simp]: "b \<le> a \<Longrightarrow> \<not> flt (fl a) (fl b)"
  using fl_mono [of b a] flt_antisym_not by blast

lemma flt_fl_gap:
  assumes "a \<le> of_int m / 2 ^ i" "of_int n / 2 ^ j \<le> b" "of_int m / 2 ^ i < (of_int n / 2 ^ j :: rat)"
    and "\<bar>m\<bar> \<le> 2 ^ 53" "\<bar>n\<bar> \<le> 2 ^ 53" "i \<le> 1074" "j \<le> 1074"
  shows "flt (fl a) (fl b)"
proof -
  have "fle (fl a) (Fin (of_int m / 2 ^ i))" "fle (Fin (of_int n / 2 ^ j)) (fl b)"
    using fl_mono [OF assms(1)] fl_mono [OF assms(2)] fl_dyadic [OF assms(4,6)] fl_dyadic [OF assms(5,7)] by simp_all
  with assms(3) show ?thesis by (cases "fl a"; cases "fl b") auto
qed

lemma not_flt_fle: "\<not> flt x y \<Longrightarrow> x \<noteq> NaN \<Longrightarrow> y \<noteq> NaN \<Longrightarrow> fle y x"
  by (cases x; cases y) (auto simp: fle_def)

lemma check_entry_int:
  assumes "check_entry (entry ''int'' (Some (PInt lo)) (Some (PInt hi)) en) v = Inr ()"
  shows "\<exists>n. v = PInt n \<and> lo \<le> n \<and> n \<le> hi"
  using assms by (cases v) (auto simp: check_entry_def type_matches_def split: if_splits)

lemma check_entry_float:
  assumes "check_entry (entry ''float'' (Some (PFloat lo)) (Some (PFloat hi)) en) v = Inr ()"
    and "fle lo (Fin (2 ^ 53))" "fle (Fin (- (2 ^ 53))) lo" "fle hi (Fin (2 ^ 53))"
  shows "\<exists>f. py_float v = Inr f \<and> num_val v = Some f \<and> (f = NaN \<or> fle lo f \<and> fle f hi)"
proof (cases v)
  case (PInt n)
  from assms(1) have b: "\<not> flt (Fin (of_int n)) lo" "\<not> flt hi (Fin (of_int n))"
    by (auto simp: PInt check_entry_def type_matches_def split: if_splits)
  obtain l where l: "lo = Fin l" "- (2 ^ 53) \<le> l" using assms(2,3) by (cases lo) auto
  have "hi \<noteq> NaN" using assms(4) by auto
  with b l assms(4) have n: "l \<le> of_int n" "of_int n \<le> (2 ^ 53 :: rat)" "fle (Fin (of_int n)) hi"
    by (cases hi; auto)+
  then have "\<bar>of_int n\<bar> \<le> (of_int (2 ^ 53) :: rat)" using l by simp
  then have "\<bar>n\<bar> \<le> 2 ^ 53" by linarith
  with n l show ?thesis by (simp add: PInt)
next
  case (PFloat f)
  from assms(1) have b: "\<not> flt f lo" "\<not> flt hi f"
    by (auto simp: PFloat check_entry_def type_matches_def split: if_splits)
  have "lo \<noteq> NaN" "hi \<noteq> NaN" using assms(3,4) by auto
  with b have "f = NaN \<or> fle lo f \<and> fle f hi" by (auto intro: not_flt_fle)
  then show ?thesis by (simp add: PFloat)
qed (use assms in \<open>auto simp: check_entry_def type_matches_def split: if_splits\<close>)

lemma schema_complete_iff:
  "validate_config_schema_completeness cfg = Inr () \<longleftrightarrow> set (map fst cfg) = set (map fst config_schema)"
  unfolding validate_config_schema_completeness_def by (simp only: set_eq_subset split: if_splits) blast

lemma validate_map_of:
  "validate_petition_value k v = Inr () \<longleftrightarrow> (\<exists>sch. map_of config_schema k = Some sch \<and> check_entry sch v = Inr ())"
  by (simp add: validate_petition_value_def split: option.splits)

lemma config_ok_get:
  assumes "config_ok cfg" and sch: "map_of config_schema k = Some sch"
  shows "\<exists>v. cfg_get cfg k = Inr v \<and> check_entry sch v = Inr ()"
proof -
  have "k \<in> set (map fst config_schema)" using map_of_SomeD [OF sch] by (force simp only: set_map fst_conv intro: rev_image_eqI)
  then have "map_of cfg k \<noteq> None"
    using assms(1) by (simp only: config_ok_def schema_complete_iff map_of_eq_None_iff list.set_map) blast
  then obtain v where v: "map_of cfg k = Some v" by blast
  then have "validate_petition_value k v = Inr ()" using assms(1) map_of_SomeD by (fastforce simp only: config_ok_def)
  with v sch show ?thesis by (simp add: validate_map_of cfg_get_def)
qed

text \<open>
  Every integer parameter of a well-formed configuration reads as an int within its bounds; every
  float parameter reads without raising, within its bounds unless it is NaN.
\<close>

lemma config_ok_int:
  assumes "config_ok cfg" and "map_of config_schema k = Some (entry ''int'' (Some (PInt lo)) (Some (PInt hi)) en)"
  shows "\<exists>n. cfg_get cfg k = Inr (PInt n) \<and> cfg_int cfg k = Inr n \<and> lo \<le> n \<and> n \<le> hi"
  using config_ok_get [OF assms] check_entry_int by (fastforce simp: cfg_int_def)

lemma config_ok_float:
  assumes "config_ok cfg" and "map_of config_schema k = Some (entry ''float'' (Some (PFloat lo)) (Some (PFloat hi)) en)"
    and "fle lo (Fin (2 ^ 53))" "fle (Fin (- (2 ^ 53))) lo" "fle hi (Fin (2 ^ 53))"
  shows "\<exists>f. cfg_float cfg k = Inr f \<and> (f = NaN \<or> fle lo f \<and> fle f hi)"
  using config_ok_get [OF assms(1,2)] check_entry_float [OF _ assms(3-5)] by (fastforce simp: cfg_float_def)

lemma distinct_schema: "distinct (map fst config_schema)"
  unfolding config_schema_def by simp

lemma baseline_entries: "list_all2 (\<lambda>(k, v) (k', sch). k = k' \<and> check_entry sch v = Inr ()) baseline_config config_schema"
  unfolding baseline_config_def config_schema_def list_all2_Cons list.rel_inject
  by (simp add: check_entry_def type_matches_def py_eq_def)



end
