(* ===== verification/Config_Reads.thy ===== *)
theory Config_Reads
  imports Config
begin

text \<open>
  What a read of the configuration returns: for a well-formed configuration a value within the
  schema's bounds (\<open>read_\<dots>\<close>), for the baseline its literal (\<open>cfg_simps\<close>); and the baseline is
  well-formed. One lemma per parameter, for the parameters the modelled modules read.
\<close>

lemma lookup_here: "map_of ((k, v) # xs) k = Some v"
  by simp

lemma lookup_there: "k' \<noteq> k \<Longrightarrow> map_of xs k = Some v \<Longrightarrow> map_of ((k', w) # xs) k = Some v"
  by simp

lemma config_ok_int_read:
  assumes "config_ok cfg" and "map_of config_schema k = Some (entry ''int'' (Some (PInt lo)) (Some (PInt hi)) en)"
    and "- (2 ^ 53) \<le> lo" "hi \<le> 2 ^ 53"
  shows "\<exists>n. cfg_int cfg k = Inr n \<and> cfg_float cfg k = Inr (Fin (of_int n)) \<and> lo \<le> n \<and> n \<le> hi"
proof -
  obtain n where n: "cfg_get cfg k = Inr (PInt n)" "cfg_int cfg k = Inr n" "lo \<le> n" "n \<le> hi"
    using config_ok_int [OF assms(1,2)] by blast
  then have "\<bar>n\<bar> \<le> 2 ^ 53" using assms(3,4) by simp
  with n show ?thesis by (simp add: cfg_float_def)
qed

lemma cfg_int_lookup: "map_of cfg k = Some (PInt n) \<Longrightarrow> cfg_int cfg k = Inr n"
  by (simp add: cfg_int_def cfg_get_def)

lemma cfg_float_lookup_int: "map_of cfg k = Some (PInt n) \<Longrightarrow> \<bar>n\<bar> \<le> 2 ^ 53 \<Longrightarrow> cfg_float cfg k = Inr (Fin (of_int n))"
  by (simp add: cfg_float_def cfg_get_def)

lemma cfg_float_lookup: "map_of cfg k = Some (PFloat f) \<Longrightarrow> cfg_float cfg k = Inr f"
  by (simp add: cfg_float_def cfg_get_def)

lemma fle_fl_bounds:
  "0 \<le> q \<Longrightarrow> fle (Fin (- (2 ^ 53))) (fl q)" "q \<le> 1000 \<Longrightarrow> fle (fl q) (Fin (2 ^ 53))"
proof -
  assume "0 \<le> q"
  then have "fle (Fin 0) (fl q)" by (rule fl_nonneg)
  then show "fle (Fin (- (2 ^ 53))) (fl q)" by (cases "fl q") auto
next
  assume "q \<le> 1000"
  then have "fle (fl q) (Fin 1000)" using fl_mono [of q 1000] by simp
  then show "fle (fl q) (Fin (2 ^ 53))" by (cases "fl q") auto
qed

subsection \<open>Lookups\<close>

lemma schema_bootstrap_market_count:
  "map_of config_schema ''bootstrap_market_count'' =
     Some (entry ''int'' (Some (PInt 0)) (Some (PInt 100000)) None)"
  unfolding config_schema_def by (rule lookup_here | (rule lookup_there, (simp; fail)))+

lemma schema_bootstrap_min_identity_age_days:
  "map_of config_schema ''bootstrap_min_identity_age_days'' =
     Some (entry ''int'' (Some (PInt 0)) (Some (PInt 365)) None)"
  unfolding config_schema_def by (rule lookup_here | (rule lookup_there, (simp; fail)))+

lemma schema_bootstrap_pow_argon2id_output_len:
  "map_of config_schema ''bootstrap_pow_argon2id_output_len'' =
     Some (entry ''int'' None None (Some [PInt 32]))"
  unfolding config_schema_def by (rule lookup_here | (rule lookup_there, (simp; fail)))+

lemma schema_bootstrap_pow_difficulty:
  "map_of config_schema ''bootstrap_pow_difficulty'' =
     Some (entry ''int'' (Some (PInt 1)) (Some (PInt 64)) None)"
  unfolding config_schema_def by (rule lookup_here | (rule lookup_there, (simp; fail)))+

lemma schema_bootstrap_resolution_supermajority:
  "map_of config_schema ''bootstrap_resolution_supermajority'' =
     Some (entry ''float'' (Some (PFloat (fl 0.51))) (Some (PFloat (fl 0.95))) None)"
  unfolding config_schema_def by (rule lookup_here | (rule lookup_there, (simp; fail)))+

lemma schema_bootstrap_threshold:
  "map_of config_schema ''bootstrap_threshold'' =
     Some (entry ''int'' (Some (PInt 100)) (Some (PInt 100000)) None)"
  unfolding config_schema_def by (rule lookup_here | (rule lookup_there, (simp; fail)))+

lemma schema_challenge_filing_cost:
  "map_of config_schema ''challenge_filing_cost'' =
     Some (entry ''int'' (Some (PInt 1)) (Some (PInt 200)) None)"
  unfolding config_schema_def by (rule lookup_here | (rule lookup_there, (simp; fail)))+

lemma schema_challenge_window_hours:
  "map_of config_schema ''challenge_window_hours'' =
     Some (entry ''int'' (Some (PInt 12)) (Some (PInt 168)) None)"
  unfolding config_schema_def by (rule lookup_here | (rule lookup_there, (simp; fail)))+

lemma schema_clustering_min_weight:
  "map_of config_schema ''clustering_min_weight'' =
     Some (entry ''float'' (Some (PFloat (fl 0.0))) (Some (PFloat (fl 1.0))) None)"
  unfolding config_schema_def by (rule lookup_here | (rule lookup_there, (simp; fail)))+

lemma schema_common_rep_weight_factor:
  "map_of config_schema ''common_rep_weight_factor'' =
     Some (entry ''float'' (Some (PFloat (fl 0.0))) (Some (PFloat (fl 1.0))) None)"
  unfolding config_schema_def by (rule lookup_here | (rule lookup_there, (simp; fail)))+

lemma schema_data_unavailable_threshold:
  "map_of config_schema ''data_unavailable_threshold'' =
     Some (entry ''float'' (Some (PFloat (fl 0.10))) (Some (PFloat (fl 0.50))) None)"
  unfolding config_schema_def by (rule lookup_here | (rule lookup_there, (simp; fail)))+

lemma schema_evidence_first_bonus:
  "map_of config_schema ''evidence_first_bonus'' =
     Some (entry ''float'' (Some (PFloat (fl 0.0))) (Some (PFloat (fl 10.0))) None)"
  unfolding config_schema_def by (rule lookup_here | (rule lookup_there, (simp; fail)))+

lemma schema_evidence_window_hours:
  "map_of config_schema ''evidence_window_hours'' =
     Some (entry ''int'' (Some (PInt 12)) (Some (PInt 168)) None)"
  unfolding config_schema_def by (rule lookup_here | (rule lookup_there, (simp; fail)))+

lemma schema_farming_easy_bet_cutoff:
  "map_of config_schema ''farming_easy_bet_cutoff'' =
     Some (entry ''float'' (Some (PFloat (fl 0.50))) (Some (PFloat (fl 0.99))) None)"
  unfolding config_schema_def by (rule lookup_here | (rule lookup_there, (simp; fail)))+

lemma schema_farming_hard_threshold:
  "map_of config_schema ''farming_hard_threshold'' =
     Some (entry ''float'' (Some (PFloat (fl 0.20))) (Some (PFloat (fl 0.99))) None)"
  unfolding config_schema_def by (rule lookup_here | (rule lookup_there, (simp; fail)))+

lemma schema_farming_soft_threshold:
  "map_of config_schema ''farming_soft_threshold'' =
     Some (entry ''float'' (Some (PFloat (fl 0.10))) (Some (PFloat (fl 0.95))) None)"
  unfolding config_schema_def by (rule lookup_here | (rule lookup_there, (simp; fail)))+

lemma schema_gate_lock_cost_per_member:
  "map_of config_schema ''gate_lock_cost_per_member'' =
     Some (entry ''int'' (Some (PInt 1)) (Some (PInt 1000)) None)"
  unfolding config_schema_def by (rule lookup_here | (rule lookup_there, (simp; fail)))+

lemma schema_gate_lock_min_members:
  "map_of config_schema ''gate_lock_min_members'' =
     Some (entry ''int'' (Some (PInt 2)) (Some (PInt 1000)) None)"
  unfolding config_schema_def by (rule lookup_here | (rule lookup_there, (simp; fail)))+

lemma schema_gate_ratification_rep:
  "map_of config_schema ''gate_ratification_rep'' =
     Some (entry ''int'' (Some (PInt 1)) (Some (PInt 10000)) None)"
  unfolding config_schema_def by (rule lookup_here | (rule lookup_there, (simp; fail)))+

lemma schema_gate_shutdown_appeal_window_hours:
  "map_of config_schema ''gate_shutdown_appeal_window_hours'' =
     Some (entry ''int'' (Some (PInt 12)) (Some (PInt 168)) None)"
  unfolding config_schema_def by (rule lookup_here | (rule lookup_there, (simp; fail)))+

lemma schema_gate_shutdown_cooldown_days:
  "map_of config_schema ''gate_shutdown_cooldown_days'' =
     Some (entry ''int'' (Some (PInt 7)) (Some (PInt 365)) None)"
  unfolding config_schema_def by (rule lookup_here | (rule lookup_there, (simp; fail)))+

lemma schema_gate_shutdown_execution_delay_days:
  "map_of config_schema ''gate_shutdown_execution_delay_days'' =
     Some (entry ''int'' (Some (PInt 1)) (Some (PInt 90)) None)"
  unfolding config_schema_def by (rule lookup_here | (rule lookup_there, (simp; fail)))+

lemma schema_gate_shutdown_quorum:
  "map_of config_schema ''gate_shutdown_quorum'' =
     Some (entry ''float'' (Some (PFloat (fl 0.10))) (Some (PFloat (fl 0.80))) None)"
  unfolding config_schema_def by (rule lookup_here | (rule lookup_there, (simp; fail)))+

lemma schema_gate_shutdown_supermajority:
  "map_of config_schema ''gate_shutdown_supermajority'' =
     Some (entry ''float'' (Some (PFloat (fl 0.51))) (Some (PFloat (fl 0.99))) None)"
  unfolding config_schema_def by (rule lookup_here | (rule lookup_there, (simp; fail)))+

lemma schema_gate_suspend_duration_days:
  "map_of config_schema ''gate_suspend_duration_days'' =
     Some (entry ''int'' (Some (PInt 1)) (Some (PInt 365)) None)"
  unfolding config_schema_def by (rule lookup_here | (rule lookup_there, (simp; fail)))+

lemma schema_gate_suspend_supermajority:
  "map_of config_schema ''gate_suspend_supermajority'' =
     Some (entry ''float'' (Some (PFloat (fl 0.51))) (Some (PFloat (fl 0.95))) None)"
  unfolding config_schema_def by (rule lookup_here | (rule lookup_there, (simp; fail)))+

lemma schema_governance_decay_days:
  "map_of config_schema ''governance_decay_days'' =
     Some (entry ''int'' (Some (PInt 7)) (Some (PInt 365)) None)"
  unfolding config_schema_def by (rule lookup_here | (rule lookup_there, (simp; fail)))+

lemma schema_governance_decay_factor:
  "map_of config_schema ''governance_decay_factor'' =
     Some (entry ''float'' (Some (PFloat (fl 0.10))) (Some (PFloat (fl 0.99))) None)"
  unfolding config_schema_def by (rule lookup_here | (rule lookup_there, (simp; fail)))+

lemma schema_max_future_event_drift_sec:
  "map_of config_schema ''max_future_event_drift_sec'' =
     Some (entry ''int'' (Some (PInt 30)) (Some (PInt 3600)) None)"
  unfolding config_schema_def by (rule lookup_here | (rule lookup_there, (simp; fail)))+

lemma schema_min_market_participants:
  "map_of config_schema ''min_market_participants'' =
     Some (entry ''int'' (Some (PInt 2)) (Some (PInt 100)) None)"
  unfolding config_schema_def by (rule lookup_here | (rule lookup_there, (simp; fail)))+

lemma schema_min_market_total_stake:
  "map_of config_schema ''min_market_total_stake'' =
     Some (entry ''float'' (Some (PFloat (fl 1.0))) (Some (PFloat (fl 1000.0))) None)"
  unfolding config_schema_def by (rule lookup_here | (rule lookup_there, (simp; fail)))+

lemma schema_min_resolution_stake_total:
  "map_of config_schema ''min_resolution_stake_total'' =
     Some (entry ''float'' (Some (PFloat (fl 5.0))) (Some (PFloat (fl 500.0))) None)"
  unfolding config_schema_def by (rule lookup_here | (rule lookup_there, (simp; fail)))+

lemma schema_oracle_min_earned:
  "map_of config_schema ''oracle_min_earned'' =
     Some (entry ''float'' (Some (PFloat (fl 0.001))) (Some (PFloat (fl 1.0))) None)"
  unfolding config_schema_def by (rule lookup_here | (rule lookup_there, (simp; fail)))+

lemma schema_petition_filing_cost:
  "map_of config_schema ''petition_filing_cost'' =
     Some (entry ''int'' (Some (PInt 1)) (Some (PInt 100)) None)"
  unfolding config_schema_def by (rule lookup_here | (rule lookup_there, (simp; fail)))+

lemma schema_petition_quorum:
  "map_of config_schema ''petition_quorum'' =
     Some (entry ''float'' (Some (PFloat (fl 0.10))) (Some (PFloat (fl 0.80))) None)"
  unfolding config_schema_def by (rule lookup_here | (rule lookup_there, (simp; fail)))+

lemma schema_petition_signature_threshold:
  "map_of config_schema ''petition_signature_threshold'' =
     Some (entry ''float'' (Some (PFloat (fl 0.05))) (Some (PFloat (fl 0.50))) None)"
  unfolding config_schema_def by (rule lookup_here | (rule lookup_there, (simp; fail)))+

lemma schema_petition_signature_window_days:
  "map_of config_schema ''petition_signature_window_days'' =
     Some (entry ''int'' (Some (PInt 1)) (Some (PInt 60)) None)"
  unfolding config_schema_def by (rule lookup_here | (rule lookup_there, (simp; fail)))+

lemma schema_petition_supermajority:
  "map_of config_schema ''petition_supermajority'' =
     Some (entry ''float'' (Some (PFloat (fl 0.51))) (Some (PFloat (fl 0.95))) None)"
  unfolding config_schema_def by (rule lookup_here | (rule lookup_there, (simp; fail)))+

lemma schema_petition_vote_window_days:
  "map_of config_schema ''petition_vote_window_days'' =
     Some (entry ''int'' (Some (PInt 1)) (Some (PInt 30)) None)"
  unfolding config_schema_def by (rule lookup_here | (rule lookup_there, (simp; fail)))+

lemma schema_progressive_penalty_threshold:
  "map_of config_schema ''progressive_penalty_threshold'' =
     Some (entry ''float'' (Some (PFloat (fl 0.0))) (Some (PFloat (fl 1.0))) None)"
  unfolding config_schema_def by (rule lookup_here | (rule lookup_there, (simp; fail)))+

lemma schema_ramp_commoncoin_threshold:
  "map_of config_schema ''ramp_commoncoin_threshold'' =
     Some (entry ''int'' (Some (PInt 1)) (Some (PInt 10000000)) None)"
  unfolding config_schema_def by (rule lookup_here | (rule lookup_there, (simp; fail)))+

lemma schema_ramp_petitions_threshold:
  "map_of config_schema ''ramp_petitions_threshold'' =
     Some (entry ''int'' (Some (PInt 1)) (Some (PInt 10000000)) None)"
  unfolding config_schema_def by (rule lookup_here | (rule lookup_there, (simp; fail)))+

lemma schema_ramp_staked_resolution_threshold:
  "map_of config_schema ''ramp_staked_resolution_threshold'' =
     Some (entry ''int'' (Some (PInt 1)) (Some (PInt 10000000)) None)"
  unfolding config_schema_def by (rule lookup_here | (rule lookup_there, (simp; fail)))+

lemma schema_ramp_upgrade_threshold:
  "map_of config_schema ''ramp_upgrade_threshold'' =
     Some (entry ''int'' (Some (PInt 1)) (Some (PInt 10000000)) None)"
  unfolding config_schema_def by (rule lookup_here | (rule lookup_there, (simp; fail)))+

lemma schema_resolution_loser_burn_pct:
  "map_of config_schema ''resolution_loser_burn_pct'' =
     Some (entry ''float'' (Some (PFloat (fl 0.0))) (Some (PFloat (fl 0.10))) None)"
  unfolding config_schema_def by (rule lookup_here | (rule lookup_there, (simp; fail)))+

lemma schema_resolution_stalemate_burn_pct:
  "map_of config_schema ''resolution_stalemate_burn_pct'' =
     Some (entry ''float'' (Some (PFloat (fl 0.0))) (Some (PFloat (fl 0.10))) None)"
  unfolding config_schema_def by (rule lookup_here | (rule lookup_there, (simp; fail)))+

lemma schema_resolution_supermajority:
  "map_of config_schema ''resolution_supermajority'' =
     Some (entry ''float'' (Some (PFloat (fl 0.51))) (Some (PFloat (fl 0.95))) None)"
  unfolding config_schema_def by (rule lookup_here | (rule lookup_there, (simp; fail)))+

lemma schema_resolution_window_hours:
  "map_of config_schema ''resolution_window_hours'' =
     Some (entry ''int'' (Some (PInt 24)) (Some (PInt 336)) None)"
  unfolding config_schema_def by (rule lookup_here | (rule lookup_there, (simp; fail)))+

lemma schema_temporal_burst_min_upreps:
  "map_of config_schema ''temporal_burst_min_upreps'' =
     Some (entry ''int'' (Some (PInt 2)) (Some (PInt 100)) None)"
  unfolding config_schema_def by (rule lookup_here | (rule lookup_there, (simp; fail)))+

lemma schema_temporal_burst_window_sec:
  "map_of config_schema ''temporal_burst_window_sec'' =
     Some (entry ''int'' (Some (PInt 30)) (Some (PInt 3600)) None)"
  unfolding config_schema_def by (rule lookup_here | (rule lookup_there, (simp; fail)))+

lemma schema_truth_stake_max_days:
  "map_of config_schema ''truth_stake_max_days'' =
     Some (entry ''int'' (Some (PInt 1)) (Some (PInt 90)) None)"
  unfolding config_schema_def by (rule lookup_here | (rule lookup_there, (simp; fail)))+

lemma schema_truth_stake_min_days:
  "map_of config_schema ''truth_stake_min_days'' =
     Some (entry ''int'' (Some (PInt 1)) (Some (PInt 30)) None)"
  unfolding config_schema_def by (rule lookup_here | (rule lookup_there, (simp; fail)))+

lemma schema_upgrade_activation_threshold:
  "map_of config_schema ''upgrade_activation_threshold'' =
     Some (entry ''float'' (Some (PFloat (fl 0.51))) (Some (PFloat (fl 0.99))) None)"
  unfolding config_schema_def by (rule lookup_here | (rule lookup_there, (simp; fail)))+

lemma schema_upgrade_activation_window_days:
  "map_of config_schema ''upgrade_activation_window_days'' =
     Some (entry ''int'' (Some (PInt 1)) (Some (PInt 90)) None)"
  unfolding config_schema_def by (rule lookup_here | (rule lookup_there, (simp; fail)))+

lemma schema_upgrade_challenge_window_hours:
  "map_of config_schema ''upgrade_challenge_window_hours'' =
     Some (entry ''int'' (Some (PInt 12)) (Some (PInt 168)) None)"
  unfolding config_schema_def by (rule lookup_here | (rule lookup_there, (simp; fail)))+

lemma schema_upgrade_filing_cost:
  "map_of config_schema ''upgrade_filing_cost'' =
     Some (entry ''int'' (Some (PInt 1)) (Some (PInt 200)) None)"
  unfolding config_schema_def by (rule lookup_here | (rule lookup_there, (simp; fail)))+

lemma schema_upgrade_quorum:
  "map_of config_schema ''upgrade_quorum'' =
     Some (entry ''float'' (Some (PFloat (fl 0.10))) (Some (PFloat (fl 0.95))) None)"
  unfolding config_schema_def by (rule lookup_here | (rule lookup_there, (simp; fail)))+

lemma schema_upgrade_signature_threshold:
  "map_of config_schema ''upgrade_signature_threshold'' =
     Some (entry ''float'' (Some (PFloat (fl 0.05))) (Some (PFloat (fl 0.50))) None)"
  unfolding config_schema_def by (rule lookup_here | (rule lookup_there, (simp; fail)))+

lemma schema_upgrade_signature_window_days:
  "map_of config_schema ''upgrade_signature_window_days'' =
     Some (entry ''int'' (Some (PInt 1)) (Some (PInt 60)) None)"
  unfolding config_schema_def by (rule lookup_here | (rule lookup_there, (simp; fail)))+

lemma schema_upgrade_supermajority:
  "map_of config_schema ''upgrade_supermajority'' =
     Some (entry ''float'' (Some (PFloat (fl 0.51))) (Some (PFloat (fl 0.99))) None)"
  unfolding config_schema_def by (rule lookup_here | (rule lookup_there, (simp; fail)))+

lemma schema_upgrade_vote_window_days:
  "map_of config_schema ''upgrade_vote_window_days'' =
     Some (entry ''int'' (Some (PInt 1)) (Some (PInt 60)) None)"
  unfolding config_schema_def by (rule lookup_here | (rule lookup_there, (simp; fail)))+

lemma schema_vcs_min_weight:
  "map_of config_schema ''vcs_min_weight'' =
     Some (entry ''float'' (Some (PFloat (fl 0.0))) (Some (PFloat (fl 1.0))) None)"
  unfolding config_schema_def by (rule lookup_here | (rule lookup_there, (simp; fail)))+

lemma schema_vote_decay_days:
  "map_of config_schema ''vote_decay_days'' =
     Some (entry ''int'' (Some (PInt 7)) (Some (PInt 365)) None)"
  unfolding config_schema_def by (rule lookup_here | (rule lookup_there, (simp; fail)))+

lemma schema_weekly_vote_base:
  "map_of config_schema ''weekly_vote_base'' =
     Some (entry ''int'' (Some (PInt 1)) (Some (PInt 100)) None)"
  unfolding config_schema_def by (rule lookup_here | (rule lookup_there, (simp; fail)))+

lemma schema_weekly_vote_per_oracle:
  "map_of config_schema ''weekly_vote_per_oracle'' =
     Some (entry ''int'' (Some (PInt 1)) (Some (PInt 1000)) None)"
  unfolding config_schema_def by (rule lookup_here | (rule lookup_there, (simp; fail)))+

lemma base_bootstrap_market_count: "map_of baseline_config ''bootstrap_market_count'' = Some (PInt 100)"
  unfolding baseline_config_def by (rule lookup_here | (rule lookup_there, (simp; fail)))+

lemma base_bootstrap_min_identity_age_days: "map_of baseline_config ''bootstrap_min_identity_age_days'' = Some (PInt 3)"
  unfolding baseline_config_def by (rule lookup_here | (rule lookup_there, (simp; fail)))+

lemma base_bootstrap_pow_argon2id_output_len: "map_of baseline_config ''bootstrap_pow_argon2id_output_len'' = Some (PInt 32)"
  unfolding baseline_config_def by (rule lookup_here | (rule lookup_there, (simp; fail)))+

lemma base_bootstrap_pow_difficulty: "map_of baseline_config ''bootstrap_pow_difficulty'' = Some (PInt 16)"
  unfolding baseline_config_def by (rule lookup_here | (rule lookup_there, (simp; fail)))+

lemma base_bootstrap_resolution_supermajority: "map_of baseline_config ''bootstrap_resolution_supermajority'' = Some (PFloat (fl 0.75))"
  unfolding baseline_config_def by (rule lookup_here | (rule lookup_there, (simp; fail)))+

lemma base_bootstrap_threshold: "map_of baseline_config ''bootstrap_threshold'' = Some (PInt 1000)"
  unfolding baseline_config_def by (rule lookup_here | (rule lookup_there, (simp; fail)))+

lemma base_challenge_filing_cost: "map_of baseline_config ''challenge_filing_cost'' = Some (PInt 25)"
  unfolding baseline_config_def by (rule lookup_here | (rule lookup_there, (simp; fail)))+

lemma base_challenge_window_hours: "map_of baseline_config ''challenge_window_hours'' = Some (PInt 48)"
  unfolding baseline_config_def by (rule lookup_here | (rule lookup_there, (simp; fail)))+

lemma base_clustering_min_weight: "map_of baseline_config ''clustering_min_weight'' = Some (PFloat (fl 0.20))"
  unfolding baseline_config_def by (rule lookup_here | (rule lookup_there, (simp; fail)))+

lemma base_common_rep_weight_factor: "map_of baseline_config ''common_rep_weight_factor'' = Some (PFloat (fl 0.10))"
  unfolding baseline_config_def by (rule lookup_here | (rule lookup_there, (simp; fail)))+

lemma base_data_unavailable_threshold: "map_of baseline_config ''data_unavailable_threshold'' = Some (PFloat (fl 0.33))"
  unfolding baseline_config_def by (rule lookup_here | (rule lookup_there, (simp; fail)))+

lemma base_evidence_first_bonus: "map_of baseline_config ''evidence_first_bonus'' = Some (PFloat (fl 0.5))"
  unfolding baseline_config_def by (rule lookup_here | (rule lookup_there, (simp; fail)))+

lemma base_evidence_window_hours: "map_of baseline_config ''evidence_window_hours'' = Some (PInt 48)"
  unfolding baseline_config_def by (rule lookup_here | (rule lookup_there, (simp; fail)))+

lemma base_farming_easy_bet_cutoff: "map_of baseline_config ''farming_easy_bet_cutoff'' = Some (PFloat (fl 0.80))"
  unfolding baseline_config_def by (rule lookup_here | (rule lookup_there, (simp; fail)))+

lemma base_farming_hard_threshold: "map_of baseline_config ''farming_hard_threshold'' = Some (PFloat (fl 0.80))"
  unfolding baseline_config_def by (rule lookup_here | (rule lookup_there, (simp; fail)))+

lemma base_farming_soft_threshold: "map_of baseline_config ''farming_soft_threshold'' = Some (PFloat (fl 0.60))"
  unfolding baseline_config_def by (rule lookup_here | (rule lookup_there, (simp; fail)))+

lemma base_gate_lock_cost_per_member: "map_of baseline_config ''gate_lock_cost_per_member'' = Some (PInt 10)"
  unfolding baseline_config_def by (rule lookup_here | (rule lookup_there, (simp; fail)))+

lemma base_gate_lock_min_members: "map_of baseline_config ''gate_lock_min_members'' = Some (PInt 5)"
  unfolding baseline_config_def by (rule lookup_here | (rule lookup_there, (simp; fail)))+

lemma base_gate_ratification_rep: "map_of baseline_config ''gate_ratification_rep'' = Some (PInt 50)"
  unfolding baseline_config_def by (rule lookup_here | (rule lookup_there, (simp; fail)))+

lemma base_gate_shutdown_appeal_window_hours: "map_of baseline_config ''gate_shutdown_appeal_window_hours'' = Some (PInt 48)"
  unfolding baseline_config_def by (rule lookup_here | (rule lookup_there, (simp; fail)))+

lemma base_gate_shutdown_cooldown_days: "map_of baseline_config ''gate_shutdown_cooldown_days'' = Some (PInt 90)"
  unfolding baseline_config_def by (rule lookup_here | (rule lookup_there, (simp; fail)))+

lemma base_gate_shutdown_execution_delay_days: "map_of baseline_config ''gate_shutdown_execution_delay_days'' = Some (PInt 7)"
  unfolding baseline_config_def by (rule lookup_here | (rule lookup_there, (simp; fail)))+

lemma base_gate_shutdown_quorum: "map_of baseline_config ''gate_shutdown_quorum'' = Some (PFloat (fl 0.30))"
  unfolding baseline_config_def by (rule lookup_here | (rule lookup_there, (simp; fail)))+

lemma base_gate_shutdown_supermajority: "map_of baseline_config ''gate_shutdown_supermajority'' = Some (PFloat (fl 0.75))"
  unfolding baseline_config_def by (rule lookup_here | (rule lookup_there, (simp; fail)))+

lemma base_gate_suspend_duration_days: "map_of baseline_config ''gate_suspend_duration_days'' = Some (PInt 30)"
  unfolding baseline_config_def by (rule lookup_here | (rule lookup_there, (simp; fail)))+

lemma base_gate_suspend_supermajority: "map_of baseline_config ''gate_suspend_supermajority'' = Some (PFloat (fl 0.67))"
  unfolding baseline_config_def by (rule lookup_here | (rule lookup_there, (simp; fail)))+

lemma base_governance_decay_days: "map_of baseline_config ''governance_decay_days'' = Some (PInt 90)"
  unfolding baseline_config_def by (rule lookup_here | (rule lookup_there, (simp; fail)))+

lemma base_governance_decay_factor: "map_of baseline_config ''governance_decay_factor'' = Some (PFloat (fl 0.50))"
  unfolding baseline_config_def by (rule lookup_here | (rule lookup_there, (simp; fail)))+

lemma base_max_future_event_drift_sec: "map_of baseline_config ''max_future_event_drift_sec'' = Some (PInt 300)"
  unfolding baseline_config_def by (rule lookup_here | (rule lookup_there, (simp; fail)))+

lemma base_min_market_participants: "map_of baseline_config ''min_market_participants'' = Some (PInt 5)"
  unfolding baseline_config_def by (rule lookup_here | (rule lookup_there, (simp; fail)))+

lemma base_min_market_total_stake: "map_of baseline_config ''min_market_total_stake'' = Some (PFloat (fl 10.0))"
  unfolding baseline_config_def by (rule lookup_here | (rule lookup_there, (simp; fail)))+

lemma base_min_resolution_stake_total: "map_of baseline_config ''min_resolution_stake_total'' = Some (PFloat (fl 20.0))"
  unfolding baseline_config_def by (rule lookup_here | (rule lookup_there, (simp; fail)))+

lemma base_oracle_min_earned: "map_of baseline_config ''oracle_min_earned'' = Some (PFloat (fl 0.01))"
  unfolding baseline_config_def by (rule lookup_here | (rule lookup_there, (simp; fail)))+

lemma base_petition_filing_cost: "map_of baseline_config ''petition_filing_cost'' = Some (PInt 15)"
  unfolding baseline_config_def by (rule lookup_here | (rule lookup_there, (simp; fail)))+

lemma base_petition_quorum: "map_of baseline_config ''petition_quorum'' = Some (PFloat (fl 0.30))"
  unfolding baseline_config_def by (rule lookup_here | (rule lookup_there, (simp; fail)))+

lemma base_petition_signature_threshold: "map_of baseline_config ''petition_signature_threshold'' = Some (PFloat (fl 0.25))"
  unfolding baseline_config_def by (rule lookup_here | (rule lookup_there, (simp; fail)))+

lemma base_petition_signature_window_days: "map_of baseline_config ''petition_signature_window_days'' = Some (PInt 14)"
  unfolding baseline_config_def by (rule lookup_here | (rule lookup_there, (simp; fail)))+

lemma base_petition_supermajority: "map_of baseline_config ''petition_supermajority'' = Some (PFloat (fl 0.67))"
  unfolding baseline_config_def by (rule lookup_here | (rule lookup_there, (simp; fail)))+

lemma base_petition_vote_window_days: "map_of baseline_config ''petition_vote_window_days'' = Some (PInt 7)"
  unfolding baseline_config_def by (rule lookup_here | (rule lookup_there, (simp; fail)))+

lemma base_progressive_penalty_threshold: "map_of baseline_config ''progressive_penalty_threshold'' = Some (PFloat (fl 0.0))"
  unfolding baseline_config_def by (rule lookup_here | (rule lookup_there, (simp; fail)))+

lemma base_ramp_commoncoin_threshold: "map_of baseline_config ''ramp_commoncoin_threshold'' = Some (PInt 10000)"
  unfolding baseline_config_def by (rule lookup_here | (rule lookup_there, (simp; fail)))+

lemma base_ramp_petitions_threshold: "map_of baseline_config ''ramp_petitions_threshold'' = Some (PInt 2000)"
  unfolding baseline_config_def by (rule lookup_here | (rule lookup_there, (simp; fail)))+

lemma base_ramp_staked_resolution_threshold: "map_of baseline_config ''ramp_staked_resolution_threshold'' = Some (PInt 1000)"
  unfolding baseline_config_def by (rule lookup_here | (rule lookup_there, (simp; fail)))+

lemma base_ramp_upgrade_threshold: "map_of baseline_config ''ramp_upgrade_threshold'' = Some (PInt 5000)"
  unfolding baseline_config_def by (rule lookup_here | (rule lookup_there, (simp; fail)))+

lemma base_resolution_loser_burn_pct: "map_of baseline_config ''resolution_loser_burn_pct'' = Some (PFloat (fl 0.02))"
  unfolding baseline_config_def by (rule lookup_here | (rule lookup_there, (simp; fail)))+

lemma base_resolution_stalemate_burn_pct: "map_of baseline_config ''resolution_stalemate_burn_pct'' = Some (PFloat (fl 0.02))"
  unfolding baseline_config_def by (rule lookup_here | (rule lookup_there, (simp; fail)))+

lemma base_resolution_supermajority: "map_of baseline_config ''resolution_supermajority'' = Some (PFloat (fl 0.75))"
  unfolding baseline_config_def by (rule lookup_here | (rule lookup_there, (simp; fail)))+

lemma base_resolution_window_hours: "map_of baseline_config ''resolution_window_hours'' = Some (PInt 72)"
  unfolding baseline_config_def by (rule lookup_here | (rule lookup_there, (simp; fail)))+

lemma base_temporal_burst_min_upreps: "map_of baseline_config ''temporal_burst_min_upreps'' = Some (PInt 5)"
  unfolding baseline_config_def by (rule lookup_here | (rule lookup_there, (simp; fail)))+

lemma base_temporal_burst_window_sec: "map_of baseline_config ''temporal_burst_window_sec'' = Some (PInt 300)"
  unfolding baseline_config_def by (rule lookup_here | (rule lookup_there, (simp; fail)))+

lemma base_truth_stake_max_days: "map_of baseline_config ''truth_stake_max_days'' = Some (PInt 7)"
  unfolding baseline_config_def by (rule lookup_here | (rule lookup_there, (simp; fail)))+

lemma base_truth_stake_min_days: "map_of baseline_config ''truth_stake_min_days'' = Some (PInt 1)"
  unfolding baseline_config_def by (rule lookup_here | (rule lookup_there, (simp; fail)))+

lemma base_upgrade_activation_threshold: "map_of baseline_config ''upgrade_activation_threshold'' = Some (PFloat (fl 0.67))"
  unfolding baseline_config_def by (rule lookup_here | (rule lookup_there, (simp; fail)))+

lemma base_upgrade_activation_window_days: "map_of baseline_config ''upgrade_activation_window_days'' = Some (PInt 30)"
  unfolding baseline_config_def by (rule lookup_here | (rule lookup_there, (simp; fail)))+

lemma base_upgrade_challenge_window_hours: "map_of baseline_config ''upgrade_challenge_window_hours'' = Some (PInt 48)"
  unfolding baseline_config_def by (rule lookup_here | (rule lookup_there, (simp; fail)))+

lemma base_upgrade_filing_cost: "map_of baseline_config ''upgrade_filing_cost'' = Some (PInt 25)"
  unfolding baseline_config_def by (rule lookup_here | (rule lookup_there, (simp; fail)))+

lemma base_upgrade_quorum: "map_of baseline_config ''upgrade_quorum'' = Some (PFloat (fl 0.40))"
  unfolding baseline_config_def by (rule lookup_here | (rule lookup_there, (simp; fail)))+

lemma base_upgrade_signature_threshold: "map_of baseline_config ''upgrade_signature_threshold'' = Some (PFloat (fl 0.25))"
  unfolding baseline_config_def by (rule lookup_here | (rule lookup_there, (simp; fail)))+

lemma base_upgrade_signature_window_days: "map_of baseline_config ''upgrade_signature_window_days'' = Some (PInt 14)"
  unfolding baseline_config_def by (rule lookup_here | (rule lookup_there, (simp; fail)))+

lemma base_upgrade_supermajority: "map_of baseline_config ''upgrade_supermajority'' = Some (PFloat (fl 0.80))"
  unfolding baseline_config_def by (rule lookup_here | (rule lookup_there, (simp; fail)))+

lemma base_upgrade_vote_window_days: "map_of baseline_config ''upgrade_vote_window_days'' = Some (PInt 14)"
  unfolding baseline_config_def by (rule lookup_here | (rule lookup_there, (simp; fail)))+

lemma base_vcs_min_weight: "map_of baseline_config ''vcs_min_weight'' = Some (PFloat (fl 0.10))"
  unfolding baseline_config_def by (rule lookup_here | (rule lookup_there, (simp; fail)))+

lemma base_vote_decay_days: "map_of baseline_config ''vote_decay_days'' = Some (PInt 90)"
  unfolding baseline_config_def by (rule lookup_here | (rule lookup_there, (simp; fail)))+

lemma base_weekly_vote_base: "map_of baseline_config ''weekly_vote_base'' = Some (PInt 5)"
  unfolding baseline_config_def by (rule lookup_here | (rule lookup_there, (simp; fail)))+

lemma base_weekly_vote_per_oracle: "map_of baseline_config ''weekly_vote_per_oracle'' = Some (PInt 10)"
  unfolding baseline_config_def by (rule lookup_here | (rule lookup_there, (simp; fail)))+

subsection \<open>Reads of a well-formed configuration\<close>

lemma read_bootstrap_market_count:
  "config_ok cfg \<Longrightarrow> \<exists>n. cfg_int cfg ''bootstrap_market_count'' = Inr n
     \<and> cfg_float cfg ''bootstrap_market_count'' = Inr (Fin (of_int n)) \<and> 0 \<le> n \<and> n \<le> 100000"
  by (rule config_ok_int_read [OF _ schema_bootstrap_market_count]) simp_all

lemma read_bootstrap_min_identity_age_days:
  "config_ok cfg \<Longrightarrow> \<exists>n. cfg_int cfg ''bootstrap_min_identity_age_days'' = Inr n
     \<and> cfg_float cfg ''bootstrap_min_identity_age_days'' = Inr (Fin (of_int n)) \<and> 0 \<le> n \<and> n \<le> 365"
  by (rule config_ok_int_read [OF _ schema_bootstrap_min_identity_age_days]) simp_all

lemma read_bootstrap_pow_difficulty:
  "config_ok cfg \<Longrightarrow> \<exists>n. cfg_int cfg ''bootstrap_pow_difficulty'' = Inr n
     \<and> cfg_float cfg ''bootstrap_pow_difficulty'' = Inr (Fin (of_int n)) \<and> 1 \<le> n \<and> n \<le> 64"
  by (rule config_ok_int_read [OF _ schema_bootstrap_pow_difficulty]) simp_all

lemma read_bootstrap_resolution_supermajority:
  "config_ok cfg \<Longrightarrow> \<exists>f. cfg_float cfg ''bootstrap_resolution_supermajority'' = Inr f
     \<and> (f = NaN \<or> fle (fl 0.51) f \<and> fle f (fl 0.95))"
  by (rule config_ok_float [OF _ schema_bootstrap_resolution_supermajority], assumption, (rule fle_fl_bounds, simp)+)

lemma read_bootstrap_threshold:
  "config_ok cfg \<Longrightarrow> \<exists>n. cfg_int cfg ''bootstrap_threshold'' = Inr n
     \<and> cfg_float cfg ''bootstrap_threshold'' = Inr (Fin (of_int n)) \<and> 100 \<le> n \<and> n \<le> 100000"
  by (rule config_ok_int_read [OF _ schema_bootstrap_threshold]) simp_all

lemma read_challenge_filing_cost:
  "config_ok cfg \<Longrightarrow> \<exists>n. cfg_int cfg ''challenge_filing_cost'' = Inr n
     \<and> cfg_float cfg ''challenge_filing_cost'' = Inr (Fin (of_int n)) \<and> 1 \<le> n \<and> n \<le> 200"
  by (rule config_ok_int_read [OF _ schema_challenge_filing_cost]) simp_all

lemma read_challenge_window_hours:
  "config_ok cfg \<Longrightarrow> \<exists>n. cfg_int cfg ''challenge_window_hours'' = Inr n
     \<and> cfg_float cfg ''challenge_window_hours'' = Inr (Fin (of_int n)) \<and> 12 \<le> n \<and> n \<le> 168"
  by (rule config_ok_int_read [OF _ schema_challenge_window_hours]) simp_all

lemma read_clustering_min_weight:
  "config_ok cfg \<Longrightarrow> \<exists>f. cfg_float cfg ''clustering_min_weight'' = Inr f
     \<and> (f = NaN \<or> fle (fl 0.0) f \<and> fle f (fl 1.0))"
  by (rule config_ok_float [OF _ schema_clustering_min_weight], assumption, (rule fle_fl_bounds, simp)+)

lemma read_common_rep_weight_factor:
  "config_ok cfg \<Longrightarrow> \<exists>f. cfg_float cfg ''common_rep_weight_factor'' = Inr f
     \<and> (f = NaN \<or> fle (fl 0.0) f \<and> fle f (fl 1.0))"
  by (rule config_ok_float [OF _ schema_common_rep_weight_factor], assumption, (rule fle_fl_bounds, simp)+)

lemma read_data_unavailable_threshold:
  "config_ok cfg \<Longrightarrow> \<exists>f. cfg_float cfg ''data_unavailable_threshold'' = Inr f
     \<and> (f = NaN \<or> fle (fl 0.10) f \<and> fle f (fl 0.50))"
  by (rule config_ok_float [OF _ schema_data_unavailable_threshold], assumption, (rule fle_fl_bounds, simp)+)

lemma read_evidence_first_bonus:
  "config_ok cfg \<Longrightarrow> \<exists>f. cfg_float cfg ''evidence_first_bonus'' = Inr f
     \<and> (f = NaN \<or> fle (fl 0.0) f \<and> fle f (fl 10.0))"
  by (rule config_ok_float [OF _ schema_evidence_first_bonus], assumption, (rule fle_fl_bounds, simp)+)

lemma read_evidence_window_hours:
  "config_ok cfg \<Longrightarrow> \<exists>n. cfg_int cfg ''evidence_window_hours'' = Inr n
     \<and> cfg_float cfg ''evidence_window_hours'' = Inr (Fin (of_int n)) \<and> 12 \<le> n \<and> n \<le> 168"
  by (rule config_ok_int_read [OF _ schema_evidence_window_hours]) simp_all

lemma read_farming_easy_bet_cutoff:
  "config_ok cfg \<Longrightarrow> \<exists>f. cfg_float cfg ''farming_easy_bet_cutoff'' = Inr f
     \<and> (f = NaN \<or> fle (fl 0.50) f \<and> fle f (fl 0.99))"
  by (rule config_ok_float [OF _ schema_farming_easy_bet_cutoff], assumption, (rule fle_fl_bounds, simp)+)

lemma read_farming_hard_threshold:
  "config_ok cfg \<Longrightarrow> \<exists>f. cfg_float cfg ''farming_hard_threshold'' = Inr f
     \<and> (f = NaN \<or> fle (fl 0.20) f \<and> fle f (fl 0.99))"
  by (rule config_ok_float [OF _ schema_farming_hard_threshold], assumption, (rule fle_fl_bounds, simp)+)

lemma read_farming_soft_threshold:
  "config_ok cfg \<Longrightarrow> \<exists>f. cfg_float cfg ''farming_soft_threshold'' = Inr f
     \<and> (f = NaN \<or> fle (fl 0.10) f \<and> fle f (fl 0.95))"
  by (rule config_ok_float [OF _ schema_farming_soft_threshold], assumption, (rule fle_fl_bounds, simp)+)

lemma read_gate_lock_cost_per_member:
  "config_ok cfg \<Longrightarrow> \<exists>n. cfg_int cfg ''gate_lock_cost_per_member'' = Inr n
     \<and> cfg_float cfg ''gate_lock_cost_per_member'' = Inr (Fin (of_int n)) \<and> 1 \<le> n \<and> n \<le> 1000"
  by (rule config_ok_int_read [OF _ schema_gate_lock_cost_per_member]) simp_all

lemma read_gate_lock_min_members:
  "config_ok cfg \<Longrightarrow> \<exists>n. cfg_int cfg ''gate_lock_min_members'' = Inr n
     \<and> cfg_float cfg ''gate_lock_min_members'' = Inr (Fin (of_int n)) \<and> 2 \<le> n \<and> n \<le> 1000"
  by (rule config_ok_int_read [OF _ schema_gate_lock_min_members]) simp_all

lemma read_gate_ratification_rep:
  "config_ok cfg \<Longrightarrow> \<exists>n. cfg_int cfg ''gate_ratification_rep'' = Inr n
     \<and> cfg_float cfg ''gate_ratification_rep'' = Inr (Fin (of_int n)) \<and> 1 \<le> n \<and> n \<le> 10000"
  by (rule config_ok_int_read [OF _ schema_gate_ratification_rep]) simp_all

lemma read_gate_shutdown_appeal_window_hours:
  "config_ok cfg \<Longrightarrow> \<exists>n. cfg_int cfg ''gate_shutdown_appeal_window_hours'' = Inr n
     \<and> cfg_float cfg ''gate_shutdown_appeal_window_hours'' = Inr (Fin (of_int n)) \<and> 12 \<le> n \<and> n \<le> 168"
  by (rule config_ok_int_read [OF _ schema_gate_shutdown_appeal_window_hours]) simp_all

lemma read_gate_shutdown_cooldown_days:
  "config_ok cfg \<Longrightarrow> \<exists>n. cfg_int cfg ''gate_shutdown_cooldown_days'' = Inr n
     \<and> cfg_float cfg ''gate_shutdown_cooldown_days'' = Inr (Fin (of_int n)) \<and> 7 \<le> n \<and> n \<le> 365"
  by (rule config_ok_int_read [OF _ schema_gate_shutdown_cooldown_days]) simp_all

lemma read_gate_shutdown_execution_delay_days:
  "config_ok cfg \<Longrightarrow> \<exists>n. cfg_int cfg ''gate_shutdown_execution_delay_days'' = Inr n
     \<and> cfg_float cfg ''gate_shutdown_execution_delay_days'' = Inr (Fin (of_int n)) \<and> 1 \<le> n \<and> n \<le> 90"
  by (rule config_ok_int_read [OF _ schema_gate_shutdown_execution_delay_days]) simp_all

lemma read_gate_suspend_duration_days:
  "config_ok cfg \<Longrightarrow> \<exists>n. cfg_int cfg ''gate_suspend_duration_days'' = Inr n
     \<and> cfg_float cfg ''gate_suspend_duration_days'' = Inr (Fin (of_int n)) \<and> 1 \<le> n \<and> n \<le> 365"
  by (rule config_ok_int_read [OF _ schema_gate_suspend_duration_days]) simp_all

lemma read_governance_decay_days:
  "config_ok cfg \<Longrightarrow> \<exists>n. cfg_int cfg ''governance_decay_days'' = Inr n
     \<and> cfg_float cfg ''governance_decay_days'' = Inr (Fin (of_int n)) \<and> 7 \<le> n \<and> n \<le> 365"
  by (rule config_ok_int_read [OF _ schema_governance_decay_days]) simp_all

lemma read_governance_decay_factor:
  "config_ok cfg \<Longrightarrow> \<exists>f. cfg_float cfg ''governance_decay_factor'' = Inr f
     \<and> (f = NaN \<or> fle (fl 0.10) f \<and> fle f (fl 0.99))"
  by (rule config_ok_float [OF _ schema_governance_decay_factor], assumption, (rule fle_fl_bounds, simp)+)

lemma read_max_future_event_drift_sec:
  "config_ok cfg \<Longrightarrow> \<exists>n. cfg_int cfg ''max_future_event_drift_sec'' = Inr n
     \<and> cfg_float cfg ''max_future_event_drift_sec'' = Inr (Fin (of_int n)) \<and> 30 \<le> n \<and> n \<le> 3600"
  by (rule config_ok_int_read [OF _ schema_max_future_event_drift_sec]) simp_all

lemma read_min_market_participants:
  "config_ok cfg \<Longrightarrow> \<exists>n. cfg_int cfg ''min_market_participants'' = Inr n
     \<and> cfg_float cfg ''min_market_participants'' = Inr (Fin (of_int n)) \<and> 2 \<le> n \<and> n \<le> 100"
  by (rule config_ok_int_read [OF _ schema_min_market_participants]) simp_all

lemma read_min_market_total_stake:
  "config_ok cfg \<Longrightarrow> \<exists>f. cfg_float cfg ''min_market_total_stake'' = Inr f
     \<and> (f = NaN \<or> fle (fl 1.0) f \<and> fle f (fl 1000.0))"
  by (rule config_ok_float [OF _ schema_min_market_total_stake], assumption, (rule fle_fl_bounds, simp)+)

lemma read_min_resolution_stake_total:
  "config_ok cfg \<Longrightarrow> \<exists>f. cfg_float cfg ''min_resolution_stake_total'' = Inr f
     \<and> (f = NaN \<or> fle (fl 5.0) f \<and> fle f (fl 500.0))"
  by (rule config_ok_float [OF _ schema_min_resolution_stake_total], assumption, (rule fle_fl_bounds, simp)+)

lemma read_oracle_min_earned:
  "config_ok cfg \<Longrightarrow> \<exists>f. cfg_float cfg ''oracle_min_earned'' = Inr f
     \<and> (f = NaN \<or> fle (fl 0.001) f \<and> fle f (fl 1.0))"
  by (rule config_ok_float [OF _ schema_oracle_min_earned], assumption, (rule fle_fl_bounds, simp)+)

lemma read_petition_filing_cost:
  "config_ok cfg \<Longrightarrow> \<exists>n. cfg_int cfg ''petition_filing_cost'' = Inr n
     \<and> cfg_float cfg ''petition_filing_cost'' = Inr (Fin (of_int n)) \<and> 1 \<le> n \<and> n \<le> 100"
  by (rule config_ok_int_read [OF _ schema_petition_filing_cost]) simp_all

lemma read_petition_quorum:
  "config_ok cfg \<Longrightarrow> \<exists>f. cfg_float cfg ''petition_quorum'' = Inr f
     \<and> (f = NaN \<or> fle (fl 0.10) f \<and> fle f (fl 0.80))"
  by (rule config_ok_float [OF _ schema_petition_quorum], assumption, (rule fle_fl_bounds, simp)+)

lemma read_petition_signature_threshold:
  "config_ok cfg \<Longrightarrow> \<exists>f. cfg_float cfg ''petition_signature_threshold'' = Inr f
     \<and> (f = NaN \<or> fle (fl 0.05) f \<and> fle f (fl 0.50))"
  by (rule config_ok_float [OF _ schema_petition_signature_threshold], assumption, (rule fle_fl_bounds, simp)+)

lemma read_petition_signature_window_days:
  "config_ok cfg \<Longrightarrow> \<exists>n. cfg_int cfg ''petition_signature_window_days'' = Inr n
     \<and> cfg_float cfg ''petition_signature_window_days'' = Inr (Fin (of_int n)) \<and> 1 \<le> n \<and> n \<le> 60"
  by (rule config_ok_int_read [OF _ schema_petition_signature_window_days]) simp_all

lemma read_petition_supermajority:
  "config_ok cfg \<Longrightarrow> \<exists>f. cfg_float cfg ''petition_supermajority'' = Inr f
     \<and> (f = NaN \<or> fle (fl 0.51) f \<and> fle f (fl 0.95))"
  by (rule config_ok_float [OF _ schema_petition_supermajority], assumption, (rule fle_fl_bounds, simp)+)

lemma read_petition_vote_window_days:
  "config_ok cfg \<Longrightarrow> \<exists>n. cfg_int cfg ''petition_vote_window_days'' = Inr n
     \<and> cfg_float cfg ''petition_vote_window_days'' = Inr (Fin (of_int n)) \<and> 1 \<le> n \<and> n \<le> 30"
  by (rule config_ok_int_read [OF _ schema_petition_vote_window_days]) simp_all

lemma read_progressive_penalty_threshold:
  "config_ok cfg \<Longrightarrow> \<exists>f. cfg_float cfg ''progressive_penalty_threshold'' = Inr f
     \<and> (f = NaN \<or> fle (fl 0.0) f \<and> fle f (fl 1.0))"
  by (rule config_ok_float [OF _ schema_progressive_penalty_threshold], assumption, (rule fle_fl_bounds, simp)+)

lemma read_ramp_commoncoin_threshold:
  "config_ok cfg \<Longrightarrow> \<exists>n. cfg_int cfg ''ramp_commoncoin_threshold'' = Inr n
     \<and> cfg_float cfg ''ramp_commoncoin_threshold'' = Inr (Fin (of_int n)) \<and> 1 \<le> n \<and> n \<le> 10000000"
  by (rule config_ok_int_read [OF _ schema_ramp_commoncoin_threshold]) simp_all

lemma read_ramp_petitions_threshold:
  "config_ok cfg \<Longrightarrow> \<exists>n. cfg_int cfg ''ramp_petitions_threshold'' = Inr n
     \<and> cfg_float cfg ''ramp_petitions_threshold'' = Inr (Fin (of_int n)) \<and> 1 \<le> n \<and> n \<le> 10000000"
  by (rule config_ok_int_read [OF _ schema_ramp_petitions_threshold]) simp_all

lemma read_ramp_staked_resolution_threshold:
  "config_ok cfg \<Longrightarrow> \<exists>n. cfg_int cfg ''ramp_staked_resolution_threshold'' = Inr n
     \<and> cfg_float cfg ''ramp_staked_resolution_threshold'' = Inr (Fin (of_int n)) \<and> 1 \<le> n \<and> n \<le> 10000000"
  by (rule config_ok_int_read [OF _ schema_ramp_staked_resolution_threshold]) simp_all

lemma read_ramp_upgrade_threshold:
  "config_ok cfg \<Longrightarrow> \<exists>n. cfg_int cfg ''ramp_upgrade_threshold'' = Inr n
     \<and> cfg_float cfg ''ramp_upgrade_threshold'' = Inr (Fin (of_int n)) \<and> 1 \<le> n \<and> n \<le> 10000000"
  by (rule config_ok_int_read [OF _ schema_ramp_upgrade_threshold]) simp_all

lemma read_resolution_loser_burn_pct:
  "config_ok cfg \<Longrightarrow> \<exists>f. cfg_float cfg ''resolution_loser_burn_pct'' = Inr f
     \<and> (f = NaN \<or> fle (fl 0.0) f \<and> fle f (fl 0.10))"
  by (rule config_ok_float [OF _ schema_resolution_loser_burn_pct], assumption, (rule fle_fl_bounds, simp)+)

lemma read_resolution_stalemate_burn_pct:
  "config_ok cfg \<Longrightarrow> \<exists>f. cfg_float cfg ''resolution_stalemate_burn_pct'' = Inr f
     \<and> (f = NaN \<or> fle (fl 0.0) f \<and> fle f (fl 0.10))"
  by (rule config_ok_float [OF _ schema_resolution_stalemate_burn_pct], assumption, (rule fle_fl_bounds, simp)+)

lemma read_resolution_supermajority:
  "config_ok cfg \<Longrightarrow> \<exists>f. cfg_float cfg ''resolution_supermajority'' = Inr f
     \<and> (f = NaN \<or> fle (fl 0.51) f \<and> fle f (fl 0.95))"
  by (rule config_ok_float [OF _ schema_resolution_supermajority], assumption, (rule fle_fl_bounds, simp)+)

lemma read_resolution_window_hours:
  "config_ok cfg \<Longrightarrow> \<exists>n. cfg_int cfg ''resolution_window_hours'' = Inr n
     \<and> cfg_float cfg ''resolution_window_hours'' = Inr (Fin (of_int n)) \<and> 24 \<le> n \<and> n \<le> 336"
  by (rule config_ok_int_read [OF _ schema_resolution_window_hours]) simp_all

lemma read_temporal_burst_min_upreps:
  "config_ok cfg \<Longrightarrow> \<exists>n. cfg_int cfg ''temporal_burst_min_upreps'' = Inr n
     \<and> cfg_float cfg ''temporal_burst_min_upreps'' = Inr (Fin (of_int n)) \<and> 2 \<le> n \<and> n \<le> 100"
  by (rule config_ok_int_read [OF _ schema_temporal_burst_min_upreps]) simp_all

lemma read_temporal_burst_window_sec:
  "config_ok cfg \<Longrightarrow> \<exists>n. cfg_int cfg ''temporal_burst_window_sec'' = Inr n
     \<and> cfg_float cfg ''temporal_burst_window_sec'' = Inr (Fin (of_int n)) \<and> 30 \<le> n \<and> n \<le> 3600"
  by (rule config_ok_int_read [OF _ schema_temporal_burst_window_sec]) simp_all

lemma read_upgrade_activation_threshold:
  "config_ok cfg \<Longrightarrow> \<exists>f. cfg_float cfg ''upgrade_activation_threshold'' = Inr f
     \<and> (f = NaN \<or> fle (fl 0.51) f \<and> fle f (fl 0.99))"
  by (rule config_ok_float [OF _ schema_upgrade_activation_threshold], assumption, (rule fle_fl_bounds, simp)+)

lemma read_upgrade_activation_window_days:
  "config_ok cfg \<Longrightarrow> \<exists>n. cfg_int cfg ''upgrade_activation_window_days'' = Inr n
     \<and> cfg_float cfg ''upgrade_activation_window_days'' = Inr (Fin (of_int n)) \<and> 1 \<le> n \<and> n \<le> 90"
  by (rule config_ok_int_read [OF _ schema_upgrade_activation_window_days]) simp_all

lemma read_upgrade_challenge_window_hours:
  "config_ok cfg \<Longrightarrow> \<exists>n. cfg_int cfg ''upgrade_challenge_window_hours'' = Inr n
     \<and> cfg_float cfg ''upgrade_challenge_window_hours'' = Inr (Fin (of_int n)) \<and> 12 \<le> n \<and> n \<le> 168"
  by (rule config_ok_int_read [OF _ schema_upgrade_challenge_window_hours]) simp_all

lemma read_upgrade_filing_cost:
  "config_ok cfg \<Longrightarrow> \<exists>n. cfg_int cfg ''upgrade_filing_cost'' = Inr n
     \<and> cfg_float cfg ''upgrade_filing_cost'' = Inr (Fin (of_int n)) \<and> 1 \<le> n \<and> n \<le> 200"
  by (rule config_ok_int_read [OF _ schema_upgrade_filing_cost]) simp_all

lemma read_upgrade_quorum:
  "config_ok cfg \<Longrightarrow> \<exists>f. cfg_float cfg ''upgrade_quorum'' = Inr f
     \<and> (f = NaN \<or> fle (fl 0.10) f \<and> fle f (fl 0.95))"
  by (rule config_ok_float [OF _ schema_upgrade_quorum], assumption, (rule fle_fl_bounds, simp)+)

lemma read_upgrade_signature_threshold:
  "config_ok cfg \<Longrightarrow> \<exists>f. cfg_float cfg ''upgrade_signature_threshold'' = Inr f
     \<and> (f = NaN \<or> fle (fl 0.05) f \<and> fle f (fl 0.50))"
  by (rule config_ok_float [OF _ schema_upgrade_signature_threshold], assumption, (rule fle_fl_bounds, simp)+)

lemma read_upgrade_signature_window_days:
  "config_ok cfg \<Longrightarrow> \<exists>n. cfg_int cfg ''upgrade_signature_window_days'' = Inr n
     \<and> cfg_float cfg ''upgrade_signature_window_days'' = Inr (Fin (of_int n)) \<and> 1 \<le> n \<and> n \<le> 60"
  by (rule config_ok_int_read [OF _ schema_upgrade_signature_window_days]) simp_all

lemma read_upgrade_supermajority:
  "config_ok cfg \<Longrightarrow> \<exists>f. cfg_float cfg ''upgrade_supermajority'' = Inr f
     \<and> (f = NaN \<or> fle (fl 0.51) f \<and> fle f (fl 0.99))"
  by (rule config_ok_float [OF _ schema_upgrade_supermajority], assumption, (rule fle_fl_bounds, simp)+)

lemma read_upgrade_vote_window_days:
  "config_ok cfg \<Longrightarrow> \<exists>n. cfg_int cfg ''upgrade_vote_window_days'' = Inr n
     \<and> cfg_float cfg ''upgrade_vote_window_days'' = Inr (Fin (of_int n)) \<and> 1 \<le> n \<and> n \<le> 60"
  by (rule config_ok_int_read [OF _ schema_upgrade_vote_window_days]) simp_all

lemma read_vcs_min_weight:
  "config_ok cfg \<Longrightarrow> \<exists>f. cfg_float cfg ''vcs_min_weight'' = Inr f
     \<and> (f = NaN \<or> fle (fl 0.0) f \<and> fle f (fl 1.0))"
  by (rule config_ok_float [OF _ schema_vcs_min_weight], assumption, (rule fle_fl_bounds, simp)+)

lemma read_vote_decay_days:
  "config_ok cfg \<Longrightarrow> \<exists>n. cfg_int cfg ''vote_decay_days'' = Inr n
     \<and> cfg_float cfg ''vote_decay_days'' = Inr (Fin (of_int n)) \<and> 7 \<le> n \<and> n \<le> 365"
  by (rule config_ok_int_read [OF _ schema_vote_decay_days]) simp_all

lemma read_weekly_vote_base:
  "config_ok cfg \<Longrightarrow> \<exists>n. cfg_int cfg ''weekly_vote_base'' = Inr n
     \<and> cfg_float cfg ''weekly_vote_base'' = Inr (Fin (of_int n)) \<and> 1 \<le> n \<and> n \<le> 100"
  by (rule config_ok_int_read [OF _ schema_weekly_vote_base]) simp_all

lemma read_weekly_vote_per_oracle:
  "config_ok cfg \<Longrightarrow> \<exists>n. cfg_int cfg ''weekly_vote_per_oracle'' = Inr n
     \<and> cfg_float cfg ''weekly_vote_per_oracle'' = Inr (Fin (of_int n)) \<and> 1 \<le> n \<and> n \<le> 1000"
  by (rule config_ok_int_read [OF _ schema_weekly_vote_per_oracle]) simp_all

subsection \<open>The baseline\<close>

lemma base_int_bootstrap_market_count [cfg_simps]: "cfg_int baseline_config ''bootstrap_market_count'' = Inr 100"
  by (rule cfg_int_lookup [OF base_bootstrap_market_count])

lemma base_float_bootstrap_market_count [cfg_simps]: "cfg_float baseline_config ''bootstrap_market_count'' = Inr (Fin 100)"
  using cfg_float_lookup_int [OF base_bootstrap_market_count] by simp

lemma base_int_bootstrap_min_identity_age_days [cfg_simps]: "cfg_int baseline_config ''bootstrap_min_identity_age_days'' = Inr 3"
  by (rule cfg_int_lookup [OF base_bootstrap_min_identity_age_days])

lemma base_float_bootstrap_min_identity_age_days [cfg_simps]: "cfg_float baseline_config ''bootstrap_min_identity_age_days'' = Inr (Fin 3)"
  using cfg_float_lookup_int [OF base_bootstrap_min_identity_age_days] by simp

lemma base_int_bootstrap_pow_argon2id_output_len [cfg_simps]: "cfg_int baseline_config ''bootstrap_pow_argon2id_output_len'' = Inr 32"
  by (rule cfg_int_lookup [OF base_bootstrap_pow_argon2id_output_len])

lemma base_float_bootstrap_pow_argon2id_output_len [cfg_simps]: "cfg_float baseline_config ''bootstrap_pow_argon2id_output_len'' = Inr (Fin 32)"
  using cfg_float_lookup_int [OF base_bootstrap_pow_argon2id_output_len] by simp

lemma base_int_bootstrap_pow_difficulty [cfg_simps]: "cfg_int baseline_config ''bootstrap_pow_difficulty'' = Inr 16"
  by (rule cfg_int_lookup [OF base_bootstrap_pow_difficulty])

lemma base_float_bootstrap_pow_difficulty [cfg_simps]: "cfg_float baseline_config ''bootstrap_pow_difficulty'' = Inr (Fin 16)"
  using cfg_float_lookup_int [OF base_bootstrap_pow_difficulty] by simp

lemma base_float_bootstrap_resolution_supermajority [cfg_simps]: "cfg_float baseline_config ''bootstrap_resolution_supermajority'' = Inr (fl 0.75)"
  by (rule cfg_float_lookup [OF base_bootstrap_resolution_supermajority])

lemma base_int_bootstrap_threshold [cfg_simps]: "cfg_int baseline_config ''bootstrap_threshold'' = Inr 1000"
  by (rule cfg_int_lookup [OF base_bootstrap_threshold])

lemma base_float_bootstrap_threshold [cfg_simps]: "cfg_float baseline_config ''bootstrap_threshold'' = Inr (Fin 1000)"
  using cfg_float_lookup_int [OF base_bootstrap_threshold] by simp

lemma base_int_challenge_filing_cost [cfg_simps]: "cfg_int baseline_config ''challenge_filing_cost'' = Inr 25"
  by (rule cfg_int_lookup [OF base_challenge_filing_cost])

lemma base_float_challenge_filing_cost [cfg_simps]: "cfg_float baseline_config ''challenge_filing_cost'' = Inr (Fin 25)"
  using cfg_float_lookup_int [OF base_challenge_filing_cost] by simp

lemma base_int_challenge_window_hours [cfg_simps]: "cfg_int baseline_config ''challenge_window_hours'' = Inr 48"
  by (rule cfg_int_lookup [OF base_challenge_window_hours])

lemma base_float_challenge_window_hours [cfg_simps]: "cfg_float baseline_config ''challenge_window_hours'' = Inr (Fin 48)"
  using cfg_float_lookup_int [OF base_challenge_window_hours] by simp

lemma base_float_clustering_min_weight [cfg_simps]: "cfg_float baseline_config ''clustering_min_weight'' = Inr (fl 0.20)"
  by (rule cfg_float_lookup [OF base_clustering_min_weight])

lemma base_float_common_rep_weight_factor [cfg_simps]: "cfg_float baseline_config ''common_rep_weight_factor'' = Inr (fl 0.10)"
  by (rule cfg_float_lookup [OF base_common_rep_weight_factor])

lemma base_float_data_unavailable_threshold [cfg_simps]: "cfg_float baseline_config ''data_unavailable_threshold'' = Inr (fl 0.33)"
  by (rule cfg_float_lookup [OF base_data_unavailable_threshold])

lemma base_float_evidence_first_bonus [cfg_simps]: "cfg_float baseline_config ''evidence_first_bonus'' = Inr (fl 0.5)"
  by (rule cfg_float_lookup [OF base_evidence_first_bonus])

lemma base_int_evidence_window_hours [cfg_simps]: "cfg_int baseline_config ''evidence_window_hours'' = Inr 48"
  by (rule cfg_int_lookup [OF base_evidence_window_hours])

lemma base_float_evidence_window_hours [cfg_simps]: "cfg_float baseline_config ''evidence_window_hours'' = Inr (Fin 48)"
  using cfg_float_lookup_int [OF base_evidence_window_hours] by simp

lemma base_float_farming_easy_bet_cutoff [cfg_simps]: "cfg_float baseline_config ''farming_easy_bet_cutoff'' = Inr (fl 0.80)"
  by (rule cfg_float_lookup [OF base_farming_easy_bet_cutoff])

lemma base_float_farming_hard_threshold [cfg_simps]: "cfg_float baseline_config ''farming_hard_threshold'' = Inr (fl 0.80)"
  by (rule cfg_float_lookup [OF base_farming_hard_threshold])

lemma base_float_farming_soft_threshold [cfg_simps]: "cfg_float baseline_config ''farming_soft_threshold'' = Inr (fl 0.60)"
  by (rule cfg_float_lookup [OF base_farming_soft_threshold])

lemma base_int_gate_lock_cost_per_member [cfg_simps]: "cfg_int baseline_config ''gate_lock_cost_per_member'' = Inr 10"
  by (rule cfg_int_lookup [OF base_gate_lock_cost_per_member])

lemma base_float_gate_lock_cost_per_member [cfg_simps]: "cfg_float baseline_config ''gate_lock_cost_per_member'' = Inr (Fin 10)"
  using cfg_float_lookup_int [OF base_gate_lock_cost_per_member] by simp

lemma base_int_gate_lock_min_members [cfg_simps]: "cfg_int baseline_config ''gate_lock_min_members'' = Inr 5"
  by (rule cfg_int_lookup [OF base_gate_lock_min_members])

lemma base_float_gate_lock_min_members [cfg_simps]: "cfg_float baseline_config ''gate_lock_min_members'' = Inr (Fin 5)"
  using cfg_float_lookup_int [OF base_gate_lock_min_members] by simp

lemma base_int_gate_ratification_rep [cfg_simps]: "cfg_int baseline_config ''gate_ratification_rep'' = Inr 50"
  by (rule cfg_int_lookup [OF base_gate_ratification_rep])

lemma base_float_gate_ratification_rep [cfg_simps]: "cfg_float baseline_config ''gate_ratification_rep'' = Inr (Fin 50)"
  using cfg_float_lookup_int [OF base_gate_ratification_rep] by simp

lemma base_int_gate_shutdown_appeal_window_hours [cfg_simps]: "cfg_int baseline_config ''gate_shutdown_appeal_window_hours'' = Inr 48"
  by (rule cfg_int_lookup [OF base_gate_shutdown_appeal_window_hours])

lemma base_float_gate_shutdown_appeal_window_hours [cfg_simps]: "cfg_float baseline_config ''gate_shutdown_appeal_window_hours'' = Inr (Fin 48)"
  using cfg_float_lookup_int [OF base_gate_shutdown_appeal_window_hours] by simp

lemma base_int_gate_shutdown_cooldown_days [cfg_simps]: "cfg_int baseline_config ''gate_shutdown_cooldown_days'' = Inr 90"
  by (rule cfg_int_lookup [OF base_gate_shutdown_cooldown_days])

lemma base_float_gate_shutdown_cooldown_days [cfg_simps]: "cfg_float baseline_config ''gate_shutdown_cooldown_days'' = Inr (Fin 90)"
  using cfg_float_lookup_int [OF base_gate_shutdown_cooldown_days] by simp

lemma base_int_gate_shutdown_execution_delay_days [cfg_simps]: "cfg_int baseline_config ''gate_shutdown_execution_delay_days'' = Inr 7"
  by (rule cfg_int_lookup [OF base_gate_shutdown_execution_delay_days])

lemma base_float_gate_shutdown_execution_delay_days [cfg_simps]: "cfg_float baseline_config ''gate_shutdown_execution_delay_days'' = Inr (Fin 7)"
  using cfg_float_lookup_int [OF base_gate_shutdown_execution_delay_days] by simp

lemma base_int_gate_suspend_duration_days [cfg_simps]: "cfg_int baseline_config ''gate_suspend_duration_days'' = Inr 30"
  by (rule cfg_int_lookup [OF base_gate_suspend_duration_days])

lemma base_float_gate_suspend_duration_days [cfg_simps]: "cfg_float baseline_config ''gate_suspend_duration_days'' = Inr (Fin 30)"
  using cfg_float_lookup_int [OF base_gate_suspend_duration_days] by simp

lemma base_int_governance_decay_days [cfg_simps]: "cfg_int baseline_config ''governance_decay_days'' = Inr 90"
  by (rule cfg_int_lookup [OF base_governance_decay_days])

lemma base_float_governance_decay_days [cfg_simps]: "cfg_float baseline_config ''governance_decay_days'' = Inr (Fin 90)"
  using cfg_float_lookup_int [OF base_governance_decay_days] by simp

lemma base_float_governance_decay_factor [cfg_simps]: "cfg_float baseline_config ''governance_decay_factor'' = Inr (fl 0.50)"
  by (rule cfg_float_lookup [OF base_governance_decay_factor])

lemma base_int_max_future_event_drift_sec [cfg_simps]: "cfg_int baseline_config ''max_future_event_drift_sec'' = Inr 300"
  by (rule cfg_int_lookup [OF base_max_future_event_drift_sec])

lemma base_float_max_future_event_drift_sec [cfg_simps]: "cfg_float baseline_config ''max_future_event_drift_sec'' = Inr (Fin 300)"
  using cfg_float_lookup_int [OF base_max_future_event_drift_sec] by simp

lemma base_int_min_market_participants [cfg_simps]: "cfg_int baseline_config ''min_market_participants'' = Inr 5"
  by (rule cfg_int_lookup [OF base_min_market_participants])

lemma base_float_min_market_participants [cfg_simps]: "cfg_float baseline_config ''min_market_participants'' = Inr (Fin 5)"
  using cfg_float_lookup_int [OF base_min_market_participants] by simp

lemma base_float_min_market_total_stake [cfg_simps]: "cfg_float baseline_config ''min_market_total_stake'' = Inr (fl 10.0)"
  by (rule cfg_float_lookup [OF base_min_market_total_stake])

lemma base_float_min_resolution_stake_total [cfg_simps]: "cfg_float baseline_config ''min_resolution_stake_total'' = Inr (fl 20.0)"
  by (rule cfg_float_lookup [OF base_min_resolution_stake_total])

lemma base_float_oracle_min_earned [cfg_simps]: "cfg_float baseline_config ''oracle_min_earned'' = Inr (fl 0.01)"
  by (rule cfg_float_lookup [OF base_oracle_min_earned])

lemma base_int_petition_filing_cost [cfg_simps]: "cfg_int baseline_config ''petition_filing_cost'' = Inr 15"
  by (rule cfg_int_lookup [OF base_petition_filing_cost])

lemma base_float_petition_filing_cost [cfg_simps]: "cfg_float baseline_config ''petition_filing_cost'' = Inr (Fin 15)"
  using cfg_float_lookup_int [OF base_petition_filing_cost] by simp

lemma base_float_petition_quorum [cfg_simps]: "cfg_float baseline_config ''petition_quorum'' = Inr (fl 0.30)"
  by (rule cfg_float_lookup [OF base_petition_quorum])

lemma base_float_petition_signature_threshold [cfg_simps]: "cfg_float baseline_config ''petition_signature_threshold'' = Inr (fl 0.25)"
  by (rule cfg_float_lookup [OF base_petition_signature_threshold])

lemma base_int_petition_signature_window_days [cfg_simps]: "cfg_int baseline_config ''petition_signature_window_days'' = Inr 14"
  by (rule cfg_int_lookup [OF base_petition_signature_window_days])

lemma base_float_petition_signature_window_days [cfg_simps]: "cfg_float baseline_config ''petition_signature_window_days'' = Inr (Fin 14)"
  using cfg_float_lookup_int [OF base_petition_signature_window_days] by simp

lemma base_float_petition_supermajority [cfg_simps]: "cfg_float baseline_config ''petition_supermajority'' = Inr (fl 0.67)"
  by (rule cfg_float_lookup [OF base_petition_supermajority])

lemma base_int_petition_vote_window_days [cfg_simps]: "cfg_int baseline_config ''petition_vote_window_days'' = Inr 7"
  by (rule cfg_int_lookup [OF base_petition_vote_window_days])

lemma base_float_petition_vote_window_days [cfg_simps]: "cfg_float baseline_config ''petition_vote_window_days'' = Inr (Fin 7)"
  using cfg_float_lookup_int [OF base_petition_vote_window_days] by simp

lemma base_float_progressive_penalty_threshold [cfg_simps]: "cfg_float baseline_config ''progressive_penalty_threshold'' = Inr (fl 0.0)"
  by (rule cfg_float_lookup [OF base_progressive_penalty_threshold])

lemma base_int_ramp_commoncoin_threshold [cfg_simps]: "cfg_int baseline_config ''ramp_commoncoin_threshold'' = Inr 10000"
  by (rule cfg_int_lookup [OF base_ramp_commoncoin_threshold])

lemma base_float_ramp_commoncoin_threshold [cfg_simps]: "cfg_float baseline_config ''ramp_commoncoin_threshold'' = Inr (Fin 10000)"
  using cfg_float_lookup_int [OF base_ramp_commoncoin_threshold] by simp

lemma base_int_ramp_petitions_threshold [cfg_simps]: "cfg_int baseline_config ''ramp_petitions_threshold'' = Inr 2000"
  by (rule cfg_int_lookup [OF base_ramp_petitions_threshold])

lemma base_float_ramp_petitions_threshold [cfg_simps]: "cfg_float baseline_config ''ramp_petitions_threshold'' = Inr (Fin 2000)"
  using cfg_float_lookup_int [OF base_ramp_petitions_threshold] by simp

lemma base_int_ramp_staked_resolution_threshold [cfg_simps]: "cfg_int baseline_config ''ramp_staked_resolution_threshold'' = Inr 1000"
  by (rule cfg_int_lookup [OF base_ramp_staked_resolution_threshold])

lemma base_float_ramp_staked_resolution_threshold [cfg_simps]: "cfg_float baseline_config ''ramp_staked_resolution_threshold'' = Inr (Fin 1000)"
  using cfg_float_lookup_int [OF base_ramp_staked_resolution_threshold] by simp

lemma base_int_ramp_upgrade_threshold [cfg_simps]: "cfg_int baseline_config ''ramp_upgrade_threshold'' = Inr 5000"
  by (rule cfg_int_lookup [OF base_ramp_upgrade_threshold])

lemma base_float_ramp_upgrade_threshold [cfg_simps]: "cfg_float baseline_config ''ramp_upgrade_threshold'' = Inr (Fin 5000)"
  using cfg_float_lookup_int [OF base_ramp_upgrade_threshold] by simp

lemma base_float_resolution_loser_burn_pct [cfg_simps]: "cfg_float baseline_config ''resolution_loser_burn_pct'' = Inr (fl 0.02)"
  by (rule cfg_float_lookup [OF base_resolution_loser_burn_pct])

lemma base_float_resolution_stalemate_burn_pct [cfg_simps]: "cfg_float baseline_config ''resolution_stalemate_burn_pct'' = Inr (fl 0.02)"
  by (rule cfg_float_lookup [OF base_resolution_stalemate_burn_pct])

lemma base_float_resolution_supermajority [cfg_simps]: "cfg_float baseline_config ''resolution_supermajority'' = Inr (fl 0.75)"
  by (rule cfg_float_lookup [OF base_resolution_supermajority])

lemma base_int_resolution_window_hours [cfg_simps]: "cfg_int baseline_config ''resolution_window_hours'' = Inr 72"
  by (rule cfg_int_lookup [OF base_resolution_window_hours])

lemma base_float_resolution_window_hours [cfg_simps]: "cfg_float baseline_config ''resolution_window_hours'' = Inr (Fin 72)"
  using cfg_float_lookup_int [OF base_resolution_window_hours] by simp

lemma base_int_temporal_burst_min_upreps [cfg_simps]: "cfg_int baseline_config ''temporal_burst_min_upreps'' = Inr 5"
  by (rule cfg_int_lookup [OF base_temporal_burst_min_upreps])

lemma base_float_temporal_burst_min_upreps [cfg_simps]: "cfg_float baseline_config ''temporal_burst_min_upreps'' = Inr (Fin 5)"
  using cfg_float_lookup_int [OF base_temporal_burst_min_upreps] by simp

lemma base_int_temporal_burst_window_sec [cfg_simps]: "cfg_int baseline_config ''temporal_burst_window_sec'' = Inr 300"
  by (rule cfg_int_lookup [OF base_temporal_burst_window_sec])

lemma base_float_temporal_burst_window_sec [cfg_simps]: "cfg_float baseline_config ''temporal_burst_window_sec'' = Inr (Fin 300)"
  using cfg_float_lookup_int [OF base_temporal_burst_window_sec] by simp

lemma base_float_upgrade_activation_threshold [cfg_simps]: "cfg_float baseline_config ''upgrade_activation_threshold'' = Inr (fl 0.67)"
  by (rule cfg_float_lookup [OF base_upgrade_activation_threshold])

lemma base_int_upgrade_activation_window_days [cfg_simps]: "cfg_int baseline_config ''upgrade_activation_window_days'' = Inr 30"
  by (rule cfg_int_lookup [OF base_upgrade_activation_window_days])

lemma base_float_upgrade_activation_window_days [cfg_simps]: "cfg_float baseline_config ''upgrade_activation_window_days'' = Inr (Fin 30)"
  using cfg_float_lookup_int [OF base_upgrade_activation_window_days] by simp

lemma base_int_upgrade_challenge_window_hours [cfg_simps]: "cfg_int baseline_config ''upgrade_challenge_window_hours'' = Inr 48"
  by (rule cfg_int_lookup [OF base_upgrade_challenge_window_hours])

lemma base_float_upgrade_challenge_window_hours [cfg_simps]: "cfg_float baseline_config ''upgrade_challenge_window_hours'' = Inr (Fin 48)"
  using cfg_float_lookup_int [OF base_upgrade_challenge_window_hours] by simp

lemma base_int_upgrade_filing_cost [cfg_simps]: "cfg_int baseline_config ''upgrade_filing_cost'' = Inr 25"
  by (rule cfg_int_lookup [OF base_upgrade_filing_cost])

lemma base_float_upgrade_filing_cost [cfg_simps]: "cfg_float baseline_config ''upgrade_filing_cost'' = Inr (Fin 25)"
  using cfg_float_lookup_int [OF base_upgrade_filing_cost] by simp

lemma base_float_upgrade_quorum [cfg_simps]: "cfg_float baseline_config ''upgrade_quorum'' = Inr (fl 0.40)"
  by (rule cfg_float_lookup [OF base_upgrade_quorum])

lemma base_float_upgrade_signature_threshold [cfg_simps]: "cfg_float baseline_config ''upgrade_signature_threshold'' = Inr (fl 0.25)"
  by (rule cfg_float_lookup [OF base_upgrade_signature_threshold])

lemma base_int_upgrade_signature_window_days [cfg_simps]: "cfg_int baseline_config ''upgrade_signature_window_days'' = Inr 14"
  by (rule cfg_int_lookup [OF base_upgrade_signature_window_days])

lemma base_float_upgrade_signature_window_days [cfg_simps]: "cfg_float baseline_config ''upgrade_signature_window_days'' = Inr (Fin 14)"
  using cfg_float_lookup_int [OF base_upgrade_signature_window_days] by simp

lemma base_float_upgrade_supermajority [cfg_simps]: "cfg_float baseline_config ''upgrade_supermajority'' = Inr (fl 0.80)"
  by (rule cfg_float_lookup [OF base_upgrade_supermajority])

lemma base_int_upgrade_vote_window_days [cfg_simps]: "cfg_int baseline_config ''upgrade_vote_window_days'' = Inr 14"
  by (rule cfg_int_lookup [OF base_upgrade_vote_window_days])

lemma base_float_upgrade_vote_window_days [cfg_simps]: "cfg_float baseline_config ''upgrade_vote_window_days'' = Inr (Fin 14)"
  using cfg_float_lookup_int [OF base_upgrade_vote_window_days] by simp

lemma base_float_vcs_min_weight [cfg_simps]: "cfg_float baseline_config ''vcs_min_weight'' = Inr (fl 0.10)"
  by (rule cfg_float_lookup [OF base_vcs_min_weight])

lemma base_int_vote_decay_days [cfg_simps]: "cfg_int baseline_config ''vote_decay_days'' = Inr 90"
  by (rule cfg_int_lookup [OF base_vote_decay_days])

lemma base_float_vote_decay_days [cfg_simps]: "cfg_float baseline_config ''vote_decay_days'' = Inr (Fin 90)"
  using cfg_float_lookup_int [OF base_vote_decay_days] by simp

lemma base_int_weekly_vote_base [cfg_simps]: "cfg_int baseline_config ''weekly_vote_base'' = Inr 5"
  by (rule cfg_int_lookup [OF base_weekly_vote_base])

lemma base_float_weekly_vote_base [cfg_simps]: "cfg_float baseline_config ''weekly_vote_base'' = Inr (Fin 5)"
  using cfg_float_lookup_int [OF base_weekly_vote_base] by simp

lemma base_int_weekly_vote_per_oracle [cfg_simps]: "cfg_int baseline_config ''weekly_vote_per_oracle'' = Inr 10"
  by (rule cfg_int_lookup [OF base_weekly_vote_per_oracle])

lemma base_float_weekly_vote_per_oracle [cfg_simps]: "cfg_float baseline_config ''weekly_vote_per_oracle'' = Inr (Fin 10)"
  using cfg_float_lookup_int [OF base_weekly_vote_per_oracle] by simp

lemma list_all2_map_of:
  assumes "list_all2 (\<lambda>(k, v) (k', s). k = k' \<and> P s v) xs ys" and "map_of xs k = Some v"
  shows "\<exists>s. map_of ys k = Some s \<and> P s v"
  using assms by (induction xs ys rule: list_all2_induct) (auto split: if_splits)

lemma list_all2_keys:
  "list_all2 (\<lambda>(k, v) (k', s). k = k' \<and> P s v) xs ys \<Longrightarrow> map fst xs = map fst ys"
  by (induction xs ys rule: list_all2_induct) auto

text \<open>An invariant holds once its two keys are looked up and their values compared.\<close>

lemma check_invariant_lookup:
  assumes "map_of cfg l = Some v" "map_of cfg r = Some w" "py_lt w v = Inr True"
  shows "check_invariant cfg (l, ''>'', r) = Inr ()"
  using assms by (simp add: check_invariant_def has_key_def get_def)

lemma baseline_invariants: "validate_cross_field_invariants baseline_config = Inr ()"
proof -
  have "flt (fl (33/100)) (fl (3/4))" by (rule flt_fl_gap [of _ 1 1 3 2]) simp_all
  moreover have "flt (fl (3/10)) (fl (67/100))" by (rule flt_fl_gap [of _ 1 1 5 3]) simp_all
  moreover have "flt (fl (2/5)) (fl (4/5))" by (rule flt_fl_gap [of _ 1 1 5 3]) simp_all
  moreover have "flt (fl (3/10)) (fl (3/4))" by (rule flt_fl_gap [of _ 1 1 5 3]) simp_all
  moreover have "flt (fl (3/5)) (fl (4/5))" by (rule flt_fl_gap [of _ 5 3 3 2]) simp_all
  ultimately show ?thesis
    unfolding validate_cross_field_invariants_def cross_field_invariants_def
    by (simp add: check_invariant_lookup [OF base_petition_supermajority base_petition_quorum]
       check_invariant_lookup [OF base_resolution_supermajority base_data_unavailable_threshold]
       check_invariant_lookup [OF base_upgrade_supermajority base_upgrade_quorum]
       check_invariant_lookup [OF base_gate_shutdown_supermajority base_gate_shutdown_quorum]
       check_invariant_lookup [OF base_gate_suspend_supermajority base_gate_shutdown_quorum]
       check_invariant_lookup [OF base_farming_hard_threshold base_farming_soft_threshold]
       check_invariant_lookup [OF base_truth_stake_max_days base_truth_stake_min_days]
       check_invariant_lookup [OF base_upgrade_filing_cost base_petition_filing_cost]
       check_invariant_lookup [OF base_ramp_petitions_threshold base_ramp_staked_resolution_threshold]
       check_invariant_lookup [OF base_ramp_upgrade_threshold base_ramp_petitions_threshold]
       check_invariant_lookup [OF base_ramp_commoncoin_threshold base_ramp_upgrade_threshold])
qed

lemma baseline_ok: "config_ok baseline_config"
proof -
  have keys: "map fst baseline_config = map fst config_schema" using baseline_entries by (rule list_all2_keys)
  then have d: "distinct (map fst baseline_config)" using distinct_schema by simp
  moreover have "validate_petition_value k v = Inr ()" if "(k, v) \<in> set baseline_config" for k v
    using list_all2_map_of [OF baseline_entries, of k v] that d by (simp add: validate_map_of)
  ultimately show ?thesis using keys baseline_invariants by (auto simp: config_ok_def schema_complete_iff)
qed

end
