(* ===== verification/Dsl_Executor.thy ===== *)
theory Dsl_Executor
  imports Config_Reads
begin

text \<open>
  \<open>services/infonet/governance/dsl_executor.py\<close>: the applier of petition payloads. A payload is any
  decoded JSON value; the executor works on a copy of the configuration and either returns the
  new one with the changed keys or raises. The lemmas show what a successful application does, that
  it keeps the configuration well-formed, and how it fails.
\<close>

subsection \<open>The code\<close>

definition allowed_payload_types :: "string list" where
  "allowed_payload_types = [''UPDATE_PARAM'', ''BATCH_UPDATE_PARAMS'', ''ENABLE_FEATURE'', ''DISABLE_FEATURE'']"

record dsl_result =
  new_config :: pydict
  changed_keys :: "string list"

definition check_payload_shape :: "pyval \<Rightarrow> string res" where
  "check_payload_shape payload = (case payload of
       PDict p \<Rightarrow> bnd (in_str_set (get p ''type'') allowed_payload_types) (\<lambda>known.
         if known then Inr (py_str (get p ''type'')) else Inl InvalidPetition)
     | _ \<Rightarrow> Inl InvalidPetition)"

definition check_key_writeable :: "pyval \<Rightarrow> string res" where
  "check_key_writeable key = (case key of
       PStr k \<Rightarrow> if k = [] then Inl InvalidPetition
                else if k \<notin> set (map fst config_schema) then Inl InvalidPetition
                else Inr k
     | _ \<Rightarrow> Inl InvalidPetition)"

definition apply_update_param :: "pydict \<Rightarrow> pydict \<Rightarrow> dsl_result res" where
  "apply_update_param payload candidate =
     (if \<not> has_key payload ''key'' \<or> \<not> has_key payload ''value'' then Inl InvalidPetition
      else bnd (check_key_writeable (get payload ''key'')) (\<lambda>key.
        bnd (validate_petition_value key (get payload ''value'')) (\<lambda>_.
          Inr \<lparr>new_config = AList.update key (get payload ''value'') candidate, changed_keys = [key]\<rparr>)))"

text \<open>
  One round of the batch loop, on the keys seen so far and the result so far. \<open>key in seen_keys\<close>
  hashes the key, so a list or a dict there raises \<open>TypeError\<close>; a hashable key that is not a string
  is refused by the writeability check of the same round, so only strings are ever seen again.
\<close>

definition batch_step :: "pyval \<Rightarrow> dsl_result \<Rightarrow> dsl_result res" where
  "batch_step u r = (case u of
       PDict d \<Rightarrow>
         if \<not> has_key d ''key'' \<or> \<not> has_key d ''value'' then Inl InvalidPetition
         else bnd (in_str_set (get d ''key'') (changed_keys r)) (\<lambda>seen.
           if seen then Inl InvalidPetition
           else bnd (check_key_writeable (get d ''key'')) (\<lambda>key.
             bnd (validate_petition_value key (get d ''value'')) (\<lambda>_.
               Inr \<lparr>new_config = AList.update key (get d ''value'') (new_config r),
                    changed_keys = changed_keys r @ [key]\<rparr>)))
     | _ \<Rightarrow> Inl InvalidPetition)"

definition apply_batch_update :: "pydict \<Rightarrow> pydict \<Rightarrow> dsl_result res" where
  "apply_batch_update payload candidate = (case get payload ''updates'' of
       PList updates \<Rightarrow> if updates = [] then Inl InvalidPetition
         else foldres batch_step updates \<lparr>new_config = candidate, changed_keys = []\<rparr>
     | _ \<Rightarrow> Inl InvalidPetition)"

definition apply_feature_toggle :: "pydict \<Rightarrow> pydict \<Rightarrow> bool \<Rightarrow> dsl_result res" where
  "apply_feature_toggle payload candidate enable = (case get payload ''feature'' of
       PStr f \<Rightarrow> if f = [] then Inl InvalidPetition
         else bnd (check_key_writeable (PStr f)) (\<lambda>feature.
           (case map_of config_schema feature of
              None \<Rightarrow> Inl InvalidPetition
            | Some sch \<Rightarrow> if stype sch \<noteq> ''bool'' then Inl InvalidPetition
                else Inr \<lparr>new_config = AList.update feature (PBool enable) candidate, changed_keys = [feature]\<rparr>))
     | _ \<Rightarrow> Inl InvalidPetition)"

definition dispatch_payload :: "string \<Rightarrow> pydict \<Rightarrow> pydict \<Rightarrow> dsl_result res" where
  "dispatch_payload payload_type payload candidate =
     (if payload_type = ''UPDATE_PARAM'' then apply_update_param payload candidate
      else if payload_type = ''BATCH_UPDATE_PARAMS'' then apply_batch_update payload candidate
      else if payload_type = ''ENABLE_FEATURE'' then apply_feature_toggle payload candidate True
      else if payload_type = ''DISABLE_FEATURE'' then apply_feature_toggle payload candidate False
      else Inl InvalidPetition)"

definition as_dict :: "pyval \<Rightarrow> pydict" where
  "as_dict v = (case v of PDict d \<Rightarrow> d | _ \<Rightarrow> [])"

text \<open>\<open>apply_petition_payload(payload, current_config)\<close>\<close>

definition apply_petition_payload :: "pyval \<Rightarrow> pydict \<Rightarrow> dsl_result res" where
  "apply_petition_payload payload current_config =
     bnd (check_payload_shape payload) (\<lambda>payload_type.
       bnd (dispatch_payload payload_type (as_dict payload) current_config) (\<lambda>r.
         bnd (validate_cross_field_invariants (new_config r)) (\<lambda>_. Inr r)))"

subsection \<open>An abstract view: a list of validated assignments\<close>

text \<open>
  Whatever its type, a payload that succeeds is a nonempty list of assignments to distinct schema
  keys, each accepted by the schema, applied in order.
\<close>

definition assign :: "(string \<times> pyval) list \<Rightarrow> pydict \<Rightarrow> pydict" where
  "assign ups cfg = fold (\<lambda>(k, v). AList.update k v) ups cfg"

definition valid_updates :: "(string \<times> pyval) list \<Rightarrow> bool" where
  "valid_updates ups \<longleftrightarrow> distinct (map fst ups) \<and> (\<forall>(k, v) \<in> set ups. validate_petition_value k v = Inr ())"

lemma check_key_writeable_Inr:
  "check_key_writeable key = Inr k \<longleftrightarrow> key = PStr k \<and> k \<noteq> [] \<and> k \<in> set (map fst config_schema)"
  by (auto simp: check_key_writeable_def split: pyval.splits if_splits)

lemma map_of_assign: "distinct (map fst ups) \<Longrightarrow> map_of (assign ups cfg) = map_of cfg ++ map_of ups"
proof (induction ups arbitrary: cfg)
  case (Cons u ups)
  obtain k v where u: "u = (k, v)" by fastforce
  have "map_of (assign (u # ups) cfg) = (map_of cfg)(k \<mapsto> v) ++ map_of ups"
    using Cons by (simp add: assign_def u)
  moreover have "k \<notin> dom (map_of ups)" using Cons.prems by (simp add: u dom_map_of_conv_image_fst)
  ultimately show ?case by (auto simp: u map_add_def fun_eq_iff split: option.splits)
qed (simp add: assign_def)

lemma distinct_assign: "distinct (map fst cfg) \<Longrightarrow> distinct (map fst (assign ups cfg))"
  by (induction ups arbitrary: cfg) (auto simp: assign_def distinct_update)

lemma keys_assign: "set (map fst (assign ups cfg)) = set (map fst ups) \<union> set (map fst cfg)"
proof (induction ups arbitrary: cfg)
  case (Cons u ups)
  have "assign (u # ups) cfg = assign ups (AList.update (fst u) (snd u) cfg)"
    by (simp add: assign_def split_beta)
  then show ?case using Cons [of "AList.update (fst u) (snd u) cfg"] by (simp add: dom_update)
qed (simp add: assign_def)

lemma batch_step_Inr:
  assumes "batch_step u r = Inr r'"
  shows "\<exists>k v. r' = \<lparr>new_config = AList.update k v (new_config r), changed_keys = changed_keys r @ [k]\<rparr>
    \<and> k \<notin> set (changed_keys r) \<and> validate_petition_value k v = Inr ()
    \<and> (\<exists>d. u = PDict d \<and> get d ''key'' = PStr k \<and> get d ''value'' = v)"
  using assms
  by (auto simp: batch_step_def bnd_eq_Inr in_str_set_def check_key_writeable_Inr in_strs_def split: pyval.splits if_splits)

lemma batch_loop_Inr:
  assumes "foldres batch_step us \<lparr>new_config = assign ups cfg, changed_keys = map fst ups\<rparr> = Inr r"
    and "valid_updates ups"
  shows "\<exists>ups'. length ups' = length ups + length us \<and> valid_updates ups'
    \<and> r = \<lparr>new_config = assign ups' cfg, changed_keys = map fst ups'\<rparr>"
  using assms
proof (induction us arbitrary: ups)
  case (Cons u us)
  from Cons.prems(1) obtain r1 where r1: "batch_step u \<lparr>new_config = assign ups cfg, changed_keys = map fst ups\<rparr> = Inr r1"
    and rest: "foldres batch_step us r1 = Inr r"
    by (auto simp: bnd_eq_Inr)
  from batch_step_Inr [OF r1] obtain k v
    where kv: "r1 = \<lparr>new_config = assign (ups @ [(k, v)]) cfg, changed_keys = map fst (ups @ [(k, v)])\<rparr>"
      and new: "k \<notin> set (map fst ups)" "validate_petition_value k v = Inr ()"
    by (auto simp: assign_def)
  have "valid_updates (ups @ [(k, v)])" using Cons.prems(2) new by (auto simp: valid_updates_def)
  with Cons.IH [of "ups @ [(k, v)]"] rest show ?case by (auto simp: kv)
qed auto

lemma validate_bool:
  "map_of config_schema f = Some sch \<Longrightarrow> stype sch = ''bool'' \<Longrightarrow> smin sch = None \<Longrightarrow> smax sch = None \<Longrightarrow> senum sch = None
    \<Longrightarrow> validate_petition_value f (PBool b) = Inr ()"
  by (simp add: validate_petition_value_def check_entry_def type_matches_def)

text \<open>The schema puts no bounds on its boolean keys.\<close>

lemma bool_entries_unbounded: "\<forall>(k, sch) \<in> set config_schema. stype sch = ''bool'' \<longrightarrow> smin sch = None \<and> smax sch = None \<and> senum sch = None"
  unfolding config_schema_def by simp

text \<open>What a successful handler has done: the assignments it made.\<close>

definition assigned :: "pydict \<Rightarrow> dsl_result \<Rightarrow> bool" where
  "assigned cfg r \<longleftrightarrow> (\<exists>ups. ups \<noteq> [] \<and> valid_updates ups \<and> r = \<lparr>new_config = assign ups cfg, changed_keys = map fst ups\<rparr>)"

lemma assigned_single:
  assumes "validate_petition_value k v = Inr ()"
  shows "assigned cfg \<lparr>new_config = AList.update k v cfg, changed_keys = [k]\<rparr>"
  unfolding assigned_def using assms by (intro exI [of _ "[(k, v)]"]) (simp add: valid_updates_def assign_def)

lemma apply_update_param_Inr:
  assumes "apply_update_param p cfg = Inr r" shows "assigned cfg r"
proof -
  from assms obtain k where "validate_petition_value k (get p ''value'') = Inr ()"
    and "r = \<lparr>new_config = AList.update k (get p ''value'') cfg, changed_keys = [k]\<rparr>"
    by (auto simp: apply_update_param_def bnd_eq_Inr split: if_splits)
  then show ?thesis using assigned_single by simp
qed

lemma apply_feature_toggle_Inr:
  assumes "apply_feature_toggle p cfg b = Inr r" shows "assigned cfg r"
proof -
  from assms obtain f sch where f: "map_of config_schema f = Some sch" "stype sch = ''bool''"
    and r: "r = \<lparr>new_config = AList.update f (PBool b) cfg, changed_keys = [f]\<rparr>"
    by (auto simp: apply_feature_toggle_def bnd_eq_Inr check_key_writeable_Inr split: pyval.splits option.splits if_splits)
  have "smin sch = None" "smax sch = None" "senum sch = None"
    using f(2) bool_entries_unbounded map_of_SomeD [OF f(1)] by fast+
  then have "validate_petition_value f (PBool b) = Inr ()" by (rule validate_bool [OF f])
  then show ?thesis using assigned_single r by simp
qed

lemma apply_batch_update_Inr:
  assumes "apply_batch_update p cfg = Inr r" shows "assigned cfg r"
proof -
  let ?init = "\<lparr>new_config = assign [] cfg, changed_keys = map fst ([] :: (string \<times> pyval) list)\<rparr>"
  have init: "?init = \<lparr>new_config = cfg, changed_keys = []\<rparr>" by (simp add: assign_def)
  from assms obtain us where us: "us \<noteq> []" "foldres batch_step us ?init = Inr r"
    unfolding apply_batch_update_def init by (simp split: pyval.splits if_splits)
  have "valid_updates []" by (simp add: valid_updates_def)
  from batch_loop_Inr [OF us(2) this] obtain ups where "length ups = length us" "valid_updates ups"
    and r: "r = \<lparr>new_config = assign ups cfg, changed_keys = map fst ups\<rparr>" by auto
  with us(1) show ?thesis unfolding assigned_def by (intro exI [of _ ups] conjI r) auto
qed

lemma dispatch_Inr:
  assumes "dispatch_payload t p cfg = Inr r" shows "assigned cfg r"
proof -
  consider "apply_update_param p cfg = Inr r" | "apply_batch_update p cfg = Inr r"
    | "apply_feature_toggle p cfg True = Inr r" | "apply_feature_toggle p cfg False = Inr r"
    using assms unfolding dispatch_payload_def by (simp only: split: if_splits) simp_all
  then show ?thesis
    by cases (rule apply_update_param_Inr apply_batch_update_Inr apply_feature_toggle_Inr, assumption)+
qed

lemma apply_petition_payload_Inr:
  assumes "apply_petition_payload p cfg = Inr r"
  shows "\<exists>ups. ups \<noteq> [] \<and> valid_updates ups \<and> r = \<lparr>new_config = assign ups cfg, changed_keys = map fst ups\<rparr>
    \<and> validate_cross_field_invariants (assign ups cfg) = Inr ()"
  using assms dispatch_Inr by (fastforce simp: apply_petition_payload_def bnd_eq_Inr assigned_def)

lemma image_fst_subsetI: "(\<And>k v. (k, v) \<in> set xs \<Longrightarrow> k \<in> A) \<Longrightarrow> set (map fst xs) \<subseteq> A"
  by auto

lemma config_ok_assign:
  assumes cfg: "config_ok cfg" and ups: "valid_updates ups"
    and inv: "validate_cross_field_invariants (assign ups cfg) = Inr ()"
  shows "config_ok (assign ups cfg)"
proof -
  have "k \<in> set (map fst config_schema)" if "(k, v) \<in> set ups" for k v
  proof -
    have "validate_petition_value k v = Inr ()" using ups that by (auto simp: valid_updates_def)
    then have "k \<in> dom (map_of config_schema)" by (auto simp: validate_map_of)
    then show ?thesis by (simp only: dom_map_of_conv_image_fst set_map)
  qed
  then have sub: "set (map fst ups) \<subseteq> set (map fst config_schema)" by (rule image_fst_subsetI)
  then have keys: "set (map fst (assign ups cfg)) = set (map fst config_schema)"
    using cfg by (simp only: keys_assign config_ok_def schema_complete_iff) blast
  have d: "distinct (map fst (assign ups cfg))" using cfg by (auto simp: config_ok_def intro: distinct_assign)
  have "validate_petition_value k v = Inr ()" if "(k, v) \<in> set (assign ups cfg)" for k v
  proof -
    have "map_of (assign ups cfg) k = Some v" using that d by simp
    then have "map_of ups k = Some v \<or> map_of cfg k = Some v"
      using ups by (auto simp: map_of_assign valid_updates_def map_add_Some_iff)
    then have "(k, v) \<in> set ups \<or> (k, v) \<in> set cfg" using map_of_SomeD by metis
    then show ?thesis using ups cfg by (auto simp: valid_updates_def config_ok_def)
  qed
  with d keys inv show ?thesis by (auto simp: config_ok_def schema_complete_iff)
qed

subsection \<open>How an application fails\<close>

text \<open>The schema's bounds are numbers where the type is numeric, so no comparison raises.\<close>

definition entry_typed :: "schema_entry \<Rightarrow> bool" where
  "entry_typed sch \<longleftrightarrow> stype sch \<in> {''int'', ''float'', ''bool'', ''str''}
     \<and> (case smin sch of None \<Rightarrow> True | Some w \<Rightarrow> is_number w \<and> (stype sch = ''int'' \<or> stype sch = ''float''))
     \<and> (case smax sch of None \<Rightarrow> True | Some w \<Rightarrow> is_number w \<and> (stype sch = ''int'' \<or> stype sch = ''float''))"

lemma schema_typed: "\<forall>(k, sch) \<in> set config_schema. entry_typed sch"
  unfolding config_schema_def by (simp add: entry_typed_def)

lemma is_number_num_val: "is_number v \<Longrightarrow> \<exists>x. num_val v = Some x"
  by (cases v) auto

lemma py_lt_numbers: "is_number a \<Longrightarrow> is_number b \<Longrightarrow> \<exists>c. py_lt a b = Inr c"
  by (cases a; cases b) auto

lemma type_matches_number: "type_matches t v \<Longrightarrow> t \<in> {''int'', ''float''} \<Longrightarrow> is_number v"
  by (cases v) (auto simp: type_matches_def)

lemma check_entry_Inl:
  assumes "entry_typed sch" and "check_entry sch v = Inl e" shows "e = InvalidPetition"
proof (cases "type_matches (stype sch) v")
  case True
  have cmp: "\<exists>c. py_lt v w = Inr c" "\<exists>c. py_lt w v = Inr c" if "smin sch = Some w \<or> smax sch = Some w" for w
    using that assms(1) True type_matches_number [OF True] py_lt_numbers unfolding entry_typed_def by fastforce+
  have "\<exists>c. (case smin sch of None \<Rightarrow> Inr False | Some lo \<Rightarrow> py_lt v lo) = Inr c"
    using cmp by (cases "smin sch") auto
  moreover have "\<exists>c. (case smax sch of None \<Rightarrow> Inr False | Some hi \<Rightarrow> py_lt hi v) = Inr c"
    using cmp by (cases "smax sch") auto
  ultimately show ?thesis
    using assms(2) by (auto simp: check_entry_def split: if_splits option.splits)
next
  case False
  with assms(2) show ?thesis by (auto simp: check_entry_def split: if_splits)
qed

lemma validate_Inl: "validate_petition_value k v = Inl e \<Longrightarrow> e = InvalidPetition"
  using schema_typed check_entry_Inl map_of_SomeD [of config_schema k]
  by (fastforce simp: validate_petition_value_def split: option.splits)

lemma check_key_Inl: "check_key_writeable key = Inl e \<Longrightarrow> e = InvalidPetition"
  by (auto simp: check_key_writeable_def split: pyval.splits if_splits)

lemma batch_step_Inl:
  "batch_step u r = Inl e \<Longrightarrow> e = InvalidPetition \<or> e = TypeError \<and> (\<exists>d. u = PDict d \<and> \<not> hashable (get d ''key''))"
  by (auto simp: batch_step_def bnd_eq_Inl in_str_set_def dest: validate_Inl check_key_Inl split: pyval.splits if_splits)

lemma batch_loop_Inl:
  "foldres batch_step us r = Inl e \<Longrightarrow>
     e = InvalidPetition \<or> e = TypeError \<and> (\<exists>d. PDict d \<in> set us \<and> \<not> hashable (get d ''key''))"
  by (induction us arbitrary: r) (auto simp: bnd_eq_Inl dest: batch_step_Inl)

text \<open>The values hashed by the executor: the type, and the keys of a batch.\<close>

definition unhashable_payload :: "pyval \<Rightarrow> bool" where
  "unhashable_payload p \<longleftrightarrow> (\<exists>d. p = PDict d \<and> (\<not> hashable (get d ''type'')
     \<or> get d ''type'' = PStr ''BATCH_UPDATE_PARAMS'' \<and> (\<exists>us u. get d ''updates'' = PList us \<and> PDict u \<in> set us \<and> \<not> hashable (get u ''key''))))"

text \<open>
  Where \<open>TypeError\<close> is raised: the type is hashed first; a batch hashes its keys one by one, and reaches
  an entry only after setting every entry before it, which are then distinct and accepted by the schema.
\<close>

definition sets_key :: "pyval \<Rightarrow> string \<times> pyval \<Rightarrow> bool" where
  "sets_key u kv \<longleftrightarrow> (\<exists>d. u = PDict d \<and> has_key d ''key'' \<and> has_key d ''value'' \<and> get d ''key'' = PStr (fst kv) \<and> get d ''value'' = snd kv)"

definition hash_stop :: "pyval list \<Rightarrow> bool" where
  "hash_stop us \<longleftrightarrow> (\<exists>pre u post ups. us = pre @ PDict u # post \<and> list_all2 sets_key pre ups \<and> valid_updates ups
     \<and> has_key u ''key'' \<and> has_key u ''value'' \<and> \<not> hashable (get u ''key''))"

definition hash_error :: "pyval \<Rightarrow> bool" where
  "hash_error p \<longleftrightarrow> (\<exists>d. p = PDict d \<and> (\<not> hashable (get d ''type'')
     \<or> get d ''type'' = PStr ''BATCH_UPDATE_PARAMS'' \<and> (\<exists>us. get d ''updates'' = PList us \<and> hash_stop us)))"

lemma empty_key_not_in_schema: "map_of config_schema [] = None"
  unfolding config_schema_def by simp

lemma batch_step_set:
  assumes "sets_key u (k, v)" "k \<notin> set (changed_keys r)" "validate_petition_value k v = Inr ()"
  shows "batch_step u r = Inr \<lparr>new_config = AList.update k v (new_config r), changed_keys = changed_keys r @ [k]\<rparr>"
proof -
  obtain sch where "map_of config_schema k = Some sch" using assms(3) by (auto simp: validate_map_of)
  then have k: "k \<noteq> []" "k \<in> fst ` set config_schema"
    using empty_key_not_in_schema by (auto dest: map_of_SomeD intro: rev_image_eqI)
  then have "check_key_writeable (PStr k) = Inr k" by (simp add: check_key_writeable_def)
  then show ?thesis using assms by (auto simp: sets_key_def batch_step_def in_str_set_def in_strs_def)
qed

lemma batch_prefix:
  assumes "list_all2 sets_key pre rest" and "valid_updates (ups @ rest)"
  shows "foldres batch_step (pre @ us) \<lparr>new_config = assign ups cfg, changed_keys = map fst ups\<rparr>
    = foldres batch_step us \<lparr>new_config = assign (ups @ rest) cfg, changed_keys = map fst (ups @ rest)\<rparr>"
  using assms
proof (induction pre rest arbitrary: ups rule: list_all2_induct)
  case (Cons u pre kv rest)
  obtain k v where kv: "kv = (k, v)" by fastforce
  have ok: "k \<notin> set (map fst ups)" "validate_petition_value k v = Inr ()"
    using Cons.prems by (auto simp: kv valid_updates_def)
  have "batch_step u \<lparr>new_config = assign ups cfg, changed_keys = map fst ups\<rparr>
      = Inr \<lparr>new_config = assign (ups @ [kv]) cfg, changed_keys = map fst (ups @ [kv])\<rparr>"
    using batch_step_set [of u k v] Cons.hyps(1) ok by (simp add: kv assign_def)
  with Cons.IH [of "ups @ [kv]"] Cons.prems show ?case by simp
qed simp

lemma batch_step_TypeError:
  "batch_step u r = Inl TypeError \<longleftrightarrow> (\<exists>d. u = PDict d \<and> has_key d ''key'' \<and> has_key d ''value'' \<and> \<not> hashable (get d ''key''))"
  by (auto simp: batch_step_def bnd_eq_Inl in_str_set_def dest: validate_Inl check_key_Inl split: pyval.splits if_splits)

lemma batch_step_sets: "batch_step u r = Inr r' \<Longrightarrow> \<exists>k v. sets_key u (k, v) \<and> k \<notin> set (changed_keys r) \<and> validate_petition_value k v = Inr ()
    \<and> r' = \<lparr>new_config = AList.update k v (new_config r), changed_keys = changed_keys r @ [k]\<rparr>"
  using batch_step_Inr [of u r r'] by (fastforce simp: sets_key_def batch_step_def split: pyval.splits if_splits)

lemma batch_loop_stops:
  assumes "foldres batch_step us \<lparr>new_config = assign ups cfg, changed_keys = map fst ups\<rparr> = Inl TypeError" and "valid_updates ups"
  shows "\<exists>pre u post rest. us = pre @ PDict u # post \<and> list_all2 sets_key pre rest \<and> valid_updates (ups @ rest)
    \<and> has_key u ''key'' \<and> has_key u ''value'' \<and> \<not> hashable (get u ''key'')"
  using assms
proof (induction us arbitrary: ups)
  case (Cons x us)
  show ?case
  proof (cases "batch_step x \<lparr>new_config = assign ups cfg, changed_keys = map fst ups\<rparr>")
    case (Inl e)
    with Cons.prems(1) have "e = TypeError" by simp
    with Inl obtain d where "x = PDict d" "has_key d ''key''" "has_key d ''value''" "\<not> hashable (get d ''key'')"
      by (auto simp: batch_step_TypeError)
    then show ?thesis using Cons.prems(2)
      by (intro exI [of _ "[]"] exI [of _ d] exI [of _ us]) auto
  next
    case (Inr r)
    from batch_step_sets [OF Inr] obtain k v where kv: "sets_key x (k, v)" "k \<notin> set (map fst ups)" "validate_petition_value k v = Inr ()"
      and r: "r = \<lparr>new_config = assign (ups @ [(k, v)]) cfg, changed_keys = map fst (ups @ [(k, v)])\<rparr>" by (auto simp: assign_def)
    have "valid_updates (ups @ [(k, v)])" using kv Cons.prems(2) by (auto simp: valid_updates_def)
    from Cons.IH [OF _ this] Cons.prems(1) Inr r obtain pre u post rest where "us = pre @ PDict u # post" "list_all2 sets_key pre rest"
      "valid_updates ((ups @ [(k, v)]) @ rest)" "has_key u ''key''" "has_key u ''value''" "\<not> hashable (get u ''key'')" by auto
    with kv(1) show ?thesis by (intro exI [of _ "x # pre"] exI [of _ u] exI [of _ post] exI [of _ "(k, v) # rest"]) auto
  qed
qed simp

lemma batch_TypeError:
  "foldres batch_step us \<lparr>new_config = cfg, changed_keys = []\<rparr> = Inl TypeError \<longleftrightarrow> hash_stop us"
proof
  have init: "\<lparr>new_config = cfg, changed_keys = []\<rparr> = \<lparr>new_config = assign [] cfg, changed_keys = map fst ([] :: (string \<times> pyval) list)\<rparr>"
    by (simp add: assign_def)
  {
    assume "foldres batch_step us \<lparr>new_config = cfg, changed_keys = []\<rparr> = Inl TypeError"
    then show "hash_stop us" unfolding init hash_stop_def by (drule_tac batch_loop_stops) (auto simp: valid_updates_def)
  next
    assume "hash_stop us"
    then obtain pre u post ups where us: "us = pre @ PDict u # post" "list_all2 sets_key pre ups" "valid_updates ups"
      and u: "has_key u ''key''" "has_key u ''value''" "\<not> hashable (get u ''key'')" unfolding hash_stop_def by blast
    have "batch_step (PDict u) r = Inl TypeError" for r using u by (auto simp: batch_step_TypeError)
    then show "foldres batch_step us \<lparr>new_config = cfg, changed_keys = []\<rparr> = Inl TypeError"
      using batch_prefix [OF us(2), of "[]"] us(1,3) unfolding init by simp
  }
qed

lemma dispatch_Inl:
  assumes "dispatch_payload t p cfg = Inl e"
  shows "e = InvalidPetition \<or> e = TypeError \<and> t = ''BATCH_UPDATE_PARAMS'' \<and> (\<exists>us u. get p ''updates'' = PList us \<and> PDict u \<in> set us \<and> \<not> hashable (get u ''key''))"
proof -
  have 1: "apply_update_param p cfg = Inl e \<Longrightarrow> e = InvalidPetition"
    by (auto simp: apply_update_param_def bnd_eq_Inl dest: validate_Inl check_key_Inl split: if_splits)
  have 2: "apply_feature_toggle p cfg b = Inl e \<Longrightarrow> e = InvalidPetition" for b
    by (auto simp: apply_feature_toggle_def bnd_eq_Inl dest: check_key_Inl split: pyval.splits option.splits if_splits)
  have 3: "t = ''BATCH_UPDATE_PARAMS'' \<Longrightarrow> apply_batch_update p cfg = Inl e \<Longrightarrow> ?thesis"
    by (auto simp: apply_batch_update_def dest: batch_loop_Inl split: pyval.splits if_splits)
  from assms have "apply_update_param p cfg = Inl e \<or> t = ''BATCH_UPDATE_PARAMS'' \<and> apply_batch_update p cfg = Inl e
      \<or> (\<exists>b. apply_feature_toggle p cfg b = Inl e) \<or> e = InvalidPetition"
    unfolding dispatch_payload_def by (auto split: if_splits)
  with 1 2 3 show ?thesis by blast
qed

text \<open>The parameters that the cross-field invariants compare are numeric.\<close>

definition numeric_key :: "string \<Rightarrow> bool" where
  "numeric_key k \<longleftrightarrow> (\<exists>sch. map_of config_schema k = Some sch \<and> stype sch \<in> {''int'', ''float''})"

lemma numeric_keyI: "map_of config_schema k = Some (entry t lo hi en) \<Longrightarrow> t \<in> {''int'', ''float''} \<Longrightarrow> numeric_key k"
  by (simp add: numeric_key_def)

lemma validate_numeric: "numeric_key k \<Longrightarrow> validate_petition_value k v = Inr () \<Longrightarrow> is_number v"
  by (auto simp: numeric_key_def validate_map_of check_entry_def dest: type_matches_number split: if_splits)

definition all_valid :: "pydict \<Rightarrow> bool" where
  "all_valid cfg \<longleftrightarrow> (\<forall>k v. map_of cfg k = Some v \<longrightarrow> validate_petition_value k v = Inr ())"

lemma check_invariant_Inl:
  assumes "all_valid cfg" and "numeric_key l" "numeric_key r" and "check_invariant cfg (l, op, r) = Inl e"
  shows "e = InvalidPetition"
proof -
  have num: "is_number (get cfg k)" if "has_key cfg k" "numeric_key k" for k
    using that assms(1) validate_numeric by (auto simp: has_key_def get_def all_valid_def)
  show ?thesis
    using assms num [of l] num [of r] py_lt_numbers by (fastforce simp: check_invariant_def split: if_splits)
qed

lemma foldres_unit_Inl: "foldres (\<lambda>x _. f x) xs () = Inl e \<Longrightarrow> \<exists>x \<in> set xs. f x = Inl e"
  by (induction xs) (auto simp: bnd_eq_Inl)

lemma numeric_keys:
  "numeric_key ''petition_supermajority''"
  "numeric_key ''petition_quorum''"
  "numeric_key ''resolution_supermajority''"
  "numeric_key ''data_unavailable_threshold''"
  "numeric_key ''upgrade_supermajority''"
  "numeric_key ''upgrade_quorum''"
  "numeric_key ''gate_shutdown_supermajority''"
  "numeric_key ''gate_shutdown_quorum''"
  "numeric_key ''gate_suspend_supermajority''"
  "numeric_key ''farming_hard_threshold''"
  "numeric_key ''farming_soft_threshold''"
  "numeric_key ''truth_stake_max_days''"
  "numeric_key ''truth_stake_min_days''"
  "numeric_key ''upgrade_filing_cost''"
  "numeric_key ''petition_filing_cost''"
  "numeric_key ''ramp_petitions_threshold''"
  "numeric_key ''ramp_staked_resolution_threshold''"
  "numeric_key ''ramp_upgrade_threshold''"
  "numeric_key ''ramp_commoncoin_threshold''"
  unfolding numeric_key_def config_schema_def
  by (rule exI, rule conjI, (rule lookup_here | (rule lookup_there, (simp; fail)))+, simp)+

lemma cross_numeric: "\<forall>(l, op, r) \<in> set cross_field_invariants. numeric_key l \<and> numeric_key r"
  by (simp add: cross_field_invariants_def numeric_keys)

lemma cross_field_Inl:
  assumes "all_valid cfg" and "validate_cross_field_invariants cfg = Inl e" shows "e = InvalidPetition"
proof -
  from foldres_unit_Inl [OF assms(2) [unfolded validate_cross_field_invariants_def]]
  obtain l op r where "(l, op, r) \<in> set cross_field_invariants" "check_invariant cfg (l, op, r) = Inl e" by auto
  then show ?thesis using check_invariant_Inl [OF assms(1)] cross_numeric by fast
qed

lemma all_valid_assign:
  assumes "config_ok cfg" and "valid_updates ups" shows "all_valid (assign ups cfg)"
  unfolding all_valid_def
proof (intro allI impI)
  fix k v assume "map_of (assign ups cfg) k = Some v"
  then have "map_of ups k = Some v \<or> map_of cfg k = Some v"
    using assms(2) by (auto simp: map_of_assign valid_updates_def map_add_Some_iff)
  then have "(k, v) \<in> set ups \<or> (k, v) \<in> set cfg" using map_of_SomeD by metis
  then show "validate_petition_value k v = Inr ()"
    using assms unfolding valid_updates_def config_ok_def by fast
qed

lemma apply_petition_payload_Inl:
  assumes cfg: "config_ok cfg" and "apply_petition_payload p cfg = Inl e"
  shows "e = InvalidPetition \<or> e = TypeError \<and> unhashable_payload p"
proof -
  from assms(2) consider "check_payload_shape p = Inl e"
    | t where "check_payload_shape p = Inr t" "dispatch_payload t (as_dict p) cfg = Inl e"
    | t r where "dispatch_payload t (as_dict p) cfg = Inr r" "validate_cross_field_invariants (new_config r) = Inl e"
    by (auto simp: apply_petition_payload_def bnd_eq_Inl)
  then show ?thesis
  proof cases
    case 1
    then show ?thesis
      by (auto simp: check_payload_shape_def in_str_set_def unhashable_payload_def bnd_eq_Inl split: pyval.splits if_splits)
  next
    case (2 t)
    then obtain d where d: "p = PDict d" by (auto simp: check_payload_shape_def split: pyval.splits)
    then have "get d ''type'' = PStr t" using 2(1)
      by (auto simp: check_payload_shape_def in_str_set_def in_strs_iff bnd_eq_Inr split: if_splits)
    with d dispatch_Inl [OF 2(2)] show ?thesis by (auto simp: unhashable_payload_def as_dict_def)
  next
    case (3 t r)
    then obtain ups where "valid_updates ups" "r = \<lparr>new_config = assign ups cfg, changed_keys = map fst ups\<rparr>"
      using dispatch_Inr unfolding assigned_def by blast
    with cross_field_Inl [OF all_valid_assign [OF cfg]] 3(2) show ?thesis by simp
  qed
qed

lemma payload_TypeError:
  assumes cfg: "config_ok cfg"
  shows "apply_petition_payload p cfg = Inl TypeError \<longleftrightarrow> hash_error p"
proof
  assume e: "apply_petition_payload p cfg = Inl TypeError"
  then have "unhashable_payload p" using apply_petition_payload_Inl [OF cfg] by fastforce
  then obtain d where d: "p = PDict d" by (auto simp: unhashable_payload_def)
  show "hash_error p"
  proof (cases "hashable (get d ''type'')")
    case True
    with \<open>unhashable_payload p\<close> d have t: "get d ''type'' = PStr ''BATCH_UPDATE_PARAMS''" by (auto simp: unhashable_payload_def)
    then have sh: "check_payload_shape p = Inr ''BATCH_UPDATE_PARAMS''" by (simp add: d check_payload_shape_def in_str_set_def allowed_payload_types_def)
    have "apply_batch_update d cfg = Inl TypeError"
    proof (cases "apply_batch_update d cfg")
      case (Inr r)
      then have "validate_cross_field_invariants (new_config r) = Inl TypeError" using e sh
        by (auto simp: apply_petition_payload_def d as_dict_def dispatch_payload_def bnd_eq_Inl)
      moreover from apply_batch_update_Inr [OF Inr] obtain ups where "valid_updates ups" "new_config r = assign ups cfg"
        unfolding assigned_def by auto
      ultimately show ?thesis using cross_field_Inl [OF all_valid_assign [OF cfg]] by fastforce
    qed (use e sh in \<open>auto simp: apply_petition_payload_def d as_dict_def dispatch_payload_def\<close>)
    then have "\<exists>us. get d ''updates'' = PList us \<and> hash_stop us"
      by (auto simp: apply_batch_update_def batch_TypeError split: pyval.splits if_splits)
    then show ?thesis using d t unfolding hash_error_def by blast
  qed (use d in \<open>auto simp: hash_error_def\<close>)
next
  assume "hash_error p"
  then obtain d where d: "p = PDict d" and "\<not> hashable (get d ''type'') \<or> get d ''type'' = PStr ''BATCH_UPDATE_PARAMS''
      \<and> (\<exists>us. get d ''updates'' = PList us \<and> hash_stop us)" unfolding hash_error_def by blast
  then show "apply_petition_payload p cfg = Inl TypeError"
  proof (elim disjE conjE exE)
    fix us assume t: "get d ''type'' = PStr ''BATCH_UPDATE_PARAMS''" and us: "get d ''updates'' = PList us" "hash_stop us"
    then have "us \<noteq> []" by (auto simp: hash_stop_def)
    then have "apply_batch_update d cfg = Inl TypeError" using us by (simp add: apply_batch_update_def batch_TypeError)
    then show ?thesis using t
      by (simp add: apply_petition_payload_def d check_payload_shape_def in_str_set_def allowed_payload_types_def as_dict_def dispatch_payload_def)
  qed (simp add: apply_petition_payload_def d check_payload_shape_def in_str_set_def)
qed

lemma immutable_not_schema: "\<forall>k \<in> set (map fst immutable_principles). k \<notin> set (map fst config_schema)"
  unfolding immutable_principles_def config_schema_def list.map fst_conv by simp

subsection \<open>An application that succeeds\<close>

lemma has_key_update: "has_key (AList.update k v d) k' \<longleftrightarrow> k' = k \<or> has_key d k'"
  by (simp add: has_key_def)

lemma get_update: "get (AList.update k v d) k' = (if k' = k then v else get d k')"
  by (simp add: get_def)

definition cross_keys :: "string list" where
  "cross_keys = concat (map (\<lambda>(l, op, r). [l, r]) cross_field_invariants)"

text \<open>Writing a key that no cross-field invariant names leaves the invariants as they were.\<close>

lemma cross_field_frame:
  assumes "k \<notin> set cross_keys"
  shows "validate_cross_field_invariants (AList.update k v cfg) = validate_cross_field_invariants cfg"
proof -
  have "check_invariant (AList.update k v cfg) inv = check_invariant cfg inv" if "inv \<in> set cross_field_invariants" for inv
    using assms that by (cases inv) (force simp: check_invariant_def cross_keys_def has_key_update get_update)
  then have "foldres (\<lambda>inv _. check_invariant (AList.update k v cfg) inv) xs ()
      = foldres (\<lambda>inv _. check_invariant cfg inv) xs ()" if "set xs \<subseteq> set cross_field_invariants" for xs
    using that by (induction xs) (auto intro!: bnd_cong)
  then show ?thesis by (simp add: validate_cross_field_invariants_def)
qed

abbreviation update_payload :: "string \<Rightarrow> pyval \<Rightarrow> pyval" where
  "update_payload k v \<equiv> PDict [(''type'', PStr ''UPDATE_PARAM''), (''key'', PStr k), (''value'', v)]"

abbreviation batch_payload :: "pyval list \<Rightarrow> pyval" where
  "batch_payload us \<equiv> PDict [(''type'', PStr ''BATCH_UPDATE_PARAMS''), (''updates'', PList us)]"

abbreviation batch_item :: "string \<Rightarrow> pyval \<Rightarrow> pyval" where
  "batch_item k v \<equiv> PDict [(''key'', PStr k), (''value'', v)]"

abbreviation toggle_payload :: "string \<Rightarrow> bool \<Rightarrow> pyval" where
  "toggle_payload f b \<equiv> PDict [(''type'', PStr (if b then ''ENABLE_FEATURE'' else ''DISABLE_FEATURE'')), (''feature'', PStr f)]"

lemma update_payload_run:
  "apply_petition_payload (update_payload k v) cfg =
     bnd (check_key_writeable (PStr k)) (\<lambda>key. bnd (validate_petition_value key v) (\<lambda>_.
       bnd (validate_cross_field_invariants (AList.update key v cfg)) (\<lambda>_.
         Inr \<lparr>new_config = AList.update key v cfg, changed_keys = [key]\<rparr>)))"
  by (auto simp: apply_petition_payload_def check_payload_shape_def in_str_set_def allowed_payload_types_def
      dispatch_payload_def as_dict_def apply_update_param_def bnd_def split: sum.splits)

lemma update_payload_ok:
  assumes "config_ok cfg" "k \<notin> set cross_keys" "k \<noteq> []" "validate_petition_value k v = Inr ()"
  shows "apply_petition_payload (update_payload k v) cfg = Inr \<lparr>new_config = AList.update k v cfg, changed_keys = [k]\<rparr>"
proof -
  have "k \<in> set (map fst config_schema)" using assms(4) map_of_SomeD by (force simp: validate_map_of)
  with assms(3) have "check_key_writeable (PStr k) = Inr k" by (simp add: check_key_writeable_def)
  moreover have "validate_cross_field_invariants cfg = Inr ()" using assms(1) by (simp add: config_ok_def)
  ultimately show ?thesis using assms by (simp add: update_payload_run cross_field_frame)
qed

lemma validate_vote_decay: "validate_petition_value ''vote_decay_days'' (PInt 30) = Inr ()"
proof -
  have "map_of config_schema ''vote_decay_days'' = Some (entry ''int'' (Some (PInt 7)) (Some (PInt 365)) None)"
    by (rule schema_vote_decay_days)
  then show ?thesis by (simp add: validate_map_of check_entry_def type_matches_def)
qed

lemma vote_decay_run:
  "apply_petition_payload (update_payload ''vote_decay_days'' (PInt 30)) baseline_config =
     Inr \<lparr>new_config = AList.update ''vote_decay_days'' (PInt 30) baseline_config, changed_keys = [''vote_decay_days'']\<rparr>"
  by (rule update_payload_ok [OF baseline_ok]) (simp_all add: cross_keys_def cross_field_invariants_def validate_vote_decay)

subsection \<open>Properties\<close>

text \<open>
  C1: a petition payload that executes keeps the configuration well-formed. Starting from a
  configuration with exactly the schema's keys, every value of its type and within its bounds, and
  all cross-field invariants, the configuration that \<open>apply_petition_payload\<close> returns is again one.
\<close>

theorem payload_keeps_config_ok:
  assumes "config_ok cfg" and "apply_petition_payload p cfg = Inr r"
  shows "config_ok (new_config r)"
  using apply_petition_payload_Inr [OF assms(2)] config_ok_assign [OF assms(1)] by auto

theorem payload_keeps_config_ok_witness:
  "config_ok (AList.update ''vote_decay_days'' (PInt 30) baseline_config)"
  using payload_keeps_config_ok [OF baseline_ok vote_decay_run] by simp

text \<open>
  C2: what a payload that executes changes. The changed keys are distinct, at least one, all of them
  parameters of the schema and none of them an immutable principle; each changed parameter has a
  value the schema accepts, and every other parameter keeps its value.
\<close>

theorem payload_effect:
  assumes "apply_petition_payload p cfg = Inr r"
  shows "changed_keys r \<noteq> [] \<and> distinct (changed_keys r)
    \<and> (\<forall>k \<in> set (changed_keys r). map_of config_schema k \<noteq> None \<and> k \<notin> set (map fst immutable_principles)
         \<and> (\<exists>v. map_of (new_config r) k = Some v \<and> validate_petition_value k v = Inr ()))
    \<and> (\<forall>k. k \<notin> set (changed_keys r) \<longrightarrow> map_of (new_config r) k = map_of cfg k)"
proof -
  obtain ups where ups: "ups \<noteq> []" "valid_updates ups"
    and r: "r = \<lparr>new_config = assign ups cfg, changed_keys = map fst ups\<rparr>"
    using apply_petition_payload_Inr [OF assms] by blast
  have d: "distinct (map fst ups)" using ups(2) by (simp add: valid_updates_def)
  have valid: "map_of config_schema k \<noteq> None \<and> k \<notin> set (map fst immutable_principles)
      \<and> (\<exists>v. map_of (assign ups cfg) k = Some v \<and> validate_petition_value k v = Inr ())"
    if "k \<in> set (map fst ups)" for k
  proof -
    from that obtain v where kv: "(k, v) \<in> set ups" by auto
    then have v: "validate_petition_value k v = Inr ()" using ups(2) unfolding valid_updates_def by fast
    moreover have "map_of (assign ups cfg) k = Some v" using kv d by (simp add: map_of_assign map_add_Some_iff)
    moreover have sch: "map_of config_schema k \<noteq> None" using v by (auto simp: validate_map_of)
    moreover have "k \<notin> set (map fst immutable_principles)"
      using sch immutable_not_schema by (metis list.set_map map_of_eq_None_iff)
    ultimately show ?thesis by blast
  qed
  have "map_of (assign ups cfg) k = map_of cfg k" if "k \<notin> set (map fst ups)" for k
  proof -
    have "k \<notin> dom (map_of ups)" using that by (simp add: dom_map_of_conv_image_fst)
    then show ?thesis by (simp add: map_of_assign [OF d] map_add_dom_app_simps)
  qed
  with ups(1) d valid show ?thesis unfolding r by simp
qed

theorem payload_effect_witness:
  "map_of (AList.update ''vote_decay_days'' (PInt 30) baseline_config) ''bootstrap_market_count'' =
     map_of baseline_config ''bootstrap_market_count''"
  using payload_effect [OF vote_decay_run] by simp

text \<open>
  C3: how a payload fails on a well-formed configuration: always with \<open>InvalidPetition\<close> or \<open>TypeError\<close>,
  and with \<open>TypeError\<close> exactly if a value that Python cannot hash (a list or a dict) is reached: as
  the type of the payload, or as the key of a batch entry all of whose predecessors set distinct
  parameters to values the schema accepts. Of any other failure the error is \<open>InvalidPetition\<close>.
\<close>

theorem payload_errors:
  assumes "config_ok cfg"
  shows "(apply_petition_payload p cfg = Inl TypeError \<longleftrightarrow> hash_error p)
    \<and> (\<forall>e. apply_petition_payload p cfg = Inl e \<longrightarrow> e = TypeError \<or> e = InvalidPetition)"
proof
  show "apply_petition_payload p cfg = Inl TypeError \<longleftrightarrow> hash_error p" using assms by (rule payload_TypeError)
  show "\<forall>e. apply_petition_payload p cfg = Inl e \<longrightarrow> e = TypeError \<or> e = InvalidPetition"
    using apply_petition_payload_Inl [OF assms] by blast
qed

theorem payload_errors_witness:
  "apply_petition_payload (batch_payload [batch_item ''vote_decay_days'' (PInt 30), PDict [(''key'', PList []), (''value'', PInt 1)]]) baseline_config = Inl TypeError
   \<and> apply_petition_payload (batch_payload [batch_item ''no_such_key'' (PInt 30), PDict [(''key'', PList []), (''value'', PInt 1)]]) baseline_config \<noteq> Inl TypeError"
proof -
  let ?u = "[(''key'', PList []), (''value'', PInt 1)]"
  have "list_all2 sets_key [batch_item ''vote_decay_days'' (PInt 30)] [(''vote_decay_days'', PInt 30)]"
    by (simp add: sets_key_def)
  moreover have "valid_updates [(''vote_decay_days'', PInt 30)]" by (simp add: valid_updates_def validate_vote_decay)
  ultimately have "hash_stop [batch_item ''vote_decay_days'' (PInt 30), PDict ?u]" unfolding hash_stop_def
    by (intro exI [of _ "[batch_item ''vote_decay_days'' (PInt 30)]"] exI [of _ ?u] exI [of _ "[]"] exI) auto
  then have 1: "hash_error (batch_payload [batch_item ''vote_decay_days'' (PInt 30), PDict ?u])" by (simp add: hash_error_def)
  have "map_of config_schema ''no_such_key'' = None" unfolding config_schema_def by simp
  then have no: "\<not> sets_key (batch_item ''no_such_key'' (PInt 30)) kv \<or> validate_petition_value (fst kv) (snd kv) \<noteq> Inr ()" for kv
    by (auto simp: sets_key_def validate_map_of)
  have "\<not> hash_stop [batch_item ''no_such_key'' (PInt 30), PDict ?u]"
    using no by (auto simp: hash_stop_def valid_updates_def Cons_eq_append_conv list_all2_Cons1)
  then have 2: "\<not> hash_error (batch_payload [batch_item ''no_such_key'' (PInt 30), PDict ?u])" by (auto simp: hash_error_def)
  show ?thesis using 1 2 payload_errors [OF baseline_ok] by blast
qed

text \<open>
  The four payload types agree where they overlap. Updating one parameter is the batch with that
  single entry, and switching a boolean feature is updating it to that boolean: the same new
  configuration, the same changed keys, the same failures.
\<close>

theorem payload_types_agree:
  "apply_petition_payload (update_payload k v) cfg = apply_petition_payload (batch_payload [batch_item k v]) cfg
   \<and> (map_of config_schema f = Some (entry ''bool'' None None None) \<longrightarrow>
       apply_petition_payload (toggle_payload f b) cfg = apply_petition_payload (update_payload f (PBool b)) cfg)"
proof
  show "apply_petition_payload (update_payload k v) cfg = apply_petition_payload (batch_payload [batch_item k v]) cfg"
    by (auto simp: apply_update_param_def apply_petition_payload_def check_payload_shape_def in_str_set_def
        allowed_payload_types_def dispatch_payload_def as_dict_def apply_batch_update_def batch_step_def bnd_def
        split: sum.splits)
  show "map_of config_schema f = Some (entry ''bool'' None None None) \<longrightarrow>
      apply_petition_payload (toggle_payload f b) cfg = apply_petition_payload (update_payload f (PBool b)) cfg"
  proof
    assume f: "map_of config_schema f = Some (entry ''bool'' None None None)"
    then have "validate_petition_value f (PBool b) = Inr ()" for b by (simp add: validate_bool)
    with f show "apply_petition_payload (toggle_payload f b) cfg = apply_petition_payload (update_payload f (PBool b)) cfg"
      by (cases "f = []") (auto simp: apply_update_param_def apply_petition_payload_def check_payload_shape_def in_str_set_def
          allowed_payload_types_def dispatch_payload_def as_dict_def apply_feature_toggle_def check_key_writeable_def bnd_def
          split: sum.splits if_splits)
  qed
qed

lemma schema_truth_stake_self_stake: "map_of config_schema ''truth_stake_self_stake'' = Some (entry ''bool'' None None None)"
  unfolding config_schema_def by (rule lookup_here | (rule lookup_there, (simp; fail)))+

theorem payload_types_agree_witness:
  "apply_petition_payload (toggle_payload ''truth_stake_self_stake'' True) baseline_config =
     apply_petition_payload (update_payload ''truth_stake_self_stake'' (PBool True)) baseline_config"
  using payload_types_agree [where f = "''truth_stake_self_stake''"] schema_truth_stake_self_stake by fast

end
