(* ===== verification/Schema.thy ===== *)
theory Schema
  imports Dsl_Executor
begin

text \<open>
  \<open>services/infonet/schema.py\<close>: the event types of the economy layer, one structural validator per
  type and the registry that maps a type to its validator. A verdict is the pair
  \<open>(accepted, message)\<close> that the code returns. A payload is any decoded JSON value.
\<close>

subsection \<open>Event types and helpers\<close>

type_synonym verdict = "bool \<times> string"

definition infonet_economy_event_types :: "string list" where
  "infonet_economy_event_types =
    [''uprep'',
     ''downrep'',
     ''prediction_create'',
     ''prediction_place'',
     ''truth_stake_place'',
     ''truth_stake_resolve'',
     ''market_snapshot'',
     ''evidence_submit'',
     ''resolution_stake'',
     ''bootstrap_resolution_vote'',
     ''resolution_finalize'',
     ''dispute_open'',
     ''dispute_stake'',
     ''dispute_resolve'',
     ''gate_enter'',
     ''gate_exit'',
     ''gate_lock'',
     ''gate_suspend_file'',
     ''gate_suspend_vote'',
     ''gate_suspend_execute'',
     ''gate_shutdown_file'',
     ''gate_shutdown_vote'',
     ''gate_shutdown_execute'',
     ''gate_unsuspend'',
     ''gate_shutdown_appeal_file'',
     ''gate_shutdown_appeal_vote'',
     ''gate_shutdown_appeal_resolve'',
     ''petition_file'',
     ''petition_sign'',
     ''petition_vote'',
     ''challenge_file'',
     ''challenge_vote'',
     ''petition_execute'',
     ''upgrade_propose'',
     ''upgrade_sign'',
     ''upgrade_vote'',
     ''upgrade_challenge'',
     ''upgrade_challenge_vote'',
     ''upgrade_signal_ready'',
     ''upgrade_activate'',
     ''node_register'',
     ''identity_rotate'',
     ''citizenship_claim'',
     ''coin_transfer'',
     ''coin_mint'',
     ''bounty_create'',
     ''bounty_claim'',
     ''post_create'',
     ''post_reply'']"

record infonet_event_schema =
  event_type :: string
  required_fields :: "string list"
  optional_fields :: "string list"
  validate :: "pyval \<Rightarrow> verdict res"

definition validate_payload :: "infonet_event_schema \<Rightarrow> pyval \<Rightarrow> verdict res" where
  "validate_payload sch payload = validate sch payload"

definition quoted :: "string \<Rightarrow> string" where
  "quoted s = char_of (39 :: nat) # s @ [char_of (39 :: nat)]"

fun items :: "pyval \<Rightarrow> pyval list" where
  "items (PList xs) = xs" | "items _ = []"

fun fields :: "pyval \<Rightarrow> pydict" where
  "fields (PDict d) = d" | "fields _ = []"

fun text_of :: "pyval \<Rightarrow> string" where
  "text_of (PStr s) = s" | "text_of _ = []"

fun int_of :: "pyval \<Rightarrow> int" where
  "int_of (PInt n) = n" | "int_of _ = 0"

text \<open>\<open>d.get(k, default)\<close>\<close>

definition get_or :: "pydict \<Rightarrow> string \<Rightarrow> pyval \<Rightarrow> pyval" where
  "get_or d k v = (case map_of d k of None \<Rightarrow> v | Some w \<Rightarrow> w)"

fun require :: "pyval \<Rightarrow> string list \<Rightarrow> verdict" where
  "require (PDict d) ks = (case find (\<lambda>k. \<not> has_key d k) ks of
       Some k \<Rightarrow> (False, ''Missing field: '' @ k) | None \<Rightarrow> (True, ''ok''))"
| "require _ ks = (False, ''payload must be an object'')"

definition is_nonempty_str :: "pyval \<Rightarrow> bool" where
  "is_nonempty_str v = (case v of PStr s \<Rightarrow> strip s \<noteq> [] | _ \<Rightarrow> False)"

definition num_cmp :: "(pyfloat \<Rightarrow> bool) \<Rightarrow> pyval \<Rightarrow> bool" where
  "num_cmp P v = (case num_val v of Some x \<Rightarrow> P x | None \<Rightarrow> False)"

definition is_positive_number :: "pyval \<Rightarrow> bool" where
  "is_positive_number v \<longleftrightarrow> is_number v \<and> num_cmp (flt (Fin 0)) v"

definition is_nonnegative_number :: "pyval \<Rightarrow> bool" where
  "is_nonnegative_number v \<longleftrightarrow> is_number v \<and> num_cmp (fle (Fin 0)) v"

definition between :: "rat \<Rightarrow> rat \<Rightarrow> pyval \<Rightarrow> bool" where
  "between lo hi v = num_cmp (\<lambda>x. fle (Fin lo) x \<and> fle x (Fin hi)) v"

text \<open>
  The common shape of a validator: \<open>_require\<close> first, then one early return per failing condition,
  in order. Each check is the condition of the code's \<open>if\<close> with the message it returns.
\<close>

definition required :: "string list \<Rightarrow> pyval \<Rightarrow> (pydict \<Rightarrow> verdict res) \<Rightarrow> verdict res" where
  "required ks v body = (case require v ks of (ok, why) \<Rightarrow> if \<not> ok then Inr (False, why) else body (fields v))"

fun first_failure :: "((pydict \<Rightarrow> bool) \<times> string) list \<Rightarrow> pydict \<Rightarrow> verdict" where
  "first_failure [] p = (True, ''ok'')"
| "first_failure ((bad, why) # cs) p = (if bad p then (False, why) else first_failure cs p)"

definition checked :: "string list \<Rightarrow> ((pydict \<Rightarrow> bool) \<times> string) list \<Rightarrow> pyval \<Rightarrow> verdict res" where
  "checked ks cs v = required ks v (\<lambda>p. Inr (first_failure cs p))"

subsection \<open>The validators\<close>

definition validate_uprep :: "pyval \<Rightarrow> verdict res" where
  "validate_uprep = checked [''target_node_id'', ''target_event_id'']
    [(\<lambda>p. \<not> is_nonempty_str (get p ''target_node_id''), ''target_node_id must be non-empty''),
     (\<lambda>p. \<not> is_nonempty_str (get p ''target_event_id''), ''target_event_id must be non-empty'')]"

definition validate_downrep :: "pyval \<Rightarrow> verdict res" where
  "validate_downrep p = validate_uprep p"

definition validate_prediction_create :: "pyval \<Rightarrow> verdict res" where
  "validate_prediction_create = checked [''market_id'', ''market_type'', ''question'', ''trigger_date'', ''creation_bond'']
    [(\<lambda>p. \<not> is_nonempty_str (get p ''market_id''), ''market_id must be non-empty''),
     (\<lambda>p. \<not> in_strs (get p ''market_type'') [''objective'', ''subjective''], ''market_type must be '' @ quoted ''objective'' @ '' or '' @ quoted ''subjective''),
     (\<lambda>p. \<not> is_nonempty_str (get p ''question''), ''question must be non-empty''),
     (\<lambda>p. \<not> is_positive_number (get p ''trigger_date''), ''trigger_date must be a positive timestamp''),
     (\<lambda>p. \<not> is_nonnegative_number (get p ''creation_bond''), ''creation_bond must be a non-negative number'')]"

definition validate_prediction_place :: "pyval \<Rightarrow> verdict res" where
  "validate_prediction_place = checked [''market_id'', ''side'', ''probability_at_bet'']
    [(\<lambda>p. \<not> is_nonempty_str (get p ''market_id''), ''market_id must be non-empty''),
     (\<lambda>p. \<not> in_strs (get p ''side'') [''yes'', ''no''], ''side must be '' @ quoted ''yes'' @ '' or '' @ quoted ''no''),
     (\<lambda>p. \<not> is_number (get p ''probability_at_bet''), ''probability_at_bet must be numeric''),
     (\<lambda>p. \<not> between 0 100 (get p ''probability_at_bet''), ''probability_at_bet must be in [0, 100]''),
     (\<lambda>p. has_key p ''stake_amount'' \<and> get p ''stake_amount'' \<noteq> PNone \<and> \<not> is_positive_number (get p ''stake_amount''),
        ''stake_amount must be positive when present'')]"

definition validate_truth_stake_place :: "pyval \<Rightarrow> verdict res" where
  "validate_truth_stake_place = checked [''message_id'', ''poster_id'', ''side'', ''amount'', ''duration_days'']
    [(\<lambda>p. \<not> is_nonempty_str (get p ''message_id''), ''message_id must be non-empty''),
     (\<lambda>p. \<not> is_nonempty_str (get p ''poster_id''), ''poster_id must be non-empty''),
     (\<lambda>p. \<not> in_strs (get p ''side'') [''truth'', ''false''], ''side must be '' @ quoted ''truth'' @ '' or '' @ quoted ''false''),
     (\<lambda>p. \<not> is_positive_number (get p ''amount''), ''amount must be positive''),
     (\<lambda>p. \<not> is_int (get p ''duration_days'') \<or> int_of (get p ''duration_days'') \<le> 0, ''duration_days must be a positive integer'')]"

definition validate_truth_stake_resolve :: "pyval \<Rightarrow> verdict res" where
  "validate_truth_stake_resolve = checked [''message_id'', ''outcome'']
    [(\<lambda>p. \<not> in_strs (get p ''outcome'') [''truth'', ''false'', ''tie''], ''outcome must be '' @ quoted ''truth'' @ '', '' @ quoted ''false'' @ '', or '' @ quoted ''tie'')]"

definition validate_market_snapshot :: "pyval \<Rightarrow> verdict res" where
  "validate_market_snapshot = checked [''market_id'', ''frozen_participant_count'', ''frozen_total_stake'',
      ''frozen_predictor_ids'', ''frozen_probability_state'', ''frozen_at'']
    [(\<lambda>p. \<not> is_int (get p ''frozen_participant_count''), ''frozen_participant_count must be int''),
     (\<lambda>p. int_of (get p ''frozen_participant_count'') < 0, ''frozen_participant_count must be >= 0''),
     (\<lambda>p. \<not> is_nonnegative_number (get p ''frozen_total_stake''), ''frozen_total_stake must be a non-negative number''),
     (\<lambda>p. \<not> is_list (get p ''frozen_predictor_ids''), ''frozen_predictor_ids must be a list''),
     (\<lambda>p. \<not> list_all is_nonempty_str (items (get p ''frozen_predictor_ids'')), ''frozen_predictor_ids entries must be non-empty strings''),
     (\<lambda>p. \<not> is_dict (get p ''frozen_probability_state'')
          \<or> \<not> has_key (fields (get p ''frozen_probability_state'')) ''yes''
          \<or> \<not> has_key (fields (get p ''frozen_probability_state'')) ''no'', ''frozen_probability_state must be {yes, no}''),
     (\<lambda>p. \<not> is_positive_number (get p ''frozen_at''), ''frozen_at must be a positive timestamp'')]"

definition validate_evidence_submit :: "pyval \<Rightarrow> verdict res" where
  "validate_evidence_submit = checked [''market_id'', ''claimed_outcome'', ''evidence_hashes'', ''source_description'', ''evidence_content_hash'', ''submission_hash'', ''bond'']
    [(\<lambda>p. \<not> in_strs (get p ''claimed_outcome'') [''yes'', ''no''], ''claimed_outcome must be '' @ quoted ''yes'' @ '' or '' @ quoted ''no''),
     (\<lambda>p. \<not> is_list (get p ''evidence_hashes'') \<or> \<not> truthy (get p ''evidence_hashes''), ''evidence_hashes must be a non-empty list''),
     (\<lambda>p. \<not> list_all is_nonempty_str (items (get p ''evidence_hashes'')), ''evidence_hashes entries must be non-empty strings''),
     (\<lambda>p. \<not> is_str (get p ''source_description''), ''source_description must be a string''),
     (\<lambda>p. \<not> is_nonempty_str (get p ''evidence_content_hash''), ''evidence_content_hash must be non-empty''),
     (\<lambda>p. \<not> is_nonempty_str (get p ''submission_hash''), ''submission_hash must be non-empty''),
     (\<lambda>p. \<not> is_nonnegative_number (get p ''bond''), ''bond must be a non-negative number'')]"

definition validate_resolution_stake :: "pyval \<Rightarrow> verdict res" where
  "validate_resolution_stake = checked [''market_id'', ''side'', ''amount'', ''rep_type'']
    [(\<lambda>p. \<not> in_strs (get p ''side'') [''yes'', ''no'', ''data_unavailable''], ''side must be '' @ quoted ''yes'' @ '' | '' @ quoted ''no'' @ '' | '' @ quoted ''data_unavailable''),
     (\<lambda>p. \<not> is_positive_number (get p ''amount''), ''amount must be positive''),
     (\<lambda>p. \<not> in_strs (get p ''rep_type'') [''oracle'', ''common''], ''rep_type must be '' @ quoted ''oracle'' @ '' or '' @ quoted ''common'')]"

definition validate_bootstrap_resolution_vote :: "pyval \<Rightarrow> verdict res" where
  "validate_bootstrap_resolution_vote = checked [''market_id'', ''side'', ''pow_nonce'']
    [(\<lambda>p. \<not> in_strs (get p ''side'') [''yes'', ''no''], ''side must be '' @ quoted ''yes'' @ '' or '' @ quoted ''no''),
     (\<lambda>p. \<not> is_int (get p ''pow_nonce'') \<or> int_of (get p ''pow_nonce'') < 0, ''pow_nonce must be a non-negative integer'')]"

definition validate_resolution_finalize :: "pyval \<Rightarrow> verdict res" where
  "validate_resolution_finalize = checked [''market_id'', ''outcome'', ''is_provisional'', ''snapshot_event_hash'']
    [(\<lambda>p. \<not> in_strs (get p ''outcome'') [''yes'', ''no'', ''invalid''], ''outcome must be '' @ quoted ''yes'' @ '' | '' @ quoted ''no'' @ '' | '' @ quoted ''invalid''),
     (\<lambda>p. \<not> is_bool (get p ''is_provisional''), ''is_provisional must be a boolean''),
     (\<lambda>p. \<not> is_nonempty_str (get p ''snapshot_event_hash''), ''snapshot_event_hash must be non-empty'')]"

definition validate_dispute_open :: "pyval \<Rightarrow> verdict res" where
  "validate_dispute_open = checked [''market_id'', ''challenger_stake'', ''reason'']
    [(\<lambda>p. \<not> is_positive_number (get p ''challenger_stake''), ''challenger_stake must be positive''),
     (\<lambda>p. \<not> is_nonempty_str (get p ''reason''), ''reason must be non-empty'')]"

definition validate_dispute_stake :: "pyval \<Rightarrow> verdict res" where
  "validate_dispute_stake = checked [''dispute_id'', ''side'', ''amount'', ''rep_type'']
    [(\<lambda>p. \<not> in_strs (get p ''side'') [''confirm'', ''reverse''], ''side must be '' @ quoted ''confirm'' @ '' or '' @ quoted ''reverse''),
     (\<lambda>p. \<not> is_positive_number (get p ''amount''), ''amount must be positive''),
     (\<lambda>p. \<not> in_strs (get p ''rep_type'') [''oracle'', ''common''], ''rep_type must be '' @ quoted ''oracle'' @ '' or '' @ quoted ''common'')]"

definition validate_dispute_resolve :: "pyval \<Rightarrow> verdict res" where
  "validate_dispute_resolve = checked [''dispute_id'', ''outcome'']
    [(\<lambda>p. \<not> in_strs (get p ''outcome'') [''upheld'', ''reversed'', ''tie''], ''outcome must be '' @ quoted ''upheld'' @ '' | '' @ quoted ''reversed'' @ '' | '' @ quoted ''tie'')]"

definition validate_gate_enter :: "pyval \<Rightarrow> verdict res" where
  "validate_gate_enter = checked [''gate_id'', ''sacrifice_amount'']
    [(\<lambda>p. \<not> is_nonempty_str (get p ''gate_id''), ''gate_id must be non-empty''),
     (\<lambda>p. \<not> is_positive_number (get p ''sacrifice_amount''), ''sacrifice_amount must be positive'')]"

definition validate_gate_exit :: "pyval \<Rightarrow> verdict res" where
  "validate_gate_exit = checked [''gate_id'']
    [(\<lambda>p. \<not> is_nonempty_str (get p ''gate_id''), ''gate_id must be non-empty'')]"

definition validate_gate_lock :: "pyval \<Rightarrow> verdict res" where
  "validate_gate_lock = checked [''gate_id'', ''lock_cost'']
    [(\<lambda>p. \<not> is_nonempty_str (get p ''gate_id''), ''gate_id must be non-empty''),
     (\<lambda>p. \<not> is_positive_number (get p ''lock_cost''), ''lock_cost must be positive'')]"

definition validate_gate_action_petition_file :: "pyval \<Rightarrow> verdict res" where
  "validate_gate_action_petition_file = checked [''petition_id'', ''gate_id'', ''reason'', ''evidence_hashes'']
    [(\<lambda>p. \<not> is_nonempty_str (get p ''petition_id''), ''petition_id must be non-empty''),
     (\<lambda>p. \<not> is_nonempty_str (get p ''gate_id''), ''gate_id must be non-empty''),
     (\<lambda>p. \<not> is_str (get p ''reason'') \<or> 2000 < length (text_of (get p ''reason'')), ''reason must be a string up to 2000 chars''),
     (\<lambda>p. \<not> is_list (get p ''evidence_hashes'') \<or> \<not> truthy (get p ''evidence_hashes''), ''evidence_hashes must be non-empty''),
     (\<lambda>p. \<not> list_all is_nonempty_str (items (get p ''evidence_hashes'')), ''evidence_hashes entries must be non-empty strings'')]"

definition validate_gate_action_vote :: "pyval \<Rightarrow> verdict res" where
  "validate_gate_action_vote = checked [''petition_id'', ''vote'']
    [(\<lambda>p. \<not> in_strs (get p ''vote'') [''for'', ''against''], ''vote must be '' @ quoted ''for'' @ '' or '' @ quoted ''against'')]"

definition validate_gate_action_execute :: "pyval \<Rightarrow> verdict res" where
  "validate_gate_action_execute = checked [''petition_id'', ''gate_id'']
    [(\<lambda>p. \<not> is_nonempty_str (get p ''petition_id''), ''petition_id must be non-empty''),
     (\<lambda>p. \<not> is_nonempty_str (get p ''gate_id''), ''gate_id must be non-empty'')]"

definition validate_gate_unsuspend :: "pyval \<Rightarrow> verdict res" where
  "validate_gate_unsuspend = checked [''gate_id'']
    [(\<lambda>p. \<not> is_nonempty_str (get p ''gate_id''), ''gate_id must be non-empty'')]"

definition validate_gate_shutdown_appeal_file :: "pyval \<Rightarrow> verdict res" where
  "validate_gate_shutdown_appeal_file = checked [''petition_id'', ''gate_id'', ''target_petition_id'', ''reason'', ''evidence_hashes'']
    [(\<lambda>p. \<not> is_nonempty_str (get p ''target_petition_id''), ''target_petition_id must be non-empty''),
     (\<lambda>p. \<not> is_str (get p ''reason'') \<or> 2000 < length (text_of (get p ''reason'')), ''reason must be a string up to 2000 chars''),
     (\<lambda>p. \<not> is_list (get p ''evidence_hashes'') \<or> \<not> truthy (get p ''evidence_hashes''), ''evidence_hashes must be non-empty'')]"

definition validate_gate_shutdown_appeal_resolve :: "pyval \<Rightarrow> verdict res" where
  "validate_gate_shutdown_appeal_resolve = checked [''petition_id'', ''outcome'']
    [(\<lambda>p. \<not> in_strs (get p ''outcome'') [''voided_shutdown'', ''resumed''], ''outcome must be '' @ quoted ''voided_shutdown'' @ '' or '' @ quoted ''resumed'')]"

text \<open>The loop over the entries of a batch: the first bad entry decides.\<close>

fun batch_entries_verdict :: "pyval list \<Rightarrow> verdict" where
  "batch_entries_verdict [] = (True, ''ok'')"
| "batch_entries_verdict (u # us) =
     (if \<not> is_dict u \<or> \<not> has_key (fields u) ''key'' \<or> \<not> has_key (fields u) ''value''
      then (False, ''BATCH_UPDATE_PARAMS entries must be {key, value}'')
      else if \<not> is_nonempty_str (get (fields u) ''key'') then (False, ''BATCH_UPDATE_PARAMS entry key must be non-empty'')
      else batch_entries_verdict us)"

definition valid_petition_payload_types :: "string list" where
  "valid_petition_payload_types = [''UPDATE_PARAM'', ''BATCH_UPDATE_PARAMS'', ''ENABLE_FEATURE'', ''DISABLE_FEATURE'']"

definition petition_payload_verdict :: "pydict \<Rightarrow> verdict" where
  "petition_payload_verdict payload =
     (let t = get payload ''type'' in
      if t = PStr ''UPDATE_PARAM'' then
        (if \<not> has_key payload ''key'' \<or> \<not> has_key payload ''value'' then (False, ''UPDATE_PARAM requires key + value'')
         else if \<not> is_nonempty_str (get payload ''key'') then (False, ''UPDATE_PARAM.key must be non-empty'')
         else (True, ''ok''))
      else if t = PStr ''BATCH_UPDATE_PARAMS'' then
        (if \<not> has_key payload ''updates'' \<or> \<not> is_list (get payload ''updates'') \<or> \<not> truthy (get payload ''updates'')
         then (False, ''BATCH_UPDATE_PARAMS.updates must be a non-empty list'')
         else batch_entries_verdict (items (get payload ''updates'')))
      else if in_strs t [''ENABLE_FEATURE'', ''DISABLE_FEATURE''] then
        (if \<not> has_key payload ''feature'' \<or> \<not> is_nonempty_str (get payload ''feature'')
         then (False, py_str t @ ''.feature must be non-empty'')
         else (True, ''ok''))
      else (True, ''ok''))"

definition validate_petition_file :: "pyval \<Rightarrow> verdict res" where
  "validate_petition_file v = required [''petition_id'', ''petition_payload''] v (\<lambda>p.
     if \<not> is_nonempty_str (get p ''petition_id'') then Inr (False, ''petition_id must be non-empty'')
     else if \<not> is_dict (get p ''petition_payload'') \<or> \<not> has_key (fields (get p ''petition_payload'')) ''type''
       then Inr (False, ''petition_payload must be an object with a '' @ quoted ''type'' @ '' field'')
     else bnd (in_str_set (get (fields (get p ''petition_payload'')) ''type'') valid_petition_payload_types) (\<lambda>known.
       if \<not> known then Inr (False, ''petition_payload type must be one of '' @
           py_repr (PList (map PStr [''BATCH_UPDATE_PARAMS'', ''DISABLE_FEATURE'', ''ENABLE_FEATURE'', ''UPDATE_PARAM''])))
       else Inr (petition_payload_verdict (fields (get p ''petition_payload'')))))"

definition validate_petition_sign :: "pyval \<Rightarrow> verdict res" where
  "validate_petition_sign = checked [''petition_id'']
    [(\<lambda>p. \<not> is_nonempty_str (get p ''petition_id''), ''petition_id must be non-empty'')]"

definition validate_petition_vote :: "pyval \<Rightarrow> verdict res" where
  "validate_petition_vote = checked [''petition_id'', ''vote'']
    [(\<lambda>p. \<not> in_strs (get p ''vote'') [''for'', ''against''], ''vote must be '' @ quoted ''for'' @ '' or '' @ quoted ''against'')]"

definition validate_challenge_file :: "pyval \<Rightarrow> verdict res" where
  "validate_challenge_file = checked [''petition_id'', ''reason'']
    [(\<lambda>p. \<not> is_nonempty_str (get p ''petition_id''), ''petition_id must be non-empty''),
     (\<lambda>p. \<not> is_nonempty_str (get p ''reason''), ''reason must be non-empty'')]"

definition validate_challenge_vote :: "pyval \<Rightarrow> verdict res" where
  "validate_challenge_vote = checked [''petition_id'', ''vote'']
    [(\<lambda>p. \<not> in_strs (get p ''vote'') [''uphold'', ''void''], ''vote must be '' @ quoted ''uphold'' @ '' or '' @ quoted ''void'')]"

definition validate_petition_execute :: "pyval \<Rightarrow> verdict res" where
  "validate_petition_execute = checked [''petition_id'']
    [(\<lambda>p. \<not> is_nonempty_str (get p ''petition_id''), ''petition_id must be non-empty'')]"

definition validate_upgrade_propose :: "pyval \<Rightarrow> verdict res" where
  "validate_upgrade_propose = checked [''proposal_id'', ''release_hash'', ''release_description'', ''target_protocol_version'']
    [(\<lambda>p. \<not> is_nonempty_str (get p ''proposal_id''), ''proposal_id must be non-empty''),
     (\<lambda>p. \<not> is_nonempty_str (get p ''release_hash''), ''release_hash must be non-empty''),
     (\<lambda>p. \<not> is_str (get p ''release_description'') \<or> 4000 < length (text_of (get p ''release_description'')), ''release_description must be a string up to 4000 chars''),
     (\<lambda>p. \<not> is_nonempty_str (get p ''target_protocol_version''), ''target_protocol_version must be non-empty'')]"

definition validate_upgrade_sign :: "pyval \<Rightarrow> verdict res" where
  "validate_upgrade_sign = checked [''proposal_id'']
    [(\<lambda>p. \<not> is_nonempty_str (get p ''proposal_id''), ''proposal_id must be non-empty'')]"

definition validate_upgrade_vote :: "pyval \<Rightarrow> verdict res" where
  "validate_upgrade_vote = checked [''proposal_id'', ''vote'']
    [(\<lambda>p. \<not> in_strs (get p ''vote'') [''for'', ''against''], ''vote must be '' @ quoted ''for'' @ '' or '' @ quoted ''against'')]"

text \<open>The only validator that reads its argument before \<open>_require\<close> has checked that it is a dict.\<close>

definition validate_upgrade_challenge :: "pyval \<Rightarrow> verdict res" where
  "validate_upgrade_challenge v = (case v of
       PDict p \<Rightarrow> validate_challenge_file (PDict [(''petition_id'', get_or p ''proposal_id'' (PStr [])), (''reason'', get_or p ''reason'' (PStr []))])
     | _ \<Rightarrow> Inl AttributeError)"

definition validate_upgrade_challenge_vote :: "pyval \<Rightarrow> verdict res" where
  "validate_upgrade_challenge_vote = checked [''proposal_id'', ''vote'']
    [(\<lambda>p. \<not> in_strs (get p ''vote'') [''uphold'', ''void''], ''vote must be '' @ quoted ''uphold'' @ '' or '' @ quoted ''void'')]"

definition validate_upgrade_signal_ready :: "pyval \<Rightarrow> verdict res" where
  "validate_upgrade_signal_ready = checked [''proposal_id'', ''release_hash'']
    [(\<lambda>p. \<not> is_nonempty_str (get p ''proposal_id''), ''proposal_id must be non-empty''),
     (\<lambda>p. \<not> is_nonempty_str (get p ''release_hash''), ''release_hash must be non-empty'')]"

definition validate_upgrade_activate :: "pyval \<Rightarrow> verdict res" where
  "validate_upgrade_activate = checked [''proposal_id'', ''new_protocol_version'']
    [(\<lambda>p. \<not> is_nonempty_str (get p ''proposal_id''), ''proposal_id must be non-empty''),
     (\<lambda>p. \<not> is_nonempty_str (get p ''new_protocol_version''), ''new_protocol_version must be non-empty'')]"

definition validate_node_register :: "pyval \<Rightarrow> verdict res" where
  "validate_node_register = checked [''public_key'', ''public_key_algo'', ''node_class'']
    [(\<lambda>p. \<not> is_nonempty_str (get p ''public_key''), ''public_key must be non-empty''),
     (\<lambda>p. \<not> in_strs (get p ''public_key_algo'') [''ed25519'', ''ecdsa''], ''public_key_algo must be '' @ quoted ''ed25519'' @ '' or '' @ quoted ''ecdsa''),
     (\<lambda>p. \<not> in_strs (get p ''node_class'') [''heavy'', ''light''], ''node_class must be '' @ quoted ''heavy'' @ '' or '' @ quoted ''light'')]"

definition validate_identity_rotate :: "pyval \<Rightarrow> verdict res" where
  "validate_identity_rotate = checked [''old_node_id'', ''old_public_key'', ''old_public_key_algo'', ''new_public_key'', ''new_public_key_algo'', ''old_signature'']
    []"

definition validate_citizenship_claim :: "pyval \<Rightarrow> verdict res" where
  "validate_citizenship_claim = checked [''sacrifice_amount'']
    [(\<lambda>p. \<not> is_positive_number (get p ''sacrifice_amount''), ''sacrifice_amount must be positive'')]"

definition validate_coin_transfer :: "pyval \<Rightarrow> verdict res" where
  "validate_coin_transfer = checked [''to_node_id'', ''amount'']
    [(\<lambda>p. \<not> is_nonempty_str (get p ''to_node_id''), ''to_node_id must be non-empty''),
     (\<lambda>p. \<not> is_positive_number (get p ''amount''), ''amount must be positive'')]"

definition validate_coin_mint :: "pyval \<Rightarrow> verdict res" where
  "validate_coin_mint = checked [''month'', ''total_minted'', ''ubi_pool'', ''dividend_pool'']
    ((\<lambda>p. \<not> is_nonempty_str (get p ''month''), ''month must be non-empty (e.g. '' @ quoted ''2026-04'' @ '')'')
     # map (\<lambda>k. (\<lambda>p. \<not> is_nonnegative_number (get p k), k @ '' must be non-negative'')) [''total_minted'', ''ubi_pool'', ''dividend_pool''])"

definition validate_bounty_create :: "pyval \<Rightarrow> verdict res" where
  "validate_bounty_create = checked [''bounty_id'', ''amount'', ''description'']
    [(\<lambda>p. \<not> is_nonempty_str (get p ''bounty_id''), ''bounty_id must be non-empty''),
     (\<lambda>p. \<not> is_positive_number (get p ''amount''), ''amount must be positive''),
     (\<lambda>p. \<not> is_nonempty_str (get p ''description''), ''description must be non-empty'')]"

definition validate_bounty_claim :: "pyval \<Rightarrow> verdict res" where
  "validate_bounty_claim = checked [''bounty_id'']
    [(\<lambda>p. \<not> is_nonempty_str (get p ''bounty_id''), ''bounty_id must be non-empty'')]"

definition validate_post_create :: "pyval \<Rightarrow> verdict res" where
  "validate_post_create = checked [''post_id'', ''body'']
    [(\<lambda>p. \<not> is_nonempty_str (get p ''post_id''), ''post_id must be non-empty''),
     (\<lambda>p. \<not> is_str (get p ''body''), ''body must be a string'')]"

definition validate_post_reply :: "pyval \<Rightarrow> verdict res" where
  "validate_post_reply = checked [''post_id'', ''parent_post_id'', ''body'']
    [(\<lambda>p. \<not> is_nonempty_str (get p ''post_id''), ''post_id must be non-empty''),
     (\<lambda>p. \<not> is_nonempty_str (get p ''parent_post_id''), ''parent_post_id must be non-empty''),
     (\<lambda>p. \<not> is_str (get p ''body''), ''body must be a string'')]"

subsection \<open>The registry\<close>

definition reg :: "string \<Rightarrow> string list \<Rightarrow> string list \<Rightarrow> (pyval \<Rightarrow> verdict res) \<Rightarrow> string \<times> infonet_event_schema" where
  "reg et req opt fn = (et, \<lparr>event_type = et, required_fields = req, optional_fields = opt, validate = fn\<rparr>)"

definition schema_registry :: "(string \<times> infonet_event_schema) list" where
  "schema_registry =
    [reg ''uprep'' [''target_node_id'', ''target_event_id''] [] validate_uprep,
     reg ''downrep'' [''target_node_id'', ''target_event_id''] [] validate_downrep,
     reg ''prediction_create'' [''market_id'', ''market_type'', ''question'', ''trigger_date'', ''creation_bond''] [] validate_prediction_create,
     reg ''prediction_place'' [''market_id'', ''side'', ''probability_at_bet''] [''stake_amount''] validate_prediction_place,
     reg ''truth_stake_place'' [''message_id'', ''poster_id'', ''side'', ''amount'', ''duration_days''] [] validate_truth_stake_place,
     reg ''truth_stake_resolve'' [''message_id'', ''outcome''] [] validate_truth_stake_resolve,
     reg ''market_snapshot'' [''market_id'', ''frozen_participant_count'', ''frozen_total_stake'', ''frozen_predictor_ids'', ''frozen_probability_state'', ''frozen_at''] [''snapshot_event_hash''] validate_market_snapshot,
     reg ''evidence_submit'' [''market_id'', ''claimed_outcome'', ''evidence_hashes'', ''source_description'', ''evidence_content_hash'', ''submission_hash'', ''bond''] [] validate_evidence_submit,
     reg ''resolution_stake'' [''market_id'', ''side'', ''amount'', ''rep_type''] [] validate_resolution_stake,
     reg ''bootstrap_resolution_vote'' [''market_id'', ''side'', ''pow_nonce''] [] validate_bootstrap_resolution_vote,
     reg ''resolution_finalize'' [''market_id'', ''outcome'', ''is_provisional'', ''snapshot_event_hash''] [] validate_resolution_finalize,
     reg ''dispute_open'' [''market_id'', ''challenger_stake'', ''reason''] [] validate_dispute_open,
     reg ''dispute_stake'' [''dispute_id'', ''side'', ''amount'', ''rep_type''] [] validate_dispute_stake,
     reg ''dispute_resolve'' [''dispute_id'', ''outcome''] [] validate_dispute_resolve,
     reg ''gate_enter'' [''gate_id'', ''sacrifice_amount''] [] validate_gate_enter,
     reg ''gate_exit'' [''gate_id''] [] validate_gate_exit,
     reg ''gate_lock'' [''gate_id'', ''lock_cost''] [] validate_gate_lock,
     reg ''gate_suspend_file'' [''petition_id'', ''gate_id'', ''reason'', ''evidence_hashes''] [] validate_gate_action_petition_file,
     reg ''gate_suspend_vote'' [''petition_id'', ''vote''] [] validate_gate_action_vote,
     reg ''gate_suspend_execute'' [''petition_id'', ''gate_id''] [] validate_gate_action_execute,
     reg ''gate_shutdown_file'' [''petition_id'', ''gate_id'', ''reason'', ''evidence_hashes''] [] validate_gate_action_petition_file,
     reg ''gate_shutdown_vote'' [''petition_id'', ''vote''] [] validate_gate_action_vote,
     reg ''gate_shutdown_execute'' [''petition_id'', ''gate_id''] [] validate_gate_action_execute,
     reg ''gate_unsuspend'' [''gate_id''] [] validate_gate_unsuspend,
     reg ''gate_shutdown_appeal_file'' [''petition_id'', ''gate_id'', ''target_petition_id'', ''reason'', ''evidence_hashes''] [] validate_gate_shutdown_appeal_file,
     reg ''gate_shutdown_appeal_vote'' [''petition_id'', ''vote''] [] validate_gate_action_vote,
     reg ''gate_shutdown_appeal_resolve'' [''petition_id'', ''outcome''] [] validate_gate_shutdown_appeal_resolve,
     reg ''petition_file'' [''petition_id'', ''petition_payload''] [] validate_petition_file,
     reg ''petition_sign'' [''petition_id''] [] validate_petition_sign,
     reg ''petition_vote'' [''petition_id'', ''vote''] [] validate_petition_vote,
     reg ''challenge_file'' [''petition_id'', ''reason''] [] validate_challenge_file,
     reg ''challenge_vote'' [''petition_id'', ''vote''] [] validate_challenge_vote,
     reg ''petition_execute'' [''petition_id''] [] validate_petition_execute,
     reg ''upgrade_propose'' [''proposal_id'', ''release_hash'', ''release_description'', ''target_protocol_version''] [''release_url'', ''compatibility_notes''] validate_upgrade_propose,
     reg ''upgrade_sign'' [''proposal_id''] [] validate_upgrade_sign,
     reg ''upgrade_vote'' [''proposal_id'', ''vote''] [] validate_upgrade_vote,
     reg ''upgrade_challenge'' [''proposal_id'', ''reason''] [] validate_upgrade_challenge,
     reg ''upgrade_challenge_vote'' [''proposal_id'', ''vote''] [] validate_upgrade_challenge_vote,
     reg ''upgrade_signal_ready'' [''proposal_id'', ''release_hash''] [] validate_upgrade_signal_ready,
     reg ''upgrade_activate'' [''proposal_id'', ''new_protocol_version''] [] validate_upgrade_activate,
     reg ''node_register'' [''public_key'', ''public_key_algo'', ''node_class''] [] validate_node_register,
     reg ''identity_rotate'' [''old_node_id'', ''old_public_key'', ''old_public_key_algo'', ''new_public_key'', ''new_public_key_algo'', ''old_signature''] [] validate_identity_rotate,
     reg ''citizenship_claim'' [''sacrifice_amount''] [] validate_citizenship_claim,
     reg ''coin_transfer'' [''to_node_id'', ''amount''] [] validate_coin_transfer,
     reg ''coin_mint'' [''month'', ''total_minted'', ''ubi_pool'', ''dividend_pool''] [] validate_coin_mint,
     reg ''bounty_create'' [''bounty_id'', ''amount'', ''description''] [] validate_bounty_create,
     reg ''bounty_claim'' [''bounty_id''] [] validate_bounty_claim,
     reg ''post_create'' [''post_id'', ''body''] [] validate_post_create,
     reg ''post_reply'' [''post_id'', ''parent_post_id'', ''body''] [] validate_post_reply]"

definition get_infonet_schema :: "string \<Rightarrow> infonet_event_schema option" where
  "get_infonet_schema et = map_of schema_registry et"

definition validate_infonet_event_payload :: "string \<Rightarrow> pyval \<Rightarrow> verdict res" where
  "validate_infonet_event_payload et payload =
     (if et \<notin> set infonet_economy_event_types then Inr (False, ''Unknown event_type for infonet economy: '' @ et)
      else case map_of schema_registry et of
        None \<Rightarrow> Inr (False, ''No validator registered for: '' @ et)
      | Some sch \<Rightarrow> validate_payload sch payload)"

definition assert_registry_complete :: "unit res" where
  "assert_registry_complete =
     (if set infonet_economy_event_types - set (map fst schema_registry) \<noteq> {} then Inl AssertionError else Inr ())"

subsection \<open>What every validator does\<close>

text \<open>
  The contract the registry states for an entry: its function accepts only dicts that have all the
  required fields, always with the message \<open>ok\<close>; a dict that lacks one is refused with the
  first missing field; anything that is not a dict is refused.
\<close>

definition accepts_only :: "infonet_event_schema \<Rightarrow> bool" where
  "accepts_only sch \<longleftrightarrow> (\<forall>v w. validate sch v = Inr (True, w) \<longrightarrow>
     w = ''ok'' \<and> (\<exists>d. v = PDict d \<and> (\<forall>k \<in> set (required_fields sch). has_key d k)))"

definition names_missing :: "infonet_event_schema \<Rightarrow> bool" where
  "names_missing sch \<longleftrightarrow> (\<forall>d k. find (\<lambda>k. \<not> has_key d k) (required_fields sch) = Some k
     \<longrightarrow> validate sch (PDict d) = Inr (False, ''Missing field: '' @ k))"

definition refuses_non_dicts :: "infonet_event_schema \<Rightarrow> bool" where
  "refuses_non_dicts sch \<longleftrightarrow> (\<forall>v. \<not> is_dict v \<longrightarrow> validate sch v = Inr (False, ''payload must be an object''))"

definition never_raises :: "infonet_event_schema \<Rightarrow> bool" where
  "never_raises sch \<longleftrightarrow> (\<forall>v. \<exists>ok why. validate sch v = Inr (ok, why))"

lemmas contract_defs = accepts_only_def names_missing_def refuses_non_dicts_def

lemma find_None_all: "find (\<lambda>k. \<not> has_key d k) ks = None \<longleftrightarrow> (\<forall>k \<in> set ks. has_key d k)"
  by (auto simp: find_None_iff)

lemma require_simps [simp]:
  "require (PDict d) ks = (True, why) \<longleftrightarrow> why = ''ok'' \<and> (\<forall>k \<in> set ks. has_key d k)"
  "\<not> is_dict v \<Longrightarrow> require v ks = (False, ''payload must be an object'')"
proof -
  have "require (PDict d) ks = (True, why) \<longleftrightarrow> why = ''ok'' \<and> find (\<lambda>k. \<not> has_key d k) ks = None"
    by (auto split: option.splits)
  then show "require (PDict d) ks = (True, why) \<longleftrightarrow> why = ''ok'' \<and> (\<forall>k \<in> set ks. has_key d k)"
    by (simp only: find_None_all)
qed (cases v; simp)

lemma required_missing: "find (\<lambda>k. \<not> has_key d k) ks = Some k \<Longrightarrow> required ks (PDict d) body = Inr (False, ''Missing field: '' @ k)"
  by (simp add: required_def)

lemma required_non_dict: "\<not> is_dict v \<Longrightarrow> required ks v body = Inr (False, ''payload must be an object'')"
  by (simp add: required_def)

lemma required_present: "\<forall>k \<in> set ks. has_key d k \<Longrightarrow> required ks (PDict d) body = body d"
proof -
  assume "\<forall>k \<in> set ks. has_key d k"
  then have "require (PDict d) ks = (True, ''ok'')" by (simp only: require_simps)
  then show ?thesis by (simp add: required_def)
qed

lemma required_accepts:
  assumes "required ks v body = Inr (True, w)"
  shows "\<exists>d. v = PDict d \<and> (\<forall>k \<in> set ks. has_key d k) \<and> body d = Inr (True, w)"
proof (cases "is_dict v")
  case True
  then obtain d where v: "v = PDict d" by (cases v) auto
  show ?thesis
  proof (cases "find (\<lambda>k. \<not> has_key d k) ks")
    case None
    then have "\<forall>k \<in> set ks. has_key d k" by (simp only: find_None_all)
    with assms show ?thesis by (simp add: v required_present)
  next
    case (Some k)
    then show ?thesis using assms by (simp add: v required_missing)
  qed
qed (use assms required_non_dict in simp)

lemma first_failure_accepts: "first_failure cs p = (True, w) \<longleftrightarrow> w = ''ok'' \<and> (\<forall>(bad, why) \<in> set cs. \<not> bad p)"
  by (induction cs p rule: first_failure.induct) auto

lemma checked_accepts:
  "checked ks cs v = Inr (True, w) \<longleftrightarrow>
     w = ''ok'' \<and> (\<exists>d. v = PDict d \<and> (\<forall>k \<in> set ks. has_key d k) \<and> (\<forall>(bad, why) \<in> set cs. \<not> bad d))"
proof
  assume "checked ks cs v = Inr (True, w)"
  then show "w = ''ok'' \<and> (\<exists>d. v = PDict d \<and> (\<forall>k \<in> set ks. has_key d k) \<and> (\<forall>(bad, why) \<in> set cs. \<not> bad d))"
    unfolding checked_def using required_accepts [of ks v _ w] first_failure_accepts [of cs] by fastforce
next
  assume "w = ''ok'' \<and> (\<exists>d. v = PDict d \<and> (\<forall>k \<in> set ks. has_key d k) \<and> (\<forall>(bad, why) \<in> set cs. \<not> bad d))"
  then show "checked ks cs v = Inr (True, w)"
    unfolding checked_def using required_present first_failure_accepts [of cs] by fastforce
qed

lemma required_contract:
  assumes "\<And>v. fn v = required req v body" and "\<And>d w. body d = Inr (True, w) \<Longrightarrow> w = ''ok''"
  shows "accepts_only (snd (reg et req opt fn)) \<and> names_missing (snd (reg et req opt fn)) \<and> refuses_non_dicts (snd (reg et req opt fn))"
  using assms required_accepts [of req _ body] by (fastforce simp: contract_defs reg_def required_missing required_non_dict)

lemma checked_contract:
  assumes "fn = checked req cs"
  shows "accepts_only (snd (reg et req opt fn)) \<and> names_missing (snd (reg et req opt fn)) \<and> refuses_non_dicts (snd (reg et req opt fn))
    \<and> never_raises (snd (reg et req opt fn))"
proof (intro conjI)
  show "accepts_only (snd (reg et req opt fn))" "names_missing (snd (reg et req opt fn))" "refuses_non_dicts (snd (reg et req opt fn))"
    using required_contract [of fn req "\<lambda>p. Inr (first_failure cs p)" et opt] assms by (simp_all add: checked_def first_failure_accepts)
  show "never_raises (snd (reg et req opt fn))"
    by (simp add: never_raises_def reg_def assms checked_def required_def split: prod.splits)
qed

lemmas checked_validators =
  validate_uprep_def
  validate_prediction_create_def
  validate_prediction_place_def
  validate_truth_stake_place_def
  validate_truth_stake_resolve_def
  validate_market_snapshot_def
  validate_evidence_submit_def
  validate_resolution_stake_def
  validate_bootstrap_resolution_vote_def
  validate_resolution_finalize_def
  validate_dispute_open_def
  validate_dispute_stake_def
  validate_dispute_resolve_def
  validate_gate_enter_def
  validate_gate_exit_def
  validate_gate_lock_def
  validate_gate_action_petition_file_def
  validate_gate_action_vote_def
  validate_gate_action_execute_def
  validate_gate_unsuspend_def
  validate_gate_shutdown_appeal_file_def
  validate_gate_shutdown_appeal_resolve_def
  validate_petition_sign_def
  validate_petition_vote_def
  validate_challenge_file_def
  validate_challenge_vote_def
  validate_petition_execute_def
  validate_upgrade_propose_def
  validate_upgrade_sign_def
  validate_upgrade_vote_def
  validate_upgrade_challenge_vote_def
  validate_upgrade_signal_ready_def
  validate_upgrade_activate_def
  validate_node_register_def
  validate_identity_rotate_def
  validate_citizenship_claim_def
  validate_coin_transfer_def
  validate_coin_mint_def
  validate_bounty_create_def
  validate_bounty_claim_def
  validate_post_create_def
  validate_post_reply_def

lemma validate_downrep_eq: "validate_downrep = validate_uprep"
  by (simp add: fun_eq_iff validate_downrep_def)

lemma petition_payload_verdict_ok: "petition_payload_verdict d = (True, w) \<Longrightarrow> w = ''ok''"
proof -
  have "batch_entries_verdict us = (True, w) \<Longrightarrow> w = ''ok''" for us
    by (induction us) (auto split: if_splits)
  then show "petition_payload_verdict d = (True, w) \<Longrightarrow> w = ''ok''"
    by (auto simp: petition_payload_verdict_def Let_def split: if_splits)
qed

lemma petition_file_contract:
  "accepts_only (snd (reg et [''petition_id'', ''petition_payload''] opt validate_petition_file))
   \<and> names_missing (snd (reg et [''petition_id'', ''petition_payload''] opt validate_petition_file))
   \<and> refuses_non_dicts (snd (reg et [''petition_id'', ''petition_payload''] opt validate_petition_file))"
  by (rule required_contract [OF validate_petition_file_def])
     (auto simp: bnd_eq_Inr dest: petition_payload_verdict_ok split: if_splits)

lemma get_or_present: "get_or d k (PStr []) = v \<Longrightarrow> is_nonempty_str v \<Longrightarrow> has_key d k"
  by (auto simp: get_or_def has_key_def is_nonempty_str_def strip_def split: option.splits)

lemma upgrade_challenge_accepts_only: "accepts_only (snd (reg et [''proposal_id'', ''reason''] opt validate_upgrade_challenge))"
  unfolding accepts_only_def
proof (intro allI impI)
  fix v w assume "validate (snd (reg et [''proposal_id'', ''reason''] opt validate_upgrade_challenge)) v = Inr (True, w)"
  then have *: "validate_upgrade_challenge v = Inr (True, w)" by (simp add: reg_def)
  then obtain d where v: "v = PDict d" by (auto simp: validate_upgrade_challenge_def split: pyval.splits)
  from * have "w = ''ok''" "is_nonempty_str (get_or d ''proposal_id'' (PStr []))" "is_nonempty_str (get_or d ''reason'' (PStr []))"
    by (auto simp: v validate_upgrade_challenge_def validate_challenge_file_def checked_accepts)
  with v get_or_present show "w = ''ok'' \<and> (\<exists>d. v = PDict d \<and>
      (\<forall>k \<in> set (required_fields (snd (reg et [''proposal_id'', ''reason''] opt validate_upgrade_challenge))). has_key d k))"
    by (auto simp: reg_def)
qed

text \<open>The keys of the registry are the event types, in the order the code lists them.\<close>

lemma registry_keys: "map fst schema_registry = infonet_economy_event_types"
  by (simp add: schema_registry_def reg_def infonet_economy_event_types_def)

lemma registry_types: "(et, sch) \<in> set schema_registry \<Longrightarrow> event_type sch = et"
  by (auto simp: schema_registry_def reg_def)

definition ordinary :: "string \<times> infonet_event_schema \<Rightarrow> bool" where
  "ordinary e \<longleftrightarrow> accepts_only (snd e)
     \<and> (fst e \<noteq> ''upgrade_challenge'' \<longrightarrow> names_missing (snd e) \<and> refuses_non_dicts (snd e))
     \<and> (fst e \<notin> {''petition_file'', ''upgrade_challenge''} \<longrightarrow> never_raises (snd e))"

lemma fst_reg [simp]: "fst (reg et req opt fn) = et"
  by (simp add: reg_def)

lemma ordinary_checked: "fn = checked req cs \<Longrightarrow> ordinary (reg et req opt fn)"
  using checked_contract by (simp add: ordinary_def)

lemma ordinary_petition_file: "ordinary (reg ''petition_file'' [''petition_id'', ''petition_payload''] opt validate_petition_file)"
  using petition_file_contract by (simp add: ordinary_def)

lemma ordinary_upgrade_challenge: "ordinary (reg ''upgrade_challenge'' [''proposal_id'', ''reason''] opt validate_upgrade_challenge)"
  using upgrade_challenge_accepts_only by (simp add: ordinary_def)

lemma registry_ordinary: "list_all ordinary schema_registry"
  unfolding schema_registry_def list.pred_inject(2) validate_downrep_eq
  by (intro conjI list.pred_inject(1) ordinary_petition_file ordinary_upgrade_challenge)
     (rule ordinary_checked, rule checked_validators)+

lemma registry_lookup:
  assumes "et \<in> set infonet_economy_event_types"
  shows "\<exists>sch. map_of schema_registry et = Some sch \<and> event_type sch = et \<and> ordinary (et, sch)
    \<and> (\<forall>v. validate_infonet_event_payload et v = validate sch v)"
proof -
  have "et \<in> fst ` set schema_registry" using assms registry_keys by (metis list.set_map)
  then obtain sch where sch: "map_of schema_registry et = Some sch" by (metis map_of_eq_None_iff option.exhaust)
  then have "(et, sch) \<in> set schema_registry" by (rule map_of_SomeD)
  then have "event_type sch = et" "ordinary (et, sch)"
    using registry_types registry_ordinary by (auto simp: list_all_iff)
  with sch assms show ?thesis by (simp add: validate_infonet_event_payload_def validate_payload_def)
qed

lemma registry_unknown: "et \<notin> set infonet_economy_event_types \<Longrightarrow> get_infonet_schema et = None"
  unfolding get_infonet_schema_def map_of_eq_None_iff using registry_keys by (metis list.set_map)

lemma registry_petition_file: "validate_infonet_event_payload ''petition_file'' v = validate_petition_file v"
proof -
  have "map_of schema_registry ''petition_file'' = Some (snd (reg ''petition_file'' [''petition_id'', ''petition_payload''] [] validate_petition_file))"
    by (simp add: schema_registry_def reg_def)
  moreover have "''petition_file'' \<in> set infonet_economy_event_types" by (simp add: infonet_economy_event_types_def)
  ultimately show ?thesis by (simp add: validate_infonet_event_payload_def validate_payload_def reg_def)
qed

lemma registry_upgrade_challenge: "validate_infonet_event_payload ''upgrade_challenge'' v = validate_upgrade_challenge v"
proof -
  have "map_of schema_registry ''upgrade_challenge'' = Some (snd (reg ''upgrade_challenge'' [''proposal_id'', ''reason''] [] validate_upgrade_challenge))"
    by (simp add: schema_registry_def reg_def)
  moreover have "''upgrade_challenge'' \<in> set infonet_economy_event_types" by (simp add: infonet_economy_event_types_def)
  ultimately show ?thesis by (simp add: validate_infonet_event_payload_def validate_payload_def reg_def)
qed

lemma required_Inl:
  assumes "required ks v body = Inl e" shows "\<exists>d. v = PDict d \<and> body d = Inl e"
  using assms by (cases v) (auto simp: required_def split: prod.splits if_splits)

lemma petition_file_Inl:
  assumes "validate_petition_file v = Inl e"
  shows "e = TypeError \<and> \<not> hashable (get (fields (get (fields v) ''petition_payload'')) ''type'')"
  using required_Inl [OF assms [unfolded validate_petition_file_def]]
  by (auto simp: in_str_set_def bnd_eq_Inl split: if_splits)

lemma upgrade_challenge_Inl:
  assumes "validate_upgrade_challenge v = Inl e" shows "e = AttributeError \<and> \<not> is_dict v"
  using assms
  by (auto simp: validate_upgrade_challenge_def validate_challenge_file_def checked_def required_def split: pyval.splits prod.splits if_splits)

text \<open>What an accepted petition says about its payload.\<close>

lemma petition_file_accepted:
  assumes "validate_petition_file v = Inr (True, w)"
  shows "\<exists>d p. v = PDict d \<and> get d ''petition_payload'' = PDict p \<and> in_strs (get p ''type'') valid_petition_payload_types
    \<and> petition_payload_verdict p = (True, ''ok'')"
proof -
  from required_accepts [OF assms [unfolded validate_petition_file_def]] obtain d where v: "v = PDict d"
    and acc: "is_dict (get d ''petition_payload'')" "hashable (get (fields (get d ''petition_payload'')) ''type'')"
      "in_strs (get (fields (get d ''petition_payload'')) ''type'') valid_petition_payload_types"
      "petition_payload_verdict (fields (get d ''petition_payload'')) = (True, w)"
    by (auto simp: in_str_set_def bnd_eq_Inr split: if_splits)
  from acc(1) obtain p where "get d ''petition_payload'' = PDict p" by (cases "get d ''petition_payload''") auto
  with v acc petition_payload_verdict_ok show ?thesis by auto
qed

lemma batch_entries_accepted:
  "batch_entries_verdict us = (True, w) \<Longrightarrow> u \<in> set us \<Longrightarrow> \<exists>d. u = PDict d \<and> is_str (get d ''key'')"
proof (induction us)
  case (Cons x us)
  then show ?case by (cases x; cases "get (fields x) ''key''") (auto simp: is_nonempty_str_def split: if_splits)
qed simp

lemma petition_file_hashable:
  assumes "validate_petition_file (PDict d) = Inr (True, w)"
  shows "\<not> unhashable_payload (get d ''petition_payload'')"
proof
  assume bad: "unhashable_payload (get d ''petition_payload'')"
  obtain p where p: "get d ''petition_payload'' = PDict p" "in_strs (get p ''type'') valid_petition_payload_types"
    and ok: "petition_payload_verdict p = (True, ''ok'')"
    using petition_file_accepted [OF assms] by auto
  then have "hashable (get p ''type'')" by (auto simp: in_strs_iff)
  with bad p obtain us u where u: "get p ''type'' = PStr ''BATCH_UPDATE_PARAMS''" "get p ''updates'' = PList us"
      "PDict u \<in> set us" "\<not> hashable (get u ''key'')"
    by (auto simp: unhashable_payload_def)
  then have "batch_entries_verdict us = (True, ''ok'')" using ok by (auto simp: petition_payload_verdict_def Let_def split: if_splits)
  from batch_entries_accepted [OF this u(3)] u(4) show False by (cases "get u ''key''") auto
qed

subsection \<open>Properties\<close>

text \<open>
  The registry is complete and its entries are what their required fields say. Exactly the event
  types of the economy layer have a schema, and a payload that validation accepts for a type is a
  dict with every field that the type's schema lists as required.
\<close>

theorem registry_sound:
  "(get_infonet_schema et \<noteq> None \<longleftrightarrow> et \<in> set infonet_economy_event_types)
   \<and> (validate_infonet_event_payload et v = Inr (True, w) \<longrightarrow>
       (\<exists>sch d. get_infonet_schema et = Some sch \<and> event_type sch = et \<and> v = PDict d \<and> w = ''ok''
          \<and> (\<forall>k \<in> set (required_fields sch). has_key d k)))"
proof (cases "et \<in> set infonet_economy_event_types")
  case True
  from registry_lookup [OF this] show ?thesis
    using True by (auto simp: get_infonet_schema_def ordinary_def accepts_only_def)
next
  case False
  then show ?thesis using registry_unknown by (simp add: validate_infonet_event_payload_def)
qed

theorem registry_sound_witness:
  "\<exists>sch. get_infonet_schema ''gate_exit'' = Some sch
     \<and> (\<forall>k \<in> set (required_fields sch). has_key [(''gate_id'', PStr ''g'')] k)"
proof -
  have "validate_infonet_event_payload ''gate_exit'' (PDict [(''gate_id'', PStr ''g'')]) = Inr (True, ''ok'')"
    by code_simp
  with registry_sound show ?thesis by fastforce
qed

text \<open>
  How validation of a known type refuses and fails. A value that is not a dict and a dict that
  lacks a required field are refused with their messages, the first missing field being named; and
  validation never raises, except on an \<open>upgrade_challenge\<close> that is not a dict and on a
  \<open>petition_file\<close> whose payload type is a list or a dict.
\<close>

theorem validation_failures:
  assumes "get_infonet_schema et = Some sch"
  shows "(et \<noteq> ''upgrade_challenge'' \<longrightarrow>
      (\<not> is_dict v \<longrightarrow> validate_infonet_event_payload et v = Inr (False, ''payload must be an object''))
      \<and> (is_dict v \<and> find (\<lambda>k. \<not> has_key (fields v) k) (required_fields sch) = Some m \<longrightarrow>
           validate_infonet_event_payload et v = Inr (False, ''Missing field: '' @ m)))
    \<and> (validate_infonet_event_payload et v = Inl e \<longrightarrow>
        et = ''upgrade_challenge'' \<and> e = AttributeError \<and> \<not> is_dict v
      \<or> et = ''petition_file'' \<and> e = TypeError
          \<and> \<not> hashable (get (fields (get (fields v) ''petition_payload'')) ''type''))"
proof -
  have "et \<in> set infonet_economy_event_types" using assms registry_unknown by fastforce
  then obtain sch' where sch': "map_of schema_registry et = Some sch'" "ordinary (et, sch')"
    and run': "validate_infonet_event_payload et v = validate sch' v"
    using registry_lookup by blast
  moreover from this have "sch' = sch" using assms by (simp add: get_infonet_schema_def)
  ultimately have ord: "ordinary (et, sch)" and run: "validate_infonet_event_payload et v = validate sch v" by simp_all
  have miss: "et \<noteq> ''upgrade_challenge'' \<longrightarrow>
      (\<not> is_dict v \<longrightarrow> validate sch v = Inr (False, ''payload must be an object''))
      \<and> (is_dict v \<and> find (\<lambda>k. \<not> has_key (fields v) k) (required_fields sch) = Some m \<longrightarrow>
           validate sch v = Inr (False, ''Missing field: '' @ m))"
    using ord by (cases v) (auto simp: ordinary_def names_missing_def refuses_non_dicts_def)
  have raises: "et \<in> {''petition_file'', ''upgrade_challenge''}" if e: "validate sch v = Inl e"
  proof (rule ccontr)
    assume "et \<notin> {''petition_file'', ''upgrade_challenge''}"
    then have "never_raises sch" using ord by (simp add: ordinary_def)
    then show False using e unfolding never_raises_def by (metis Inl_Inr_False)
  qed
  have "et = ''upgrade_challenge'' \<and> e = AttributeError \<and> \<not> is_dict v
      \<or> et = ''petition_file'' \<and> e = TypeError \<and> \<not> hashable (get (fields (get (fields v) ''petition_payload'')) ''type'')"
    if e: "validate sch v = Inl e"
    using raises [OF e] run e petition_file_Inl [of v e] upgrade_challenge_Inl [of v e]
      registry_petition_file [of v] registry_upgrade_challenge [of v]
    by (elim insertE emptyE) (simp_all only:, simp_all)
  with miss show ?thesis unfolding run by blast
qed

theorem validation_failures_witness:
  "validate_infonet_event_payload ''gate_lock'' (PDict [(''gate_id'', PStr ''g'')]) = Inr (False, ''Missing field: lock_cost'')"
proof -
  have "get_infonet_schema ''gate_lock'' = Some (snd (reg ''gate_lock'' [''gate_id'', ''lock_cost''] [] validate_gate_lock))"
    by (simp add: get_infonet_schema_def schema_registry_def reg_def)
  from validation_failures [OF this, of "PDict [(''gate_id'', PStr ''g'')]" "''lock_cost''"] show ?thesis
    by (simp add: reg_def)
qed

text \<open>
  C4: schema validation makes the executor safe. The payload of a \<open>petition_file\<close> event that the
  schema accepts has a known type, and executing it on a well-formed configuration can only fail
  with \<open>InvalidPetition\<close>; no other exception escapes.
\<close>

theorem accepted_petition_executes:
  assumes "config_ok cfg" and "validate_infonet_event_payload ''petition_file'' (PDict d) = Inr (True, w)"
  shows "(\<exists>t. check_payload_shape (get d ''petition_payload'') = Inr t)
    \<and> (apply_petition_payload (get d ''petition_payload'') cfg = Inl e \<longrightarrow> e = InvalidPetition)"
proof (rule conjI, goal_cases shape safe)
  have acc: "validate_petition_file (PDict d) = Inr (True, w)" using assms(2) by (simp add: registry_petition_file)
  case shape
  from petition_file_accepted [OF acc] show "\<exists>t. check_payload_shape (get d ''petition_payload'') = Inr t"
    by (auto simp: check_payload_shape_def in_str_set_def in_strs_iff valid_petition_payload_types_def allowed_payload_types_def)
next
  have acc: "validate_petition_file (PDict d) = Inr (True, w)" using assms(2) by (simp add: registry_petition_file)
  case safe
  show "apply_petition_payload (get d ''petition_payload'') cfg = Inl e \<longrightarrow> e = InvalidPetition"
    using apply_petition_payload_Inl [OF assms(1)] petition_file_hashable [OF acc] by blast
qed

theorem accepted_petition_executes_witness:
  "\<exists>t. check_payload_shape (PDict [(''type'', PStr ''ENABLE_FEATURE''), (''feature'', PStr ''x'')]) = Inr t"
proof -
  have "validate_infonet_event_payload ''petition_file'' (PDict [(''petition_id'', PStr ''p''),
      (''petition_payload'', PDict [(''type'', PStr ''ENABLE_FEATURE''), (''feature'', PStr ''x'')])]) = Inr (True, ''ok'')"
    by code_simp
  from accepted_petition_executes [OF baseline_ok this] show ?thesis by simp
qed

end
