(* ===== verification/Events.thy ===== *)
theory Events
  imports Schema
begin

text \<open>
  \<open>services/infonet/events.py\<close>, the payload builders, and \<open>services/infonet/_chain_cutover.py\<close>, which
  registers the economy's event types with the ledger. The ledger's registries that the cutover
  writes (\<open>mesh_hashchain.ACTIVE_APPEND_EVENT_TYPES\<close> and \<open>mesh_schema._EXTENSION_VALIDATORS\<close>) are the
  state it runs on.
\<close>

subsection \<open>Payload builders\<close>

text \<open>\<open>dict(payload or {})\<close> of a dict is a copy of it.\<close>

definition build_event :: "string \<Rightarrow> pydict \<Rightarrow> pydict res" where
  "build_event et payload =
     (if et \<notin> set infonet_economy_event_types then Inl EventConstructionError
      else bnd (validate_infonet_event_payload et (PDict payload)) (\<lambda>(ok, reason).
        if \<not> ok then Inl EventConstructionError else Inr payload))"

definition build_uprep :: "pyval \<Rightarrow> pyval \<Rightarrow> pydict res" where
  "build_uprep target_node_id target_event_id = build_event ''uprep''
     [(''target_node_id'', target_node_id), (''target_event_id'', target_event_id)]"

definition build_citizenship_claim :: "pyval \<Rightarrow> pydict res" where
  "build_citizenship_claim sacrifice_amount = build_event ''citizenship_claim'' [(''sacrifice_amount'', sacrifice_amount)]"

definition build_petition_file :: "pyval \<Rightarrow> pyval \<Rightarrow> pydict res" where
  "build_petition_file petition_id petition_payload = build_event ''petition_file''
     [(''petition_id'', petition_id), (''petition_payload'', petition_payload)]"

definition build_petition_vote :: "pyval \<Rightarrow> pyval \<Rightarrow> pydict res" where
  "build_petition_vote petition_id vote = build_event ''petition_vote'' [(''petition_id'', petition_id), (''vote'', vote)]"

definition build_node_register :: "pyval \<Rightarrow> pyval \<Rightarrow> pyval \<Rightarrow> pydict res" where
  "build_node_register public_key public_key_algo node_class = build_event ''node_register''
     [(''public_key'', public_key), (''public_key_algo'', public_key_algo), (''node_class'', node_class)]"

lemma build_event_Inr:
  "build_event et d = Inr r \<longleftrightarrow> r = d \<and> validate_infonet_event_payload et (PDict d) = Inr (True, ''ok'')"
proof
  assume "build_event et d = Inr r"
  then have et: "et \<in> set infonet_economy_event_types" and r: "r = d"
    and v: "\<exists>w. validate_infonet_event_payload et (PDict d) = Inr (True, w)"
    by (auto simp: build_event_def bnd_eq_Inr split: if_splits)
  obtain sch where "ordinary (et, sch)" "validate_infonet_event_payload et (PDict d) = validate sch (PDict d)"
    using registry_lookup [OF et] by blast
  with v r show "r = d \<and> validate_infonet_event_payload et (PDict d) = Inr (True, ''ok'')"
    by (auto simp: ordinary_def accepts_only_def)
next
  assume "r = d \<and> validate_infonet_event_payload et (PDict d) = Inr (True, ''ok'')"
  then show "build_event et d = Inr r" by (auto simp: build_event_def validate_infonet_event_payload_def split: if_splits)
qed

subsection \<open>The ledger's registries and the cutover\<close>

record ledger_registries =
  active_append :: "string list"
  extension_validators :: "(string \<times> (pyval \<Rightarrow> verdict res)) list"
  cutover_done :: bool

text \<open>\<open>mesh_schema.register_extension_validator\<close>\<close>

definition register_extension_validator :: "string \<Rightarrow> (pyval \<Rightarrow> verdict res) \<Rightarrow> ledger_registries \<Rightarrow> ledger_registries res" where
  "register_extension_validator et fn s =
     (if et = [] then Inl ValueError else Inr (s\<lparr>extension_validators := AList.update et fn (extension_validators s)\<rparr>))"

definition is_extension_event_type :: "ledger_registries \<Rightarrow> string \<Rightarrow> bool" where
  "is_extension_event_type s et \<longleftrightarrow> et \<in> set (map fst (extension_validators s))"

text \<open>\<open>mesh_hashchain.ACTIVE_APPEND_EVENT_TYPES\<close> as the ledger module initialises it\<close>

definition active_public_ledger_event_types :: "string list" where
  "active_public_ledger_event_types =
     [''message'', ''vote'', ''gate_create'', ''prediction'', ''stake'', ''key_rotate'', ''key_revoke'', ''abuse_report'']"

definition initial_registries :: ledger_registries where
  "initial_registries = \<lparr>active_append = active_public_ledger_event_types, extension_validators = [], cutover_done = False\<rparr>"

definition perform_cutover :: "ledger_registries \<Rightarrow> ledger_registries res" where
  "perform_cutover s =
     (if cutover_done s then Inr s
      else bnd (foldres (\<lambda>et. register_extension_validator et (validate_infonet_event_payload et)) infonet_economy_event_types
                  (s\<lparr>active_append := fold set_add infonet_economy_event_types (active_append s)\<rparr>))
             (\<lambda>s'. Inr (s'\<lparr>cutover_done := True\<rparr>)))"

record cutover_report =
  rep_done :: bool
  registered_types :: "string list"
  missing_types :: "string list"
  active_append_includes_economy :: bool

definition cutover_status :: "ledger_registries \<Rightarrow> cutover_report" where
  "cutover_status s =
     \<lparr>rep_done = cutover_done s,
      registered_types = sort_by str_lt (filter (is_extension_event_type s) infonet_economy_event_types),
      missing_types = sort_by str_lt (filter (\<lambda>t. \<not> is_extension_event_type s t) infonet_economy_event_types),
      active_append_includes_economy = (set infonet_economy_event_types \<subseteq> set (active_append s))\<rparr>"

lemma register_all:
  assumes "[] \<notin> set ets"
  shows "foldres (\<lambda>et. register_extension_validator et (f et)) ets s =
    Inr (s\<lparr>extension_validators := fold (\<lambda>et. AList.update et (f et)) ets (extension_validators s)\<rparr>)"
  using assms by (induction ets arbitrary: s) (auto simp: register_extension_validator_def)

lemma map_of_fold_update:
  "map_of (fold (\<lambda>k. AList.update k (f k)) ks d) k = (if k \<in> set ks then Some (f k) else map_of d k)"
  by (induction ks arbitrary: d) auto

lemma economy_types_nonempty: "[] \<notin> set infonet_economy_event_types"
  by (simp add: infonet_economy_event_types_def)

lemma perform_cutover_run:
  "\<not> cutover_done s \<Longrightarrow> perform_cutover s = Inr
     \<lparr>active_append = fold set_add infonet_economy_event_types (active_append s),
      extension_validators = fold (\<lambda>et. AList.update et (validate_infonet_event_payload et)) infonet_economy_event_types (extension_validators s),
      cutover_done = True\<rparr>"
  by (simp add: perform_cutover_def register_all economy_types_nonempty)

lemma is_extension_map_of: "is_extension_event_type s et \<longleftrightarrow> map_of (extension_validators s) et \<noteq> None"
  by (simp add: is_extension_event_type_def map_of_eq_None_iff)

text \<open>
  C5: the cutover. Run on registries it has not run on, it succeeds; afterwards every economy event
  type may be appended and is validated by its own schema, every other type is appendable and
  validated exactly as before, the status reports nothing missing, and running it again changes
  nothing.
\<close>

theorem cutover_registers:
  assumes "\<not> cutover_done s"
  shows "\<exists>s'. perform_cutover s = Inr s'
    \<and> set (active_append s') = set infonet_economy_event_types \<union> set (active_append s)
    \<and> (\<forall>et \<in> set infonet_economy_event_types. map_of (extension_validators s') et = Some (validate_infonet_event_payload et))
    \<and> (\<forall>et. et \<notin> set infonet_economy_event_types \<longrightarrow> map_of (extension_validators s') et = map_of (extension_validators s) et)
    \<and> rep_done (cutover_status s') \<and> missing_types (cutover_status s') = []
    \<and> active_append_includes_economy (cutover_status s')
    \<and> perform_cutover s' = Inr s'"
proof -
  let ?s' = "\<lparr>active_append = fold set_add infonet_economy_event_types (active_append s),
      extension_validators = fold (\<lambda>et. AList.update et (validate_infonet_event_payload et)) infonet_economy_event_types (extension_validators s),
      cutover_done = True\<rparr>"
  have ext: "is_extension_event_type ?s' et" if "et \<in> set infonet_economy_event_types" for et
    using that by (simp add: is_extension_map_of map_of_fold_update)
  then have "filter (\<lambda>t. \<not> is_extension_event_type ?s' t) infonet_economy_event_types = []" by simp
  moreover have "perform_cutover s = Inr ?s'" using assms by (rule perform_cutover_run)
  moreover have "perform_cutover ?s' = Inr ?s'" by (simp add: perform_cutover_def)
  ultimately show ?thesis
    by (intro exI [of _ ?s']) (simp add: cutover_status_def map_of_fold_update)
qed

theorem cutover_registers_witness:
  "\<exists>s'. perform_cutover initial_registries = Inr s' \<and> ''message'' \<in> set (active_append s')
     \<and> missing_types (cutover_status s') = []"
proof -
  have "\<not> cutover_done initial_registries" by (simp add: initial_registries_def)
  from cutover_registers [OF this] show ?thesis
    by (auto simp: initial_registries_def active_public_ledger_event_types_def)
qed

end
