(* ===== verification/Float_Facts.thy ===== *)
theory Float_Facts
  imports PyFloat
begin

text \<open>
  Facts about rounded arithmetic that several components use: which results are floats of the
  format, shares of a pool, monotone sums, comparisons.
\<close>

subsection \<open>Comparison\<close>

lemma flt_fle_trans: "flt x y \<Longrightarrow> fle y z \<Longrightarrow> flt x z"
  by (cases x; cases y; cases z) (auto simp: fle_def)

lemma fle_flt_trans: "fle x y \<Longrightarrow> flt y z \<Longrightarrow> flt x z"
  by (cases x; cases y; cases z) (auto simp: fle_def)

lemma fle_refl [simp]: "x \<noteq> NaN \<Longrightarrow> fle x x"
  by (cases x) (auto simp: fle_def)

lemma not_fle_flt: "x \<noteq> NaN \<Longrightarrow> y \<noteq> NaN \<Longrightarrow> \<not> fle x y \<Longrightarrow> flt y x"
  by (cases x; cases y) (auto simp: fle_def)

lemma fle_NaN_free: "fle x y \<Longrightarrow> x \<noteq> NaN \<and> y \<noteq> NaN"
  by auto

lemma flt_fle: "flt x y \<Longrightarrow> fle x y"
  by (simp add: fle_def)

lemma flt_imp_not_NaN: "flt x y \<Longrightarrow> x \<noteq> NaN \<and> y \<noteq> NaN"
  by auto

subsection \<open>Floats of the format\<close>

definition fdouble :: "pyfloat \<Rightarrow> bool" where
  "fdouble x \<longleftrightarrow> (case x of Fin r \<Rightarrow> is_double r | _ \<Rightarrow> True)"

lemma fdouble_simps [simp]: "fdouble (Fin r) \<longleftrightarrow> is_double r" "fdouble PosInf" "fdouble NegInf" "fdouble NaN"
  by (simp_all add: fdouble_def)

lemma fdouble_fl [simp]: "fdouble (fl q)"
  using fl_cases [of q] is_double_rnd64 [of q] by auto

lemma fdouble_fadd [simp]: "fdouble (fadd x y)"
  by (cases x; cases y) auto

lemma is_double_0 [simp]: "is_double 0"
  using is_double_of_int [of 0] by simp

lemma is_double_1 [simp]: "is_double 1"
  using is_double_of_int [of 1] by simp

text \<open>Every result of rounding is below the overflow threshold.\<close>

definition in_range :: "rat \<Rightarrow> bool" where
  "in_range r \<longleftrightarrow> \<bar>r\<bar> < 2 ^ 1024"

definition fval :: "pyfloat \<Rightarrow> bool" where
  "fval x \<longleftrightarrow> (case x of Fin r \<Rightarrow> is_double r \<and> in_range r | _ \<Rightarrow> True)"

lemma in_range_small [simp]: "in_range 0" "in_range 1"
  by (simp_all add: in_range_def)

lemma fval_simps [simp]: "fval (Fin r) \<longleftrightarrow> is_double r \<and> in_range r" "fval PosInf" "fval NegInf" "fval NaN"
  by (simp_all add: fval_def)

lemma fval_fl [simp]: "fval (fl q)"
proof (cases "fl q")
  case (Fin r)
  then have "r = rnd64 q \<and> in_range r" unfolding fl_Fin_iff in_range_def .
  with Fin is_double_rnd64 [of q] show ?thesis by (auto simp: fval_def)
qed simp_all

lemma fl_ge_double: "is_double a \<Longrightarrow> in_range a \<Longrightarrow> a \<le> b \<Longrightarrow> fle (Fin a) (fl b)"
  unfolding in_range_def by (rule fl_ge)

lemma fl_le_PosInf [simp]: "fle (fl q) PosInf"
  using fl_not_NaN [of q] by (cases "fl q") (auto simp: fle_def simp del: fl_not_NaN)

lemma fval_fadd [simp]: "fval (fadd x y)"
  by (cases x; cases y) auto

lemma fval_inf_sgn [simp]: "fval (inf_sgn s)"
  by (simp add: inf_sgn_def)

lemma fval_fmul [simp]: "fval (fmul x y)"
  by (cases x; cases y) auto

lemma fval_0 [simp]: "fval (Fin 0)" and fval_1 [simp]: "fval (Fin 1)"
  by simp_all

lemma fadd_ge_left: "fval x \<Longrightarrow> fnonneg x \<Longrightarrow> fnonneg y \<Longrightarrow> fle x (fadd x y)"
  by (cases x; cases y) (auto intro: fl_ge_double)

lemma fadd_commute: "fadd x y = fadd y x"
  by (cases x; cases y) (auto simp: add.commute)

lemma fadd_ge_right: "fval y \<Longrightarrow> fnonneg x \<Longrightarrow> fnonneg y \<Longrightarrow> fle y (fadd x y)"
  using fadd_ge_left [of y x] by (simp add: fadd_commute)

lemma fle_PosInf [simp]: "fle PosInf PosInf" "\<not> fle PosInf NegInf"
  by (simp_all add: fle_def)

lemma fadd_mono: "fle a b \<Longrightarrow> fnonneg a \<Longrightarrow> fnonneg x \<Longrightarrow> fle (fadd a x) (fadd b x)"
  by (cases a; cases b; cases x) (auto intro: fl_mono)

lemma fadd_mono2: "fle a b \<Longrightarrow> fnonneg a \<Longrightarrow> fle x y \<Longrightarrow> fnonneg x \<Longrightarrow> fle (fadd a x) (fadd b y)"
proof -
  assume 1: "fle a b" "fnonneg a" "fle x y" "fnonneg x"
  have "fle (fadd a x) (fadd b x)" using 1 by (intro fadd_mono)
  moreover have "fnonneg b" using 1 unfolding fnonneg_def by (blast intro: fle_trans)
  then have "fle (fadd b x) (fadd b y)" using fadd_mono [of x y b] 1 by (simp add: fadd_commute)
  ultimately show ?thesis by (rule fle_trans)
qed

lemma fadd_pos: "fpos x \<Longrightarrow> fnonneg y \<Longrightarrow> fval x \<Longrightarrow> fpos (fadd x y)"
  using fadd_ge_left [of x y] fpos_nonneg [of x]
  by (cases x; cases "fadd x y") (auto simp: fpos_def fle_def)

subsection \<open>Shares of a pool\<close>

lemma fl_unit: "0 \<le> q \<Longrightarrow> q \<le> 1 \<Longrightarrow> fle (Fin 0) (fl q) \<and> fle (fl q) (Fin 1)"
  using fl_mono [of 0 q] fl_mono [of q 1] by simp

lemma share_bounds:
  assumes "fnonneg a" "fval a" "fnonneg b" "fpos (fadd a b)"
  shows "\<exists>q. fdiv a (fadd a b) = Inr q \<and> (q = NaN \<or> fle (Fin 0) q \<and> fle q (Fin 1))"
proof (cases "fadd a b")
  case (Fin p)
  then obtain x y where x: "a = Fin x" and y: "b = Fin y" "0 \<le> x" "0 \<le> y" using assms(1,3) by (cases a; cases b) auto
  have p: "0 < p" using assms(4) Fin by simp
  have "x \<le> p" using fadd_ge_left [OF assms(2,1,3)] x Fin by simp
  then have "0 \<le> x / p" "x / p \<le> 1" using p y by simp_all
  then have "fdiv a (Fin p) = Inr (fl (x / p))" "fle (Fin 0) (fl (x / p)) \<and> fle (fl (x / p)) (Fin 1)"
    using fl_unit [of "x / p"] p by (simp_all add: x)
  then show ?thesis unfolding Fin by blast
next
  case PosInf
  with assms(1) show ?thesis by (cases a) auto
qed (use assms(4) in auto)

lemma one_minus_unit: "fle (Fin 0) q \<Longrightarrow> fle q (Fin 1) \<Longrightarrow> fle (Fin 0) (fsub (Fin 1) q) \<and> fle (fsub (Fin 1) q) (Fin 1)"
  by (cases q) (auto simp: fsub_def intro!: fl_unit [THEN conjunct1] fl_unit [THEN conjunct2])

lemma is_double_twice: assumes "is_double r" shows "is_double (2 * r)"
proof -
  from assms obtain m e where "r = of_int m * 2 powi e" "\<bar>m\<bar> \<le> 2 ^ 53" "- 1074 \<le> e" unfolding is_double_def by blast
  then show ?thesis unfolding is_double_def
    by (intro exI [of _ m] exI [of _ "e + 1"]) (simp add: power_int_add)
qed

subsection \<open>Sums\<close>

lemma fval_foldl_fadd: "fval s \<Longrightarrow> fval (foldl fadd s xs)"
  by (induction xs arbitrary: s) auto

lemma fval_fsum [simp]: "fval (fsum xs)"
  by (simp add: fsum_def fval_foldl_fadd)

lemma fsum_snoc: "fsum (xs @ [x]) = fadd (fsum xs) x"
  by (simp add: fsum_def)

text \<open>A sum of nonnegative floats is at least each of its initial sums.\<close>

lemma fsum_prefix_mono: "\<forall>x \<in> set (xs @ ys). fnonneg x \<Longrightarrow> fle (fsum xs) (fsum (xs @ ys))"
proof (induction ys rule: rev_induct)
  case Nil
  have "fnonneg (fsum xs)" using Nil by (intro fsum_nonneg) simp
  then show ?case by (cases "fsum xs") auto
next
  case (snoc y ys)
  have "fle (fsum xs) (fsum (xs @ ys))" using snoc by simp
  also have "fle (fsum (xs @ ys)) (fsum (xs @ ys @ [y]))"
    using snoc.prems fsum_snoc [of "xs @ ys" y] fadd_ge_left [of "fsum (xs @ ys)" y] fsum_nonneg [of "xs @ ys"] by simp
  finally (fle_trans) show ?case .
qed

end
