(* ===== verification/Event_Selection.thy ===== *)
theory Event_Selection
  imports Config_Reads Float_Facts
begin

text \<open>
  The chain as the modules see it, and \<open>services/infonet/markets/event_selection.py\<close>: filtering one
  market's events and choosing the first authoritative one. A chain is any list of decoded values;
  every module skips what is not a dict.
\<close>

subsection \<open>Events\<close>

type_synonym chain = "pyval list"

text \<open>\<open>[e for e in chain if isinstance(e, dict)]\<close>\<close>

fun as_event :: "pyval \<Rightarrow> pydict option" where
  "as_event (PDict d) = Some d" | "as_event _ = None"

definition events_of :: "chain \<Rightarrow> pydict list" where
  "events_of chain = List.map_filter as_event chain"

definition ev_is :: "string \<Rightarrow> pydict \<Rightarrow> bool" where
  "ev_is et ev \<longleftrightarrow> get ev ''event_type'' = PStr et"

definition payload :: "pydict \<Rightarrow> pydict" where
  "payload ev = (case get ev ''payload'' of PDict d \<Rightarrow> d | _ \<Rightarrow> [])"

text \<open>\<open>node = ev.get("node_id")\<close>, where the code goes on only with a nonempty string\<close>

fun nonempty_str :: "pyval \<Rightarrow> string option" where
  "nonempty_str (PStr s) = (if s = [] then None else Some s)" | "nonempty_str _ = None"

lemma events_of_simps [simp, chain_simps]:
  "events_of [] = []" "events_of (PDict d # c) = d # events_of c" "events_of (c1 @ c2) = events_of c1 @ events_of c2"
  by (simp_all add: events_of_def map_filter_def)

lemma events_of_Cons: "events_of (v # c) = (case v of PDict d \<Rightarrow> d # events_of c | _ \<Rightarrow> events_of c)"
  by (cases v) (simp_all add: events_of_def map_filter_def)

lemma events_of_PDict [simp, chain_simps]: "events_of (map PDict ds) = ds"
  by (induction ds) simp_all

lemma events_of_snoc: "\<not> is_dict v \<Longrightarrow> events_of (c @ [v]) = events_of c"
  by (cases v) (simp_all add: events_of_Cons)

lemma set_events_of: "d \<in> set (events_of c) \<longleftrightarrow> PDict d \<in> set c"
  by (induction c) (auto simp: events_of_Cons split: pyval.splits)

lemma nonempty_str_Some [simp]: "nonempty_str v = Some s \<longleftrightarrow> v = PStr s \<and> s \<noteq> []"
  by (cases v) auto

subsection \<open>The code\<close>

definition market_id :: "pydict \<Rightarrow> string" where
  "market_id ev = py_str (py_or (get (payload ev) ''market_id'') (PStr []))"

definition safe_int :: "pyval \<Rightarrow> int option" where
  "safe_int v = (case py_int v of Inl e \<Rightarrow> None | Inr n \<Rightarrow> Some n)"

definition has_valid_ordering :: "pydict \<Rightarrow> bool" where
  "has_valid_ordering ev \<longleftrightarrow> finite_float (get ev ''timestamp'') \<noteq> None \<and> safe_int (get ev ''sequence'') \<noteq> None"

definition events_for_market :: "string \<Rightarrow> chain \<Rightarrow> pydict list" where
  "events_for_market m chain = filter (\<lambda>ev. market_id ev = m) (events_of chain)"

definition first_authoritative_event :: "pydict list \<Rightarrow> string \<Rightarrow> pydict option" where
  "first_authoritative_event events et = find (ev_is et) events"

subsection \<open>Selection is final\<close>

text \<open>
  What the modules rely on: a selector that, once it has chosen, is not changed by events appended
  later.
\<close>

locale final_selection =
  fixes sel :: "'e list \<Rightarrow> 'r option"
  assumes sel_append: "sel (xs @ ys) = (case sel xs of Some r \<Rightarrow> Some r | None \<Rightarrow> sel ys)"
begin

lemma sel_final: "sel xs = Some r \<Longrightarrow> sel (xs @ ys) = Some r"
  by (simp add: sel_append)

lemma sel_skip: "sel xs = None \<Longrightarrow> sel (xs @ ys) = sel ys"
  by (simp add: sel_append)

lemma sel_prefix: "sel (xs @ ys) = None \<longleftrightarrow> sel xs = None \<and> sel ys = None"
  by (simp add: sel_append split: option.splits)

end

interpretation first_event: final_selection "\<lambda>events. first_authoritative_event events et"
  by unfold_locales (simp add: first_authoritative_event_def find_append_cases split: option.split)

lemma events_for_market_append [simp, chain_simps]:
  "events_for_market m (c1 @ c2) = events_for_market m c1 @ events_for_market m c2"
  by (simp add: events_for_market_def)

lemma events_for_market_Nil [simp]: "events_for_market m [] = []"
  by (simp add: events_for_market_def)

lemma events_for_market_idem [simp]: "events_for_market m (map PDict (events_for_market m c)) = events_for_market m c"
  by (simp add: events_for_market_def)

lemma first_authoritative_is: "first_authoritative_event events et = Some ev \<Longrightarrow> ev \<in> set events \<and> ev_is et ev"
  by (induction events) (auto simp: first_authoritative_event_def split: if_splits)

text \<open>
  What depends on a chain only through one market's events. Events of other markets, and values that
  are not events, may be inserted anywhere without changing it.
\<close>

locale market_view =
  fixes view :: "string \<Rightarrow> chain \<Rightarrow> 'a"
  assumes view_local: "view m c = view m (map PDict (events_for_market m c))"
begin

lemma view_cong: "events_for_market m c = events_for_market m c' \<Longrightarrow> view m c = view m c'"
  by (metis view_local)

lemma view_insert: "events_for_market m new = [] \<Longrightarrow> view m (c1 @ new @ c2) = view m (c1 @ c2)"
  by (rule view_cong) simp

end

end
