(* ===== verification/Lifecycle.thy ===== *)
theory Lifecycle
  imports Event_Selection
begin

text \<open>
  \<open>services/infonet/markets/lifecycle.py\<close>: the status of a market, derived from the chain and the
  chain time, and the phase advance a producer should emit.
\<close>

subsection \<open>The code\<close>

datatype market_status = PREDICTING | EVIDENCE | RESOLVING | FINAL | INVALID

definition seconds_per_hour :: pyfloat where
  "seconds_per_hour = Fin 3600"

text \<open>\<open>raw in (None, "", 0, 0.0)\<close>: a number (or a bool) equal to zero counts\<close>

definition absent_or_zero :: "pyval \<Rightarrow> bool" where
  "absent_or_zero v \<longleftrightarrow> v = PNone \<or> v = PStr [] \<or> num_val v = Some (Fin 0)"

definition snapshot_time :: "pydict \<Rightarrow> pyfloat option" where
  "snapshot_time snapshot =
     (if \<not> has_valid_ordering snapshot then None
      else if absent_or_zero (get snapshot ''timestamp'') then finite_float (get (payload snapshot) ''frozen_at'')
      else finite_float (get snapshot ''timestamp''))"

definition evidence_close_at :: "pydict \<Rightarrow> pyfloat \<Rightarrow> pyfloat res" where
  "evidence_close_at cfg snapshot_ts =
     bnd (cfg_float cfg ''evidence_window_hours'') (\<lambda>h. Inr (fadd snapshot_ts (fmul h seconds_per_hour)))"

text \<open>The part of \<open>compute_market_status\<close> after the finalize event: it is reached when there is none or it is malformed.\<close>

definition snapshot_phase :: "pydict \<Rightarrow> pydict list \<Rightarrow> pyfloat \<Rightarrow> market_status res" where
  "snapshot_phase cfg events now = (case first_authoritative_event events ''market_snapshot'' of
       None \<Rightarrow> Inr PREDICTING
     | Some snapshot \<Rightarrow> (case snapshot_time snapshot of
           None \<Rightarrow> Inr PREDICTING
         | Some snapshot_ts \<Rightarrow> bnd (evidence_close_at cfg snapshot_ts) (\<lambda>evidence_close.
             Inr (if flt now evidence_close then EVIDENCE else RESOLVING))))"

definition compute_market_status :: "pydict \<Rightarrow> string \<Rightarrow> chain \<Rightarrow> pyfloat \<Rightarrow> market_status res" where
  "compute_market_status cfg m chain now =
     (let events = events_for_market m chain in
      if events = [] then Inr PREDICTING
      else case first_authoritative_event events ''prediction_create'' of
        None \<Rightarrow> Inr PREDICTING
      | Some create_event \<Rightarrow>
          if \<not> has_valid_ordering create_event then Inr PREDICTING
          else (case first_authoritative_event events ''resolution_finalize'' of
              None \<Rightarrow> snapshot_phase cfg events now
            | Some finalize \<Rightarrow>
                if has_valid_ordering finalize
                then Inr (if get (payload finalize) ''outcome'' = PStr ''invalid'' then INVALID else FINAL)
                else snapshot_phase cfg events now))"

definition should_advance_phase :: "pydict \<Rightarrow> string \<Rightarrow> chain \<Rightarrow> pyfloat \<Rightarrow> (market_status \<times> market_status) option res" where
  "should_advance_phase cfg m chain now =
     (let events = events_for_market m chain in
      if events = [] then Inr None
      else case first_authoritative_event events ''prediction_create'' of
        None \<Rightarrow> Inr None
      | Some create_event \<Rightarrow>
          if \<not> has_valid_ordering create_event then Inr None
          else if first_authoritative_event events ''resolution_finalize'' \<noteq> None then Inr None
          else (case first_authoritative_event events ''market_snapshot'' of
              None \<Rightarrow> (case finite_float (get (payload create_event) ''trigger_date'') of
                  Some trigger_date \<Rightarrow> Inr (if fle trigger_date now then Some (PREDICTING, EVIDENCE) else None)
                | None \<Rightarrow> Inr None)
            | Some snapshot \<Rightarrow> (case snapshot_time snapshot of
                  None \<Rightarrow> Inr None
                | Some snapshot_ts \<Rightarrow> bnd (evidence_close_at cfg snapshot_ts) (\<lambda>evidence_close.
                    bnd (cfg_float cfg ''resolution_window_hours'') (\<lambda>h.
                      let resolution_close = fadd evidence_close (fmul h seconds_per_hour) in
                      Inr (if flt now evidence_close then None
                           else if flt now resolution_close then Some (EVIDENCE, RESOLVING)
                           else Some (RESOLVING, FINAL)))))))"

subsection \<open>Lemmas\<close>

lemma evidence_close_total: "config_ok cfg \<Longrightarrow> \<exists>t. evidence_close_at cfg ts = Inr t"
  using read_evidence_window_hours [of cfg] by (auto simp: evidence_close_at_def)

lemma snapshot_phase_total:
  assumes "config_ok cfg"
  shows "\<exists>st \<in> {PREDICTING, EVIDENCE, RESOLVING}. snapshot_phase cfg events now = Inr st"
proof -
  have "\<exists>t. evidence_close_at cfg ts = Inr t" for ts using assms by (rule evidence_close_total)
  then obtain f where "evidence_close_at cfg ts = Inr (f ts)" for ts by metis
  then show ?thesis by (auto simp: snapshot_phase_def split: option.splits)
qed

lemma status_total: "config_ok cfg \<Longrightarrow> \<exists>st. compute_market_status cfg m chain now = Inr st"
  using snapshot_phase_total [of cfg "events_for_market m chain" now]
  by (auto simp: compute_market_status_def Let_def split: option.splits)

interpretation lifecycle: market_view "\<lambda>m chain. (compute_market_status cfg m chain, should_advance_phase cfg m chain)"
  by unfold_locales (simp add: compute_market_status_def should_advance_phase_def fun_eq_iff)

fun phase_rank :: "market_status \<Rightarrow> nat" where
  "phase_rank PREDICTING = 0" | "phase_rank EVIDENCE = 1" | "phase_rank RESOLVING = 2"
| "phase_rank FINAL = 3" | "phase_rank INVALID = 3"

text \<open>The phase the snapshot decides moves forward only, in time and along the chain.\<close>

lemma snapshot_phase_mono:
  assumes "snapshot_phase cfg evs now = Inr st" "snapshot_phase cfg (evs @ new) now' = Inr st'" "fle now now'"
  shows "phase_rank st \<le> phase_rank st'"
proof (cases "first_authoritative_event evs ''market_snapshot''")
  case None
  with assms(1) show ?thesis by (auto simp: snapshot_phase_def)
next
  case (Some snap)
  then have "first_authoritative_event (evs @ new) ''market_snapshot'' = Some snap" by (rule first_event.sel_final)
  with Some assms show ?thesis
    by (auto simp: snapshot_phase_def bnd_eq_Inr dest: fle_flt_trans split: option.splits if_splits)
qed

lemma snapshot_phase_rank: "snapshot_phase cfg evs now = Inr st \<Longrightarrow> phase_rank st \<le> 2"
  by (auto simp: snapshot_phase_def bnd_eq_Inr split: option.splits if_splits)

text \<open>The status after the creation event has been found, and where a terminal status comes from.\<close>

definition created :: "pydict list \<Rightarrow> bool" where
  "created evs \<longleftrightarrow> (\<exists>c. first_authoritative_event evs ''prediction_create'' = Some c \<and> has_valid_ordering c)"

definition terminal_outcome :: "pydict list \<Rightarrow> market_status option" where
  "terminal_outcome evs = (case first_authoritative_event evs ''resolution_finalize'' of
     Some f \<Rightarrow> if has_valid_ordering f then Some (if get (payload f) ''outcome'' = PStr ''invalid'' then INVALID else FINAL) else None
   | None \<Rightarrow> None)"

lemma status_cases:
  "compute_market_status cfg m chain now =
     (if created (events_for_market m chain)
      then (case terminal_outcome (events_for_market m chain) of
          Some st \<Rightarrow> Inr st | None \<Rightarrow> snapshot_phase cfg (events_for_market m chain) now)
      else Inr PREDICTING)"
  by (auto simp: compute_market_status_def created_def terminal_outcome_def Let_def first_authoritative_event_def split: option.splits)

lemma created_append: "created evs \<Longrightarrow> created (evs @ new)"
  unfolding created_def using first_event.sel_final by blast

lemma terminal_append: "terminal_outcome evs = Some st \<Longrightarrow> terminal_outcome (evs @ new) = Some st"
  unfolding terminal_outcome_def using first_event.sel_final
  by (fastforce split: option.splits if_splits)

lemma terminal_ranked: "terminal_outcome evs = Some st \<Longrightarrow> st \<in> {FINAL, INVALID}"
  by (auto simp: terminal_outcome_def split: option.splits if_splits)

lemma status_terminal:
  "compute_market_status cfg m chain now = Inr st \<Longrightarrow> st \<in> {FINAL, INVALID} \<longleftrightarrow>
     created (events_for_market m chain) \<and> terminal_outcome (events_for_market m chain) = Some st"
  using snapshot_phase_rank [of cfg "events_for_market m chain" now st]
  by (auto simp: status_cases split: if_splits option.splits dest: terminal_ranked)

text \<open>When an advance is proposed.\<close>

lemma advance_cases:
  assumes "should_advance_phase cfg m chain now = Inr (Some (a, b))"
  shows "created (events_for_market m chain)
    \<and> first_authoritative_event (events_for_market m chain) ''resolution_finalize'' = None
    \<and> (((a, b) = (PREDICTING, EVIDENCE) \<and> first_authoritative_event (events_for_market m chain) ''market_snapshot'' = None
         \<and> (\<exists>c t. first_authoritative_event (events_for_market m chain) ''prediction_create'' = Some c
              \<and> finite_float (get (payload c) ''trigger_date'') = Some t \<and> fle t now))
      \<or> ((a, b) \<in> {(EVIDENCE, RESOLVING), (RESOLVING, FINAL)}
         \<and> (\<exists>sn ts ec. first_authoritative_event (events_for_market m chain) ''market_snapshot'' = Some sn
              \<and> snapshot_time sn = Some ts \<and> evidence_close_at cfg ts = Inr ec \<and> \<not> flt now ec)))"
proof -
  let ?e = "events_for_market m chain"
  from assms obtain c where c: "first_authoritative_event ?e ''prediction_create'' = Some c" "has_valid_ordering c"
    and fin: "first_authoritative_event ?e ''resolution_finalize'' = None"
    by (auto simp: should_advance_phase_def Let_def split: option.splits if_splits)
  then have "?e \<noteq> []" by (auto simp: first_authoritative_event_def)
  with assms c fin show ?thesis
    by (auto simp: should_advance_phase_def created_def Let_def bnd_eq_Inr split: option.splits if_splits)
qed

subsection \<open>Properties\<close>

text \<open>
  C6: a market only moves forward. On a well-formed configuration the status is always defined, and
  appending any events to the chain at any later chain time never takes a market back to an earlier
  phase; a market that is final or invalid keeps exactly that status.
\<close>

theorem status_forward:
  assumes "config_ok cfg" and "fle now now'"
  shows "\<exists>st st'. compute_market_status cfg m chain now = Inr st
    \<and> compute_market_status cfg m (chain @ new) now' = Inr st'
    \<and> phase_rank st \<le> phase_rank st' \<and> (st \<in> {FINAL, INVALID} \<longrightarrow> st' = st)"
proof -
  let ?e = "events_for_market m chain" and ?n = "events_for_market m new"
  obtain st st' where st: "compute_market_status cfg m chain now = Inr st"
    and st': "compute_market_status cfg m (chain @ new) now' = Inr st'"
    using status_total [OF assms(1)] by meson
  have fin: "st' = st" if "st \<in> {FINAL, INVALID}"
    using status_terminal [OF st] that st' created_append [of ?e ?n] terminal_append [of ?e st ?n]
    by (simp add: status_cases)
  have "phase_rank st \<le> phase_rank st'" if nt: "st \<notin> {FINAL, INVALID}"
  proof (cases "created ?e")
    case True
    then have c: "created (?e @ ?n)" by (rule created_append)
    have "terminal_outcome ?e = None" and ph: "snapshot_phase cfg ?e now = Inr st"
      using st nt True by (auto simp: status_cases dest: terminal_ranked split: option.splits)
    show ?thesis
    proof (cases "terminal_outcome (?e @ ?n)")
      case None
      then have "snapshot_phase cfg (?e @ ?n) now' = Inr st'" using st' c by (simp add: status_cases)
      with ph show ?thesis using assms(2) by (rule snapshot_phase_mono)
    next
      case (Some t)
      then have "phase_rank st' = 3" using st' c terminal_ranked [OF Some] by (auto simp: status_cases)
      with snapshot_phase_rank [OF ph] show ?thesis by simp
    qed
  qed (use st in \<open>simp add: status_cases\<close>)
  with fin st st' show ?thesis by (cases "st \<in> {FINAL, INVALID}") auto
qed

theorem status_forward_witness:
  "\<exists>st'. compute_market_status baseline_config ''m'' ([] @ [PNone]) (Fin 5) = Inr st' \<and> phase_rank PREDICTING \<le> phase_rank st'"
proof -
  have "fle (Fin 4) (Fin 5)" by simp
  from status_forward [OF baseline_ok this, of "''m''" "[]" "[PNone]"] show ?thesis by auto
qed

text \<open>
  When the producer is told to advance. On a well-formed configuration the answer is always
  defined and is one of the three steps of the lifecycle. No step is proposed once any finalize
  event is on the chain; the step out of PREDICTING is proposed only for a market without snapshot
  whose status is PREDICTING and whose trigger date has been reached; the later two only for a
  market whose status is RESOLVING.
\<close>

theorem advance_steps:
  assumes "config_ok cfg" and "should_advance_phase cfg m chain now = Inr (Some (a, b))"
  shows "(a, b) \<in> {(PREDICTING, EVIDENCE), (EVIDENCE, RESOLVING), (RESOLVING, FINAL)}
    \<and> first_authoritative_event (events_for_market m chain) ''resolution_finalize'' = None
    \<and> (a = PREDICTING \<longrightarrow> compute_market_status cfg m chain now = Inr PREDICTING
        \<and> first_authoritative_event (events_for_market m chain) ''market_snapshot'' = None
        \<and> (\<exists>c t. first_authoritative_event (events_for_market m chain) ''prediction_create'' = Some c
              \<and> finite_float (get (payload c) ''trigger_date'') = Some t \<and> fle t now))
    \<and> (a \<noteq> PREDICTING \<longrightarrow> compute_market_status cfg m chain now = Inr RESOLVING)"
proof -
  let ?e = "events_for_market m chain"
  from advance_cases [OF assms(2)] have cr: "created ?e"
    and fin: "first_authoritative_event ?e ''resolution_finalize'' = None" by blast+
  then have st: "compute_market_status cfg m chain now = snapshot_phase cfg ?e now"
    by (simp add: status_cases terminal_outcome_def)
  from advance_cases [OF assms(2)] consider
      c t where "(a, b) = (PREDICTING, EVIDENCE)" "first_authoritative_event ?e ''market_snapshot'' = None"
        "first_authoritative_event ?e ''prediction_create'' = Some c"
        "finite_float (get (payload c) ''trigger_date'') = Some t" "fle t now"
    | sn ts ec where "(a, b) \<in> {(EVIDENCE, RESOLVING), (RESOLVING, FINAL)}"
        "first_authoritative_event ?e ''market_snapshot'' = Some sn" "snapshot_time sn = Some ts"
        "evidence_close_at cfg ts = Inr ec" "\<not> flt now ec"
    by blast
  then show ?thesis by cases (auto simp: st fin snapshot_phase_def)
qed

theorem advance_steps_witness:
  "compute_market_status baseline_config ''m''
     [PDict [(''event_type'', PStr ''prediction_create''), (''timestamp'', PInt 1), (''sequence'', PInt 1),
             (''payload'', PDict [(''market_id'', PStr ''m''), (''trigger_date'', PInt 10)])]] (Fin 10) = Inr PREDICTING"
    (is "compute_market_status _ _ ?c _ = _")
proof -
  have "should_advance_phase baseline_config ''m'' ?c (Fin 10) = Inr (Some (PREDICTING, EVIDENCE))"
    by (simp add: should_advance_phase_def events_for_market_def market_id_def payload_def first_authoritative_event_def
        ev_is_def has_valid_ordering_def finite_float_def safe_int_def)
  from advance_steps [OF baseline_ok this] show ?thesis by simp
qed

end
