(* ===== verification/Time_Validity.thy ===== *)
theory Time_Validity
  imports Event_Selection
begin

text \<open>
  \<open>services/infonet/time_validity.py\<close>: the chain's majority time, the drift check of event timestamps
  and the phase window. The main lemma bounds what a minority of nodes can do to the majority time.
\<close>

subsection \<open>The code\<close>

definition default_median_n :: int where
  "default_median_n = 11"

definition finite_timestamp :: "pyval \<Rightarrow> pyfloat option" where
  "finite_timestamp v = (case py_float v of Inl e \<Rightarrow> None | Inr t \<Rightarrow> if fisfinite t then Some t else None)"

definition timed_events :: "chain \<Rightarrow> (pyfloat \<times> pydict) list" where
  "timed_events chain = List.map_filter (\<lambda>ev. map_option (\<lambda>t. (t, ev)) (finite_timestamp (get ev ''timestamp''))) (events_of chain)"

text \<open>The loop over the events, latest first, until \<open>n\<close> distinct nodes have been seen.\<close>

fun latest_per_node :: "int \<Rightarrow> (pyfloat \<times> pydict) list \<Rightarrow> string list \<Rightarrow> pyfloat list \<Rightarrow> pyfloat list" where
  "latest_per_node n [] seen ts = ts"
| "latest_per_node n ((t, ev) # evs) seen ts = (case nonempty_str (get ev ''node_id'') of
       None \<Rightarrow> latest_per_node n evs seen ts
     | Some node \<Rightarrow>
         if node \<in> set seen then latest_per_node n evs seen ts
         else if n \<le> int (length (ts @ [t])) then ts @ [t]
         else latest_per_node n evs (set_add node seen) (ts @ [t]))"

text \<open>\<open>statistics.median\<close>\<close>

definition median :: "pyfloat list \<Rightarrow> pyfloat res" where
  "median xs =
     (let data = sort_by flt xs; k = length data in
      if k = 0 then Inl ValueError
      else if odd k then Inr (data ! (k div 2))
      else fdiv (fadd (data ! (k div 2 - 1)) (data ! (k div 2))) (Fin 2))"

definition majority_timestamps :: "chain \<Rightarrow> int \<Rightarrow> pyfloat list" where
  "majority_timestamps chain n = latest_per_node n (sort_by (\<lambda>a b. flt (fst b) (fst a)) (timed_events chain)) [] []"

definition chain_majority_time :: "chain \<Rightarrow> int \<Rightarrow> pyfloat res" where
  "chain_majority_time chain n =
     (if n \<le> 0 then Inl ValueError
      else let timestamps = majority_timestamps chain n in
        if timestamps = [] then Inr (Fin 0) else median timestamps)"

text \<open>\<open>chain\<close> and \<open>chain_time\<close> are optional arguments.\<close>

definition is_event_too_future :: "pydict \<Rightarrow> pydict \<Rightarrow> chain option \<Rightarrow> pyfloat option \<Rightarrow> bool res" where
  "is_event_too_future cfg ev chain chain_time =
     bnd (case chain_time of
         Some t \<Rightarrow> Inr t
       | None \<Rightarrow> (case chain of None \<Rightarrow> Inl ValueError | Some c \<Rightarrow> chain_majority_time c default_median_n)) (\<lambda>chain_time.
     case finite_timestamp (get ev ''timestamp'') of
       None \<Rightarrow> Inr True
     | Some ts \<Rightarrow> bnd (cfg_float cfg ''max_future_event_drift_sec'') (\<lambda>drift. Inr (flt (fadd chain_time drift) ts)))"

definition event_meets_phase_window :: "pyfloat \<Rightarrow> pyfloat \<Rightarrow> pyfloat \<Rightarrow> bool res" where
  "event_meets_phase_window event_timestamp phase_start window =
     (if flt window (Fin 0) then Inl ValueError
      else Inr (fle phase_start event_timestamp \<and> fle event_timestamp (fadd phase_start window)))"

subsection \<open>One vote per node\<close>

definition node_timestamp :: "(pyfloat \<times> pydict) list \<Rightarrow> string \<Rightarrow> pyfloat \<Rightarrow> bool" where
  "node_timestamp evs node t \<longleftrightarrow> (\<exists>ev. (t, ev) \<in> set evs \<and> get ev ''node_id'' = PStr node)"

lemma latest_per_node_votes:
  assumes "latest_per_node n evs seen ts = r" and "set (map fst votes) = set seen" "distinct (map fst votes)" "map snd votes = ts"
    and "\<forall>(node, t) \<in> set votes. node_timestamp all node t" "set evs \<subseteq> set all"
  shows "\<exists>votes'. distinct (map fst votes') \<and> map snd votes' = r \<and> (\<forall>(node, t) \<in> set votes'. node_timestamp all node t)"
  using assms
proof (induction n evs seen ts arbitrary: votes rule: latest_per_node.induct)
  case (2 n t ev evs seen ts)
  show ?case
  proof (cases "nonempty_str (get ev ''node_id'')")
    case None
    with 2 show ?thesis by simp
  next
    case (Some node)
    show ?thesis
    proof (cases "node \<in> set seen")
      case True
      with 2 Some show ?thesis by simp
    next
      case False
      let ?votes = "votes @ [(node, t)]"
      have v: "distinct (map fst ?votes)" "map snd ?votes = ts @ [t]" "set (map fst ?votes) = set (set_add node seen)"
        using 2 False by auto
      have nt: "\<forall>(node, t) \<in> set ?votes. node_timestamp all node t"
        using 2 Some by (auto simp: node_timestamp_def)
      show ?thesis
      proof (cases "n \<le> int (length (ts @ [t]))")
        case True
        then have "r = ts @ [t]" using 2 Some False by simp
        with v nt show ?thesis by blast
      next
        case f: False
        show ?thesis
          by (rule "2.IH"(3) [OF Some False f _ v(3,1,2) nt]) (use 2 Some False f in simp_all)
      qed
    qed
  qed
next
  case (1 n seen ts)
  then show ?case by (intro exI [of _ votes]) simp
qed

lemma set_timed: "(t, ev) \<in> set (timed_events chain) \<longleftrightarrow> PDict ev \<in> set chain \<and> finite_timestamp (get ev ''timestamp'') = Some t"
  by (force simp: timed_events_def map_filter_def set_events_of image_iff)

lemma majority_votes:
  "\<exists>votes. distinct (map fst votes) \<and> map snd votes = majority_timestamps chain n
    \<and> (\<forall>(node, t) \<in> set votes. \<exists>ev. PDict ev \<in> set chain \<and> get ev ''node_id'' = PStr node
          \<and> finite_timestamp (get ev ''timestamp'') = Some t)"
proof -
  have "\<exists>votes'. distinct (map fst votes') \<and> map snd votes' = majority_timestamps chain n
      \<and> (\<forall>(node, t) \<in> set votes'. node_timestamp (timed_events chain) node t)"
    by (rule latest_per_node_votes [OF majority_timestamps_def [symmetric], of "[]"]) simp_all
  then show ?thesis by (fastforce simp: node_timestamp_def set_timed)
qed

subsection \<open>The median of a majority\<close>

lemma finite_not_flt_trans: "fisfinite a \<Longrightarrow> fisfinite b \<Longrightarrow> \<not> flt b a \<Longrightarrow> \<not> flt c b \<Longrightarrow> \<not> flt c a"
  by (cases a; cases b; cases c) auto

lemma finite_weak_order: "\<forall>x \<in> set xs. fisfinite x \<Longrightarrow> sorted_wrt (\<lambda>a b. \<not> flt b a) (sort_by flt xs)"
proof (induction xs)
  case (Cons x xs)
  have ins: "sorted_wrt (\<lambda>a b. \<not> flt b a) ys \<Longrightarrow> fisfinite x \<Longrightarrow> \<forall>y \<in> set ys. fisfinite y
      \<Longrightarrow> sorted_wrt (\<lambda>a b. \<not> flt b a) (ins_by flt x ys)" for ys
    by (induction ys) (auto dest: flt_asym finite_not_flt_trans)
  show ?case using Cons by (auto intro!: ins)
qed simp

lemma sorted_nth_count_low:
  fixes P :: "pyfloat \<Rightarrow> bool"
  assumes "\<And>i j. i \<le> j \<Longrightarrow> j < length xs \<Longrightarrow> P (xs ! j) \<Longrightarrow> P (xs ! i)" and "k < length xs" "P (xs ! k)"
  shows "k + 1 \<le> length (filter P xs)"
proof -
  have "{..k} \<subseteq> {i. i < length xs \<and> P (xs ! i)}" using assms by (auto intro: le_less_trans)
  then have "card {..k} \<le> card {i. i < length xs \<and> P (xs ! i)}" by (intro card_mono) auto
  then show ?thesis by (simp add: length_filter_conv_card)
qed

lemma sorted_nth_count_high:
  fixes P :: "pyfloat \<Rightarrow> bool"
  assumes "\<And>i j. i \<le> j \<Longrightarrow> j < length xs \<Longrightarrow> P (xs ! i) \<Longrightarrow> P (xs ! j)" and "k < length xs" "P (xs ! k)"
  shows "length xs - k \<le> length (filter P xs)"
proof -
  have "{k..<length xs} \<subseteq> {i. i < length xs \<and> P (xs ! i)}" using assms by auto
  then have "card {k..<length xs} \<le> card {i. i < length xs \<and> P (xs ! i)}" by (intro card_mono) auto
  then show ?thesis by (simp add: length_filter_conv_card)
qed

lemma length_filter_sort: "length (filter P (sort_by lt xs)) = length (filter P xs)"
proof -
  have "length (filter P (ins_by lt x ys)) = length (filter P (x # ys))" for x ys by (induction ys) auto
  then show ?thesis by (induction xs) auto
qed

text \<open>
  If more than half of finitely many finite numbers lie in an interval, so do both middle elements
  of their sorted list.
\<close>

lemma middle_bounds:
  fixes lo hi :: rat
  assumes fin: "\<forall>x \<in> set xs. fisfinite x"
    and maj: "length xs < 2 * length (filter (\<lambda>x. fle (Fin lo) x \<and> fle x (Fin hi)) xs)"
    and k: "k = length xs div 2 \<or> even (length xs) \<and> k = length xs div 2 - 1"
  shows "\<exists>r. sort_by flt xs ! k = Fin r \<and> lo \<le> r \<and> r \<le> hi"
proof -
  let ?d = "sort_by flt xs" and ?in = "\<lambda>x. fle (Fin lo) x \<and> fle x (Fin hi)"
  have len: "0 < length xs" using maj by (cases xs) auto
  have "length xs div 2 < length xs" using len by simp
  with k have kl: "k < length ?d" by auto
  have srt: "sorted_wrt (\<lambda>a b. \<not> flt b a) ?d" using fin by (rule finite_weak_order)
  have finn: "fisfinite (?d ! i)" if "i < length ?d" for i using fin nth_mem [OF that] by simp
  then obtain r where r: "?d ! k = Fin r" using kl fisfinite_iff by blast
  have ord: "fle (?d ! i) (?d ! j)" if "i \<le> j" "j < length ?d" for i j
  proof (cases "i = j")
    case False
    then have "\<not> flt (?d ! j) (?d ! i)" using srt that by (auto simp: sorted_wrt_iff_nth_less)
    with finn [of i] finn [of j] that show ?thesis by (auto elim!: fisfiniteE)
  qed (use finn [of i] that in \<open>auto elim: fisfiniteE\<close>)
  have part: "length (filter ?in xs) + length (filter (\<lambda>x. \<not> ?in x) xs) = length xs"
    by (rule sum_length_filter_compl)
  have "lo \<le> r"
  proof (rule ccontr)
    assume "\<not> lo \<le> r"
    then have "\<not> fle (Fin lo) (?d ! k)" using r by simp
    moreover have "\<not> fle (Fin lo) (?d ! i)" if "i \<le> j" "j < length ?d" "\<not> fle (Fin lo) (?d ! j)" for i j
      using that ord fle_trans by blast
    ultimately have "k + 1 \<le> length (filter (\<lambda>x. \<not> fle (Fin lo) x) ?d)"
      using kl by (intro sorted_nth_count_low) auto
    also have "\<dots> \<le> length (filter (\<lambda>x. \<not> ?in x) xs)"
      unfolding length_filter_sort by (induction xs) auto
    finally show False using part maj k by auto
  qed
  moreover have "r \<le> hi"
  proof (rule ccontr)
    assume "\<not> r \<le> hi"
    then have "\<not> fle (?d ! k) (Fin hi)" using r by simp
    moreover have "\<not> fle (?d ! j) (Fin hi)" if "i \<le> j" "j < length ?d" "\<not> fle (?d ! i) (Fin hi)" for i j
      using that ord fle_trans by blast
    ultimately have "length ?d - k \<le> length (filter (\<lambda>x. \<not> fle x (Fin hi)) ?d)"
      using kl by (intro sorted_nth_count_high) auto
    also have "\<dots> \<le> length (filter (\<lambda>x. \<not> ?in x) xs)"
      unfolding length_filter_sort by (induction xs) auto
    finally show False using part maj k len by auto
  qed
  ultimately show ?thesis using r by blast
qed

text \<open>Halving the rounded sum of two numbers of an interval stays in it.\<close>

definition bound_ok :: "rat \<Rightarrow> bool" where
  "bound_ok r \<longleftrightarrow> is_double r \<and> in_range (2 * r)"

lemma bound_ok_fl: assumes "bound_ok r" shows "fl (2 * r) = Fin (2 * r)" "fl r = Fin r"
proof -
  have d: "is_double r" "in_range (2 * r)" using assms by (auto simp: bound_ok_def)
  then have "in_range r" unfolding in_range_def by linarith
  with d show "fl (2 * r) = Fin (2 * r)" "fl r = Fin r"
    unfolding in_range_def by (blast intro: fl_exact is_double_twice)+
qed

lemma bound_ok_int: "\<bar>n\<bar> \<le> 2 ^ 53 \<Longrightarrow> bound_ok (of_int n)"
proof -
  assume n: "\<bar>n\<bar> \<le> 2 ^ 53"
  then have "\<bar>of_int n :: rat\<bar> \<le> 2 ^ 53"
    by (metis of_int_abs of_int_le_iff of_int_numeral of_int_power)
  also have "(2 :: rat) ^ 53 < 2 ^ 1023" by (rule power_strict_increasing) simp_all
  finally have "\<bar>2 * (of_int n :: rat)\<bar> < 2 * 2 ^ 1023" by simp
  also have "\<dots> = (2 :: rat) ^ Suc 1023" by (rule power_Suc [symmetric])
  also have "Suc 1023 = 1024" by simp
  finally show ?thesis using n by (simp only: bound_ok_def in_range_def is_double_of_int)
qed

lemma average_bounds:
  assumes "bound_ok lo" "bound_ok hi" "lo \<le> a" "a \<le> hi" "lo \<le> b" "b \<le> hi"
  shows "\<exists>r. fdiv (fadd (Fin a) (Fin b)) (Fin 2) = Inr (Fin r) \<and> lo \<le> r \<and> r \<le> hi"
proof -
  have s: "fle (Fin (2 * lo)) (fl (a + b))" "fle (fl (a + b)) (Fin (2 * hi))"
    using fl_mono [of "2 * lo" "a + b"] fl_mono [of "a + b" "2 * hi"] assms bound_ok_fl by auto
  then obtain x where x: "fl (a + b) = Fin x" by (cases "fl (a + b)") auto
  with s have "fle (Fin lo) (fl (x / 2))" "fle (fl (x / 2)) (Fin hi)"
    using fl_mono [of lo "x / 2"] fl_mono [of "x / 2" hi] bound_ok_fl assms by auto
  then obtain r where "fl (x / 2) = Fin r" "lo \<le> r" "r \<le> hi" by (cases "fl (x / 2)") auto
  then show ?thesis by (simp add: x)
qed

lemma finite_timestamp_finite: "finite_timestamp v = Some t \<Longrightarrow> fisfinite t"
  by (auto simp: finite_timestamp_def split: sum.splits if_splits)

lemma median_majority:
  assumes "\<forall>x \<in> set xs. fisfinite x" "bound_ok lo" "bound_ok hi"
    and maj: "length xs < 2 * length (filter (\<lambda>x. fle (Fin lo) x \<and> fle x (Fin hi)) xs)"
  shows "\<exists>r. median xs = Inr (Fin r) \<and> lo \<le> r \<and> r \<le> hi"
proof -
  have len: "length xs \<noteq> 0" using maj by (cases xs) auto
  obtain r where r: "sort_by flt xs ! (length xs div 2) = Fin r" "lo \<le> r" "r \<le> hi"
    using middle_bounds [OF assms(1) maj] by blast
  show ?thesis
  proof (cases "odd (length xs)")
    case True
    with len r show ?thesis by (auto simp: median_def Let_def)
  next
    case False
    then obtain r' where r': "sort_by flt xs ! (length xs div 2 - 1) = Fin r'" "lo \<le> r'" "r' \<le> hi"
      using middle_bounds [OF assms(1) maj, of "length xs div 2 - 1"] by blast
    have "median xs = fdiv (fadd (Fin r') (Fin r)) (Fin 2)" using len False r r' by (simp add: median_def Let_def del: fadd.simps fdiv.simps)
    with average_bounds [OF assms(2,3) r'(2,3) r(2,3)] show ?thesis by simp
  qed
qed

subsection \<open>Properties\<close>

text \<open>
  C8: no minority moves the chain's time. Suppose every usable timestamp of the nodes outside a set B
  lies between \<open>lo\<close> and \<open>hi\<close>. If B is smaller than half of the nodes that the majority time is
  taken over, the majority time lies between \<open>lo\<close> and \<open>hi\<close> as well, whatever events the nodes
  of B put on the chain.
\<close>

theorem majority_time_robust:
  assumes "0 < n" "bound_ok lo" "bound_ok hi" and "finite B"
    and honest: "\<And>ev node t. PDict ev \<in> set chain \<Longrightarrow> get ev ''node_id'' = PStr node \<Longrightarrow> node \<notin> B
        \<Longrightarrow> finite_timestamp (get ev ''timestamp'') = Some t \<Longrightarrow> fle (Fin lo) t \<and> fle t (Fin hi)"
    and minority: "2 * card B < length (majority_timestamps chain n)"
  shows "\<exists>r. chain_majority_time chain n = Inr (Fin r) \<and> lo \<le> r \<and> r \<le> hi"
proof -
  let ?ts = "majority_timestamps chain n" and ?in = "\<lambda>x. fle (Fin lo) x \<and> fle x (Fin hi)"
  obtain votes where v: "distinct (map fst votes)" "map snd votes = ?ts"
    and node: "\<forall>(node, t) \<in> set votes. \<exists>ev. PDict ev \<in> set chain \<and> get ev ''node_id'' = PStr node
          \<and> finite_timestamp (get ev ''timestamp'') = Some t"
    using majority_votes by blast
  have vote: "\<exists>ev. PDict ev \<in> set chain \<and> get ev ''node_id'' = PStr (fst v) \<and> finite_timestamp (get ev ''timestamp'') = Some (snd v)"
    if "v \<in> set votes" for v using bspec [OF node that] by (simp add: split_beta)
  have "fisfinite (snd v)" if "v \<in> set votes" for v
    using vote [OF that] finite_timestamp_finite by blast
  then have fin: "\<forall>x \<in> set ?ts. fisfinite x" unfolding v(2) [symmetric] by simp
  have bad: "fst v \<in> B" if "v \<in> set votes" "\<not> ?in (snd v)" for v
    using vote [OF that(1)] that(2) honest by metis
  have "length (filter (\<lambda>v. \<not> ?in (snd v)) votes) = card (fst ` set (filter (\<lambda>v. \<not> ?in (snd v)) votes))"
    using v(1) distinct_card [of "map fst (filter (\<lambda>v. \<not> ?in (snd v)) votes)"] by (simp add: distinct_map_filter)
  also have "\<dots> \<le> card B" using bad by (intro card_mono assms(4)) auto
  finally have few: "length (filter (\<lambda>v. \<not> ?in (snd v)) votes) \<le> card B" .
  have "filter (\<lambda>x. \<not> ?in x) ?ts = map snd (filter (\<lambda>v. \<not> ?in (snd v)) votes)"
    unfolding v(2) [symmetric] filter_map o_def ..
  then have "length (filter (\<lambda>x. \<not> ?in x) ?ts) \<le> card B" using few by (simp only: length_map)
  moreover have "length (filter ?in ?ts) + length (filter (\<lambda>x. \<not> ?in x) ?ts) = length ?ts"
    by (rule sum_length_filter_compl)
  ultimately have "length ?ts < 2 * length (filter ?in ?ts)" using minority by linarith
  then have "\<exists>r. median ?ts = Inr (Fin r) \<and> lo \<le> r \<and> r \<le> hi" by (rule median_majority [OF fin assms(2,3)])
  moreover have "?ts \<noteq> []" using minority by auto
  ultimately show ?thesis using assms(1) by (simp add: chain_majority_time_def)
qed

theorem majority_time_robust_witness:
  "\<exists>r. chain_majority_time [PDict [(''node_id'', PStr ''a''), (''timestamp'', PInt 100)],
      PDict [(''node_id'', PStr ''evil''), (''timestamp'', PInt 900000)],
      PDict [(''node_id'', PStr ''b''), (''timestamp'', PInt 101)]] 11 = Inr (Fin r) \<and> 100 \<le> r \<and> r \<le> 101"
    (is "\<exists>r. chain_majority_time ?c 11 = _ \<and> _ \<and> _")
proof (rule majority_time_robust [where B = "{''evil''}"])
  show "bound_ok 100" "bound_ok 101" using bound_ok_int [of 100] bound_ok_int [of 101] by simp_all
  show "2 * card {''evil''} < length (majority_timestamps ?c 11)"
    by (simp add: majority_timestamps_def timed_events_def map_filter_def finite_timestamp_def)
  show "fle (Fin 100) t \<and> fle t (Fin 101)" if "PDict ev \<in> set ?c" "get ev ''node_id'' = PStr node" "node \<notin> {''evil''}"
    "finite_timestamp (get ev ''timestamp'') = Some t" for ev node t
    using that by (auto simp: finite_timestamp_def)
qed simp_all

text \<open>
  The drift check fails closed. Against a known chain time on a well-formed configuration it never
  raises; it reports every event without a usable timestamp, and an event with one exactly when the
  timestamp exceeds the chain time plus the configured drift.
\<close>

theorem drift_check:
  assumes "config_ok cfg"
  shows "\<exists>drift. cfg_float cfg ''max_future_event_drift_sec'' = Inr (Fin (of_int drift)) \<and> 10 \<le> drift
    \<and> is_event_too_future cfg ev chain (Some now) = Inr (case finite_timestamp (get ev ''timestamp'') of
         None \<Rightarrow> True | Some ts \<Rightarrow> flt (fadd now (Fin (of_int drift))) ts)"
proof -
  obtain n where "cfg_float cfg ''max_future_event_drift_sec'' = Inr (Fin (of_int n))" "10 \<le> n"
    using read_max_future_event_drift_sec [OF assms] by auto
  then show ?thesis by (intro exI [of _ n]) (simp add: is_event_too_future_def split: option.splits)
qed

theorem drift_check_witness:
  "is_event_too_future baseline_config [(''timestamp'', PList [])] None (Some (Fin 10)) = Inr True"
proof -
  have "finite_timestamp (PList []) = None" by (simp add: finite_timestamp_def)
  then show ?thesis using drift_check [OF baseline_ok, of "[(''timestamp'', PList [])]" None "Fin 10"] by auto
qed

end
