(* ===== verification/Snapshot.thy ===== *)
theory Snapshot
  imports Lifecycle
begin

text \<open>
  \<open>services/infonet/markets/snapshot.py\<close>: the frozen state of a market at the end of prediction, and
  the lookup of the authoritative snapshot.
\<close>

subsection \<open>The code\<close>

text \<open>The weight and the staked amount of a prediction; \<open>None\<close> where the loop skips it.\<close>

definition prediction_weight :: "pyval \<Rightarrow> (pyfloat \<times> pyfloat) option" where
  "prediction_weight stake =
     (if stake = PNone then Some (Fin 1, Fin 0)
      else case finite_float stake of
          None \<Rightarrow> None
        | Some x \<Rightarrow> if fle x (Fin 0) then None else Some (x, x))"

text \<open>The guards of one round of the loop: the node, the side and the weights of a counted prediction.\<close>

definition counted_prediction :: "pydict \<Rightarrow> (string \<times> string \<times> pyfloat \<times> pyfloat) option" where
  "counted_prediction ev =
     (if \<not> ev_is ''prediction_place'' ev then None
      else case nonempty_str (get ev ''node_id'') of
          None \<Rightarrow> None
        | Some node \<Rightarrow>
            let side = get (payload ev) ''side'' in
            if \<not> in_strs side [''yes'', ''no''] then None
            else case prediction_weight (get (payload ev) ''stake_amount'') of
                None \<Rightarrow> None
              | Some (weight, staked) \<Rightarrow> Some (node, py_str side, weight, staked))"

record snapshot_acc =
  predictor_ids :: "string list"
  yes_weight :: pyfloat
  no_weight :: pyfloat
  total_stake :: pyfloat

definition snapshot_step :: "pydict \<Rightarrow> snapshot_acc \<Rightarrow> snapshot_acc" where
  "snapshot_step ev acc = (case counted_prediction ev of
       None \<Rightarrow> acc
     | Some (node, side, weight, staked) \<Rightarrow>
         \<lparr>predictor_ids = set_add node (predictor_ids acc),
          yes_weight = (if side = ''yes'' then fadd (yes_weight acc) weight else yes_weight acc),
          no_weight = (if side = ''yes'' then no_weight acc else fadd (no_weight acc) weight),
          total_stake = fadd (total_stake acc) staked\<rparr>)"

definition snapshot_loop :: "pydict list \<Rightarrow> snapshot_acc" where
  "snapshot_loop events = fold snapshot_step events \<lparr>predictor_ids = [], yes_weight = Fin 0, no_weight = Fin 0, total_stake = Fin 0\<rparr>"

definition build_snapshot :: "string \<Rightarrow> chain \<Rightarrow> pyval \<Rightarrow> pydict res" where
  "build_snapshot m chain frozen_at = (case finite_float frozen_at of
       None \<Rightarrow> Inl ValueError
     | Some frozen_at_value \<Rightarrow>
         let acc = snapshot_loop (events_for_market m chain);
             pool = fadd (yes_weight acc) (no_weight acc)
         in bnd (if flt (Fin 0) pool then fdiv (yes_weight acc) pool else Inr (fl (1/2))) (\<lambda>yes_p.
              let no_p = fsub (Fin 1) yes_p in
              Inr [(''market_id'', PStr m),
                   (''frozen_participant_count'', PInt (int (length (predictor_ids acc)))),
                   (''frozen_total_stake'', PFloat (total_stake acc)),
                   (''frozen_predictor_ids'', PList (map PStr (predictor_ids acc))),
                   (''frozen_probability_state'', PDict [(''yes'', PFloat yes_p), (''no'', PFloat no_p)]),
                   (''frozen_at'', PFloat frozen_at_value)]))"

definition find_snapshot :: "string \<Rightarrow> chain \<Rightarrow> pydict option res" where
  "find_snapshot m chain = (case first_authoritative_event (events_for_market m chain) ''market_snapshot'' of
       None \<Rightarrow> Inr None
     | Some snapshot \<Rightarrow> if \<not> has_valid_ordering snapshot then Inl InvalidAuthoritativeSnapshot else Inr (Some (payload snapshot)))"

subsection \<open>Lemmas\<close>

interpretation snapshots: market_view "\<lambda>m chain. (build_snapshot m chain, find_snapshot m chain)"
  by unfold_locales (simp only: build_snapshot_def [abs_def] find_snapshot_def events_for_market_idem)

lemma counted_weights:
  "counted_prediction ev = Some (node, side, w, st) \<Longrightarrow> node \<noteq> [] \<and> side \<in> {''yes'', ''no''} \<and> fpos w \<and> fnonneg st"
proof -
  assume "counted_prediction ev = Some (node, side, w, st)"
  then have "prediction_weight (get (payload ev) ''stake_amount'') = Some (w, st)"
    and "node \<noteq> []" "side \<in> {''yes'', ''no''}"
    by (auto simp: counted_prediction_def Let_def in_strs_iff split: if_splits option.splits prod.splits)
  then show ?thesis by (auto simp: prediction_weight_def fpos_def dest!: finite_float_finite split: if_splits option.splits)
qed

lemma loop_snoc: "snapshot_loop (evs @ [ev]) = snapshot_step ev (snapshot_loop evs)"
  by (simp add: snapshot_loop_def)

lemma predictor_ids_set:
  "set (predictor_ids (snapshot_loop evs)) = {n. \<exists>ev \<in> set evs. \<exists>side w st. counted_prediction ev = Some (n, side, w, st)}"
proof (induction evs rule: rev_induct)
  case (snoc ev evs)
  then show ?case by (cases "counted_prediction ev") (fastforce simp: loop_snoc snapshot_step_def)+
qed (simp add: snapshot_loop_def)

lemma predictor_ids_distinct: "distinct (predictor_ids (snapshot_loop evs))"
proof (induction evs rule: rev_induct)
  case (snoc ev evs)
  then show ?case by (simp add: loop_snoc snapshot_step_def split: option.splits)
qed (simp add: snapshot_loop_def)

text \<open>The weights and the total are nonnegative floats of the format.\<close>

lemma loop_amounts:
  "fnonneg (yes_weight (snapshot_loop evs)) \<and> fval (yes_weight (snapshot_loop evs))
   \<and> fnonneg (no_weight (snapshot_loop evs)) \<and> fval (no_weight (snapshot_loop evs))
   \<and> fnonneg (total_stake (snapshot_loop evs)) \<and> fval (total_stake (snapshot_loop evs))"
proof (induction evs rule: rev_induct)
  case (snoc ev evs)
  then show ?case
    by (auto simp: loop_snoc snapshot_step_def fadd_nonneg fpos_nonneg split: option.splits dest!: counted_weights)
qed (simp add: snapshot_loop_def)

lemma fl_half [simp]: "fl (1/2) = Fin (1/2)"
  using fl_dyadic [of 1 1] by simp

lemma half_share: "fsub (Fin 1) (Fin (1/2)) = Fin (1/2)"
  by (simp add: fsub_def)

text \<open>The two probabilities that the loop's weights give.\<close>

lemma probability_state:
  fixes acc :: snapshot_acc
  assumes "fnonneg (yes_weight acc)" "fval (yes_weight acc)" "fnonneg (no_weight acc)"
  shows "\<exists>q. (if flt (Fin 0) (fadd (yes_weight acc) (no_weight acc))
              then fdiv (yes_weight acc) (fadd (yes_weight acc) (no_weight acc)) else Inr (fl (1/2))) = Inr q
    \<and> (q = NaN \<or> fle (Fin 0) q \<and> fle q (Fin 1) \<and> fle (Fin 0) (fsub (Fin 1) q) \<and> fle (fsub (Fin 1) q) (Fin 1))"
proof (cases "flt (Fin 0) (fadd (yes_weight acc) (no_weight acc))")
  case True
  then show ?thesis using share_bounds [OF assms] one_minus_unit by (fastforce simp: fpos_def)
next
  case False
  then show ?thesis by (simp add: half_share)
qed

lemma build_snapshot_run:
  assumes "finite_float frozen_at = Some t"
  shows "\<exists>q. build_snapshot m chain frozen_at = Inr
      (let acc = snapshot_loop (events_for_market m chain) in
       [(''market_id'', PStr m),
        (''frozen_participant_count'', PInt (int (length (predictor_ids acc)))),
        (''frozen_total_stake'', PFloat (total_stake acc)),
        (''frozen_predictor_ids'', PList (map PStr (predictor_ids acc))),
        (''frozen_probability_state'', PDict [(''yes'', PFloat q), (''no'', PFloat (fsub (Fin 1) q))]),
        (''frozen_at'', PFloat t)])
    \<and> (q = NaN \<or> fle (Fin 0) q \<and> fle q (Fin 1) \<and> fle (Fin 0) (fsub (Fin 1) q) \<and> fle (fsub (Fin 1) q) (Fin 1))"
proof -
  let ?acc = "snapshot_loop (events_for_market m chain)"
  obtain q where q: "(if flt (Fin 0) (fadd (yes_weight ?acc) (no_weight ?acc))
      then fdiv (yes_weight ?acc) (fadd (yes_weight ?acc) (no_weight ?acc)) else Inr (fl (1/2))) = Inr q"
    and b: "q = NaN \<or> fle (Fin 0) q \<and> fle q (Fin 1) \<and> fle (Fin 0) (fsub (Fin 1) q) \<and> fle (fsub (Fin 1) q) (Fin 1)"
    using probability_state [of ?acc] loop_amounts by blast
  show ?thesis unfolding build_snapshot_def Let_def assms option.case q bnd_Inr using b by blast
qed

subsection \<open>Properties\<close>

text \<open>
  Whom a snapshot freezes. For a finite freeze time the snapshot exists; its predictor list holds
  exactly the nodes with a counted prediction on this market, each once, and the participant count
  is its length. Nothing that happens on other markets enters it.
\<close>

theorem snapshot_predictors:
  assumes "finite_float frozen_at = Some t"
  shows "\<exists>d ids. build_snapshot m chain frozen_at = Inr d
    \<and> get d ''frozen_predictor_ids'' = PList (map PStr ids) \<and> distinct ids
    \<and> get d ''frozen_participant_count'' = PInt (int (length ids))
    \<and> set ids = {n. \<exists>ev \<in> set (events_of chain). market_id ev = m \<and> (\<exists>side w st. counted_prediction ev = Some (n, side, w, st))}
    \<and> (events_for_market m other = [] \<longrightarrow> build_snapshot m (chain @ other) frozen_at = Inr d)"
proof -
  let ?ids = "predictor_ids (snapshot_loop (events_for_market m chain))"
  obtain q where run: "build_snapshot m chain frozen_at = Inr
       [(''market_id'', PStr m), (''frozen_participant_count'', PInt (int (length ?ids))),
        (''frozen_total_stake'', PFloat (total_stake (snapshot_loop (events_for_market m chain)))), (''frozen_predictor_ids'', PList (map PStr ?ids)),
        (''frozen_probability_state'', PDict [(''yes'', PFloat q), (''no'', PFloat (fsub (Fin 1) q))]), (''frozen_at'', PFloat t)]"
      (is "_ = Inr ?d")
    using build_snapshot_run [OF assms, of m chain] by (auto simp: Let_def)
  have ids: "set ?ids = {n. \<exists>ev \<in> set (events_of chain). market_id ev = m \<and> (\<exists>side w st. counted_prediction ev = Some (n, side, w, st))}"
    by (auto simp: predictor_ids_set events_for_market_def)
  have loc: "build_snapshot m (chain @ other) frozen_at = build_snapshot m chain frozen_at" if "events_for_market m other = []"
    using snapshots.view_insert [OF that, of chain "[]"] by simp
  show ?thesis
    using ids loc run predictor_ids_distinct [of "events_for_market m chain"]
    by (intro exI [of _ ?d] exI [of _ ?ids] conjI) simp_all
qed

theorem snapshot_predictors_witness:
  "\<exists>d. build_snapshot ''m'' [PDict [(''event_type'', PStr ''prediction_place''), (''node_id'', PStr ''a''),
       (''payload'', PDict [(''market_id'', PStr ''m''), (''side'', PStr ''yes'')])]] (PInt 5) = Inr d
     \<and> get d ''frozen_predictor_ids'' = PList [PStr ''a'']"
    (is "\<exists>d. build_snapshot _ ?c _ = _ \<and> _")
proof -
  have t: "finite_float (PInt 5) = Some (Fin 5)" by (simp add: finite_float_def)
  obtain d ids where d: "build_snapshot ''m'' ?c (PInt 5) = Inr d" "get d ''frozen_predictor_ids'' = PList (map PStr ids)" "distinct ids"
    and ids: "set ids = {n. \<exists>ev \<in> set (events_of ?c). market_id ev = ''m'' \<and> (\<exists>side w st. counted_prediction ev = Some (n, side, w, st))}"
    using snapshot_predictors [OF t, of "''m''" ?c "[]"] by blast
  have "set ids = {''a''}"
    unfolding ids by (auto simp: market_id_def payload_def counted_prediction_def ev_is_def prediction_weight_def)
  then have "ids = [''a'']" using d(3) by (cases ids) (auto simp: distinct_length_2_or_more dest: subset_singletonD)
  with d show ?thesis by auto
qed

text \<open>
  The amounts a snapshot freezes. The total stake is nonnegative; unless the weights overflow
  the format, so that the pool is infinite and its shares are not numbers, both probabilities lie
  between 0 and 1, whatever the rounding did.
\<close>

theorem snapshot_amounts:
  assumes "build_snapshot m chain frozen_at = Inr d"
  shows "\<exists>total yes no. get d ''frozen_total_stake'' = PFloat total \<and> fle (Fin 0) total
    \<and> get d ''frozen_probability_state'' = PDict [(''yes'', PFloat yes), (''no'', PFloat no)]
    \<and> (yes = NaN \<and> no = NaN \<or> fle (Fin 0) yes \<and> fle yes (Fin 1) \<and> fle (Fin 0) no \<and> fle no (Fin 1))"
proof -
  from assms obtain t where t: "finite_float frozen_at = Some t" by (auto simp: build_snapshot_def split: option.splits)
  have nan: "fsub (Fin 1) NaN = NaN" by (simp add: fsub_def)
  have "fle (Fin 0) (total_stake (snapshot_loop (events_for_market m chain)))"
    using loop_amounts by (simp add: fnonneg_def)
  with build_snapshot_run [OF t, of m chain] assms nan show ?thesis by (auto simp: Let_def)
qed

theorem snapshot_amounts_witness:
  "\<exists>total. get [(''market_id'', PStr ''m''), (''frozen_participant_count'', PInt 0), (''frozen_total_stake'', PFloat (Fin 0)),
      (''frozen_predictor_ids'', PList []), (''frozen_probability_state'', PDict [(''yes'', PFloat (Fin (1/2))), (''no'', PFloat (Fin (1/2)))]),
      (''frozen_at'', PFloat (Fin 5))] ''frozen_total_stake'' = PFloat total \<and> fle (Fin 0) total"
proof -
  have "build_snapshot ''m'' [] (PInt 5) = Inr [(''market_id'', PStr ''m''), (''frozen_participant_count'', PInt 0),
      (''frozen_total_stake'', PFloat (Fin 0)), (''frozen_predictor_ids'', PList []),
      (''frozen_probability_state'', PDict [(''yes'', PFloat (Fin (1/2))), (''no'', PFloat (Fin (1/2)))]), (''frozen_at'', PFloat (Fin 5))]"
    by (simp add: build_snapshot_def finite_float_def snapshot_loop_def half_share)
  from snapshot_amounts [OF this] show ?thesis by blast
qed

text \<open>
  C7: the commitment is made once. When a market has a first snapshot event, well-formed or not, no
  events appended later and no events of other markets change what \<open>find_snapshot\<close> returns: the
  same payload, or the same refusal.
\<close>

theorem snapshot_immutable:
  assumes "find_snapshot m chain \<noteq> Inr None"
  shows "find_snapshot m (chain @ later) = find_snapshot m chain"
proof -
  from assms obtain ev where ev: "first_authoritative_event (events_for_market m chain) ''market_snapshot'' = Some ev"
    by (auto simp: find_snapshot_def split: option.splits)
  then have "first_authoritative_event (events_for_market m (chain @ later)) ''market_snapshot'' = Some ev"
    by (simp add: first_event.sel_final)
  with ev show ?thesis by (simp add: find_snapshot_def)
qed

theorem snapshot_immutable_witness:
  "find_snapshot ''m'' ([PDict [(''event_type'', PStr ''market_snapshot''), (''payload'', PDict [(''market_id'', PStr ''m'')])]]
      @ [PDict [(''event_type'', PStr ''market_snapshot''), (''timestamp'', PInt 1), (''sequence'', PInt 1),
               (''payload'', PDict [(''market_id'', PStr ''m'')])]])
   = Inl InvalidAuthoritativeSnapshot"
proof -
  have r: "find_snapshot ''m'' [PDict [(''event_type'', PStr ''market_snapshot''), (''payload'', PDict [(''market_id'', PStr ''m'')])]]
      = Inl InvalidAuthoritativeSnapshot"
    by (simp add: find_snapshot_def events_for_market_def market_id_def payload_def first_authoritative_event_def ev_is_def
        has_valid_ordering_def finite_float_def)
  show ?thesis by (subst snapshot_immutable) (simp_all add: r)
qed

end
