(* ===== verification/Evidence.thy ===== *)
theory Evidence
  imports Snapshot
begin

text \<open>
  \<open>services/infonet/markets/evidence.py\<close>: the evidence bundles of a market. SHA-256 (of the UTF-8
  encoding of a text, in hexadecimal) and the NFC normalisation of \<open>unicodedata\<close> are parameters.
\<close>

subsection \<open>The code\<close>

record primitives =
  sha256 :: "string \<Rightarrow> string"
  nfc :: "string \<Rightarrow> string"

text \<open>An instance for examples: the hash is the text itself.\<close>

definition plain_primitives :: primitives where
  "plain_primitives = \<lparr>sha256 = (\<lambda>s. s), nfc = (\<lambda>s. s)\<rparr>"

definition normalize_utf8 :: "primitives \<Rightarrow> string \<Rightarrow> string" where
  "normalize_utf8 P s = nfc P s"

definition evidence_content_hash :: "primitives \<Rightarrow> pyval \<Rightarrow> pyval \<Rightarrow> pyval list \<Rightarrow> pyval \<Rightarrow> string res" where
  "evidence_content_hash P m claimed_outcome evidence_hashes source_description =
     (if \<not> in_strs claimed_outcome [''yes'', ''no''] then Inl ValueError
      else let sorted_hashes = sort_by str_lt (map py_str evidence_hashes) in
        Inr (sha256 P (join ''|'' [''evidence_content'', py_str m, py_str claimed_outcome, join '','' sorted_hashes,
                                   normalize_utf8 P (py_str (py_or source_description (PStr [])))])))"

definition submission_hash :: "primitives \<Rightarrow> pyval \<Rightarrow> string \<Rightarrow> pyfloat \<Rightarrow> string" where
  "submission_hash P content_hash node_id timestamp =
     sha256 P (join ''|'' [''evidence_submission'', py_str content_hash, node_id, float_repr timestamp])"

record evidence_bundle =
  eb_node_id :: string
  eb_market_id :: string
  claimed_outcome :: string
  evidence_hashes :: "string list"
  source_description :: string
  bond :: pyfloat
  eb_timestamp :: pyfloat
  eb_sequence :: int
  content_hash :: string
  eb_submission_hash :: string
  eb_first_for_side :: bool

text \<open>\<open>(float(e.get("timestamp") or 0.0), int(e.get("sequence") or 0))\<close> and the order of such pairs\<close>

definition sort_key :: "pydict \<Rightarrow> (pyfloat \<times> int) res" where
  "sort_key ev = bnd (py_float (py_or (get ev ''timestamp'') (PFloat (Fin 0)))) (\<lambda>t.
     bnd (py_int (py_or (get ev ''sequence'') (PInt 0))) (\<lambda>s. Inr (t, s)))"

text \<open>\<open>float(e.get("timestamp") or 0.0)\<close>\<close>

definition event_time :: "pydict \<Rightarrow> pyfloat res" where
  "event_time ev = py_float (py_or (get ev ''timestamp'') (PFloat (Fin 0)))"

definition key_lt :: "pyfloat \<times> int \<Rightarrow> pyfloat \<times> int \<Rightarrow> bool" where
  "key_lt a b = (if feq (fst a) (fst b) then snd a < snd b else flt (fst a) (fst b))"

text \<open>\<open>events.sort(key=...)\<close>: all keys are computed first\<close>

definition sort_events :: "pydict list \<Rightarrow> ((pyfloat \<times> int) \<times> pydict) list res" where
  "sort_events events = bnd (mapres (\<lambda>ev. bnd (sort_key ev) (\<lambda>k. Inr (k, ev))) events) (\<lambda>keyed.
     Inr (sort_by (\<lambda>a b. key_lt (fst a) (fst b)) keyed))"

definition evidence_events :: "string \<Rightarrow> chain \<Rightarrow> pydict list" where
  "evidence_events m chain =
     filter (\<lambda>ev. ev_is ''evidence_submit'' ev \<and> get (payload ev) ''market_id'' = PStr m) (events_of chain)"

text \<open>
  The state of the loop: the content hashes seen on each side, which sides have a first submitter,
  and the bundles so far. A hash from the payload may be any value; looking an unhashable one up
  raises.
\<close>

record evidence_acc =
  seen_yes :: "pyval list"
  seen_no :: "pyval list"
  first_yes :: bool
  first_no :: bool
  bundles :: "evidence_bundle list"

definition seen_on :: "string \<Rightarrow> evidence_acc \<Rightarrow> pyval list" where
  "seen_on side acc = (if side = ''yes'' then seen_yes acc else seen_no acc)"

definition first_on :: "string \<Rightarrow> evidence_acc \<Rightarrow> bool" where
  "first_on side acc = (if side = ''yes'' then first_yes acc else first_no acc)"

definition bond_value :: "pyval \<Rightarrow> pyfloat res" where
  "bond_value v = (if v = PNone then Inr (Fin 0) else catching type_or_value (py_float v) (Inr (Fin 0)))"

text \<open>The hashes of a bundle: from the payload if it has them, computed otherwise.\<close>

definition bundle_content_hash :: "primitives \<Rightarrow> string \<Rightarrow> pydict \<Rightarrow> string \<Rightarrow> pyval list \<Rightarrow> pyval \<Rightarrow> pyval res" where
  "bundle_content_hash P m p side evhashes source_desc =
     (if truthy (get p ''evidence_content_hash'') then Inr (get p ''evidence_content_hash'')
      else bnd (evidence_content_hash P (PStr m) (PStr side) (map (PStr \<circ> py_str) evhashes) (PStr (py_str source_desc)))
             (\<lambda>h. Inr (PStr h)))"

text \<open>The part of a round that reads the event: the content hash and the bundle, or \<open>None\<close> where the loop skips it.\<close>

definition read_bundle :: "primitives \<Rightarrow> string \<Rightarrow> (pyfloat \<times> int) \<times> pydict \<Rightarrow> (pyval \<times> evidence_bundle) option res" where
  "read_bundle P m = (\<lambda>((ts, sq), ev).
     let p = payload ev;
         evhashes = py_or (get p ''evidence_hashes'') (PList []);
         source_desc = py_or (get p ''source_description'') (PStr [])
     in case (nonempty_str (get ev ''node_id''), get p ''claimed_outcome'', evhashes) of
        (Some node_id, PStr side, PList hs) \<Rightarrow>
          if side \<notin> {''yes'', ''no''} then Inr None
          else bnd (bond_value (get p ''bond'')) (\<lambda>bond_f.
               bnd (bundle_content_hash P m p side hs source_desc) (\<lambda>chash.
               let shash = (if truthy (get p ''submission_hash'') then get p ''submission_hash''
                            else PStr (submission_hash P chash node_id ts))
               in Inr (Some (chash, \<lparr>eb_node_id = node_id, eb_market_id = m, claimed_outcome = side,
                         evidence_hashes = map py_str hs, source_description = py_str source_desc, bond = bond_f,
                         eb_timestamp = ts, eb_sequence = sq, content_hash = py_str chash,
                         eb_submission_hash = py_str shash, eb_first_for_side = False\<rparr>))))
      | _ \<Rightarrow> Inr None)"

text \<open>The part that decides whether the bundle is the first for its side and records it.\<close>

definition add_bundle :: "pyval \<Rightarrow> evidence_bundle \<Rightarrow> evidence_acc \<Rightarrow> evidence_acc res" where
  "add_bundle chash b acc =
     (if \<not> hashable chash then Inl TypeError
      else let side = claimed_outcome b;
               is_first = (\<not> (\<exists>h \<in> set (seen_on side acc). py_eq chash h) \<and> \<not> first_on side acc)
           in Inr \<lparr>seen_yes = (if side = ''yes'' then chash # seen_yes acc else seen_yes acc),
                   seen_no = (if side = ''yes'' then seen_no acc else chash # seen_no acc),
                   first_yes = (first_yes acc \<or> side = ''yes'' \<and> is_first),
                   first_no = (first_no acc \<or> side \<noteq> ''yes'' \<and> is_first),
                   bundles = bundles acc @ [b\<lparr>eb_first_for_side := is_first\<rparr>]\<rparr>)"

definition evidence_step :: "primitives \<Rightarrow> string \<Rightarrow> (pyfloat \<times> int) \<times> pydict \<Rightarrow> evidence_acc \<Rightarrow> evidence_acc res" where
  "evidence_step P m x acc = bnd (read_bundle P m x) (\<lambda>r. case r of None \<Rightarrow> Inr acc | Some (chash, b) \<Rightarrow> add_bundle chash b acc)"

definition collect_evidence :: "primitives \<Rightarrow> string \<Rightarrow> chain \<Rightarrow> evidence_bundle list res" where
  "collect_evidence P m chain =
     bnd (sort_events (evidence_events m chain)) (\<lambda>sorted.
     bnd (foldres (evidence_step P m) sorted \<lparr>seen_yes = [], seen_no = [], first_yes = False, first_no = False, bundles = []\<rparr>)
       (\<lambda>acc. Inr (bundles acc)))"

definition is_first_for_side :: "primitives \<Rightarrow> string \<Rightarrow> string \<Rightarrow> string \<Rightarrow> chain \<Rightarrow> bool res" where
  "is_first_for_side P m side candidate_content_hash chain =
     (if side \<notin> {''yes'', ''no''} then Inr False
      else bnd (collect_evidence P m chain) (\<lambda>bs. Inr (\<not> (\<exists>b \<in> set bs. claimed_outcome b = side))))"

subsection \<open>Lemmas\<close>

text \<open>At most one bundle per side is the first for it, and it is the first bundle of the side.\<close>

definition firsts_ok :: "evidence_bundle list \<Rightarrow> bool" where
  "firsts_ok bs \<longleftrightarrow> (\<forall>i < length bs. eb_first_for_side (bs ! i) \<longleftrightarrow> (\<forall>j < i. claimed_outcome (bs ! j) \<noteq> claimed_outcome (bs ! i)))"

lemma firsts_ok_snoc:
  "firsts_ok (bs @ [b]) \<longleftrightarrow> firsts_ok bs \<and> (eb_first_for_side b \<longleftrightarrow> (\<forall>c \<in> set bs. claimed_outcome c \<noteq> claimed_outcome b))"
proof -
  have "(\<forall>j < length bs. claimed_outcome (bs ! j) \<noteq> claimed_outcome b) \<longleftrightarrow> (\<forall>c \<in> set bs. claimed_outcome c \<noteq> claimed_outcome b)"
    by (metis in_set_conv_nth)
  then show ?thesis by (auto simp: firsts_ok_def nth_append less_Suc_eq)
qed

definition evidence_inv :: "evidence_acc \<Rightarrow> bool" where
  "evidence_inv acc \<longleftrightarrow> firsts_ok (bundles acc)
     \<and> (\<forall>b \<in> set (bundles acc). claimed_outcome b \<in> {''yes'', ''no''} \<and> eb_node_id b \<noteq> [])
     \<and> (\<forall>side \<in> {''yes'', ''no''}. first_on side acc \<longleftrightarrow> (\<exists>b \<in> set (bundles acc). claimed_outcome b = side))
     \<and> (\<forall>side \<in> {''yes'', ''no''}. seen_on side acc \<noteq> [] \<longrightarrow> first_on side acc)"

lemma read_bundle_Some:
  "read_bundle P m x = Inr (Some (chash, b)) \<Longrightarrow> claimed_outcome b \<in> {''yes'', ''no''} \<and> eb_node_id b \<noteq> []"
  by (cases x) (auto simp: read_bundle_def Let_def bnd_eq_Inr split: option.splits pyval.splits if_splits)

lemma add_bundle_inv:
  assumes "evidence_inv acc" "add_bundle chash b acc = Inr acc'"
    and b: "claimed_outcome b \<in> {''yes'', ''no''}" "eb_node_id b \<noteq> []"
  shows "evidence_inv acc'"
proof -
  let ?side = "claimed_outcome b"
  let ?first = "\<not> (\<exists>h \<in> set (seen_on ?side acc). py_eq chash h) \<and> \<not> first_on ?side acc"
  have inv: "firsts_ok (bundles acc)" "\<forall>b \<in> set (bundles acc). claimed_outcome b \<in> {''yes'', ''no''} \<and> eb_node_id b \<noteq> []"
    "first_on s acc \<longleftrightarrow> (\<exists>b \<in> set (bundles acc). claimed_outcome b = s)" "seen_on s acc \<noteq> [] \<longrightarrow> first_on s acc"
    if "s \<in> {''yes'', ''no''}" for s using assms(1) that unfolding evidence_inv_def by blast+
  have first: "?first \<longleftrightarrow> \<not> first_on ?side acc" using inv(4) [OF b(1)] by (cases "seen_on ?side acc") auto
  have acc': "acc' = \<lparr>seen_yes = (if ?side = ''yes'' then chash # seen_yes acc else seen_yes acc),
                   seen_no = (if ?side = ''yes'' then seen_no acc else chash # seen_no acc),
                   first_yes = (first_yes acc \<or> ?side = ''yes'' \<and> \<not> first_on ?side acc),
                   first_no = (first_no acc \<or> ?side \<noteq> ''yes'' \<and> \<not> first_on ?side acc),
                   bundles = bundles acc @ [b\<lparr>eb_first_for_side := \<not> first_on ?side acc\<rparr>]\<rparr>"
    using assms(2) unfolding add_bundle_def Let_def first by (simp split: if_splits)
  have "firsts_ok (bundles acc')"
    unfolding acc' evidence_acc.simps firsts_ok_snoc using inv(1) [OF b(1)] inv(3) [OF b(1)] by auto
  moreover have "first_on s acc' \<longleftrightarrow> (\<exists>b \<in> set (bundles acc'). claimed_outcome b = s)" if "s \<in> {''yes'', ''no''}" for s
    using inv(3) [OF that] b(1) that by (auto simp: acc' first_on_def)
  moreover have "seen_on s acc' \<noteq> [] \<longrightarrow> first_on s acc'" if "s \<in> {''yes'', ''no''}" for s
    using inv(4) [OF that] b(1) that by (auto simp: acc' first_on_def seen_on_def)
  moreover have "\<forall>b \<in> set (bundles acc'). claimed_outcome b \<in> {''yes'', ''no''} \<and> eb_node_id b \<noteq> []"
    using inv(2) [OF b(1)] b by (simp add: acc')
  ultimately show ?thesis unfolding evidence_inv_def by blast
qed

lemma evidence_step_inv: "evidence_step P m x acc = Inr acc' \<Longrightarrow> evidence_inv acc \<Longrightarrow> evidence_inv acc'"
  by (auto simp: evidence_step_def bnd_eq_Inr split: option.splits dest!: read_bundle_Some intro: add_bundle_inv)

lemma collect_evidence_inv:
  assumes "collect_evidence P m chain = Inr bs"
  shows "firsts_ok bs \<and> (\<forall>b \<in> set bs. claimed_outcome b \<in> {''yes'', ''no''} \<and> eb_node_id b \<noteq> [])"
proof -
  from assms obtain sorted acc where f: "foldres (evidence_step P m) sorted
      \<lparr>seen_yes = [], seen_no = [], first_yes = False, first_no = False, bundles = []\<rparr> = Inr acc" and bs: "bs = bundles acc"
    by (auto simp: collect_evidence_def bnd_eq_Inr)
  have "evidence_inv acc"
  proof (rule foldres_invariant [OF f])
    show "evidence_inv \<lparr>seen_yes = [], seen_no = [], first_yes = False, first_no = False, bundles = []\<rparr>"
      by (simp add: evidence_inv_def firsts_ok_def first_on_def seen_on_def)
  qed (rule evidence_step_inv)
  then show ?thesis by (simp add: bs evidence_inv_def)
qed

end
