(* ===== verification/Identity_Rotation.thy ===== *)
theory Identity_Rotation
  imports Event_Selection
begin

text \<open>
  \<open>services/infonet/identity_rotation.py\<close>: which open stakes block the rotation of an identity, and
  the identities that descend from one. A set is a list; the descendants are computed with an
  explicit stack, whose top is the head here and the end of the list in the code.
\<close>

subsection \<open>Open obligations\<close>

record rotation_blocker =
  kind :: string
  count :: nat
  sample_ids :: "string list"

record rotation_decision =
  accepted :: bool
  blockers :: "rotation_blocker list"

definition market_status_lookup :: "pydict list \<Rightarrow> (string \<times> string) list" where
  "market_status_lookup events = fold (\<lambda>ev status.
     if \<not> ev_is ''resolution_finalize'' ev then status
     else case nonempty_str (get (payload ev) ''market_id'') of
         None \<Rightarrow> status
       | Some mid \<Rightarrow> AList.update mid (if get (payload ev) ''outcome'' = PStr ''invalid'' then ''invalid'' else ''final'') status) events []"

definition dispute_status_lookup :: "pydict list \<Rightarrow> (string \<times> string) list" where
  "dispute_status_lookup events = fold (\<lambda>ev status.
     if \<not> ev_is ''dispute_resolve'' ev then status
     else case nonempty_str (get (payload ev) ''dispute_id'') of
         None \<Rightarrow> status
       | Some did \<Rightarrow> AList.update did ''resolved'' status) events []"

definition truth_stake_resolved_messages :: "pydict list \<Rightarrow> string list" where
  "truth_stake_resolved_messages events = fold (\<lambda>ev resolved.
     if \<not> ev_is ''truth_stake_resolve'' ev then resolved
     else case nonempty_str (get (payload ev) ''message_id'') of
         None \<Rightarrow> resolved
       | Some mid \<Rightarrow> set_add mid resolved) events []"

text \<open>The first two loops: the ids named by the node's stake events that have no terminal status.\<close>

definition open_stake :: "string \<Rightarrow> string \<Rightarrow> string \<Rightarrow> (string \<times> string) list \<Rightarrow> pydict \<Rightarrow> string option" where
  "open_stake et id_key node status ev =
     (if \<not> ev_is et ev then None
      else if get ev ''node_id'' \<noteq> PStr node then None
      else case nonempty_str (get (payload ev) id_key) of
          None \<Rightarrow> None
        | Some i \<Rightarrow> if map_of status i = None then Some i else None)"

definition active_resolution_stakes :: "string \<Rightarrow> pydict list \<Rightarrow> string list" where
  "active_resolution_stakes node events =
     List.map_filter (open_stake ''resolution_stake'' ''market_id'' node (market_status_lookup events)) events"

definition active_dispute_stakes :: "string \<Rightarrow> pydict list \<Rightarrow> string list" where
  "active_dispute_stakes node events =
     List.map_filter (open_stake ''dispute_stake'' ''dispute_id'' node (dispute_status_lookup events)) events"

text \<open>
  When a truth stake expires. \<open>except (TypeError, ValueError)\<close> skips the event; an
  \<open>OverflowError\<close>, from an int too large for a float or from an infinite duration, escapes.
\<close>

definition truth_stake_expiry :: "pydict \<Rightarrow> pyfloat option res" where
  "truth_stake_expiry ev =
     bnd (catching type_or_value
            (bnd (py_float (py_or (get ev ''timestamp'') (PFloat (Fin 0)))) (\<lambda>placed_at.
             bnd (py_int (py_or (get (payload ev) ''duration_days'') (PInt 0))) (\<lambda>duration_days.
               Inr (Some (placed_at, duration_days))))) (Inr None))
       (\<lambda>r. case r of
          None \<Rightarrow> Inr None
        | Some (placed_at, duration_days) \<Rightarrow>
            bnd (float_of_int duration_days) (\<lambda>d. Inr (Some (fadd placed_at (fmul d (Fin 86400))))))"

definition truth_stake_step :: "string \<Rightarrow> string list \<Rightarrow> pyfloat \<Rightarrow> pydict \<Rightarrow> string list \<Rightarrow> string list res" where
  "truth_stake_step node resolved now ev out =
     (if \<not> ev_is ''truth_stake_place'' ev then Inr out
      else if get ev ''node_id'' \<noteq> PStr node then Inr out
      else case nonempty_str (get (payload ev) ''message_id'') of
          None \<Rightarrow> Inr out
        | Some mid \<Rightarrow>
            if mid \<in> set resolved then Inr out
            else bnd (truth_stake_expiry ev) (\<lambda>r. case r of
                None \<Rightarrow> Inr out
              | Some expires_at \<Rightarrow> Inr (if flt now expires_at then out @ [mid] else out)))"

definition active_truth_stakes :: "string \<Rightarrow> pydict list \<Rightarrow> pyfloat \<Rightarrow> string list res" where
  "active_truth_stakes node events now = foldres (truth_stake_step node (truth_stake_resolved_messages events) now) events []"

definition blocker :: "string \<Rightarrow> string list \<Rightarrow> rotation_blocker list" where
  "blocker k ids = (if ids = [] then [] else [\<lparr>kind = k, count = length ids, sample_ids = take 5 ids\<rparr>])"

definition validate_rotation :: "pydict \<Rightarrow> chain \<Rightarrow> pyfloat \<Rightarrow> rotation_decision res" where
  "validate_rotation rotation_event chain now =
     (if \<not> ev_is ''identity_rotate'' rotation_event then Inl ValueError
      else case nonempty_str (get (payload rotation_event) ''old_node_id'') of
          None \<Rightarrow> Inl ValueError
        | Some old \<Rightarrow>
            let events = events_of chain in
            bnd (active_truth_stakes old events now) (\<lambda>tru.
              let bs = blocker ''resolution_stake'' (active_resolution_stakes old events)
                     @ blocker ''dispute_stake'' (active_dispute_stakes old events)
                     @ blocker ''truth_stake'' tru
              in Inr \<lparr>accepted = (bs = []), blockers = bs\<rparr>))"

subsection \<open>Descendants\<close>

definition rotation_edge :: "pydict \<Rightarrow> (string \<times> string) option" where
  "rotation_edge ev =
     (if \<not> ev_is ''identity_rotate'' ev then None
      else case (nonempty_str (get (payload ev) ''old_node_id''), nonempty_str (get ev ''node_id'')) of
          (Some old, Some new) \<Rightarrow> if old = new then None else Some (old, new)
        | _ \<Rightarrow> None)"

text \<open>\<open>forward.setdefault(old, set()).add(new)\<close> over the events\<close>

definition forward_map :: "pydict list \<Rightarrow> (string \<times> string list) list" where
  "forward_map events = fold (\<lambda>ev fwd. case rotation_edge ev of
       None \<Rightarrow> fwd
     | Some (old, new) \<Rightarrow> AList.update old (set_add new (dict_get fwd old [])) fwd) events []"

text \<open>The loop ends because each pop shortens the stack or moves a node to \<open>out\<close>.\<close>

definition targets :: "(string \<times> string list) list \<Rightarrow> string set" where
  "targets fwd = (\<Union>(k, ns) \<in> set fwd. set ns)"

lemma finite_targets [simp]: "finite (targets fwd)"
  by (auto simp: targets_def)

lemma targets_get: "set (dict_get fwd k []) \<subseteq> targets fwd"
proof (cases "map_of fwd k")
  case (Some ns)
  then show ?thesis using map_of_SomeD [OF Some] by (force simp: dict_get_def targets_def)
qed (simp add: dict_get_def)

function descend :: "(string \<times> string list) list \<Rightarrow> string list \<Rightarrow> string list \<Rightarrow> string list" where
  "descend fwd [] out = out"
| "descend fwd (cur # stack) out =
     (if cur \<in> set out then descend fwd stack out
      else descend fwd (rev (filter (\<lambda>n. n \<notin> set (set_add cur out)) (dict_get fwd cur [])) @ stack) (set_add cur out))"
  by pat_completeness auto

termination
proof (relation "inv_image (less_than <*lex*> less_than) (\<lambda>(fwd, stack, out). (card ((set stack \<union> targets fwd) - set out), length stack))")
  fix fwd :: "(string \<times> string list) list" and cur :: string and stack out
  assume "cur \<in> set out"
  then have "(set (cur # stack) \<union> targets fwd) - set out = (set stack \<union> targets fwd) - set out" by auto
  then show "((fwd, stack, out), fwd, cur # stack, out)
      \<in> inv_image (less_than <*lex*> less_than) (\<lambda>(fwd, stack, out). (card ((set stack \<union> targets fwd) - set out), length stack))"
    by simp
next
  fix fwd :: "(string \<times> string list) list" and cur :: string and stack out
  assume new: "cur \<notin> set out"
  let ?stack = "rev (filter (\<lambda>n. n \<notin> set (set_add cur out)) (dict_get fwd cur [])) @ stack"
  have "(set ?stack \<union> targets fwd) - set (set_add cur out) \<subset> (set (cur # stack) \<union> targets fwd) - set out"
    using targets_get [of fwd cur] new by auto
  then have "card ((set ?stack \<union> targets fwd) - set (set_add cur out)) < card ((set (cur # stack) \<union> targets fwd) - set out)"
    by (intro psubset_card_mono) auto
  then show "((fwd, ?stack, set_add cur out), fwd, cur # stack, out)
      \<in> inv_image (less_than <*lex*> less_than) (\<lambda>(fwd, stack, out). (card ((set stack \<union> targets fwd) - set out), length stack))"
    by simp
qed (auto intro!: wf_inv_image wf_lex_prod)

definition rotation_descendants :: "string \<Rightarrow> chain \<Rightarrow> string list" where
  "rotation_descendants node chain =
     (let fwd = forward_map (events_of chain) in descend fwd (rev (dict_get fwd node [])) [])"

subsection \<open>The descendants are the transitive closure\<close>

definition rotations :: "pydict list \<Rightarrow> (string \<times> string) set" where
  "rotations events = {e. \<exists>ev \<in> set events. rotation_edge ev = Some e}"

definition edges :: "(string \<times> string list) list \<Rightarrow> (string \<times> string) set" where
  "edges fwd = {(a, b). b \<in> set (dict_get fwd a [])}"

lemma edges_forward: "edges (forward_map events) = rotations events"
proof (induction events rule: rev_induct)
  case (snoc ev evs)
  have step: "forward_map (evs @ [ev]) = (case rotation_edge ev of None \<Rightarrow> forward_map evs
      | Some (old, new) \<Rightarrow> AList.update old (set_add new (dict_get (forward_map evs) old [])) (forward_map evs))"
    unfolding forward_map_def by (simp split: option.split)
  show ?case
  proof (cases "rotation_edge ev")
    case None
    with snoc show ?thesis by (auto simp: step rotations_def)
  next
    case (Some e)
    obtain a b where e: "e = (a, b)" by fastforce
    have "edges (forward_map (evs @ [ev])) = insert (a, b) (edges (forward_map evs))"
      by (auto simp: step Some e edges_def split: if_splits)
    also have "\<dots> = rotations (evs @ [ev])" using snoc Some e by (auto simp: rotations_def)
    finally show ?thesis .
  qed
qed (simp add: forward_map_def edges_def rotations_def)

lemma rtrancl_restrict:
  assumes "(x, y) \<in> E\<^sup>*" "x \<in> A" "y \<notin> A" shows "\<exists>u v. u \<in> A \<and> v \<notin> A \<and> (u, v) \<in> E"
  using assms by (induction rule: converse_rtrancl_induct) auto

text \<open>Invariant of the loop: what is found is reachable, and edges out of it lead to it or to the stack.\<close>

lemma descend_set:
  assumes "set stack \<union> set out \<subseteq> (edges fwd)\<^sup>* `` S" and "S \<subseteq> set stack \<union> set out"
    and "\<And>a b. a \<in> set out \<Longrightarrow> (a, b) \<in> edges fwd \<Longrightarrow> b \<in> set stack \<union> set out"
  shows "set (descend fwd stack out) = (edges fwd)\<^sup>* `` S"
  using assms
proof (induction fwd stack out rule: descend.induct)
  case (1 fwd out)
  have "(edges fwd)\<^sup>* `` S \<subseteq> set out"
  proof
    fix y assume "y \<in> (edges fwd)\<^sup>* `` S"
    then obtain x where x: "x \<in> S" "(x, y) \<in> (edges fwd)\<^sup>*" by blast
    show "y \<in> set out"
    proof (rule ccontr)
      assume "y \<notin> set out"
      with rtrancl_restrict [OF x(2), of "set out"] x 1 show False by auto
    qed
  qed
  with 1 show ?case by auto
next
  case (2 fwd cur stack out)
  show ?case
  proof (cases "cur \<in> set out")
    case True
    have "set (descend fwd stack out) = (edges fwd)\<^sup>* `` S"
      by (rule "2.IH"(1) [OF True]) (use 2 True in auto)
    with True show ?thesis by simp
  next
    case False
    let ?stack = "rev (filter (\<lambda>n. n \<notin> set (set_add cur out)) (dict_get fwd cur [])) @ stack"
    have cur: "cur \<in> (edges fwd)\<^sup>* `` S" using "2.prems"(1) by auto
    have succ: "b \<in> (edges fwd)\<^sup>* `` S" if "b \<in> set (dict_get fwd cur [])" for b
      using that cur by (auto simp: edges_def intro: rtrancl_into_rtrancl)
    have "set (descend fwd ?stack (set_add cur out)) = (edges fwd)\<^sup>* `` S"
    proof (rule "2.IH"(2) [OF False])
      show "set ?stack \<union> set (set_add cur out) \<subseteq> (edges fwd)\<^sup>* `` S" using 2 succ cur by auto
      show "S \<subseteq> set ?stack \<union> set (set_add cur out)" using 2 by auto
      show "b \<in> set ?stack \<union> set (set_add cur out)" if "a \<in> set (set_add cur out)" "(a, b) \<in> edges fwd" for a b
        using that "2.prems"(3) [of a b] by (auto simp: edges_def)
    qed
    with False show ?thesis by simp
  qed
qed

lemma trancl_image: "r\<^sup>* `` (r `` {x}) = r\<^sup>+ `` {x}"
  by (auto dest: tranclD intro: rtrancl_into_trancl2)

lemma rotation_descendants_set:
  "set (rotation_descendants node chain) = {m. (node, m) \<in> (rotations (events_of chain))\<^sup>+}"
proof -
  let ?fwd = "forward_map (events_of chain)"
  let ?S = "set (dict_get ?fwd node [])"
  have S: "?S = rotations (events_of chain) `` {node}"
    unfolding edges_forward [symmetric] edges_def by blast
  have "set (descend ?fwd (rev (dict_get ?fwd node [])) []) = (edges ?fwd)\<^sup>* `` ?S"
  proof (rule descend_set)
    show "set (rev (dict_get ?fwd node [])) \<union> set [] \<subseteq> (edges ?fwd)\<^sup>* `` ?S" by auto
  qed simp_all
  also have "\<dots> = (rotations (events_of chain))\<^sup>+ `` {node}" unfolding edges_forward S by (rule trancl_image)
  finally show ?thesis unfolding rotation_descendants_def Let_def by blast
qed

subsection \<open>What blocks a rotation\<close>

text \<open>Some event of the type names the id: the id has a terminal status.\<close>

definition settled :: "string \<Rightarrow> string \<Rightarrow> pydict list \<Rightarrow> string \<Rightarrow> bool" where
  "settled et id_key events i \<longleftrightarrow> (\<exists>ev \<in> set events. ev_is et ev \<and> get (payload ev) id_key = PStr i)"

lemma settled_snoc:
  "settled et k (evs @ [ev]) i \<longleftrightarrow> settled et k evs i \<or> ev_is et ev \<and> get (payload ev) k = PStr i"
  by (auto simp: settled_def)

lemma nonempty_str_None: "nonempty_str v = None \<Longrightarrow> i \<noteq> [] \<Longrightarrow> v \<noteq> PStr i"
  by auto

lemma market_status_None:
  assumes "i \<noteq> []"
  shows "map_of (market_status_lookup events) i = None \<longleftrightarrow> \<not> settled ''resolution_finalize'' ''market_id'' events i"
proof (induction events rule: rev_induct)
  case (snoc ev evs)
  have "map_of (market_status_lookup (evs @ [ev])) i = None \<longleftrightarrow> map_of (market_status_lookup evs) i = None
      \<and> \<not> (ev_is ''resolution_finalize'' ev \<and> get (payload ev) ''market_id'' = PStr i)"
    by (cases "nonempty_str (get (payload ev) ''market_id'')")
       (auto simp: market_status_lookup_def dest: nonempty_str_None [OF _ assms])
  with snoc show ?case by (simp add: settled_snoc)
qed (simp add: market_status_lookup_def settled_def)

lemma dispute_status_None:
  assumes "i \<noteq> []"
  shows "map_of (dispute_status_lookup events) i = None \<longleftrightarrow> \<not> settled ''dispute_resolve'' ''dispute_id'' events i"
proof (induction events rule: rev_induct)
  case (snoc ev evs)
  have "map_of (dispute_status_lookup (evs @ [ev])) i = None \<longleftrightarrow> map_of (dispute_status_lookup evs) i = None
      \<and> \<not> (ev_is ''dispute_resolve'' ev \<and> get (payload ev) ''dispute_id'' = PStr i)"
    by (cases "nonempty_str (get (payload ev) ''dispute_id'')")
       (auto simp: dispute_status_lookup_def dest: nonempty_str_None [OF _ assms])
  with snoc show ?case by (simp add: settled_snoc)
qed (simp add: dispute_status_lookup_def settled_def)

lemma resolved_messages:
  assumes "i \<noteq> []"
  shows "i \<in> set (truth_stake_resolved_messages events) \<longleftrightarrow> settled ''truth_stake_resolve'' ''message_id'' events i"
proof (induction events rule: rev_induct)
  case (snoc ev evs)
  have "i \<in> set (truth_stake_resolved_messages (evs @ [ev])) \<longleftrightarrow> i \<in> set (truth_stake_resolved_messages evs)
      \<or> ev_is ''truth_stake_resolve'' ev \<and> get (payload ev) ''message_id'' = PStr i"
    by (cases "nonempty_str (get (payload ev) ''message_id'')")
       (auto simp: truth_stake_resolved_messages_def dest: nonempty_str_None [OF _ assms])
  with snoc show ?case by (simp add: settled_snoc)
qed (simp add: truth_stake_resolved_messages_def settled_def)

lemma truth_stakes_Nil:
  assumes "foldres (truth_stake_step node resolved now) events out = Inr r"
  shows "r = [] \<longleftrightarrow> out = [] \<and> (\<forall>ev \<in> set events. ev_is ''truth_stake_place'' ev \<longrightarrow> get ev ''node_id'' = PStr node \<longrightarrow>
    (\<forall>mid t. get (payload ev) ''message_id'' = PStr mid \<and> mid \<noteq> [] \<and> mid \<notin> set resolved
        \<and> truth_stake_expiry ev = Inr (Some t) \<longrightarrow> \<not> flt now t))"
  using assms
proof (induction events arbitrary: out)
  case (Cons ev evs)
  from Cons.prems obtain out' where step: "truth_stake_step node resolved now ev out = Inr out'"
    and rest: "foldres (truth_stake_step node resolved now) evs out' = Inr r"
    by (auto simp: bnd_eq_Inr)
  have "out' = [] \<longleftrightarrow> out = [] \<and> (ev_is ''truth_stake_place'' ev \<longrightarrow> get ev ''node_id'' = PStr node \<longrightarrow>
      (\<forall>mid t. get (payload ev) ''message_id'' = PStr mid \<and> mid \<noteq> [] \<and> mid \<notin> set resolved
        \<and> truth_stake_expiry ev = Inr (Some t) \<longrightarrow> \<not> flt now t))"
  proof (cases "nonempty_str (get (payload ev) ''message_id'')")
    case None
    then have "get (payload ev) ''message_id'' \<noteq> PStr mid" if "mid \<noteq> []" for mid using that nonempty_str_None by blast
    with None step show ?thesis by (fastforce simp: truth_stake_step_def split: if_splits)
  next
    case (Some mid)
    with step show ?thesis by (auto simp: truth_stake_step_def bnd_eq_Inr split: if_splits option.splits)
  qed
  with Cons.IH [OF rest] show ?case by simp
qed simp

subsection \<open>Properties\<close>

text \<open>
  The descendants of an identity are the transitive closure of the rotations on the chain: the
  identities reachable over one or more \<open>identity_rotate\<close> events, each from the old identity it
  names to its signer. The worklist always terminates, cycles included.
\<close>

theorem descendants_trancl:
  "set (rotation_descendants node chain) = {m. (node, m) \<in> (rotations (events_of chain))\<^sup>+}"
  by (rule rotation_descendants_set)

text \<open>
  A rotation is accepted exactly when the old identity has no open obligation: every market it
  staked on has a finalize event, every dispute a resolve event, and every truth stake of its is
  resolved, malformed or expired.
\<close>

theorem rotation_accepted_iff:
  assumes "validate_rotation rot chain now = Inr d" and "get (payload rot) ''old_node_id'' = PStr old"
  shows "accepted d \<longleftrightarrow> (\<forall>ev \<in> set (events_of chain). get ev ''node_id'' = PStr old \<longrightarrow>
      (ev_is ''resolution_stake'' ev \<longrightarrow> (\<forall>m. get (payload ev) ''market_id'' = PStr m \<and> m \<noteq> [] \<longrightarrow>
          settled ''resolution_finalize'' ''market_id'' (events_of chain) m))
      \<and> (ev_is ''dispute_stake'' ev \<longrightarrow> (\<forall>m. get (payload ev) ''dispute_id'' = PStr m \<and> m \<noteq> [] \<longrightarrow>
          settled ''dispute_resolve'' ''dispute_id'' (events_of chain) m))
      \<and> (ev_is ''truth_stake_place'' ev \<longrightarrow> (\<forall>m t. get (payload ev) ''message_id'' = PStr m \<and> m \<noteq> []
            \<and> truth_stake_expiry ev = Inr (Some t) \<and> flt now t \<longrightarrow>
          settled ''truth_stake_resolve'' ''message_id'' (events_of chain) m)))"
proof -
  let ?evs = "events_of chain"
  from assms obtain tru where tru: "active_truth_stakes old ?evs now = Inr tru" and old: "old \<noteq> []"
    and d: "accepted d \<longleftrightarrow> active_resolution_stakes old ?evs = [] \<and> active_dispute_stakes old ?evs = [] \<and> tru = []"
    by (auto simp: validate_rotation_def bnd_eq_Inr Let_def blocker_def split: if_splits option.splits)
  have res: "active_resolution_stakes old ?evs = [] \<longleftrightarrow> (\<forall>ev \<in> set ?evs. get ev ''node_id'' = PStr old \<longrightarrow>
      ev_is ''resolution_stake'' ev \<longrightarrow> (\<forall>m. get (payload ev) ''market_id'' = PStr m \<and> m \<noteq> [] \<longrightarrow>
          settled ''resolution_finalize'' ''market_id'' ?evs m))"
    unfolding active_resolution_stakes_def map_filter_Nil_iff open_stake_def
    by (intro ball_cong refl) (auto simp: market_status_None split: option.splits)
  have dis: "active_dispute_stakes old ?evs = [] \<longleftrightarrow> (\<forall>ev \<in> set ?evs. get ev ''node_id'' = PStr old \<longrightarrow>
      ev_is ''dispute_stake'' ev \<longrightarrow> (\<forall>m. get (payload ev) ''dispute_id'' = PStr m \<and> m \<noteq> [] \<longrightarrow>
          settled ''dispute_resolve'' ''dispute_id'' ?evs m))"
    unfolding active_dispute_stakes_def map_filter_Nil_iff open_stake_def
    by (intro ball_cong refl) (auto simp: dispute_status_None split: option.splits)
  have "tru = [] \<longleftrightarrow> (\<forall>ev \<in> set ?evs. get ev ''node_id'' = PStr old \<longrightarrow> ev_is ''truth_stake_place'' ev \<longrightarrow>
      (\<forall>m t. get (payload ev) ''message_id'' = PStr m \<and> m \<noteq> [] \<and> truth_stake_expiry ev = Inr (Some t) \<and> flt now t \<longrightarrow>
          settled ''truth_stake_resolve'' ''message_id'' ?evs m))"
    using truth_stakes_Nil [OF tru [unfolded active_truth_stakes_def]] resolved_messages by blast
  with d res dis show ?thesis by blast
qed

theorem rotation_accepted_iff_witness:
  "\<exists>d. validate_rotation [(''event_type'', PStr ''identity_rotate''), (''payload'', PDict [(''old_node_id'', PStr ''a'')])]
      [PDict [(''event_type'', PStr ''resolution_stake''), (''node_id'', PStr ''a''), (''payload'', PDict [(''market_id'', PStr ''m'')])]]
      (Fin 5) = Inr d \<and> \<not> accepted d"
    (is "\<exists>d. validate_rotation ?r ?c _ = _ \<and> _")
proof -
  have run: "\<exists>d. validate_rotation ?r ?c (Fin 5) = Inr d"
    by (simp add: validate_rotation_def ev_is_def payload_def active_truth_stakes_def truth_stake_step_def Let_def)
  then obtain d where d: "validate_rotation ?r ?c (Fin 5) = Inr d" ..
  have "get (payload ?r) ''old_node_id'' = PStr ''a''" by (simp add: payload_def)
  from rotation_accepted_iff [OF d this] have "\<not> accepted d"
    by (simp add: ev_is_def payload_def settled_def)
  with d show ?thesis by blast
qed

text \<open>
  Rotating in a circle makes an identity its own descendant, although the docstring says the
  node itself is excluded: after a rotates into b and b back into a, a descends from a.
\<close>

theorem rotation_cycle_includes_self:
  "node \<in> set (rotation_descendants node
     [PDict [(''event_type'', PStr ''identity_rotate''), (''node_id'', PStr other), (''payload'', PDict [(''old_node_id'', PStr node)])],
      PDict [(''event_type'', PStr ''identity_rotate''), (''node_id'', PStr node), (''payload'', PDict [(''old_node_id'', PStr other)])]])
   \<longleftrightarrow> node \<noteq> [] \<and> other \<noteq> [] \<and> node \<noteq> other"
  (is "node \<in> set (rotation_descendants node ?c) \<longleftrightarrow> ?ok")
proof
  assume "node \<in> set (rotation_descendants node ?c)"
  then have "rotations (events_of ?c) \<noteq> {}" by (auto simp: rotation_descendants_set)
  then show ?ok by (auto simp: rotations_def rotation_edge_def payload_def split: if_splits option.splits)
next
  assume ?ok
  then have "{(node, other), (other, node)} \<subseteq> rotations (events_of ?c)"
    by (auto simp: rotations_def rotation_edge_def ev_is_def payload_def)
  then have "(node, node) \<in> (rotations (events_of ?c))\<^sup>+" by (meson insert_subset trancl.simps)
  then show "node \<in> set (rotation_descendants node ?c)" by (simp add: rotation_descendants_set)
qed

end
