(* ===== verification/Resolution_Base.thy ===== *)
theory Resolution_Base
  imports Evidence Identity_Rotation
begin

text \<open>
  The first part of \<open>services/infonet/markets/resolution.py\<close>: predictor exclusion and the collection
  of resolution stakes. The bootstrap modules use it, and the decision procedure uses both.
\<close>

subsection \<open>The code\<close>

text \<open>The exclusion set, as a list; the order of a Python set does not matter to what is done with it.\<close>

definition frozen_predictors :: "pydict \<Rightarrow> string list" where
  "frozen_predictors snapshot = (case py_or (get snapshot ''frozen_predictor_ids'') (PList []) of
       PList xs \<Rightarrow> fold set_add (List.map_filter nonempty_str xs) []
     | _ \<Rightarrow> [])"

definition with_descendants :: "chain \<Rightarrow> string list \<Rightarrow> string list" where
  "with_descendants chain base = fold (\<lambda>original out. fold set_add (rotation_descendants original chain) out) base base"

definition excluded_predictor_ids :: "string \<Rightarrow> chain \<Rightarrow> string list res" where
  "excluded_predictor_ids m chain = bnd (find_snapshot m chain) (\<lambda>s. case s of
       None \<Rightarrow> Inr []
     | Some snapshot \<Rightarrow> Inr (with_descendants chain (frozen_predictors snapshot)))"

definition is_predictor_excluded :: "string \<Rightarrow> string \<Rightarrow> chain \<Rightarrow> bool res" where
  "is_predictor_excluded node_id m chain = bnd (excluded_predictor_ids m chain) (\<lambda>ex. Inr (node_id \<in> set ex))"

record resolution_stake =
  rs_node_id :: string
  rs_side :: string
  rs_amount :: pyfloat
  rs_rep_type :: string
  rs_timestamp :: pyfloat
  rs_sequence :: int

text \<open>
  One round of the collecting loop. A missing amount counts as 0; \<open>amt <= 0\<close> does not refuse NaN or
  the positive infinity.
\<close>

definition stake_amount :: "pyval \<Rightarrow> pyfloat option res" where
  "stake_amount v = (if v = PNone then Inr (Some (Fin 0))
     else catching type_or_value (bnd (py_float v) (\<lambda>a. Inr (Some a))) (Inr None))"

definition read_stake :: "string \<Rightarrow> string list \<Rightarrow> pydict \<Rightarrow> resolution_stake option res" where
  "read_stake m excluded ev =
     (if \<not> ev_is ''resolution_stake'' ev then Inr None
      else if get (payload ev) ''market_id'' \<noteq> PStr m then Inr None
      else case nonempty_str (get ev ''node_id'') of
          None \<Rightarrow> Inr None
        | Some node \<Rightarrow>
            if node \<in> set excluded then Inr None
            else if \<not> in_strs (get (payload ev) ''side'') [''yes'', ''no'', ''data_unavailable''] then Inr None
            else bnd (stake_amount (get (payload ev) ''amount'')) (\<lambda>a. case a of
                None \<Rightarrow> Inr None
              | Some amt \<Rightarrow>
                  if fle amt (Fin 0) then Inr None
                  else if \<not> in_strs (get (payload ev) ''rep_type'') [''oracle'', ''common''] then Inr None
                  else bnd (sort_key ev) (\<lambda>(ts, sq).
                    Inr (Some \<lparr>rs_node_id = node, rs_side = py_str (get (payload ev) ''side''), rs_amount = amt,
                               rs_rep_type = py_str (get (payload ev) ''rep_type''), rs_timestamp = ts, rs_sequence = sq\<rparr>))))"

definition collect_stakes_loop :: "string \<Rightarrow> string list \<Rightarrow> pydict list \<Rightarrow> resolution_stake list res" where
  "collect_stakes_loop m excluded events = foldres (\<lambda>ev out. bnd (read_stake m excluded ev) (\<lambda>r. case r of
       None \<Rightarrow> Inr out | Some s \<Rightarrow> Inr (out @ [s]))) events []"

definition collect_resolution_stakes :: "string \<Rightarrow> chain \<Rightarrow> bool \<Rightarrow> resolution_stake list res" where
  "collect_resolution_stakes m chain exclude_predictors =
     bnd (if exclude_predictors then excluded_predictor_ids m chain else Inr []) (\<lambda>excluded.
     bnd (collect_stakes_loop m excluded (events_of chain)) (\<lambda>out.
       Inr (sort_by (\<lambda>a b. key_lt (rs_timestamp a, rs_sequence a) (rs_timestamp b, rs_sequence b)) out)))"

subsection \<open>Predictor exclusion\<close>

lemma set_with_descendants:
  "set (with_descendants chain base) = {n. \<exists>b \<in> set base. (b, n) \<in> (rotations (events_of chain))\<^sup>*}"
proof -
  have "set (fold (\<lambda>b out. fold set_add (rotation_descendants b chain) out) bs acc)
      = set acc \<union> (\<Union>b \<in> set bs. {n. (b, n) \<in> (rotations (events_of chain))\<^sup>+})" for bs acc
    by (induction bs arbitrary: acc) (auto simp: rotation_descendants_set)
  then show ?thesis by (auto simp: with_descendants_def rtrancl_eq_or_trancl)
qed

lemma excluded_total:
  "excluded_predictor_ids m chain = Inl e \<Longrightarrow> e = InvalidAuthoritativeSnapshot"
  by (auto simp: excluded_predictor_ids_def bnd_eq_Inl find_snapshot_def split: option.splits if_splits)

text \<open>Exclusion only looks at the market's snapshot and at the rotations.\<close>

lemma excluded_insert:
  assumes "\<not> ev_is ''market_snapshot'' ev" "\<not> ev_is ''identity_rotate'' ev"
  shows "excluded_predictor_ids m (c1 @ [PDict ev] @ c2) = excluded_predictor_ids m (c1 @ c2)"
proof -
  have "first_authoritative_event (events_for_market m (c1 @ [PDict ev] @ c2)) ''market_snapshot''
      = first_authoritative_event (events_for_market m (c1 @ c2)) ''market_snapshot''"
    using assms(1) by (simp add: first_authoritative_event_def events_for_market_def find_skip)
  moreover have "forward_map (events_of (c1 @ [PDict ev] @ c2)) = forward_map (events_of (c1 @ c2))"
    using assms(2) by (simp add: forward_map_def rotation_edge_def)
  then have "with_descendants (c1 @ [PDict ev] @ c2) = with_descendants (c1 @ c2)"
    by (simp add: with_descendants_def rotation_descendants_def fun_eq_iff)
  ultimately show ?thesis unfolding excluded_predictor_ids_def find_snapshot_def by simp
qed

subsection \<open>Stakes\<close>

lemma read_stake_Some:
  assumes "read_stake m ex ev = Inr (Some s)"
  shows "rs_node_id s \<noteq> [] \<and> rs_node_id s \<notin> set ex \<and> rs_side s \<in> {''yes'', ''no'', ''data_unavailable''}
    \<and> rs_rep_type s \<in> {''oracle'', ''common''} \<and> \<not> fle (rs_amount s) (Fin 0) \<and> get ev ''node_id'' = PStr (rs_node_id s)"
  using assms by (auto simp: read_stake_def bnd_eq_Inr in_strs_iff split: option.splits if_splits)

lemma read_stake_excluded:
  "get ev ''node_id'' = PStr node \<Longrightarrow> node \<in> set ex \<Longrightarrow> read_stake m ex ev = Inr None"
  by (auto simp: read_stake_def split: option.splits)

lemma stakes_loop_source:
  assumes "collect_stakes_loop m ex evs = Inr out" "s \<in> set out"
  shows "\<exists>ev \<in> set evs. read_stake m ex ev = Inr (Some s)"
  using assms
proof (induction evs arbitrary: out rule: rev_induct)
  case (snoc ev evs)
  from snoc.prems(1) obtain out' r where "collect_stakes_loop m ex evs = Inr out'" "read_stake m ex ev = Inr r"
    and "out = (case r of None \<Rightarrow> out' | Some s \<Rightarrow> out' @ [s])"
    by (auto simp: collect_stakes_loop_def foldres_append bnd_eq_Inr split: option.splits)
  then show ?case using snoc.IH [of out'] snoc.prems(2) by (cases r) auto
qed (simp add: collect_stakes_loop_def)

definition stake_wf :: "resolution_stake \<Rightarrow> bool" where
  "stake_wf s \<longleftrightarrow> rs_node_id s \<noteq> [] \<and> rs_side s \<in> {''yes'', ''no'', ''data_unavailable''}
     \<and> rs_rep_type s \<in> {''oracle'', ''common''} \<and> \<not> fle (rs_amount s) (Fin 0)"

lemma collected_stakes:
  assumes "collect_resolution_stakes m chain True = Inr stakes"
  shows "\<exists>ex. excluded_predictor_ids m chain = Inr ex \<and> (\<forall>s \<in> set stakes. stake_wf s \<and> rs_node_id s \<notin> set ex)"
proof -
  from assms obtain ex out where ex: "excluded_predictor_ids m chain = Inr ex"
    and out: "collect_stakes_loop m ex (events_of chain) = Inr out" and st: "set stakes = set out"
    by (auto simp: collect_resolution_stakes_def bnd_eq_Inr)
  have "stake_wf s \<and> rs_node_id s \<notin> set ex" if s: "s \<in> set out" for s
  proof -
    obtain ev where "read_stake m ex ev = Inr (Some s)" using stakes_loop_source [OF out s] by blast
    from read_stake_Some [OF this] show ?thesis unfolding stake_wf_def by blast
  qed
  with ex st show ?thesis by blast
qed

text \<open>A stake event of an excluded node can be anywhere in the chain and is not seen.\<close>

lemma stakes_insert_excluded:
  assumes "excluded_predictor_ids m (c1 @ c2) = Inr ex" "node \<in> set ex"
    and ev: "ev_is ''resolution_stake'' ev" "get ev ''node_id'' = PStr node"
  shows "collect_resolution_stakes m (c1 @ [PDict ev] @ c2) True = collect_resolution_stakes m (c1 @ c2) True"
proof -
  have "\<not> ev_is ''market_snapshot'' ev" "\<not> ev_is ''identity_rotate'' ev" using ev(1) by (auto simp: ev_is_def)
  then have "excluded_predictor_ids m (c1 @ [PDict ev] @ c2) = Inr ex" using excluded_insert assms(1) by simp
  moreover have "read_stake m ex ev = Inr None" using ev(2) assms(2) by (rule read_stake_excluded)
  then have "collect_stakes_loop m ex (events_of (c1 @ [PDict ev] @ c2)) = collect_stakes_loop m ex (events_of (c1 @ c2))"
    by (simp add: collect_stakes_loop_def foldres_append bnd_def split: sum.splits)
  ultimately show ?thesis using assms(1) unfolding collect_resolution_stakes_def by simp
qed

end
