(* ===== verification/Stalemate_Burn.thy ===== *)
theory Stalemate_Burn
  imports Event_Selection
begin

text \<open>
  \<open>services/infonet/markets/stalemate_burn.py\<close>: the burn applied to resolution stakes when a market
  fails to reach a supermajority. A stake is the triple of node, rep type and amount that the
  callers pass.
\<close>

subsection \<open>Amounts booked per key\<close>

text \<open>\<open>d[k] = d.get(k, 0.0) + v\<close> on a dict of amounts\<close>

type_synonym 'k ledger = "('k \<times> pyfloat) list"

definition credit :: "'k \<Rightarrow> pyfloat \<Rightarrow> 'k ledger \<Rightarrow> 'k ledger" where
  "credit k v d = dict_add fadd (Fin 0) k v d"

definition ledger_ok :: "'k ledger \<Rightarrow> bool" where
  "ledger_ok d \<longleftrightarrow> distinct (map fst d) \<and> (\<forall>(k, v) \<in> set d. fnonneg v)"

lemma ledger_ok_Nil [simp]: "ledger_ok []"
  by (simp add: ledger_ok_def)

lemma ledger_ok_get: "ledger_ok d \<Longrightarrow> fnonneg (dict_get d k (Fin 0))"
  by (auto simp: dict_get_def ledger_ok_def dest: map_of_SomeD split: option.splits)

lemma set_update: "(k', v') \<in> set (AList.update k v d) \<Longrightarrow> (k', v') = (k, v) \<or> (k', v') \<in> set d"
  by (induction d) (auto split: if_splits)

lemma ledger_ok_credit: "ledger_ok d \<Longrightarrow> fnonneg v \<Longrightarrow> ledger_ok (credit k v d)"
  unfolding credit_def dict_add_def
  using ledger_ok_get [of d k] fadd_nonneg
  by (fastforce simp: ledger_ok_def distinct_update dest: set_update)

lemma get_credit: "dict_get (credit k v d) k' (Fin 0) = (if k' = k then fadd (dict_get d k (Fin 0)) v else dict_get d k' (Fin 0))"
  by (simp add: credit_def dict_add_def)

lemma keys_credit [simp]: "fst ` set (credit k v d) = insert k (fst ` set d)"
  by (simp add: credit_def)

subsection \<open>The code\<close>

definition finite_float_tv :: "pyval \<Rightarrow> pyfloat option res" where
  "finite_float_tv v = bnd (catching type_or_value (bnd (py_float v) (\<lambda>f. Inr (Some f))) (Inr None)) (\<lambda>r.
     Inr (case r of None \<Rightarrow> None | Some f \<Rightarrow> if fisfinite f then Some f else None))"

definition stalemate_burn_pct :: "pydict \<Rightarrow> pyfloat res" where
  "stalemate_burn_pct cfg = bnd (cfg_get cfg ''resolution_stalemate_burn_pct'') (\<lambda>v.
     bnd (finite_float_tv v) (\<lambda>p. case p of None \<Rightarrow> Inl ValueError | Some pct \<Rightarrow> Inr pct))"

text \<open>The burn percentage in force: the argument, or the configured one when it is None.\<close>

definition effective_burn_pct :: "pydict \<Rightarrow> pyfloat option \<Rightarrow> pyfloat res" where
  "effective_burn_pct cfg burn_pct =
     bnd (case burn_pct of None \<Rightarrow> stalemate_burn_pct cfg | Some p \<Rightarrow> Inr p) (\<lambda>p.
       if fisfinite p then Inr p else Inl ValueError)"

definition split_at :: "pyfloat \<Rightarrow> pyfloat \<Rightarrow> pyfloat \<times> pyfloat" where
  "split_at amt pct =
     (if fle pct (Fin 0) then (Fin 0, amt)
      else if fle (Fin 1) pct then (amt, Fin 0)
      else let burn = fmul amt pct in (burn, fsub amt burn))"

definition split_burn_and_return :: "pydict \<Rightarrow> pyval \<Rightarrow> pyfloat option \<Rightarrow> (pyfloat \<times> pyfloat) res" where
  "split_burn_and_return cfg amount burn_pct = bnd (finite_float_tv amount) (\<lambda>a. case a of
       None \<Rightarrow> Inr (Fin 0, Fin 0)
     | Some amt \<Rightarrow> if fle amt (Fin 0) then Inr (Fin 0, Fin 0)
         else bnd (effective_burn_pct cfg burn_pct) (\<lambda>pct. Inr (split_at amt pct)))"

type_synonym stake_entry = "string \<times> string \<times> pyfloat"

definition burn_step :: "pyfloat \<Rightarrow> stake_entry \<Rightarrow> (string \<times> string) ledger \<times> pyfloat \<Rightarrow> (string \<times> string) ledger \<times> pyfloat" where
  "burn_step pct = (\<lambda>(node_id, rep_type, amt) (returns, total_burned).
     if \<not> fisfinite amt \<or> fle amt (Fin 0) \<or> rep_type \<notin> {''oracle'', ''common''} then (returns, total_burned)
     else let (burn, ret) = split_at amt pct in
       (if flt (Fin 0) ret then credit (node_id, rep_type) ret returns else returns, fadd total_burned burn))"

definition apply_to_stakes :: "pydict \<Rightarrow> stake_entry list \<Rightarrow> pyfloat option \<Rightarrow> ((string \<times> string) ledger \<times> pyfloat) res" where
  "apply_to_stakes cfg stakes burn_pct = bnd (effective_burn_pct cfg burn_pct) (\<lambda>pct.
     Inr (fold (burn_step pct) stakes ([], Fin 0)))"

subsection \<open>Lemmas\<close>

text \<open>Both parts of a split lie between 0 and the amount.\<close>

lemma split_at_bounds:
  assumes "fpos a" "fval a" "fisfinite a" "fisfinite p" and s: "split_at a p = (burn, ret)"
  shows "fle (Fin 0) burn \<and> fle burn a \<and> fle (Fin 0) ret \<and> fle ret a"
proof -
  obtain x q where x: "a = Fin x" "0 < x" and q: "p = Fin q" using assms by (cases a; cases p) auto
  have dx: "is_double x" "in_range x" using assms(2) x by auto
  then have fx: "fl x = Fin x" by (simp add: fl_exact in_range_def)
  consider "q \<le> 0" | "1 \<le> q" | "0 < q" "q < 1" by linarith
  then show ?thesis
  proof cases
    case 3
    have "0 \<le> x * q" "x * q \<le> x" using x 3 by (simp_all add: mult_le_cancel_left1)
    then have b: "fle (Fin 0) (fl (x * q))" "fle (fl (x * q)) (Fin x)"
      using fl_mono [of 0 "x * q"] fl_mono [of "x * q" x] fx by simp_all
    then obtain b' where b': "fl (x * q) = Fin b'" "0 \<le> b'" "b' \<le> x" by (cases "fl (x * q)") auto
    then have "fle (Fin 0) (fl (x - b'))" "fle (fl (x - b')) (Fin x)"
      using fl_mono [of 0 "x - b'"] fl_mono [of "x - b'" x] fx by simp_all
    moreover have "burn = Fin b'" "ret = fl (x - b')" using s 3 b' by (auto simp: split_at_def x q Let_def fsub_def)
    ultimately show ?thesis using b' x by simp
  qed (use s x q in \<open>auto simp: split_at_def split: if_splits\<close>)
qed

lemma pct_total:
  assumes "config_ok cfg" shows "\<exists>p. effective_burn_pct cfg None = Inr p \<and> fisfinite p \<or> effective_burn_pct cfg None = Inl ValueError"
proof -
  obtain v where v: "cfg_get cfg ''resolution_stalemate_burn_pct'' = Inr v" and f: "\<exists>f. py_float v = Inr f"
    using read_resolution_stalemate_burn_pct [OF assms] by (auto simp: cfg_float_def bnd_eq_Inr)
  then obtain f where "py_float v = Inr f" by blast
  with v show ?thesis
    by (cases "fisfinite f") (simp_all add: effective_burn_pct_def stalemate_burn_pct_def finite_float_tv_def)
qed

lemma effective_burn_pct_finite: "effective_burn_pct cfg b = Inr p \<Longrightarrow> fisfinite p"
  by (auto simp: effective_burn_pct_def bnd_eq_Inr split: if_splits)

lemma burn_step_inv:
  assumes "fisfinite pct" "fval (snd (snd s))" "ledger_ok (fst acc) \<and> fnonneg (snd acc)"
  shows "ledger_ok (fst (burn_step pct s acc)) \<and> fnonneg (snd (burn_step pct s acc))"
proof -
  obtain node rt amt where s: "s = (node, rt, amt)" by (metis prod.exhaust)
  obtain burn ret where sp: "split_at amt pct = (burn, ret)" by fastforce
  show ?thesis
  proof (cases "\<not> fisfinite amt \<or> fle amt (Fin 0) \<or> rt \<notin> {''oracle'', ''common''}")
    case True
    then have "burn_step pct s acc = acc" by (auto simp: burn_step_def s split: prod.splits)
    with assms show ?thesis by simp
  next
    case False
    then have "fpos amt" "fisfinite amt" by (auto elim!: fisfiniteE)
    then have "fnonneg burn" "fnonneg ret"
      using split_at_bounds [OF _ _ _ assms(1) sp] assms(2) by (simp_all add: s fnonneg_def)
    moreover have "burn_step pct s acc = (if flt (Fin 0) ret then credit (node, rt) ret (fst acc) else fst acc, fadd (snd acc) burn)"
      using False by (cases acc) (auto simp: burn_step_def s sp)
    ultimately show ?thesis using assms(3) by (simp add: ledger_ok_credit fadd_nonneg)
  qed
qed

lemma apply_to_stakes_ok:
  assumes "apply_to_stakes cfg stakes b = Inr (returns, burned)" and "\<forall>s \<in> set stakes. fval (snd (snd s))"
  shows "ledger_ok returns \<and> fnonneg burned"
proof -
  from assms(1) obtain pct where p: "fisfinite pct" and r: "fold (burn_step pct) stakes ([], Fin 0) = (returns, burned)"
    by (auto simp: apply_to_stakes_def bnd_eq_Inr dest: effective_burn_pct_finite)
  have "ledger_ok (fst (fold (burn_step pct) ss acc)) \<and> fnonneg (snd (fold (burn_step pct) ss acc))"
    if "set ss \<subseteq> set stakes" "ledger_ok (fst acc) \<and> fnonneg (snd acc)" for ss acc
    using that
  proof (induction ss arbitrary: acc)
    case (Cons s ss)
    then have "fval (snd (snd s))" using assms(2) by auto
    from burn_step_inv [OF p this Cons.prems(2)] Cons show ?case by simp
  qed simp
  from this [of stakes "([], Fin 0)"] r show ?thesis by simp
qed

subsection \<open>The burn stays within the stakes\<close>

definition counted_stake :: "stake_entry \<Rightarrow> bool" where
  "counted_stake s \<longleftrightarrow> fisfinite (snd (snd s)) \<and> \<not> fle (snd (snd s)) (Fin 0) \<and> fst (snd s) \<in> {''oracle'', ''common''}"

lemma burn_step_counted:
  assumes "fisfinite pct" "fval (snd (snd s))" "counted_stake s"
  shows "\<exists>burn ret. burn_step pct s acc = (if flt (Fin 0) ret then credit (fst s, fst (snd s)) ret (fst acc) else fst acc, fadd (snd acc) burn)
    \<and> fnonneg burn \<and> fle burn (snd (snd s)) \<and> fnonneg ret \<and> fle ret (snd (snd s))"
proof -
  obtain node rt amt where s: "s = (node, rt, amt)" by (metis prod.exhaust)
  obtain burn ret where sp: "split_at amt pct = (burn, ret)" by fastforce
  have "fpos amt" "fisfinite amt" using assms(3) by (auto simp: counted_stake_def s elim!: fisfiniteE)
  then have b: "fle (Fin 0) burn \<and> fle burn amt \<and> fle (Fin 0) ret \<and> fle ret amt"
    using split_at_bounds [OF _ _ _ assms(1) sp] assms(2) by (simp add: s)
  moreover have "burn_step pct s acc = (if flt (Fin 0) ret then credit (node, rt) ret (fst acc) else fst acc, fadd (snd acc) burn)"
    using assms(3) by (cases acc) (auto simp: burn_step_def s sp counted_stake_def)
  ultimately show ?thesis by (auto simp: s fnonneg_def)
qed

lemma burn_step_skipped: "\<not> counted_stake s \<Longrightarrow> burn_step pct s acc = acc"
  by (cases s; cases acc) (auto simp: burn_step_def counted_stake_def)

lemma burn_loop_bounds:
  assumes "fisfinite pct" "\<forall>s \<in> set ss. fval (snd (snd s))" "fnonneg (snd acc)" "ledger_ok (fst acc)"
    and "fle (snd acc) t" "fle (dict_get (fst acc) (n, rt) (Fin 0)) u" "fval u"
  shows "fle (snd (fold (burn_step pct) ss acc)) (foldl fadd t (map (snd \<circ> snd) (filter counted_stake ss)))
    \<and> fle (dict_get (fst (fold (burn_step pct) ss acc)) (n, rt) (Fin 0))
        (foldl fadd u (map (snd \<circ> snd) (filter (\<lambda>s. counted_stake s \<and> fst s = n \<and> fst (snd s) = rt) ss)))"
  using assms
proof (induction ss arbitrary: acc t u)
  case (Cons s ss)
  note prems = Cons.prems
  show ?case
  proof (cases "counted_stake s")
    case False
    then show ?thesis using Cons by (simp add: burn_step_skipped)
  next
    case True
    let ?amt = "snd (snd s)"
    obtain burn ret where st: "burn_step pct s acc = (if flt (Fin 0) ret then credit (fst s, fst (snd s)) ret (fst acc) else fst acc, fadd (snd acc) burn)"
      and b: "fnonneg burn" "fle burn ?amt" "fnonneg ret" "fle ret ?amt"
      using burn_step_counted [OF prems(1) _ True, of acc] prems(2) by auto
    let ?acc = "burn_step pct s acc"
    have ok: "ledger_ok (fst ?acc) \<and> fnonneg (snd ?acc)" using burn_step_inv prems by simp
    have t: "fle (snd ?acc) (fadd t ?amt)" using st prems(3,5) b by (simp add: fadd_mono2)
    let ?u = "if fst s = n \<and> fst (snd s) = rt then fadd u ?amt else u"
    have g: "fnonneg (dict_get (fst acc) (n, rt) (Fin 0))" using prems(4) by (rule ledger_ok_get)
    have "fle (dict_get (fst ?acc) (n, rt) (Fin 0)) ?u"
    proof (cases "fst s = n \<and> fst (snd s) = rt")
      case same: True
      show ?thesis
      proof (cases "flt (Fin 0) ret")
        case True
        then show ?thesis using st same g prems(6) b by (simp add: get_credit fadd_mono2)
      next
        case False
        have uv: "fnonneg u" using g prems(6) unfolding fnonneg_def by (blast intro: fle_trans)
        have "fnonneg ?amt" using b(3,4) unfolding fnonneg_def by (blast intro: fle_trans)
        then have "fle u (fadd u ?amt)" using fadd_ge_left [OF prems(7) uv] by blast
        then have "fle (dict_get (fst acc) (n, rt) (Fin 0)) (fadd u ?amt)" using prems(6) by (blast intro: fle_trans)
        then show ?thesis using st same False by simp
      qed
    next
      case False
      then show ?thesis using st prems(6) by (auto simp: get_credit)
    qed
    moreover have "fval ?u" using prems(7) by simp
    ultimately show ?thesis using Cons.IH [of ?acc "fadd t ?amt" ?u] ok prems(1,2) t True
      by (cases "fst s = n \<and> fst (snd s) = rt") auto
  qed
qed simp

text \<open>
  C14: A stalemate burn never creates reputation. On a well-formed configuration it returns a result (or
  ValueError, exactly when the configured fraction is not finite), all amounts are nonnegative, the
  burned total is at most the total of the counted stakes, and no node is returned more than it
  staked, per rep type.
\<close>

theorem stalemate_burn_bounded:
  assumes "config_ok cfg" "\<forall>s \<in> set stakes. fval (snd (snd s))"
  shows "(\<exists>returns burned. apply_to_stakes cfg stakes None = Inr (returns, burned) \<and> ledger_ok returns \<and> fnonneg burned
      \<and> fle burned (fsum (map (snd \<circ> snd) (filter counted_stake stakes)))
      \<and> (\<forall>n rt. fle (dict_get returns (n, rt) (Fin 0))
            (fsum (map (snd \<circ> snd) (filter (\<lambda>s. counted_stake s \<and> fst s = n \<and> fst (snd s) = rt) stakes)))))
    \<or> (apply_to_stakes cfg stakes None = Inl ValueError \<and> (\<exists>f. cfg_float cfg ''resolution_stalemate_burn_pct'' = Inr f \<and> \<not> fisfinite f))"
proof -
  obtain v f where v: "cfg_get cfg ''resolution_stalemate_burn_pct'' = Inr v" and f: "py_float v = Inr f"
    using read_resolution_stalemate_burn_pct [OF assms(1)] by (auto simp: cfg_float_def bnd_eq_Inr)
  have cf: "cfg_float cfg ''resolution_stalemate_burn_pct'' = Inr f" using v f by (simp add: cfg_float_def)
  have e: "effective_burn_pct cfg None = (if fisfinite f then Inr f else Inl ValueError)"
    using v f by (simp add: effective_burn_pct_def stalemate_burn_pct_def finite_float_tv_def)
  show ?thesis
  proof (cases "fisfinite f")
    case False
    then show ?thesis using e cf by (simp add: apply_to_stakes_def)
  next
    case True
    let ?x = "fold (burn_step f) stakes ([], Fin 0)"
    have a: "apply_to_stakes cfg stakes None = Inr (fst ?x, snd ?x)" using e True by (simp add: apply_to_stakes_def)
    show ?thesis using a apply_to_stakes_ok [OF a assms(2)] burn_loop_bounds [OF True assms(2), of "([], Fin 0)" "Fin 0" _ _ "Fin 0"]
      by (intro disjI1 exI [of _ "fst ?x"] exI [of _ "snd ?x"]) (simp add: fsum_def)
  qed
qed

theorem stalemate_burn_bounded_witness:
  "\<exists>returns burned. apply_to_stakes baseline_config [(''n'', ''oracle'', Fin 10)] None = Inr (returns, burned) \<and> fle burned (Fin 10)"
proof -
  have "is_double 10" "in_range 10" using is_double_of_int [of 10] by (simp_all add: in_range_def)
  then have v: "\<forall>s \<in> set [(''n'', ''oracle'', Fin 10)]. fval (snd (snd s))" by simp
  have "fisfinite (fl (1/50))" using fl_unit [of "1/50"] by (cases "fl (1/50)") auto
  then show ?thesis using stalemate_burn_bounded [OF baseline_ok v]
    by (auto simp: counted_stake_def fsum_def cfg_simps)
qed

end
