(* ===== verification/Data_Unavailable.thy ===== *)
theory Data_Unavailable
  imports Resolution_Base Stalemate_Burn
begin

text \<open>
  \<open>services/infonet/markets/data_unavailable.py\<close>: the trigger of the DATA_UNAVAILABLE path and the
  transfers it causes.
\<close>

subsection \<open>The code\<close>

text \<open>\<open>sum(s.amount for s in stakes if \<dots>)\<close>\<close>

definition stake_sum :: "(resolution_stake \<Rightarrow> bool) \<Rightarrow> resolution_stake list \<Rightarrow> pyfloat" where
  "stake_sum P stakes = fsum (map rs_amount (filter P stakes))"

definition is_data_unavailable_triggered :: "pydict \<Rightarrow> resolution_stake list \<Rightarrow> bool res" where
  "is_data_unavailable_triggered cfg stakes =
     (let oracle_all = stake_sum (\<lambda>s. rs_rep_type s = ''oracle'') stakes in
      if fle oracle_all (Fin 0) then Inr False
      else let oracle_da = stake_sum (\<lambda>s. rs_side s = ''data_unavailable'' \<and> rs_rep_type s = ''oracle'') stakes in
        bnd (fdiv oracle_da oracle_all) (\<lambda>q.
        bnd (cfg_float cfg ''data_unavailable_threshold'') (\<lambda>t. Inr (fle t q))))"

record da_effects =
  da_stake_returns :: "(string \<times> string) ledger"
  da_bond_forfeits :: "string ledger"
  da_burned :: pyfloat

definition stake_entries :: "resolution_stake list \<Rightarrow> stake_entry list" where
  "stake_entries stakes = map (\<lambda>s. (rs_node_id s, rs_rep_type s, rs_amount s)) stakes"

definition da_return_step :: "resolution_stake \<Rightarrow> (string \<times> string) ledger \<Rightarrow> (string \<times> string) ledger" where
  "da_return_step s d =
     (if rs_rep_type s \<notin> {''oracle'', ''common''} \<or> fle (rs_amount s) (Fin 0) then d
      else credit (rs_node_id s, rs_rep_type s) (rs_amount s) d)"

text \<open>Adding one dict of amounts to another, key by key\<close>

definition merge_ledger :: "'k ledger \<Rightarrow> 'k ledger \<Rightarrow> 'k ledger" where
  "merge_ledger new d = fold (\<lambda>(k, v). credit k v) new d"

definition da_bond_step :: "evidence_bundle \<Rightarrow> string ledger \<times> pyfloat \<Rightarrow> string ledger \<times> pyfloat" where
  "da_bond_step b = (\<lambda>(forfeits, burned).
     if flt (Fin 0) (bond b) then (credit (eb_node_id b) (bond b) forfeits, fadd burned (bond b)) else (forfeits, burned))"

definition resolve_data_unavailable_effects :: "pydict \<Rightarrow> resolution_stake list \<Rightarrow> evidence_bundle list \<Rightarrow> da_effects res" where
  "resolve_data_unavailable_effects cfg stakes bs =
     (let da_stakes = filter (\<lambda>s. rs_side s = ''data_unavailable'') stakes;
          other_stakes = filter (\<lambda>s. rs_side s \<in> {''yes'', ''no''}) stakes;
          returns0 = fold da_return_step da_stakes []
      in bnd (apply_to_stakes cfg (stake_entries other_stakes) None) (\<lambda>(burn_returns, burn_total).
         let (forfeits, burned) = fold da_bond_step bs ([], fadd (Fin 0) burn_total)
         in Inr \<lparr>da_stake_returns = merge_ledger burn_returns returns0, da_bond_forfeits = forfeits, da_burned = burned\<rparr>))"

subsection \<open>Lemmas\<close>

lemma merge_ledger_ok: "ledger_ok new \<Longrightarrow> ledger_ok d \<Longrightarrow> ledger_ok (merge_ledger new d)"
proof -
  have "\<forall>(k, v) \<in> set new. fnonneg v \<Longrightarrow> ledger_ok d \<Longrightarrow> ledger_ok (fold (\<lambda>(k, v). credit k v) new d)"
    by (induction new arbitrary: d) (auto simp: ledger_ok_credit)
  then show "ledger_ok new \<Longrightarrow> ledger_ok d \<Longrightarrow> ledger_ok (merge_ledger new d)"
    by (simp add: merge_ledger_def ledger_ok_def)
qed

lemma da_return_ok:
  assumes "\<forall>s \<in> set stakes. rs_amount s \<noteq> NaN" "ledger_ok d" shows "ledger_ok (fold da_return_step stakes d)"
  using assms
proof (induction stakes arbitrary: d)
  case (Cons s ss)
  have "fnonneg (rs_amount s)" if "\<not> fle (rs_amount s) (Fin 0)"
    using that Cons.prems(1) by (cases "rs_amount s") auto
  with Cons show ?case by (simp add: da_return_step_def ledger_ok_credit)
qed simp

lemma da_bonds_ok:
  assumes "ledger_ok (fst acc)" "fnonneg (snd acc)"
  shows "ledger_ok (fst (fold da_bond_step bs acc)) \<and> fle (snd acc) (snd (fold da_bond_step bs acc)) \<or> \<not> fval (snd acc)"
  using assms
proof (induction bs arbitrary: acc)
  case Nil
  then show ?case by (cases "snd acc") auto
next
  case (Cons b bs)
  obtain f x where acc: "acc = (f, x)" by fastforce
  show ?case
  proof (cases "flt (Fin 0) (bond b)")
    case True
    then have n: "fnonneg (bond b)" by (cases "bond b") auto
    then have ok: "ledger_ok (fst (da_bond_step b acc))" "fnonneg (snd (da_bond_step b acc))"
      using Cons.prems True by (auto simp: acc da_bond_step_def ledger_ok_credit fadd_nonneg)
    have v: "fval (snd (da_bond_step b acc))" using True by (simp add: acc da_bond_step_def)
    have "fle x (snd (da_bond_step b acc))" if "fval x"
      using that True n Cons.prems by (simp add: acc da_bond_step_def fadd_ge_left)
    with Cons.IH [OF ok] v show ?thesis by (auto simp: acc intro: fle_trans)
  next
    case False
    then have "da_bond_step b acc = acc" by (simp add: acc da_bond_step_def)
    with Cons show ?thesis by simp
  qed
qed

end
