(* ===== verification/Json.thy ===== *)
theory Json
  imports Config
begin

text \<open>
  \<open>json.dumps(value, sort_keys=True, separators=(",", ":"), ensure_ascii=False)\<close>, the canonical
  serialisation that the code hashes.
\<close>

definition json_char :: "char \<Rightarrow> string" where
  "json_char c = (let n = of_char c :: nat; bs = char_of (92 :: nat) in
     if n = 92 \<or> n = 34 then [bs, c]
     else if n = 8 then [bs, CHR ''b'']
     else if n = 12 then [bs, CHR ''f'']
     else if n = 10 then [bs, CHR ''n'']
     else if n = 13 then [bs, CHR ''r'']
     else if n = 9 then [bs, CHR ''t'']
     else if n < 32 then [bs, CHR ''u'', CHR ''0'', CHR ''0'', hex_digit (n div 16), hex_digit (n mod 16)]
     else [c])"

definition json_str :: "string \<Rightarrow> string" where
  "json_str s = [char_of (34 :: nat)] @ concat (map json_char s) @ [char_of (34 :: nat)]"

fun json_float :: "pyfloat \<Rightarrow> string" where
  "json_float PosInf = ''Infinity''"
| "json_float NegInf = ''-Infinity''"
| "json_float NaN = ''NaN''"
| "json_float (Fin q) = float_repr (Fin q)"

fun json_dumps :: "pyval \<Rightarrow> string" where
  "json_dumps PNone = ''null''"
| "json_dumps (PBool b) = (if b then ''true'' else ''false'')"
| "json_dumps (PInt n) = int_str n"
| "json_dumps (PFloat f) = json_float f"
| "json_dumps (PStr s) = json_str s"
| "json_dumps (PList xs) = ''['' @ join '','' (map json_dumps xs) @ '']''"
| "json_dumps (PDict d) = ''{'' @ join '','' (map snd (sort_by (\<lambda>a b. str_lt (fst a) (fst b))
       (map (\<lambda>(k, v). (k, json_str k @ '':'' @ json_dumps v)) d))) @ ''}''"

lemma str_lt_irrefl [simp]: "\<not> str_lt s s"
  by (induction s) auto

lemma str_lt_trans: "str_lt a b \<Longrightarrow> str_lt b c \<Longrightarrow> str_lt a c"
proof (induction a b arbitrary: c rule: str_lt.induct)
  case (3 x xs y ys)
  then show ?case by (cases c) (auto split: if_splits)
next
  case (2 v va)
  then show ?case by (cases c) auto
qed simp

lemma str_lt_linear: "str_lt a b \<or> a = b \<or> str_lt b a"
proof (induction a b rule: str_lt.induct)
  case (1 uu)
  then show ?case by (cases uu) auto
next
  case (3 a as b bs)
  show ?case
  proof (cases "a = b")
    case False
    then have "(of_char a :: nat) < of_char b \<or> (of_char b :: nat) < of_char a" by (metis nat_neq_iff of_char_eq_iff)
    with False show ?thesis by auto
  qed (use 3 in auto)
qed simp

lemma str_lt_asym: "str_lt a b \<Longrightarrow> \<not> str_lt b a"
  using str_lt_trans str_lt_irrefl by blast

lemma str_lt_weak_order: "weak_order (\<lambda>a b. str_lt (f a) (f b))"
  unfolding weak_order_def by (metis str_lt_asym str_lt_linear str_lt_trans)

text \<open>Sorting by a string key is a canonical form: it depends only on the set of entries.\<close>

lemma ins_by_distinct_unique:
  assumes "sorted_wrt (\<lambda>a b. str_lt (f a) (f b)) xs" "sorted_wrt (\<lambda>a b. str_lt (f a) (f b)) ys" "set xs = set ys"
  shows "xs = ys"
  using assms
proof (induction xs arbitrary: ys)
  case (Cons x xs)
  then obtain y ys' where ys: "ys = y # ys'" by (cases ys) auto
  have "x = y"
  proof (rule ccontr)
    assume "x \<noteq> y"
    then have "str_lt (f x) (f y)" "str_lt (f y) (f x)" using Cons.prems by (auto simp: ys)
    then show False using str_lt_asym by blast
  qed
  moreover have "x \<notin> set xs" "y \<notin> set ys'" using Cons.prems by (auto simp: ys)
  ultimately have "set xs = set ys'" using Cons.prems(3) by (simp add: ys insert_ident)
  then have "xs = ys'" using Cons by (simp add: ys)
  with \<open>x = y\<close> show ?case by (simp add: ys)
qed simp

lemma sort_by_strict:
  assumes "inj_on f (set xs)" "distinct xs"
  shows "sorted_wrt (\<lambda>a b. str_lt (f a) (f b)) (sort_by (\<lambda>a b. str_lt (f a) (f b)) xs)"
proof -
  let ?s = "sort_by (\<lambda>a b. str_lt (f a) (f b)) xs"
  have srt: "sorted_wrt (\<lambda>a b. \<not> str_lt (f b) (f a)) ?s" by (rule sorted_sort_by) (rule str_lt_weak_order)
  have "str_lt (f (?s ! i)) (f (?s ! j))" if "i < j" "j < length ?s" for i j
  proof -
    have "?s ! i \<noteq> ?s ! j" using that assms(2) by (subst nth_eq_iff_index_eq) auto
    moreover have "?s ! i \<in> set xs" "?s ! j \<in> set xs" using that nth_mem [of i ?s] nth_mem [of j ?s] by auto
    ultimately have "f (?s ! i) \<noteq> f (?s ! j)" using assms(1) by (auto dest: inj_onD)
    moreover have "\<not> str_lt (f (?s ! j)) (f (?s ! i))" using srt that unfolding sorted_wrt_iff_nth_less by blast
    ultimately show ?thesis using str_lt_linear by blast
  qed
  then show ?thesis unfolding sorted_wrt_iff_nth_less by blast
qed

lemma sort_by_set_unique:
  assumes "inj_on f (set xs)" "distinct xs" "distinct ys" "set xs = set ys"
  shows "sort_by (\<lambda>a b. str_lt (f a) (f b)) xs = sort_by (\<lambda>a b. str_lt (f a) (f b)) ys"
  using assms by (intro ins_by_distinct_unique [of f] sort_by_strict) auto

text \<open>The serialisation does not depend on the order in which a dict was built.\<close>

lemma json_dumps_dict_order:
  assumes "distinct (map fst d)" "distinct (map fst d')" "set d = set d'"
  shows "json_dumps (PDict d) = json_dumps (PDict d')"
proof -
  let ?g = "\<lambda>(k, v). (k, json_str k @ '':'' @ json_dumps v)"
  have fst: "map fst (map ?g xs) = map fst xs" for xs by (induction xs) auto
  have "distinct (map fst (map ?g d))" "distinct (map fst (map ?g d'))" unfolding fst by fact+
  then have "distinct (map ?g d)" "distinct (map ?g d')" "inj_on fst (set (map ?g d))"
    unfolding distinct_map [of fst] by blast+
  moreover have "set (map ?g d) = set (map ?g d')" using assms(3) by simp
  ultimately show ?thesis using sort_by_set_unique [of fst "map ?g d" "map ?g d'"] by simp
qed

end
