(* ===== verification/One_Vote_Dedup.thy ===== *)
theory One_Vote_Dedup
  imports Evidence Json
begin

text \<open>
  \<open>services/infonet/bootstrap/one_vote_dedup.py\<close>: at most one bootstrap vote per node, chosen by the
  smallest event hash.
\<close>

subsection \<open>The code\<close>

definition canonical_event_hash :: "primitives \<Rightarrow> pydict \<Rightarrow> string" where
  "canonical_event_hash P ev = sha256 P (json_dumps (PDict ev))"

definition vote_node :: "string \<Rightarrow> pydict \<Rightarrow> string option" where
  "vote_node m ev =
     (if \<not> ev_is ''bootstrap_resolution_vote'' ev then None
      else if get (payload ev) ''market_id'' \<noteq> PStr m then None
      else nonempty_str (get ev ''node_id''))"

type_synonym candidates = "(string \<times> (string \<times> pydict) list) list"

definition add_candidate :: "primitives \<Rightarrow> string \<Rightarrow> pydict \<Rightarrow> candidates \<Rightarrow> candidates" where
  "add_candidate P m ev d = (case vote_node m ev of
       None \<Rightarrow> d
     | Some node \<Rightarrow> AList.update node (dict_get d node [] @ [(canonical_event_hash P ev, ev)]) d)"

definition candidates_per_node :: "primitives \<Rightarrow> string \<Rightarrow> chain \<Rightarrow> candidates" where
  "candidates_per_node P m chain = fold (add_candidate P m) (events_of chain) []"

text \<open>\<open>candidates.sort(key=lambda c: (c[0], int(c[1].get("sequence") or 0)))\<close>, then the first one\<close>

definition hash_seq_lt :: "(string \<times> int) \<times> pydict \<Rightarrow> (string \<times> int) \<times> pydict \<Rightarrow> bool" where
  "hash_seq_lt a b = (if fst (fst a) = fst (fst b) then snd (fst a) < snd (fst b) else str_lt (fst (fst a)) (fst (fst b)))"

definition candidate_key :: "string \<times> pydict \<Rightarrow> ((string \<times> int) \<times> pydict) res" where
  "candidate_key = (\<lambda>(h, ev). bnd (py_int (py_or (get ev ''sequence'') (PInt 0))) (\<lambda>sq. Inr ((h, sq), ev)))"

definition pick_candidate :: "(string \<times> pydict) list \<Rightarrow> pydict res" where
  "pick_candidate cands = bnd (mapres candidate_key cands) (\<lambda>keyed. case sort_by hash_seq_lt keyed of
       [] \<Rightarrow> Inl IndexError | (k, ev) # _ \<Rightarrow> Inr ev)"

text \<open>\<open>canonical.sort(key=lambda e: (e.get("node_id") or "", canonical_event_hash(e)))\<close>\<close>

definition pair_lt :: "string \<times> string \<Rightarrow> string \<times> string \<Rightarrow> bool" where
  "pair_lt a b = (if fst a = fst b then str_lt (snd a) (snd b) else str_lt (fst a) (fst b))"

definition vote_key :: "primitives \<Rightarrow> pydict \<Rightarrow> string \<times> string" where
  "vote_key P ev = (case get ev ''node_id'' of PStr s \<Rightarrow> s | _ \<Rightarrow> [], canonical_event_hash P ev)"

definition deduplicate_votes :: "primitives \<Rightarrow> string \<Rightarrow> chain \<Rightarrow> pydict list res" where
  "deduplicate_votes P m chain =
     bnd (mapres (\<lambda>(node, cands). pick_candidate cands) (candidates_per_node P m chain)) (\<lambda>canonical.
       Inr (sort_by (\<lambda>a b. pair_lt (vote_key P a) (vote_key P b)) canonical))"

subsection \<open>The candidates of a node\<close>

definition votes_of :: "primitives \<Rightarrow> string \<Rightarrow> string \<Rightarrow> pydict list \<Rightarrow> (string \<times> pydict) list" where
  "votes_of P m node evs = map (\<lambda>ev. (canonical_event_hash P ev, ev)) (filter (\<lambda>ev. vote_node m ev = Some node) evs)"

lemma candidates_get: "dict_get (fold (add_candidate P m) evs []) node [] = votes_of P m node evs"
proof (induction evs rule: rev_induct)
  case (snoc ev evs)
  then show ?case by (cases "vote_node m ev") (auto simp: add_candidate_def votes_of_def)
qed (simp add: votes_of_def)

lemma candidates_keys: "fst ` set (fold (add_candidate P m) evs []) = {n. \<exists>ev \<in> set evs. vote_node m ev = Some n}"
proof (induction evs rule: rev_induct)
  case (snoc ev evs)
  then show ?case by (cases "vote_node m ev") (auto simp: add_candidate_def dom_update)
qed simp

lemma candidates_distinct: "distinct (map fst (fold (add_candidate P m) evs []))"
proof (induction evs rule: rev_induct)
  case (snoc ev evs)
  then show ?case by (cases "vote_node m ev") (auto simp: add_candidate_def distinct_update)
qed simp

lemma candidates_entry:
  "(node, cands) \<in> set (fold (add_candidate P m) evs []) \<Longrightarrow> cands = votes_of P m node evs \<and> cands \<noteq> []"
proof -
  assume in_set: "(node, cands) \<in> set (fold (add_candidate P m) evs [])"
  then have "map_of (fold (add_candidate P m) evs []) node = Some cands" using candidates_distinct by simp
  then have c: "cands = votes_of P m node evs" using candidates_get [of P m evs node] by (simp add: dict_get_def)
  have "node \<in> {n. \<exists>ev \<in> set evs. vote_node m ev = Some n}"
    using in_set unfolding candidates_keys [symmetric, where m = m and evs = evs and P = P] by force
  then show ?thesis using c by (auto simp: votes_of_def filter_empty_conv)
qed

subsection \<open>The choice is the minimum\<close>

lemma hash_seq_weak_order: "weak_order hash_seq_lt"
  unfolding weak_order_def hash_seq_lt_def by (smt (verit) str_lt_asym str_lt_linear str_lt_trans)

lemma pair_lt_weak_order: "weak_order (\<lambda>a b. pair_lt (f a) (f b))"
  unfolding weak_order_def pair_lt_def by (smt (verit) str_lt_asym str_lt_linear str_lt_trans)

lemma pick_candidate_min:
  assumes "pick_candidate cands = Inr ev"
  shows "\<exists>h. (h, ev) \<in> set cands \<and> (\<forall>(h', ev') \<in> set cands. \<not> str_lt h' h)"
proof -
  from assms obtain keyed where keyed: "mapres candidate_key cands = Inr keyed"
    and pick: "(case sort_by hash_seq_lt keyed of [] \<Rightarrow> Inl IndexError | (k, ev) # _ \<Rightarrow> Inr ev) = Inr ev"
    unfolding pick_candidate_def bnd_eq_Inr by blast
  from pick obtain k rest where srt: "sort_by hash_seq_lt keyed = (k, ev) # rest"
    by (cases "sort_by hash_seq_lt keyed") auto
  have key: "fst (fst kk) = fst c \<and> snd kk = snd c" if "candidate_key c = Inr kk" for c kk
    using that by (cases c) (auto simp: candidate_key_def bnd_eq_Inr)
  have in1: "(k, ev) \<in> set keyed" by (metis srt set_sort_by list.set_intros(1))
  then obtain c where c: "c \<in> set cands" "candidate_key c = Inr (k, ev)"
    using mapres_source [OF keyed] by blast
  have "\<not> str_lt h' (fst k)" if h': "(h', ev') \<in> set cands" for h' ev'
  proof -
    obtain kk where kk: "kk \<in> set keyed" "candidate_key (h', ev') = Inr kk"
      using mapres_target [OF keyed h'] by blast
    have "sorted_wrt (\<lambda>a b. \<not> hash_seq_lt b a) ((k, ev) # rest)"
      unfolding srt [symmetric] by (rule sorted_sort_by) (rule hash_seq_weak_order)
    moreover have "kk \<in> insert (k, ev) (set rest)" using kk(1) srt by (metis set_sort_by list.simps(15))
    ultimately have "\<not> hash_seq_lt kk (k, ev)" by (auto simp: hash_seq_lt_def)
    then show ?thesis using key [OF kk(2)] str_lt_irrefl by (auto simp: hash_seq_lt_def split: if_splits)
  qed
  then show ?thesis using c key [OF c(2)] by (intro exI [of _ "fst k"]) (cases c, auto)
qed

lemma mapres_ok_iff: "(\<exists>ys. mapres f xs = Inr ys) \<longleftrightarrow> (\<forall>x \<in> set xs. \<exists>y. f x = Inr y)"
  by (induction xs) (auto simp: bnd_eq_Inr)

lemma pick_candidate_ok_iff:
  "(\<exists>ev. pick_candidate cands = Inr ev) \<longleftrightarrow> cands \<noteq> [] \<and> (\<forall>c \<in> set cands. \<exists>k. candidate_key c = Inr k)"
proof -
  have "(\<exists>ev. pick_candidate cands = Inr ev) \<longleftrightarrow> cands \<noteq> [] \<and> (\<exists>ks. mapres candidate_key cands = Inr ks)"
  proof (cases "mapres candidate_key cands")
    case (Inr ks)
    then have "length ks = length cands" by (rule mapres_length)
    with Inr show ?thesis by (cases "sort_by hash_seq_lt ks") (auto simp: pick_candidate_def)
  qed (simp add: pick_candidate_def)
  then show ?thesis by (simp add: mapres_ok_iff)
qed

lemma set_votes_of:
  "set (votes_of P m node evs) = (\<lambda>ev. (canonical_event_hash P ev, ev)) ` {ev \<in> set evs. vote_node m ev = Some node}"
  by (simp add: votes_of_def)

lemma vote_node_id: "vote_node m ev = Some node \<Longrightarrow> get ev ''node_id'' = PStr node \<and> fst (vote_key P ev) = node"
  by (simp add: vote_node_def vote_key_def split: if_splits)

text \<open>The vote of a node: one of its votes on the market, of the smallest hash.\<close>

definition chosen_vote :: "primitives \<Rightarrow> string \<Rightarrow> pydict list \<Rightarrow> string \<Rightarrow> pydict \<Rightarrow> bool" where
  "chosen_vote P m evs node ev \<longleftrightarrow> ev \<in> set evs \<and> vote_node m ev = Some node
     \<and> (\<forall>ev' \<in> set evs. vote_node m ev' = Some node \<longrightarrow> \<not> str_lt (canonical_event_hash P ev') (canonical_event_hash P ev))"

lemma pick_votes_of:
  assumes "pick_candidate (votes_of P m node evs) = Inr ev" shows "chosen_vote P m evs node ev"
  using pick_candidate_min [OF assms] unfolding chosen_vote_def set_votes_of by blast

lemma dedup_result:
  assumes "deduplicate_votes P m chain = Inr vs"
  shows "\<exists>canonical. vs = sort_by (\<lambda>a b. pair_lt (vote_key P a) (vote_key P b)) canonical
    \<and> distinct (map (\<lambda>ev. fst (vote_key P ev)) canonical)
    \<and> (\<forall>node. (\<exists>ev \<in> set (events_of chain). vote_node m ev = Some node) \<longrightarrow>
         (\<exists>ev \<in> set canonical. pick_candidate (votes_of P m node (events_of chain)) = Inr ev \<and> chosen_vote P m (events_of chain) node ev))
    \<and> (\<forall>ev \<in> set canonical. \<exists>node. chosen_vote P m (events_of chain) node ev)"
proof -
  let ?evs = "events_of chain" and ?d = "candidates_per_node P m chain"
  from assms obtain canonical where c: "mapres (\<lambda>(node, cands). pick_candidate cands) ?d = Inr canonical"
    and vs: "vs = sort_by (\<lambda>a b. pair_lt (vote_key P a) (vote_key P b)) canonical"
    by (auto simp: deduplicate_votes_def bnd_eq_Inr)
  have entry: "cands = votes_of P m node ?evs" if "(node, cands) \<in> set ?d" for node cands
    using candidates_entry that unfolding candidates_per_node_def by blast
  have pick: "chosen_vote P m ?evs node ev" if "(node, cands) \<in> set ?d" "pick_candidate cands = Inr ev" for node cands ev
    using entry [OF that(1)] that(2) pick_votes_of by simp
  have "list_all2 (\<lambda>x ev. (case x of (node, cands) \<Rightarrow> pick_candidate cands) = Inr ev) ?d canonical" using c by (simp add: mapres_Inr_conv)
  then have "list_all2 (\<lambda>x ev. fst x = fst (vote_key P ev)) ?d canonical"
    by (rule list.rel_mono_strong) (use pick vote_node_id in \<open>fastforce simp: chosen_vote_def\<close>)
  then have "map fst ?d = map (\<lambda>ev. fst (vote_key P ev)) canonical" by (auto simp: list_all2_conv_all_nth intro: nth_equalityI)
  then have "distinct (map (\<lambda>ev. fst (vote_key P ev)) canonical)" using candidates_distinct by (metis candidates_per_node_def)
  moreover have "\<exists>ev \<in> set canonical. pick_candidate (votes_of P m node ?evs) = Inr ev \<and> chosen_vote P m ?evs node ev"
    if "\<exists>ev \<in> set ?evs. vote_node m ev = Some node" for node
  proof -
    have "node \<in> fst ` set ?d" using that by (simp add: candidates_per_node_def candidates_keys)
    then obtain cands where nc: "(node, cands) \<in> set ?d" by force
    from mapres_target [OF c nc] obtain ev where "ev \<in> set canonical" "pick_candidate cands = Inr ev" by auto
    then show ?thesis using pick [OF nc] entry [OF nc] by blast
  qed
  moreover have "\<exists>node. chosen_vote P m ?evs node ev" if "ev \<in> set canonical" for ev
    using mapres_source [OF c that] pick by fastforce
  ultimately show ?thesis using vs by blast
qed

lemma sort_by_node:
  assumes "distinct (map (\<lambda>ev. fst (vote_key P ev)) evs)"
  shows "sort_by (\<lambda>a b. pair_lt (vote_key P a) (vote_key P b)) evs = sort_by (\<lambda>a b. str_lt (fst (vote_key P a)) (fst (vote_key P b))) evs"
proof (rule sort_by_cong)
  fix a b assume "a \<in> set evs" "b \<in> set evs"
  with assms have "a = b \<or> fst (vote_key P a) \<noteq> fst (vote_key P b)" by (auto simp: distinct_map dest: inj_onD)
  then show "pair_lt (vote_key P a) (vote_key P b) = str_lt (fst (vote_key P a)) (fst (vote_key P b))" by (auto simp: pair_lt_def)
qed

text \<open>Whether deduplication raises depends on the set of votes only.\<close>

lemma dedup_success:
  assumes "deduplicate_votes P m chain = Inr vs"
    and same: "\<And>node. {ev \<in> set (events_of chain'). vote_node m ev = Some node} = {ev \<in> set (events_of chain). vote_node m ev = Some node}"
  shows "\<exists>vs'. deduplicate_votes P m chain' = Inr vs'"
proof -
  let ?evs = "events_of chain" and ?evs' = "events_of chain'"
  have cand: "set (votes_of P m node ?evs') = set (votes_of P m node ?evs)" for node by (simp add: set_votes_of same)
  have keys: "fst ` set (candidates_per_node P m c) = {n. \<exists>ev \<in> set (events_of c). vote_node m ev = Some n}" for c
    by (simp add: candidates_per_node_def candidates_keys)
  have a: "\<exists>ev. pick_candidate (votes_of P m node ?evs) = Inr ev" if "\<exists>ev \<in> set ?evs. vote_node m ev = Some node" for node
    using dedup_result [OF assms(1)] that by blast
  have ok: "\<exists>ev. (case x of (node, cands) \<Rightarrow> pick_candidate cands) = Inr ev" if x: "x \<in> set (candidates_per_node P m chain')" for x
  proof -
    obtain node cands where nc: "x = (node, cands)" by fastforce
    then have e: "cands = votes_of P m node ?evs'" "cands \<noteq> []" using candidates_entry x unfolding candidates_per_node_def by blast+
    have "node \<in> fst ` set (candidates_per_node P m chain')" using x nc by force
    then have "\<exists>ev \<in> set ?evs'. vote_node m ev = Some node" unfolding keys by blast
    then have "\<exists>ev \<in> set ?evs. vote_node m ev = Some node" using same [of node] by blast
    from a [OF this] have "\<exists>ev. pick_candidate (votes_of P m node ?evs) = Inr ev" by blast
    then have "\<forall>c \<in> set (votes_of P m node ?evs). \<exists>k. candidate_key c = Inr k" unfolding pick_candidate_ok_iff by blast
    then have "\<forall>c \<in> set cands. \<exists>k. candidate_key c = Inr k" unfolding e(1) cand .
    then have "\<exists>ev. pick_candidate cands = Inr ev" using e(2) unfolding pick_candidate_ok_iff by blast
    then show ?thesis by (simp add: nc)
  qed
  then have "\<exists>ys. mapres (\<lambda>(node, cands). pick_candidate cands) (candidates_per_node P m chain') = Inr ys"
    unfolding mapres_ok_iff by blast
  then obtain ys where "mapres (\<lambda>(node, cands). pick_candidate cands) (candidates_per_node P m chain') = Inr ys" by blast
  then show ?thesis unfolding deduplicate_votes_def by (simp only: bnd_Inr) blast
qed

subsection \<open>One vote per node, whatever the order\<close>

text \<open>
  C9: Deduplication keeps exactly one vote of every node that voted on the market, none of whose
  other votes has a smaller event hash.
\<close>

theorem dedup_one_vote:
  assumes "deduplicate_votes P m chain = Inr vs"
  shows "distinct (map (\<lambda>ev. get ev ''node_id'') vs)
    \<and> (\<forall>ev \<in> set vs. \<exists>node. chosen_vote P m (events_of chain) node ev)
    \<and> (\<forall>ev \<in> set (events_of chain). \<forall>node. vote_node m ev = Some node \<longrightarrow> (\<exists>v \<in> set vs. chosen_vote P m (events_of chain) node v))"
proof -
  from dedup_result [OF assms] obtain canonical where vs: "vs = sort_by (\<lambda>a b. pair_lt (vote_key P a) (vote_key P b)) canonical"
    and d: "distinct (map (\<lambda>ev. fst (vote_key P ev)) canonical)"
    and a: "\<forall>node. (\<exists>ev \<in> set (events_of chain). vote_node m ev = Some node) \<longrightarrow>
         (\<exists>ev \<in> set canonical. pick_candidate (votes_of P m node (events_of chain)) = Inr ev \<and> chosen_vote P m (events_of chain) node ev)"
    and c: "\<forall>ev \<in> set canonical. \<exists>node. chosen_vote P m (events_of chain) node ev" by blast
  have id: "get ev ''node_id'' = PStr (fst (vote_key P ev))" if "ev \<in> set canonical" for ev
    using c that vote_node_id unfolding chosen_vote_def by metis
  have "distinct canonical" "inj_on (\<lambda>ev. fst (vote_key P ev)) (set canonical)" using d by (simp_all add: distinct_map)
  then have "distinct vs" "inj_on (\<lambda>ev. get ev ''node_id'') (set vs)" using id by (auto simp: vs inj_on_def)
  then show ?thesis using a c by (auto simp: distinct_map vs)
qed

theorem dedup_one_vote_witness:
  defines "ev \<equiv> [(''event_type'', PStr ''bootstrap_resolution_vote''), (''node_id'', PStr ''n''), (''payload'', PDict [(''market_id'', PStr ''m'')])]"
  shows "\<exists>vs. deduplicate_votes plain_primitives ''m'' [PDict ev] = Inr vs \<and> distinct (map (\<lambda>ev. get ev ''node_id'') vs)"
proof -
  have "vote_node ''m'' ev = Some ''n''" by (simp add: ev_def vote_node_def ev_is_def payload_def)
  then have "candidates_per_node plain_primitives ''m'' [PDict ev] = [(''n'', [(canonical_event_hash plain_primitives ev, ev)])]"
    by (simp add: candidates_per_node_def add_candidate_def)
  then have "deduplicate_votes plain_primitives ''m'' [PDict ev] = Inr [ev]"
    by (simp add: deduplicate_votes_def pick_candidate_def candidate_key_def ev_def py_or_def)
  then show ?thesis using dedup_one_vote by blast
qed

text \<open>
  Deduplication is stateless: any chain with the same bootstrap votes on the market, in any order
  and with any repetitions, gives the same list, provided no two of these votes have the same hash.
\<close>

theorem dedup_order_independent:
  assumes "deduplicate_votes P m chain = Inr vs"
    and votes: "{ev \<in> set (events_of chain'). vote_node m ev \<noteq> None} = {ev \<in> set (events_of chain). vote_node m ev \<noteq> None}"
    and inj: "inj_on (canonical_event_hash P) {ev \<in> set (events_of chain). vote_node m ev \<noteq> None}"
  shows "deduplicate_votes P m chain' = Inr vs"
proof -
  let ?evs = "events_of chain" and ?evs' = "events_of chain'"
  have same: "{ev \<in> set ?evs'. vote_node m ev = Some node} = {ev \<in> set ?evs. vote_node m ev = Some node}" for node using votes by fastforce
  from dedup_result [OF assms(1)] obtain canonical where vs: "vs = sort_by (\<lambda>a b. pair_lt (vote_key P a) (vote_key P b)) canonical"
    and d: "distinct (map (\<lambda>ev. fst (vote_key P ev)) canonical)"
    and a: "\<And>node. \<exists>ev \<in> set ?evs. vote_node m ev = Some node \<Longrightarrow>
         \<exists>ev \<in> set canonical. pick_candidate (votes_of P m node ?evs) = Inr ev \<and> chosen_vote P m ?evs node ev"
    and c: "\<And>ev. ev \<in> set canonical \<Longrightarrow> \<exists>node. chosen_vote P m ?evs node ev" by blast
  obtain vs' where vs': "deduplicate_votes P m chain' = Inr vs'" using dedup_success [OF assms(1) same] by blast
  from dedup_result [OF vs'] obtain canonical' where vs2: "vs' = sort_by (\<lambda>a b. pair_lt (vote_key P a) (vote_key P b)) canonical'"
    and d': "distinct (map (\<lambda>ev. fst (vote_key P ev)) canonical')"
    and a': "\<And>node. \<exists>ev \<in> set ?evs'. vote_node m ev = Some node \<Longrightarrow>
         \<exists>ev \<in> set canonical'. pick_candidate (votes_of P m node ?evs') = Inr ev \<and> chosen_vote P m ?evs' node ev"
    and c': "\<And>ev. ev \<in> set canonical' \<Longrightarrow> \<exists>node. chosen_vote P m ?evs' node ev" by blast
  have chosen: "chosen_vote P m ?evs' node ev = chosen_vote P m ?evs node ev" for node ev using same unfolding chosen_vote_def by blast
  have uniq: "x = y" if "chosen_vote P m ?evs node x" "chosen_vote P m ?evs node y" for node x y
  proof -
    have "canonical_event_hash P x = canonical_event_hash P y" using that str_lt_linear unfolding chosen_vote_def by metis
    moreover have "x \<in> {ev \<in> set ?evs. vote_node m ev \<noteq> None}" "y \<in> {ev \<in> set ?evs. vote_node m ev \<noteq> None}"
      using that by (simp_all add: chosen_vote_def)
    ultimately show ?thesis using inj by (simp add: inj_on_def)
  qed
  have "set canonical' = set canonical"
  proof (intro equalityI subsetI)
    fix ev assume "ev \<in> set canonical'"
    then obtain node where n: "chosen_vote P m ?evs node ev" using c' chosen by blast
    then obtain w where "w \<in> set canonical" "chosen_vote P m ?evs node w" using a unfolding chosen_vote_def by blast
    with n uniq show "ev \<in> set canonical" by blast
  next
    fix ev assume "ev \<in> set canonical"
    then obtain node where n: "chosen_vote P m ?evs node ev" using c by blast
    then have "\<exists>ev \<in> set ?evs'. vote_node m ev = Some node" using same unfolding chosen_vote_def by blast
    then obtain w where "w \<in> set canonical'" "chosen_vote P m ?evs node w" using a' chosen by blast
    with n uniq show "ev \<in> set canonical'" by blast
  qed
  then have "vs' = vs" unfolding vs vs2 sort_by_node [OF d] sort_by_node [OF d']
    using d d' by (intro sort_by_set_unique) (simp_all add: distinct_map)
  with vs' show ?thesis by simp
qed

theorem dedup_order_independent_witness:
  defines "ev \<equiv> [(''event_type'', PStr ''bootstrap_resolution_vote''), (''node_id'', PStr ''n''), (''payload'', PDict [(''market_id'', PStr ''m'')])]"
  shows "deduplicate_votes plain_primitives ''m'' [PNone, PDict ev, PDict ev] = Inr [ev]"
proof -
  have v: "vote_node ''m'' ev = Some ''n''" by (simp add: ev_def vote_node_def ev_is_def payload_def)
  then have "candidates_per_node plain_primitives ''m'' [PDict ev] = [(''n'', [(canonical_event_hash plain_primitives ev, ev)])]"
    by (simp add: candidates_per_node_def add_candidate_def)
  then have one: "deduplicate_votes plain_primitives ''m'' [PDict ev] = Inr [ev]"
    by (simp add: deduplicate_votes_def pick_candidate_def candidate_key_def ev_def py_or_def)
  show ?thesis by (rule dedup_order_independent [OF one]) (auto simp: events_of_Cons inj_on_def)
qed

end
