(* ===== verification/Config_Cross.thy ===== *)
theory Config_Cross
  imports Config_Reads
begin

text \<open>
  What the cross-field invariants of a well-formed configuration give to the modules that read two
  related parameters.
\<close>

lemma config_ok_cross:
  assumes "config_ok cfg" "(l, ''>'', r) \<in> set cross_field_invariants"
    and "cfg_get cfg l = Inr a" "cfg_get cfg r = Inr b"
  shows "py_lt b a = Inr True"
proof -
  have all: "foldres (\<lambda>inv _. check_invariant cfg inv) invs () = Inr () \<Longrightarrow> inv \<in> set invs \<Longrightarrow> check_invariant cfg inv = Inr ()" for inv invs
    by (induction invs) (auto simp: bnd_eq_Inr)
  have "foldres (\<lambda>inv _. check_invariant cfg inv) cross_field_invariants () = Inr ()"
    using assms(1) by (simp add: config_ok_def validate_cross_field_invariants_def)
  from all [OF this assms(2)] have "check_invariant cfg (l, ''>'', r) = Inr ()" .
  then show ?thesis using assms(3,4)
    by (auto simp: check_invariant_def cfg_get_def get_def bnd_eq_Inr split: if_splits option.splits)
qed

lemma cross_int:
  assumes "config_ok cfg" "(l, ''>'', r) \<in> set cross_field_invariants"
    and "map_of config_schema l = Some (entry ''int'' (Some (PInt lo)) (Some (PInt hi)) en)"
    and "map_of config_schema r = Some (entry ''int'' (Some (PInt lo')) (Some (PInt hi')) en')"
    and "cfg_int cfg l = Inr a" "cfg_int cfg r = Inr b"
  shows "b < a"
proof -
  obtain a' b' where g: "cfg_get cfg l = Inr (PInt a')" "cfg_get cfg r = Inr (PInt b')"
    using config_ok_int [OF assms(1,3)] config_ok_int [OF assms(1,4)] by blast
  then show ?thesis using config_ok_cross [OF assms(1,2) g] assms(5,6) by (simp add: cfg_int_def)
qed

text \<open>The related float parameters are ordered as floats, so neither is NaN.\<close>

definition float_key :: "string \<Rightarrow> bool" where
  "float_key k \<longleftrightarrow> (\<exists>lo hi en. map_of config_schema k = Some (entry ''float'' (Some (PFloat lo)) (Some (PFloat hi)) en)
     \<and> fle lo (Fin (2 ^ 53)) \<and> fle (Fin (- (2 ^ 53))) lo \<and> fle hi (Fin (2 ^ 53)))"

lemma float_keyI:
  assumes "map_of config_schema k = Some (entry ''float'' (Some (PFloat (fl p))) (Some (PFloat (fl q))) en)"
    and "0 \<le> p" "p \<le> 1000" "q \<le> 1000"
  shows "float_key k"
  unfolding float_key_def using assms fle_fl_bounds by blast

lemma float_key_read:
  assumes "config_ok cfg" "float_key k"
  shows "\<exists>v f. cfg_get cfg k = Inr v \<and> cfg_float cfg k = Inr f \<and> num_val v = Some f \<and> is_number v"
proof -
  from assms(2) obtain lo hi en where s: "map_of config_schema k = Some (entry ''float'' (Some (PFloat lo)) (Some (PFloat hi)) en)"
    "fle lo (Fin (2 ^ 53))" "fle (Fin (- (2 ^ 53))) lo" "fle hi (Fin (2 ^ 53))" unfolding float_key_def by blast
  from config_ok_get [OF assms(1) s(1)] obtain v where v: "cfg_get cfg k = Inr v"
    "check_entry (entry ''float'' (Some (PFloat lo)) (Some (PFloat hi)) en) v = Inr ()" by blast
  from check_entry_float [OF v(2) s(2-4)] obtain f where "py_float v = Inr f" "num_val v = Some f" by blast
  moreover have "is_number v" using v(2) by (cases v) (auto simp: check_entry_def type_matches_def split: if_splits)
  ultimately show ?thesis using v(1) by (simp add: cfg_float_def)
qed

lemma cross_float:
  assumes "config_ok cfg" "(l, ''>'', r) \<in> set cross_field_invariants" "float_key l" "float_key r"
    and "cfg_float cfg l = Inr f" "cfg_float cfg r = Inr g"
  shows "flt g f"
proof -
  obtain a f' where a: "cfg_get cfg l = Inr a" "cfg_float cfg l = Inr f'" "num_val a = Some f'" "is_number a"
    using float_key_read [OF assms(1,3)] by blast
  obtain b g' where b: "cfg_get cfg r = Inr b" "cfg_float cfg r = Inr g'" "num_val b = Some g'" "is_number b"
    using float_key_read [OF assms(1,4)] by blast
  have "py_lt b a = Inr (flt g' f')" using a(3,4) b(3,4) by (cases a; cases b) auto
  then show ?thesis using config_ok_cross [OF assms(1,2) a(1) b(1)] a(2) b(2) assms(5,6) by simp
qed

lemma ramp_ascending:
  assumes "config_ok cfg"
    and "cfg_int cfg ''ramp_staked_resolution_threshold'' = Inr s" "cfg_int cfg ''ramp_petitions_threshold'' = Inr p"
    and "cfg_int cfg ''ramp_upgrade_threshold'' = Inr u" "cfg_int cfg ''ramp_commoncoin_threshold'' = Inr c"
  shows "s < p \<and> p < u \<and> u < c"
  using cross_int [OF assms(1) _ schema_ramp_petitions_threshold schema_ramp_staked_resolution_threshold assms(3,2)]
    cross_int [OF assms(1) _ schema_ramp_upgrade_threshold schema_ramp_petitions_threshold assms(4,3)]
    cross_int [OF assms(1) _ schema_ramp_commoncoin_threshold schema_ramp_upgrade_threshold assms(5,4)]
  by (simp add: cross_field_invariants_def)

text \<open>The supermajorities that are compared with a quorum are numbers.\<close>

lemma resolution_supermajority_read:
  assumes "config_ok cfg"
  shows "\<exists>f. cfg_float cfg ''resolution_supermajority'' = Inr f \<and> fle (fl 0.51) f \<and> fle f (fl 0.95)"
proof -
  obtain f where f: "cfg_float cfg ''resolution_supermajority'' = Inr f" "f = NaN \<or> fle (fl 0.51) f \<and> fle f (fl 0.95)"
    using read_resolution_supermajority [OF assms] by blast
  obtain g where g: "cfg_float cfg ''data_unavailable_threshold'' = Inr g"
    using read_data_unavailable_threshold [OF assms] by blast
  have "flt g f"
    by (rule cross_float [OF assms _ _ _ f(1) g])
       (simp_all add: cross_field_invariants_def float_keyI [OF schema_resolution_supermajority] float_keyI [OF schema_data_unavailable_threshold])
  then have "f \<noteq> NaN" by auto
  with f show ?thesis by blast
qed

end
