(* ===== verification/Eligibility.thy ===== *)
theory Eligibility
  imports Resolution_Base Config_Cross
begin

text \<open>
  \<open>services/infonet/bootstrap/eligibility.py\<close> and \<open>bootstrap/ramp.py\<close>: who may vote on a bootstrap
  market, and which features a network of a given size has.
\<close>

subsection \<open>Eligibility\<close>

definition seconds_per_day :: pyfloat where
  "seconds_per_day = Fin 86400"

definition earlier :: "pyfloat \<Rightarrow> pyfloat option \<Rightarrow> pyfloat option" where
  "earlier ts e = (case e of None \<Rightarrow> Some ts | Some t \<Rightarrow> if flt ts t then Some ts else Some t)"

text \<open>\<open>float(v or 0.0)\<close> with the two exceptions caught that the code catches\<close>

definition float_or_zero :: "pyval \<Rightarrow> pyfloat option res" where
  "float_or_zero v = catching type_or_value (bnd (py_float (py_or v (PFloat (Fin 0)))) (\<lambda>f. Inr (Some f))) (Inr None)"

definition created_step :: "string \<Rightarrow> pydict \<Rightarrow> pyfloat option \<times> pyfloat option \<Rightarrow> (pyfloat option \<times> pyfloat option) res" where
  "created_step node_id ev = (\<lambda>(earliest_register, earliest_any).
     if get ev ''node_id'' \<noteq> PStr node_id then Inr (earliest_register, earliest_any)
     else bnd (float_or_zero (get ev ''timestamp'')) (\<lambda>t. case t of
         None \<Rightarrow> Inr (earliest_register, earliest_any)
       | Some ts \<Rightarrow> Inr (if ev_is ''node_register'' ev then earlier ts earliest_register else earliest_register, earlier ts earliest_any)))"

definition node_created_at :: "string \<Rightarrow> chain \<Rightarrow> pyfloat option res" where
  "node_created_at node_id chain = bnd (foldres (created_step node_id) (events_of chain) (None, None)) (\<lambda>(earliest_register, earliest_any).
     Inr (case earliest_register of Some t \<Rightarrow> Some t | None \<Rightarrow> earliest_any))"

definition is_identity_age_eligible :: "pydict \<Rightarrow> string \<Rightarrow> string \<Rightarrow> chain \<Rightarrow> pyfloat option \<Rightarrow> bool res" where
  "is_identity_age_eligible cfg node_id m chain min_age_days = bnd (find_snapshot m chain) (\<lambda>s. case s of
       None \<Rightarrow> Inr False
     | Some snapshot \<Rightarrow> bnd (float_or_zero (get snapshot ''frozen_at'')) (\<lambda>f. case f of
           None \<Rightarrow> Inr False
         | Some frozen_at \<Rightarrow> bnd (node_created_at node_id chain) (\<lambda>c. case c of
               None \<Rightarrow> Inr False
             | Some created_at \<Rightarrow>
                 bnd (case min_age_days of Some d \<Rightarrow> Inr d | None \<Rightarrow> cfg_float cfg ''bootstrap_min_identity_age_days'') (\<lambda>age_days.
                   Inr (fle (fadd created_at (fmul age_days seconds_per_day)) frozen_at)))))"

record eligibility_decision =
  eligible :: bool
  el_reason :: string

definition validate_bootstrap_eligibility :: "pydict \<Rightarrow> string \<Rightarrow> string \<Rightarrow> chain \<Rightarrow> eligibility_decision res" where
  "validate_bootstrap_eligibility cfg node_id m chain = bnd (find_snapshot m chain) (\<lambda>s.
     if s = None then Inr \<lparr>eligible = False, el_reason = ''snapshot_missing''\<rparr>
     else bnd (is_identity_age_eligible cfg node_id m chain None) (\<lambda>old.
       if \<not> old then Inr \<lparr>eligible = False, el_reason = ''identity_age_too_young''\<rparr>
       else bnd (excluded_predictor_ids m chain) (\<lambda>ex.
         if node_id \<in> set ex then Inr \<lparr>eligible = False, el_reason = ''predictor_excluded''\<rparr>
         else Inr \<lparr>eligible = True, el_reason = ''ok''\<rparr>)))"

subsection \<open>The feature ramp\<close>

definition count_step :: "pydict \<Rightarrow> string list \<times> string list \<Rightarrow> string list \<times> string list" where
  "count_step ev = (\<lambda>(registered, fallback). case nonempty_str (get ev ''node_id'') of
       None \<Rightarrow> (registered, fallback)
     | Some node \<Rightarrow> (if ev_is ''node_register'' ev then set_add node registered else registered, set_add node fallback))"

definition network_node_count :: "chain \<Rightarrow> nat" where
  "network_node_count chain = (let (registered, fallback) = fold count_step (events_of chain) ([], [])
     in if registered \<noteq> [] then length registered else length fallback)"

record active_features =
  bootstrap_resolution_active :: bool
  staked_resolution_active :: bool
  governance_petitions_active :: bool
  upgrade_governance_active :: bool
  commoncoin_active :: bool
  node_count :: nat

definition compute_active_features :: "pydict \<Rightarrow> chain \<Rightarrow> active_features res" where
  "compute_active_features cfg chain = (let n = network_node_count chain in
     bnd (cfg_int cfg ''bootstrap_threshold'') (\<lambda>bootstrap_threshold.
     bnd (cfg_int cfg ''ramp_staked_resolution_threshold'') (\<lambda>staked.
     bnd (cfg_int cfg ''ramp_petitions_threshold'') (\<lambda>petitions.
     bnd (cfg_int cfg ''ramp_upgrade_threshold'') (\<lambda>upgrade.
     bnd (cfg_int cfg ''ramp_commoncoin_threshold'') (\<lambda>commoncoin.
       Inr \<lparr>bootstrap_resolution_active = (int n < bootstrap_threshold), staked_resolution_active = (staked \<le> int n),
            governance_petitions_active = (petitions \<le> int n), upgrade_governance_active = (upgrade \<le> int n),
            commoncoin_active = (commoncoin \<le> int n), node_count = n\<rparr>))))))"

subsection \<open>When a node was created\<close>

lemma earlier_not_after:
  assumes "\<forall>s \<in> S. case e of None \<Rightarrow> False | Some t \<Rightarrow> \<not> flt s t"
  shows "\<forall>s \<in> insert ts S. case earlier ts e of None \<Rightarrow> False | Some t \<Rightarrow> \<not> flt s t"
proof -
  have irr: "\<not> flt ts ts" by (cases ts) auto
  have tr: "\<not> flt s ts" if "flt ts t" "\<not> flt s t" for s t using that by (meson flt_fle fle_flt_trans)
  show ?thesis
  proof (cases e)
    case (Some t)
    with assms irr tr show ?thesis by (simp add: earlier_def)
  qed (use assms irr in \<open>auto simp: earlier_def\<close>)
qed

text \<open>The readable timestamps of a node's events, all of them and those of its registrations.\<close>

definition node_times :: "string \<Rightarrow> pydict list \<Rightarrow> pyfloat set" where
  "node_times node_id evs = {t. \<exists>ev \<in> set evs. get ev ''node_id'' = PStr node_id \<and> float_or_zero (get ev ''timestamp'') = Inr (Some t)}"

definition register_times :: "string \<Rightarrow> pydict list \<Rightarrow> pyfloat set" where
  "register_times node_id evs = node_times node_id (filter (ev_is ''node_register'') evs)"

definition earliest_of :: "pyfloat set \<Rightarrow> pyfloat option \<Rightarrow> bool" where
  "earliest_of S e \<longleftrightarrow> (case e of None \<Rightarrow> S = {} | Some t \<Rightarrow> t \<in> S \<and> (\<forall>s \<in> S. \<not> flt s t))"

lemma earliest_of_earlier: "earliest_of S e \<Longrightarrow> earliest_of (insert ts S) (earlier ts e)"
  using earlier_not_after [of S e ts] by (auto simp: earliest_of_def earlier_def split: option.splits if_splits)

lemma created_loop:
  assumes "foldres (created_step node_id) evs (None, None) = Inr (r, a)"
  shows "earliest_of (register_times node_id evs) r \<and> earliest_of (node_times node_id evs) a"
  using assms
proof (induction evs arbitrary: r a rule: rev_induct)
  case (snoc ev evs)
  then obtain r0 a0 where f: "foldres (created_step node_id) evs (None, None) = Inr (r0, a0)"
    and st: "created_step node_id ev (r0, a0) = Inr (r, a)" by (auto simp: foldres_append bnd_eq_Inr)
  note ih = snoc.IH [OF f]
  show ?case
  proof (cases "get ev ''node_id'' = PStr node_id")
    case True
    with st obtain t where t: "float_or_zero (get ev ''timestamp'') = Inr t"
      "(case t of None \<Rightarrow> Inr (r0, a0) | Some ts \<Rightarrow> Inr (if ev_is ''node_register'' ev then earlier ts r0 else r0, earlier ts a0)) = (Inr (r, a) :: (_ \<times> _) res)"
      by (auto simp: created_step_def bnd_eq_Inr)
    have nt: "node_times node_id (evs @ [ev]) = node_times node_id evs \<union> set_option t" using True t(1) by (auto simp: node_times_def)
    have rt: "register_times node_id (evs @ [ev]) = register_times node_id evs \<union> (if ev_is ''node_register'' ev then set_option t else {})"
      using True t(1) by (auto simp: register_times_def node_times_def)
    show ?thesis using ih t(2) unfolding nt rt by (cases t) (auto intro: earliest_of_earlier split: if_splits)
  next
    case False
    then have "node_times node_id (evs @ [ev]) = node_times node_id evs" "register_times node_id (evs @ [ev]) = register_times node_id evs"
      by (auto simp: node_times_def register_times_def)
    with ih st False show ?thesis by (simp add: created_step_def)
  qed
qed (simp add: earliest_of_def register_times_def node_times_def)

definition creation_time :: "string \<Rightarrow> chain \<Rightarrow> pyfloat \<Rightarrow> bool" where
  "creation_time node_id chain t \<longleftrightarrow>
     (let R = register_times node_id (events_of chain) in
      earliest_of (if R = {} then node_times node_id (events_of chain) else R) (Some t))"

lemma node_created_at_time: "node_created_at node_id chain = Inr (Some t) \<Longrightarrow> creation_time node_id chain t"
proof -
  assume n: "node_created_at node_id chain = Inr (Some t)"
  then obtain r a where f: "foldres (created_step node_id) (events_of chain) (None, None) = Inr (r, a)"
    and t: "(case r of Some t \<Rightarrow> Some t | None \<Rightarrow> a) = Some t" by (auto simp: node_created_at_def bnd_eq_Inr)
  from created_loop [OF f] t show ?thesis by (cases r) (auto simp: creation_time_def earliest_of_def Let_def)
qed

subsection \<open>Eligibility is decided by the snapshot\<close>

lemma age_eligible_iff:
  assumes "is_identity_age_eligible cfg node_id m chain None = Inr b"
  shows "b \<longleftrightarrow> (\<exists>snapshot frozen_at created_at age. find_snapshot m chain = Inr (Some snapshot)
    \<and> float_or_zero (get snapshot ''frozen_at'') = Inr (Some frozen_at) \<and> node_created_at node_id chain = Inr (Some created_at)
    \<and> cfg_float cfg ''bootstrap_min_identity_age_days'' = Inr age \<and> fle (fadd created_at (fmul age seconds_per_day)) frozen_at)"
  using assms by (auto simp: is_identity_age_eligible_def bnd_eq_Inr split: option.splits)

text \<open>
  C10: A node may vote on a bootstrap market exactly when the market has a snapshot, the node was created
  (its earliest registration, or its earliest event when it never registered) at least the minimum age
  before the snapshot was frozen, and no frozen predictor is, or rotated into, the node.
\<close>

theorem eligible_voters:
  assumes "validate_bootstrap_eligibility cfg node_id m chain = Inr d"
  shows "eligible d \<longleftrightarrow> (\<exists>snapshot frozen_at created_at age. find_snapshot m chain = Inr (Some snapshot)
    \<and> float_or_zero (get snapshot ''frozen_at'') = Inr (Some frozen_at)
    \<and> node_created_at node_id chain = Inr (Some created_at) \<and> creation_time node_id chain created_at
    \<and> cfg_float cfg ''bootstrap_min_identity_age_days'' = Inr age \<and> fle (fadd created_at (fmul age seconds_per_day)) frozen_at
    \<and> (\<forall>p \<in> set (frozen_predictors snapshot). (p, node_id) \<notin> (rotations (events_of chain))\<^sup>*))"
proof -
  from assms obtain s where s: "find_snapshot m chain = Inr s" by (auto simp: validate_bootstrap_eligibility_def bnd_eq_Inr)
  show ?thesis
  proof (cases s)
    case None
    with assms s show ?thesis by (auto simp: validate_bootstrap_eligibility_def)
  next
    case (Some snapshot)
    then have ex: "excluded_predictor_ids m chain = Inr (with_descendants chain (frozen_predictors snapshot))"
      using s by (simp add: excluded_predictor_ids_def)
    from assms s Some obtain old where old: "is_identity_age_eligible cfg node_id m chain None = Inr old"
      and d: "eligible d \<longleftrightarrow> old \<and> node_id \<notin> set (with_descendants chain (frozen_predictors snapshot))"
      by (auto simp: validate_bootstrap_eligibility_def ex bnd_eq_Inr split: if_splits)
    show ?thesis using d age_eligible_iff [OF old] node_created_at_time s Some unfolding set_with_descendants by auto
  qed
qed

theorem eligible_voters_witness:
  "\<exists>d. validate_bootstrap_eligibility baseline_config ''n'' ''m''
     [PDict [(''event_type'', PStr ''market_snapshot''), (''timestamp'', PFloat (Fin 1)), (''sequence'', PInt 1),
             (''payload'', PDict [(''market_id'', PStr ''m'')])]] = Inr d \<and> \<not> eligible d"
proof -
  let ?c = "[PDict [(''event_type'', PStr ''market_snapshot''), (''timestamp'', PFloat (Fin 1)), (''sequence'', PInt 1),
             (''payload'', PDict [(''market_id'', PStr ''m'')])]]"
  have s: "find_snapshot ''m'' ?c = Inr (Some [(''market_id'', PStr ''m'')])"
    by (simp add: find_snapshot_def first_authoritative_event_def events_for_market_def market_id_def payload_def ev_is_def
        has_valid_ordering_def finite_float_def safe_int_def py_or_def float_of_int_def fisfinite_iff)
  have n: "node_created_at ''n'' ?c = Inr None" by (simp add: node_created_at_def created_step_def)
  have "is_identity_age_eligible baseline_config ''n'' ''m'' ?c None = Inr False"
    by (simp add: is_identity_age_eligible_def s n float_or_zero_def py_or_def)
  then obtain d where d: "validate_bootstrap_eligibility baseline_config ''n'' ''m'' ?c = Inr d"
    by (simp add: validate_bootstrap_eligibility_def s)
  then show ?thesis using eligible_voters [OF d] n by simp
qed

subsection \<open>The ramp\<close>

definition registered_nodes :: "pydict list \<Rightarrow> string set" where
  "registered_nodes evs = {n. \<exists>ev \<in> set evs. ev_is ''node_register'' ev \<and> nonempty_str (get ev ''node_id'') = Some n}"

definition authors :: "pydict list \<Rightarrow> string set" where
  "authors evs = {n. \<exists>ev \<in> set evs. nonempty_str (get ev ''node_id'') = Some n}"

lemma count_loop:
  "fold count_step evs ([], []) = (r, f) \<Longrightarrow> distinct r \<and> distinct f \<and> set r = registered_nodes evs \<and> set f = authors evs"
proof (induction evs arbitrary: r f rule: rev_induct)
  case (snoc ev evs)
  obtain r0 f0 where f0: "fold count_step evs ([], []) = (r0, f0)" by fastforce
  have st: "count_step ev (r0, f0) = (r, f)" using snoc.prems f0 by simp
  note ih = snoc.IH [OF f0]
  have reg: "registered_nodes (evs @ [ev]) = registered_nodes evs \<union> (if ev_is ''node_register'' ev then set_option (nonempty_str (get ev ''node_id'')) else {})"
    by (simp only: registered_nodes_def) (auto simp del: nonempty_str_Some)
  have aut: "authors (evs @ [ev]) = authors evs \<union> set_option (nonempty_str (get ev ''node_id''))"
    by (simp only: authors_def) (auto simp del: nonempty_str_Some)
  show ?case unfolding reg aut
    using ih st by (cases "nonempty_str (get ev ''node_id'')"; cases "ev_is ''node_register'' ev") (auto simp: count_step_def)
qed (simp add: registered_nodes_def authors_def)

lemma node_count_card:
  "network_node_count chain = (let R = registered_nodes (events_of chain) in if R = {} then card (authors (events_of chain)) else card R)"
proof -
  obtain r f where rf: "fold count_step (events_of chain) ([], []) = (r, f)" by fastforce
  from count_loop [OF rf] have "distinct r" "distinct f" "set r = registered_nodes (events_of chain)" "set f = authors (events_of chain)" by auto
  then show ?thesis using distinct_card [of r] distinct_card [of f] by (auto simp: network_node_count_def rf Let_def)
qed

lemma node_count_mono:
  assumes "registered_nodes (events_of chain) \<noteq> {}" shows "network_node_count chain \<le> network_node_count (chain @ later)"
proof -
  have "finite (registered_nodes evs)" for evs
  proof -
    obtain r f where rf: "fold count_step evs ([], []) = (r, f)" by fastforce
    from count_loop [OF rf] show ?thesis by (metis List.finite_set)
  qed
  moreover have "registered_nodes (events_of chain) \<subseteq> registered_nodes (events_of (chain @ later))" by (auto simp: registered_nodes_def)
  ultimately show ?thesis using assms by (auto simp: node_count_card Let_def intro: card_mono)
qed

lemma features_total: "config_ok cfg \<Longrightarrow> \<exists>f. compute_active_features cfg chain = Inr f"
proof -
  assume ok: "config_ok cfg"
  obtain b s p u c where "cfg_int cfg ''bootstrap_threshold'' = Inr b" "cfg_int cfg ''ramp_staked_resolution_threshold'' = Inr s"
    "cfg_int cfg ''ramp_petitions_threshold'' = Inr p" "cfg_int cfg ''ramp_upgrade_threshold'' = Inr u"
    "cfg_int cfg ''ramp_commoncoin_threshold'' = Inr c"
    using read_bootstrap_threshold [OF ok] read_ramp_staked_resolution_threshold [OF ok] read_ramp_petitions_threshold [OF ok]
      read_ramp_upgrade_threshold [OF ok] read_ramp_commoncoin_threshold [OF ok] by blast
  then show ?thesis by (simp add: compute_active_features_def Let_def)
qed

lemma features_Inr:
  assumes "compute_active_features cfg chain = Inr f"
  shows "\<exists>b s p u c. cfg_int cfg ''bootstrap_threshold'' = Inr b \<and> cfg_int cfg ''ramp_staked_resolution_threshold'' = Inr s
    \<and> cfg_int cfg ''ramp_petitions_threshold'' = Inr p \<and> cfg_int cfg ''ramp_upgrade_threshold'' = Inr u
    \<and> cfg_int cfg ''ramp_commoncoin_threshold'' = Inr c
    \<and> (let n = int (network_node_count chain) in
        f = \<lparr>bootstrap_resolution_active = n < b, staked_resolution_active = s \<le> n, governance_petitions_active = p \<le> n,
             upgrade_governance_active = u \<le> n, commoncoin_active = c \<le> n, node_count = network_node_count chain\<rparr>)"
  using assms unfolding compute_active_features_def Let_def bnd_eq_Inr by (elim exE conjE) (simp add: Inr_inject)

text \<open>The features that grow with the network; bootstrap resolution is the one that is switched off.\<close>

definition no_fewer_features :: "active_features \<Rightarrow> active_features \<Rightarrow> bool" where
  "no_fewer_features f g \<longleftrightarrow> node_count f \<le> node_count g
     \<and> (staked_resolution_active f \<longrightarrow> staked_resolution_active g) \<and> (governance_petitions_active f \<longrightarrow> governance_petitions_active g)
     \<and> (upgrade_governance_active f \<longrightarrow> upgrade_governance_active g) \<and> (commoncoin_active f \<longrightarrow> commoncoin_active g)
     \<and> (bootstrap_resolution_active g \<longrightarrow> bootstrap_resolution_active f)"

text \<open>
  On a well-formed configuration the features unlock in a fixed order, each tier including the ones
  below it, and on a chain with registrations they are never lost as the chain grows.
\<close>

theorem features_ramp:
  assumes "config_ok cfg"
  shows "\<exists>f. compute_active_features cfg chain = Inr f
    \<and> (commoncoin_active f \<longrightarrow> upgrade_governance_active f) \<and> (upgrade_governance_active f \<longrightarrow> governance_petitions_active f)
    \<and> (governance_petitions_active f \<longrightarrow> staked_resolution_active f)
    \<and> (registered_nodes (events_of chain) \<noteq> {} \<longrightarrow> (\<exists>g. compute_active_features cfg (chain @ later) = Inr g \<and> no_fewer_features f g))"
proof -
  obtain f g where f: "compute_active_features cfg chain = Inr f" and g: "compute_active_features cfg (chain @ later) = Inr g"
    using features_total [OF assms] by blast
  let ?n = "int (network_node_count chain)"
  from features_Inr [OF f] obtain b s p u c where r: "cfg_int cfg ''bootstrap_threshold'' = Inr b"
    "cfg_int cfg ''ramp_staked_resolution_threshold'' = Inr s" "cfg_int cfg ''ramp_petitions_threshold'' = Inr p"
    "cfg_int cfg ''ramp_upgrade_threshold'' = Inr u" "cfg_int cfg ''ramp_commoncoin_threshold'' = Inr c"
    and fe: "f = \<lparr>bootstrap_resolution_active = ?n < b, staked_resolution_active = s \<le> ?n, governance_petitions_active = p \<le> ?n,
             upgrade_governance_active = u \<le> ?n, commoncoin_active = c \<le> ?n, node_count = network_node_count chain\<rparr>"
    unfolding Let_def by blast
  have o: "s < p \<and> p < u \<and> u < c" by (rule ramp_ascending [OF assms r(2-5)])
  have "no_fewer_features f g" if "registered_nodes (events_of chain) \<noteq> {}"
    using node_count_mono [OF that, of later] features_Inr [OF g] r
    by (simp add: fe no_fewer_features_def Let_def)
  with f g o show ?thesis by (simp add: fe)
qed

theorem features_ramp_witness:
  "\<exists>f. compute_active_features baseline_config [PDict [(''event_type'', PStr ''node_register''), (''node_id'', PStr ''n'')]] = Inr f
     \<and> \<not> staked_resolution_active f"
proof -
  let ?c = "[PDict [(''event_type'', PStr ''node_register''), (''node_id'', PStr ''n'')]]"
  obtain f where f: "compute_active_features baseline_config ?c = Inr f"
    using features_ramp [OF baseline_ok, of ?c "[]"] by blast
  moreover have "network_node_count ?c = 1" by (simp add: network_node_count_def count_step_def ev_is_def set_add_def)
  then have "\<not> staked_resolution_active f"
    using f by (auto simp: compute_active_features_def Let_def bnd_eq_Inr cfg_simps)
  ultimately show ?thesis by blast
qed

text \<open>The first registration of a network that had none can lower its node count.\<close>

lemma node_count_can_drop:
  "network_node_count [PDict [(''node_id'', PStr ''a'')], PDict [(''node_id'', PStr ''b'')]] = 2"
  "network_node_count [PDict [(''node_id'', PStr ''a'')], PDict [(''node_id'', PStr ''b'')],
     PDict [(''event_type'', PStr ''node_register''), (''node_id'', PStr ''a'')]] = 1"
  by (simp_all add: network_node_count_def count_step_def ev_is_def set_add_def)

end
