(* ===== verification/Market_Resolution.thy ===== *)
theory Market_Resolution
  imports Data_Unavailable One_Vote_Dedup Eligibility
begin

text \<open>
  The decision procedure of \<open>services/infonet/markets/resolution.py\<close>: \<open>resolve_market\<close> with every
  early return, in the order of the code, and the amounts it books.
\<close>

subsection \<open>The result\<close>

record resolution_result =
  rr_market_id :: string
  rr_outcome :: string
  rr_is_provisional :: bool
  rr_reason :: string
  bond_returns :: "string ledger"
  bond_forfeits :: "string ledger"
  first_submitter_bonuses :: "string ledger"
  stake_returns :: "(string \<times> string) ledger"
  stake_winnings :: "(string \<times> string) ledger"
  burned_amount :: pyfloat

definition new_result :: "string \<Rightarrow> bool \<Rightarrow> string \<Rightarrow> string \<Rightarrow> resolution_result" where
  "new_result m prov outcome reason = \<lparr>rr_market_id = m, rr_outcome = outcome, rr_is_provisional = prov, rr_reason = reason,
     bond_returns = [], bond_forfeits = [], first_submitter_bonuses = [], stake_returns = [], stake_winnings = [], burned_amount = Fin 0\<rparr>"

text \<open>The loops that credit stakes, and bonds, to their owners\<close>

definition credit_stake :: "resolution_stake \<Rightarrow> (string \<times> string) ledger \<Rightarrow> (string \<times> string) ledger" where
  "credit_stake s d = credit (rs_node_id s, rs_rep_type s) (rs_amount s) d"

definition return_stakes :: "resolution_stake list \<Rightarrow> resolution_result \<Rightarrow> resolution_result" where
  "return_stakes stakes r = r\<lparr>stake_returns := fold credit_stake stakes (stake_returns r)\<rparr>"

definition credit_bond :: "evidence_bundle \<Rightarrow> string ledger \<Rightarrow> string ledger" where
  "credit_bond b d = credit (eb_node_id b) (bond b) d"

definition return_bonds :: "evidence_bundle list \<Rightarrow> resolution_result \<Rightarrow> resolution_result" where
  "return_bonds bs r = r\<lparr>bond_returns := fold credit_bond bs (bond_returns r)\<rparr>"

subsection \<open>Step 0.5: bootstrap markets\<close>

definition bootstrap_index :: "pydict \<Rightarrow> int option res" where
  "bootstrap_index p = (if get p ''bootstrap_index'' = PNone then Inr None
     else catching type_or_value (bnd (py_int (get p ''bootstrap_index'')) (\<lambda>i. Inr (Some i))) (Inr None))"

definition is_bootstrap :: "pydict \<Rightarrow> int option \<Rightarrow> bool res" where
  "is_bootstrap cfg i = (case i of None \<Rightarrow> Inr False
     | Some i \<Rightarrow> bnd (cfg_int cfg ''bootstrap_market_count'') (\<lambda>n. Inr (i \<le> n)))"

text \<open>The side an eligible vote counts for\<close>

definition eligible_side :: "pydict \<Rightarrow> string \<Rightarrow> chain \<Rightarrow> pydict \<Rightarrow> string option res" where
  "eligible_side cfg m chain v = (case nonempty_str (get v ''node_id'') of
       None \<Rightarrow> Inr None
     | Some node_id \<Rightarrow> bnd (validate_bootstrap_eligibility cfg node_id m chain) (\<lambda>d.
         if \<not> eligible d then Inr None
         else Inr (case get (payload v) ''side'' of PStr s \<Rightarrow> if s \<in> {''yes'', ''no''} then Some s else None | _ \<Rightarrow> None)))"

definition bootstrap_winner :: "pydict \<Rightarrow> nat \<Rightarrow> nat \<Rightarrow> string option res" where
  "bootstrap_winner cfg votes_yes votes_no =
     (let votes_total = votes_yes + votes_no in
      bnd (cfg_float cfg ''bootstrap_resolution_supermajority'') (\<lambda>threshold.
      bnd (int_truediv (int votes_yes) (int votes_total)) (\<lambda>y.
        if fle threshold y then Inr (Some ''yes'')
        else bnd (int_truediv (int votes_no) (int votes_total)) (\<lambda>n.
          Inr (if fle threshold n then Some ''no'' else None)))))"

definition settle_bonds :: "string \<Rightarrow> evidence_bundle list \<Rightarrow> resolution_result \<Rightarrow> resolution_result" where
  "settle_bonds winning_side bs r = fold (\<lambda>b r.
     if claimed_outcome b = winning_side then r\<lparr>bond_returns := credit_bond b (bond_returns r)\<rparr>
     else r\<lparr>bond_forfeits := credit_bond b (bond_forfeits r)\<rparr>) bs r"

definition resolve_bootstrap :: "primitives \<Rightarrow> pydict \<Rightarrow> string \<Rightarrow> chain \<Rightarrow> bool \<Rightarrow> evidence_bundle list \<Rightarrow> resolution_result res" where
  "resolve_bootstrap P cfg m chain prov bs =
     bnd (deduplicate_votes P m chain) (\<lambda>canonical_votes.
     bnd (mapres (eligible_side cfg m chain) canonical_votes) (\<lambda>sides.
     let votes_yes = length (filter (\<lambda>s. s = Some ''yes'') sides);
         votes_no = length (filter (\<lambda>s. s = Some ''no'') sides)
     in bnd (cfg_int cfg ''min_market_participants'') (\<lambda>minp.
        if int (votes_yes + votes_no) < minp
        then Inr (return_bonds bs (new_result m prov ''invalid'' ''bootstrap_below_min_participation''))
        else bnd (bootstrap_winner cfg votes_yes votes_no) (\<lambda>w. case w of
            None \<Rightarrow> Inr (return_bonds bs (new_result m prov ''invalid'' ''bootstrap_no_supermajority''))
          | Some winning_side \<Rightarrow>
              if \<not> (\<exists>b \<in> set bs. claimed_outcome b = winning_side)
              then Inr (return_bonds bs (new_result m prov ''invalid'' ''no_winning_side_evidence''))
              else Inr (settle_bonds winning_side bs
                     (new_result m prov winning_side (''bootstrap_supermajority_'' @ winning_side)))))))"

subsection \<open>Steps 2 to 4: staked markets\<close>

definition supermajority_winner :: "pyfloat \<Rightarrow> pyfloat \<Rightarrow> pyfloat \<Rightarrow> string option res" where
  "supermajority_winner yes no threshold =
     (let total = fadd yes no in
      if fle total (Fin 0) then Inr None
      else bnd (fdiv yes total) (\<lambda>y. if fle threshold y then Inr (Some ''yes'')
        else bnd (fdiv no total) (\<lambda>n. Inr (if fle threshold n then Some ''no'' else None))))"

definition winning_stakes :: "string \<Rightarrow> string \<Rightarrow> resolution_stake list \<Rightarrow> resolution_stake list" where
  "winning_stakes winning_side rep_type stakes = filter (\<lambda>s. rs_side s = winning_side \<and> rs_rep_type s = rep_type) stakes"

definition losing_stakes :: "string \<Rightarrow> string \<Rightarrow> resolution_stake list \<Rightarrow> resolution_stake list" where
  "losing_stakes winning_side rep_type stakes =
     filter (\<lambda>s. rs_side s \<noteq> winning_side \<and> rs_side s \<noteq> ''data_unavailable'' \<and> rs_rep_type s = rep_type) stakes"

definition da_stakes :: "string \<Rightarrow> resolution_stake list \<Rightarrow> resolution_stake list" where
  "da_stakes rep_type stakes = filter (\<lambda>s. rs_rep_type s = rep_type \<and> rs_side s = ''data_unavailable'') stakes"

definition pay_winner :: "pyfloat \<Rightarrow> pyfloat \<Rightarrow> resolution_stake \<Rightarrow> (string \<times> string) ledger \<Rightarrow> (string \<times> string) ledger res" where
  "pay_winner winner_pool distributable s d = bnd (fdiv (rs_amount s) winner_pool) (\<lambda>share.
     Inr (credit (rs_node_id s, rs_rep_type s) (fmul share distributable) d))"

definition settle_rep_type :: "pyfloat \<Rightarrow> string \<Rightarrow> resolution_stake list \<Rightarrow> string \<Rightarrow> resolution_result \<Rightarrow> resolution_result res" where
  "settle_rep_type burn_pct winning_side stakes rep_type r =
     (let winners = winning_stakes winning_side rep_type stakes;
          winner_pool = fsum (map rs_amount winners);
          loser_pool = fsum (map rs_amount (losing_stakes winning_side rep_type stakes));
          r' = return_stakes (da_stakes rep_type stakes) (return_stakes winners r)
      in if feq winner_pool (Fin 0) \<or> feq loser_pool (Fin 0) then Inr r'
         else let burn_amt = fmul loser_pool burn_pct; distributable = fsub loser_pool burn_amt in
           bnd (foldres (pay_winner winner_pool distributable) winners (stake_winnings r')) (\<lambda>w.
             Inr (r'\<lparr>burned_amount := fadd (burned_amount r') burn_amt, stake_winnings := w\<rparr>)))"

definition bond_step :: "pydict \<Rightarrow> string \<Rightarrow> evidence_bundle \<Rightarrow> resolution_result \<times> pyfloat \<Rightarrow> (resolution_result \<times> pyfloat) res" where
  "bond_step cfg winning_side b = (\<lambda>(r, bonus_budget).
     if claimed_outcome b = winning_side then
       (let r' = r\<lparr>bond_returns := credit_bond b (bond_returns r)\<rparr> in
        if eb_first_for_side b \<and> flt (Fin 0) bonus_budget then
          bnd (cfg_float cfg ''evidence_first_bonus'') (\<lambda>bonus.
            let bonus_amt = fmin bonus bonus_budget in
            if flt (Fin 0) bonus_amt
            then Inr (r'\<lparr>first_submitter_bonuses := credit (eb_node_id b) bonus_amt (first_submitter_bonuses r')\<rparr>,
                      fsub bonus_budget bonus_amt)
            else Inr (r', bonus_budget))
        else Inr (r', bonus_budget))
     else Inr (r\<lparr>bond_forfeits := credit_bond b (bond_forfeits r)\<rparr>, bonus_budget))"

definition losing_bond_pool :: "string \<Rightarrow> evidence_bundle list \<Rightarrow> pyfloat" where
  "losing_bond_pool winning_side bs = fsum (map bond (filter (\<lambda>b. claimed_outcome b \<noteq> winning_side) bs))"

definition settle_market :: "pydict \<Rightarrow> string \<Rightarrow> bool \<Rightarrow> string \<Rightarrow> resolution_stake list \<Rightarrow> evidence_bundle list \<Rightarrow> resolution_result res" where
  "settle_market cfg m prov winning_side stakes bs =
     (let r0 = new_result m prov winning_side (''supermajority_'' @ winning_side) in
      bnd (cfg_float cfg ''resolution_loser_burn_pct'') (\<lambda>burn_pct.
      bnd (foldres (settle_rep_type burn_pct winning_side stakes) [''oracle'', ''common''] r0) (\<lambda>r1.
      bnd (foldres (bond_step cfg winning_side) bs (r1, losing_bond_pool winning_side bs)) (\<lambda>(r2, bonus_budget).
        Inr (r2\<lparr>burned_amount := fadd (burned_amount r2) bonus_budget\<rparr>)))))"

definition resolve_staked :: "pydict \<Rightarrow> string \<Rightarrow> bool \<Rightarrow> resolution_stake list \<Rightarrow> evidence_bundle list \<Rightarrow> resolution_result res" where
  "resolve_staked cfg m prov stakes bs =
     bnd (is_data_unavailable_triggered cfg stakes) (\<lambda>da.
     if da then bnd (resolve_data_unavailable_effects cfg stakes bs) (\<lambda>e.
       let r = new_result m prov ''invalid'' ''data_unavailable'' in
       Inr (r\<lparr>stake_returns := merge_ledger (da_stake_returns e) (stake_returns r),
              bond_forfeits := merge_ledger (da_bond_forfeits e) (bond_forfeits r),
              burned_amount := fadd (burned_amount r) (da_burned e)\<rparr>))
     else
       let yes_oracle = stake_sum (\<lambda>s. rs_side s = ''yes'' \<and> rs_rep_type s = ''oracle'') stakes;
           no_oracle = stake_sum (\<lambda>s. rs_side s = ''no'' \<and> rs_rep_type s = ''oracle'') stakes
       in bnd (cfg_float cfg ''min_resolution_stake_total'') (\<lambda>min_total.
          if flt (fadd yes_oracle no_oracle) min_total
          then Inr (return_bonds bs (return_stakes stakes (new_result m prov ''invalid'' ''below_min_resolution_stake'')))
          else bnd (cfg_float cfg ''resolution_supermajority'') (\<lambda>threshold.
          bnd (supermajority_winner yes_oracle no_oracle threshold) (\<lambda>w. case w of
              None \<Rightarrow> bnd (apply_to_stakes cfg (stake_entries stakes) None) (\<lambda>(burn_returns, burn_total).
                let r = new_result m prov ''invalid'' ''no_supermajority'' in
                Inr (return_bonds bs (r\<lparr>stake_returns := merge_ledger burn_returns (stake_returns r),
                                       burned_amount := fadd (burned_amount r) burn_total\<rparr>)))
            | Some winning_side \<Rightarrow>
                if \<not> (\<exists>b \<in> set bs. claimed_outcome b = winning_side)
                then Inr (return_bonds bs (return_stakes stakes (new_result m prov ''invalid'' ''no_winning_side_evidence'')))
                else settle_market cfg m prov winning_side stakes bs))))"

definition create_event :: "string \<Rightarrow> chain \<Rightarrow> pydict option" where
  "create_event m chain = find (\<lambda>ev. ev_is ''prediction_create'' ev \<and> get (payload ev) ''market_id'' = PStr m) (events_of chain)"

definition resolve_market :: "primitives \<Rightarrow> pydict \<Rightarrow> string \<Rightarrow> chain \<Rightarrow> bool \<Rightarrow> resolution_result res" where
  "resolve_market P cfg m chain prov = (case create_event m chain of
       None \<Rightarrow> Inr (new_result m prov ''invalid'' ''no_market'')
     | Some ev \<Rightarrow>
         bnd (bootstrap_index (payload ev)) (\<lambda>idx.
         bnd (collect_evidence P m chain) (\<lambda>bs.
         bnd (collect_resolution_stakes m chain True) (\<lambda>stakes.
           if bs = [] then Inr (return_stakes stakes (new_result m prov ''invalid'' ''no_evidence''))
           else bnd (is_bootstrap cfg idx) (\<lambda>boot.
             if boot then resolve_bootstrap P cfg m chain prov bs
             else resolve_staked cfg m prov stakes bs)))))"

subsection \<open>A supermajority is exclusive\<close>

text \<open>The smaller of two amounts is at most half of their rounded sum.\<close>

lemma smaller_share:
  assumes "fval (Fin a)" "0 \<le> a" "a \<le> b" "fl (a + b) = Fin c" "0 < c"
  shows "fle (fl (a / c)) (fl (1/2))"
proof -
  have "2 * a \<le> c"
  proof (cases "in_range (2 * a)")
    case True
    have "fle (Fin (2 * a)) (fl (a + b))"
      by (rule fl_ge_double [OF _ True]) (use assms is_double_twice in auto)
    then show ?thesis using assms(4) by simp
  next
    case False
    then have big: "2 ^ 1024 \<le> a + b" using assms(2,3) by (simp add: in_range_def)
    have "is_double (2 ^ 1024)" unfolding is_double_def by (rule exI [of _ 1], rule exI [of _ 1024]) simp
    then have "rnd64 (2 ^ 1024) = 2 ^ 1024" by (rule rnd64_exact)
    then have "2 ^ 1024 \<le> rnd64 (a + b)" using rnd64_mono [OF big] by simp
    moreover have "c = rnd64 (a + b)" "\<bar>c\<bar> < 2 ^ 1024" using assms(4) unfolding fl_Fin_iff by blast+
    ultimately have False by linarith
    then show ?thesis ..
  qed
  then have "a / c \<le> 1/2" using assms(5) by simp
  then show ?thesis by (rule fl_mono)
qed

lemma half_below: "flt (fl (1/2)) (fl 0.51)"
  by (rule flt_fl_gap [of _ 1 1 65 7]) simp_all

lemma supermajority_exclusive:
  assumes "fval y" "fnonneg y" "fval n" "fnonneg n" "fle (fl 0.51) t"
    and "fdiv y (fadd y n) = Inr q" "fle t q" "fdiv n (fadd y n) = Inr q'"
  shows "\<not> fle t q'"
proof
  assume "fle t q'"
  have ge: "fle (fl 0.51) q" "fle (fl 0.51) q'" using assms(5,7) \<open>fle t q'\<close> by (blast intro: fle_trans)+
  have low: "\<not> fle (fl 0.51) x" if "fle x (fl (1/2))" for x
    using that half_below by (meson fle_flt_trans flt_fle fle_trans flt_irrefl)
  show False
  proof (cases "fadd y n")
    case (Fin c)
    then obtain a b where ab: "y = Fin a" "n = Fin b" "0 \<le> a" "0 \<le> b" using assms(2,4) by (cases y; cases n) auto
    have "c \<noteq> 0" using assms(6) Fin by auto
    moreover have "0 \<le> c" using fl_nonneg [of "a + b"] Fin ab by simp
    ultimately have c: "0 < c" by simp
    have q: "q = fl (a / c)" "q' = fl (b / c)" using assms(6,8) Fin ab c by (auto split: if_splits)
    have f: "fl (a + b) = Fin c" "fl (b + a) = Fin c" using Fin ab by (simp_all add: add.commute)
    consider "a \<le> b" | "b \<le> a" by linarith
    then show False
    proof cases
      case 1
      then show False using smaller_share [of a b c] assms(1) ab f c low ge q by blast
    next
      case 2
      then show False using smaller_share [of b a c] assms(3) ab f c low ge q by blast
    qed
  next
    case PosInf
    have "\<not> fle (fl 0.51) (Fin 0)" by (rule low) (simp add: fl_nonneg)
    then show False using PosInf assms(2,4,6,8) ge by (cases y; cases n) auto
  next
    case NegInf
    then show False using fadd_nonneg [OF assms(2,4)] by simp
  next
    case NaN
    then show False using assms(6,7) by (cases y) auto
  qed
qed

subsection \<open>The decision\<close>

text \<open>What a staked market has to satisfy to be decided for a side.\<close>

definition oracle_total :: "string \<Rightarrow> resolution_stake list \<Rightarrow> pyfloat" where
  "oracle_total side stakes = stake_sum (\<lambda>s. rs_side s = side \<and> rs_rep_type s = ''oracle'') stakes"

definition oracle_share :: "string \<Rightarrow> resolution_stake list \<Rightarrow> pyfloat res" where
  "oracle_share side stakes = fdiv (oracle_total side stakes) (fadd (oracle_total ''yes'' stakes) (oracle_total ''no'' stakes))"

definition other_side :: "string \<Rightarrow> string" where
  "other_side side = (if side = ''yes'' then ''no'' else ''yes'')"

definition staked_decision :: "pydict \<Rightarrow> resolution_stake list \<Rightarrow> string \<Rightarrow> bool" where
  "staked_decision cfg stakes side \<longleftrightarrow>
     is_data_unavailable_triggered cfg stakes = Inr False
     \<and> (\<exists>min_total. cfg_float cfg ''min_resolution_stake_total'' = Inr min_total
          \<and> \<not> flt (fadd (oracle_total ''yes'' stakes) (oracle_total ''no'' stakes)) min_total)
     \<and> (\<exists>t q. cfg_float cfg ''resolution_supermajority'' = Inr t \<and> oracle_share side stakes = Inr q \<and> fle t q
          \<and> (\<forall>q'. oracle_share (other_side side) stakes = Inr q' \<longrightarrow> \<not> fle t q'))"

definition bootstrap_decision :: "primitives \<Rightarrow> pydict \<Rightarrow> string \<Rightarrow> chain \<Rightarrow> string \<Rightarrow> bool" where
  "bootstrap_decision P cfg m chain side \<longleftrightarrow> (\<exists>votes sides minp y n. deduplicate_votes P m chain = Inr votes
     \<and> mapres (eligible_side cfg m chain) votes = Inr sides
     \<and> y = length (filter (\<lambda>s. s = Some ''yes'') sides) \<and> n = length (filter (\<lambda>s. s = Some ''no'') sides)
     \<and> cfg_int cfg ''min_market_participants'' = Inr minp \<and> minp \<le> int (y + n)
     \<and> bootstrap_winner cfg y n = Inr (Some side))"

text \<open>
  Which rule a market is decided by: a market cev with a bootstrap index up to the configured
  number of bootstrap markets is decided by votes, every other one by stakes.
\<close>

definition bootstrap_market :: "pydict \<Rightarrow> pydict \<Rightarrow> bool" where
  "bootstrap_market cfg cev \<longleftrightarrow> (\<exists>i n. bootstrap_index (payload cev) = Inr (Some i)
     \<and> cfg_int cfg ''bootstrap_market_count'' = Inr n \<and> i \<le> n)"

definition staked_market :: "pydict \<Rightarrow> pydict \<Rightarrow> bool" where
  "staked_market cfg cev \<longleftrightarrow> bootstrap_index (payload cev) = Inr None
     \<or> (\<exists>i n. bootstrap_index (payload cev) = Inr (Some i) \<and> cfg_int cfg ''bootstrap_market_count'' = Inr n \<and> n < i)"

lemma is_bootstrap_True: "bootstrap_index (payload cev) = Inr idx \<Longrightarrow> is_bootstrap cfg idx = Inr True \<Longrightarrow> bootstrap_market cfg cev"
  by (auto simp: is_bootstrap_def bootstrap_market_def bnd_eq_Inr split: option.splits)

lemma is_bootstrap_False:
  "bootstrap_index (payload cev) = Inr idx \<Longrightarrow> is_bootstrap cfg idx = Inr False \<longleftrightarrow> staked_market cfg cev"
  by (auto simp: is_bootstrap_def staked_market_def bnd_eq_Inr split: option.splits)

lemma rr_outcome_simps [simp]:
  "rr_outcome (new_result m prov oc re) = oc" "rr_outcome (return_stakes ss r) = rr_outcome r" "rr_outcome (return_bonds bs r) = rr_outcome r"
  by (simp_all add: new_result_def return_stakes_def return_bonds_def)

lemma settle_bonds_outcome [simp]: "rr_outcome (settle_bonds w bs r) = rr_outcome r"
  unfolding settle_bonds_def by (induction bs arbitrary: r) auto

lemma settle_rep_type_outcome: "settle_rep_type p w ss rt r = Inr r' \<Longrightarrow> rr_outcome r' = rr_outcome r"
  by (auto simp: settle_rep_type_def Let_def bnd_eq_Inr split: if_splits)

lemma bond_step_outcome: "bond_step cfg w b x = Inr x' \<Longrightarrow> rr_outcome (fst x') = rr_outcome (fst x)"
  by (cases x) (auto simp: bond_step_def Let_def bnd_eq_Inr split: if_splits)

lemma settle_market_outcome:
  assumes "settle_market cfg m prov w stakes bs = Inr r" shows "rr_outcome r = w"
proof -
  from assms obtain p r1 r2 bud where r1: "foldres (settle_rep_type p w stakes) [''oracle'', ''common''] (new_result m prov w (''supermajority_'' @ w)) = Inr r1"
    and r2: "foldres (bond_step cfg w) bs (r1, losing_bond_pool w bs) = Inr (r2, bud)" and r: "r = r2\<lparr>burned_amount := fadd (burned_amount r2) bud\<rparr>"
    unfolding settle_market_def Let_def bnd_eq_Inr by auto
  have "rr_outcome r1 = w" using foldres_invariant [OF r1, where I = "\<lambda>r. rr_outcome r = w"] settle_rep_type_outcome by fastforce
  then have "rr_outcome (fst (r2, bud)) = w"
    using foldres_invariant [OF r2, where I = "\<lambda>x. rr_outcome (fst x) = w"] bond_step_outcome by fastforce
  then show ?thesis by (simp add: r)
qed

lemma oracle_total_nonneg:
  assumes "\<forall>s \<in> set stakes. \<not> fle (rs_amount s) (Fin 0)"
  shows "oracle_total side stakes = NaN \<or> fnonneg (oracle_total side stakes)"
proof -
  have "\<forall>x \<in> set xs. \<not> fle x (Fin 0) \<Longrightarrow> a = NaN \<or> fnonneg a \<Longrightarrow> foldl fadd a xs = NaN \<or> fnonneg (foldl fadd a xs)" for a xs
  proof (induction xs arbitrary: a)
    case (Cons x xs)
    have "fadd a x = NaN \<or> fnonneg (fadd a x)"
    proof (cases "a = NaN \<or> x = NaN")
      case False
      then have "fnonneg a" "fnonneg x" using Cons.prems not_fle_flt [of x "Fin 0"] flt_fle by (auto simp: fnonneg_def)
      then show ?thesis using fadd_nonneg by blast
    qed (cases a; cases x; auto)
    then show ?case using Cons by simp
  qed simp
  then show ?thesis using assms by (simp add: oracle_total_def stake_sum_def fsum_def)
qed

lemma oracle_total_fval: "fval (oracle_total side stakes)"
  by (simp add: oracle_total_def stake_sum_def)

lemma supermajority_winner_Some:
  assumes "supermajority_winner y n t = Inr (Some w)"
  shows "w = ''yes'' \<and> (\<exists>q. fdiv y (fadd y n) = Inr q \<and> fle t q) \<or> w = ''no'' \<and> (\<exists>q. fdiv n (fadd y n) = Inr q \<and> fle t q)"
  using assms by (auto simp: supermajority_winner_def Let_def bnd_eq_Inr split: if_splits)

lemma supermajority_not_NaN: "fdiv y (fadd y n) = Inr q \<or> fdiv n (fadd y n) = Inr q \<Longrightarrow> fle t q \<Longrightarrow> y \<noteq> NaN \<and> n \<noteq> NaN"
  by (cases y; cases n) auto

lemma supermajority_share:
  assumes "supermajority_winner (oracle_total ''yes'' stakes) (oracle_total ''no'' stakes) t = Inr (Some w)"
    and "\<forall>s \<in> set stakes. \<not> fle (rs_amount s) (Fin 0)" "fle (fl 0.51) t"
  shows "w \<in> {''yes'', ''no''} \<and> (\<exists>q. oracle_share w stakes = Inr q \<and> fle t q
    \<and> (\<forall>q'. oracle_share (other_side w) stakes = Inr q' \<longrightarrow> \<not> fle t q'))"
proof -
  let ?y = "oracle_total ''yes'' stakes" and ?n = "oracle_total ''no'' stakes"
  note v = oracle_total_fval [of _ stakes] and nn = oracle_total_nonneg [OF assms(2)]
  from supermajority_winner_Some [OF assms(1)] show ?thesis
  proof (elim disjE conjE exE)
    fix q assume w: "w = ''yes''" and q: "fdiv ?y (fadd ?y ?n) = Inr q" "fle t q"
    then have "fnonneg ?y" "fnonneg ?n" using supermajority_not_NaN nn by blast+
    then show ?thesis using supermajority_exclusive [OF v _ v _ assms(3) q] q w by (simp add: oracle_share_def other_side_def)
  next
    fix q assume w: "w = ''no''" and q: "fdiv ?n (fadd ?y ?n) = Inr q" "fle t q"
    then have "fnonneg ?y" "fnonneg ?n" using supermajority_not_NaN nn by blast+
    moreover have "fdiv ?n (fadd ?n ?y) = Inr q" using q(1) by (simp add: fadd_commute)
    ultimately show ?thesis using supermajority_exclusive [OF v _ v _ assms(3) _ q(2)] q w
      by (simp add: oracle_share_def other_side_def fadd_commute)
  qed
qed

lemma resolve_staked_decided:
  assumes ok: "config_ok cfg" and pos: "\<forall>s \<in> set stakes. \<not> fle (rs_amount s) (Fin 0)"
    and res: "resolve_staked cfg m prov stakes bs = Inr r" "rr_outcome r \<noteq> ''invalid''"
  shows "rr_outcome r \<in> {''yes'', ''no''} \<and> (\<exists>b \<in> set bs. claimed_outcome b = rr_outcome r) \<and> staked_decision cfg stakes (rr_outcome r)"
proof -
  obtain t where t: "cfg_float cfg ''resolution_supermajority'' = Inr t" "fle (fl 0.51) t"
    using resolution_supermajority_read [OF ok] by blast
  from res(1) obtain da where da: "is_data_unavailable_triggered cfg stakes = Inr da"
    by (auto simp: resolve_staked_def bnd_eq_Inr)
  have nda: "\<not> da" using res da by (auto simp: resolve_staked_def bnd_eq_Inr Let_def)
  from res(1) da nda obtain mt where mt: "cfg_float cfg ''min_resolution_stake_total'' = Inr mt"
    by (auto simp: resolve_staked_def bnd_eq_Inr Let_def)
  have enough: "\<not> flt (fadd (oracle_total ''yes'' stakes) (oracle_total ''no'' stakes)) mt"
    using res da nda mt by (auto simp: resolve_staked_def Let_def oracle_total_def)
  obtain w where w: "supermajority_winner (oracle_total ''yes'' stakes) (oracle_total ''no'' stakes) t = Inr w"
    using res(1) da nda mt enough t(1) by (auto simp: resolve_staked_def Let_def oracle_total_def bnd_eq_Inr)
  have eq: "resolve_staked cfg m prov stakes bs = (case w of
              None \<Rightarrow> bnd (apply_to_stakes cfg (stake_entries stakes) None) (\<lambda>(burn_returns, burn_total).
                let r = new_result m prov ''invalid'' ''no_supermajority'' in
                Inr (return_bonds bs (r\<lparr>stake_returns := merge_ledger burn_returns (stake_returns r),
                                       burned_amount := fadd (burned_amount r) burn_total\<rparr>)))
            | Some winning_side \<Rightarrow>
                if \<not> (\<exists>b \<in> set bs. claimed_outcome b = winning_side)
                then Inr (return_bonds bs (return_stakes stakes (new_result m prov ''invalid'' ''no_winning_side_evidence'')))
                else settle_market cfg m prov winning_side stakes bs)"
    using da nda mt enough t(1) w by (cases w) (simp_all add: resolve_staked_def Let_def oracle_total_def)
  obtain ws where ws: "w = Some ws" using res unfolding eq by (cases w) (auto simp: bnd_eq_Inr Let_def)
  then have ev: "\<exists>b \<in> set bs. claimed_outcome b = ws" using res unfolding eq by (auto split: if_splits)
  then have "rr_outcome r = ws" using settle_market_outcome res(1) ws unfolding eq by (auto split: if_splits)
  moreover have "staked_decision cfg stakes ws \<and> ws \<in> {''yes'', ''no''}"
    using supermajority_share [OF w [unfolded ws] pos t(2)] t(1) da nda mt enough unfolding staked_decision_def by simp
  ultimately show ?thesis using ev by simp
qed

lemma bootstrap_winner_side: "bootstrap_winner cfg y n = Inr (Some w) \<Longrightarrow> w \<in> {''yes'', ''no''}"
  by (auto simp: bootstrap_winner_def Let_def bnd_eq_Inr split: if_splits)

lemma resolve_bootstrap_decided:
  assumes "resolve_bootstrap P cfg m chain prov bs = Inr r" "rr_outcome r \<noteq> ''invalid''"
  shows "rr_outcome r \<in> {''yes'', ''no''} \<and> (\<exists>b \<in> set bs. claimed_outcome b = rr_outcome r) \<and> bootstrap_decision P cfg m chain (rr_outcome r)"
proof -
  from assms(1) obtain votes sides minp where 1: "deduplicate_votes P m chain = Inr votes" "mapres (eligible_side cfg m chain) votes = Inr sides"
    "cfg_int cfg ''min_market_participants'' = Inr minp" by (auto simp: resolve_bootstrap_def bnd_eq_Inr Let_def)
  let ?y = "length (filter (\<lambda>s. s = Some ''yes'') sides)" and ?n = "length (filter (\<lambda>s. s = Some ''no'') sides)"
  have minp: "\<not> int (?y + ?n) < minp" using assms 1 by (auto simp: resolve_bootstrap_def Let_def)
  have eq: "resolve_bootstrap P cfg m chain prov bs = bnd (bootstrap_winner cfg ?y ?n) (\<lambda>w. case w of
            None \<Rightarrow> Inr (return_bonds bs (new_result m prov ''invalid'' ''bootstrap_no_supermajority''))
          | Some winning_side \<Rightarrow>
              if \<not> (\<exists>b \<in> set bs. claimed_outcome b = winning_side)
              then Inr (return_bonds bs (new_result m prov ''invalid'' ''no_winning_side_evidence''))
              else Inr (settle_bonds winning_side bs
                     (new_result m prov winning_side (''bootstrap_supermajority_'' @ winning_side))))"
    using 1 minp by (simp only: resolve_bootstrap_def bnd_Inr Let_def if_False)
  obtain w where w: "bootstrap_winner cfg ?y ?n = Inr w" using assms(1) unfolding eq by (auto simp: bnd_eq_Inr)
  obtain ws where ws: "w = Some ws" using assms w unfolding eq by (cases w) auto
  have ev: "\<exists>b \<in> set bs. claimed_outcome b = ws" using assms w ws unfolding eq by (auto split: if_splits)
  then have "(\<not> (\<exists>b \<in> set bs. claimed_outcome b = ws)) = False" by simp
  then have "rr_outcome r = ws" using assms(1) unfolding eq w bnd_Inr ws option.case by (simp only: if_False) auto
  moreover have "bootstrap_decision P cfg m chain ws" using 1 minp w ws unfolding bootstrap_decision_def by (meson not_less)
  moreover have "ws \<in> {''yes'', ''no''}" using bootstrap_winner_side w ws by blast
  ultimately show ?thesis using ev by simp
qed


text \<open>A market with one piece of evidence and one stake, used to show that the hypotheses can hold.\<close>

definition example_market :: chain where
  "example_market =
    [PDict [(''event_type'', PStr ''prediction_create''), (''node_id'', PStr ''a''), (''payload'', PDict [(''market_id'', PStr ''m'')])],
     PDict [(''event_type'', PStr ''evidence_submit''), (''node_id'', PStr ''b''), (''timestamp'', PFloat (Fin 1)), (''sequence'', PInt 1),
            (''payload'', PDict [(''market_id'', PStr ''m''), (''claimed_outcome'', PStr ''yes''),
               (''evidence_content_hash'', PStr ''c''), (''submission_hash'', PStr ''s'')])],
     PDict [(''event_type'', PStr ''resolution_stake''), (''node_id'', PStr ''d''), (''timestamp'', PFloat (Fin 2)), (''sequence'', PInt 1),
            (''payload'', PDict [(''market_id'', PStr ''m''), (''side'', PStr ''yes''), (''amount'', PFloat (Fin 100)), (''rep_type'', PStr ''oracle'')])]]"

definition example_bundle :: evidence_bundle where
  "example_bundle = \<lparr>eb_node_id = ''b'', eb_market_id = ''m'', claimed_outcome = ''yes'', evidence_hashes = [], source_description = [],
     bond = Fin 0, eb_timestamp = Fin 1, eb_sequence = 1, content_hash = ''c'', eb_submission_hash = ''s'', eb_first_for_side = True\<rparr>"

definition example_stake :: resolution_stake where
  "example_stake = \<lparr>rs_node_id = ''d'', rs_side = ''yes'', rs_amount = Fin 100, rs_rep_type = ''oracle'', rs_timestamp = Fin 2, rs_sequence = 1\<rparr>"

lemma example_evidence: "collect_evidence P ''m'' example_market = Inr [example_bundle]"
  by (simp add: collect_evidence_def evidence_events_def example_market_def ev_is_def payload_def sort_events_def sort_key_def py_or_def
      evidence_step_def read_bundle_def bond_value_def bundle_content_hash_def add_bundle_def first_on_def seen_on_def example_bundle_def)

lemma example_stakes: "collect_resolution_stakes ''m'' example_market True = Inr [example_stake]"
  by (simp add: collect_resolution_stakes_def excluded_predictor_ids_def find_snapshot_def first_authoritative_event_def events_for_market_def
      market_id_def example_market_def ev_is_def payload_def collect_stakes_loop_def read_stake_def stake_amount_def sort_key_def py_or_def
      example_stake_def fle_def)

lemma example_staked:
  "\<exists>r. resolve_staked baseline_config ''m'' False [example_stake] [example_bundle] = Inr r \<and> rr_outcome r = ''yes''"
proof -
  have d: "is_data_unavailable_triggered baseline_config [example_stake] = Inr False"
  proof -
    have "flt (fl 0) (fl (33/100))" by (rule flt_fl_gap [of _ 0 0 1 2]) simp_all
    then have "\<not> fle (fl (33/100)) (Fin 0)" by (cases "fl (33/100)") auto
    then show ?thesis by (simp add: is_data_unavailable_triggered_def Let_def stake_sum_def example_stake_def fsum_def cfg_simps)
  qed
  have t: "fle (fl (3/4)) (Fin 1)" using fl_unit [of "3/4"] by simp
  have w: "supermajority_winner (Fin 100) (Fin 0) (fl (3/4)) = Inr (Some ''yes'')"
    using t by (simp add: supermajority_winner_def Let_def fle_def)
  have "\<exists>r. settle_market baseline_config ''m'' False ''yes'' [example_stake] [example_bundle] = Inr r"
    by (simp add: settle_market_def Let_def settle_rep_type_def winning_stakes_def losing_stakes_def da_stakes_def
        example_stake_def example_bundle_def fsum_def bond_step_def losing_bond_pool_def cfg_simps)
  then obtain r where r: "settle_market baseline_config ''m'' False ''yes'' [example_stake] [example_bundle] = Inr r" by blast
  moreover have "resolve_staked baseline_config ''m'' False [example_stake] [example_bundle] = Inr r"
    using d w r by (simp add: resolve_staked_def Let_def stake_sum_def example_stake_def example_bundle_def fsum_def cfg_simps)
  ultimately show ?thesis using settle_market_outcome by blast
qed


subsection \<open>Excluded nodes\<close>

lemma collect_evidence_insert: "\<not> ev_is ''evidence_submit'' ev \<Longrightarrow> collect_evidence P m (c1 @ [PDict ev] @ c2) = collect_evidence P m (c1 @ c2)"
  by (simp add: collect_evidence_def evidence_events_def)

lemma create_event_insert: "\<not> ev_is ''prediction_create'' ev \<Longrightarrow> create_event m (c1 @ [PDict ev] @ c2) = create_event m (c1 @ c2)"
  by (simp add: create_event_def find_skip)

text \<open>
  A frozen predictor, or an identity it rotated into, cannot influence the resolution of a staked
  market: its resolution stakes may stand anywhere in the chain without changing the result.
\<close>

theorem excluded_stakes_ignored:
  assumes "excluded_predictor_ids m (c1 @ c2) = Inr ex" "node \<in> set ex"
    and ev: "ev_is ''resolution_stake'' ev" "get ev ''node_id'' = PStr node"
    and staked: "\<And>cev. create_event m (c1 @ c2) = Some cev \<Longrightarrow> get (payload cev) ''bootstrap_index'' = PNone"
  shows "resolve_market P cfg m (c1 @ [PDict ev] @ c2) prov = resolve_market P cfg m (c1 @ c2) prov"
proof (cases "create_event m (c1 @ c2)")
  case None
  have "\<not> ev_is ''prediction_create'' ev" using ev(1) by (simp add: ev_is_def)
  then show ?thesis using None create_event_insert [of ev m c1 c2] by (simp add: resolve_market_def)
next
  case (Some cev)
  have "\<not> ev_is ''prediction_create'' ev" "\<not> ev_is ''evidence_submit'' ev" using ev(1) by (simp_all add: ev_is_def)
  then have "create_event m (c1 @ [PDict ev] @ c2) = Some cev"
    "collect_evidence P m (c1 @ [PDict ev] @ c2) = collect_evidence P m (c1 @ c2)"
    using Some create_event_insert collect_evidence_insert by simp_all
  moreover have "bootstrap_index (payload cev) = Inr None" using staked [OF Some] by (simp add: bootstrap_index_def)
  ultimately show ?thesis using Some stakes_insert_excluded [OF assms(1,2) ev]
    by (simp only: resolve_market_def option.case bnd_Inr is_bootstrap_def if_False)
qed

theorem excluded_stakes_ignored_witness:
  defines "snap \<equiv> PDict [(''event_type'', PStr ''market_snapshot''), (''timestamp'', PFloat (Fin 1)), (''sequence'', PInt 1),
       (''payload'', PDict [(''market_id'', PStr ''m''), (''frozen_predictor_ids'', PList [PStr ''p''])])]"
    and "stake \<equiv> [(''event_type'', PStr ''resolution_stake''), (''node_id'', PStr ''p''),
       (''payload'', PDict [(''market_id'', PStr ''m''), (''side'', PStr ''no''), (''amount'', PInt 1000), (''rep_type'', PStr ''oracle'')])]"
  shows "resolve_market plain_primitives baseline_config ''m'' (example_market @ [PDict stake] @ [snap]) False
    = resolve_market plain_primitives baseline_config ''m'' (example_market @ [snap]) False"
proof -
  have s: "find_snapshot ''m'' (example_market @ [snap]) = Inr (Some [(''market_id'', PStr ''m''), (''frozen_predictor_ids'', PList [PStr ''p''])])"
    by (simp add: find_snapshot_def first_authoritative_event_def events_for_market_def market_id_def payload_def ev_is_def example_market_def snap_def
        has_valid_ordering_def finite_float_def safe_int_def py_or_def)
  let ?ex = "with_descendants (example_market @ [snap]) [''p'']"
  have ex: "excluded_predictor_ids ''m'' (example_market @ [snap]) = Inr ?ex"
    by (simp add: excluded_predictor_ids_def s frozen_predictors_def py_or_def List.map_filter_def set_add_def)
  have "''p'' \<in> set ?ex" unfolding set_with_descendants by simp
  moreover have "create_event ''m'' (example_market @ [snap]) = Some cev \<Longrightarrow> get (payload cev) ''bootstrap_index'' = PNone" for cev
    by (auto simp: create_event_def example_market_def ev_is_def payload_def)
  ultimately show ?thesis
    by (intro excluded_stakes_ignored [OF ex]) (simp_all add: stake_def ev_is_def)
qed

subsection \<open>What a decided market pays\<close>

definition stakes_of :: "string \<Rightarrow> string \<Rightarrow> resolution_stake list \<Rightarrow> resolution_stake list" where
  "stakes_of node rep_type stakes = filter (\<lambda>s. rs_node_id s = node \<and> rs_rep_type s = rep_type) stakes"

lemma credited_stakes:
  "dict_get (fold credit_stake ss d) (n, rt) (Fin 0) = foldl fadd (dict_get d (n, rt) (Fin 0)) (map rs_amount (stakes_of n rt ss))"
  by (induction ss arbitrary: d) (auto simp: stakes_of_def credit_stake_def get_credit)

lemma credited_keys: "fst ` set (fold credit_stake ss d) = fst ` set d \<union> {(rs_node_id s, rs_rep_type s) |s. s \<in> set ss}"
  by (induction ss arbitrary: d) (auto simp: credit_stake_def)

definition returned_stakes :: "string \<Rightarrow> string \<Rightarrow> resolution_stake list \<Rightarrow> resolution_stake list" where
  "returned_stakes w rt stakes = winning_stakes w rt stakes @ da_stakes rt stakes"

lemma settle_rep_type_returns:
  "settle_rep_type p w stakes rt r = Inr r' \<Longrightarrow> stake_returns r' = fold credit_stake (returned_stakes w rt stakes) (stake_returns r)"
  by (auto simp: settle_rep_type_def Let_def bnd_eq_Inr returned_stakes_def return_stakes_def split: if_splits)

lemma bond_step_returns: "bond_step cfg w b x = Inr x' \<Longrightarrow> stake_returns (fst x') = stake_returns (fst x)"
  by (cases x) (auto simp: bond_step_def Let_def bnd_eq_Inr split: if_splits)

lemma settle_market_parts:
  assumes "settle_market cfg m prov w stakes bs = Inr r"
  shows "\<exists>p r1 r2 bud. foldres (settle_rep_type p w stakes) [''oracle'', ''common''] (new_result m prov w (''supermajority_'' @ w)) = Inr r1
    \<and> foldres (bond_step cfg w) bs (r1, losing_bond_pool w bs) = Inr (r2, bud) \<and> r = r2\<lparr>burned_amount := fadd (burned_amount r2) bud\<rparr>"
  using assms unfolding settle_market_def Let_def bnd_eq_Inr by auto

lemma settle_market_returns:
  assumes "settle_market cfg m prov w stakes bs = Inr r"
  shows "stake_returns r = fold credit_stake (returned_stakes w ''oracle'' stakes @ returned_stakes w ''common'' stakes) []"
proof -
  from settle_market_parts [OF assms] obtain p r1 r2 bud
    where r1: "foldres (settle_rep_type p w stakes) [''oracle'', ''common''] (new_result m prov w (''supermajority_'' @ w)) = Inr r1"
    and r2: "foldres (bond_step cfg w) bs (r1, losing_bond_pool w bs) = Inr (r2, bud)" and r: "r = r2\<lparr>burned_amount := fadd (burned_amount r2) bud\<rparr>" by blast
  have "stake_returns (fst (r2, bud)) = stake_returns r1"
    by (rule foldres_invariant [OF r2, where I = "\<lambda>x. stake_returns (fst x) = stake_returns r1"]) (use bond_step_returns in auto)
  moreover have "stake_returns r1 = fold credit_stake (returned_stakes w ''oracle'' stakes @ returned_stakes w ''common'' stakes) []"
    using r1 by (auto simp: bnd_eq_Inr new_result_def dest!: settle_rep_type_returns)
  ultimately show ?thesis by (simp add: r)
qed

text \<open>What a burn of fraction \<open>pct\<close> leaves of one stake; a stake that is not finite is passed over.\<close>

definition kept_part :: "pyfloat \<Rightarrow> pyfloat \<Rightarrow> pyfloat" where
  "kept_part pct a =
     (let kept = if fle pct (Fin 0) then a else if fle (Fin 1) pct then Fin 0 else fsub a (fmul a pct)
      in if fisfinite a \<and> flt (Fin 0) kept then kept else Fin 0)"

lemma fadd_zero: "fval x \<Longrightarrow> fadd x (Fin 0) = x" "fval x \<Longrightarrow> fadd (Fin 0) x = x"
  by (cases x; simp add: fl_exact in_range_def)+

lemma distinct_credit: "distinct (map fst d) \<Longrightarrow> distinct (map fst (credit k v d))"
  by (simp add: credit_def dict_add_def distinct_update)

lemma get_merge_ledger:
  assumes "distinct (map fst new)" "fval (dict_get d k (Fin 0))"
  shows "dict_get (merge_ledger new d) k (Fin 0) = fadd (dict_get d k (Fin 0)) (dict_get new k (Fin 0))"
  using assms
proof (induction new arbitrary: d)
  case (Cons kv new)
  obtain k' v where kv: "kv = (k', v)" by fastforce
  have step: "merge_ledger (kv # new) d = merge_ledger new (credit k' v d)" by (simp add: merge_ledger_def kv)
  have look: "dict_get (kv # new) k (Fin 0) = (if k = k' then v else dict_get new k (Fin 0))" by (simp add: kv dict_get_def)
  have v: "fval (dict_get (credit k' v d) k (Fin 0))" using Cons.prems(2) by (simp add: get_credit)
  show ?case
  proof (cases "k = k'")
    case True
    then have "map_of new k = None" using Cons.prems(1) by (simp add: kv map_of_eq_None_iff)
    then have "dict_get new k (Fin 0) = Fin 0" by (simp add: dict_get_def)
    then show ?thesis unfolding step look using Cons.IH [OF _ v] Cons.prems(1) True v by (simp add: kv get_credit fadd_zero)
  next
    case False
    then show ?thesis unfolding step look using Cons.IH [OF _ v] Cons.prems(1) False by (simp add: kv get_credit)
  qed
qed (simp add: merge_ledger_def fadd_zero)

lemma distinct_credited: "distinct (map fst d) \<Longrightarrow> distinct (map fst (fold credit_stake ss d))"
  by (induction ss arbitrary: d) (auto simp: credit_stake_def distinct_credit)

lemma distinct_merge_ledger: "distinct (map fst d) \<Longrightarrow> distinct (map fst (merge_ledger new d))"
  unfolding merge_ledger_def by (induction new arbitrary: d) (auto simp: distinct_credit)

lemma burn_step_kept:
  assumes "stake_wf s"
  shows "burn_step pct (rs_node_id s, rs_rep_type s, rs_amount s) (d, x) =
    (if flt (Fin 0) (kept_part pct (rs_amount s)) then credit (rs_node_id s, rs_rep_type s) (kept_part pct (rs_amount s)) d else d,
     if fisfinite (rs_amount s) then fadd x (fst (split_at (rs_amount s) pct)) else x)"
  using assms by (auto simp: burn_step_def stake_wf_def kept_part_def split_at_def Let_def)

lemma burned_stakes:
  assumes "\<forall>s \<in> set ss. stake_wf s" "fval (dict_get d (n, rt) (Fin 0))" "distinct (map fst d)"
  shows "dict_get (fst (fold (burn_step pct) (stake_entries ss) (d, x))) (n, rt) (Fin 0)
      = foldl fadd (dict_get d (n, rt) (Fin 0)) (map (kept_part pct \<circ> rs_amount) (stakes_of n rt ss))
    \<and> distinct (map fst (fst (fold (burn_step pct) (stake_entries ss) (d, x))))"
  using assms
proof (induction ss arbitrary: d x)
  case (Cons s ss)
  let ?k = "kept_part pct (rs_amount s)"
  obtain x' where st: "burn_step pct (rs_node_id s, rs_rep_type s, rs_amount s) (d, x)
      = (if flt (Fin 0) ?k then credit (rs_node_id s, rs_rep_type s) ?k d else d, x')"
    using burn_step_kept Cons.prems(1) by simp
  let ?d = "if flt (Fin 0) ?k then credit (rs_node_id s, rs_rep_type s) ?k d else d"
  have z: "\<not> flt (Fin 0) ?k \<Longrightarrow> ?k = Fin 0" by (auto simp: kept_part_def Let_def)
  have g: "dict_get ?d (n, rt) (Fin 0) = (if rs_node_id s = n \<and> rs_rep_type s = rt then fadd (dict_get d (n, rt) (Fin 0)) ?k else dict_get d (n, rt) (Fin 0))"
    using z Cons.prems(2) by (auto simp: get_credit fadd_zero)
  have "fval (dict_get ?d (n, rt) (Fin 0))" "distinct (map fst ?d)" using Cons.prems(2,3) unfolding g by (auto simp: distinct_credit)
  from Cons.IH [OF _ this, of x'] Cons.prems(1)
  show ?case by (simp add: stake_entries_def st g) (simp add: stakes_of_def)
qed (simp add: stake_entries_def stakes_of_def)

lemma finite_float_tv_Some: "finite_float_tv v = Inr (Some x) \<Longrightarrow> py_float v = Inr x \<and> fisfinite x"
  by (cases "py_float v") (auto simp: finite_float_tv_def catching_def bnd_eq_Inr split: if_splits option.splits)

lemma stalemate_pct:
  assumes "apply_to_stakes cfg ss None = Inr (returns, burned)"
  shows "\<exists>pct. cfg_float cfg ''resolution_stalemate_burn_pct'' = Inr pct \<and> (returns, burned) = fold (burn_step pct) ss ([], Fin 0)"
proof -
  from assms obtain pct where p: "stalemate_burn_pct cfg = Inr pct" "(returns, burned) = fold (burn_step pct) ss ([], Fin 0)"
    by (auto simp: apply_to_stakes_def effective_burn_pct_def bnd_eq_Inr split: if_splits)
  from p(1) obtain v where "cfg_get cfg ''resolution_stalemate_burn_pct'' = Inr v" "finite_float_tv v = Inr (Some pct)"
    by (auto simp: stalemate_burn_pct_def bnd_eq_Inr split: option.splits)
  then have "cfg_float cfg ''resolution_stalemate_burn_pct'' = Inr pct" using finite_float_tv_Some by (simp add: cfg_float_def)
  with p(2) show ?thesis by blast
qed

lemma burn_returns:
  assumes "apply_to_stakes cfg (stake_entries ss) None = Inr (returns, burned)" "\<forall>s \<in> set ss. stake_wf s"
  shows "\<exists>pct. cfg_float cfg ''resolution_stalemate_burn_pct'' = Inr pct \<and> distinct (map fst returns)
    \<and> (\<forall>n rt. dict_get returns (n, rt) (Fin 0) = fsum (map (kept_part pct \<circ> rs_amount) (stakes_of n rt ss)))"
proof -
  from stalemate_pct [OF assms(1)] obtain pct where p: "cfg_float cfg ''resolution_stalemate_burn_pct'' = Inr pct"
    "(returns, burned) = fold (burn_step pct) (stake_entries ss) ([], Fin 0)" by blast
  have "returns = fst (fold (burn_step pct) (stake_entries ss) ([], Fin 0))" using p(2) by (metis fst_conv)
  with burned_stakes [OF assms(2), of "[]" _ _ pct "Fin 0"] p(1) show ?thesis by (auto simp: fsum_def)
qed

text \<open>What the invalid results of a staked market return\<close>

definition da_kept :: "pydict \<Rightarrow> resolution_stake list \<Rightarrow> resolution_result \<Rightarrow> bool" where
  "da_kept cfg stakes r \<longleftrightarrow> (\<exists>pct. cfg_float cfg ''resolution_stalemate_burn_pct'' = Inr pct
     \<and> (\<forall>n rt. dict_get (stake_returns r) (n, rt) (Fin 0)
          = fadd (fsum (map rs_amount (stakes_of n rt (filter (\<lambda>s. rs_side s = ''data_unavailable'') stakes))))
                 (fsum (map (kept_part pct \<circ> rs_amount) (stakes_of n rt (filter (\<lambda>s. rs_side s \<noteq> ''data_unavailable'') stakes))))))"

definition stalemate_kept :: "pydict \<Rightarrow> resolution_stake list \<Rightarrow> resolution_result \<Rightarrow> bool" where
  "stalemate_kept cfg stakes r \<longleftrightarrow> (\<exists>pct. cfg_float cfg ''resolution_stalemate_burn_pct'' = Inr pct
     \<and> (\<forall>n rt. dict_get (stake_returns r) (n, rt) (Fin 0) = fsum (map (kept_part pct \<circ> rs_amount) (stakes_of n rt stakes))))"

lemma da_fold_credit: "\<forall>s \<in> set ss. stake_wf s \<Longrightarrow> fold da_return_step ss d = fold credit_stake ss d"
  by (induction ss arbitrary: d) (auto simp: da_return_step_def credit_stake_def stake_wf_def)

lemma da_returns:
  assumes "resolve_data_unavailable_effects cfg stakes bs = Inr e" and wf: "\<forall>s \<in> set stakes. stake_wf s"
    and r: "stake_returns r = merge_ledger (da_stake_returns e) []"
  shows "da_kept cfg stakes r"
proof -
  let ?da = "filter (\<lambda>s. rs_side s = ''data_unavailable'') stakes" and ?yn = "filter (\<lambda>s. rs_side s \<in> {''yes'', ''no''}) stakes"
  have yn: "?yn = filter (\<lambda>s. rs_side s \<noteq> ''data_unavailable'') stakes"
    using wf by (auto simp: stake_wf_def intro: filter_cong)
  have ret0: "fold da_return_step ?da [] = fold credit_stake ?da []" by (rule da_fold_credit) (use wf in auto)
  from assms(1) obtain returns burned where a: "apply_to_stakes cfg (stake_entries ?yn) None = Inr (returns, burned)"
    and e: "da_stake_returns e = merge_ledger returns (fold credit_stake ?da [])"
    unfolding resolve_data_unavailable_effects_def Let_def ret0 by (auto simp only: bnd_eq_Inr split_beta sum.inject fst_conv snd_conv da_effects.simps)
  have "\<forall>s \<in> set ?yn. stake_wf s" using wf by simp
  from burn_returns [OF a this] obtain pct where p: "cfg_float cfg ''resolution_stalemate_burn_pct'' = Inr pct" "distinct (map fst returns)"
    "\<And>n rt. dict_get returns (n, rt) (Fin 0) = fsum (map (kept_part pct \<circ> rs_amount) (stakes_of n rt ?yn))" by blast
  have g: "dict_get (fold credit_stake ?da []) (n, rt) (Fin 0) = fsum (map rs_amount (stakes_of n rt ?da))" for n rt
    by (simp add: credited_stakes fsum_def)
  have d0: "distinct (map fst (fold credit_stake ?da []))"
    by (rule distinct_credited) simp
  have "dict_get (da_stake_returns e) (n, rt) (Fin 0) = fadd (fsum (map rs_amount (stakes_of n rt ?da)))
      (fsum (map (kept_part pct \<circ> rs_amount) (stakes_of n rt ?yn)))" for n rt
    unfolding e by (subst get_merge_ledger) (simp_all only: p(2,3) g fval_fsum)
  then have "dict_get (stake_returns r) (n, rt) (Fin 0) = fadd (fsum (map rs_amount (stakes_of n rt ?da)))
      (fsum (map (kept_part pct \<circ> rs_amount) (stakes_of n rt ?yn)))" for n rt
    unfolding r using get_merge_ledger [of "da_stake_returns e" "[]" "(n, rt)"] distinct_merge_ledger [OF d0] by (simp add: e fadd_zero)
  with p(1) show ?thesis unfolding da_kept_def yn by blast
qed

definition returns_everything :: "resolution_stake list \<Rightarrow> resolution_result \<Rightarrow> bool" where
  "returns_everything stakes r \<longleftrightarrow> stake_returns r = fold credit_stake stakes []"

lemma resolve_staked_cases:
  assumes "resolve_staked cfg m prov stakes bs = Inr r" and wf: "\<forall>s \<in> set stakes. stake_wf s"
  shows "(rr_outcome r = ''invalid'' \<and> rr_reason r = ''data_unavailable'' \<and> da_kept cfg stakes r)
    \<or> (rr_outcome r = ''invalid'' \<and> rr_reason r = ''no_supermajority'' \<and> stalemate_kept cfg stakes r)
    \<or> (rr_outcome r = ''invalid'' \<and> rr_reason r \<in> {''below_min_resolution_stake'', ''no_winning_side_evidence''} \<and> returns_everything stakes r)
    \<or> (\<exists>w. w \<in> {''yes'', ''no''} \<and> settle_market cfg m prov w stakes bs = Inr r)"
proof -
  from assms(1) obtain da where da: "is_data_unavailable_triggered cfg stakes = Inr da"
    by (auto simp: resolve_staked_def bnd_eq_Inr)
  show ?thesis
  proof (cases da)
    case True
    then obtain e where "resolve_data_unavailable_effects cfg stakes bs = Inr e" and r: "r = (new_result m prov ''invalid'' ''data_unavailable'')
        \<lparr>stake_returns := merge_ledger (da_stake_returns e) [], bond_forfeits := merge_ledger (da_bond_forfeits e) [], burned_amount := fadd (Fin 0) (da_burned e)\<rparr>"
      using assms da by (auto simp: resolve_staked_def bnd_eq_Inr Let_def new_result_def)
    then show ?thesis using da_returns [OF _ wf, of cfg bs e r] by (simp add: new_result_def)
  next
    case nda: False
    obtain mt where mt: "cfg_float cfg ''min_resolution_stake_total'' = Inr mt"
      using assms da nda by (auto simp: resolve_staked_def bnd_eq_Inr Let_def)
    let ?y = "stake_sum (\<lambda>s. rs_side s = ''yes'' \<and> rs_rep_type s = ''oracle'') stakes"
    let ?n = "stake_sum (\<lambda>s. rs_side s = ''no'' \<and> rs_rep_type s = ''oracle'') stakes"
    show ?thesis
    proof (cases "flt (fadd ?y ?n) mt")
      case True
      then show ?thesis using assms da nda mt
        by (simp add: resolve_staked_def Let_def returns_everything_def) (auto simp: return_bonds_def return_stakes_def new_result_def)
    next
      case enough: False
      obtain t w where tw: "cfg_float cfg ''resolution_supermajority'' = Inr t" "supermajority_winner ?y ?n t = Inr w"
        using assms da nda mt enough by (auto simp: resolve_staked_def Let_def bnd_eq_Inr)
      show ?thesis
      proof (cases w)
        case None
        then obtain returns burned where a: "apply_to_stakes cfg (stake_entries stakes) None = Inr (returns, burned)"
          and r: "stake_returns r = merge_ledger returns []" "rr_outcome r = ''invalid''" "rr_reason r = ''no_supermajority''"
          using assms da nda mt enough tw by (auto simp: resolve_staked_def Let_def bnd_eq_Inr return_bonds_def new_result_def)
        from burn_returns [OF a wf] have "stalemate_kept cfg stakes r"
          unfolding stalemate_kept_def r(1) by (auto simp: get_merge_ledger fadd_zero)
        with r show ?thesis by simp
      next
        case (Some ws)
        then have "(if \<not> (\<exists>b \<in> set bs. claimed_outcome b = ws)
            then Inr (return_bonds bs (return_stakes stakes (new_result m prov ''invalid'' ''no_winning_side_evidence'')))
            else settle_market cfg m prov ws stakes bs) = Inr r"
          using assms da nda mt enough tw by (simp add: resolve_staked_def Let_def)
        moreover have "ws \<in> {''yes'', ''no''}" using supermajority_winner_Some tw(2) Some by blast
        ultimately show ?thesis
          by (cases "\<exists>b \<in> set bs. claimed_outcome b = ws") (auto simp: returns_everything_def return_bonds_def return_stakes_def new_result_def)
      qed
    qed
  qed
qed

lemma settle_rep_type_reason: "settle_rep_type p w ss rt r = Inr r' \<Longrightarrow> rr_reason r' = rr_reason r"
  by (auto simp: settle_rep_type_def Let_def bnd_eq_Inr return_stakes_def split: if_splits)

lemma bond_step_reason: "bond_step cfg w b x = Inr x' \<Longrightarrow> rr_reason (fst x') = rr_reason (fst x)"
  by (cases x) (auto simp: bond_step_def Let_def bnd_eq_Inr split: if_splits)

lemma settle_market_reason:
  assumes "settle_market cfg m prov w stakes bs = Inr r" shows "rr_reason r = ''supermajority_'' @ w"
proof -
  from settle_market_parts [OF assms] obtain p r1 r2 bud
    where r1: "foldres (settle_rep_type p w stakes) [''oracle'', ''common''] (new_result m prov w (''supermajority_'' @ w)) = Inr r1"
    and r2: "foldres (bond_step cfg w) bs (r1, losing_bond_pool w bs) = Inr (r2, bud)" and r: "r = r2\<lparr>burned_amount := fadd (burned_amount r2) bud\<rparr>" by blast
  have "rr_reason r1 = ''supermajority_'' @ w"
    by (rule foldres_invariant [OF r1]) (use settle_rep_type_reason in \<open>auto simp: new_result_def\<close>)
  then have "rr_reason (fst (r2, bud)) = ''supermajority_'' @ w"
    by (intro foldres_invariant [OF r2, where I = "\<lambda>x. rr_reason (fst x) = ''supermajority_'' @ w"]) (use bond_step_reason in auto)
  then show ?thesis by (simp add: r)
qed

lemma winning_stakes_of: "rt \<noteq> rt' \<Longrightarrow> stakes_of n rt (returned_stakes w rt' stakes) = []"
  by (auto simp: stakes_of_def returned_stakes_def winning_stakes_def da_stakes_def filter_empty_conv)

text \<open>
  C13: On a market decided by stakes no principal is lost or mixed up; the result says for each node, per
  rep type, what comes back, summed in chain order. A decided market returns exactly the stakes on the
  winning side and on "data unavailable". A market without evidence, below the minimal total or whose
  winning side has no evidence returns every stake in full. Without a supermajority every stake comes
  back less the configured burn, and on the data-unavailable path the stakes on "data unavailable" in
  full and all others less the burn. There is no other result.
\<close>

theorem principal_returned:
  assumes "resolve_market P cfg m chain prov = Inr r" "create_event m chain = Some cev"
    and "staked_market cfg cev"
    and st: "collect_resolution_stakes m chain True = Inr stakes"
  shows "(rr_outcome r \<noteq> ''invalid'' \<longrightarrow> (\<forall>n. \<forall>rt \<in> {''oracle'', ''common''}. dict_get (stake_returns r) (n, rt) (Fin 0)
            = fsum (map rs_amount (stakes_of n rt (winning_stakes (rr_outcome r) rt stakes @ da_stakes rt stakes)))))
    \<and> (rr_outcome r = ''invalid'' \<longrightarrow> rr_reason r \<in> {''no_evidence'', ''below_min_resolution_stake'', ''no_winning_side_evidence'',
         ''no_supermajority'', ''data_unavailable''})
    \<and> (rr_reason r \<in> {''no_evidence'', ''below_min_resolution_stake'', ''no_winning_side_evidence''} \<longrightarrow>
         (\<forall>n rt. dict_get (stake_returns r) (n, rt) (Fin 0) = fsum (map rs_amount (stakes_of n rt stakes))))
    \<and> (rr_reason r = ''no_supermajority'' \<longrightarrow> stalemate_kept cfg stakes r)
    \<and> (rr_reason r = ''data_unavailable'' \<longrightarrow> da_kept cfg stakes r)"
proof -
  from assms(1,2) obtain idx bs where idx: "bootstrap_index (payload cev) = Inr idx" and bs: "collect_evidence P m chain = Inr bs"
    by (auto simp: resolve_market_def bnd_eq_Inr)
  have boot: "is_bootstrap cfg idx = Inr False" using assms(3) is_bootstrap_False [OF idx] by blast
  have wf: "\<forall>s \<in> set stakes. stake_wf s" using collected_stakes [OF st] by blast
  have all: "returns_everything stakes r \<Longrightarrow> dict_get (stake_returns r) (n, rt) (Fin 0) = fsum (map rs_amount (stakes_of n rt stakes))" for n rt
    by (simp add: returns_everything_def credited_stakes fsum_def)
  show ?thesis
  proof (cases "bs = []")
    case True
    then have "r = return_stakes stakes (new_result m prov ''invalid'' ''no_evidence'')"
      using assms bs idx by (simp add: resolve_market_def)
    then have "rr_outcome r = ''invalid''" "rr_reason r = ''no_evidence''" "returns_everything stakes r"
      by (simp_all add: returns_everything_def return_stakes_def new_result_def)
    then show ?thesis using all by simp
  next
    case False
    then have r: "resolve_staked cfg m prov stakes bs = Inr r"
      using assms bs idx boot by (simp add: resolve_market_def)
    from resolve_staked_cases [OF r wf] show ?thesis
    proof (elim disjE)
      assume "\<exists>w. w \<in> {''yes'', ''no''} \<and> settle_market cfg m prov w stakes bs = Inr r"
      then obtain w where o: "w \<in> {''yes'', ''no''}" and w: "settle_market cfg m prov w stakes bs = Inr r" by blast
      have "dict_get (stake_returns r) (n, rt) (Fin 0) = fsum (map rs_amount (stakes_of n rt (returned_stakes w rt stakes)))"
        if "rt \<in> {''oracle'', ''common''}" for n rt
        using that winning_stakes_of [of rt _ n w stakes]
        by (auto simp: settle_market_returns [OF w] credited_stakes fsum_def stakes_of_def)
      then show ?thesis using settle_market_outcome [OF w] settle_market_reason [OF w] o by (auto simp: returned_stakes_def)
    qed (use all in auto)
  qed
qed

theorem principal_returned_witness:
  "\<exists>r. resolve_market plain_primitives baseline_config ''m'' example_market False = Inr r
     \<and> dict_get (stake_returns r) (''d'', ''oracle'') (Fin 0) = Fin 100"
proof -
  obtain r where r: "resolve_staked baseline_config ''m'' False [example_stake] [example_bundle] = Inr r" "rr_outcome r = ''yes''"
    using example_staked by blast
  let ?c = "[(''event_type'', PStr ''prediction_create''), (''node_id'', PStr ''a''), (''payload'', PDict [(''market_id'', PStr ''m'')])]"
  have c: "create_event ''m'' example_market = Some ?c" "get (payload ?c) ''bootstrap_index'' = PNone"
    by (simp_all add: create_event_def example_market_def ev_is_def payload_def)
  then have "resolve_market plain_primitives baseline_config ''m'' example_market False = Inr r"
    by (simp add: resolve_market_def example_evidence example_stakes bootstrap_index_def is_bootstrap_def r(1))
  moreover have "staked_market baseline_config ?c" using c(2) by (simp add: staked_market_def bootstrap_index_def)
  ultimately show ?thesis using principal_returned [OF _ c(1) _ example_stakes] r(2)
    by (auto simp: stakes_of_def winning_stakes_def da_stakes_def example_stake_def fsum_def)
qed

subsection \<open>Evidence bonds\<close>

lemma settle_rep_type_bonuses: "settle_rep_type p w ss rt r = Inr r' \<Longrightarrow> first_submitter_bonuses r' = first_submitter_bonuses r"
  by (auto simp: settle_rep_type_def Let_def bnd_eq_Inr return_stakes_def split: if_splits)

definition one_bonus :: "string \<Rightarrow> pyfloat \<Rightarrow> evidence_bundle list \<Rightarrow> string ledger \<Rightarrow> bool" where
  "one_bonus w pool bs d \<longleftrightarrow> (\<exists>b x. b \<in> set bs \<and> eb_first_for_side b \<and> claimed_outcome b = w \<and> d = [(eb_node_id b, x)]
     \<and> fnonneg x \<and> fle x pool)"

lemma bonus_amount:
  assumes "flt (Fin 0) (fmin bonus pool)" "fval pool" "pool \<noteq> NaN"
  shows "fnonneg (fadd (Fin 0) (fmin bonus pool)) \<and> fle (fadd (Fin 0) (fmin bonus pool)) pool"
proof -
  have le: "fle (fmin bonus pool) pool"
    using assms(1,3) not_flt_fle [of pool bonus] by (cases "bonus = NaN") (auto simp: fmin_def)
  show ?thesis
  proof (cases "fmin bonus pool")
    case (Fin a)
    have "fle (fl a) pool"
    proof (cases pool)
      case (Fin p)
      then have "fl p = Fin p" using assms(2) by (simp add: fl_exact in_range_def)
      moreover have "a \<le> p" using le Fin \<open>fmin bonus pool = Fin a\<close> by simp
      ultimately show ?thesis using fl_mono [of a p] Fin by simp
    qed (use assms le Fin in auto)
    then show ?thesis using assms(1) Fin by simp
  qed (use assms le in auto)
qed

lemma bond_loop_bonus:
  assumes "foldres (bond_step cfg w) bs (r1, pool) = Inr (r2, bud)" "firsts_ok bs" "first_submitter_bonuses r1 = []" "fval pool"
  shows "first_submitter_bonuses r2 = [] \<and> bud = pool \<or> one_bonus w pool bs (first_submitter_bonuses r2)"
  using assms(1,2)
proof (induction bs arbitrary: r2 bud rule: rev_induct)
  case (snoc b bs)
  then obtain r0 bud0 where pre: "foldres (bond_step cfg w) bs (r1, pool) = Inr (r0, bud0)"
    and st: "bond_step cfg w b (r0, bud0) = Inr (r2, bud)" by (auto simp: foldres_append bnd_eq_Inr)
  have first: "eb_first_for_side b \<longleftrightarrow> (\<forall>c \<in> set bs. claimed_outcome c \<noteq> claimed_outcome b)" and ok: "firsts_ok bs"
    using snoc.prems(2) by (simp_all add: firsts_ok_snoc)
  note ih = snoc.IH [OF pre ok]
  show ?case
  proof (cases "claimed_outcome b = w \<and> eb_first_for_side b \<and> flt (Fin 0) bud0")
    case False
    then have "first_submitter_bonuses r2 = first_submitter_bonuses r0 \<and> bud = bud0"
      using st by (auto simp: bond_step_def Let_def split: if_splits)
    with ih show ?thesis unfolding one_bonus_def by (metis in_set_conv_decomp set_append UnCI)
  next
    case True
    then have "\<not> one_bonus w pool bs (first_submitter_bonuses r0)" using first by (auto simp: one_bonus_def)
    with ih have e: "first_submitter_bonuses r0 = []" "bud0 = pool" by auto
    from st True obtain bonus where bo: "cfg_float cfg ''evidence_first_bonus'' = Inr bonus"
      by (auto simp: bond_step_def Let_def bnd_eq_Inr)
    have p: "pool \<noteq> NaN" using True e by auto
    show ?thesis
    proof (cases "flt (Fin 0) (fmin bonus pool)")
      case True2: True
      have "first_submitter_bonuses r2 = [(eb_node_id b, fadd (Fin 0) (fmin bonus pool))]"
        using st True e bo True2 by (auto simp: bond_step_def Let_def credit_def dict_add_def)
      then show ?thesis using bonus_amount [OF True2 assms(4) p] True unfolding one_bonus_def by auto
    next
      case False
      then show ?thesis using st True e bo by (auto simp: bond_step_def Let_def)
    qed
  qed
qed (simp add: assms(3))

text \<open>
  At most one first-submitter bonus is paid, to the node of the first evidence for the winning side,
  and it never exceeds the bonds that the losing side forfeits.
\<close>

theorem bonus_within_losing_bonds:
  assumes "resolve_market P cfg m chain prov = Inr r" "collect_evidence P m chain = Inr bs"
  shows "first_submitter_bonuses r = [] \<or> one_bonus (rr_outcome r) (losing_bond_pool (rr_outcome r) bs) bs (first_submitter_bonuses r)"
proof (cases "\<exists>stakes w. settle_market cfg m prov w stakes bs = Inr r")
  case True
  then obtain stakes w where w: "settle_market cfg m prov w stakes bs = Inr r" by blast
  from settle_market_parts [OF w] obtain p r1 r2 bud
    where r1: "foldres (settle_rep_type p w stakes) [''oracle'', ''common''] (new_result m prov w (''supermajority_'' @ w)) = Inr r1"
    and r2: "foldres (bond_step cfg w) bs (r1, losing_bond_pool w bs) = Inr (r2, bud)" and r: "r = r2\<lparr>burned_amount := fadd (burned_amount r2) bud\<rparr>" by blast
  have "first_submitter_bonuses r1 = []"
    by (rule foldres_invariant [OF r1]) (use settle_rep_type_bonuses in \<open>auto simp: new_result_def\<close>)
  then show ?thesis using bond_loop_bonus [OF r2] collect_evidence_inv [OF assms(2)] settle_market_outcome [OF w]
    by (auto simp: r losing_bond_pool_def)
next
  case False
  have nb: "first_submitter_bonuses (new_result m prov oc re) = []" for oc re by (simp add: new_result_def)
  have sb: "first_submitter_bonuses (settle_bonds w bs r0) = first_submitter_bonuses r0" for w bs r0
    unfolding settle_bonds_def by (induction bs arbitrary: r0) auto
  have boot: "first_submitter_bonuses r = []" if "resolve_bootstrap P cfg m chain prov bs = Inr r"
    using that by (auto simp: resolve_bootstrap_def bnd_eq_Inr Let_def return_bonds_def nb sb split: if_splits option.splits)
  have staked: "first_submitter_bonuses r = []" if "resolve_staked cfg m prov stakes bs = Inr r" for stakes
    using that False
    by (auto simp: resolve_staked_def bnd_eq_Inr Let_def return_bonds_def return_stakes_def nb split: if_splits option.splits)
  show ?thesis using assms boot staked
    by (auto simp: resolve_market_def bnd_eq_Inr return_stakes_def nb split: if_splits option.splits)
qed

theorem bonus_within_losing_bonds_witness:
  "\<exists>r. resolve_market plain_primitives baseline_config ''m'' example_market False = Inr r \<and> length (first_submitter_bonuses r) \<le> 1"
proof -
  obtain r where r: "resolve_staked baseline_config ''m'' False [example_stake] [example_bundle] = Inr r"
    using example_staked by blast
  let ?c = "[(''event_type'', PStr ''prediction_create''), (''node_id'', PStr ''a''), (''payload'', PDict [(''market_id'', PStr ''m'')])]"
  have "create_event ''m'' example_market = Some ?c" by (simp add: create_event_def example_market_def ev_is_def payload_def)
  then have "resolve_market plain_primitives baseline_config ''m'' example_market False = Inr r"
    by (simp add: resolve_market_def example_evidence example_stakes bootstrap_index_def payload_def is_bootstrap_def r)
  then show ?thesis using bonus_within_losing_bonds [OF _ example_evidence] by (fastforce simp: one_bonus_def)
qed

text \<open>
  When nobody of a rep type staked on the winning side, the losing stakes of that rep type are neither
  returned nor added to the burned amount.
\<close>

lemma losing_pool_unbooked:
  assumes "winning_stakes w rt stakes = []" "da_stakes rt stakes = []"
  shows "settle_rep_type p w stakes rt r = Inr r"
  using assms by (simp add: settle_rep_type_def Let_def return_stakes_def fsum_def)

end
