(* ===== verification/Dispute.thy ===== *)
theory Dispute
  imports Stalemate_Burn Json
begin

text \<open>
  \<open>services/infonet/markets/dispute.py\<close>: disputes of a market as the chain shows them, their outcome,
  the effective outcome of the market, and the transfers of a resolved dispute.
\<close>

subsection \<open>Disputes on the chain\<close>

record dispute_stake =
  ds_node_id :: pyval
  ds_amount :: pyfloat
  ds_rep_type :: string

record dispute_view =
  dv_dispute_id :: string
  dv_market_id :: string
  challenger_id :: string
  challenger_stake :: pyfloat
  opened_at :: pyfloat
  confirm_stakes :: "dispute_stake list"
  reverse_stakes :: "dispute_stake list"
  resolved_outcome :: "string option"
  resolved_at :: "pyfloat option"

definition is_resolved :: "dispute_view \<Rightarrow> bool" where
  "is_resolved d \<longleftrightarrow> resolved_outcome d \<noteq> None"

text \<open>\<open>d.get(k, '')\<close>, formatted\<close>

definition format_field :: "pydict \<Rightarrow> string \<Rightarrow> string" where
  "format_field ev k = (case map_of ev k of None \<Rightarrow> [] | Some v \<Rightarrow> py_str v)"

definition dispute_id :: "pydict \<Rightarrow> string" where
  "dispute_id ev = (case nonempty_str (get (payload ev) ''dispute_id'') of
       Some did \<Rightarrow> did
     | None \<Rightarrow> (case nonempty_str (get ev ''event_id'') of
         Some eid \<Rightarrow> eid
       | None \<Rightarrow> ''dispute:'' @ py_str (py_or (get (payload ev) ''market_id'') (PStr [])) @ '':'' @ format_field ev ''node_id''
                   @ '':'' @ format_field ev ''timestamp''))"

type_synonym disputes = "(string \<times> dispute_view) list"

definition open_step :: "string \<Rightarrow> pydict \<Rightarrow> disputes \<Rightarrow> disputes res" where
  "open_step m ev disputes =
     (if \<not> ev_is ''dispute_open'' ev \<or> get (payload ev) ''market_id'' \<noteq> PStr m then Inr disputes
      else case (finite_float (get (payload ev) ''challenger_stake''), finite_float (get ev ''timestamp'')) of
        (Some cstake, Some opened) \<Rightarrow>
          if \<not> hashable (py_or (get ev ''event_id'') (PStr [])) then Inl TypeError
          else Inr (AList.update (dispute_id ev)
            \<lparr>dv_dispute_id = dispute_id ev, dv_market_id = m, challenger_id = py_str (py_or (get ev ''node_id'') (PStr [])),
             challenger_stake = cstake, opened_at = opened, confirm_stakes = [], reverse_stakes = [],
             resolved_outcome = None, resolved_at = None\<rparr> disputes)
      | _ \<Rightarrow> Inr disputes)"

text \<open>The dispute that a stake or resolve event refers to\<close>

definition referred_dispute :: "pydict \<Rightarrow> disputes \<Rightarrow> string option" where
  "referred_dispute ev disputes = (case get (payload ev) ''dispute_id'' of
       PStr did \<Rightarrow> if map_of disputes did \<noteq> None then Some did else None
     | _ \<Rightarrow> None)"

definition stake_step :: "pydict \<Rightarrow> disputes \<Rightarrow> disputes" where
  "stake_step ev disputes =
     (if \<not> ev_is ''dispute_stake'' ev then disputes
      else case referred_dispute ev disputes of
        None \<Rightarrow> disputes
      | Some did \<Rightarrow>
          (let side = get (payload ev) ''side''; rep_type = get (payload ev) ''rep_type'' in
           if \<not> in_strs side [''confirm'', ''reverse''] \<or> \<not> in_strs rep_type [''oracle'', ''common''] then disputes
           else case finite_float (get (payload ev) ''amount'') of
              None \<Rightarrow> disputes
            | Some amount \<Rightarrow>
                if fle amount (Fin 0) then disputes
                else let rec = \<lparr>ds_node_id = py_or (get ev ''node_id'') (PStr []), ds_amount = amount, ds_rep_type = py_str rep_type\<rparr> in
                  AList.map_entry did (\<lambda>d. if side = PStr ''confirm''
                    then d\<lparr>confirm_stakes := confirm_stakes d @ [rec]\<rparr> else d\<lparr>reverse_stakes := reverse_stakes d @ [rec]\<rparr>) disputes))"

definition resolve_step :: "pydict \<Rightarrow> disputes \<Rightarrow> disputes" where
  "resolve_step ev disputes =
     (if \<not> ev_is ''dispute_resolve'' ev then disputes
      else case referred_dispute ev disputes of
        None \<Rightarrow> disputes
      | Some did \<Rightarrow>
          (let outcome = get (payload ev) ''outcome'' in
           if \<not> in_strs outcome [''upheld'', ''reversed'', ''tie''] then disputes
           else case finite_float (get ev ''timestamp'') of
              None \<Rightarrow> disputes
            | Some t \<Rightarrow> AList.map_entry did (\<lambda>d. d\<lparr>resolved_outcome := Some (py_str outcome), resolved_at := Some t\<rparr>) disputes))"

definition dispute_lt :: "dispute_view \<Rightarrow> dispute_view \<Rightarrow> bool" where
  "dispute_lt a b = (if feq (opened_at a) (opened_at b) then str_lt (dv_dispute_id a) (dv_dispute_id b)
     else flt (opened_at a) (opened_at b))"

definition collect_disputes :: "string \<Rightarrow> chain \<Rightarrow> dispute_view list res" where
  "collect_disputes m chain = (let events = events_of chain in
     bnd (foldres (open_step m) events []) (\<lambda>opened.
       Inr (sort_by dispute_lt (map snd (fold resolve_step events (fold stake_step events opened))))))"

subsection \<open>Outcomes\<close>

definition oracle_sum :: "dispute_stake list \<Rightarrow> pyfloat" where
  "oracle_sum stakes = fsum (map ds_amount (filter (\<lambda>s. ds_rep_type s = ''oracle'') stakes))"

definition compute_dispute_outcome :: "dispute_view \<Rightarrow> string" where
  "compute_dispute_outcome d =
     (let confirm_oracle = oracle_sum (confirm_stakes d); reverse_oracle = oracle_sum (reverse_stakes d) in
      if flt reverse_oracle confirm_oracle then ''upheld''
      else if flt confirm_oracle reverse_oracle then ''reversed''
      else ''tie'')"

definition market_was_reversed :: "string \<Rightarrow> chain \<Rightarrow> bool res" where
  "market_was_reversed m chain = bnd (collect_disputes m chain) (\<lambda>ds. Inr (\<exists>d \<in> set ds. resolved_outcome d = Some ''reversed''))"

definition flip :: "string \<Rightarrow> string" where
  "flip outcome = (if outcome = ''yes'' then ''no'' else if outcome = ''no'' then ''yes'' else outcome)"

definition effective_outcome :: "string \<Rightarrow> string \<Rightarrow> chain \<Rightarrow> string res" where
  "effective_outcome original m chain =
     (if original \<notin> {''yes'', ''no''} then Inr original
      else bnd (collect_disputes m chain) (\<lambda>ds.
        Inr (fold (\<lambda>d current. if resolved_outcome d = Some ''reversed'' then flip current else current) ds original)))"

subsection \<open>Settlement\<close>

record dispute_effects =
  de_stake_returns :: "(pyval \<times> string) ledger"
  de_stake_winnings :: "(pyval \<times> string) ledger"
  de_burned :: pyfloat

text \<open>
  The node id of a stake is a key of the effects: numbers that compare equal are the same key, and an
  unhashable value raises.
\<close>

definition node_key :: "pyval \<Rightarrow> pyval res" where
  "node_key v = (if \<not> hashable v then Inl TypeError
     else Inr (case num_val v of None \<Rightarrow> v | Some x \<Rightarrow> PFloat x))"

definition return_step :: "dispute_stake \<Rightarrow> (pyval \<times> string) ledger \<Rightarrow> (pyval \<times> string) ledger res" where
  "return_step s d = bnd (node_key (ds_node_id s)) (\<lambda>n. Inr (credit (n, ds_rep_type s) (ds_amount s) d))"

definition winnings_step :: "pyfloat \<Rightarrow> pyfloat \<Rightarrow> dispute_stake \<Rightarrow> (pyval \<times> string) ledger \<Rightarrow> (pyval \<times> string) ledger res" where
  "winnings_step winner_pool distributable s d =
     bnd (fdiv (ds_amount s) winner_pool) (\<lambda>share.
     bnd (node_key (ds_node_id s)) (\<lambda>n. Inr (credit (n, ds_rep_type s) (fmul share distributable) d)))"

definition settle_dispute_rep :: "pyfloat \<Rightarrow> dispute_stake list \<Rightarrow> dispute_stake list \<Rightarrow> string \<Rightarrow> dispute_effects \<Rightarrow> dispute_effects res" where
  "settle_dispute_rep burn_pct winners losers rep_type e =
     (let rep_winners = filter (\<lambda>s. ds_rep_type s = rep_type) winners;
          rep_losers = filter (\<lambda>s. ds_rep_type s = rep_type) losers;
          winner_pool = fsum (map ds_amount rep_winners);
          loser_pool = fsum (map ds_amount rep_losers)
      in bnd (foldres return_step rep_winners (de_stake_returns e)) (\<lambda>returns.
         let e' = e\<lparr>de_stake_returns := returns\<rparr> in
         if feq winner_pool (Fin 0) \<or> feq loser_pool (Fin 0) then Inr e'
         else let burn = fmul loser_pool burn_pct; distributable = fsub loser_pool burn in
           bnd (foldres (winnings_step winner_pool distributable) rep_winners (de_stake_winnings e')) (\<lambda>w.
             Inr (e'\<lparr>de_burned := fadd (de_burned e') burn, de_stake_winnings := w\<rparr>))))"

definition dispute_settlement_effects :: "pydict \<Rightarrow> dispute_view \<Rightarrow> dispute_effects res" where
  "dispute_settlement_effects cfg d =
     (let none = \<lparr>de_stake_returns = [], de_stake_winnings = [], de_burned = Fin 0\<rparr> in
      case resolved_outcome d of
        None \<Rightarrow> Inr none
      | Some outcome \<Rightarrow>
          if outcome = ''tie''
          then bnd (foldres return_step (confirm_stakes d @ reverse_stakes d) []) (\<lambda>returns. Inr (none\<lparr>de_stake_returns := returns\<rparr>))
          else let winners = (if outcome = ''upheld'' then confirm_stakes d else reverse_stakes d);
                   losers = (if outcome = ''upheld'' then reverse_stakes d else confirm_stakes d)
            in bnd (cfg_float cfg ''resolution_loser_burn_pct'') (\<lambda>burn_pct.
               foldres (settle_dispute_rep burn_pct winners losers) [''oracle'', ''common''] none))"

subsection \<open>The views are well formed\<close>

definition stake_ok :: "dispute_stake \<Rightarrow> bool" where
  "stake_ok s \<longleftrightarrow> fisfinite (ds_amount s) \<and> fpos (ds_amount s) \<and> ds_rep_type s \<in> {''oracle'', ''common''}"

definition view_ok :: "string \<Rightarrow> string \<times> dispute_view \<Rightarrow> bool" where
  "view_ok m = (\<lambda>(did, d). dv_dispute_id d = did \<and> dv_market_id d = m \<and> fisfinite (opened_at d) \<and> fisfinite (challenger_stake d)
     \<and> list_all stake_ok (confirm_stakes d) \<and> list_all stake_ok (reverse_stakes d)
     \<and> (case resolved_outcome d of None \<Rightarrow> resolved_at d = None | Some oc \<Rightarrow> oc \<in> {''upheld'', ''reversed'', ''tie''} \<and> resolved_at d \<noteq> None))"

definition disputes_ok :: "string \<Rightarrow> disputes \<Rightarrow> bool" where
  "disputes_ok m ds \<longleftrightarrow> distinct (map fst ds) \<and> (\<forall>x \<in> set ds. view_ok m x)"

lemma set_map_entry: "(k', v') \<in> set (AList.map_entry k f d) \<Longrightarrow> (k', v') \<in> set d \<or> (\<exists>v. (k, v) \<in> set d \<and> k' = k \<and> v' = f v)"
  by (induction d) (auto split: if_splits)

lemma disputes_ok_map_entry:
  assumes "disputes_ok m ds" "\<And>v. view_ok m (k, v) \<Longrightarrow> view_ok m (k, f v)" shows "disputes_ok m (AList.map_entry k f ds)"
proof -
  have "view_ok m (k', v')" if "(k', v') \<in> set (AList.map_entry k f ds)" for k' v'
    using set_map_entry [OF that] assms by (auto simp: disputes_ok_def)
  then show ?thesis using assms(1) by (auto simp: disputes_ok_def distinct_map_entry)
qed

lemma open_step_ok: "open_step m ev ds = Inr ds' \<Longrightarrow> disputes_ok m ds \<Longrightarrow> disputes_ok m ds'"
  by (auto simp: open_step_def disputes_ok_def distinct_update view_ok_def finite_float_Some split: if_splits option.splits
      dest!: set_update)

lemma stake_step_ok: "disputes_ok m ds \<Longrightarrow> disputes_ok m (stake_step ev ds)"
proof -
  assume ok: "disputes_ok m ds"
  have p: "fpos a" if "finite_float v = Some a" "\<not> fle a (Fin 0)" for v a
    using that by (auto dest!: finite_float_finite)
  have c: "disputes_ok m (AList.map_entry did (\<lambda>d. d\<lparr>confirm_stakes := confirm_stakes d @ [r]\<rparr>) ds)" if "stake_ok r" for did r
    by (rule disputes_ok_map_entry [OF ok]) (use that in \<open>auto simp: view_ok_def split: option.splits\<close>)
  have r: "disputes_ok m (AList.map_entry did (\<lambda>d. d\<lparr>reverse_stakes := reverse_stakes d @ [r]\<rparr>) ds)" if "stake_ok r" for did r
    by (rule disputes_ok_map_entry [OF ok]) (use that in \<open>auto simp: view_ok_def split: option.splits\<close>)
  show ?thesis
    by (auto simp: stake_step_def Let_def stake_ok_def finite_float_Some in_strs_iff ok p split: option.splits intro!: c r)
qed

lemma resolve_step_ok: "disputes_ok m ds \<Longrightarrow> disputes_ok m (resolve_step ev ds)"
  by (auto simp: resolve_step_def Let_def in_strs_iff view_ok_def split: option.splits intro!: disputes_ok_map_entry)

lemma fold_keeps: "(\<And>x s. I s \<Longrightarrow> I (f x s)) \<Longrightarrow> I s \<Longrightarrow> I (fold f xs s)"
  by (induction xs arbitrary: s) auto

lemma collect_disputes_ok:
  assumes "collect_disputes m chain = Inr ds"
  shows "distinct (map dv_dispute_id ds) \<and> (\<forall>d \<in> set ds. view_ok m (dv_dispute_id d, d))"
proof -
  from assms obtain opened where o: "foldres (open_step m) (events_of chain) [] = Inr opened"
    and ds: "ds = sort_by dispute_lt (map snd (fold resolve_step (events_of chain) (fold stake_step (events_of chain) opened)))"
    by (auto simp: collect_disputes_def Let_def bnd_eq_Inr)
  have "disputes_ok m opened" using foldres_invariant [OF o, where I = "disputes_ok m"] open_step_ok by (auto simp: disputes_ok_def)
  then have ok: "disputes_ok m (fold resolve_step (events_of chain) (fold stake_step (events_of chain) opened))" (is "disputes_ok m ?all")
    by (intro fold_keeps [where I = "disputes_ok m"] resolve_step_ok stake_step_ok)
  then have ids: "map dv_dispute_id (map snd ?all) = map fst ?all" by (auto simp: disputes_ok_def view_ok_def)
  then have "distinct (map dv_dispute_id (map snd ?all))" using ok by (simp only: disputes_ok_def)
  then have "distinct (map dv_dispute_id ds)" unfolding ds by (auto simp: distinct_map intro: inj_on_imageI inj_on_imageI2)
  moreover have "\<forall>d \<in> set ds. view_ok m (dv_dispute_id d, d)" using ok by (auto simp: ds disputes_ok_def view_ok_def)
  ultimately show ?thesis by blast
qed

subsection \<open>Bounded reversal\<close>

definition reversals :: "dispute_view list \<Rightarrow> nat" where
  "reversals ds = length (filter (\<lambda>d. resolved_outcome d = Some ''reversed'') ds)"

lemma flip_flip [simp]: "flip (flip s) = s"
  by (simp add: flip_def)

lemma fold_flip:
  "fold (\<lambda>d current. if resolved_outcome d = Some ''reversed'' then flip current else current) ds s
     = (if even (reversals ds) then s else flip s)"
  by (induction ds arbitrary: s) (auto simp: reversals_def)

text \<open>Events that have nothing to do with the disputes of a market.\<close>

definition unrelated :: "string \<Rightarrow> pydict \<Rightarrow> bool" where
  "unrelated m ev \<longleftrightarrow> \<not> ev_is ''dispute_stake'' ev \<and> \<not> ev_is ''dispute_resolve'' ev
     \<and> (ev_is ''dispute_open'' ev \<longrightarrow> get (payload ev) ''market_id'' \<noteq> PStr m)"

lemma collect_disputes_unrelated:
  assumes "unrelated m ev" shows "collect_disputes m (c1 @ [PDict ev] @ c2) = collect_disputes m (c1 @ c2)"
proof -
  have "open_step m ev ds = Inr ds" "stake_step ev ds = ds" "resolve_step ev ds = ds" for ds
    using assms by (auto simp: unrelated_def open_step_def stake_step_def resolve_step_def)
  then show ?thesis by (simp add: collect_disputes_def foldres_append Let_def bnd_def split: sum.splits)
qed

text \<open>
  The effective outcome of a market is its original outcome flipped once per reversed dispute, so an
  even number of reversals restores it; an outcome other than yes and no is never changed; and the
  reversal is bounded: events that are not disputes of this market do not matter.
\<close>

theorem effective_outcome_bounded:
  assumes "collect_disputes m chain = Inr ds"
  shows "effective_outcome original m chain = Inr (if original \<notin> {''yes'', ''no''} \<or> even (reversals ds) then original else flip original)
    \<and> (market_was_reversed m chain = Inr (0 < reversals ds))
    \<and> (\<forall>c1 c2 ev. chain = c1 @ c2 \<longrightarrow> unrelated m ev \<longrightarrow>
         effective_outcome original m (c1 @ [PDict ev] @ c2) = effective_outcome original m chain)"
proof -
  have "effective_outcome original m chain = Inr (if original \<notin> {''yes'', ''no''} \<or> even (reversals ds) then original else flip original)"
    by (simp add: effective_outcome_def assms fold_flip)
  moreover have "market_was_reversed m chain = Inr (0 < reversals ds)"
    by (simp add: market_was_reversed_def assms reversals_def filter_empty_conv)
  moreover have "effective_outcome original m (c1 @ [PDict ev] @ c2) = effective_outcome original m (c1 @ c2)" if "unrelated m ev" for c1 c2 ev
    unfolding effective_outcome_def collect_disputes_unrelated [OF that] by (rule refl)
  ultimately show ?thesis by blast
qed

definition example_dispute :: chain where
  "example_dispute =
    [PDict [(''event_type'', PStr ''dispute_open''), (''node_id'', PStr ''a''), (''timestamp'', PFloat (Fin 1)),
            (''payload'', PDict [(''market_id'', PStr ''m''), (''challenger_stake'', PFloat (Fin 5)), (''dispute_id'', PStr ''d'')])],
     PDict [(''event_type'', PStr ''dispute_resolve''), (''node_id'', PStr ''a''), (''timestamp'', PFloat (Fin 2)),
            (''payload'', PDict [(''dispute_id'', PStr ''d''), (''outcome'', PStr ''reversed'')])]]"

theorem effective_outcome_bounded_witness: "effective_outcome ''yes'' ''m'' example_dispute = Inr ''no''"
proof -
  obtain d where d: "collect_disputes ''m'' example_dispute = Inr [d]" "resolved_outcome d = Some ''reversed''"
    by (simp add: collect_disputes_def example_dispute_def open_step_def stake_step_def resolve_step_def ev_is_def payload_def
        finite_float_def dispute_id_def referred_dispute_def py_or_def Let_def)
  then show ?thesis using effective_outcome_bounded [OF d(1), of "''yes''"] by (simp add: reversals_def flip_def)
qed

subsection \<open>Transfers\<close>

lemma node_key_PStr: "node_key v = Inr (PStr n) \<longleftrightarrow> v = PStr n"
  by (cases v) (auto simp: node_key_def)

definition stakes_by :: "string \<Rightarrow> string \<Rightarrow> dispute_stake list \<Rightarrow> dispute_stake list" where
  "stakes_by n rt ss = filter (\<lambda>s. ds_node_id s = PStr n \<and> ds_rep_type s = rt) ss"

lemma returned_sum:
  "foldres return_step ss d = Inr d' \<Longrightarrow>
     dict_get d' (PStr n, rt) (Fin 0) = foldl fadd (dict_get d (PStr n, rt) (Fin 0)) (map ds_amount (stakes_by n rt ss))"
proof (induction ss arbitrary: d)
  case (Cons s ss)
  then obtain d1 where d1: "return_step s d = Inr d1" and f1: "foldres return_step ss d1 = Inr d'" by (auto simp: bnd_eq_Inr)
  from d1 obtain k where k: "node_key (ds_node_id s) = Inr k" "d1 = credit (k, ds_rep_type s) (ds_amount s) d"
    by (auto simp: return_step_def bnd_eq_Inr)
  have f: "foldres return_step ss (credit (k, ds_rep_type s) (ds_amount s) d) = Inr d'" using f1 k(2) by simp
  have "k = PStr n \<longleftrightarrow> ds_node_id s = PStr n" using k(1) node_key_PStr [of "ds_node_id s" n] by simp
  then have g: "dict_get (credit (k, ds_rep_type s) (ds_amount s) d) (PStr n, rt) (Fin 0)
      = (if ds_node_id s = PStr n \<and> ds_rep_type s = rt then fadd (dict_get d (PStr n, rt) (Fin 0)) (ds_amount s)
         else dict_get d (PStr n, rt) (Fin 0))" unfolding get_credit by auto
  show ?case unfolding Cons.IH [OF f] g by (simp add: stakes_by_def)
qed (simp add: stakes_by_def)

lemma settle_rep_returns:
  assumes "settle_dispute_rep p winners losers rt' e = Inr e'"
  shows "dict_get (de_stake_returns e') (PStr n, rt) (Fin 0)
    = foldl fadd (dict_get (de_stake_returns e) (PStr n, rt) (Fin 0)) (map ds_amount (if rt = rt' then stakes_by n rt winners else []))"
proof -
  let ?w = "filter (\<lambda>s. ds_rep_type s = rt') winners"
  obtain returns where f: "foldres return_step ?w (de_stake_returns e) = Inr returns" and "de_stake_returns e' = returns"
    using assms by (auto simp: settle_dispute_rep_def Let_def bnd_eq_Inr split: if_splits)
  moreover have "stakes_by n rt ?w = (if rt = rt' then stakes_by n rt winners else [])"
    by (auto simp: stakes_by_def filter_empty_conv intro!: filter_cong)
  ultimately show ?thesis using returned_sum [OF f, of n rt] by simp
qed

text \<open>The stakes that a dispute resolved with an outcome returns: all of them, or those of the winning side.\<close>

definition returned_side :: "dispute_view \<Rightarrow> dispute_stake list" where
  "returned_side d = (if resolved_outcome d = Some ''tie'' then confirm_stakes d @ reverse_stakes d
     else if resolved_outcome d = Some ''upheld'' then confirm_stakes d else reverse_stakes d)"

text \<open>
  A resolved dispute returns to each node, per rep type, the sum of its stakes on the winning side,
  and all its stakes when it is a tie, and an unresolved one transfers nothing; and what it would
  resolve to is decided by the oracle stakes alone, symmetrically in the two sides.
\<close>

theorem dispute_settlement:
  "(dispute_settlement_effects cfg d = Inr e \<longrightarrow>
      (if is_resolved d
       then (\<forall>n. \<forall>rt \<in> {''oracle'', ''common''}. dict_get (de_stake_returns e) (PStr n, rt) (Fin 0)
               = fsum (map ds_amount (stakes_by n rt (returned_side d))))
       else de_stake_returns e = [] \<and> de_stake_winnings e = [] \<and> de_burned e = Fin 0))
   \<and> (compute_dispute_outcome d = ''reversed'' \<longleftrightarrow> flt (oracle_sum (confirm_stakes d)) (oracle_sum (reverse_stakes d)))
   \<and> (compute_dispute_outcome d = ''upheld'' \<longleftrightarrow>
        compute_dispute_outcome (d\<lparr>confirm_stakes := reverse_stakes d, reverse_stakes := confirm_stakes d\<rparr>) = ''reversed'')"
proof (intro conjI impI)
  assume e: "dispute_settlement_effects cfg d = Inr e"
  let ?none = "\<lparr>de_stake_returns = [], de_stake_winnings = [], de_burned = Fin 0\<rparr>"
  show "if is_resolved d then (\<forall>n. \<forall>rt \<in> {''oracle'', ''common''}. dict_get (de_stake_returns e) (PStr n, rt) (Fin 0)
               = fsum (map ds_amount (stakes_by n rt (returned_side d))))
        else de_stake_returns e = [] \<and> de_stake_winnings e = [] \<and> de_burned e = Fin 0"
  proof (cases "resolved_outcome d")
    case None
    then show ?thesis using e by (auto simp: is_resolved_def dispute_settlement_effects_def Let_def)
  next
    case (Some oc)
    show ?thesis
    proof (cases "oc = ''tie''")
      case True
      then obtain returns where "foldres return_step (confirm_stakes d @ reverse_stakes d) [] = Inr returns" "de_stake_returns e = returns"
        using e Some by (auto simp: dispute_settlement_effects_def Let_def bnd_eq_Inr)
      then show ?thesis using returned_sum Some True by (simp add: is_resolved_def returned_side_def fsum_def)
    next
      case False
      let ?w = "if oc = ''upheld'' then confirm_stakes d else reverse_stakes d"
      let ?l = "if oc = ''upheld'' then reverse_stakes d else confirm_stakes d"
      obtain p e1 where 1: "settle_dispute_rep p ?w ?l ''oracle'' ?none = Inr e1" and 2: "settle_dispute_rep p ?w ?l ''common'' e1 = Inr e"
        using e Some False by (auto simp: dispute_settlement_effects_def Let_def bnd_eq_Inr)
      have w: "returned_side d = ?w" using Some False by (simp add: returned_side_def)
      show ?thesis using settle_rep_returns [OF 1] settle_rep_returns [OF 2] Some
        by (auto simp: is_resolved_def w fsum_def)
    qed
  qed
next
  show "compute_dispute_outcome d = ''reversed'' \<longleftrightarrow> flt (oracle_sum (confirm_stakes d)) (oracle_sum (reverse_stakes d))"
    by (auto simp: compute_dispute_outcome_def Let_def dest: flt_asym)
  show "compute_dispute_outcome d = ''upheld'' \<longleftrightarrow>
        compute_dispute_outcome (d\<lparr>confirm_stakes := reverse_stakes d, reverse_stakes := confirm_stakes d\<rparr>) = ''reversed''"
    by (auto simp: compute_dispute_outcome_def Let_def dest: flt_asym)
qed

theorem dispute_settlement_witness:
  defines "d0 \<equiv> \<lparr>dv_dispute_id = ''d'', dv_market_id = ''m'', challenger_id = ''c'', challenger_stake = Fin 1, opened_at = Fin 1,
                  confirm_stakes = [\<lparr>ds_node_id = PStr ''n'', ds_amount = Fin 3, ds_rep_type = ''oracle''\<rparr>],
                  reverse_stakes = [], resolved_outcome = Some ''tie'', resolved_at = Some (Fin 2)\<rparr>"
  shows "\<exists>e. dispute_settlement_effects baseline_config d0 = Inr e \<and> dict_get (de_stake_returns e) (PStr ''n'', ''oracle'') (Fin 0) = Fin 3"
proof -
  obtain e where e: "dispute_settlement_effects baseline_config d0 = Inr e"
    by (simp add: dispute_settlement_effects_def d0_def Let_def return_step_def node_key_def)
  have s: "fsum (map ds_amount (stakes_by ''n'' ''oracle'' (returned_side d0))) = Fin 3"
    by (simp add: stakes_by_def returned_side_def d0_def fsum_def)
  have "is_resolved d0" by (simp add: is_resolved_def d0_def)
  then show ?thesis using dispute_settlement [of baseline_config d0 e] e s by auto
qed

end
