(* ===== verification/Argon2id.thy ===== *)
theory Argon2id
  imports Config_Reads "HOL-Library.Word" "HOL-Library.Sublist"
begin

text \<open>
  \<open>services/infonet/bootstrap/argon2id.py\<close>: the canonical preimage of a bootstrap vote's proof of work
  and the check of its difficulty on the raw output bytes. Argon2id itself is computed elsewhere.
\<close>

unbundle bit_operations_syntax

subsection \<open>The code\<close>

text \<open>\<open>str.encode("utf-8")\<close> on code points below 256\<close>

definition utf8_char :: "char \<Rightarrow> 8 word list" where
  "utf8_char c = (let n = of_char c :: nat in
     if n < 128 then [of_nat n] else [of_nat (192 + n div 64), of_nat (128 + n mod 64)])"

definition utf8 :: "string \<Rightarrow> 8 word list" where
  "utf8 s = concat (map utf8_char s)"

text \<open>\<open>isinstance(v, str) and v\<close>\<close>

fun nonempty :: "pyval \<Rightarrow> string res" where
  "nonempty (PStr s) = (if s = [] then Inl ValueError else Inr s)"
| "nonempty _ = Inl ValueError"

fun nonneg_int :: "pyval \<Rightarrow> int res" where
  "nonneg_int (PInt n) = (if n < 0 then Inl ValueError else Inr n)"
| "nonneg_int _ = Inl ValueError"

definition pow_parts :: "string \<Rightarrow> string \<Rightarrow> string \<Rightarrow> string \<Rightarrow> string \<Rightarrow> int \<Rightarrow> string list" where
  "pow_parts pv node m side h nonce = [''bootstrap_resolution_vote'', pv, node, m, side, h, int_str nonce]"

definition canonical_pow_preimage :: "pyval \<Rightarrow> pyval \<Rightarrow> pyval \<Rightarrow> pyval \<Rightarrow> pyval \<Rightarrow> pyval \<Rightarrow> 8 word list res" where
  "canonical_pow_preimage node_id m side snapshot_event_hash pow_nonce protocol_version =
     bnd (nonempty node_id) (\<lambda>node.
     bnd (nonempty m) (\<lambda>market.
     if \<not> in_strs side [''yes'', ''no''] then Inl ValueError
     else bnd (nonempty snapshot_event_hash) (\<lambda>h.
     bnd (nonneg_int pow_nonce) (\<lambda>nonce.
     bnd (nonempty (if protocol_version \<noteq> PNone then protocol_version else get immutable_principles ''protocol_version'')) (\<lambda>pv.
       Inr (utf8 (join ''|'' (pow_parts pv node market (py_str side) h nonce))))))))"

definition has_leading_zero_bits :: "8 word list \<Rightarrow> int \<Rightarrow> bool res" where
  "has_leading_zero_bits raw_output difficulty =
     (if difficulty < 0 then Inl ValueError
      else if difficulty = 0 then Inr True
      else let full_bytes = nat (difficulty div 8); remaining_bits = nat (difficulty mod 8) in
        if length raw_output < full_bytes + (if remaining_bits \<noteq> 0 then 1 else 0) then Inr False
        else if \<exists>b \<in> set (take full_bytes raw_output). b \<noteq> 0 then Inr False
        else if remaining_bits \<noteq> 0 \<and> (raw_output ! full_bytes) AND (push_bit (8 - remaining_bits) 0xFF) \<noteq> 0 then Inr False
        else Inr True)"

definition verify_pow_structure :: "pydict \<Rightarrow> 8 word list \<Rightarrow> int option \<Rightarrow> int option \<Rightarrow> bool res" where
  "verify_pow_structure cfg raw_output difficulty expected_output_len =
     bnd (case expected_output_len of Some n \<Rightarrow> Inr n | None \<Rightarrow> cfg_int cfg ''bootstrap_pow_argon2id_output_len'') (\<lambda>expected.
       if int (length raw_output) \<noteq> expected then Inr False
       else bnd (case difficulty of Some d \<Rightarrow> Inr d | None \<Rightarrow> cfg_int cfg ''bootstrap_pow_difficulty'') (\<lambda>diff.
         has_leading_zero_bits raw_output diff))"

subsection \<open>The difficulty\<close>

text \<open>Bit \<open>i\<close> of a byte string, counted from the most significant bit of the first byte.\<close>

definition msb_bit :: "8 word list \<Rightarrow> nat \<Rightarrow> bool" where
  "msb_bit raw i = bit (raw ! (i div 8)) (7 - i mod 8)"

lemma byte_zero_iff: "(b :: 8 word) = 0 \<longleftrightarrow> (\<forall>j < 8. \<not> bit b (7 - j))"
proof
  assume z: "\<forall>j < 8. \<not> bit b (7 - j)"
  have "\<not> bit b k" if "k < 8" for k using z [rule_format, of "7 - k"] that by simp
  then show "b = 0" by (intro bit_word_eqI) auto
qed simp

lemma byte_mask_iff:
  assumes "r \<le> 8" shows "(b :: 8 word) AND push_bit (8 - r) 0xFF = 0 \<longleftrightarrow> (\<forall>j < r. \<not> bit b (7 - j))"
proof -
  have m: "bit (push_bit (8 - r) 0xFF :: 8 word) k \<longleftrightarrow> 8 - r \<le> k \<and> k < 8" if "k < 8" for k
  proof -
    have "(0xFF :: 8 word) = mask 8" by (simp add: mask_eq_exp_minus_1)
    then show ?thesis using that by (simp only: bit_push_bit_iff bit_mask_iff) auto
  qed
  have "b AND push_bit (8 - r) 0xFF = 0 \<longleftrightarrow> (\<forall>k < 8. \<not> (bit b k \<and> 8 - r \<le> k))"
    using m by (auto simp: bit_eq_iff bit_and_iff)
  also have "\<dots> \<longleftrightarrow> (\<forall>j < r. \<not> bit b (7 - j))"
  proof
    assume a: "\<forall>j < r. \<not> bit b (7 - j)"
    have "\<not> (bit b k \<and> 8 - r \<le> k)" if "k < 8" for k
    proof (cases "8 - r \<le> k")
      case True
      then have "7 - k < r" "7 - (7 - k) = k" using that assms by linarith+
      then show ?thesis using a by metis
    qed simp
    then show "\<forall>k < 8. \<not> (bit b k \<and> 8 - r \<le> k)" by blast
  next
    assume a: "\<forall>k < 8. \<not> (bit b k \<and> 8 - r \<le> k)"
    have "\<not> bit b (7 - j)" if "j < r" for j
    proof -
      have "7 - j < 8" "8 - r \<le> 7 - j" using that assms by linarith+
      then show ?thesis using a by blast
    qed
    then show "\<forall>j < r. \<not> bit b (7 - j)" by blast
  qed
  finally show ?thesis .
qed

lemma leading_bits_split:
  assumes "length raw \<ge> q + (if r = 0 then 0 else 1)" "r < 8"
  shows "(\<forall>i < 8 * q + r. \<not> msb_bit raw i) \<longleftrightarrow>
    (\<forall>b \<in> set (take q raw). b = 0) \<and> (\<forall>j < r. \<not> bit (raw ! q) (7 - j))"
proof -
  have idx: "(\<forall>i < 8 * q + r. P i) \<longleftrightarrow> (\<forall>k < q. \<forall>j < 8. P (8 * k + j)) \<and> (\<forall>j < r. P (8 * q + j))" (is "?l = ?r")
    for P :: "nat \<Rightarrow> bool"
  proof
    assume r: ?r
    show ?l
    proof (intro allI impI)
      fix i assume i: "i < 8 * q + r"
      have d: "i = 8 * (i div 8) + i mod 8" "i mod 8 < 8" by simp_all
      show "P i"
      proof (cases "i div 8 < q")
        case True
        then show ?thesis using r d by metis
      next
        case False
        then have "i div 8 = q" "i mod 8 < r" using i \<open>r < 8\<close> d by linarith+
        then show ?thesis using r d(1) by metis
      qed
    qed
  qed auto
  have "q \<le> length raw" using assms by (simp split: if_splits)
  then have "(\<forall>b \<in> set (take q raw). b = 0) \<longleftrightarrow> (\<forall>k < q. raw ! k = 0)"
    by (simp add: all_set_conv_all_nth)
  moreover have "j div 8 = 0 \<and> j mod 8 = j" if "j < r" for j using that assms(2) by simp
  ultimately show ?thesis by (auto simp: idx msb_bit_def byte_zero_iff)
qed

lemma leading_zero_bits_iff:
  assumes "0 \<le> d"
  shows "has_leading_zero_bits raw d = Inr (d \<le> 8 * int (length raw) \<and> (\<forall>i < nat d. \<not> msb_bit raw i))"
proof -
  define q r where "q = nat (d div 8)" and "r = nat (d mod 8)"
  have d3: "d = int (8 * q + r)" using assms by (simp add: q_def r_def pos_imp_zdiv_nonneg_iff)
  have d: "nat d = 8 * q + r" by (simp only: d3 nat_int)
  have r8: "r < 8" using pos_mod_bound [of 8 d] by (simp add: r_def)
  have len: "d \<le> 8 * int (length raw) \<longleftrightarrow> q + (if r = 0 then 0 else 1) \<le> length raw"
    using r8 by (auto simp: d3)
  have z: "r \<noteq> 0 \<and> raw ! q AND push_bit (8 - r) 0xFF \<noteq> 0 \<longleftrightarrow> \<not> (\<forall>j < r. \<not> bit (raw ! q) (7 - j))"
    using byte_mask_iff [of r "raw ! q"] r8 by auto
  show ?thesis
  proof (cases "d = 0")
    case False
    then show ?thesis
      unfolding has_leading_zero_bits_def Let_def q_def [symmetric] r_def [symmetric] d len
      using assms leading_bits_split [of q r raw] r8 z by auto
  qed (simp add: has_leading_zero_bits_def)
qed

lemma pow_difficulty_nonneg: "0 \<le> d \<Longrightarrow> \<exists>b. has_leading_zero_bits raw d = Inr b"
  by (simp add: leading_zero_bits_iff)

text \<open>
  C11: The difficulty check is the bitwise statement it stands for: a negative difficulty raises, and
  otherwise the output passes exactly when it has at least that many bits and the first of them,
  counted from the most significant bit of the first byte, are all zero.
\<close>

theorem difficulty_is_leading_zeros:
  "has_leading_zero_bits raw d =
     (if d < 0 then Inl ValueError else Inr (d \<le> 8 * int (length raw) \<and> (\<forall>i < nat d. \<not> msb_bit raw i)))"
  by (simp add: leading_zero_bits_iff) (simp add: has_leading_zero_bits_def)

theorem difficulty_is_leading_zeros_witness:
  "has_leading_zero_bits [0, 0x0F, 0xFF] 12 = Inr True \<and> has_leading_zero_bits [0, 0x0F, 0xFF] 13 = Inr False"
proof -
  have "\<not> msb_bit [0, 0x0F, 0xFF] i" if "i < 12" for i
  proof -
    have "(15 :: 8 word) = mask 4" by (simp add: mask_eq_exp_minus_1)
    then have low: "\<not> bit (15 :: 8 word) k" if "4 \<le> k" for k using that by (simp only: bit_mask_iff) auto
    show ?thesis
    proof (cases "i < 8")
      case False
      then have "i div 8 = 1" "4 \<le> 7 - i mod 8" using that by presburger+
      then show ?thesis using low by (simp add: msb_bit_def)
    qed (simp add: msb_bit_def)
  qed
  moreover have "\<exists>i < 13. msb_bit [0, 0x0F, 0xFF] i" by (rule exI [of _ 12]) (simp add: msb_bit_def)
  ultimately show ?thesis
    using difficulty_is_leading_zeros [of "[0, 0x0F, 0xFF]" 12] difficulty_is_leading_zeros [of "[0, 0x0F, 0xFF]" 13] by auto
qed

subsection \<open>Reading a preimage back\<close>

fun utf8_decode :: "8 word list \<Rightarrow> string" where
  "utf8_decode (b # bs) = (if unat b < 128 then char_of (unat b) # utf8_decode bs
     else case bs of [] \<Rightarrow> [] | c # cs \<Rightarrow> char_of (64 * (unat b - 192) + (unat c - 128)) # utf8_decode cs)"
| "utf8_decode [] = []"

fun split_bar :: "string \<Rightarrow> string list" where
  "split_bar [] = [[]]"
| "split_bar (c # cs) = (if c = CHR ''|'' then [] # split_bar cs
     else case split_bar cs of [] \<Rightarrow> [[c]] | f # fs \<Rightarrow> (c # f) # fs)"

text \<open>The protocol version, node, market, side, snapshot hash and nonce of a preimage.\<close>

definition parse_preimage :: "8 word list \<Rightarrow> string \<times> string \<times> string \<times> string \<times> string \<times> int" where
  "parse_preimage bytes = (let f = split_bar (utf8_decode bytes); n = length f in
     (f ! 1, f ! 2, join ''|'' (take (n - 6) (drop 3 f)), f ! (n - 3), f ! (n - 2), digits_val (f ! (n - 1))))"

lemma utf8_decode_char: "utf8_decode (utf8_char c @ bs) = c # utf8_decode bs"
proof -
  have n: "(of_char c :: nat) < 256" by (metis of_char_mod_256 mod_less_divisor zero_less_numeral)
  have u: "unat (word_of_nat m :: 8 word) = m" if "m < 256" for m
    using that by (simp add: unat_of_nat)
  show ?thesis
  proof (cases "(of_char c :: nat) < 128")
    case False
    let ?n = "of_char c :: nat"
    have d: "?n div 64 < 4" "?n mod 64 < 64" using n by linarith+
    have r: "64 * (192 + ?n div 64 - 192) + (128 + ?n mod 64 - 128) = ?n" by simp
    have "unat (word_of_nat (192 + ?n div 64) :: 8 word) = 192 + ?n div 64" "unat (word_of_nat (128 + ?n mod 64) :: 8 word) = 128 + ?n mod 64"
      using d by (simp_all only: u)
    with False r show ?thesis by (simp only: utf8_char_def Let_def if_False append_Cons append_Nil utf8_decode.simps list.case) simp
  qed (use n in \<open>simp add: utf8_char_def u\<close>)
qed

lemma utf8_decode_utf8 [simp]: "utf8_decode (utf8 s) = s"
  by (induction s) (simp_all add: utf8_def utf8_decode_char)

lemma split_bar_not_Nil [simp]: "split_bar s \<noteq> []"
  by (cases s) (auto split: list.split)

lemma split_bar_plain: "CHR ''|'' \<notin> set s \<Longrightarrow> split_bar s = [s]"
  by (induction s) auto

lemma split_bar_append: "split_bar (s @ CHR ''|'' # t) = split_bar s @ split_bar t"
  by (induction s) (auto split: list.split)

lemma join_Cons: "fs \<noteq> [] \<Longrightarrow> join sep (f # fs) = f @ sep @ join sep fs"
  by (cases fs) simp_all

lemma join_split_bar: "join ''|'' (split_bar s) = s"
proof (induction s)
  case (Cons c cs)
  obtain f fs where f: "split_bar cs = f # fs" by (cases "split_bar cs") auto
  then have "join ''|'' ((c # f) # fs) = c # join ''|'' (f # fs)" by (cases fs) simp_all
  then show ?case using Cons f by (simp add: join_Cons)
qed simp

lemma split_bar_join: "fs \<noteq> [] \<Longrightarrow> split_bar (join ''|'' fs) = concat (map split_bar fs)"
  by (induction fs rule: induct_list012) (auto simp: split_bar_append)

lemma digit_char [simp]: "0 \<le> n \<Longrightarrow> n < 10 \<Longrightarrow> (of_char (char_of (48 + n) :: char) :: int) = 48 + n"
  by (simp add: of_char_of)

lemma digits_nat_digits: "0 \<le> n \<Longrightarrow> digits_val (nat_digits n) = n \<and> CHR ''|'' \<notin> set (nat_digits n)"
proof (induction n rule: nat_digits.induct)
  case (1 n)
  have bar: "CHR ''|'' \<noteq> char_of (48 + k)" if "0 \<le> k" "k < 10" for k :: int
  proof
    assume "CHR ''|'' = char_of (48 + k)"
    then have "(of_char CHR ''|'' :: int) = of_char (char_of (48 + k) :: char)" by simp
    then show False using that by simp
  qed
  have dv: "digit_val (char_of (48 + k)) = k" if "0 \<le> k" "k < 10" for k :: int
  proof -
    have "int (of_char (char_of (48 + k) :: char)) = 48 + k" using digit_char [OF that] by (metis of_nat_of_char)
    then show ?thesis by (simp add: digit_val_def)
  qed
  show ?case
  proof (cases "n < 10")
    case True
    then show ?thesis using dv [of n] bar [of n] \<open>0 \<le> n\<close> by (subst (1 2) nat_digits.simps) (simp add: digits_val_def)
  next
    case False
    then have ih: "digits_val (nat_digits (n div 10)) = n div 10" "CHR ''|'' \<notin> set (nat_digits (n div 10))" using 1 by auto
    have m: "0 \<le> n mod 10" "n mod 10 < 10" by simp_all
    show ?thesis using False ih dv [OF m] bar [OF m] by (subst (1 2) nat_digits.simps) (simp add: digits_val_def)
  qed
qed

text \<open>
  A preimage determines the vote it stands for: when no separator occurs in the protocol version,
  the node id and the snapshot hash, all six components are read back from the bytes, whatever the
  market id is.
\<close>

theorem preimage_roundtrip:
  assumes "canonical_pow_preimage (PStr node) (PStr m) (PStr side) (PStr h) (PInt nonce) (PStr pv) = Inr bytes"
    and "CHR ''|'' \<notin> set pv" "CHR ''|'' \<notin> set node" "CHR ''|'' \<notin> set h"
  shows "parse_preimage bytes = (pv, node, m, side, h, nonce)"
proof -
  from assms(1) have b: "bytes = utf8 (join ''|'' (pow_parts pv node m side h nonce))" and side: "side \<in> {''yes'', ''no''}"
    and nonce: "0 \<le> nonce" by (auto simp: canonical_pow_preimage_def in_strs_iff split: if_splits)
  have s: "CHR ''|'' \<notin> set side" "CHR ''|'' \<notin> set ''bootstrap_resolution_vote''" using side by auto
  have i: "CHR ''|'' \<notin> set (int_str nonce)" "digits_val (int_str nonce) = nonce"
    using digits_nat_digits [OF nonce] nonce by (simp_all add: int_str_def)
  have f: "split_bar (join ''|'' (pow_parts pv node m side h nonce))
      = [''bootstrap_resolution_vote'', pv, node] @ split_bar m @ [side, h, int_str nonce]"
    by (simp only: split_bar_join pow_parts_def list.distinct not_False_eq_True list.map concat.simps
        split_bar_plain [OF assms(2)] split_bar_plain [OF assms(3)] split_bar_plain [OF assms(4)]
        split_bar_plain [OF s(1)] split_bar_plain [OF s(2)] split_bar_plain [OF i(1)] append_Cons append_Nil append_Nil2)
  show ?thesis by (simp add: parse_preimage_def b f i(2) join_split_bar nth_append nth_Cons')
qed

theorem preimage_roundtrip_witness:
  "\<exists>bytes. canonical_pow_preimage (PStr ''a'') (PStr ''m|1'') (PStr ''yes'') (PStr ''h'') (PInt 7) (PStr ''v1'') = Inr bytes
    \<and> parse_preimage bytes = (''v1'', ''a'', ''m|1'', ''yes'', ''h'', 7)"
proof -
  obtain bytes where b: "canonical_pow_preimage (PStr ''a'') (PStr ''m|1'') (PStr ''yes'') (PStr ''h'') (PInt 7) (PStr ''v1'') = Inr bytes"
    by (simp add: canonical_pow_preimage_def)
  then show ?thesis using preimage_roundtrip [OF b] by simp
qed

text \<open>Node ids are arbitrary nonempty strings here, and one that contains the separator makes two votes collide.\<close>

lemma preimage_ambiguous:
  "canonical_pow_preimage (PStr ''a|b'') (PStr ''c'') side h nonce pv = canonical_pow_preimage (PStr ''a'') (PStr ''b|c'') side h nonce pv"
  by (simp add: canonical_pow_preimage_def pow_parts_def)

end
