(* ===== verification/Filter_Funnel.thy ===== *)
theory Filter_Funnel
  imports PyValue
begin

text \<open>
  \<open>services/infonet/bootstrap/filter_funnel.py\<close>: the validators of a bootstrap vote, run from the
  cheapest to the most expensive. The checks of the stages are arguments; a check may raise.
\<close>

subsection \<open>The code\<close>

record funnel_stage =
  fs_name :: string
  fs_check :: "pydict \<Rightarrow> (bool \<times> string) res"
  cost_tier :: int

text \<open>\<open>seen\<close> is \<open>seen_tiers\<close>; the second component of the result lists the stages whose check was called.\<close>

fun run_stages :: "pydict \<Rightarrow> funnel_stage list \<Rightarrow> int list \<Rightarrow> (bool \<times> string) res \<times> string list" where
  "run_stages event [] seen = (Inr (True, ''ok''), [])"
| "run_stages event (st # sts) seen =
     (if seen \<noteq> [] \<and> cost_tier st < Max (set seen) then (Inl ValueError, [])
      else case fs_check st event of
          Inl e \<Rightarrow> (Inl e, [fs_name st])
        | Inr (ok, reason) \<Rightarrow>
            if \<not> ok then (Inr (False, fs_name st @ '': '' @ reason), [fs_name st])
            else (let (r, called) = run_stages event sts (seen @ [cost_tier st]) in (r, fs_name st # called)))"

definition run_filter_funnel :: "pyval \<Rightarrow> funnel_stage list \<Rightarrow> (bool \<times> string) res \<times> string list" where
  "run_filter_funnel event stages = (case event of
       PDict d \<Rightarrow> run_stages d stages []
     | _ \<Rightarrow> (Inr (False, ''schema: event must be an object''), []))"

subsection \<open>The funnel\<close>

definition passes :: "pydict \<Rightarrow> funnel_stage \<Rightarrow> bool" where
  "passes ev st \<longleftrightarrow> (\<exists>reason. fs_check st ev = Inr (True, reason))"

definition tiers_ok :: "int list \<Rightarrow> funnel_stage list \<Rightarrow> bool" where
  "tiers_ok seen sts \<longleftrightarrow> sorted (map cost_tier sts) \<and> (\<forall>t \<in> set seen. \<forall>st \<in> set sts. t \<le> cost_tier st)"

lemma tier_check: "\<not> (seen \<noteq> [] \<and> cost_tier st < Max (set seen)) \<longleftrightarrow> (\<forall>t \<in> set seen. t \<le> cost_tier st)"
  by (cases "seen = []") (simp_all add: not_less Max_le_iff)

lemma run_stages_accepts:
  "fst (run_stages ev sts seen) = Inr (True, r) \<longleftrightarrow> r = ''ok'' \<and> (\<forall>st \<in> set sts. passes ev st) \<and> tiers_ok seen sts"
proof (induction sts arbitrary: seen)
  case (Cons st sts)
  show ?case
  proof (cases "\<forall>t \<in> set seen. t \<le> cost_tier st")
    case False
    then have "seen \<noteq> [] \<and> cost_tier st < Max (set seen)" using tier_check by blast
    with False show ?thesis by (auto simp: tiers_ok_def)
  next
    case True
    then have n: "\<not> (seen \<noteq> [] \<and> cost_tier st < Max (set seen))" using tier_check by blast
    have t: "tiers_ok seen (st # sts) \<longleftrightarrow> tiers_ok (seen @ [cost_tier st]) sts" using True by (fastforce simp: tiers_ok_def)
    obtain called where c: "called = snd (run_stages ev sts (seen @ [cost_tier st]))" by blast
    show ?thesis unfolding t run_stages.simps if_not_P [OF n] using Cons.IH [of "seen @ [cost_tier st]"]
      by (auto simp: passes_def split: sum.splits prod.splits)
  qed
qed (auto simp: tiers_ok_def)

lemma run_stages_calls:
  "\<exists>k \<le> length sts. snd (run_stages ev sts seen) = map fs_name (take k sts) \<and> (\<forall>i. Suc i < k \<longrightarrow> passes ev (sts ! i))
     \<and> (k < length sts \<and> 0 < k \<and> passes ev (sts ! (k - 1)) \<longrightarrow> fst (run_stages ev sts seen) = Inl ValueError)"
proof (induction sts arbitrary: seen)
  case (Cons st sts)
  show ?case
  proof (cases "\<not> (seen \<noteq> [] \<and> cost_tier st < Max (set seen)) \<and> passes ev st")
    case True
    from Cons.IH [of "seen @ [cost_tier st]"] obtain k where k: "k \<le> length sts"
      "snd (run_stages ev sts (seen @ [cost_tier st])) = map fs_name (take k sts)" "\<forall>i. Suc i < k \<longrightarrow> passes ev (sts ! i)"
      "k < length sts \<and> 0 < k \<and> passes ev (sts ! (k - 1)) \<longrightarrow> fst (run_stages ev sts (seen @ [cost_tier st])) = Inl ValueError" by blast
    from True obtain reason where ch: "fs_check st ev = Inr (True, reason)" by (auto simp: passes_def)
    have r: "run_stages ev (st # sts) seen = (fst (run_stages ev sts (seen @ [cost_tier st])), fs_name st # snd (run_stages ev sts (seen @ [cost_tier st])))"
      using True ch by (auto simp: case_prod_beta Let_def)
    have z: "fst (run_stages ev sts (seen @ [cost_tier st])) = Inl ValueError" if z: "k = 0" "sts \<noteq> []"
    proof -
      obtain s ss where "sts = s # ss" using z(2) by (cases sts) auto
      then show ?thesis using k(2) z by (auto simp: case_prod_beta Let_def split: if_splits sum.splits prod.splits)
    qed
    show ?thesis unfolding r using k True z
      by (intro exI [of _ "Suc k"]) (auto simp: nth_Cons' split: if_splits)
  next
    case False
    then show ?thesis
    proof (cases "seen \<noteq> [] \<and> cost_tier st < Max (set seen)")
      case True
      then show ?thesis by (intro exI [of _ 0]) simp
    next
      case order: False
      with False have "\<not> passes ev st" by blast
      then show ?thesis using order by (intro exI [of _ 1]) (auto simp: passes_def split: sum.splits prod.splits)
    qed
  qed
qed simp

text \<open>
  An event is accepted exactly when it is an object, every stage accepts it and the tiers never
  decrease; and the checks that were called are a prefix of the stages, of which all but the last one
  accepted, so a stage never runs once a cheaper one before it has refused.
\<close>

theorem funnel_short_circuits:
  "(fst (run_filter_funnel event stages) = Inr (True, r) \<longleftrightarrow>
      r = ''ok'' \<and> (\<exists>d. event = PDict d \<and> (\<forall>st \<in> set stages. passes d st)) \<and> sorted (map cost_tier stages))
   \<and> (\<exists>k \<le> length stages. snd (run_filter_funnel event stages) = map fs_name (take k stages)
        \<and> (\<forall>d i. event = PDict d \<longrightarrow> Suc i < k \<longrightarrow> passes d (stages ! i)))"
proof (cases event)
  case (PDict d)
  then show ?thesis using run_stages_accepts [of d stages "[]" r] run_stages_calls [of stages d "[]"]
    by (auto simp: run_filter_funnel_def tiers_ok_def)
qed (auto simp: run_filter_funnel_def intro: exI [of _ 0])

theorem funnel_short_circuits_witness:
  defines "stages \<equiv> [\<lparr>fs_name = ''schema'', fs_check = (\<lambda>d. Inr (False, ''bad'')), cost_tier = 1\<rparr>,
                     \<lparr>fs_name = ''pow'', fs_check = (\<lambda>d. Inl ValueError), cost_tier = 6\<rparr>]"
  shows "fst (run_filter_funnel (PDict []) stages) = Inr (False, ''schema: bad'')
    \<and> fst (run_filter_funnel (PDict []) stages) \<noteq> Inr (True, ''ok'')"
  using funnel_short_circuits [of "PDict []" stages "''ok''"]
  by (auto simp: run_filter_funnel_def stages_def passes_def)

end
