(* ===== verification/Anti_Gaming.thy ===== *)
theory Anti_Gaming
  imports Eligibility
begin

text \<open>
  \<open>services/infonet/reputation/anti_gaming/\<close>: the vote correlation score, the clustering coefficient,
  burst and farming detection, and the progressive penalty. Every multiplier is a float computed from
  the chain. \<open>math.log2\<close> and the power of floats are parameters.
\<close>

record libm =
  log2 :: "pyfloat \<Rightarrow> pyfloat"
  pow :: "pyfloat \<Rightarrow> pyfloat \<Rightarrow> pyfloat"

subsection \<open>Upreps\<close>

definition decay_window_seconds :: "pydict \<Rightarrow> pyfloat option \<Rightarrow> pyfloat res" where
  "decay_window_seconds cfg decay_window_days =
     bnd (case decay_window_days of Some d \<Rightarrow> Inr d | None \<Rightarrow> cfg_float cfg ''vote_decay_days'') (\<lambda>d.
       Inr (fmul d seconds_per_day))"

definition window_step :: "pyfloat \<Rightarrow> pyfloat \<Rightarrow> pydict \<Rightarrow> pydict list \<Rightarrow> pydict list res" where
  "window_step cutoff now ev out =
     (if \<not> ev_is ''uprep'' ev then Inr out
      else bnd (float_or_zero (get ev ''timestamp'')) (\<lambda>t. case t of
          None \<Rightarrow> Inr out
        | Some ts \<Rightarrow> Inr (if fle cutoff ts \<and> fle ts now then out @ [ev] else out)))"

definition upreps_within_window :: "pydict list \<Rightarrow> pyfloat \<Rightarrow> pyfloat \<Rightarrow> pydict list res" where
  "upreps_within_window events now window_s = foldres (window_step (fsub now window_s) now) events []"

text \<open>\<open>max(float(ev.get("timestamp") or 0.0) for ev in events)\<close> of a nonempty list\<close>

definition latest_timestamp :: "pydict list \<Rightarrow> pyfloat res" where
  "latest_timestamp events = bnd (mapres (\<lambda>ev. py_float (py_or (get ev ''timestamp'') (PFloat (Fin 0)))) events) (\<lambda>ts.
     case ts of [] \<Rightarrow> Inl ValueError | t # ts \<Rightarrow> Inr (foldl fmax t ts))"

definition now_or_latest :: "pyfloat option \<Rightarrow> pydict list \<Rightarrow> pyfloat res" where
  "now_or_latest now events = (case now of Some t \<Rightarrow> Inr t | None \<Rightarrow> latest_timestamp events)"

text \<open>Author and target of an uprep between two different nodes\<close>

definition uprep_link :: "pydict \<Rightarrow> (string \<times> string) option" where
  "uprep_link ev = (case (get ev ''node_id'', get (payload ev) ''target_node_id'') of
       (PStr a, PStr t) \<Rightarrow> if a = t then None else Some (a, t)
     | _ \<Rightarrow> None)"

subsection \<open>Vote correlation score\<close>

definition vcs_step :: "string \<Rightarrow> string \<Rightarrow> pydict \<Rightarrow> string list \<times> string list \<Rightarrow> string list \<times> string list" where
  "vcs_step upreper_id target_id ev = (\<lambda>(a_targets, b_fans). case uprep_link ev of
       None \<Rightarrow> (a_targets, b_fans)
     | Some (author, target) \<Rightarrow>
         (if author = upreper_id then set_add target a_targets else a_targets,
          if target = target_id \<and> author \<noteq> upreper_id then set_add author b_fans else b_fans))"

definition compute_vcs :: "pydict \<Rightarrow> string \<Rightarrow> string \<Rightarrow> chain \<Rightarrow> pyfloat option \<Rightarrow> pyfloat option \<Rightarrow> pyfloat res" where
  "compute_vcs cfg upreper_id target_id chain now decay_window_days =
     (if upreper_id = [] \<or> target_id = [] then cfg_float cfg ''vcs_min_weight''
      else if upreper_id = target_id then Inr (Fin 1)
      else if events_of chain = [] then Inr (Fin 1)
      else bnd (now_or_latest now (events_of chain)) (\<lambda>t.
           bnd (decay_window_seconds cfg decay_window_days) (\<lambda>w.
           bnd (upreps_within_window (events_of chain) t w) (\<lambda>ups.
           let (a_targets, b_fans) = fold (vcs_step upreper_id target_id) ups ([], []) in
           bnd (cfg_float cfg ''vcs_min_weight'') (\<lambda>floor.
             if b_fans = [] then Inr (Fin 1)
             else bnd (int_truediv (int (length (filter (\<lambda>x. x \<in> set b_fans) a_targets))) (int (length b_fans))) (\<lambda>overlap.
               Inr (fmax floor (fsub (Fin 1) overlap))))))))"

subsection \<open>Clustering\<close>

text \<open>The pairs \<open>(i, j)\<close>, \<open>i < j\<close>, of a list\<close>

fun pairs :: "'a list \<Rightarrow> ('a \<times> 'a) list" where
  "pairs [] = []" | "pairs (x # xs) = map (\<lambda>y. (x, y)) xs @ pairs xs"

definition links_of :: "pydict list \<Rightarrow> (string \<times> string) list" where
  "links_of ups = fold set_add (List.map_filter uprep_link ups) []"

definition voters_of :: "string \<Rightarrow> pydict list \<Rightarrow> string list" where
  "voters_of target_id ups = fold set_add (map fst (filter (\<lambda>(a, t). t = target_id) (List.map_filter uprep_link ups))) []"

definition edge_count :: "(string \<times> string) list \<Rightarrow> string list \<Rightarrow> nat" where
  "edge_count links voters = length (filter (\<lambda>(v1, v2). (v1, v2) \<in> set links \<or> (v2, v1) \<in> set links) (pairs (sort_by str_lt voters)))"

definition compute_clustering_coefficient :: "pydict \<Rightarrow> string \<Rightarrow> chain \<Rightarrow> pyfloat option \<Rightarrow> pyfloat option \<Rightarrow> pyfloat res" where
  "compute_clustering_coefficient cfg target_id chain now decay_window_days =
     (if target_id = [] then Inr (Fin 0)
      else if events_of chain = [] then Inr (Fin 0)
      else bnd (now_or_latest now (events_of chain)) (\<lambda>t.
           bnd (decay_window_seconds cfg decay_window_days) (\<lambda>w.
           bnd (upreps_within_window (events_of chain) t w) (\<lambda>ups.
           let n = length (voters_of target_id ups) in
           if n < 2 then Inr (Fin 0)
           else bnd (int_truediv (int n * (int n - 1)) 2) (\<lambda>possible.
                bnd (float_of_int (int (edge_count (links_of ups) (voters_of target_id ups)))) (\<lambda>edges. fdiv edges possible))))))"

definition clustering_penalty :: "pydict \<Rightarrow> pyfloat \<Rightarrow> pyfloat res" where
  "clustering_penalty cfg coefficient = bnd (cfg_float cfg ''clustering_min_weight'') (\<lambda>floor.
     Inr (fmax floor (fsub (Fin 1) coefficient)))"

subsection \<open>Bursts\<close>

fun burst_scan :: "string \<Rightarrow> pyfloat \<Rightarrow> pyfloat \<Rightarrow> int \<Rightarrow> pydict list \<Rightarrow> int \<Rightarrow> bool res" where
  "burst_scan target_id lo hi threshold [] cnt = Inr False"
| "burst_scan target_id lo hi threshold (ev # evs) cnt =
     (if \<not> ev_is ''uprep'' ev \<or> get (payload ev) ''target_node_id'' \<noteq> PStr target_id
      then burst_scan target_id lo hi threshold evs cnt
      else bnd (float_or_zero (get ev ''timestamp'')) (\<lambda>t. case t of
          None \<Rightarrow> burst_scan target_id lo hi threshold evs cnt
        | Some ets \<Rightarrow>
            if fle lo ets \<and> fle ets hi
            then (if threshold \<le> cnt + 1 then Inr True else burst_scan target_id lo hi threshold evs (cnt + 1))
            else burst_scan target_id lo hi threshold evs cnt))"

definition is_in_burst :: "pydict \<Rightarrow> string \<Rightarrow> pyfloat \<Rightarrow> chain \<Rightarrow> bool res" where
  "is_in_burst cfg target_id ts chain =
     (if target_id = [] then Inr False
      else bnd (cfg_float cfg ''temporal_burst_window_sec'') (\<lambda>window_s.
           bnd (fdiv window_s (Fin 2)) (\<lambda>half.
           bnd (cfg_int cfg ''temporal_burst_min_upreps'') (\<lambda>threshold.
             burst_scan target_id (fsub ts half) (fadd ts half) threshold (events_of chain) 0))))"

definition temporal_multiplier :: "bool \<Rightarrow> pyfloat" where
  "temporal_multiplier in_burst = (if in_burst then fl 0.2 else Fin 1)"

subsection \<open>Farming\<close>

definition picked_side_probability :: "pydict \<Rightarrow> pyfloat option res" where
  "picked_side_probability p =
     (if \<not> in_strs (get p ''side'') [''yes'', ''no''] \<or> get p ''probability_at_bet'' = PNone then Inr None
      else bnd (catching type_or_value (bnd (py_float (get p ''probability_at_bet'')) (\<lambda>f. Inr (Some f))) (Inr None)) (\<lambda>r.
        Inr (case r of None \<Rightarrow> None
          | Some p_yes \<Rightarrow> if \<not> (fle (Fin 0) p_yes \<and> fle p_yes (Fin 100)) then None
              else Some (if get p ''side'' = PStr ''yes'' then p_yes else fsub (Fin 100) p_yes))))"

definition farming_step :: "pyfloat \<Rightarrow> string \<Rightarrow> pydict \<Rightarrow> int \<times> int \<Rightarrow> (int \<times> int) res" where
  "farming_step cutoff_pct node_id ev = (\<lambda>(total, easy).
     if \<not> ev_is ''prediction_place'' ev \<or> get ev ''node_id'' \<noteq> PStr node_id then Inr (total, easy)
     else bnd (picked_side_probability (payload ev)) (\<lambda>p. case p of
         None \<Rightarrow> Inr (total, easy)
       | Some picked_p \<Rightarrow> Inr (total + 1, if flt cutoff_pct picked_p then easy + 1 else easy)))"

definition compute_farming_pct :: "pydict \<Rightarrow> string \<Rightarrow> chain \<Rightarrow> pyfloat res" where
  "compute_farming_pct cfg node_id chain =
     (if node_id = [] then Inr (Fin 0)
      else bnd (cfg_float cfg ''farming_easy_bet_cutoff'') (\<lambda>c.
           bnd (foldres (farming_step (fmul c (Fin 100)) node_id) (events_of chain) (0, 0)) (\<lambda>(total, easy).
             if total = 0 then Inr (Fin 0) else int_truediv easy total)))"

definition farming_multiplier :: "pydict \<Rightarrow> pyfloat \<Rightarrow> pyfloat res" where
  "farming_multiplier cfg pct =
     bnd (cfg_float cfg ''farming_hard_threshold'') (\<lambda>hard.
       if flt hard pct then Inr (fl 0.10)
       else bnd (cfg_float cfg ''farming_soft_threshold'') (\<lambda>soft.
         if flt soft pct then Inr (fl 0.50) else Inr (Fin 1)))"

subsection \<open>Progressive penalty\<close>

definition compute_rep_multiplier :: "libm \<Rightarrow> pyfloat \<Rightarrow> pyfloat" where
  "compute_rep_multiplier L oracle_rep = fadd (Fin 1) (log2 L (fmax (Fin 1) oracle_rep))"

definition apply_progressive_penalty :: "libm \<Rightarrow> pyfloat \<Rightarrow> pyfloat \<Rightarrow> pyfloat" where
  "apply_progressive_penalty L base_penalty oracle_rep = fmul base_penalty (compute_rep_multiplier L oracle_rep)"

definition correlation_step :: "pydict \<Rightarrow> string \<Rightarrow> chain \<Rightarrow> pyfloat \<Rightarrow> pydict \<Rightarrow> pyfloat list \<Rightarrow> pyfloat list res" where
  "correlation_step cfg node_id chain now ev correlations =
     (if \<not> ev_is ''uprep'' ev \<or> get (payload ev) ''target_node_id'' \<noteq> PStr node_id then Inr correlations
      else case nonempty_str (get ev ''node_id'') of
          None \<Rightarrow> Inr correlations
        | Some upreper \<Rightarrow>
            if upreper = node_id then Inr correlations
            else bnd (float_or_zero (get ev ''timestamp'')) (\<lambda>t.
              let ts = (case t of None \<Rightarrow> now | Some ts \<Rightarrow> ts) in
              bnd (compute_vcs cfg upreper node_id chain (Some ts) None) (\<lambda>vcs.
                Inr (correlations @ [fmax (Fin 0) (fmin (Fin 1) (fsub (Fin 1) vcs))]))))"

definition compute_node_correlation_score :: "pydict \<Rightarrow> string \<Rightarrow> chain \<Rightarrow> pyfloat option \<Rightarrow> pyfloat res" where
  "compute_node_correlation_score cfg node_id chain now =
     (if events_of chain = [] then Inr (Fin 0)
      else bnd (now_or_latest now (events_of chain)) (\<lambda>t.
           bnd (foldres (correlation_step cfg node_id chain t) (events_of chain) []) (\<lambda>correlations.
             if correlations = [] then Inr (Fin 0)
             else bnd (float_of_int (int (length correlations))) (fdiv (fsum correlations)))))"

definition progressive_penalty_multiplier_for :: "libm \<Rightarrow> pydict \<Rightarrow> string \<Rightarrow> chain \<Rightarrow> pyfloat \<Rightarrow> pyfloat option \<Rightarrow> pyfloat res" where
  "progressive_penalty_multiplier_for L cfg node_id chain oracle_rep now =
     bnd (cfg_float cfg ''progressive_penalty_threshold'') (\<lambda>threshold.
       if fle threshold (Fin 0) then Inr (Fin 1)
       else bnd (compute_node_correlation_score cfg node_id chain now) (\<lambda>score.
         if fle score threshold then Inr (Fin 1)
         else Inr (fmax (Fin 0) (fsub (Fin 1) (apply_progressive_penalty L (fsub score threshold) oracle_rep)))))"

subsection \<open>Every multiplier is a fraction\<close>

definition unit_interval :: "pyfloat \<Rightarrow> bool" where
  "unit_interval x \<longleftrightarrow> fle (Fin 0) x \<and> fle x (Fin 1)"

lemma unit_interval_simps [simp]: "unit_interval (Fin q) \<longleftrightarrow> 0 \<le> q \<and> q \<le> 1"
  by (simp add: unit_interval_def)

lemma unit_interval_fl: "0 \<le> q \<Longrightarrow> q \<le> 1 \<Longrightarrow> unit_interval (fl q)"
  using fl_unit by (simp add: unit_interval_def)

lemma unit_truediv: "0 \<le> a \<Longrightarrow> a \<le> b \<Longrightarrow> int_truediv a b = Inr q \<Longrightarrow> unit_interval q"
proof -
  assume 1: "0 \<le> a" "a \<le> b" "int_truediv a b = Inr q"
  then have "0 < b" by (auto simp: int_truediv_def split: if_splits)
  then have "0 \<le> (of_int a / of_int b :: rat)" "(of_int a / of_int b :: rat) \<le> 1" using 1 by simp_all
  then have "unit_interval (fl (of_int a / of_int b))" by (rule unit_interval_fl)
  then show ?thesis using 1(3) \<open>0 < b\<close> by (auto simp: int_truediv_def float_of_rat_exact_def split: if_splits)
qed

lemma unit_complement: "unit_interval q \<Longrightarrow> unit_interval (fsub (Fin 1) q)"
  using one_minus_unit by (simp add: unit_interval_def)

lemma unit_fmax: "unit_interval a \<Longrightarrow> unit_interval b \<Longrightarrow> unit_interval (fmax a b)"
  by (simp add: fmax_def)

text \<open>A configured floor that is NaN is still a multiplier: \<open>max\<close> returns its first argument then.\<close>

lemma unit_fmax_floor: "fl0 = NaN \<or> unit_interval fl0 \<Longrightarrow> unit_interval b \<Longrightarrow> fmax fl0 b = NaN \<or> unit_interval (fmax fl0 b)"
  by (auto simp: fmax_def)

lemma vcs_loop_fans:
  "fold (vcs_step a t) ups (ts, fs) = (ts', fs') \<Longrightarrow> distinct ts \<Longrightarrow> distinct fs \<Longrightarrow> distinct ts' \<and> distinct fs'"
proof (induction ups arbitrary: ts fs)
  case (Cons ev ups)
  then show ?case by (cases "uprep_link ev") (auto simp: vcs_step_def split: if_splits)
qed simp

lemma overlap_le:
  assumes "distinct ts" "distinct fs" shows "length (filter (\<lambda>x. x \<in> set fs) ts) \<le> length fs"
proof -
  have "length (filter (\<lambda>x. x \<in> set fs) ts) = card (set (filter (\<lambda>x. x \<in> set fs) ts))" using distinct_card [OF distinct_filter [OF assms(1)]] by metis
  also have "\<dots> \<le> card (set fs)" by (rule card_mono) auto
  finally show ?thesis using assms(2) by (simp add: distinct_card)
qed

lemma vcs_multiplier:
  assumes "config_ok cfg" "compute_vcs cfg a t chain now d = Inr v"
  shows "v = NaN \<or> unit_interval v"
proof -
  obtain f where f: "cfg_float cfg ''vcs_min_weight'' = Inr f" "f = NaN \<or> fle (fl 0.0) f \<and> fle f (fl 1.0)"
    using read_vcs_min_weight [OF assms(1)] by blast
  then have fu: "f = NaN \<or> unit_interval f" by (simp add: unit_interval_def)
  show ?thesis
  proof (cases "a = [] \<or> t = [] \<or> a = t \<or> events_of chain = []")
    case True
    then show ?thesis using assms(2) f(1) fu by (auto simp: compute_vcs_def split: if_splits)
  next
    case False
    then obtain ups where u0: "(case fold (vcs_step a t) ups ([], []) of (a_targets, b_fans) \<Rightarrow>
        bnd (cfg_float cfg ''vcs_min_weight'') (\<lambda>fl0. if b_fans = [] then Inr (Fin 1)
        else bnd (int_truediv (int (length (filter (\<lambda>x. x \<in> set b_fans) a_targets))) (int (length b_fans))) (\<lambda>overlap.
               Inr (fmax fl0 (fsub (Fin 1) overlap))))) = Inr v"
      using assms(2) unfolding compute_vcs_def Let_def
        by (auto simp: bnd_eq_Inr [of "now_or_latest _ _"] bnd_eq_Inr [of "decay_window_seconds _ _"] bnd_eq_Inr [of "upreps_within_window _ _ _"])
    obtain ts fs where l: "fold (vcs_step a t) ups ([], []) = (ts, fs)" by fastforce
    have u: "(if fs = [] then Inr (Fin 1)
        else bnd (int_truediv (int (length (filter (\<lambda>x. x \<in> set fs) ts))) (int (length fs))) (\<lambda>overlap.
               Inr (fmax f (fsub (Fin 1) overlap)))) = Inr v" using u0 l f(1) by simp
    have d: "distinct ts \<and> distinct fs" using vcs_loop_fans [OF l] by simp
    show ?thesis
    proof (cases "fs = []")
      case False
      then obtain q where q: "int_truediv (int (length (filter (\<lambda>x. x \<in> set fs) ts))) (int (length fs)) = Inr q" "v = fmax f (fsub (Fin 1) q)"
        using u l by (auto simp: bnd_eq_Inr)
      have "unit_interval q" by (rule unit_truediv [OF _ _ q(1)]) (use overlap_le d in auto)
      then show ?thesis using unit_fmax_floor [OF fu unit_complement] q(2) by blast
    qed (use u l in auto)
  qed
qed

lemma length_pairs: "2 * length (pairs xs) = length xs * (length xs - 1)"
proof (induction xs)
  case (Cons x xs)
  then show ?case by (cases xs) (auto simp: algebra_simps)
qed simp

lemma unit_fdiv: "0 \<le> a \<Longrightarrow> a \<le> b \<Longrightarrow> fdiv (Fin a) (Fin b) = Inr q \<Longrightarrow> unit_interval q"
proof -
  assume 1: "0 \<le> a" "a \<le> b" "fdiv (Fin a) (Fin b) = Inr q"
  then have "b \<noteq> 0" "q = fl (a / b)" by (auto split: if_splits)
  with 1 show ?thesis by (auto intro: unit_interval_fl)
qed

lemma clustering_unit:
  assumes "compute_clustering_coefficient cfg t chain now d = Inr v" shows "unit_interval v"
proof (cases "t = [] \<or> events_of chain = []")
  case False
  then obtain ups where u: "(let n = length (voters_of t ups) in
           if n < 2 then Inr (Fin 0)
           else bnd (int_truediv (int n * (int n - 1)) 2) (\<lambda>possible.
                bnd (float_of_int (int (edge_count (links_of ups) (voters_of t ups)))) (\<lambda>edges. fdiv edges possible))) = Inr v"
    using assms by (auto simp: compute_clustering_coefficient_def bnd_eq_Inr)
  let ?n = "length (voters_of t ups)" and ?e = "edge_count (links_of ups) (voters_of t ups)"
  show ?thesis
  proof (cases "?n < 2")
    case n: False
    from u n obtain p e where p: "int_truediv (int ?n * (int ?n - 1)) 2 = Inr p" and e: "float_of_int (int ?e) = Inr e" and v: "fdiv e p = Inr v"
      by (auto simp: Let_def bnd_eq_Inr)
    have "?e \<le> length (pairs (sort_by str_lt (voters_of t ups)))" by (simp add: edge_count_def)
    then have "2 * ?e \<le> ?n * (?n - 1)" using length_pairs [of "sort_by str_lt (voters_of t ups)"] by simp
    then have "2 * int ?e \<le> int ?n * (int ?n - 1)" 
    proof -
      have "int (2 * ?e) \<le> int (?n * (?n - 1))" using \<open>2 * ?e \<le> ?n * (?n - 1)\<close> by (simp only: of_nat_le_iff)
      then show ?thesis using n by (simp add: of_nat_diff)
    qed
    then have "of_int (2 * int ?e) \<le> (of_int (int ?n * (int ?n - 1)) :: rat)" by (simp only: of_int_le_iff)
    then have le: "(of_int (int ?e) :: rat) \<le> of_int (int ?n * (int ?n - 1)) / 2" by simp
    have p': "p = fl (of_int (int ?n * (int ?n - 1)) / 2)" and e': "e = fl (of_int (int ?e))" and fin: "fisfinite p" "fisfinite e"
      using p e by (auto simp: int_truediv_def float_of_int_def float_of_rat_exact_def split: if_splits)
    have "fle e p" unfolding p' e' using le by (rule fl_mono)
    moreover have "fle (Fin 0) e" unfolding e' by (rule fl_nonneg) simp
    ultimately show ?thesis using v fin unit_fdiv by (cases e; cases p) auto
  qed (use u in auto)
qed (use assms in \<open>auto simp: compute_clustering_coefficient_def split: if_splits\<close>)

lemma clustering_penalty_unit:
  assumes "config_ok cfg" "unit_interval c" "clustering_penalty cfg c = Inr v" shows "v = NaN \<or> unit_interval v"
proof -
  obtain f where f: "cfg_float cfg ''clustering_min_weight'' = Inr f" "f = NaN \<or> fle (fl 0.0) f \<and> fle f (fl 1.0)"
    using read_clustering_min_weight [OF assms(1)] by blast
  then have fu: "f = NaN \<or> unit_interval f" by (simp add: unit_interval_def)
  from assms(3) f(1) have "v = fmax f (fsub (Fin 1) c)" by (simp add: clustering_penalty_def)
  then show ?thesis using unit_fmax_floor [OF fu unit_complement [OF assms(2)]] by blast
qed

lemma farming_multiplier_unit: "farming_multiplier cfg p = Inr v \<Longrightarrow> unit_interval v"
  by (auto simp: farming_multiplier_def bnd_eq_Inr intro: unit_interval_fl split: if_splits)

lemma temporal_multiplier_unit: "unit_interval (temporal_multiplier b)"
  by (auto simp: temporal_multiplier_def intro: unit_interval_fl)

end
