(* ===== verification/Oracle_Rep.thy ===== *)
theory Oracle_Rep
  imports Anti_Gaming Dispute
begin

text \<open>
  \<open>services/infonet/reputation/oracle_rep.py\<close>: oracle reputation, minted from predictions on final
  markets only.
\<close>

subsection \<open>Markets as the chain shows them\<close>

record prediction =
  p_node_id :: pyval
  p_side :: pyval
  p_stake_amount :: pyval
  p_probability :: pyval
  p_timestamp :: pyval

record market_data =
  md_market_id :: string
  market_type :: string
  md_bootstrap_index :: "int option"
  md_snapshot :: "pydict option"
  md_finalize :: "pydict option"
  finalize_ts :: pyfloat
  predictions :: "prediction list"

definition new_market :: "string \<Rightarrow> market_data" where
  "new_market mid = \<lparr>md_market_id = mid, market_type = ''objective'', md_bootstrap_index = None, md_snapshot = None,
     md_finalize = None, finalize_ts = Fin 0, predictions = []\<rparr>"

definition as_event_list :: "chain \<Rightarrow> pydict list res" where
  "as_event_list chain = bnd (sort_events (events_of chain)) (\<lambda>keyed. Inr (map snd keyed))"

definition read_prediction :: "pydict \<Rightarrow> prediction" where
  "read_prediction ev = \<lparr>p_node_id = get ev ''node_id'', p_side = get (payload ev) ''side'',
     p_stake_amount = get (payload ev) ''stake_amount'', p_probability = get (payload ev) ''probability_at_bet'',
     p_timestamp = get ev ''timestamp''\<rparr>"

definition update_market :: "pydict \<Rightarrow> market_data \<Rightarrow> market_data res" where
  "update_market ev m =
     (let p = payload ev in
      if ev_is ''prediction_create'' ev then
        (let m' = m\<lparr>market_type := py_str (py_or (get p ''market_type'') (PStr ''objective''))\<rparr> in
         if get p ''bootstrap_index'' = PNone then Inr m'
         else bnd (catching type_or_value (bnd (py_int (get p ''bootstrap_index'')) (\<lambda>i. Inr (Some i))) (Inr None)) (\<lambda>i.
           Inr (m'\<lparr>md_bootstrap_index := i\<rparr>)))
      else if ev_is ''market_snapshot'' ev then Inr (m\<lparr>md_snapshot := Some p\<rparr>)
      else if ev_is ''resolution_finalize'' ev then
        bnd (py_float (py_or (get ev ''timestamp'') (PFloat (Fin 0)))) (\<lambda>t. Inr (m\<lparr>md_finalize := Some p, finalize_ts := t\<rparr>))
      else if ev_is ''prediction_place'' ev then Inr (m\<lparr>predictions := predictions m @ [read_prediction ev]\<rparr>)
      else Inr m)"

definition index_step :: "pydict \<Rightarrow> (string \<times> market_data) list \<Rightarrow> (string \<times> market_data) list res" where
  "index_step ev markets = (case nonempty_str (get (payload ev) ''market_id'') of
       None \<Rightarrow> Inr markets
     | Some mid \<Rightarrow> bnd (update_market ev (dict_get markets mid (new_market mid))) (\<lambda>m. Inr (AList.update mid m markets)))"

definition index_markets :: "pydict list \<Rightarrow> (string \<times> market_data) list res" where
  "index_markets events = foldres index_step events []"

subsection \<open>Which markets mint\<close>

definition market_passes_liquidity :: "pydict \<Rightarrow> market_data \<Rightarrow> bool res" where
  "market_passes_liquidity cfg m =
     (let snap = (case md_snapshot m of None \<Rightarrow> [] | Some s \<Rightarrow> s) in
      bnd (catching type_or_value
             (bnd (py_int (py_or (get snap ''frozen_participant_count'') (PInt 0))) (\<lambda>n.
              bnd (py_float (py_or (get snap ''frozen_total_stake'') (PFloat (Fin 0)))) (\<lambda>s. Inr (Some (n, s)))))
             (Inr None)) (\<lambda>r. case r of
          None \<Rightarrow> Inr False
        | Some (participants, stake) \<Rightarrow>
            bnd (cfg_int cfg ''min_market_participants'') (\<lambda>minp.
              if participants < minp then Inr False
              else bnd (cfg_float cfg ''min_market_total_stake'') (\<lambda>mins. Inr (fle mins stake)))))"

definition final_outcome :: "market_data \<Rightarrow> string option" where
  "final_outcome m = (case md_finalize m of
       None \<Rightarrow> None
     | Some f \<Rightarrow> if f = [] \<or> get f ''is_provisional'' \<noteq> PBool False then None
         else (case get f ''outcome'' of PStr s \<Rightarrow> if s \<in> {''yes'', ''no''} then Some s else None | _ \<Rightarrow> None))"

definition market_is_mintable :: "pydict \<Rightarrow> market_data \<Rightarrow> bool res" where
  "market_is_mintable cfg m =
     (if final_outcome m = None \<or> market_type m \<noteq> ''objective'' then Inr False else market_passes_liquidity cfg m)"

subsection \<open>What a prediction earns\<close>

definition free_pred_mint :: "pydict \<Rightarrow> pyval \<Rightarrow> pyfloat res" where
  "free_pred_mint cfg probability =
     (if probability = PNone then Inr (Fin 0)
      else bnd (catching type_or_value (bnd (py_float probability) (\<lambda>f. Inr (Some f))) (Inr None)) (\<lambda>r. case r of
          None \<Rightarrow> Inr (Fin 0)
        | Some prob \<Rightarrow>
            if \<not> (fle (Fin 0) prob \<and> fle prob (Fin 100)) then Inr (Fin 0)
            else bnd (cfg_float cfg ''oracle_min_earned'') (\<lambda>e.
                 bnd (fdiv prob (Fin 100)) (\<lambda>q. Inr (fmax e (fsub (Fin 1) q))))))"

definition pool_step :: "string \<Rightarrow> string \<Rightarrow> prediction \<Rightarrow> pyfloat \<times> pyfloat \<Rightarrow> (pyfloat \<times> pyfloat) res" where
  "pool_step winning_side losing_side pr = (\<lambda>(winner_pool, loser_pool).
     if p_stake_amount pr = PNone then Inr (winner_pool, loser_pool)
     else bnd (catching type_or_value (bnd (py_float (p_stake_amount pr)) (\<lambda>f. Inr (Some f))) (Inr None)) (\<lambda>r. case r of
         None \<Rightarrow> Inr (winner_pool, loser_pool)
       | Some a \<Rightarrow>
           if fle a (Fin 0) then Inr (winner_pool, loser_pool)
           else if p_side pr = PStr winning_side then Inr (fadd winner_pool a, loser_pool)
           else if p_side pr = PStr losing_side then Inr (winner_pool, fadd loser_pool a)
           else Inr (winner_pool, loser_pool)))"

definition staked_pred_settlement :: "pyval \<Rightarrow> pyval \<Rightarrow> string \<Rightarrow> prediction list \<Rightarrow> pyfloat res" where
  "staked_pred_settlement staked side outcome preds =
     (let losing_side = (if outcome = ''yes'' then ''no'' else ''yes'') in
      bnd (foldres (pool_step outcome losing_side) preds (Fin 0, Fin 0)) (\<lambda>(winner_pool, loser_pool).
        if side = PStr outcome then
          bnd (py_float staked) (\<lambda>s.
            if feq winner_pool (Fin 0) then Inr s
            else if feq loser_pool (Fin 0) then Inr s
            else bnd (fdiv s winner_pool) (\<lambda>share. Inr (fadd s (fmul share loser_pool))))
        else if side = PStr losing_side then bnd (py_float staked) (\<lambda>s. Inr (fneg s))
        else Inr (Fin 0)))"

subsection \<open>The balance\<close>

record oracle_rep_breakdown =
  free_prediction_mints :: pyfloat
  staked_prediction_returns :: pyfloat
  staked_prediction_losses :: pyfloat
  or_total :: pyfloat

type_synonym rep_acc = "pyfloat \<times> pyfloat \<times> pyfloat"

definition prediction_step :: "pydict \<Rightarrow> string \<Rightarrow> pyfloat \<Rightarrow> string \<Rightarrow> prediction list \<Rightarrow> prediction \<Rightarrow> rep_acc \<Rightarrow> rep_acc res" where
  "prediction_step cfg node_id farming_mult outcome preds pr = (\<lambda>(free_mint, staked_return, staked_loss).
     if p_node_id pr \<noteq> PStr node_id then Inr (free_mint, staked_return, staked_loss)
     else if p_stake_amount pr = PNone then
       (if p_side pr = PStr outcome
        then bnd (free_pred_mint cfg (p_probability pr)) (\<lambda>e. Inr (fadd free_mint (fmul e farming_mult), staked_return, staked_loss))
        else Inr (free_mint, staked_return, staked_loss))
     else bnd (staked_pred_settlement (p_stake_amount pr) (p_side pr) outcome preds) (\<lambda>delta.
       Inr (if fle (Fin 0) delta then (free_mint, fadd staked_return delta, staked_loss)
            else (free_mint, staked_return, fadd staked_loss (fneg delta)))))"

definition market_step :: "pydict \<Rightarrow> string \<Rightarrow> pyfloat \<Rightarrow> pydict list \<Rightarrow> market_data \<Rightarrow> rep_acc \<Rightarrow> rep_acc res" where
  "market_step cfg node_id farming_mult events m acc =
     bnd (market_is_mintable cfg m) (\<lambda>ok. case (ok, final_outcome m) of
         (True, Some original) \<Rightarrow>
           bnd (effective_outcome original (md_market_id m) (map PDict events)) (\<lambda>outcome.
             foldres (prediction_step cfg node_id farming_mult outcome (predictions m)) (predictions m) acc)
       | _ \<Rightarrow> Inr acc)"

definition compute_oracle_rep_breakdown :: "pydict \<Rightarrow> string \<Rightarrow> chain \<Rightarrow> oracle_rep_breakdown res" where
  "compute_oracle_rep_breakdown cfg node_id chain =
     bnd (as_event_list chain) (\<lambda>events.
     bnd (index_markets events) (\<lambda>markets.
     bnd (compute_farming_pct cfg node_id (map PDict events)) (\<lambda>farming_pct.
     bnd (farming_multiplier cfg farming_pct) (\<lambda>farming_mult.
     bnd (foldres (market_step cfg node_id farming_mult events) (map snd markets) (Fin 0, Fin 0, Fin 0)) (\<lambda>(free_mint, staked_return, staked_loss).
       let total = fsub (fadd free_mint staked_return) staked_loss in
       Inr \<lparr>free_prediction_mints = free_mint, staked_prediction_returns = staked_return, staked_prediction_losses = staked_loss,
            or_total = (if flt total (Fin 0) then Fin 0 else total)\<rparr>)))))"

definition compute_oracle_rep :: "pydict \<Rightarrow> string \<Rightarrow> chain \<Rightarrow> pyfloat res" where
  "compute_oracle_rep cfg node_id chain = bnd (compute_oracle_rep_breakdown cfg node_id chain) (\<lambda>b. Inr (or_total b))"

definition compute_oracle_rep_lifetime :: "pydict \<Rightarrow> string \<Rightarrow> chain \<Rightarrow> pyfloat res" where
  "compute_oracle_rep_lifetime cfg node_id chain = bnd (compute_oracle_rep_breakdown cfg node_id chain) (\<lambda>b.
     Inr (fadd (free_prediction_mints b) (staked_prediction_returns b)))"

subsection \<open>The last success\<close>

definition success_step :: "string \<Rightarrow> string \<Rightarrow> pyfloat \<Rightarrow> prediction \<Rightarrow> pyfloat option \<Rightarrow> pyfloat option res" where
  "success_step node_id outcome fin_ts pr best_ts =
     (if p_node_id pr \<noteq> PStr node_id \<or> p_side pr \<noteq> PStr outcome then Inr best_ts
      else bnd (py_float (py_or (p_timestamp pr) (PFloat (Fin 0)))) (\<lambda>t.
        let ts = fmax t fin_ts in
        Inr (case best_ts of None \<Rightarrow> Some ts | Some b \<Rightarrow> if flt b ts then Some ts else Some b)))"

definition last_successful_prediction_ts :: "pydict \<Rightarrow> string \<Rightarrow> chain \<Rightarrow> pyfloat option res" where
  "last_successful_prediction_ts cfg node_id chain =
     bnd (as_event_list chain) (\<lambda>events.
     bnd (index_markets events) (\<lambda>markets.
     foldres (\<lambda>m best_ts. bnd (market_is_mintable cfg m) (\<lambda>ok. case (ok, final_outcome m) of
         (True, Some original) \<Rightarrow>
           bnd (effective_outcome original (md_market_id m) (map PDict events)) (\<lambda>outcome.
             foldres (success_step node_id outcome (finalize_ts m)) (predictions m) best_ts)
       | _ \<Rightarrow> Inr best_ts)) (map snd markets) None))"

subsection \<open>Only predictions mint\<close>

text \<open>What an indexed market was read from.\<close>

definition of_market :: "string \<Rightarrow> pydict \<Rightarrow> bool" where
  "of_market mid ev \<longleftrightarrow> nonempty_str (get (payload ev) ''market_id'') = Some mid"

definition market_source :: "pydict list \<Rightarrow> string \<times> market_data \<Rightarrow> bool" where
  "market_source evs = (\<lambda>(mid, m).
     (\<forall>pr \<in> set (predictions m). \<exists>ev \<in> set evs. ev_is ''prediction_place'' ev \<and> of_market mid ev \<and> pr = read_prediction ev)
     \<and> (\<forall>f. md_finalize m = Some f \<longrightarrow> (\<exists>ev \<in> set evs. ev_is ''resolution_finalize'' ev \<and> of_market mid ev \<and> payload ev = f))
     \<and> (\<forall>s. md_snapshot m = Some s \<longrightarrow> (\<exists>ev \<in> set evs. ev_is ''market_snapshot'' ev \<and> of_market mid ev \<and> payload ev = s)))"

lemma new_market_source: "market_source evs (mid, new_market mid)"
  by (simp add: market_source_def new_market_def)

lemma update_market_source:
  assumes "update_market ev m = Inr m'" "market_source evs (mid, m)" "ev \<in> set evs" "of_market mid ev"
  shows "market_source evs (mid, m')"
proof -
  consider "ev_is ''prediction_create'' ev" | "ev_is ''market_snapshot'' ev" | "ev_is ''resolution_finalize'' ev" | "ev_is ''prediction_place'' ev"
    | "\<not> ev_is ''prediction_create'' ev" "\<not> ev_is ''market_snapshot'' ev" "\<not> ev_is ''resolution_finalize'' ev" "\<not> ev_is ''prediction_place'' ev" by blast
  then show ?thesis
  proof cases
    case 1
    then have "predictions m' = predictions m \<and> md_finalize m' = md_finalize m \<and> md_snapshot m' = md_snapshot m"
      using assms(1) by (auto simp: update_market_def Let_def bnd_eq_Inr split: if_splits)
    then show ?thesis using assms(2) by (simp add: market_source_def)
  next
    case 2
    then have "m' = m\<lparr>md_snapshot := Some (payload ev)\<rparr>" using assms(1) by (auto simp: update_market_def Let_def ev_is_def)
    then show ?thesis using assms 2 by (auto simp: market_source_def)
  next
    case 3
    then obtain t where "m' = m\<lparr>md_finalize := Some (payload ev), finalize_ts := t\<rparr>"
      using assms(1) by (auto simp: update_market_def Let_def ev_is_def bnd_eq_Inr)
    then show ?thesis using assms 3 by (auto simp: market_source_def)
  next
    case 4
    then have "m' = m\<lparr>predictions := predictions m @ [read_prediction ev]\<rparr>" using assms(1) by (auto simp: update_market_def Let_def ev_is_def)
    then show ?thesis using assms 4 by (auto simp: market_source_def)
  next
    case 5
    then show ?thesis using assms by (simp add: update_market_def Let_def)
  qed
qed

lemma index_step_source:
  assumes "index_step ev ms = Inr ms'" "\<forall>x \<in> set ms. market_source evs x" "ev \<in> set evs"
  shows "\<forall>x \<in> set ms'. market_source evs x"
proof (cases "nonempty_str (get (payload ev) ''market_id'')")
  case None
  then show ?thesis using assms by (simp add: index_step_def)
next
  case (Some mid)
  then obtain m where m: "update_market ev (dict_get ms mid (new_market mid)) = Inr m" "ms' = AList.update mid m ms"
    using assms(1) by (auto simp: index_step_def bnd_eq_Inr)
  have "market_source evs (mid, dict_get ms mid (new_market mid))"
    using assms(2) new_market_source by (auto simp: dict_get_def dest: map_of_SomeD split: option.split)
  then have "market_source evs (mid, m)" by (rule update_market_source [OF m(1) _ assms(3)]) (use Some in \<open>simp add: of_market_def\<close>)
  then show ?thesis using assms(2) by (auto simp: m(2) dest!: set_update)
qed

lemma index_markets_source: "index_markets evs = Inr ms \<Longrightarrow> x \<in> set ms \<Longrightarrow> market_source evs x"
proof -
  assume i: "index_markets evs = Inr ms" "x \<in> set ms"
  from i(1) have f: "foldres index_step evs [] = Inr ms" by (simp add: index_markets_def)
  have "\<forall>x \<in> set ms. market_source evs x"
    by (rule foldres_invariant [OF f]) (simp, rule index_step_source)
  with i(2) show ?thesis by blast
qed

lemma foldres_same: "\<forall>x \<in> set xs. f x s = Inr s \<Longrightarrow> foldres f xs s = Inr s"
  by (induction xs) auto

lemma as_event_list_set: "as_event_list chain = Inr evs \<Longrightarrow> set evs = set (events_of chain)"
proof -
  assume "as_event_list chain = Inr evs"
  then obtain keyed where k: "sort_events (events_of chain) = Inr keyed" and e: "evs = map snd keyed" by (auto simp: as_event_list_def bnd_eq_Inr)
  then obtain ks where ks: "mapres (\<lambda>ev. bnd (sort_key ev) (\<lambda>k. Inr (k, ev))) (events_of chain) = Inr ks" "set keyed = set ks"
    by (auto simp: sort_events_def bnd_eq_Inr)
  have "snd ` set ks = set (events_of chain)"
  proof (intro equalityI subsetI)
    fix ev assume "ev \<in> snd ` set ks"
    then obtain y where y: "y \<in> set ks" "ev = snd y" by blast
    from mapres_source [OF ks(1) y(1)] y(2) show "ev \<in> set (events_of chain)" by (auto simp: bnd_eq_Inr)
  next
    fix ev assume ev: "ev \<in> set (events_of chain)"
    from mapres_target [OF ks(1) ev] show "ev \<in> snd ` set ks" by (force simp: bnd_eq_Inr)
  qed
  then show ?thesis using e ks(2) by (metis set_map)
qed

lemma foldres_steps: "foldres f xs s = Inr s' \<Longrightarrow> x \<in> set xs \<Longrightarrow> \<exists>t t'. f x t = Inr t'"
proof (induction xs arbitrary: s)
  case (Cons y ys)
  then obtain s1 where "f y s = Inr s1" "foldres f ys s1 = Inr s'" by (auto simp: bnd_eq_Inr)
  then show ?case using Cons by (cases "x = y") auto
qed simp

text \<open>A market that changes the account is mintable, final, and holds a prediction of the node.\<close>

lemma market_step_changes:
  assumes "market_step cfg node k evs m t = Inr t'" "market_step cfg node k evs m s \<noteq> Inr s"
  shows "market_is_mintable cfg m = Inr True \<and> (\<exists>original. final_outcome m = Some original) \<and> (\<exists>pr \<in> set (predictions m). p_node_id pr = PStr node)"
proof -
  obtain okm where okm: "market_is_mintable cfg m = Inr okm" using assms(1) by (auto simp: market_step_def bnd_eq_Inr)
  then have ok: "okm" "final_outcome m \<noteq> None" using assms(2) by (cases okm; cases "final_outcome m"; auto simp: market_step_def)+
  then obtain original where o: "final_outcome m = Some original" by blast
  obtain oc where oc: "effective_outcome original (md_market_id m) (map PDict evs) = Inr oc"
    using assms(1) okm ok(1) o by (auto simp: market_step_def bnd_eq_Inr)
  have "\<exists>pr \<in> set (predictions m). p_node_id pr = PStr node"
  proof (rule ccontr)
    assume n: "\<not> ?thesis"
    have "foldres (prediction_step cfg node k oc (predictions m)) (predictions m) s = Inr s"
      by (rule foldres_same) (use n in \<open>cases s, auto simp: prediction_step_def\<close>)
    then show False using assms(2) okm ok(1) o oc by (simp add: market_step_def)
  qed
  then show ?thesis using okm ok(1) o by simp
qed

lemma oracle_rep_changed:
  assumes "compute_oracle_rep cfg node chain = Inr r" "r \<noteq> Fin 0"
  shows "\<exists>evs ms mid m original. as_event_list chain = Inr evs \<and> index_markets evs = Inr ms \<and> (mid, m) \<in> set ms
    \<and> market_is_mintable cfg m = Inr True \<and> final_outcome m = Some original \<and> (\<exists>pr \<in> set (predictions m). p_node_id pr = PStr node)"
proof -
  obtain evs ms k a b c where 1: "as_event_list chain = Inr evs" "index_markets evs = Inr ms"
    "foldres (market_step cfg node k evs) (map snd ms) (Fin 0, Fin 0, Fin 0) = Inr (a, b, c)"
    and r: "r = (let total = fsub (fadd a b) c in if flt total (Fin 0) then Fin 0 else total)"
    using assms(1) by (auto simp: compute_oracle_rep_def compute_oracle_rep_breakdown_def bnd_eq_Inr Let_def)
  have "\<exists>m \<in> set (map snd ms). market_step cfg node k evs m (Fin 0, Fin 0, Fin 0) \<noteq> Inr (Fin 0, Fin 0, Fin 0)"
  proof (rule ccontr)
    assume n: "\<not> ?thesis"
    have "foldres (market_step cfg node k evs) (map snd ms) (Fin 0, Fin 0, Fin 0) = Inr (Fin 0, Fin 0, Fin 0)"
      by (rule foldres_same) (use n in blast)
    then show False using 1(3) r assms(2) by (simp add: fsub_def)
  qed
  then obtain mid m where m: "(mid, m) \<in> set ms" "market_step cfg node k evs m (Fin 0, Fin 0, Fin 0) \<noteq> Inr (Fin 0, Fin 0, Fin 0)" by auto
  from m(1) have "m \<in> set (map snd ms)" by force
  then obtain t t' where "market_step cfg node k evs m t = Inr t'" using foldres_steps [OF 1(3)] by blast
  from market_step_changes [OF this m(2)] show ?thesis using 1(1,2) m(1) by blast
qed


subsection \<open>An example chain\<close>

definition rep_example :: chain where
  "rep_example =
    [PDict [(''event_type'', PStr ''prediction_create''), (''node_id'', PStr ''c''), (''payload'', PDict [(''market_id'', PStr ''m'')])],
     PDict [(''event_type'', PStr ''market_snapshot''), (''timestamp'', PFloat (Fin 1)),
            (''payload'', PDict [(''market_id'', PStr ''m''), (''frozen_participant_count'', PInt 5), (''frozen_total_stake'', PFloat (Fin 10))])],
     PDict [(''event_type'', PStr ''prediction_place''), (''node_id'', PStr ''a''), (''timestamp'', PFloat (Fin 2)),
            (''payload'', PDict [(''market_id'', PStr ''m''), (''side'', PStr ''yes''), (''stake_amount'', PFloat (Fin 10))])],
     PDict [(''event_type'', PStr ''resolution_finalize''), (''timestamp'', PFloat (Fin 3)),
            (''payload'', PDict [(''market_id'', PStr ''m''), (''outcome'', PStr ''yes''), (''is_provisional'', PBool False)])],
     PDict [(''event_type'', PStr ''uprep''), (''node_id'', PStr ''a''), (''timestamp'', PFloat (Fin 4)),
            (''payload'', PDict [(''target_node_id'', PStr ''b'')])]]"

lemma rep_example_events: "as_event_list rep_example = Inr (events_of rep_example)"
  by (simp add: as_event_list_def rep_example_def sort_events_def sort_key_def key_lt_def py_or_def)

definition rep_example_market :: market_data where
  "rep_example_market = \<lparr>md_market_id = ''m'', market_type = ''objective'', md_bootstrap_index = None,
     md_snapshot = Some [(''market_id'', PStr ''m''), (''frozen_participant_count'', PInt 5), (''frozen_total_stake'', PFloat (Fin 10))],
     md_finalize = Some [(''market_id'', PStr ''m''), (''outcome'', PStr ''yes''), (''is_provisional'', PBool False)], finalize_ts = Fin 3,
     predictions = [\<lparr>p_node_id = PStr ''a'', p_side = PStr ''yes'', p_stake_amount = PFloat (Fin 10), p_probability = PNone, p_timestamp = PFloat (Fin 2)\<rparr>]\<rparr>"

lemma rep_example_index: "index_markets (events_of rep_example) = Inr [(''m'', rep_example_market)]"
  by (simp add: index_markets_def index_step_def update_market_def rep_example_def rep_example_market_def new_market_def ev_is_def payload_def
      py_or_def read_prediction_def dict_get_def)

lemma rep_example_mintable: "market_is_mintable baseline_config rep_example_market = Inr True \<and> final_outcome rep_example_market = Some ''yes''"
  by (simp add: market_is_mintable_def final_outcome_def market_passes_liquidity_def rep_example_market_def py_or_def cfg_simps)

lemma rep_example_undisputed: "effective_outcome ''yes'' ''m'' (map PDict (events_of rep_example)) = Inr ''yes''"
  by (simp add: effective_outcome_def rep_example_def collect_disputes_def open_step_def stake_step_def resolve_step_def ev_is_def payload_def)

lemma rep_example_oracle_rep: "compute_oracle_rep baseline_config ''a'' rep_example = Inr (Fin 10)"
proof -
  have "compute_farming_pct baseline_config ''a'' (map PDict (events_of rep_example)) = Inr (Fin 0)"
    by (simp add: compute_farming_pct_def rep_example_def farming_step_def picked_side_probability_def ev_is_def payload_def cfg_simps)
  moreover have "\<exists>k. farming_multiplier baseline_config (Fin 0) = Inr k" by (simp add: farming_multiplier_def cfg_simps)
  moreover have "prediction_step baseline_config ''a'' k ''yes'' (predictions rep_example_market) pr (Fin 0, Fin 0, Fin 0) = Inr (Fin 0, Fin 10, Fin 0)"
    if "pr \<in> set (predictions rep_example_market)" for k pr
    using that by (simp add: prediction_step_def staked_pred_settlement_def pool_step_def rep_example_market_def Let_def)
  moreover have "md_market_id rep_example_market = ''m''" "\<exists>pr. predictions rep_example_market = [pr]" by (simp_all add: rep_example_market_def)
  ultimately show ?thesis using rep_example_mintable
    by (auto simp: compute_oracle_rep_def compute_oracle_rep_breakdown_def rep_example_events rep_example_index market_step_def rep_example_undisputed Let_def fsub_def)
qed

lemma rep_example_oracle_rep_b: "compute_oracle_rep baseline_config ''b'' rep_example = Inr (Fin 0)"
proof -
  have "compute_farming_pct baseline_config ''b'' (map PDict (events_of rep_example)) = Inr (Fin 0)"
    by (simp add: compute_farming_pct_def rep_example_def farming_step_def picked_side_probability_def ev_is_def payload_def cfg_simps)
  moreover have "\<exists>k. farming_multiplier baseline_config (Fin 0) = Inr k" by (simp add: farming_multiplier_def cfg_simps)
  moreover have "prediction_step baseline_config ''b'' k ''yes'' (predictions rep_example_market) pr (Fin 0, Fin 0, Fin 0) = Inr (Fin 0, Fin 0, Fin 0)"
    if "pr \<in> set (predictions rep_example_market)" for k pr
    using that by (simp add: prediction_step_def rep_example_market_def)
  moreover have "md_market_id rep_example_market = ''m''" "\<exists>pr. predictions rep_example_market = [pr]" by (simp_all add: rep_example_market_def)
  ultimately show ?thesis using rep_example_mintable
    by (auto simp: compute_oracle_rep_def compute_oracle_rep_breakdown_def rep_example_events rep_example_index market_step_def rep_example_undisputed Let_def fsub_def)
qed

text \<open>
  C15: oracle reputation comes from nothing but predictions on resolved markets: a node whose reputation
  is not zero placed a prediction on a market that has a finalization on the chain with outcome yes or
  no and not flagged provisional, of a market that passes the liquidity thresholds of the configuration.
\<close>

theorem oracle_rep_predictions_only:
  assumes "compute_oracle_rep cfg node chain = Inr r" "r \<noteq> Fin 0"
  shows "\<exists>place \<in> set (events_of chain). \<exists>final \<in> set (events_of chain). \<exists>mid.
    ev_is ''prediction_place'' place \<and> get place ''node_id'' = PStr node \<and> of_market mid place
    \<and> ev_is ''resolution_finalize'' final \<and> of_market mid final \<and> get (payload final) ''is_provisional'' = PBool False
    \<and> get (payload final) ''outcome'' \<in> {PStr ''yes'', PStr ''no''}
    \<and> (\<exists>m. market_passes_liquidity cfg m = Inr True \<and> market_source (events_of chain) (mid, m))"
proof -
  from oracle_rep_changed [OF assms] obtain evs ms mid m original pr where o: "as_event_list chain = Inr evs" "index_markets evs = Inr ms" "(mid, m) \<in> set ms"
    "market_is_mintable cfg m = Inr True" "final_outcome m = Some original" and pr: "pr \<in> set (predictions m)" "p_node_id pr = PStr node" by blast
  have src: "market_source (events_of chain) (mid, m)"
    using index_markets_source [OF o(2,3)] as_event_list_set [OF o(1)] by (simp add: market_source_def)
  then obtain place where p: "place \<in> set (events_of chain)" "ev_is ''prediction_place'' place" "of_market mid place" "pr = read_prediction place"
    using pr(1) by (auto simp: market_source_def)
  obtain f where f: "md_finalize m = Some f" "get f ''is_provisional'' = PBool False" "get f ''outcome'' \<in> {PStr ''yes'', PStr ''no''}"
    using o(5) by (auto simp: final_outcome_def split: option.splits if_splits pyval.splits)
  then obtain final where "final \<in> set (events_of chain)" "ev_is ''resolution_finalize'' final" "of_market mid final" "payload final = f"
    using src by (auto simp: market_source_def)
  moreover have "market_passes_liquidity cfg m = Inr True" using o(4) by (auto simp: market_is_mintable_def split: if_splits)
  moreover have "get place ''node_id'' = PStr node" using p(4) pr(2) by (simp add: read_prediction_def)
  ultimately show ?thesis using p f src by metis
qed

theorem oracle_rep_predictions_only_witness:
  "(\<exists>place \<in> set (events_of rep_example). ev_is ''prediction_place'' place \<and> get place ''node_id'' = PStr ''a'')"
  using oracle_rep_predictions_only [OF rep_example_oracle_rep] by fastforce

end
