(* ===== verification/Common_Rep.thy ===== *)
theory Common_Rep
  imports Oracle_Rep
begin

text \<open>
  \<open>services/infonet/reputation/common_rep.py\<close>, \<open>governance_decay.py\<close> and \<open>weekly_vote_budget.py\<close>: the
  reputations derived from oracle reputation.
\<close>

subsection \<open>Common reputation\<close>

text \<open>\<open>payload = ev.get("payload") or {}\<close>, then \<open>payload.get(...)\<close>\<close>

definition raw_payload :: "pydict \<Rightarrow> pydict res" where
  "raw_payload ev = (case py_or (get ev ''payload'') (PDict []) of PDict d \<Rightarrow> Inr d | _ \<Rightarrow> Inl AttributeError)"

text \<open>\<open>upreper_cache\<close> is the cache of oracle reputations.\<close>

definition cached_oracle_rep :: "pydict \<Rightarrow> string \<Rightarrow> chain \<Rightarrow> (string \<times> pyfloat) list \<Rightarrow> (pyfloat \<times> (string \<times> pyfloat) list) res" where
  "cached_oracle_rep cfg node chain cache = (case map_of cache node of
       Some r \<Rightarrow> Inr (r, cache)
     | None \<Rightarrow> bnd (compute_oracle_rep cfg node chain) (\<lambda>r. Inr (r, AList.update node r cache)))"

definition uprep_multipliers :: "pydict \<Rightarrow> string \<Rightarrow> string \<Rightarrow> pyfloat \<Rightarrow> chain \<Rightarrow> (pyfloat \<times> pyfloat \<times> pyfloat) res" where
  "uprep_multipliers cfg upreper node_id ts chain =
     bnd (compute_vcs cfg upreper node_id chain (Some ts) None) (\<lambda>vcs.
     bnd (compute_clustering_coefficient cfg node_id chain (Some ts) None) (\<lambda>coefficient.
     bnd (clustering_penalty cfg coefficient) (\<lambda>cluster_mult.
     bnd (is_in_burst cfg node_id ts chain) (\<lambda>b.
       Inr (vcs, cluster_mult, temporal_multiplier b)))))"

definition uprep_step :: "pydict \<Rightarrow> string \<Rightarrow> pyfloat \<Rightarrow> bool \<Rightarrow> chain \<Rightarrow> pydict \<Rightarrow> pyfloat \<times> (string \<times> pyfloat) list \<Rightarrow> (pyfloat \<times> (string \<times> pyfloat) list) res" where
  "uprep_step cfg node_id factor apply_anti_gaming chain ev = (\<lambda>(rep, cache).
     if \<not> ev_is ''uprep'' ev then Inr (rep, cache)
     else bnd (raw_payload ev) (\<lambda>p.
       if get p ''target_node_id'' \<noteq> PStr node_id then Inr (rep, cache)
       else case nonempty_str (get ev ''node_id'') of
           None \<Rightarrow> Inr (rep, cache)
         | Some upreper \<Rightarrow>
             if upreper = node_id then Inr (rep, cache)
             else bnd (cached_oracle_rep cfg upreper chain cache) (\<lambda>(r, cache').
               let base = fmul r factor in
               if \<not> apply_anti_gaming then Inr (fadd rep base, cache')
               else bnd (float_or_zero (get ev ''timestamp'')) (\<lambda>t.
                 let ts = (case t of None \<Rightarrow> Fin 0 | Some ts \<Rightarrow> ts) in
                 bnd (uprep_multipliers cfg upreper node_id ts chain) (\<lambda>(vcs, cluster_mult, burst_mult).
                   Inr (fadd rep (fmul (fmul (fmul base vcs) cluster_mult) burst_mult), cache'))))))"

definition compute_common_rep :: "libm \<Rightarrow> pydict \<Rightarrow> string \<Rightarrow> chain \<Rightarrow> pyfloat option \<Rightarrow> bool \<Rightarrow> pyfloat res" where
  "compute_common_rep L cfg node_id chain weight_factor apply_anti_gaming =
     bnd (case weight_factor of Some w \<Rightarrow> Inr w | None \<Rightarrow> cfg_float cfg ''common_rep_weight_factor'') (\<lambda>factor.
     bnd (foldres (uprep_step cfg node_id factor apply_anti_gaming chain) (events_of chain) (Fin 0, [])) (\<lambda>(rep, cache).
       if apply_anti_gaming \<and> flt (Fin 0) rep
       then bnd (compute_oracle_rep cfg node_id chain) (\<lambda>target_rep.
            bnd (progressive_penalty_multiplier_for L cfg node_id chain target_rep None) (\<lambda>k. Inr (fmul rep k)))
       else Inr rep))"

subsection \<open>Governance decay\<close>

text \<open>\<open>math.floor(x)\<close> of a float\<close>

fun math_floor :: "pyfloat \<Rightarrow> int res" where
  "math_floor (Fin q) = Inr \<lfloor>q\<rfloor>"
| "math_floor NaN = Inl ValueError"
| "math_floor _ = Inl OverflowError"

definition decay_factor_for_age :: "libm \<Rightarrow> pydict \<Rightarrow> pyfloat option \<Rightarrow> pyfloat res" where
  "decay_factor_for_age L cfg days_since_success = (case days_since_success of
       None \<Rightarrow> Inr (Fin 0)
     | Some days \<Rightarrow>
         bnd (cfg_float cfg ''governance_decay_days'') (\<lambda>decay_days.
         bnd (cfg_float cfg ''governance_decay_factor'') (\<lambda>factor.
           if \<not> (flt (Fin 0) factor \<and> flt factor (Fin 1)) then Inr (if fle days decay_days then Fin 1 else Fin 0)
           else if fle days decay_days then Inr (Fin 1)
           else bnd (fdiv days decay_days) (\<lambda>q.
                bnd (math_floor q) (\<lambda>periods.
                bnd (float_of_int periods) (\<lambda>k. Inr (pow L factor k)))))))"

definition compute_oracle_rep_active :: "libm \<Rightarrow> pydict \<Rightarrow> string \<Rightarrow> chain \<Rightarrow> pyfloat \<Rightarrow> pyfloat res" where
  "compute_oracle_rep_active L cfg node_id chain now =
     bnd (compute_oracle_rep cfg node_id chain) (\<lambda>balance.
       if fle balance (Fin 0) then Inr (Fin 0)
       else bnd (last_successful_prediction_ts cfg node_id chain) (\<lambda>l. case l of
           None \<Rightarrow> Inr (Fin 0)
         | Some last_ts \<Rightarrow>
             bnd (fdiv (fsub now last_ts) seconds_per_day) (\<lambda>d.
             bnd (decay_factor_for_age L cfg (Some (fmax (Fin 0) d))) (\<lambda>k. Inr (fmul balance k)))))"

subsection \<open>Weekly budget\<close>

definition compute_weekly_vote_budget :: "pydict \<Rightarrow> string \<Rightarrow> chain \<Rightarrow> int res" where
  "compute_weekly_vote_budget cfg node_id chain =
     bnd (cfg_int cfg ''weekly_vote_base'') (\<lambda>base.
     bnd (cfg_int cfg ''weekly_vote_per_oracle'') (\<lambda>per_oracle.
       if per_oracle \<le> 0 then Inr base
       else bnd (compute_oracle_rep cfg node_id chain) (\<lambda>rep.
            bnd (float_of_int per_oracle) (\<lambda>d.
            bnd (fdiv rep d) (\<lambda>q.
            bnd (math_floor q) (\<lambda>k. Inr (base + k)))))))"

definition week_step :: "string \<Rightarrow> pyfloat \<Rightarrow> pyfloat \<Rightarrow> pydict \<Rightarrow> int \<Rightarrow> int res" where
  "week_step node_id cutoff now ev cnt =
     (if \<not> ev_is ''uprep'' ev \<or> get ev ''node_id'' \<noteq> PStr node_id then Inr cnt
      else bnd (float_or_zero (get ev ''timestamp'')) (\<lambda>t. case t of
          None \<Rightarrow> Inr cnt
        | Some ts \<Rightarrow> Inr (if fle cutoff ts \<and> fle ts now then cnt + 1 else cnt)))"

definition count_upreps_in_last_week :: "string \<Rightarrow> chain \<Rightarrow> pyfloat \<Rightarrow> int res" where
  "count_upreps_in_last_week node_id chain now =
     foldres (week_step node_id (fsub now (fmul (Fin 7) seconds_per_day)) now) (events_of chain) 0"

definition is_budget_exceeded :: "pydict \<Rightarrow> string \<Rightarrow> chain \<Rightarrow> pyfloat \<Rightarrow> bool res" where
  "is_budget_exceeded cfg node_id chain now =
     bnd (count_upreps_in_last_week node_id chain now) (\<lambda>n.
     bnd (compute_weekly_vote_budget cfg node_id chain) (\<lambda>b. Inr (b < n)))"

subsection \<open>Multiplication by a fraction\<close>

lemma unit_fmul:
  assumes "fval x" "fnonneg x" "fisfinite x" "unit_interval m"
  shows "fnonneg (fmul x m) \<and> fle (fmul x m) x \<and> fisfinite (fmul x m)"
proof -
  obtain a q where aq: "x = Fin a" "m = Fin q" using assms(3,4) by (cases x; cases m) (auto simp: unit_interval_def)
  then have le: "0 \<le> a * q" "a * q \<le> a" using assms(2,4) by (auto intro: mult_left_le)
  have "fle (fl (a * q)) (fl a)" "fle (Fin 0) (fl (a * q))" using fl_mono [OF le(2)] fl_nonneg [OF le(1)] by auto
  moreover have "fl a = Fin a" using assms(1) aq(1) by (intro fl_exact) (auto simp: in_range_def)
  ultimately show ?thesis using aq by (cases "fl (a * q)") auto
qed

lemma fadd_finite: "fisfinite (fadd a b) \<Longrightarrow> fisfinite a \<and> fisfinite b"
  by (cases a; cases b) auto

lemma fnonneg_fadd: "fnonneg a \<Longrightarrow> fnonneg x \<Longrightarrow> fnonneg (fadd a x)"
  by (cases a; cases x) (auto intro: fl_nonneg simp: fnonneg_def)


subsection \<open>Penalties only lower common reputation\<close>

definition rep_value :: "pyfloat \<Rightarrow> bool" where
  "rep_value r \<longleftrightarrow> r = NaN \<or> fnonneg r"

lemma rep_value_fmul: "rep_value a \<Longrightarrow> rep_value b \<Longrightarrow> rep_value (fmul a b)"
  by (cases a; cases b) (auto simp: rep_value_def inf_sgn_def fnonneg_def intro: fl_nonneg)

lemma oracle_rep_value: "compute_oracle_rep cfg n chain = Inr r \<Longrightarrow> rep_value r"
proof -
  assume "compute_oracle_rep cfg n chain = Inr r"
  then obtain t where "r = (if flt t (Fin 0) then Fin 0 else t)"
    by (auto simp: compute_oracle_rep_def compute_oracle_rep_breakdown_def bnd_eq_Inr Let_def)
  then show ?thesis by (cases t) (auto simp: rep_value_def)
qed

lemma cached_oracle_rep_value:
  assumes "cached_oracle_rep cfg n chain cache = Inr (r, cache')" "\<forall>x \<in> set cache. rep_value (snd x)"
  shows "rep_value r \<and> (\<forall>x \<in> set cache'. rep_value (snd x))"
proof (cases "map_of cache n")
  case (Some q)
  then have "r = q" "cache' = cache" using assms(1) by (simp_all add: cached_oracle_rep_def)
  then show ?thesis using assms(2) map_of_SomeD [OF Some] by auto
next
  case None
  then have "compute_oracle_rep cfg n chain = Inr r" "cache' = AList.update n r cache"
    using assms(1) by (auto simp: cached_oracle_rep_def bnd_eq_Inr)
  then show ?thesis using assms(2) oracle_rep_value by (auto dest!: set_update)
qed

text \<open>The configured floors of the multipliers are numbers.\<close>

definition floors_ok :: "pydict \<Rightarrow> bool" where
  "floors_ok cfg \<longleftrightarrow> cfg_float cfg ''vcs_min_weight'' \<noteq> Inr NaN \<and> cfg_float cfg ''clustering_min_weight'' \<noteq> Inr NaN"

lemma fmax_number: "a \<noteq> NaN \<Longrightarrow> fmax a b \<noteq> NaN"
  by (auto simp: fmax_def)

lemma vcs_unit:
  assumes "config_ok cfg" "floors_ok cfg" "compute_vcs cfg a t chain now d = Inr v" shows "unit_interval v"
proof (rule ccontr)
  assume "\<not> ?thesis"
  then have n: "v = NaN" using vcs_multiplier [OF assms(1,3)] by blast
  obtain f where f: "cfg_float cfg ''vcs_min_weight'' = Inr f" "f \<noteq> NaN"
    using read_vcs_min_weight [OF assms(1)] assms(2) by (metis floors_ok_def)
  show False
    using assms(3) n f(2) unfolding compute_vcs_def Let_def
    by (auto simp: bnd_eq_Inr fmax_number [OF f(2)] f(1) split: if_splits prod.splits) (metis surj_pair)
qed

lemma cluster_unit:
  assumes "config_ok cfg" "floors_ok cfg" "unit_interval c" "clustering_penalty cfg c = Inr v" shows "unit_interval v"
proof (rule ccontr)
  assume "\<not> ?thesis"
  then have n: "v = NaN" using clustering_penalty_unit [OF assms(1,3,4)] by blast
  then show False using assms(2,4) by (auto simp: clustering_penalty_def bnd_eq_Inr fmax_def floors_ok_def split: if_splits)
qed

lemma multipliers_unit:
  assumes "config_ok cfg" "floors_ok cfg" "uprep_multipliers cfg u n ts chain = Inr (v, k, b)"
  shows "unit_interval v \<and> unit_interval k \<and> unit_interval b"
proof -
  obtain c i where 1: "compute_vcs cfg u n chain (Some ts) None = Inr v" "compute_clustering_coefficient cfg n chain (Some ts) None = Inr c"
    "clustering_penalty cfg c = Inr k" "b = temporal_multiplier i"
    using assms(3) by (auto simp: uprep_multipliers_def bnd_eq_Inr)
  then show ?thesis using vcs_unit [OF assms(1,2) 1(1)] cluster_unit [OF assms(1,2) clustering_unit [OF 1(2)] 1(3)] temporal_multiplier_unit by simp
qed


text \<open>One uprep event counted with and without the penalties.\<close>

lemma uprep_step_pair:
  assumes "uprep_step cfg n w True chain ev (rep, cache) = Inr (rep', c')" "uprep_step cfg n w False chain ev (rep0, cache) = Inr (rep0', c0')"
    and ok: "config_ok cfg" "floors_ok cfg" "rep_value w" "\<forall>x \<in> set cache. rep_value (snd x)"
  shows "c' = c0' \<and> (\<forall>x \<in> set c'. rep_value (snd x)) \<and>
    (rep' = rep \<and> rep0' = rep0 \<or> (\<exists>base v k b. rep' = fadd rep (fmul (fmul (fmul base v) k) b) \<and> rep0' = fadd rep0 base
        \<and> fval base \<and> rep_value base \<and> unit_interval v \<and> unit_interval k \<and> unit_interval b))"
proof (cases "\<not> ev_is ''uprep'' ev")
  case True
  then show ?thesis using assms by (simp add: uprep_step_def)
next
  case False
  then obtain p where p: "raw_payload ev = Inr p" using assms(1) by (auto simp: uprep_step_def bnd_eq_Inr)
  consider "get p ''target_node_id'' \<noteq> PStr n \<or> nonempty_str (get ev ''node_id'') = None \<or> nonempty_str (get ev ''node_id'') = Some n"
    | u where "get p ''target_node_id'' = PStr n" "nonempty_str (get ev ''node_id'') = Some u" "u \<noteq> n"
    by (cases "nonempty_str (get ev ''node_id'')") auto
  then show ?thesis
  proof cases
    case 1
    then show ?thesis using assms False p by (auto simp: uprep_step_def split: if_splits)
  next
    case 2
    then obtain r c1 where r: "cached_oracle_rep cfg u chain cache = Inr (r, c1)"
      using assms(1) False p by (auto simp: uprep_step_def bnd_eq_Inr)
    have f: "rep0' = fadd rep0 (fmul r w)" "c0' = c1" using assms(2) False p 2 r by (simp_all add: uprep_step_def Let_def)
    obtain t v k b where m: "uprep_multipliers cfg u n t chain = Inr (v, k, b)"
      "rep' = fadd rep (fmul (fmul (fmul (fmul r w) v) k) b)" "c' = c1"
      using assms(1) False p 2 r by (auto simp: uprep_step_def Let_def bnd_eq_Inr)
    have "rep_value r \<and> (\<forall>x \<in> set c1. rep_value (snd x))" by (rule cached_oracle_rep_value [OF r ok(4)])
    moreover have "rep_value (fmul r w)" using calculation ok(3) rep_value_fmul by blast
    ultimately show ?thesis using multipliers_unit [OF ok(1,2) m(1)] m(2,3) f by (metis fval_fmul)
  qed
qed

lemma fold_finite: "foldres (uprep_step cfg n w False chain) evs (a, c) = Inr (b, d) \<Longrightarrow> fisfinite b \<Longrightarrow> fisfinite a"
proof (induction evs arbitrary: a c)
  case (Cons ev evs)
  then obtain a1 c1 where 1: "uprep_step cfg n w False chain ev (a, c) = Inr (a1, c1)" "foldres (uprep_step cfg n w False chain) evs (a1, c1) = Inr (b, d)"
    by (auto simp: bnd_eq_Inr)
  have "a1 = a \<or> (\<exists>x. a1 = fadd a x)"
    using 1(1) by (auto simp: uprep_step_def bnd_eq_Inr Let_def split: if_splits option.splits)
  then show ?case using Cons.IH [OF 1(2) Cons.prems(2)] fadd_finite by blast
qed simp

lemma uprep_folds:
  assumes "config_ok cfg" "floors_ok cfg" "rep_value w"
  shows "foldres (uprep_step cfg n w True chain) evs (a, c) = Inr (b, d) \<Longrightarrow> foldres (uprep_step cfg n w False chain) evs (a0, c) = Inr (b0, d0)
    \<Longrightarrow> \<forall>x \<in> set c. rep_value (snd x) \<Longrightarrow> fnonneg a \<Longrightarrow> fle a a0 \<Longrightarrow> fval a \<Longrightarrow> fisfinite b0
    \<Longrightarrow> fnonneg b \<and> fle b b0 \<and> fval b"
proof (induction evs arbitrary: a a0 c)
  case (Cons ev evs)
  then obtain a1 c1 a2 c2 where 1: "uprep_step cfg n w True chain ev (a, c) = Inr (a1, c1)" "foldres (uprep_step cfg n w True chain) evs (a1, c1) = Inr (b, d)"
    "uprep_step cfg n w False chain ev (a0, c) = Inr (a2, c2)" "foldres (uprep_step cfg n w False chain) evs (a2, c2) = Inr (b0, d0)"
    by (auto simp: bnd_eq_Inr)
  note s = uprep_step_pair [OF 1(1,3) assms Cons.prems(3)]
  have fin: "fisfinite a2" using fold_finite [OF 1(4)] Cons.prems(7) by blast
  have "fnonneg a1 \<and> fle a1 a2 \<and> fval a1"
  proof (cases "a1 = a \<and> a2 = a0")
    case False
    then obtain base v k t where x: "a1 = fadd a (fmul (fmul (fmul base v) k) t)" "a2 = fadd a0 base" "fval base" "rep_value base"
      "unit_interval v" "unit_interval k" "unit_interval t" using s by blast
    have b: "fisfinite base" using fin x(2) fadd_finite by blast
    then have b': "fnonneg base" using x(4) by (auto simp: rep_value_def)
    note v = unit_fmul [OF x(3) b' b x(5)]
    note k = unit_fmul [OF fval_fmul v [THEN conjunct1] v [THEN conjunct2, THEN conjunct2] x(6)]
    note t = unit_fmul [OF fval_fmul k [THEN conjunct1] k [THEN conjunct2, THEN conjunct2] x(7)]
    have "fle (fmul (fmul (fmul base v) k) t) base" using v k t fle_trans by blast
    then show ?thesis using x(1,2) t Cons.prems(4,5) by (simp add: fadd_mono2 fnonneg_fadd)
  qed (use Cons.prems in simp)
  then show ?case using Cons.IH [OF 1(2)] 1(4) s Cons.prems(7) by blast
qed simp


text \<open>What is documented of \<open>math.log2\<close>: it is nonnegative from 1 on.\<close>

definition log2_nonneg :: "libm \<Rightarrow> bool" where
  "log2_nonneg L \<longleftrightarrow> (\<forall>x. fle (Fin 1) x \<longrightarrow> fnonneg (log2 L x))"

lemma one_minus_penalty: "rep_value x \<Longrightarrow> unit_interval (fmax (Fin 0) (fsub (Fin 1) x))"
proof (cases x)
  case (Fin q)
  assume "rep_value x"
  with Fin have "fle (fl (1 - q)) (Fin 1)" using fl_mono [of "1 - q" 1] by (simp add: rep_value_def)
  then show ?thesis using Fin by (cases "fl (1 - q)") (auto simp: fmax_def fsub_def unit_interval_def)
qed (auto simp: rep_value_def fmax_def fsub_def)

lemma penalty_multiplier_unit:
  assumes "log2_nonneg L" "progressive_penalty_multiplier_for L cfg n chain r now = Inr k" shows "unit_interval k"
proof -
  have one: "rep_value (compute_rep_multiplier L r)"
  proof -
    have "fle (Fin 1) (fmax (Fin 1) r)" by (cases r) (auto simp: fmax_def fle_def)
    then have "fnonneg (log2 L (fmax (Fin 1) r))" using assms(1) by (simp add: log2_nonneg_def)
    then show ?thesis by (simp add: compute_rep_multiplier_def rep_value_def fnonneg_fadd)
  qed
  obtain th where th: "cfg_float cfg ''progressive_penalty_threshold'' = Inr th" using assms(2) by (auto simp: progressive_penalty_multiplier_for_def bnd_eq_Inr)
  consider "k = Fin 1" | s where "\<not> fle th (Fin 0)" "\<not> fle s th" "k = fmax (Fin 0) (fsub (Fin 1) (apply_progressive_penalty L (fsub s th) r))"
    using assms(2) th by (auto simp: progressive_penalty_multiplier_for_def bnd_eq_Inr split: if_splits)
  then show ?thesis
  proof cases
    case 2
    then have "rep_value (fsub s th)"
      by (cases s; cases th) (auto simp: rep_value_def fsub_def fnonneg_def fle_def [of PosInf] fle_def [of NegInf] intro: fl_nonneg)
    then have "rep_value (apply_progressive_penalty L (fsub s th) r)"
      using one by (simp add: apply_progressive_penalty_def rep_value_fmul)
    then show ?thesis unfolding 2(3) by (rule one_minus_penalty)
  qed simp
qed

text \<open>
  C16: the anti-gaming layer never raises a node's common reputation: whatever the chain, if the
  configuration is acceptable and its weight floors are numbers, the reputation computed with the
  correlation, clustering, burst and progressive penalties lies between 0 and the reputation computed
  without them, whenever the latter is finite.
\<close>

theorem penalties_only_lower:
  assumes "config_ok cfg" "floors_ok cfg" "log2_nonneg L"
    and "compute_common_rep L cfg n chain None True = Inr r" "compute_common_rep L cfg n chain None False = Inr r0" "fisfinite r0"
  shows "fle (Fin 0) r \<and> fle r r0"
proof -
  obtain w where w: "cfg_float cfg ''common_rep_weight_factor'' = Inr w" "w = NaN \<or> fle (fl 0.0) w \<and> fle w (fl 1.0)"
    using read_common_rep_weight_factor [OF assms(1)] by blast
  then have wv: "rep_value w" by (auto simp: rep_value_def fnonneg_def)
  obtain d0 where 0: "foldres (uprep_step cfg n w False chain) (events_of chain) (Fin 0, []) = Inr (r0, d0)"
    using assms(5) w(1) by (auto simp: compute_common_rep_def bnd_eq_Inr)
  obtain b d where 1: "foldres (uprep_step cfg n w True chain) (events_of chain) (Fin 0, []) = Inr (b, d)"
    and r: "r = b \<or> (\<exists>t k. progressive_penalty_multiplier_for L cfg n chain t None = Inr k \<and> r = fmul b k)"
    using assms(4) w(1) by (auto simp: compute_common_rep_def bnd_eq_Inr split: if_splits)
  have b: "fnonneg b \<and> fle b r0 \<and> fval b"
    by (rule uprep_folds [OF assms(1,2) wv 1 0]) (use assms(6) in \<open>simp_all add: fnonneg_def\<close>)
  then have fin: "fisfinite b" using assms(6) by (cases b; cases r0) auto
  show ?thesis
  proof (cases "r = b")
    case False
    then obtain t k where k: "progressive_penalty_multiplier_for L cfg n chain t None = Inr k" "r = fmul b k" using r by blast
    have "fnonneg r \<and> fle r b" using unit_fmul [OF _ _ fin penalty_multiplier_unit [OF assms(3) k(1)]] b k(2) by blast
    then show ?thesis using b fle_trans by (auto simp: fnonneg_def)
  qed (use b in \<open>simp add: fnonneg_def\<close>)
qed

lemma rep_example_uprep:
  "uprep_multipliers baseline_config ''a'' ''b'' (Fin 4) rep_example = Inr (Fin 1, Fin 1, Fin 1)"
proof -
  have e: "events_of rep_example \<noteq> []" by (simp add: rep_example_def)
  have w: "\<exists>w. decay_window_seconds baseline_config None = Inr w" by (simp add: decay_window_seconds_def cfg_simps)
  have up: "upreps_within_window (events_of rep_example) (Fin 4) w
      = Inr (if fle (fsub (Fin 4) w) (Fin 4) then [[(''event_type'', PStr ''uprep''), (''node_id'', PStr ''a''), (''timestamp'', PFloat (Fin 4)),
            (''payload'', PDict [(''target_node_id'', PStr ''b'')])]] else [])" for w
    by (simp add: upreps_within_window_def window_step_def rep_example_def ev_is_def float_or_zero_def py_or_def)
  have v: "compute_vcs baseline_config ''a'' ''b'' rep_example (Some (Fin 4)) None = Inr (Fin 1)"
    using e w by (auto simp: compute_vcs_def now_or_latest_def up vcs_step_def uprep_link_def payload_def cfg_simps)
  have c: "compute_clustering_coefficient baseline_config ''b'' rep_example (Some (Fin 4)) None = Inr (Fin 0)"
    using e w by (auto simp: compute_clustering_coefficient_def now_or_latest_def up voters_of_def uprep_link_def payload_def List.map_filter_def set_add_def)
  have k: "clustering_penalty baseline_config (Fin 0) = Inr (Fin 1)"
  proof -
    have "fle (fl (1/5)) (Fin 1)" using fl_unit [of "1/5"] by simp
    then show ?thesis by (cases "fl (1/5)") (auto simp: clustering_penalty_def cfg_simps fmax_def fsub_def)
  qed
  have b: "is_in_burst baseline_config ''b'' (Fin 4) rep_example = Inr False"
    by (simp add: is_in_burst_def cfg_simps rep_example_def ev_is_def payload_def float_or_zero_def py_or_def)
  show ?thesis by (simp add: uprep_multipliers_def v c k b temporal_multiplier_def)
qed

theorem penalties_only_lower_witness:
  "\<exists>r r0. compute_common_rep \<lparr>log2 = (\<lambda>_. Fin 0), pow = (\<lambda>_ _. Fin 1)\<rparr> baseline_config ''b'' rep_example None True = Inr r
     \<and> compute_common_rep \<lparr>log2 = (\<lambda>_. Fin 0), pow = (\<lambda>_ _. Fin 1)\<rparr> baseline_config ''b'' rep_example None False = Inr r0
     \<and> fle (Fin 0) r \<and> fle r r0"
proof -
  let ?L = "\<lparr>log2 = (\<lambda>_. Fin 0), pow = (\<lambda>_ _. Fin 1)\<rparr>" and ?B = "fmul (Fin 10) (fl (1/10))"
  have "fval (Fin 10)" using fval_fl [of 10] by simp
  then have "fisfinite ?B" using unit_fmul [of "Fin 10" "fl (1/10)"] unit_interval_fl [of "1/10"] by simp
  then obtain b where b: "?B = Fin b" by (rule fisfiniteE)
  then have "fadd (Fin 0) ?B = ?B" using fval_fmul [of "Fin 10" "fl (1/10)"] by (simp add: fl_exact in_range_def)
  then have fin: "fisfinite (fadd (Fin 0) ?B)" using b by simp
  have r0: "compute_common_rep ?L baseline_config ''b'' rep_example None False = Inr (fadd (Fin 0) ?B)"
    using rep_example_oracle_rep by (simp add: compute_common_rep_def cfg_simps rep_example_def uprep_step_def ev_is_def raw_payload_def py_or_def cached_oracle_rep_def Let_def)
  have f: "foldres (uprep_step baseline_config ''b'' (fl (1/10)) True rep_example) (events_of rep_example) (Fin 0, [])
      = Inr (fadd (Fin 0) (fmul (fmul (fmul ?B (Fin 1)) (Fin 1)) (Fin 1)), [(''a'', Fin 10)])"
    using rep_example_oracle_rep rep_example_uprep
    by (simp add: rep_example_def uprep_step_def ev_is_def raw_payload_def py_or_def cached_oracle_rep_def Let_def float_or_zero_def)
  have "progressive_penalty_multiplier_for ?L baseline_config ''b'' rep_example (Fin 0) None = Inr (Fin 1)"
    by (simp add: progressive_penalty_multiplier_for_def cfg_simps)
  then have "\<exists>r. compute_common_rep ?L baseline_config ''b'' rep_example None True = Inr r"
    using f by (simp add: compute_common_rep_def cfg_simps rep_example_oracle_rep_b)
  then obtain r where r: "compute_common_rep ?L baseline_config ''b'' rep_example None True = Inr r" by blast
  moreover have "floors_ok baseline_config" by (simp add: floors_ok_def cfg_simps)
  moreover have "log2_nonneg ?L" by (simp add: log2_nonneg_def)
  ultimately show ?thesis using penalties_only_lower [OF baseline_ok _ _ r r0 fin] r0 by blast
qed

subsection \<open>Decay only lowers the weight\<close>

text \<open>What is documented of \<open>pow\<close>: a base between 0 and 1 and a nonnegative exponent give a fraction.\<close>

definition pow_fraction :: "libm \<Rightarrow> bool" where
  "pow_fraction L \<longleftrightarrow> (\<forall>x k. flt (Fin 0) x \<longrightarrow> flt x (Fin 1) \<longrightarrow> fle (Fin 0) k \<longrightarrow> unit_interval (pow L x k))"


lemma floor_quotient_nonneg:
  assumes "fle (Fin 0) d" "0 < n" "fdiv d (Fin (of_int n)) = Inr q" "math_floor q = Inr p" "float_of_int p = Inr k"
  shows "fle (Fin 0) k"
proof -
  obtain x where x: "q = Fin x" using assms(4) by (cases q) auto
  obtain y where y: "d = Fin y" using assms(1,3) x by (cases d) (auto simp: inf_sgn_def split: if_splits)
  then have "Fin x = fl (y / of_int n)" "0 \<le> y" using assms(1,2,3) x by auto
  then have "0 \<le> x" using fl_nonneg [of "y / of_int n"] assms(2) by (metis fle_simps(1) divide_nonneg_pos of_int_0_less_iff)
  then have "0 \<le> p" using assms(4) x by auto
  then show ?thesis using assms(5) fl_nonneg [of "of_int p"] by (auto simp: float_of_int_def float_of_rat_exact_def split: if_splits)
qed

lemma decay_factor_unit:
  assumes "config_ok cfg" "pow_fraction L" "fle (Fin 0) d" "decay_factor_for_age L cfg (Some d) = Inr k"
  shows "unit_interval k"
proof -
  obtain n where n: "cfg_float cfg ''governance_decay_days'' = Inr (Fin (of_int n))" "7 \<le> n"
    using read_governance_decay_days [OF assms(1)] by blast
  consider "k = Fin 0" | "k = Fin 1" | x q p e where "flt (Fin 0) x" "flt x (Fin 1)" "fdiv d (Fin (of_int n)) = Inr q" "math_floor q = Inr p"
      "float_of_int p = Inr e" "k = pow L x e"
    using assms(4) n(1) by (auto simp: decay_factor_for_age_def bnd_eq_Inr split: if_splits)
  then show ?thesis
  proof cases
    case 3
    have "0 < n" using n(2) by simp
    from floor_quotient_nonneg [OF assms(3) this 3(3-5)] 3 assms(2) show ?thesis by (simp add: pow_fraction_def)
  qed simp_all
qed

lemma fmax_zero: "fle (Fin 0) (fmax (Fin 0) x)"
  by (cases x) (auto simp: fmax_def fle_def)

lemma oracle_rep_fval: "compute_oracle_rep cfg n chain = Inr r \<Longrightarrow> fval r"
  by (auto simp: compute_oracle_rep_def compute_oracle_rep_breakdown_def bnd_eq_Inr Let_def fsub_def)

text \<open>
  Governance weight is reputation, decayed: under an acceptable configuration the active weight of
  a node lies between 0 and its oracle reputation, it is 0 for a node without a successful prediction,
  and it is the whole reputation within the decay window of the configuration.
\<close>

theorem active_weight_bounded:
  assumes "config_ok cfg" "pow_fraction L" "compute_oracle_rep cfg n chain = Inr r" "fisfinite r"
    and "compute_oracle_rep_active L cfg n chain now = Inr w"
  shows "fle (Fin 0) w \<and> fle w r
    \<and> (last_successful_prediction_ts cfg n chain = Inr None \<longrightarrow> w = Fin 0)
    \<and> (\<forall>t d l. last_successful_prediction_ts cfg n chain = Inr (Some t) \<longrightarrow> fdiv (fsub now t) seconds_per_day = Inr d
         \<longrightarrow> cfg_float cfg ''governance_decay_days'' = Inr l \<longrightarrow> fle (fmax (Fin 0) d) l \<longrightarrow> w = r)"
proof -
  have r: "fnonneg r" "fval r" using oracle_rep_value [OF assms(3)] oracle_rep_fval [OF assms(3)] assms(4) by (auto simp: rep_value_def)
  show ?thesis
  proof (cases "fle r (Fin 0)")
    case True
    then have "w = Fin 0" "r = Fin 0" using assms(3,5) r(1) assms(4) by (auto simp: compute_oracle_rep_active_def fnonneg_def elim!: fisfiniteE)
    then show ?thesis by simp
  next
    case False
    then obtain l where l: "last_successful_prediction_ts cfg n chain = Inr l" using assms(3,5) by (auto simp: compute_oracle_rep_active_def bnd_eq_Inr)
    show ?thesis
    proof (cases l)
      case None
      then have "w = Fin 0" using assms(3,5) False l by (simp add: compute_oracle_rep_active_def)
      then show ?thesis using l None r(1) by (simp add: fnonneg_def)
    next
      case (Some t)
      then obtain d k where k: "fdiv (fsub now t) seconds_per_day = Inr d" "decay_factor_for_age L cfg (Some (fmax (Fin 0) d)) = Inr k" "w = fmul r k"
        using assms(3,5) False l by (auto simp: compute_oracle_rep_active_def bnd_eq_Inr)
      have b: "fnonneg w \<and> fle w r" using unit_fmul [OF r(2,1) assms(4) decay_factor_unit [OF assms(1,2) fmax_zero k(2)]] k(3) by simp
      have "w = r" if "cfg_float cfg ''governance_decay_days'' = Inr c" "fle (fmax (Fin 0) d) c" for c
      proof -
        have "k = Fin 1" using k(2) that by (auto simp: decay_factor_for_age_def bnd_eq_Inr split: if_splits)
        then show ?thesis using k(3) r(2) assms(4) by (auto simp: fl_exact in_range_def elim!: fisfiniteE)
      qed
      then show ?thesis using b l Some k(1) by (auto simp: fnonneg_def)
    qed
  qed
qed

lemma rep_example_last: "last_successful_prediction_ts baseline_config ''a'' rep_example = Inr (Some (Fin 3))"
proof -
  have "md_market_id rep_example_market = ''m''" "finalize_ts rep_example_market = Fin 3"
    "predictions rep_example_market = [\<lparr>p_node_id = PStr ''a'', p_side = PStr ''yes'', p_stake_amount = PFloat (Fin 10), p_probability = PNone, p_timestamp = PFloat (Fin 2)\<rparr>]"
    by (simp_all add: rep_example_market_def)
  then show ?thesis using rep_example_mintable
    by (simp add: last_successful_prediction_ts_def rep_example_events rep_example_index rep_example_undisputed success_step_def py_or_def Let_def fmax_def)
qed

theorem active_weight_bounded_witness:
  "compute_oracle_rep_active \<lparr>log2 = (\<lambda>_. Fin 0), pow = (\<lambda>_ _. Fin 1)\<rparr> baseline_config ''a'' rep_example (Fin 3) = Inr (Fin 10)"
proof -
  let ?L = "\<lparr>log2 = (\<lambda>_. Fin 0), pow = (\<lambda>_ _. Fin 1)\<rparr>"
  have k: "fdiv (fsub (Fin 3) (Fin 3)) seconds_per_day = Inr (Fin 0)" "fle (fmax (Fin 0) (Fin 0)) (Fin 90)" by (simp_all add: fsub_def seconds_per_day_def fmax_def)
  have "\<exists>k. decay_factor_for_age ?L baseline_config (Some (fmax (Fin 0) (Fin 0))) = Inr k"
    by (simp add: decay_factor_for_age_def cfg_simps fmax_def)
  then obtain w where w: "compute_oracle_rep_active ?L baseline_config ''a'' rep_example (Fin 3) = Inr w"
    using rep_example_oracle_rep rep_example_last k by (auto simp: compute_oracle_rep_active_def)
  have "pow_fraction ?L" by (simp add: pow_fraction_def)
  from active_weight_bounded [OF baseline_ok this rep_example_oracle_rep _ w] k rep_example_last w show ?thesis by (simp add: cfg_simps)
qed

end
