(* ===== verification/Gate_State.thy ===== *)
theory Gate_State
  imports Common_Rep
begin

text \<open>
  \<open>services/infonet/gates/state.py\<close>, \<open>sacrifice.py\<close> and \<open>ratification.py\<close>: the events of a gate,
  its members, who may enter and at what cost, and when a gate is ratified. A Python set
  is a set; the order in which a set is iterated is a parameter where the code depends on it.
\<close>

subsection \<open>Events and metadata\<close>

definition gate_id_of :: "pydict \<Rightarrow> string" where
  "gate_id_of ev = (case py_or (get (payload ev) ''gate_id'') (get (payload ev) ''gate'') of PStr s \<Rightarrow> s | _ \<Rightarrow> [])"

definition events_for_gate :: "string \<Rightarrow> chain \<Rightarrow> pydict list res" where
  "events_for_gate gate_id chain =
     bnd (sort_events (filter (\<lambda>ev. gate_id_of ev = gate_id) (events_of chain))) (\<lambda>keyed. Inr (map snd keyed))"

record gate_meta =
  gm_gate_id :: string
  creator_node_id :: string
  display_name :: string
  entry_sacrifice :: int
  min_overall_rep :: int
  min_gate_rep :: "(string \<times> int) list"
  gm_created_at :: pyfloat
  raw_rules :: pydict

definition gate_int :: "pyval \<Rightarrow> int res" where
  "gate_int v = (if is_bool v then Inr 0 else catching type_or_value (py_int v) (Inr 0))"

definition dict_or_empty :: "pyval \<Rightarrow> pydict" where
  "dict_or_empty v = (case v of PDict d \<Rightarrow> d | _ \<Rightarrow> [])"

definition read_gate_meta :: "string \<Rightarrow> pydict \<Rightarrow> gate_meta res" where
  "read_gate_meta gate_id ev =
     (let p = payload ev; rules = dict_or_empty (get p ''rules''); cross_gate = dict_or_empty (get rules ''min_gate_rep'') in
      bnd (gate_int (get rules ''entry_sacrifice'')) (\<lambda>sacrifice.
      bnd (gate_int (get rules ''min_overall_rep'')) (\<lambda>overall.
      bnd (mapres (\<lambda>(k, v). bnd (gate_int v) (\<lambda>n. Inr (k, n))) (filter (\<lambda>(k, v). k \<noteq> []) cross_gate)) (\<lambda>cross.
      bnd (py_float (py_or (get ev ''timestamp'') (PFloat (Fin 0)))) (\<lambda>t.
        Inr \<lparr>gm_gate_id = gate_id, creator_node_id = py_str (py_or (get ev ''node_id'') (PStr [])),
             display_name = py_str (py_or (get p ''display_name'') (PStr [])), entry_sacrifice = sacrifice, min_overall_rep = overall,
             min_gate_rep = cross, gm_created_at = t, raw_rules = rules\<rparr>)))))"

definition get_gate_meta :: "string \<Rightarrow> chain \<Rightarrow> gate_meta option res" where
  "get_gate_meta gate_id chain =
     (case find (\<lambda>ev. ev_is ''gate_create'' ev \<and> gate_id_of ev = gate_id) (events_of chain) of
        None \<Rightarrow> Inr None
      | Some ev \<Rightarrow> bnd (read_gate_meta gate_id ev) (\<lambda>m. Inr (Some m)))"

subsection \<open>Members\<close>

definition member_step :: "pydict \<Rightarrow> string set \<times> bool \<Rightarrow> string set \<times> bool" where
  "member_step ev = (\<lambda>(members, shutdown_seen).
     if ev_is ''gate_shutdown_execute'' ev then ({}, True)
     else case nonempty_str (get ev ''node_id'') of
         None \<Rightarrow> (members, shutdown_seen)
       | Some node \<Rightarrow>
           if ev_is ''gate_enter'' ev then (if shutdown_seen then members else insert node members, shutdown_seen)
           else if ev_is ''gate_exit'' ev then (members - {node}, shutdown_seen)
           else (members, shutdown_seen))"

definition compute_member_set :: "string \<Rightarrow> chain \<Rightarrow> string set res" where
  "compute_member_set gate_id chain =
     bnd (events_for_gate gate_id chain) (\<lambda>events. Inr (fst (fold member_step events ({}, False))))"

definition is_member :: "string \<Rightarrow> string \<Rightarrow> chain \<Rightarrow> bool res" where
  "is_member node_id gate_id chain = bnd (compute_member_set gate_id chain) (\<lambda>ms. Inr (node_id \<in> ms))"

subsection \<open>Entry\<close>

text \<open>\<open>f"{x:.4f}"\<close>: the value rounded half-even to four decimals\<close>

fun fixed4 :: "pyfloat \<Rightarrow> string" where
  "fixed4 (Fin q) = (let n = rnd_even (\<bar>q\<bar> * 10000); d = int_str (n mod 10000) in
     (if q < 0 then ''-'' else []) @ int_str (n div 10000) @ ''.'' @ replicate (4 - length d) (CHR ''0'') @ d)"
| "fixed4 PosInf = ''inf''" | "fixed4 NegInf = ''-inf''" | "fixed4 NaN = ''nan''"

record entry_refusal =
  er_kind :: string
  er_detail :: string

record entry_decision =
  ed_accepted :: bool
  ed_cost :: int
  ed_refusals :: "entry_refusal list"

text \<open>\<open>x < n\<close> for a float and an int\<close>

definition below_int :: "pyfloat \<Rightarrow> int \<Rightarrow> bool" where
  "below_int x n = flt x (Fin (of_int n))"

definition by_member :: "string set \<Rightarrow> pydict \<Rightarrow> bool res" where
  "by_member members ev = (if \<not> ev_is ''uprep'' ev then Inr True
     else if \<not> hashable (get ev ''node_id'') then Inl TypeError
     else Inr (case get ev ''node_id'' of PStr a \<Rightarrow> a \<in> members | _ \<Rightarrow> False))"

definition compute_gate_rep :: "libm \<Rightarrow> pydict \<Rightarrow> string \<Rightarrow> string \<Rightarrow> chain \<Rightarrow> pyfloat res" where
  "compute_gate_rep L cfg node_id gate_id chain =
     bnd (compute_member_set gate_id chain) (\<lambda>members.
       if members = {} then Inr (Fin 0)
       else bnd (mapres (\<lambda>ev. bnd (by_member members ev) (\<lambda>b. Inr (b, ev))) (events_of chain)) (\<lambda>flagged.
            compute_common_rep L cfg node_id (map (\<lambda>(b, ev). PDict ev) (filter fst flagged)) None True))"

definition gate_rep_refusals :: "libm \<Rightarrow> pydict \<Rightarrow> string \<Rightarrow> chain \<Rightarrow> string \<times> int \<Rightarrow> entry_refusal list \<Rightarrow> entry_refusal list res" where
  "gate_rep_refusals L cfg node_id chain = (\<lambda>(required_gate, min_rep) refusals.
     bnd (compute_gate_rep L cfg node_id required_gate chain) (\<lambda>gate_rep.
       Inr (if below_int gate_rep min_rep
            then refusals @ [\<lparr>er_kind = ''insufficient_gate_rep'',
                   er_detail = ''gate '' @ required_gate @ '': have '' @ fixed4 gate_rep @ '', need '' @ int_str min_rep\<rparr>]
            else refusals)))"

definition common_rep_refusals :: "gate_meta \<Rightarrow> pyfloat \<Rightarrow> entry_refusal list" where
  "common_rep_refusals meta common_rep =
     (let needed = min_overall_rep meta + entry_sacrifice meta in
      if below_int common_rep needed
      then [\<lparr>er_kind = ''insufficient_common_rep'',
             er_detail = ''have '' @ fixed4 common_rep @ '', need '' @ int_str needed @ '' (min_overall_rep '' @ int_str (min_overall_rep meta)
               @ '' + entry_sacrifice '' @ int_str (entry_sacrifice meta) @ '')''\<rparr>]
      else [])"

definition refuse :: "string \<Rightarrow> string \<Rightarrow> entry_decision" where
  "refuse k d = \<lparr>ed_accepted = False, ed_cost = 0, ed_refusals = [\<lparr>er_kind = k, er_detail = d\<rparr>]\<rparr>"

definition can_enter :: "libm \<Rightarrow> pydict \<Rightarrow> string \<Rightarrow> string \<Rightarrow> chain \<Rightarrow> entry_decision res" where
  "can_enter L cfg node_id gate_id chain =
     bnd (get_gate_meta gate_id chain) (\<lambda>m. case m of
       None \<Rightarrow> Inr (refuse ''gate_not_found'' gate_id)
     | Some meta \<Rightarrow> bnd (is_member node_id gate_id chain) (\<lambda>already.
         if already then Inr (refuse ''already_member'' gate_id)
         else bnd (compute_common_rep L cfg node_id chain None True) (\<lambda>common_rep.
              bnd (foldres (gate_rep_refusals L cfg node_id chain) (min_gate_rep meta) (common_rep_refusals meta common_rep)) (\<lambda>refusals.
                Inr \<lparr>ed_accepted = (refusals = []), ed_cost = (if refusals = [] then entry_sacrifice meta else 0), ed_refusals = refusals\<rparr>))))"

subsection \<open>Ratification\<close>

text \<open>\<open>set_order\<close> lists the elements of a set in the order Python iterates it.\<close>

definition cumulative_member_oracle_rep :: "(string set \<Rightarrow> string list) \<Rightarrow> pydict \<Rightarrow> string \<Rightarrow> chain \<Rightarrow> pyfloat res" where
  "cumulative_member_oracle_rep set_order cfg gate_id chain =
     bnd (compute_member_set gate_id chain) (\<lambda>members.
     bnd (mapres (\<lambda>m. compute_oracle_rep cfg m chain) (set_order members)) (\<lambda>reps. Inr (fsum reps)))"

definition is_ratified :: "(string set \<Rightarrow> string list) \<Rightarrow> pydict \<Rightarrow> string \<Rightarrow> chain \<Rightarrow> bool res" where
  "is_ratified set_order cfg gate_id chain =
     bnd (cumulative_member_oracle_rep set_order cfg gate_id chain) (\<lambda>total.
     bnd (cfg_int cfg ''gate_ratification_rep'') (\<lambda>n.
     bnd (float_of_int n) (\<lambda>threshold. Inr (fle threshold total))))"

subsection \<open>Membership as a state machine\<close>

text \<open>
  The abstract gate is open with a set of members, or closed for good. An event of the gate moves it:
  entering and leaving act on an open gate only, an executed shutdown closes it.
\<close>

datatype gate = Open "string set" | Closed

definition enters :: "string \<Rightarrow> pydict \<Rightarrow> bool" where
  "enters n ev \<longleftrightarrow> ev_is ''gate_enter'' ev \<and> nonempty_str (get ev ''node_id'') = Some n"

definition leaves :: "string \<Rightarrow> pydict \<Rightarrow> bool" where
  "leaves n ev \<longleftrightarrow> ev_is ''gate_exit'' ev \<and> nonempty_str (get ev ''node_id'') = Some n"

definition closes :: "pydict \<Rightarrow> bool" where
  "closes ev \<longleftrightarrow> ev_is ''gate_shutdown_execute'' ev"

inductive gate_move :: "gate \<Rightarrow> pydict \<Rightarrow> gate \<Rightarrow> bool" where
  enter: "enters n ev \<Longrightarrow> gate_move (Open ms) ev (Open (insert n ms))"
| leave: "leaves n ev \<Longrightarrow> gate_move (Open ms) ev (Open (ms - {n}))"
| shut: "closes ev \<Longrightarrow> gate_move g ev Closed"
| closed: "gate_move Closed ev Closed"
| other: "(\<And>n. \<not> enters n ev \<and> \<not> leaves n ev) \<Longrightarrow> \<not> closes ev \<Longrightarrow> gate_move g ev g"

inductive gate_run :: "gate \<Rightarrow> pydict list \<Rightarrow> gate \<Rightarrow> bool" where
  start: "gate_run g [] g"
| step: "gate_move g ev g' \<Longrightarrow> gate_run g' evs g'' \<Longrightarrow> gate_run g (ev # evs) g''"

inductive_cases gate_run_NilE [elim!]: "gate_run g [] g'"
inductive_cases gate_run_ConsE: "gate_run g (ev # evs) g'"
inductive_simps gate_move_Open: "gate_move (Open ms) ev g'"
inductive_simps gate_move_Closed: "gate_move Closed ev g'"

fun gate_members :: "gate \<Rightarrow> string set" where
  "gate_members (Open ms) = ms" | "gate_members Closed = {}"

fun gate_state :: "string set \<times> bool \<Rightarrow> gate" where
  "gate_state (ms, shut) = (if shut then Closed else Open ms)"

lemma ev_is_unique: "ev_is a ev \<Longrightarrow> ev_is b ev \<Longrightarrow> a = b"
  by (simp add: ev_is_def)

lemma member_step_enter: "enters n ev \<Longrightarrow> member_step ev (ms, shut) = (if shut then ms else insert n ms, shut)"
  by (auto simp: member_step_def enters_def dest: ev_is_unique)

lemma member_step_leave: "leaves n ev \<Longrightarrow> member_step ev (ms, shut) = (ms - {n}, shut)"
  by (auto simp: member_step_def leaves_def dest: ev_is_unique)

lemma member_step_other:
  assumes "\<not> closes ev" "\<And>n. \<not> enters n ev \<and> \<not> leaves n ev" shows "member_step ev (ms, shut) = (ms, shut)"
proof (cases "nonempty_str (get ev ''node_id'')")
  case (Some n)
  then show ?thesis using assms(1) assms(2) [of n] by (simp add: member_step_def enters_def leaves_def closes_def)
qed (use assms(1) in \<open>simp add: member_step_def closes_def\<close>)

lemma member_step_moves:
  assumes "shut \<longrightarrow> ms = {}"
  shows "gate_move (gate_state (ms, shut)) ev (gate_state (member_step ev (ms, shut)))
    \<and> (snd (member_step ev (ms, shut)) \<longrightarrow> fst (member_step ev (ms, shut)) = {})"
proof -
  consider "closes ev" | n where "enters n ev" "\<not> closes ev" | n where "leaves n ev" "\<not> closes ev"
    | "\<not> closes ev" "\<And>n. \<not> enters n ev \<and> \<not> leaves n ev" by blast
  then show ?thesis
  proof cases
    case 1
    then show ?thesis by (simp add: member_step_def closes_def gate_move.shut)
  next
    case (2 n)
    then show ?thesis using assms member_step_enter [OF 2(1)] by (cases shut) (simp_all add: gate_move.enter gate_move.closed)
  next
    case (3 n)
    then show ?thesis using assms member_step_leave [OF 3(1)] by (cases shut) (simp_all add: gate_move.leave gate_move.closed)
  next
    case 4
    then show ?thesis using assms member_step_other [OF 4] by (simp add: gate_move.other)
  qed
qed

lemma member_fold_runs:
  "(shut \<longrightarrow> ms = {}) \<Longrightarrow> gate_run (gate_state (ms, shut)) evs (gate_state (fold member_step evs (ms, shut)))
     \<and> (snd (fold member_step evs (ms, shut)) \<longrightarrow> fst (fold member_step evs (ms, shut)) = {})"
proof (induction evs arbitrary: ms shut)
  case (Cons ev evs)
  obtain ms1 shut1 where s: "member_step ev (ms, shut) = (ms1, shut1)" by fastforce
  from member_step_moves [OF Cons.prems, of ev] s have "gate_move (gate_state (ms, shut)) ev (gate_state (ms1, shut1))" "shut1 \<longrightarrow> ms1 = {}" by simp_all
  then show ?case using Cons.IH [of shut1 ms1] s by (simp add: gate_run.step)
qed (simp add: gate_run.start)

lemma gate_run_closed: "gate_run Closed evs g \<Longrightarrow> g = Closed"
  by (induction evs) (auto elim!: gate_run_ConsE simp: gate_move_Closed)

text \<open>The last of the node's enter and exit events is an enter event.\<close>

definition last_entered :: "string \<Rightarrow> pydict list \<Rightarrow> bool" where
  "last_entered n evs \<longleftrightarrow> (\<exists>pre ev post. evs = pre @ ev # post \<and> enters n ev \<and> \<not> (\<exists>x \<in> set post. leaves n x))"

lemma last_entered_snoc:
  "last_entered n (evs @ [e]) \<longleftrightarrow> enters n e \<or> \<not> leaves n e \<and> last_entered n evs"
proof
  assume "last_entered n (evs @ [e])"
  then obtain pre ev post where 1: "evs @ [e] = pre @ ev # post" "enters n ev" "\<not> (\<exists>x \<in> set post. leaves n x)" by (auto simp: last_entered_def)
  show "enters n e \<or> \<not> leaves n e \<and> last_entered n evs"
  proof (cases post rule: rev_cases)
    case (snoc post' x)
    then have "evs = pre @ ev # post'" "x = e" using 1(1) by auto
    then show ?thesis using 1 snoc by (auto simp: last_entered_def)
  qed (use 1 in auto)
next
  assume "enters n e \<or> \<not> leaves n e \<and> last_entered n evs"
  then show "last_entered n (evs @ [e])"
  proof (elim disjE conjE)
    assume "enters n e"
    then show ?thesis unfolding last_entered_def by (intro exI [of _ evs] exI [of _ e] exI [of _ "[]"]) simp
  next
    assume l: "\<not> leaves n e" "last_entered n evs"
    then obtain pre ev post where "evs = pre @ ev # post" "enters n ev" "\<not> (\<exists>x \<in> set post. leaves n x)" by (auto simp: last_entered_def)
    then show ?thesis using l(1) unfolding last_entered_def by (intro exI [of _ pre] exI [of _ ev] exI [of _ "post @ [e]"]) auto
  qed
qed

lemma member_fold:
  "(snd (fold member_step evs ({}, False)) \<longleftrightarrow> (\<exists>ev \<in> set evs. closes ev))
   \<and> (n \<in> fst (fold member_step evs ({}, False)) \<longleftrightarrow> \<not> (\<exists>ev \<in> set evs. closes ev) \<and> last_entered n evs)"
proof (induction evs rule: rev_induct)
  case Nil
  then show ?case by (simp add: last_entered_def)
next
  case (snoc e evs)
  obtain ms shut where f: "fold member_step evs ({}, False) = (ms, shut)" by fastforce
  have run: "shut \<longrightarrow> ms = {}" using member_fold_runs [of False "{}" evs] f by simp
  have ih: "shut \<longleftrightarrow> (\<exists>ev \<in> set evs. closes ev)" "n \<in> ms \<longleftrightarrow> \<not> shut \<and> last_entered n evs" using snoc f by simp_all
  have goal: ?case if "snd (member_step e (ms, shut)) \<longleftrightarrow> shut \<or> closes e"
    "n \<in> fst (member_step e (ms, shut)) \<longleftrightarrow> \<not> (shut \<or> closes e) \<and> (enters n e \<or> \<not> leaves n e \<and> last_entered n evs)"
    using that ih(1) by (simp add: f last_entered_snoc bex_Un disj_commute)
  consider "closes e" | m where "enters m e" "\<not> closes e" | m where "leaves m e" "\<not> closes e"
    | "\<not> closes e" "\<And>m. \<not> enters m e \<and> \<not> leaves m e" by blast
  then show ?case
  proof cases
    case 1
    then show ?thesis by (intro goal) (simp_all add: member_step_def closes_def)
  next
    case (2 m)
    then have "\<not> leaves n e" "enters n e \<longleftrightarrow> n = m" by (auto simp: enters_def leaves_def dest: ev_is_unique)
    then show ?thesis using 2 member_step_enter [OF 2(1)] ih(2) run by (intro goal) (cases shut; simp)+
  next
    case (3 m)
    then have "\<not> enters n e" "leaves n e \<longleftrightarrow> n = m" by (auto simp: enters_def leaves_def dest: ev_is_unique)
    then show ?thesis using 3 member_step_leave [OF 3(1)] ih(2) by (intro goal) (cases "n = m"; simp)+
  next
    case 4
    then show ?thesis using member_step_other [OF 4] ih(2) by (intro goal) simp_all
  qed
qed

text \<open>
  C17: the member set of a gate refines the abstract gate: the set computed from the chain is the set of
  members in which a run of the gate's events, in chain order, from an open gate without members ends.
  So a node is a member exactly if no shutdown of the gate was executed and the last of its enter and
  exit events is an enter event, and a gate that was shut down has no members ever after.
\<close>

theorem membership_refines_gate:
  assumes "compute_member_set gate_id chain = Inr members"
  shows "\<exists>evs g. events_for_gate gate_id chain = Inr evs \<and> gate_run (Open {}) evs g \<and> members = gate_members g
    \<and> (\<forall>n. n \<in> members \<longleftrightarrow> \<not> (\<exists>ev \<in> set evs. closes ev) \<and> last_entered n evs)"
proof -
  obtain evs where e: "events_for_gate gate_id chain = Inr evs" "members = fst (fold member_step evs ({}, False))"
    using assms by (auto simp: compute_member_set_def bnd_eq_Inr)
  obtain ms shut where f: "fold member_step evs ({}, False) = (ms, shut)" by fastforce
  have "gate_run (Open {}) evs (gate_state (ms, shut))" "shut \<longrightarrow> ms = {}" using member_fold_runs [of False "{}" evs] f by simp_all
  moreover have "members = gate_members (gate_state (ms, shut))" using calculation(2) e(2) f by simp
  ultimately show ?thesis using e member_fold [of evs] by blast
qed

theorem membership_refines_gate_witness:
  "\<exists>g. gate_run (Open {}) [[(''event_type'', PStr ''gate_enter''), (''node_id'', PStr ''a''), (''payload'', PDict [(''gate_id'', PStr ''g'')])],
          [(''event_type'', PStr ''gate_exit''), (''node_id'', PStr ''a''), (''payload'', PDict [(''gate_id'', PStr ''g'')])]] g
     \<and> gate_members g = {}"
proof -
  let ?c = "[PDict [(''event_type'', PStr ''gate_enter''), (''node_id'', PStr ''a''), (''payload'', PDict [(''gate_id'', PStr ''g'')])],
    PDict [(''event_type'', PStr ''message'')],
    PDict [(''event_type'', PStr ''gate_exit''), (''node_id'', PStr ''a''), (''payload'', PDict [(''gate_id'', PStr ''g'')])]]"
  have e: "events_for_gate ''g'' ?c = Inr [[(''event_type'', PStr ''gate_enter''), (''node_id'', PStr ''a''), (''payload'', PDict [(''gate_id'', PStr ''g'')])],
          [(''event_type'', PStr ''gate_exit''), (''node_id'', PStr ''a''), (''payload'', PDict [(''gate_id'', PStr ''g'')])]]"
    by (simp add: events_for_gate_def gate_id_of_def payload_def py_or_def sort_events_def sort_key_def key_lt_def)
  then have "compute_member_set ''g'' ?c = Inr {}" by (simp add: compute_member_set_def member_step_def ev_is_def)
  from membership_refines_gate [OF this] e show ?thesis by auto
qed

end
