(* ===== verification/Gate_Locking.thy ===== *)
theory Gate_Locking
  imports Gate_State
begin

text \<open>
  \<open>services/infonet/gates/locking.py\<close>: the lock contributions of the members of a gate, when the gate
  is locked, and the check a member runs before locking.
\<close>

subsection \<open>The code\<close>

record locked_gate_state =
  lg_locked :: bool
  lg_locked_at :: "pyfloat option"
  lg_locked_by :: "string list"

text \<open>\<open>float(v or 0.0)\<close> inside \<open>try\<close>, then \<open>math.isfinite\<close>\<close>

definition finite_or_skip :: "pyval \<Rightarrow> pyfloat option res" where
  "finite_or_skip v = bnd (catching type_value_overflow (bnd (py_float (py_or v (PFloat (Fin 0)))) (\<lambda>f. Inr (Some f))) (Inr None)) (\<lambda>r.
     Inr (case r of Some f \<Rightarrow> if fisfinite f then Some f else None | None \<Rightarrow> None))"

definition lock_step :: "pydict \<Rightarrow> string set \<Rightarrow> pydict \<Rightarrow> (string \<times> pyfloat) list \<Rightarrow> (string \<times> pyfloat) list res" where
  "lock_step cfg members ev out =
     (if \<not> ev_is ''gate_lock'' ev then Inr out
      else case nonempty_str (get ev ''node_id'') of
          None \<Rightarrow> Inr out
        | Some node \<Rightarrow>
            if node \<in> fst ` set out \<or> node \<notin> members then Inr out
            else bnd (finite_or_skip (get (payload ev) ''lock_cost'')) (\<lambda>p. case p of
                None \<Rightarrow> Inr out
              | Some paid \<Rightarrow> bnd (cfg_int cfg ''gate_lock_cost_per_member'') (\<lambda>c. bnd (float_of_int c) (\<lambda>cost.
                  if flt paid cost then Inr out
                  else bnd (finite_or_skip (get ev ''timestamp'')) (\<lambda>t. case t of
                      None \<Rightarrow> Inr out
                    | Some timestamp \<Rightarrow> Inr (out @ [(node, timestamp)]))))))"

definition collect_lock_contributions :: "pydict \<Rightarrow> string \<Rightarrow> chain \<Rightarrow> (string \<times> pyfloat) list res" where
  "collect_lock_contributions cfg gate_id chain =
     bnd (compute_member_set gate_id chain) (\<lambda>members.
     bnd (events_for_gate gate_id chain) (\<lambda>events. foldres (lock_step cfg members) events []))"

text \<open>\<open>xs[i]\<close>, counting from the end for a negative index\<close>

definition py_index :: "'a list \<Rightarrow> int \<Rightarrow> 'a res" where
  "py_index xs i = (let j = (if i < 0 then i + int (length xs) else i) in
     if 0 \<le> j \<and> j < int (length xs) then Inr (xs ! nat j) else Inl IndexError)"

definition lock_state :: "pydict \<Rightarrow> string \<Rightarrow> chain \<Rightarrow> locked_gate_state res" where
  "lock_state cfg gate_id chain =
     bnd (collect_lock_contributions cfg gate_id chain) (\<lambda>contributions.
     bnd (cfg_int cfg ''gate_lock_min_members'') (\<lambda>n.
       if int (length contributions) < n then Inr \<lparr>lg_locked = False, lg_locked_at = None, lg_locked_by = []\<rparr>
       else let sorted = sort_by (\<lambda>a b. flt (snd a) (snd b)) contributions in
         bnd (py_index sorted (n - 1)) (\<lambda>c.
           Inr \<lparr>lg_locked = True, lg_locked_at = Some (snd c), lg_locked_by = map fst sorted\<rparr>)))"

definition is_locked :: "pydict \<Rightarrow> string \<Rightarrow> chain \<Rightarrow> bool res" where
  "is_locked cfg gate_id chain = bnd (lock_state cfg gate_id chain) (\<lambda>s. Inr (lg_locked s))"

definition locked_at :: "pydict \<Rightarrow> string \<Rightarrow> chain \<Rightarrow> pyfloat option res" where
  "locked_at cfg gate_id chain = bnd (lock_state cfg gate_id chain) (\<lambda>s. Inr (lg_locked_at s))"

definition locked_by :: "pydict \<Rightarrow> string \<Rightarrow> chain \<Rightarrow> string list res" where
  "locked_by cfg gate_id chain = bnd (lock_state cfg gate_id chain) (\<lambda>s. Inr (lg_locked_by s))"

record lock_validation =
  lv_accepted :: bool
  lv_reason :: string
  lv_cost :: int

definition validate_lock_request :: "pydict \<Rightarrow> string \<Rightarrow> string \<Rightarrow> chain \<Rightarrow> pyval \<Rightarrow> lock_validation res" where
  "validate_lock_request cfg node_id gate_id chain lock_cost =
     bnd (catching type_value_overflow
            (bnd (if lock_cost = PNone then cfg_int cfg ''gate_lock_cost_per_member'' else py_int lock_cost) (\<lambda>c. Inr (Some c)))
            (Inr None)) (\<lambda>r. case r of
       None \<Rightarrow> Inr \<lparr>lv_accepted = False, lv_reason = ''invalid_lock_cost'', lv_cost = 0\<rparr>
     | Some cost \<Rightarrow>
         bnd (cfg_int cfg ''gate_lock_cost_per_member'') (\<lambda>min_cost.
         if cost < min_cost then Inr \<lparr>lv_accepted = False, lv_reason = ''lock_cost_below_min'', lv_cost = cost\<rparr>
         else bnd (compute_member_set gate_id chain) (\<lambda>members.
         if node_id \<notin> members then Inr \<lparr>lv_accepted = False, lv_reason = ''not_a_member'', lv_cost = cost\<rparr>
         else bnd (collect_lock_contributions cfg gate_id chain) (\<lambda>cs.
           Inr (if node_id \<in> fst ` set cs then \<lparr>lv_accepted = False, lv_reason = ''already_locked_by_node'', lv_cost = cost\<rparr>
                else \<lparr>lv_accepted = True, lv_reason = ''ok'', lv_cost = cost\<rparr>)))))"

subsection \<open>When a gate is locked\<close>

text \<open>The events that count for a node: a lock it signed, paid in full, at a finite time.\<close>

definition valid_lock :: "pyfloat \<Rightarrow> string \<Rightarrow> pydict \<Rightarrow> bool" where
  "valid_lock cost node ev \<longleftrightarrow> ev_is ''gate_lock'' ev \<and> nonempty_str (get ev ''node_id'') = Some node
     \<and> (\<exists>paid. finite_or_skip (get (payload ev) ''lock_cost'') = Inr (Some paid) \<and> \<not> flt paid cost)
     \<and> (\<exists>t. finite_or_skip (get ev ''timestamp'') = Inr (Some t))"

definition lockers :: "pyfloat \<Rightarrow> string set \<Rightarrow> pydict list \<Rightarrow> string set" where
  "lockers cost members evs = {node \<in> members. \<exists>ev \<in> set evs. valid_lock cost node ev}"

lemma finite_or_skip_finite: "finite_or_skip v = Inr (Some t) \<Longrightarrow> fisfinite t"
  by (auto simp: finite_or_skip_def bnd_eq_Inr split: option.splits if_splits)

definition contributions_ok :: "(string \<times> pyfloat) list \<Rightarrow> bool" where
  "contributions_ok out \<longleftrightarrow> distinct (map fst out) \<and> (\<forall>c \<in> set out. fisfinite (snd c))"

lemma lock_step_adds:
  assumes "lock_step cfg members ev out = Inr out'" "cfg_int cfg ''gate_lock_cost_per_member'' = Inr c" "float_of_int c = Inr cost"
  shows "fst ` set out' = fst ` set out \<union> lockers cost members [ev] \<and> (contributions_ok out \<longrightarrow> contributions_ok out')"
proof (cases "ev_is ''gate_lock'' ev \<and> (\<exists>node. nonempty_str (get ev ''node_id'') = Some node)")
  case False
  then have "out' = out" using assms(1) by (auto simp: lock_step_def split: if_splits option.splits)
  moreover have "lockers cost members [ev] = {}" using False by (auto simp: lockers_def valid_lock_def)
  ultimately show ?thesis by simp
next
  case True
  then obtain node where node: "nonempty_str (get ev ''node_id'') = Some node" by blast
  have l: "lockers cost members [ev] = (if node \<in> members \<and> valid_lock cost node ev then {node} else {})"
    using node by (auto simp: lockers_def valid_lock_def)
  show ?thesis
  proof (cases "node \<in> fst ` set out \<or> node \<notin> members")
    case t: True
    then have "out' = out" using assms(1) True node by (simp add: lock_step_def)
    then show ?thesis using l t by auto
  next
    case n: False
    then obtain p where p: "finite_or_skip (get (payload ev) ''lock_cost'') = Inr p" using assms(1) True node by (auto simp: lock_step_def bnd_eq_Inr)
    show ?thesis
    proof (cases "\<exists>paid t. p = Some paid \<and> \<not> flt paid cost \<and> finite_or_skip (get ev ''timestamp'') = Inr (Some t)")
      case v: True
      then obtain t where t: "finite_or_skip (get ev ''timestamp'') = Inr (Some t)" "out' = out @ [(node, t)]"
        using assms True node n p by (auto simp: lock_step_def)
      then show ?thesis using l n v p True node finite_or_skip_finite [OF t(1)] by (auto simp: valid_lock_def contributions_ok_def)
    next
      case v: False
      then have "out' = out" using assms True node n p by (auto simp: lock_step_def bnd_eq_Inr split: option.splits if_splits)
      then show ?thesis using l v p by (auto simp: valid_lock_def)
    qed
  qed
qed

lemma lock_fold_adds:
  assumes "cfg_int cfg ''gate_lock_cost_per_member'' = Inr c" "float_of_int c = Inr cost"
  shows "foldres (lock_step cfg members) evs out = Inr out' \<Longrightarrow>
    fst ` set out' = fst ` set out \<union> lockers cost members evs \<and> (contributions_ok out \<longrightarrow> contributions_ok out')"
proof (induction evs arbitrary: out)
  case (Cons ev evs)
  then obtain mid where m: "lock_step cfg members ev out = Inr mid" "foldres (lock_step cfg members) evs mid = Inr out'" by (auto simp: bnd_eq_Inr)
  have "lockers cost members (ev # evs) = lockers cost members [ev] \<union> lockers cost members evs" by (auto simp: lockers_def)
  then show ?case using lock_step_adds [OF m(1) assms] Cons.IH [OF m(2)] by (metis Un_assoc)
qed (simp add: lockers_def)

lemma contributions_are_lockers:
  assumes "collect_lock_contributions cfg gate_id chain = Inr cs" "compute_member_set gate_id chain = Inr members" "events_for_gate gate_id chain = Inr evs"
    "cfg_int cfg ''gate_lock_cost_per_member'' = Inr c" "float_of_int c = Inr cost"
  shows "fst ` set cs = lockers cost members evs \<and> contributions_ok cs"
proof -
  have "foldres (lock_step cfg members) evs [] = Inr cs" using assms(1-3) by (simp add: collect_lock_contributions_def)
  from lock_fold_adds [OF assms(4,5) this] show ?thesis by (simp add: contributions_ok_def)
qed

text \<open>The time at which a node locked the gate: that of its first event that counts.\<close>

definition lock_time :: "pyfloat \<Rightarrow> pydict list \<Rightarrow> string \<Rightarrow> pyfloat" where
  "lock_time cost evs node = (case find (valid_lock cost node) evs of
       None \<Rightarrow> NaN
     | Some ev \<Rightarrow> (case finite_or_skip (get ev ''timestamp'') of Inr (Some t) \<Rightarrow> t | _ \<Rightarrow> NaN))"

lemma lock_step_time:
  assumes "lock_step cfg members ev out = Inr out'" "cfg_int cfg ''gate_lock_cost_per_member'' = Inr c" "float_of_int c = Inr cost"
    and "(node, t) \<in> set out'"
  shows "(node, t) \<in> set out \<or> node \<notin> fst ` set out \<and> node \<in> members \<and> valid_lock cost node ev
    \<and> finite_or_skip (get ev ''timestamp'') = Inr (Some t)"
proof (cases "out' = out")
  case False
  then obtain nd where n: "ev_is ''gate_lock'' ev" "nonempty_str (get ev ''node_id'') = Some nd" "nd \<notin> fst ` set out" "nd \<in> members"
    using assms(1) by (auto simp: lock_step_def split: if_splits option.splits)
  then obtain p where p: "finite_or_skip (get (payload ev) ''lock_cost'') = Inr (Some p)" "\<not> flt p cost"
    using assms(1-3) False by (auto simp: lock_step_def bnd_eq_Inr split: if_splits option.splits)
  then obtain u where "finite_or_skip (get ev ''timestamp'') = Inr (Some u)" "out' = out @ [(nd, u)]"
    using assms(1-3) n False by (auto simp: lock_step_def bnd_eq_Inr split: option.splits)
  then show ?thesis using assms(4) n p by (auto simp: valid_lock_def)
qed (use assms(4) in simp)

lemma lock_fold_times:
  assumes "cfg_int cfg ''gate_lock_cost_per_member'' = Inr c" "float_of_int c = Inr cost"
  shows "foldres (lock_step cfg members) evs out = Inr out' \<Longrightarrow> (node, t) \<in> set out' \<Longrightarrow>
    (node, t) \<in> set out \<or> node \<notin> fst ` set out \<and> node \<in> members \<and> t = lock_time cost evs node"
proof (induction evs arbitrary: out)
  case (Cons ev evs)
  then obtain mid where m: "lock_step cfg members ev out = Inr mid" "foldres (lock_step cfg members) evs mid = Inr out'" by (auto simp: bnd_eq_Inr)
  have sub: "fst ` set mid = fst ` set out \<union> lockers cost members [ev]" using lock_step_adds [OF m(1) assms] by blast
  from Cons.IH [OF m(2) Cons.prems(2)] show ?case
  proof
    assume "(node, t) \<in> set mid"
    from lock_step_time [OF m(1) assms this] show ?thesis by (auto simp: lock_time_def)
  next
    assume new: "node \<notin> fst ` set mid \<and> node \<in> members \<and> t = lock_time cost evs node"
    then have "\<not> valid_lock cost node ev" using sub by (auto simp: lockers_def)
    with new sub show ?thesis by (auto simp: lock_time_def)
  qed
qed simp

definition fin_part :: "pyfloat \<Rightarrow> rat" where
  "fin_part x = (case x of Fin r \<Rightarrow> r | _ \<Rightarrow> 0)"

lemma sort_by_time:
  assumes "\<forall>c \<in> set cs. fisfinite (snd c)"
  shows "sorted_wrt (\<lambda>a b. fle (snd a) (snd b)) (sort_by (\<lambda>a b. flt (snd a) (snd b)) cs)"
proof -
  let ?lt = "\<lambda>a b. fin_part (snd a) < fin_part (snd b)"
  have "sort_by (\<lambda>a b. flt (snd a) (snd b)) cs = sort_by ?lt cs"
    by (rule sort_by_cong) (use assms in \<open>auto simp: fin_part_def elim!: fisfiniteE split: pyfloat.splits\<close>)
  moreover have "sorted_wrt (\<lambda>a b. \<not> ?lt b a) (sort_by ?lt cs)"
    by (rule sorted_sort_by) (auto simp: weak_order_def)
  moreover have "fle (snd a) (snd b)" if "a \<in> set cs" "b \<in> set cs" "\<not> ?lt b a" for a b
    using that assms by (cases "snd a"; cases "snd b") (auto simp: fin_part_def)
  ultimately show ?thesis by (auto elim!: sorted_wrt_mono_rel [rotated])
qed

text \<open>
  C18: a gate is locked exactly when enough of its members locked it:
  if the members and events of the gate are defined, the gate is locked iff the number of current members
  with a lock event of theirs that is paid in full and carries a finite time reaches the configured
  minimum; the nodes listed are these members, each once, in the order of the times of their first such
  events, and the gate is locked from the time of the one that completes the minimum: the first, second,
  and so on, for a minimum of one, two, and so on. A lock request at the default cost is accepted
  exactly from the current members that have no such event.
\<close>

theorem gate_locked_iff:
  assumes "compute_member_set gate_id chain = Inr members" "events_for_gate gate_id chain = Inr evs"
    "cfg_int cfg ''gate_lock_cost_per_member'' = Inr c" "float_of_int c = Inr cost" "cfg_int cfg ''gate_lock_min_members'' = Inr n"
    and "lock_state cfg gate_id chain = Inr s"
  shows "(lg_locked s \<longleftrightarrow> n \<le> int (card (lockers cost members evs)))
    \<and> (lg_locked s \<longrightarrow> distinct (lg_locked_by s) \<and> set (lg_locked_by s) = lockers cost members evs
         \<and> sorted_wrt (\<lambda>a b. fle (lock_time cost evs a) (lock_time cost evs b)) (lg_locked_by s) \<and> lg_locked_at s \<noteq> None
         \<and> (1 \<le> n \<longrightarrow> lg_locked_at s = Some (lock_time cost evs (lg_locked_by s ! nat (n - 1)))))
    \<and> (\<exists>v. validate_lock_request cfg node gate_id chain PNone = Inr v
         \<and> (lv_accepted v \<longleftrightarrow> node \<in> members \<and> node \<notin> lockers cost members evs))"
proof -
  obtain cs where cs: "collect_lock_contributions cfg gate_id chain = Inr cs" using assms(6) by (auto simp: lock_state_def bnd_eq_Inr)
  note l = contributions_are_lockers [OF cs assms(1-4)]
  have card: "length cs = card (lockers cost members evs)"
    using l distinct_card [of "map fst cs"] by (simp add: contributions_ok_def)
  have v: "\<exists>v. validate_lock_request cfg node gate_id chain PNone = Inr v
      \<and> (lv_accepted v \<longleftrightarrow> node \<in> members \<and> node \<notin> lockers cost members evs)"
    using l assms(1,3) cs by (auto simp: validate_lock_request_def)
  show ?thesis
  proof (cases "int (length cs) < n")
    case True
    then have "s = \<lparr>lg_locked = False, lg_locked_at = None, lg_locked_by = []\<rparr>" using assms(5,6) cs by (simp add: lock_state_def)
    then show ?thesis using True card v by simp
  next
    case False
    let ?sorted = "sort_by (\<lambda>a b. flt (snd a) (snd b)) cs"
    obtain x where x: "s = \<lparr>lg_locked = True, lg_locked_at = Some (snd x), lg_locked_by = map fst ?sorted\<rparr>" "py_index ?sorted (n - 1) = Inr x"
      using assms(5,6) cs False by (auto simp: lock_state_def Let_def bnd_eq_Inr)
    have "foldres (lock_step cfg members) evs [] = Inr cs" using cs assms(1,2) by (simp add: collect_lock_contributions_def)
    from lock_fold_times [OF assms(3,4) this] have time: "c \<in> set cs \<Longrightarrow> lock_time cost evs (fst c) = snd c" for c by (cases c) auto
    have "sorted_wrt (\<lambda>a b. fle (snd a) (snd b)) ?sorted" using l by (intro sort_by_time) (simp add: contributions_ok_def)
    then have sorted: "sorted_wrt (\<lambda>a b. fle (lock_time cost evs a) (lock_time cost evs b)) (map fst ?sorted)"
      unfolding sorted_wrt_map by (rule sorted_wrt_mono_rel [rotated]) (simp add: time)
    have at: "snd x = lock_time cost evs (map fst ?sorted ! nat (n - 1))" if "1 \<le> n"
    proof -
      have i: "nat (n - 1) < length ?sorted" using False that by simp
      then have "x = ?sorted ! nat (n - 1)" using x(2) that by (auto simp: py_index_def Let_def split: if_splits)
      moreover from this have "x \<in> set cs" using i by (metis nth_mem set_sort_by)
      ultimately show ?thesis using i time by simp
    qed
    have "distinct (map fst ?sorted)"
    proof -
      have "distinct ?sorted" using l by (simp add: contributions_ok_def distinct_map)
      moreover have "inj_on fst (set ?sorted)" using l by (simp add: contributions_ok_def distinct_map)
      ultimately show ?thesis by (simp add: distinct_map)
    qed
    then show ?thesis using x(1) l v False card sorted at by simp
  qed
qed

theorem gate_locked_iff_witness:
  defines "cfg \<equiv> [(''gate_lock_cost_per_member'', PInt 10), (''gate_lock_min_members'', PInt 2)]"
    and "enter \<equiv> \<lambda>who n. [(''event_type'', PStr ''gate_enter''), (''node_id'', PStr who), (''timestamp'', PInt n), (''payload'', PDict [(''gate_id'', PStr ''g'')])]"
    and "lock \<equiv> \<lambda>who n. [(''event_type'', PStr ''gate_lock''), (''node_id'', PStr who), (''timestamp'', PInt n),
             (''payload'', PDict [(''gate_id'', PStr ''g''), (''lock_cost'', PInt 10)])]"
  shows "\<exists>s. lock_state cfg ''g'' [PDict (enter ''a'' 1), PDict (enter ''b'' 1), PDict (lock ''a'' 2), PDict (lock ''b'' 5)] = Inr s
    \<and> lg_locked s \<and> set (lg_locked_by s) = {''a'', ''b''} \<and> lg_locked_at s = Some (Fin 5)"
proof -
  let ?evs = "[enter ''a'' 1, enter ''b'' 1, lock ''a'' 2, lock ''b'' 5]"
  let ?chain = "map PDict ?evs"
  have e: "events_for_gate ''g'' ?chain = Inr ?evs"
    by (simp add: enter_def lock_def events_for_gate_def gate_id_of_def payload_def py_or_def sort_events_def sort_key_def key_lt_def)
  then have m: "compute_member_set ''g'' ?chain = Inr {''a'', ''b''}"
    by (simp add: compute_member_set_def member_step_def ev_is_def enter_def lock_def insert_commute)
  have c: "cfg_int cfg ''gate_lock_cost_per_member'' = Inr 10" "float_of_int 10 = Inr (Fin 10)" "cfg_int cfg ''gate_lock_min_members'' = Inr 2"
    by (simp_all add: cfg_def cfg_int_def cfg_get_def)
  have v: "valid_lock (Fin 10) who (lock who n) \<longleftrightarrow> True" "valid_lock (Fin 10) who (enter w n) \<longleftrightarrow> False"
    "valid_lock (Fin 10) who (lock w n) \<Longrightarrow> who = w" if "n \<in> {2, 5}" "who \<noteq> []" for who w n
    using that by (auto simp: valid_lock_def ev_is_def finite_or_skip_def payload_def py_or_def lock_def enter_def split: if_splits)
  have l: "lockers (Fin 10) {''a'', ''b''} ?evs = {''a'', ''b''}" using v by (auto simp: lockers_def)
  have "foldres (lock_step cfg {''a'', ''b''}) ?evs [] = Inr [(''a'', Fin 2), (''b'', Fin 5)]"
    using c by (simp add: lock_step_def ev_is_def finite_or_skip_def payload_def py_or_def enter_def lock_def)
  then have "collect_lock_contributions cfg ''g'' ?chain = Inr [(''a'', Fin 2), (''b'', Fin 5)]"
    unfolding collect_lock_contributions_def m e bnd_Inr .
  then have s: "lock_state cfg ''g'' ?chain = Inr \<lparr>lg_locked = True, lg_locked_at = Some (Fin 5), lg_locked_by = [''a'', ''b'']\<rparr>"
    using c by (simp add: lock_state_def py_index_def)
  from gate_locked_iff [OF m e c s] l have "lg_locked_at \<lparr>lg_locked = True, lg_locked_at = Some (Fin 5), lg_locked_by = [''a'', ''b'']\<rparr>
      = Some (lock_time (Fin 10) ?evs ''b'')" by simp
  with s show ?thesis by auto
qed

end
