(* ===== verification/Gate_Shutdown.thy ===== *)
theory Gate_Shutdown
  imports Gate_State
begin

text \<open>
  \<open>services/infonet/gates/shutdown/\<close>: the reversible suspension of a gate, the delayed shutdown that
  needs it, and the one appeal that pauses the shutdown. \<open>reason\<close>, \<open>evidence_hashes\<close> and the like are
  whatever the caller passes, so they are Python values.
\<close>

subsection \<open>Suspension\<close>

datatype suspension_status = active | suspended | shutdown

record suspension_state =
  su_status :: suspension_status
  suspended_at :: "pyfloat option"
  suspended_until :: "pyfloat option"
  last_shutdown_petition_at :: "pyfloat option"

record gate_times =
  t_shutdown_filed :: "pyfloat option"
  t_shutdown_executed :: "pyfloat option"
  t_suspended :: "pyfloat option"
  t_unsuspend :: "pyfloat option"

definition times_step :: "pydict \<Rightarrow> gate_times \<Rightarrow> gate_times res" where
  "times_step ev s = bnd (event_time ev) (\<lambda>ts. Inr
     (if ev_is ''gate_suspend_execute'' ev then s\<lparr>t_suspended := Some ts\<rparr>
      else if ev_is ''gate_unsuspend'' ev then s\<lparr>t_unsuspend := Some ts\<rparr>
      else if ev_is ''gate_shutdown_file'' ev then s\<lparr>t_shutdown_filed := Some ts\<rparr>
      else if ev_is ''gate_shutdown_execute'' ev then s\<lparr>t_shutdown_executed := Some ts\<rparr>
      else s))"

definition no_times :: gate_times where
  "no_times = \<lparr>t_shutdown_filed = None, t_shutdown_executed = None, t_suspended = None, t_unsuspend = None\<rparr>"

definition days_setting :: "pydict \<Rightarrow> string \<Rightarrow> pyfloat res" where
  "days_setting cfg key = bnd (cfg_float cfg key) (\<lambda>d. Inr (fmul d seconds_per_day))"

definition compute_suspension_state :: "pydict \<Rightarrow> string \<Rightarrow> chain \<Rightarrow> pyfloat \<Rightarrow> suspension_state res" where
  "compute_suspension_state cfg gate_id chain now =
     bnd (events_for_gate gate_id chain) (\<lambda>events.
     bnd (foldres times_step events no_times) (\<lambda>ts.
       let idle = \<lparr>su_status = active, suspended_at = None, suspended_until = None, last_shutdown_petition_at = t_shutdown_filed ts\<rparr> in
       if t_shutdown_executed ts \<noteq> None
       then Inr \<lparr>su_status = shutdown, suspended_at = t_suspended ts, suspended_until = None, last_shutdown_petition_at = t_shutdown_filed ts\<rparr>
       else case t_suspended ts of
           None \<Rightarrow> Inr idle
         | Some s_at \<Rightarrow>
             if (case t_unsuspend ts of None \<Rightarrow> False | Some u \<Rightarrow> flt s_at u) then Inr idle
             else bnd (days_setting cfg ''gate_suspend_duration_days'') (\<lambda>duration.
                  let until = fadd s_at duration in
                  Inr (if fle until now then idle
                       else \<lparr>su_status = suspended, suspended_at = Some s_at, suspended_until = Some until,
                             last_shutdown_petition_at = t_shutdown_filed ts\<rparr>))))"

record filing_validation =
  fv_accepted :: bool
  fv_reason :: string

definition filing_ok :: filing_validation where
  "filing_ok = \<lparr>fv_accepted = True, fv_reason = ''ok''\<rparr>"

definition filing_refused :: "string \<Rightarrow> filing_validation" where
  "filing_refused r = \<lparr>fv_accepted = False, fv_reason = r\<rparr>"

lemma fv_accepted_simps [simp]:
  "fv_accepted filing_ok" "\<not> fv_accepted (filing_refused r)" "filing_ok \<noteq> filing_refused r" "filing_refused r \<noteq> filing_ok"
  by (simp_all add: filing_ok_def filing_refused_def)

definition reason_empty :: "pyval \<Rightarrow> bool" where
  "reason_empty v \<longleftrightarrow> (case v of PStr s \<Rightarrow> strip s = [] | _ \<Rightarrow> True)"

definition no_evidence :: "pyval \<Rightarrow> bool" where
  "no_evidence v \<longleftrightarrow> (case v of PList xs \<Rightarrow> xs = [] | _ \<Rightarrow> True)"

definition evidence_invalid :: "pyval \<Rightarrow> bool" where
  "evidence_invalid v \<longleftrightarrow> (case v of PList xs \<Rightarrow> \<not> (\<forall>h \<in> set xs. nonempty_str h \<noteq> None) | _ \<Rightarrow> False)"

definition cooling_down :: "pyfloat option \<Rightarrow> pyfloat \<Rightarrow> bool" where
  "cooling_down filer_cooldown_until now \<longleftrightarrow> (case filer_cooldown_until of None \<Rightarrow> False | Some u \<Rightarrow> flt now u)"

definition validate_suspend_filing :: "pydict \<Rightarrow> string \<Rightarrow> pyval \<Rightarrow> pyval \<Rightarrow> chain \<Rightarrow> pyfloat \<Rightarrow> pyfloat option \<Rightarrow> filing_validation res" where
  "validate_suspend_filing cfg gate_id reason hashes chain now filer_cooldown_until =
     (if reason_empty reason then Inr (filing_refused ''reason_empty'')
      else if no_evidence hashes then Inr (filing_refused ''evidence_required'')
      else if evidence_invalid hashes then Inr (filing_refused ''evidence_hashes_invalid'')
      else bnd (get_gate_meta gate_id chain) (\<lambda>m.
        if m = None then Inr (filing_refused ''gate_not_found'')
        else bnd (compute_suspension_state cfg gate_id chain now) (\<lambda>state.
          if su_status state = shutdown then Inr (filing_refused ''gate_shutdown'')
          else if su_status state = suspended then Inr (filing_refused ''already_suspended'')
          else if cooling_down filer_cooldown_until now then Inr (filing_refused ''filer_cooldown_active'')
          else case last_shutdown_petition_at state of
              None \<Rightarrow> Inr filing_ok
            | Some t \<Rightarrow> bnd (days_setting cfg ''gate_shutdown_cooldown_days'') (\<lambda>cooldown_s.
                Inr (if flt now (fadd t cooldown_s) then filing_refused ''gate_cooldown_active'' else filing_ok)))))"

subsection \<open>Shutdown petitions\<close>

datatype petition_status = filed | executing | appealed | executed | failed | voided_appeal

record shutdown_petition =
  filed_at :: pyfloat
  pet_status :: petition_status
  execution_at :: "pyfloat option"
  pet_appealed :: bool

type_synonym petitions = "(string \<times> shutdown_petition) list"

definition file_step :: "pydict \<Rightarrow> petitions \<Rightarrow> petitions res" where
  "file_step ev petitions =
     (if \<not> ev_is ''gate_shutdown_file'' ev then Inr petitions
      else case nonempty_str (get (payload ev) ''petition_id'') of
          None \<Rightarrow> Inr petitions
        | Some pid \<Rightarrow> bnd (event_time ev) (\<lambda>t.
            Inr (AList.update pid \<lparr>filed_at = t, pet_status = filed, execution_at = None, pet_appealed = False\<rparr> petitions)))"

definition known_petition :: "pyval \<Rightarrow> petitions \<Rightarrow> (string \<times> shutdown_petition) option" where
  "known_petition v petitions = (case v of
       PStr pid \<Rightarrow> (case map_of petitions pid of None \<Rightarrow> None | Some p \<Rightarrow> Some (pid, p))
     | _ \<Rightarrow> None)"

definition vote_step :: "pydict \<Rightarrow> pydict \<Rightarrow> petitions \<Rightarrow> petitions res" where
  "vote_step cfg ev petitions = (case known_petition (get (payload ev) ''petition_id'') petitions of
       None \<Rightarrow> Inr petitions
     | Some (pid, p) \<Rightarrow>
         if get (payload ev) ''vote'' = PStr ''passed''
         then bnd (days_setting cfg ''gate_shutdown_execution_delay_days'') (\<lambda>delay_s.
              bnd (event_time ev) (\<lambda>t.
                Inr (AList.update pid (p\<lparr>pet_status := executing, execution_at := Some (fadd t delay_s)\<rparr>) petitions)))
         else if get (payload ev) ''vote'' = PStr ''failed'' then Inr (AList.update pid (p\<lparr>pet_status := failed\<rparr>) petitions)
         else Inr petitions)"

definition appeal_file_step :: "pydict \<Rightarrow> petitions \<Rightarrow> petitions" where
  "appeal_file_step ev petitions = (case known_petition (get (payload ev) ''target_petition_id'') petitions of
       None \<Rightarrow> petitions
     | Some (target, p) \<Rightarrow> AList.update target (p\<lparr>pet_appealed := True, pet_status := appealed, execution_at := None\<rparr>) petitions)"

definition appeal_resolve_step :: "pydict \<Rightarrow> petitions \<Rightarrow> petitions res" where
  "appeal_resolve_step ev petitions = (case known_petition (get (payload ev) ''target_petition_id'') petitions of
       None \<Rightarrow> Inr petitions
     | Some (target, p) \<Rightarrow>
         if get (payload ev) ''outcome'' = PStr ''voided_shutdown''
         then Inr (AList.update target (p\<lparr>pet_status := voided_appeal\<rparr>) petitions)
         else if get (payload ev) ''outcome'' = PStr ''resumed''
         then bnd (catching type_or_value (bnd (py_float (get (payload ev) ''resumed_execution_at'')) (\<lambda>f. Inr (Some f))) (Inr None)) (\<lambda>x.
              Inr (AList.update target (p\<lparr>pet_status := executing, execution_at := x\<rparr>) petitions))
         else Inr petitions)"

definition execute_step :: "pydict \<Rightarrow> petitions \<Rightarrow> petitions" where
  "execute_step ev petitions = (case known_petition (get (payload ev) ''petition_id'') petitions of
       None \<Rightarrow> petitions
     | Some (pid, p) \<Rightarrow> AList.update pid (p\<lparr>pet_status := executed\<rparr>) petitions)"

definition petition_step :: "pydict \<Rightarrow> pydict \<Rightarrow> petitions \<Rightarrow> petitions res" where
  "petition_step cfg ev petitions =
     (if ev_is ''gate_shutdown_vote'' ev then vote_step cfg ev petitions
      else if ev_is ''gate_shutdown_appeal_file'' ev then Inr (appeal_file_step ev petitions)
      else if ev_is ''gate_shutdown_appeal_resolve'' ev then appeal_resolve_step ev petitions
      else if ev_is ''gate_shutdown_execute'' ev then Inr (execute_step ev petitions)
      else Inr petitions)"

definition shutdown_petitions :: "pydict \<Rightarrow> string \<Rightarrow> chain \<Rightarrow> petitions res" where
  "shutdown_petitions cfg gate_id chain =
     bnd (events_for_gate gate_id chain) (\<lambda>events.
     bnd (foldres file_step events []) (\<lambda>petitions.
     bnd (sort_events (events_of chain)) (\<lambda>keyed.
       foldres (petition_step cfg) (map snd keyed) petitions)))"

record shutdown_state =
  has_pending :: bool
  pending_petition_id :: "string option"
  pending_status :: "petition_status option"
  ss_execution_at :: "pyfloat option"
  ss_executed :: bool

definition compute_shutdown_state :: "pydict \<Rightarrow> string \<Rightarrow> chain \<Rightarrow> shutdown_state res" where
  "compute_shutdown_state cfg gate_id chain =
     bnd (shutdown_petitions cfg gate_id chain) (\<lambda>petitions.
       let pending = find (\<lambda>(pid, p). pet_status p \<in> {filed, executing, appealed}) petitions in
       Inr \<lparr>has_pending = (pending \<noteq> None), pending_petition_id = map_option fst pending,
            pending_status = map_option (\<lambda>(pid, p). pet_status p) pending,
            ss_execution_at = (case pending of None \<Rightarrow> None | Some (pid, p) \<Rightarrow> execution_at p),
            ss_executed = (\<exists>(pid, p) \<in> set petitions. pet_status p = executed)\<rparr>)"

definition validate_shutdown_filing :: "pydict \<Rightarrow> string \<Rightarrow> pyval \<Rightarrow> pyval \<Rightarrow> chain \<Rightarrow> pyfloat \<Rightarrow> pyfloat option \<Rightarrow> filing_validation res" where
  "validate_shutdown_filing cfg gate_id reason hashes chain now filer_cooldown_until =
     (if reason_empty reason then Inr (filing_refused ''reason_empty'')
      else if no_evidence hashes then Inr (filing_refused ''evidence_required'')
      else bnd (get_gate_meta gate_id chain) (\<lambda>m.
        if m = None then Inr (filing_refused ''gate_not_found'')
        else bnd (compute_suspension_state cfg gate_id chain now) (\<lambda>suspension.
          if su_status suspension = shutdown then Inr (filing_refused ''gate_already_shutdown'')
          else if su_status suspension \<noteq> suspended then Inr (filing_refused ''gate_not_suspended'')
          else bnd (compute_shutdown_state cfg gate_id chain) (\<lambda>state.
            if has_pending state then Inr (filing_refused ''shutdown_already_pending'')
            else if cooling_down filer_cooldown_until now then Inr (filing_refused ''filer_cooldown_active'')
            else Inr filing_ok))))"

subsection \<open>Appeals\<close>

definition shutdown_petition_filed_at :: "string \<Rightarrow> chain \<Rightarrow> pyfloat option res" where
  "shutdown_petition_filed_at target chain =
     (case find (\<lambda>ev. ev_is ''gate_shutdown_file'' ev \<and> get (payload ev) ''petition_id'' = PStr target) (events_of chain) of
        None \<Rightarrow> Inr None | Some ev \<Rightarrow> bnd (event_time ev) (\<lambda>t. Inr (Some t)))"

definition shutdown_vote_passed_at :: "string \<Rightarrow> chain \<Rightarrow> pyfloat option res" where
  "shutdown_vote_passed_at target chain =
     (case find (\<lambda>ev. ev_is ''gate_shutdown_vote'' ev \<and> get (payload ev) ''petition_id'' = PStr target
                      \<and> get (payload ev) ''vote'' = PStr ''passed'') (events_of chain) of
        None \<Rightarrow> Inr None | Some ev \<Rightarrow> bnd (event_time ev) (\<lambda>t. Inr (Some t)))"

definition has_appeal :: "string \<Rightarrow> chain \<Rightarrow> bool" where
  "has_appeal target chain \<longleftrightarrow>
     (\<exists>ev \<in> set (events_of chain). ev_is ''gate_shutdown_appeal_file'' ev \<and> get (payload ev) ''target_petition_id'' = PStr target)"

text \<open>\<open>not filed_at\<close>: a time of 0 counts as no time.\<close>

definition validate_appeal_filing :: "pydict \<Rightarrow> string \<Rightarrow> string \<Rightarrow> pyval \<Rightarrow> pyval \<Rightarrow> chain \<Rightarrow> pyfloat \<Rightarrow> pyfloat option \<Rightarrow> filing_validation res" where
  "validate_appeal_filing cfg gate_id target reason hashes chain now filer_cooldown_until =
     (if reason_empty reason then Inr (filing_refused ''reason_empty'')
      else if no_evidence hashes then Inr (filing_refused ''evidence_required'')
      else bnd (get_gate_meta gate_id chain) (\<lambda>m.
        if m = None then Inr (filing_refused ''gate_not_found'')
        else bnd (shutdown_petition_filed_at target chain) (\<lambda>f.
          if f = None \<or> f = Some (Fin 0) then Inr (filing_refused ''target_petition_not_found'')
          else if has_appeal target chain then Inr (filing_refused ''appeal_already_filed'')
          else bnd (compute_shutdown_state cfg gate_id chain) (\<lambda>state.
            if pending_status state \<noteq> Some executing then Inr (filing_refused ''target_not_in_executing_state'')
            else bnd (shutdown_vote_passed_at target chain) (\<lambda>v. case v of
                None \<Rightarrow> Inr (filing_refused ''vote_not_passed'')
              | Some vote_passed \<Rightarrow>
                  bnd (cfg_float cfg ''gate_shutdown_appeal_window_hours'') (\<lambda>h.
                    if flt (fadd vote_passed (fmul h (Fin 3600))) now then Inr (filing_refused ''appeal_window_expired'')
                    else if cooling_down filer_cooldown_until now then Inr (filing_refused ''filer_cooldown_active'')
                    else Inr filing_ok))))))"

definition paused_execution_remaining_sec :: "pydict \<Rightarrow> string \<Rightarrow> chain \<Rightarrow> pyfloat \<Rightarrow> pyfloat res" where
  "paused_execution_remaining_sec cfg target chain appeal_filed_at =
     bnd (shutdown_vote_passed_at target chain) (\<lambda>v. case v of
         None \<Rightarrow> Inr (Fin 0)
       | Some vote_passed \<Rightarrow>
           bnd (days_setting cfg ''gate_shutdown_execution_delay_days'') (\<lambda>delay_s.
             Inr (fmax (Fin 0) (fsub (fadd vote_passed delay_s) appeal_filed_at))))"

subsection \<open>What a suspension rests on\<close>

text \<open>The last event of a type\<close>

definition last_of :: "string \<Rightarrow> pydict list \<Rightarrow> pydict option" where
  "last_of ty evs = find (ev_is ty) (rev evs)"

text \<open>A time the loop over the events found, and the event it is the time of\<close>

definition time_of_last :: "string \<Rightarrow> pydict list \<Rightarrow> pyfloat option \<Rightarrow> bool" where
  "time_of_last ty evs t \<longleftrightarrow> (case last_of ty evs of None \<Rightarrow> t = None | Some ev \<Rightarrow> \<exists>x. event_time ev = Inr x \<and> t = Some x)"

lemma last_of_Nil [simp]: "last_of ty [] = None"
  by (simp add: last_of_def)

lemma last_of_snoc [simp]: "last_of ty (evs @ [ev]) = (if ev_is ty ev then Some ev else last_of ty evs)"
  by (simp add: last_of_def)

lemma last_of_None: "last_of ty evs = None \<longleftrightarrow> \<not> (\<exists>ev \<in> set evs. ev_is ty ev)"
  by (auto simp: last_of_def find_None_iff)

lemma time_of_last_snoc:
  "time_of_last ty (evs @ [ev]) t \<longleftrightarrow> (if ev_is ty ev then \<exists>x. event_time ev = Inr x \<and> t = Some x else time_of_last ty evs t)"
  by (simp add: time_of_last_def)

lemma times_loop:
  "foldres times_step evs no_times = Inr ts \<Longrightarrow>
     time_of_last ''gate_suspend_execute'' evs (t_suspended ts) \<and> time_of_last ''gate_unsuspend'' evs (t_unsuspend ts)
     \<and> time_of_last ''gate_shutdown_file'' evs (t_shutdown_filed ts) \<and> time_of_last ''gate_shutdown_execute'' evs (t_shutdown_executed ts)"
proof (induction evs arbitrary: ts rule: rev_induct)
  case Nil
  then show ?case by (auto simp: time_of_last_def no_times_def)
next
  case (snoc ev evs)
  then obtain s where s: "foldres times_step evs no_times = Inr s" and ts: "times_step ev s = Inr ts" by (auto simp: foldres_append bnd_eq_Inr)
  then obtain x where x: "event_time ev = Inr x" by (auto simp: times_step_def bnd_eq_Inr)
  note ih = snoc.IH [OF s]
  from x ts have ts': "ts = (if ev_is ''gate_suspend_execute'' ev then s\<lparr>t_suspended := Some x\<rparr>
      else if ev_is ''gate_unsuspend'' ev then s\<lparr>t_unsuspend := Some x\<rparr>
      else if ev_is ''gate_shutdown_file'' ev then s\<lparr>t_shutdown_filed := Some x\<rparr>
      else if ev_is ''gate_shutdown_execute'' ev then s\<lparr>t_shutdown_executed := Some x\<rparr> else s)" by (simp add: times_step_def)
  consider "ev_is ''gate_suspend_execute'' ev" | "ev_is ''gate_unsuspend'' ev" | "ev_is ''gate_shutdown_file'' ev" | "ev_is ''gate_shutdown_execute'' ev"
    | "\<not> ev_is ''gate_suspend_execute'' ev" "\<not> ev_is ''gate_unsuspend'' ev" "\<not> ev_is ''gate_shutdown_file'' ev" "\<not> ev_is ''gate_shutdown_execute'' ev" by blast
  then show ?case unfolding ts' time_of_last_snoc
    by cases (use ih x in \<open>simp_all add: ev_is_def\<close>)
qed

text \<open>When a gate is suspended, and when it is shut down.\<close>

definition suspension_running :: "pydict \<Rightarrow> pydict list \<Rightarrow> pyfloat \<Rightarrow> bool" where
  "suspension_running cfg evs now \<longleftrightarrow> (\<exists>ev t d. last_of ''gate_suspend_execute'' evs = Some ev \<and> event_time ev = Inr t
     \<and> (\<forall>u x. last_of ''gate_unsuspend'' evs = Some u \<longrightarrow> event_time u = Inr x \<longrightarrow> \<not> flt t x)
     \<and> days_setting cfg ''gate_suspend_duration_days'' = Inr d \<and> \<not> fle (fadd t d) now)"

lemma suspension_status_of:
  assumes "compute_suspension_state cfg gate_id chain now = Inr s"
  shows "\<exists>evs. events_for_gate gate_id chain = Inr evs \<and> (su_status s = shutdown \<longleftrightarrow> (\<exists>ev \<in> set evs. closes ev))
    \<and> (su_status s = suspended \<longleftrightarrow> \<not> (\<exists>ev \<in> set evs. closes ev) \<and> suspension_running cfg evs now)"
proof -
  obtain evs ts where 1: "events_for_gate gate_id chain = Inr evs" "foldres times_step evs no_times = Inr ts"
    using assms by (auto simp: compute_suspension_state_def bnd_eq_Inr)
  note t = times_loop [OF 1(2)]
  have c: "t_shutdown_executed ts \<noteq> None \<longleftrightarrow> (\<exists>ev \<in> set evs. closes ev)"
    using t last_of_None [of "''gate_shutdown_execute''" evs] by (auto simp: time_of_last_def closes_def split: option.splits)
  show ?thesis
  proof (cases "t_shutdown_executed ts = None")
    case False
    then show ?thesis using assms 1 c by (auto simp: compute_suspension_state_def)
  next
    case open_gate: True
    show ?thesis
    proof (cases "t_suspended ts")
      case None
      then have "\<not> suspension_running cfg evs now" using t by (auto simp: suspension_running_def time_of_last_def split: option.splits)
      moreover have "su_status s = active" using assms 1 open_gate None by (auto simp: compute_suspension_state_def Let_def)
      ultimately show ?thesis using 1 c open_gate by auto
    next
      case (Some t0)
      then obtain ev where ev: "last_of ''gate_suspend_execute'' evs = Some ev" "event_time ev = Inr t0"
        using t by (auto simp: time_of_last_def split: option.splits)
      have u: "(\<forall>u x. last_of ''gate_unsuspend'' evs = Some u \<longrightarrow> event_time u = Inr x \<longrightarrow> \<not> flt t0 x)
          \<longleftrightarrow> \<not> (case t_unsuspend ts of None \<Rightarrow> False | Some u \<Rightarrow> flt t0 u)"
        using t by (auto simp: time_of_last_def split: option.splits)
      show ?thesis
      proof (cases "case t_unsuspend ts of None \<Rightarrow> False | Some u \<Rightarrow> flt t0 u")
        case True
        then have "su_status s = active" using assms 1 open_gate Some by (auto simp: compute_suspension_state_def Let_def)
        moreover have "\<not> suspension_running cfg evs now" using u True ev by (auto simp: suspension_running_def)
        ultimately show ?thesis using 1 c open_gate by auto
      next
        case False
        then obtain d where d: "days_setting cfg ''gate_suspend_duration_days'' = Inr d"
            "su_status s = (if fle (fadd t0 d) now then active else suspended)"
          using assms 1 open_gate Some by (auto simp: compute_suspension_state_def Let_def bnd_eq_Inr)
        moreover have "suspension_running cfg evs now \<longleftrightarrow> \<not> fle (fadd t0 d) now" using u False ev d(1) by (auto simp: suspension_running_def)
        ultimately show ?thesis using 1 c open_gate by auto
      qed
    qed
  qed
qed

lemma gate_meta_exists: "get_gate_meta gate_id chain = Inr (Some m) \<Longrightarrow> \<exists>ev \<in> set (events_of chain). ev_is ''gate_create'' ev \<and> gate_id_of ev = gate_id"
  by (auto simp: get_gate_meta_def find_Some_iff split: option.splits)

lemma no_pending_iff:
  assumes "compute_shutdown_state cfg gate_id chain = Inr s"
  shows "\<exists>ps. shutdown_petitions cfg gate_id chain = Inr ps \<and> (has_pending s \<longleftrightarrow> (\<exists>x \<in> set ps. pet_status (snd x) \<in> {filed, executing, appealed}))"
proof -
  obtain ps where ps: "shutdown_petitions cfg gate_id chain = Inr ps" using assms by (auto simp: compute_shutdown_state_def bnd_eq_Inr)
  let ?P = "\<lambda>(pid, p). pet_status p \<in> {filed, executing, appealed}"
  have "has_pending s \<longleftrightarrow> find ?P ps \<noteq> None" using assms ps by (auto simp: compute_shutdown_state_def Let_def)
  also have "\<dots> \<longleftrightarrow> (\<exists>x \<in> set ps. pet_status (snd x) \<in> {filed, executing, appealed})"
    unfolding find_None_iff case_prod_beta by blast
  finally show ?thesis using ps by blast
qed

lemma settled_status: "p \<notin> {filed, executing, appealed} \<longleftrightarrow> p \<in> {executed, failed, voided_appeal}"
  by (cases p) simp_all

text \<open>
  C19: a gate cannot be brought to a shutdown vote without a running suspension: if a shutdown filing is
  accepted then the gate was created on the chain, no shutdown of it was executed, its last suspension
  was not lifted later and its configured duration has not elapsed, and no shutdown petition of the
  gate is waiting, executing or under appeal.
\<close>

theorem shutdown_needs_suspension:
  assumes "validate_shutdown_filing cfg gate_id reason evidence chain now until = Inr v" "fv_accepted v"
  shows "(\<exists>ev \<in> set (events_of chain). ev_is ''gate_create'' ev \<and> gate_id_of ev = gate_id)
    \<and> (\<exists>evs. events_for_gate gate_id chain = Inr evs \<and> \<not> (\<exists>ev \<in> set evs. closes ev) \<and> suspension_running cfg evs now)
    \<and> (\<exists>ps. shutdown_petitions cfg gate_id chain = Inr ps \<and> (\<forall>x \<in> set ps. pet_status (snd x) \<in> {executed, failed, voided_appeal}))"
proof -
  obtain m s st where 1: "get_gate_meta gate_id chain = Inr (Some m)" "compute_suspension_state cfg gate_id chain now = Inr s" "su_status s = suspended"
    "compute_shutdown_state cfg gate_id chain = Inr st" "\<not> has_pending st"
    using assms by (auto simp: validate_shutdown_filing_def bnd_eq_Inr split: if_splits)
  obtain evs where evs: "events_for_gate gate_id chain = Inr evs \<and> \<not> (\<exists>ev \<in> set evs. closes ev) \<and> suspension_running cfg evs now"
    using suspension_status_of [OF 1(2)] 1(3) by blast
  obtain ps where ps: "shutdown_petitions cfg gate_id chain = Inr ps" "\<forall>x \<in> set ps. pet_status (snd x) \<notin> {filed, executing, appealed}"
    using no_pending_iff [OF 1(4)] 1(5) by blast
  then show ?thesis using gate_meta_exists [OF 1(1)] evs unfolding settled_status by blast
qed

theorem shutdown_needs_suspension_witness:
  defines "chain \<equiv> [PDict [(''event_type'', PStr ''gate_create''), (''timestamp'', PInt 1), (''payload'', PDict [(''gate_id'', PStr ''g'')])],
      PDict [(''event_type'', PStr ''gate_suspend_execute''), (''timestamp'', PInt 100), (''payload'', PDict [(''gate_id'', PStr ''g'')])]]"
  shows "\<exists>v evs. validate_shutdown_filing baseline_config ''g'' (PStr ''spam'') (PList [PStr ''h'']) chain (Fin 100) None = Inr v \<and> fv_accepted v
    \<and> events_for_gate ''g'' chain = Inr evs \<and> suspension_running baseline_config evs (Fin 100)"
proof -
  let ?c = "[(''event_type'', PStr ''gate_create''), (''timestamp'', PInt 1), (''payload'', PDict [(''gate_id'', PStr ''g'')])]"
  let ?s = "[(''event_type'', PStr ''gate_suspend_execute''), (''timestamp'', PInt 100), (''payload'', PDict [(''gate_id'', PStr ''g'')])]"
  have e: "events_for_gate ''g'' chain = Inr [?c, ?s]"
    by (simp add: chain_def events_for_gate_def gate_id_of_def payload_def py_or_def sort_events_def sort_key_def key_lt_def)
  have m: "\<exists>m. get_gate_meta ''g'' chain = Inr (Some m)"
    by (simp add: chain_def get_gate_meta_def ev_is_def gate_id_of_def payload_def py_or_def read_gate_meta_def gate_int_def dict_or_empty_def)
  have s: "\<exists>s. compute_suspension_state baseline_config ''g'' chain (Fin 100) = Inr s \<and> su_status s = suspended"
    by (simp add: compute_suspension_state_def e times_step_def event_time_def ev_is_def py_or_def no_times_def days_setting_def cfg_simps seconds_per_day_def)
  have ev: "events_of chain = [?c, ?s]" by (simp add: chain_def)
  have p: "shutdown_petitions baseline_config ''g'' chain = Inr []"
    by (simp add: shutdown_petitions_def e file_step_def ev_is_def petition_step_def ev sort_events_def sort_key_def key_lt_def py_or_def)
  have "\<exists>v. validate_shutdown_filing baseline_config ''g'' (PStr ''spam'') (PList [PStr ''h'']) chain (Fin 100) None = Inr v \<and> fv_accepted v"
    using m s p by (auto simp: validate_shutdown_filing_def reason_empty_def no_evidence_def compute_shutdown_state_def cooling_down_def strip_def is_space_def)
  then obtain v where v: "validate_shutdown_filing baseline_config ''g'' (PStr ''spam'') (PList [PStr ''h'']) chain (Fin 100) None = Inr v" "fv_accepted v" by blast
  from shutdown_needs_suspension [OF this] v show ?thesis by blast
qed

end
