(* ===== verification/Governance_Votes.thy ===== *)
theory Governance_Votes
  imports Common_Rep Market_Resolution
begin

text \<open>
  What petitions, challenges and upgrades of \<open>services/infonet/governance/\<close> share: the weight of a node
  (its active oracle reputation, remembered per call), the weight of the network, and the tally of the
  votes of distinct nodes in a window. A Python set is iterated in an order of its own, a parameter.
\<close>

subsection \<open>Weights\<close>

type_synonym weight_cache = "(string \<times> pyfloat) list"

definition governance_weight :: "libm \<Rightarrow> pydict \<Rightarrow> chain \<Rightarrow> string \<Rightarrow> pyfloat \<Rightarrow> weight_cache \<Rightarrow> (pyfloat \<times> weight_cache) res" where
  "governance_weight L cfg chain node_id when cache = (case map_of cache node_id of
       Some w \<Rightarrow> Inr (w, cache)
     | None \<Rightarrow> bnd (compute_oracle_rep_active L cfg node_id chain when) (\<lambda>w. Inr (w, AList.update node_id w cache)))"

definition acting_nodes :: "chain \<Rightarrow> string set" where
  "acting_nodes chain = set (List.map_filter (\<lambda>ev. nonempty_str (get ev ''node_id'')) (events_of chain))"

definition weigh_step :: "libm \<Rightarrow> pydict \<Rightarrow> chain \<Rightarrow> pyfloat \<Rightarrow> string \<Rightarrow> pyfloat list \<times> weight_cache \<Rightarrow> (pyfloat list \<times> weight_cache) res" where
  "weigh_step L cfg chain now n = (\<lambda>(ws, cache).
     bnd (governance_weight L cfg chain n now cache) (\<lambda>(w, cache'). Inr (ws @ [w], cache')))"

definition network_weight_and_cache :: "libm \<Rightarrow> (string set \<Rightarrow> string list) \<Rightarrow> pydict \<Rightarrow> chain \<Rightarrow> pyfloat \<Rightarrow> (pyfloat \<times> weight_cache) res" where
  "network_weight_and_cache L set_order cfg chain now =
     bnd (foldres (weigh_step L cfg chain now) (set_order (acting_nodes chain)) ([], [])) (\<lambda>(ws, cache). Inr (fsum ws, cache))"

definition network_governance_weight :: "libm \<Rightarrow> (string set \<Rightarrow> string list) \<Rightarrow> pydict \<Rightarrow> chain \<Rightarrow> pyfloat \<Rightarrow> pyfloat res" where
  "network_governance_weight L set_order cfg chain now =
     bnd (network_weight_and_cache L set_order cfg chain now) (\<lambda>(w, cache). Inr w)"

subsection \<open>Tallies\<close>

record tally =
  seen_voters :: "string list"
  for_weight :: pyfloat
  against_weight :: pyfloat
  ta_cache :: weight_cache

definition empty_tally :: "weight_cache \<Rightarrow> tally" where
  "empty_tally cache = \<lparr>seen_voters = [], for_weight = Fin 0, against_weight = Fin 0, ta_cache = cache\<rparr>"

text \<open>
  One vote event, with its time: \<open>who\<close> reads the voter, \<open>inside\<close> tests the time, \<open>yes\<close> and \<open>no\<close> are the
  two words a vote may be.
\<close>

definition tally_step :: "(string \<Rightarrow> pyfloat \<Rightarrow> weight_cache \<Rightarrow> (pyfloat \<times> weight_cache) res) \<Rightarrow> (pyval \<Rightarrow> string option) \<Rightarrow> (pyfloat \<Rightarrow> bool)
    \<Rightarrow> string \<Rightarrow> string \<Rightarrow> (pyfloat \<times> int) \<times> pydict \<Rightarrow> tally \<Rightarrow> tally res" where
  "tally_step weight who inside yes no = (\<lambda>((ts, q), ev) t. case who (get ev ''node_id'') of
       None \<Rightarrow> Inr t
     | Some voter \<Rightarrow>
         if voter \<in> set (seen_voters t) \<or> \<not> inside ts \<or> \<not> in_strs (get (payload ev) ''vote'') [yes, no] then Inr t
         else bnd (weight voter ts (ta_cache t)) (\<lambda>(w, cache).
              let t' = t\<lparr>seen_voters := seen_voters t @ [voter], ta_cache := cache\<rparr> in
              Inr (if get (payload ev) ''vote'' = PStr yes then t'\<lparr>for_weight := fadd (for_weight t') w\<rparr>
                   else t'\<lparr>against_weight := fadd (against_weight t') w\<rparr>)))"

definition tally_votes :: "(string \<Rightarrow> pyfloat \<Rightarrow> weight_cache \<Rightarrow> (pyfloat \<times> weight_cache) res) \<Rightarrow> (pyval \<Rightarrow> string option) \<Rightarrow> (pyfloat \<Rightarrow> bool)
    \<Rightarrow> string \<Rightarrow> string \<Rightarrow> pydict list \<Rightarrow> weight_cache \<Rightarrow> tally res" where
  "tally_votes weight who inside yes no votes cache =
     bnd (sort_events votes) (\<lambda>keyed. foldres (tally_step weight who inside yes no) keyed (empty_tally cache))"

text \<open>\<open>isinstance(v, str)\<close> alone: the empty string is a voter too\<close>

definition any_str :: "pyval \<Rightarrow> string option" where
  "any_str v = (case v of PStr s \<Rightarrow> Some s | _ \<Rightarrow> None)"

lemma sorted_event:
  assumes "sort_events votes = Inr keyed" "((ts, q), ev) \<in> set keyed"
  shows "ev \<in> set votes \<and> event_time ev = Inr ts"
proof -
  obtain ks where ks: "mapres (\<lambda>ev. bnd (sort_key ev) (\<lambda>k. Inr (k, ev))) votes = Inr ks" "set keyed = set ks"
    using assms(1) by (auto simp: sort_events_def bnd_eq_Inr)
  then obtain e where "e \<in> set votes" "bnd (sort_key e) (\<lambda>k. Inr (k, e)) = Inr ((ts, q), ev)"
    using mapres_source [OF ks(1)] assms(2) by blast
  then show ?thesis by (auto simp: bnd_eq_Inr sort_key_def event_time_def)
qed

subsection \<open>Exactly which ballots a tally counts\<close>

text \<open>
  The reference count: in the order of the events, the first vote of each voter that is inside the
  window and says one of the two words. A ballot is the voter, whether it says the first word, and
  its time; the weight of a side is the sum of the weights of its voters.
\<close>

type_synonym cast = "string \<times> bool \<times> pyfloat"

definition voter_of :: "(pyval \<Rightarrow> string option) \<Rightarrow> (pyfloat \<Rightarrow> bool) \<Rightarrow> string \<Rightarrow> string \<Rightarrow> (pyfloat \<times> int) \<times> pydict \<Rightarrow> string option" where
  "voter_of who inside yes no k = (if inside (fst (fst k)) \<and> in_strs (get (payload (snd k)) ''vote'') [yes, no] then who (get (snd k) ''node_id'') else None)"

fun first_ballots :: "(pyval \<Rightarrow> string option) \<Rightarrow> (pyfloat \<Rightarrow> bool) \<Rightarrow> string \<Rightarrow> string \<Rightarrow> ((pyfloat \<times> int) \<times> pydict) list \<Rightarrow> cast list" where
  "first_ballots who inside yes no [] = []"
| "first_ballots who inside yes no (k # ks) = (case voter_of who inside yes no k of
       None \<Rightarrow> first_ballots who inside yes no ks
     | Some n \<Rightarrow> (n, get (payload (snd k)) ''vote'' = PStr yes, fst (fst k)) # filter (\<lambda>b. fst b \<noteq> n) (first_ballots who inside yes no ks))"

definition side_weight :: "(string \<Rightarrow> pyfloat) \<Rightarrow> bool \<Rightarrow> cast list \<Rightarrow> pyfloat" where
  "side_weight W side bs = fsum (map (\<lambda>b. W (fst b)) (filter (\<lambda>b. fst (snd b) = side) bs))"

definition cached :: "weight_cache \<Rightarrow> string \<Rightarrow> pyfloat" where
  "cached c n = the (map_of c n)"

lemma cached_mono: "map_of c \<subseteq>\<^sub>m map_of c' \<Longrightarrow> n \<in> dom (map_of c) \<Longrightarrow> cached c' n = cached c n \<and> n \<in> dom (map_of c')"
  by (auto simp: map_le_def cached_def dom_def)

lemma side_weight_cong: "(\<And>b. b \<in> set bs \<Longrightarrow> W (fst b) = W' (fst b)) \<Longrightarrow> side_weight W side bs = side_weight W' side bs"
  unfolding side_weight_def by (rule arg_cong [where f = fsum]) simp

definition acts_of :: "cast list \<Rightarrow> (string \<times> pyfloat) list" where
  "acts_of bs = map (\<lambda>b. (fst b, snd (snd b))) bs"

lemma acts_of_simps [simp]: "acts_of [] = []" "acts_of (b # bs) = (fst b, snd (snd b)) # acts_of bs" "fst ` set (acts_of bs) = fst ` set bs"
  by (auto simp: acts_of_def image_image)

text \<open>The loop counts the reference ballots of the voters it has not seen, through a cache that only grows.\<close>

definition memo_of :: "(string \<Rightarrow> pyfloat \<Rightarrow> pyfloat \<Rightarrow> bool) \<Rightarrow> weight_cache \<Rightarrow> (string \<times> pyfloat) list \<Rightarrow> weight_cache \<Rightarrow> bool" where
  "memo_of worth c acts c' \<longleftrightarrow> map_of c \<subseteq>\<^sub>m map_of c' \<and> dom (map_of c') = dom (map_of c) \<union> fst ` set acts
     \<and> (\<forall>(n, t) \<in> set acts. n \<notin> dom (map_of c) \<longrightarrow> worth n t (cached c' n))"

lemma memo_Nil: "memo_of worth c [] c"
  by (simp add: memo_of_def)

lemma memo_trans:
  assumes "memo_of worth c xs c1" "memo_of worth c1 ys c2" shows "map_of c \<subseteq>\<^sub>m map_of c2"
  by (rule map_le_trans [of _ "map_of c1"]) (use assms in \<open>simp_all add: memo_of_def\<close>)

text \<open>
  What a tally asks of a weighting: it remembers the weight of a node for good, and a weight it had not
  remembered is one the node has at that time.
\<close>

locale weighting =
  fixes weight :: "string \<Rightarrow> pyfloat \<Rightarrow> weight_cache \<Rightarrow> (pyfloat \<times> weight_cache) res"
    and worth :: "string \<Rightarrow> pyfloat \<Rightarrow> pyfloat \<Rightarrow> bool"
  assumes weight_memo: "weight n t c = Inr (w, c') \<Longrightarrow>
    map_of c' = (map_of c)(n \<mapsto> w) \<and> map_of c \<subseteq>\<^sub>m map_of c' \<and> (n \<notin> dom (map_of c) \<longrightarrow> worth n t w)"
begin

lemma memo_Cons:
  assumes w: "weight n t c = Inr (w, c1)" and m: "memo_of worth c1 acts c'" and new: "n \<notin> fst ` set acts"
  shows "memo_of worth c ((n, t) # acts) c' \<and> cached c' n = w"
proof -
  note g = weight_memo [OF w]
  have c1: "map_of c1 n = Some w" "dom (map_of c1) = insert n (dom (map_of c))" using g by auto
  have le: "map_of c1 \<subseteq>\<^sub>m map_of c'" using m by (simp add: memo_of_def)
  have n: "cached c' n = w" using cached_mono [OF le, of n] c1(1) by (auto simp: cached_def)
  have "map_of c \<subseteq>\<^sub>m map_of c'" using g le map_le_trans by blast
  moreover have "worth a u (cached c' a)" if "(a, u) \<in> set acts" "a \<notin> dom (map_of c)" for a u
  proof -
    have "a \<noteq> n" using new that(1) by force
    then have "a \<notin> dom (map_of c1)" using that(2) c1(2) by simp
    then show ?thesis using m that(1) unfolding memo_of_def by fast
  qed
  moreover have "dom (map_of c') = insert n (dom (map_of c) \<union> fst ` set acts)" using m c1(2) by (simp add: memo_of_def)
  ultimately show ?thesis using n g by (auto simp: memo_of_def)
qed

lemma tally_loop_exact:
  "foldres (tally_step weight who inside yes no) keyed t0 = Inr t \<Longrightarrow>
    bs = filter (\<lambda>b. fst b \<notin> set (seen_voters t0)) (first_ballots who inside yes no keyed) \<Longrightarrow>
    memo_of worth (ta_cache t0) (acts_of bs) (ta_cache t)
    \<and> for_weight t = foldl fadd (for_weight t0) (map (\<lambda>b. cached (ta_cache t) (fst b)) (filter (\<lambda>b. fst (snd b)) bs))
    \<and> against_weight t = foldl fadd (against_weight t0) (map (\<lambda>b. cached (ta_cache t) (fst b)) (filter (\<lambda>b. \<not> fst (snd b)) bs))"
proof (induction keyed arbitrary: t0 bs)
  case Nil
  then show ?case by (simp add: memo_Nil)
next
  case (Cons k ks)
  obtain ts q ev where k: "k = ((ts, q), ev)" by (metis surj_pair)
  from Cons.prems(1) obtain t1 where t1: "tally_step weight who inside yes no k t0 = Inr t1"
    "foldres (tally_step weight who inside yes no) ks t1 = Inr t" by (auto simp: bnd_eq_Inr)
  let ?fb = "first_ballots who inside yes no"
  show ?case
  proof (cases "voter_of who inside yes no k")
    case None
    then have "t1 = t0" using t1(1) by (auto simp: k voter_of_def tally_step_def split: if_splits option.splits)
    then show ?thesis using Cons.IH [OF t1(2)] Cons.prems(2) None by simp
  next
    case (Some n)
    then have n: "who (get ev ''node_id'') = Some n" "inside ts" "in_strs (get (payload ev) ''vote'') [yes, no]"
      by (auto simp: k voter_of_def split: if_splits)
    show ?thesis
    proof (cases "n \<in> set (seen_voters t0)")
      case True
      then have "t1 = t0" using t1(1) n by (simp add: k tally_step_def)
      moreover have "bs = filter (\<lambda>b. fst b \<notin> set (seen_voters t0)) (?fb ks)"
        using Cons.prems(2) Some True by (auto simp: intro: filter_cong)
      ultimately show ?thesis using Cons.IH [OF t1(2)] by simp
    next
      case False
      let ?y = "get (payload ev) ''vote'' = PStr yes"
      obtain w c where w: "weight n ts (ta_cache t0) = Inr (w, c)"
        using t1(1) n False by (auto simp: k tally_step_def bnd_eq_Inr)
      have r: "seen_voters t1 = seen_voters t0 @ [n]" "ta_cache t1 = c"
        "for_weight t1 = (if ?y then fadd (for_weight t0) w else for_weight t0)"
        "against_weight t1 = (if ?y then against_weight t0 else fadd (against_weight t0) w)"
        using t1(1) n False w by (auto simp: k tally_step_def Let_def)
      let ?rest = "filter (\<lambda>b. fst b \<notin> set (seen_voters t1)) (?fb ks)"
      have bs: "bs = (n, ?y, ts) # ?rest" using Cons.prems(2) Some False by (simp add: k r(1) conj_commute)
      note ih = Cons.IH [OF t1(2) refl]
      have "n \<notin> fst ` set (acts_of ?rest)" by (auto simp: r(1))
      from memo_Cons [OF w, of "acts_of ?rest" "ta_cache t"] ih this r(2)
      have m: "memo_of worth (ta_cache t0) (acts_of bs) (ta_cache t) \<and> cached (ta_cache t) n = w" by (simp add: bs)
      then show ?thesis using ih r(3,4) by (simp add: bs)
    qed
  qed
qed

lemma tally_exact:
  assumes "tally_votes weight who inside yes no votes c = Inr t"
  shows "\<exists>keyed. sort_events votes = Inr keyed
    \<and> memo_of worth c (acts_of (first_ballots who inside yes no keyed)) (ta_cache t)
    \<and> for_weight t = side_weight (cached (ta_cache t)) True (first_ballots who inside yes no keyed)
    \<and> against_weight t = side_weight (cached (ta_cache t)) False (first_ballots who inside yes no keyed)"
proof -
  obtain keyed where k: "sort_events votes = Inr keyed" "foldres (tally_step weight who inside yes no) keyed (empty_tally c) = Inr t"
    using assms by (auto simp: tally_votes_def bnd_eq_Inr)
  from tally_loop_exact [OF k(2) refl] show ?thesis using k(1) by (auto simp: empty_tally_def side_weight_def fsum_def)
qed

end

definition rep_at :: "libm \<Rightarrow> pydict \<Rightarrow> chain \<Rightarrow> string \<Rightarrow> pyfloat \<Rightarrow> pyfloat \<Rightarrow> bool" where
  "rep_at L cfg chain n t w \<longleftrightarrow> compute_oracle_rep_active L cfg n chain t = Inr w"

text \<open>The weights of the code: active reputations, through the dict of the call.\<close>

interpretation gov: weighting "governance_weight L cfg chain" "rep_at L cfg chain" for L cfg chain
proof (unfold_locales)
  fix n t c w c'
  assume w: "governance_weight L cfg chain n t c = Inr (w, c')"
  show "map_of c' = (map_of c)(n \<mapsto> w) \<and> map_of c \<subseteq>\<^sub>m map_of c' \<and> (n \<notin> dom (map_of c) \<longrightarrow> rep_at L cfg chain n t w)"
  proof (cases "map_of c n")
    case None
    then show ?thesis using w by (auto simp: governance_weight_def bnd_eq_Inr update_conv' map_le_def rep_at_def)
  next
    case (Some v)
    then have "w = v" "c' = c" using w by (simp_all add: governance_weight_def)
    then show ?thesis using Some by (auto simp: fun_upd_idem)
  qed
qed

lemma first_ballots_events:
  "(n, y, t) \<in> set (first_ballots who inside yes no keyed) \<Longrightarrow> \<exists>q ev. ((t, q), ev) \<in> set keyed \<and> who (get ev ''node_id'') = Some n"
proof (induction keyed)
  case (Cons k ks)
  then show ?case by (cases k) (fastforce simp: voter_of_def split: option.splits if_splits)
qed simp

subsection \<open>A supermajority is a majority\<close>

lemma active_weight_value:
  assumes "config_ok cfg" "pow_fraction L" "compute_oracle_rep_active L cfg n chain t = Inr w" shows "rep_value w"
proof -
  consider "w = Fin 0" | b d k where "compute_oracle_rep cfg n chain = Inr b" "decay_factor_for_age L cfg (Some (fmax (Fin 0) d)) = Inr k" "w = fmul b k"
    using assms(3) by (auto simp: compute_oracle_rep_active_def bnd_eq_Inr split: if_splits option.splits)
  then show ?thesis
  proof cases
    case 2
    have "rep_value k" using decay_factor_unit [OF assms(1,2) fmax_zero 2(2)] by (simp add: rep_value_def unit_interval_def fnonneg_def)
    then show ?thesis using 2 oracle_rep_value rep_value_fmul by blast
  qed (simp add: rep_value_def)
qed

lemma foldl_fadd_finite: "fisfinite (foldl fadd s xs) \<Longrightarrow> fisfinite s \<and> (\<forall>x \<in> set xs. fisfinite x)"
proof (induction xs arbitrary: s)
  case (Cons x xs)
  from Cons.prems have "fisfinite (foldl fadd (fadd s x) xs)" by simp
  from Cons.IH [OF this] have "fisfinite (fadd s x)" "\<forall>x \<in> set xs. fisfinite x" by blast+
  then show ?case using fadd_finite [of s x] by simp
qed simp

lemma fsum_values_nonneg: "\<forall>x \<in> set xs. rep_value x \<Longrightarrow> fisfinite (fsum xs) \<Longrightarrow> fnonneg (fsum xs)"
proof -
  assume 1: "\<forall>x \<in> set xs. rep_value x" "fisfinite (fsum xs)"
  then have "\<forall>x \<in> set xs. fisfinite x" using foldl_fadd_finite [of "Fin 0" xs] by (simp add: fsum_def)
  then have "\<forall>x \<in> set xs. fnonneg x" using 1(1) unfolding rep_value_def by (metis fisfinite.simps(2,3,4))
  then show ?thesis by (intro fsum_nonneg) simp
qed

lemma side_weight_nonneg:
  assumes "config_ok cfg" "pow_fraction L" "\<forall>(n, y, t) \<in> set bs. \<exists>u. rep_at L cfg chain n u (W n)"
    and "fisfinite (side_weight W side bs)"
  shows "fnonneg (side_weight W side bs)"
proof -
  have "rep_value (W n)" if "(n, y, t) \<in> set bs" for n y t
    using assms(3) that active_weight_value [OF assms(1,2)] unfolding rep_at_def by blast
  then have "\<forall>x \<in> set (map (\<lambda>b. W (fst b)) (filter (\<lambda>b. fst (snd b) = side) bs)). rep_value x" by auto
  then show ?thesis using fsum_values_nonneg assms(4) unfolding side_weight_def by blast
qed

lemma supermajority_majority:
  assumes "fval y" "fnonneg y" "fval n" "fnonneg n" "fisfinite (fadd y n)" "\<not> feq (fadd y n) (Fin 0)"
    and "fle (fl 0.51) t" "fdiv y (fadd y n) = Inr q" "\<not> flt q t"
  shows "flt n y"
proof (rule ccontr)
  assume no: "\<not> flt n y"
  obtain a b where ab: "y = Fin a" "n = Fin b" using assms(5) fadd_finite by (metis fisfiniteE)
  then obtain c where c: "fl (a + b) = Fin c" using assms(5) by (auto elim: fisfiniteE)
  have "0 \<le> c" using fl_nonneg [of "a + b"] c ab assms(2,4) by simp
  then have "0 < c" using c ab assms(6) by (auto simp: order_less_le)
  then have q: "q = fl (a / c)" using assms(8) ab c by auto
  have "fle q (fl (1/2))" unfolding q by (rule smaller_share [OF _ _ _ c \<open>0 < c\<close>]) (use ab assms(1,2) no in auto)
  moreover have "fle (fl 0.51) q"
  proof -
    have "t \<noteq> NaN" "q \<noteq> NaN" using assms(7) q by auto
    then have "fle t q" using assms(9) not_fle_flt by blast
    then show ?thesis using assms(7) by (rule fle_trans [rotated])
  qed
  ultimately show False using half_below by (meson fle_trans fle_flt_trans flt_irrefl)
qed

end
