(* ===== verification/Petition.thy ===== *)
theory Petition
  imports Governance_Votes
begin

text \<open>
  \<open>services/infonet/governance/petition.py\<close> and \<open>challenge.py\<close>: the state of a petition, derived from
  the chain: signatures, vote, challenge window, execution; and the challenge against it.
\<close>

definition hours_setting :: "pydict \<Rightarrow> string \<Rightarrow> pyfloat res" where
  "hours_setting cfg key = bnd (cfg_float cfg key) (\<lambda>h. Inr (fmul h seconds_per_hour))"

definition day_setting :: "pydict \<Rightarrow> string \<Rightarrow> pyfloat res" where
  "day_setting cfg key = bnd (cfg_float cfg key) (\<lambda>d. Inr (fmul d seconds_per_day))"

definition about :: "string \<Rightarrow> string \<Rightarrow> pydict \<Rightarrow> bool" where
  "about key ident ev \<longleftrightarrow> get (payload ev) key = PStr ident"

text \<open>The events of a type about a petition (or a proposal), and the first and last of them\<close>

definition of_type :: "string \<Rightarrow> string \<Rightarrow> string \<Rightarrow> chain \<Rightarrow> pydict list" where
  "of_type ty key ident chain = filter (\<lambda>ev. ev_is ty ev \<and> about key ident ev) (events_of chain)"

definition first_event :: "pydict list \<Rightarrow> pydict option" where
  "first_event evs = (case evs of [] \<Rightarrow> None | ev # _ \<Rightarrow> Some ev)"

subsection \<open>Challenges\<close>

datatype challenge_outcome = voided | rejected | pending | none

record challenge_state =
  ch_petition_id :: string
  ch_filed :: bool
  ch_filer_id :: "string option"
  ch_filed_at :: "pyfloat option"
  ch_deadline :: "pyfloat option"
  uphold_weight :: pyfloat
  void_weight :: pyfloat
  ch_outcome :: challenge_outcome

definition no_challenge :: "string \<Rightarrow> challenge_state" where
  "no_challenge petition_id = \<lparr>ch_petition_id = petition_id, ch_filed = False, ch_filer_id = None, ch_filed_at = None,
     ch_deadline = None, uphold_weight = Fin 0, void_weight = Fin 0, ch_outcome = none\<rparr>"

definition compute_challenge_state :: "libm \<Rightarrow> pydict \<Rightarrow> string \<Rightarrow> chain \<Rightarrow> pyfloat \<Rightarrow> challenge_state res" where
  "compute_challenge_state L cfg petition_id chain now =
     (case first_event (of_type ''challenge_file'' ''petition_id'' petition_id chain) of
        None \<Rightarrow> Inr (no_challenge petition_id)
      | Some file_event \<Rightarrow>
          bnd (event_time file_event) (\<lambda>f_at.
          bnd (hours_setting cfg ''challenge_window_hours'') (\<lambda>window.
          let deadline = fadd f_at window in
          bnd (tally_votes (governance_weight L cfg chain) nonempty_str (\<lambda>ts. \<not> flt ts f_at \<and> \<not> flt deadline ts) ''uphold'' ''void''
                 (of_type ''challenge_vote'' ''petition_id'' petition_id chain) []) (\<lambda>t.
            Inr \<lparr>ch_petition_id = petition_id, ch_filed = True, ch_filer_id = Some (py_str (py_or (get file_event ''node_id'') (PStr []))),
                 ch_filed_at = Some f_at, ch_deadline = Some deadline, uphold_weight = for_weight t, void_weight = against_weight t,
                 ch_outcome = (if fle now deadline then pending else if flt (against_weight t) (for_weight t) then voided else rejected)\<rparr>))))"

record governance_verdict =
  gv_accepted :: bool
  gv_reason :: string

definition gov_verdict :: "bool \<Rightarrow> string \<Rightarrow> governance_verdict" where
  "gov_verdict b r = \<lparr>gv_accepted = b, gv_reason = r\<rparr>"

definition validate_challenge_filing :: "libm \<Rightarrow> pydict \<Rightarrow> pyfloat \<Rightarrow> string \<Rightarrow> chain \<Rightarrow> pyfloat \<Rightarrow> governance_verdict res" where
  "validate_challenge_filing L cfg filer_common_rep petition_id chain now =
     bnd (cfg_float cfg ''challenge_filing_cost'') (\<lambda>cost.
       if flt filer_common_rep cost then Inr (gov_verdict False ''insufficient_common_rep'')
       else bnd (compute_challenge_state L cfg petition_id chain now) (\<lambda>s.
         Inr (if ch_filed s then gov_verdict False ''challenge_already_filed'' else gov_verdict True ''ok'')))"

subsection \<open>Petitions\<close>

text \<open>
  \<open>dict(x)\<close>: a dict is copied; a list is read as key-value pairs, each a sequence of two; a repeated key
  keeps its first position and its last value. Keys are compared as Python compares them.
\<close>

definition same_key :: "pyval \<Rightarrow> pyval \<Rightarrow> bool" where
  "same_key a b \<longleftrightarrow> a = b \<or> (case (num_val a, num_val b) of (Some x, Some y) \<Rightarrow> feq x y | _ \<Rightarrow> False)"

fun dict_put :: "pyval \<Rightarrow> pyval \<Rightarrow> (pyval \<times> pyval) list \<Rightarrow> (pyval \<times> pyval) list" where
  "dict_put k v [] = [(k, v)]"
| "dict_put k v ((k', v') # d) = (if same_key k' k then (k', v) # d else (k', v') # dict_put k v d)"

definition pair_of :: "pyval \<Rightarrow> (pyval \<times> pyval) res" where
  "pair_of v = (case v of
       PList [a, b] \<Rightarrow> Inr (a, b) | PStr [c, d] \<Rightarrow> Inr (PStr [c], PStr [d]) | PDict [(a, _), (b, _)] \<Rightarrow> Inr (PStr a, PStr b)
     | PList _ \<Rightarrow> Inl ValueError | PStr _ \<Rightarrow> Inl ValueError | PDict _ \<Rightarrow> Inl ValueError | _ \<Rightarrow> Inl TypeError)"

definition py_dict :: "pyval \<Rightarrow> (pyval \<times> pyval) list res" where
  "py_dict v = (case v of
       PDict d \<Rightarrow> Inr (map (\<lambda>(k, x). (PStr k, x)) d)
     | PList xs \<Rightarrow> foldres (\<lambda>x d. bnd (pair_of x) (\<lambda>(k, y). if hashable k then Inr (dict_put k y d) else Inl TypeError)) xs []
     | PStr s \<Rightarrow> if s = [] then Inr [] else Inl ValueError
     | _ \<Rightarrow> Inl TypeError)"

datatype governance_status = signatures | voting | challenge_open | passed | executed_petition | failed_signatures | failed_vote
  | voided_challenge | not_found

record petition_state =
  ps_petition_id :: string
  ps_status :: governance_status
  ps_filer_id :: string
  ps_filed_at :: pyfloat
  petition_payload :: "(pyval \<times> pyval) list"
  signature_weight :: pyfloat
  signature_threshold :: pyfloat
  votes_for :: pyfloat
  votes_against :: pyfloat
  voting_started_at :: "pyfloat option"
  voting_deadline :: "pyfloat option"
  challenge_window_until :: "pyfloat option"

definition petition_not_found :: "string \<Rightarrow> petition_state" where
  "petition_not_found petition_id = \<lparr>ps_petition_id = petition_id, ps_status = not_found, ps_filer_id = [], ps_filed_at = Fin 0,
     petition_payload = [], signature_weight = Fin 0, signature_threshold = Fin 0, votes_for = Fin 0, votes_against = Fin 0,
     voting_started_at = None, voting_deadline = None, challenge_window_until = None\<rparr>"

type_synonym signing = "string list \<times> pyfloat \<times> weight_cache"

definition sign_step :: "libm \<Rightarrow> pydict \<Rightarrow> chain \<Rightarrow> pyfloat \<Rightarrow> (pyfloat \<times> int) \<times> pydict \<Rightarrow> signing \<Rightarrow> signing res" where
  "sign_step L cfg chain window_end = (\<lambda>((ts, q), ev) (seen, weight, cache). case nonempty_str (get ev ''node_id'') of
       None \<Rightarrow> Inr (seen, weight, cache)
     | Some signer \<Rightarrow>
         if signer \<in> set seen then Inr (seen, weight, cache)
         else if flt window_end ts then Inr (seen @ [signer], weight, cache)
         else bnd (governance_weight L cfg chain signer ts cache) (\<lambda>(w, cache').
                Inr (seen @ [signer], fadd weight w, cache')))"

text \<open>\<open>max(... for e in events if e.get("node_id") in seen, default=d)\<close>\<close>

definition latest_by :: "string list \<Rightarrow> pydict list \<Rightarrow> pyfloat \<Rightarrow> pyfloat res" where
  "latest_by seen events d =
     bnd (mapres (\<lambda>ev. bnd (in_str_set (get ev ''node_id'') seen) (\<lambda>b.
            if b then bnd (event_time ev) (\<lambda>t. Inr (Some t)) else Inr None)) events) (\<lambda>ts.
       Inr (case List.map_filter (\<lambda>t. t) ts of [] \<Rightarrow> d | t # ts' \<Rightarrow> foldl fmax t ts'))"

text \<open>\<open>x or y\<close> for floats\<close>

definition float_or :: "pyfloat \<Rightarrow> pyfloat \<Rightarrow> pyfloat" where
  "float_or x y = (if x = Fin 0 then y else x)"

definition challenge_phase :: "libm \<Rightarrow> pydict \<Rightarrow> chain \<Rightarrow> pyfloat \<Rightarrow> petition_state \<Rightarrow> petition_state res" where
  "challenge_phase L cfg chain now s =
     bnd (hours_setting cfg ''challenge_window_hours'') (\<lambda>window.
     let until = fadd (case voting_deadline s of Some d \<Rightarrow> float_or d (ps_filed_at s) | None \<Rightarrow> ps_filed_at s) window;
         s' = s\<lparr>ps_status := challenge_open, challenge_window_until := Some until\<rparr>
     in bnd (compute_challenge_state L cfg (ps_petition_id s) chain now) (\<lambda>ch.
        Inr (if ch_outcome ch = voided then s'\<lparr>ps_status := voided_challenge\<rparr>
             else if fle now until then s'
             else if of_type ''petition_execute'' ''petition_id'' (ps_petition_id s) chain \<noteq> [] then s'\<lparr>ps_status := executed_petition\<rparr>
             else s'\<lparr>ps_status := passed\<rparr>)))"

definition count_votes :: "libm \<Rightarrow> pydict \<Rightarrow> chain \<Rightarrow> pyfloat \<Rightarrow> pyfloat \<Rightarrow> petition_state \<Rightarrow> petition_state res" where
  "count_votes L cfg chain now network_weight s =
     (let participating = fadd (votes_for s) (votes_against s) in
      bnd (cfg_float cfg ''petition_quorum'') (\<lambda>quorum.
        if flt participating (fmul network_weight quorum) \<or> feq participating (Fin 0) then Inr (s\<lparr>ps_status := failed_vote\<rparr>)
        else bnd (fdiv (votes_for s) participating) (\<lambda>share.
             bnd (cfg_float cfg ''petition_supermajority'') (\<lambda>needed.
               if flt share needed then Inr (s\<lparr>ps_status := failed_vote\<rparr>)
               else challenge_phase L cfg chain now s))))"

definition voting_phase :: "libm \<Rightarrow> pydict \<Rightarrow> chain \<Rightarrow> pyfloat \<Rightarrow> pyfloat \<Rightarrow> weight_cache \<Rightarrow> pyfloat \<Rightarrow> petition_state \<Rightarrow> petition_state res" where
  "voting_phase L cfg chain now network_weight cache started s =
     bnd (day_setting cfg ''petition_vote_window_days'') (\<lambda>window.
     let deadline = fadd started window in
     bnd (tally_votes (governance_weight L cfg chain) nonempty_str (\<lambda>ts. \<not> flt ts started \<and> \<not> flt deadline ts) ''for'' ''against''
            (of_type ''petition_vote'' ''petition_id'' (ps_petition_id s) chain) cache) (\<lambda>t.
       let s' = s\<lparr>ps_status := voting, voting_started_at := Some started, voting_deadline := Some deadline,
                  votes_for := for_weight t, votes_against := against_weight t\<rparr> in
       if fle now deadline then Inr s' else count_votes L cfg chain now network_weight s'))"

definition compute_petition_state :: "libm \<Rightarrow> (string set \<Rightarrow> string list) \<Rightarrow> pydict \<Rightarrow> string \<Rightarrow> chain \<Rightarrow> pyfloat \<Rightarrow> petition_state res" where
  "compute_petition_state L set_order cfg petition_id chain now =
     (case first_event (of_type ''petition_file'' ''petition_id'' petition_id chain) of
        None \<Rightarrow> Inr (petition_not_found petition_id)
      | Some file_event \<Rightarrow>
          bnd (event_time file_event) (\<lambda>f_at.
          bnd (py_dict (py_or (get (payload file_event) ''petition_payload'') (PDict []))) (\<lambda>body.
          bnd (network_governance_weight L set_order cfg chain now) (\<lambda>network_weight.
          bnd (cfg_float cfg ''petition_signature_threshold'') (\<lambda>share.
          bnd (day_setting cfg ''petition_signature_window_days'') (\<lambda>window.
          let signs = of_type ''petition_sign'' ''petition_id'' petition_id chain; threshold = fmul network_weight share in
          bnd (sort_events signs) (\<lambda>keyed.
          bnd (foldres (sign_step L cfg chain (fadd f_at window)) keyed ([], Fin 0, [])) (\<lambda>(seen, weight, cache).
          let s = (petition_not_found petition_id)\<lparr>ps_status := signatures, ps_filer_id := py_str (py_or (get file_event ''node_id'') (PStr [])),
                     ps_filed_at := f_at, petition_payload := body, signature_weight := weight, signature_threshold := threshold\<rparr> in
          if fle threshold weight \<and> flt (Fin 0) threshold
          then bnd (latest_by seen signs f_at) (\<lambda>started. voting_phase L cfg chain now network_weight cache started s)
          else Inr (if flt (fadd f_at window) now then s\<lparr>ps_status := failed_signatures\<rparr> else s)))))))))"

definition validate_petition_filing :: "pydict \<Rightarrow> pyfloat \<Rightarrow> pyval \<Rightarrow> governance_verdict res" where
  "validate_petition_filing cfg filer_common_rep body =
     bnd (cfg_float cfg ''petition_filing_cost'') (\<lambda>cost.
       Inr (if flt filer_common_rep cost then gov_verdict False ''insufficient_common_rep''
            else case body of
                PDict d \<Rightarrow> if has_key d ''type'' then gov_verdict True ''ok'' else gov_verdict False ''petition_payload_missing_type''
              | _ \<Rightarrow> gov_verdict False ''petition_payload_not_object''))"

subsection \<open>What a passed petition rests on\<close>

text \<open>The first signature of each node, with its time, in the order of time and sequence.\<close>

fun first_signs :: "(pyval \<Rightarrow> string option) \<Rightarrow> ((pyfloat \<times> int) \<times> pydict) list \<Rightarrow> (string \<times> pyfloat) list" where
  "first_signs who [] = []"
| "first_signs who (k # ks) = (case who (get (snd k) ''node_id'') of
       None \<Rightarrow> first_signs who ks
     | Some n \<Rightarrow> (n, fst (fst k)) # filter (\<lambda>x. fst x \<noteq> n) (first_signs who ks))"

lemma sign_loop_exact:
  "foldres (sign_step L cfg chain window_end) keyed (seen0, w0, c0) = Inr (seen, w, c) \<Longrightarrow>
    fresh = filter (\<lambda>x. fst x \<notin> set seen0) (first_signs nonempty_str keyed) \<Longrightarrow> sigs = filter (\<lambda>x. \<not> flt window_end (snd x)) fresh \<Longrightarrow>
    seen = seen0 @ map fst fresh \<and> memo_of (rep_at L cfg chain) c0 sigs c \<and> w = foldl fadd w0 (map (\<lambda>x. cached c (fst x)) sigs)"
proof (induction keyed arbitrary: seen0 w0 c0 fresh sigs)
  case Nil
  then show ?case by (simp add: memo_Nil)
next
  case (Cons k ks)
  obtain ts q ev where k: "k = ((ts, q), ev)" by (metis surj_pair)
  from Cons.prems(1) obtain seen1 w1 c1 where st: "sign_step L cfg chain window_end k (seen0, w0, c0) = Inr (seen1, w1, c1)"
    "foldres (sign_step L cfg chain window_end) ks (seen1, w1, c1) = Inr (seen, w, c)" by (auto simp: bnd_eq_Inr)
  note ih = Cons.IH [OF st(2) refl refl]
  show ?case
  proof (cases "nonempty_str (get ev ''node_id'')")
    case None
    then show ?thesis using ih st(1) Cons.prems(2,3) by (simp add: k sign_step_def)
  next
    case (Some n)
    show ?thesis
    proof (cases "n \<in> set seen0")
      case True
      then have "fresh = filter (\<lambda>x. fst x \<notin> set seen0) (first_signs nonempty_str ks)"
        using Cons.prems(2) Some by (auto simp: k intro: filter_cong)
      then show ?thesis using ih st(1) Cons.prems(3) Some True by (simp add: k sign_step_def)
    next
      case False
      let ?rest = "filter (\<lambda>x. fst x \<notin> set (seen0 @ [n])) (first_signs nonempty_str ks)"
      have fresh: "fresh = (n, ts) # ?rest" using Cons.prems(2) Some False by (simp add: k conj_commute)
      show ?thesis
      proof (cases "flt window_end ts")
        case True
        then have "seen1 = seen0 @ [n]" "w1 = w0" "c1 = c0" using st(1) Some False by (simp_all add: k sign_step_def)
        then show ?thesis using ih Cons.prems(3) True by (simp add: fresh)
      next
        case late: False
        obtain wt where wt: "governance_weight L cfg chain n ts c0 = Inr (wt, c1)" and r: "seen1 = seen0 @ [n]" "w1 = fadd w0 wt"
          using st(1) Some False late by (auto simp: k sign_step_def bnd_eq_Inr)
        let ?more = "filter (\<lambda>x. \<not> flt window_end (snd x)) ?rest"
        have sigs: "sigs = (n, ts) # ?more" using Cons.prems(3) late by (simp add: fresh)
        have "n \<notin> fst ` set ?more" by auto
        from gov.memo_Cons [OF wt, of ?more c] ih this have "memo_of (rep_at L cfg chain) c0 sigs c \<and> cached c n = wt" by (simp add: r(1) sigs)
        then show ?thesis using ih by (simp add: r fresh sigs)
      qed
    qed
  qed
qed

text \<open>The vote met the quorum of the network's weight and the supermajority of the weight cast.\<close>

definition vote_carried :: "pydict \<Rightarrow> pyfloat \<Rightarrow> petition_state \<Rightarrow> bool" where
  "vote_carried cfg network_weight s \<longleftrightarrow> (\<exists>quorum needed share. cfg_float cfg ''petition_quorum'' = Inr quorum
     \<and> cfg_float cfg ''petition_supermajority'' = Inr needed
     \<and> \<not> flt (fadd (votes_for s) (votes_against s)) (fmul network_weight quorum) \<and> \<not> feq (fadd (votes_for s) (votes_against s)) (Fin 0)
     \<and> fdiv (votes_for s) (fadd (votes_for s) (votes_against s)) = Inr share \<and> \<not> flt share needed)"

text \<open>
  A challenge does not stand: it was not filed, or its own window (which starts at its filing) is still
  open, or the weight that upholds it does not exceed the weight that rejects it. Each node that voted on
  the challenge weighs its active reputation at the time of its vote.
\<close>

definition challenge_lost :: "libm \<Rightarrow> pydict \<Rightarrow> chain \<Rightarrow> string \<Rightarrow> pyfloat \<Rightarrow> pyfloat \<Rightarrow> bool" where
  "challenge_lost L cfg chain pid window now \<longleftrightarrow> (\<forall>cev. first_event (of_type ''challenge_file'' ''petition_id'' pid chain) = Some cev \<longrightarrow>
     (\<exists>c_at c_end keyed bs W. event_time cev = Inr c_at \<and> c_end = fadd c_at window
        \<and> sort_events (of_type ''challenge_vote'' ''petition_id'' pid chain) = Inr keyed
        \<and> bs = first_ballots nonempty_str (\<lambda>t. \<not> flt t c_at \<and> \<not> flt c_end t) ''uphold'' ''void'' keyed
        \<and> (\<forall>(n, y, t) \<in> set bs. rep_at L cfg chain n t (W n))
        \<and> (fle now c_end \<or> \<not> flt (side_weight W False bs) (side_weight W True bs))))"

definition challenge_cleared :: "libm \<Rightarrow> pydict \<Rightarrow> chain \<Rightarrow> pyfloat \<Rightarrow> petition_state \<Rightarrow> bool" where
  "challenge_cleared L cfg chain now s \<longleftrightarrow> (\<exists>hours d until. cfg_float cfg ''challenge_window_hours'' = Inr hours \<and> voting_deadline s = Some d
     \<and> until = fadd (float_or d (ps_filed_at s)) (fmul hours seconds_per_hour) \<and> challenge_window_until s = Some until \<and> \<not> fle now until
     \<and> challenge_lost L cfg chain (ps_petition_id s) (fmul hours seconds_per_hour) now)"

lemma memo_acts:
  assumes "memo_of (rep_at L cfg chain) [] (acts_of bs) c" "(n, y, t) \<in> set bs"
  shows "rep_at L cfg chain n t (cached c n)"
proof -
  have "(n, t) \<in> set (acts_of bs)" using assms(2) by (force simp: acts_of_def)
  then show ?thesis using assms(1) unfolding memo_of_def by fastforce
qed

lemma challenge_not_voided:
  assumes "compute_challenge_state L cfg pid chain now = Inr ch" "ch_outcome ch \<noteq> voided" "hours_setting cfg ''challenge_window_hours'' = Inr window"
  shows "challenge_lost L cfg chain pid window now"
  unfolding challenge_lost_def
proof (intro allI impI)
  fix cev assume cev: "first_event (of_type ''challenge_file'' ''petition_id'' pid chain) = Some cev"
  obtain c_at t where c: "event_time cev = Inr c_at"
    "tally_votes (governance_weight L cfg chain) nonempty_str (\<lambda>ts. \<not> flt ts c_at \<and> \<not> flt (fadd c_at window) ts) ''uphold'' ''void''
                 (of_type ''challenge_vote'' ''petition_id'' pid chain) [] = Inr t"
    using assms(1,3) cev by (auto simp: compute_challenge_state_def Let_def bnd_eq_Inr)
  then have oc: "ch_outcome ch = (if fle now (fadd c_at window) then pending else if flt (against_weight t) (for_weight t) then voided else rejected)"
    using assms(1,3) cev by (auto simp: compute_challenge_state_def Let_def)
  from gov.tally_exact [OF c(2)] obtain keyed where k: "sort_events (of_type ''challenge_vote'' ''petition_id'' pid chain) = Inr keyed"
    and e: "memo_of (rep_at L cfg chain) [] (acts_of (first_ballots nonempty_str (\<lambda>ts. \<not> flt ts c_at \<and> \<not> flt (fadd c_at window) ts) ''uphold'' ''void'' keyed)) (ta_cache t)"
      "for_weight t = side_weight (cached (ta_cache t)) True (first_ballots nonempty_str (\<lambda>ts. \<not> flt ts c_at \<and> \<not> flt (fadd c_at window) ts) ''uphold'' ''void'' keyed)"
      "against_weight t = side_weight (cached (ta_cache t)) False (first_ballots nonempty_str (\<lambda>ts. \<not> flt ts c_at \<and> \<not> flt (fadd c_at window) ts) ''uphold'' ''void'' keyed)"
    by blast
  have "fle now (fadd c_at window) \<or> \<not> flt (against_weight t) (for_weight t)" using assms(2) oc by auto
  with c(1) k e(2,3) memo_acts [OF e(1)]
  show "\<exists>c_at c_end keyed bs W. event_time cev = Inr c_at \<and> c_end = fadd c_at window
        \<and> sort_events (of_type ''challenge_vote'' ''petition_id'' pid chain) = Inr keyed
        \<and> bs = first_ballots nonempty_str (\<lambda>t. \<not> flt t c_at \<and> \<not> flt c_end t) ''uphold'' ''void'' keyed
        \<and> (\<forall>(n, y, t) \<in> set bs. rep_at L cfg chain n t (W n))
        \<and> (fle now c_end \<or> \<not> flt (side_weight W False bs) (side_weight W True bs))"
    by (intro exI [of _ c_at] exI [of _ "fadd c_at window"] exI [of _ keyed] exI [of _ "cached (ta_cache t)"] exI conjI refl) auto
qed

lemma challenge_phase_passed:
  assumes "challenge_phase L cfg chain now s = Inr s'" "ps_status s' \<in> {passed, executed_petition}" "voting_deadline s = Some d"
  shows "challenge_cleared L cfg chain now s' \<and> (ps_status s' = executed_petition \<longleftrightarrow> of_type ''petition_execute'' ''petition_id'' (ps_petition_id s') chain \<noteq> [])
    \<and> (\<exists>st u. s' = s\<lparr>challenge_window_until := u, ps_status := st\<rparr>)"
proof -
  obtain hours ch where w: "cfg_float cfg ''challenge_window_hours'' = Inr hours" "compute_challenge_state L cfg (ps_petition_id s) chain now = Inr ch"
    using assms(1) by (auto simp: challenge_phase_def hours_setting_def Let_def bnd_eq_Inr)
  let ?window = "fmul hours seconds_per_hour"
  have hs: "hours_setting cfg ''challenge_window_hours'' = Inr ?window" using w(1) by (simp add: hours_setting_def)
  let ?u = "fadd (float_or d (ps_filed_at s)) ?window"
  let ?s = "s\<lparr>ps_status := challenge_open, challenge_window_until := Some ?u\<rparr>"
  have s': "s' = (if ch_outcome ch = voided then ?s\<lparr>ps_status := voided_challenge\<rparr>
      else if fle now ?u then ?s
      else if of_type ''petition_execute'' ''petition_id'' (ps_petition_id s) chain \<noteq> [] then ?s\<lparr>ps_status := executed_petition\<rparr>
      else ?s\<lparr>ps_status := passed\<rparr>)"
    using assms(1,3) w(2) hs by (auto simp: challenge_phase_def Let_def)
  then have c: "ch_outcome ch \<noteq> voided" "\<not> fle now ?u" using assms(2) by (auto split: if_splits)
  have "challenge_lost L cfg chain (ps_petition_id s) ?window now" by (rule challenge_not_voided [OF w(2) c(1) hs])
  with s' w(1) c assms(3) show ?thesis by (auto simp: challenge_cleared_def)
qed

lemma count_votes_passed:
  assumes "count_votes L cfg chain now network_weight s = Inr s'" "ps_status s' \<in> {passed, executed_petition}"
  shows "vote_carried cfg network_weight s \<and> challenge_phase L cfg chain now s = Inr s'"
proof -
  let ?p = "fadd (votes_for s) (votes_against s)"
  obtain quorum where q: "cfg_float cfg ''petition_quorum'' = Inr quorum" using assms(1) by (auto simp: count_votes_def Let_def bnd_eq_Inr)
  have n: "\<not> (flt ?p (fmul network_weight quorum) \<or> feq ?p (Fin 0))"
  proof
    assume "flt ?p (fmul network_weight quorum) \<or> feq ?p (Fin 0)"
    then have "s' = s\<lparr>ps_status := failed_vote\<rparr>" using assms(1) q by (simp add: count_votes_def Let_def)
    then show False using assms(2) by simp
  qed
  obtain share needed where sh: "fdiv (votes_for s) ?p = Inr share" "cfg_float cfg ''petition_supermajority'' = Inr needed"
    using assms(1) q n by (auto simp: count_votes_def Let_def bnd_eq_Inr)
  have "\<not> flt share needed"
  proof
    assume "flt share needed"
    then have "s' = s\<lparr>ps_status := failed_vote\<rparr>" using assms(1) q n sh by (simp add: count_votes_def Let_def)
    then show False using assms(2) by simp
  qed
  then show ?thesis using assms(1) q n sh by (auto simp: count_votes_def Let_def vote_carried_def)
qed

lemma vote_carried_majority:
  assumes "config_ok cfg" "vote_carried cfg N s" "fval (votes_for s)" "fnonneg (votes_for s)" "fval (votes_against s)" "fnonneg (votes_against s)"
    and "fisfinite (fadd (votes_for s) (votes_against s))"
  shows "flt (votes_against s) (votes_for s)"
proof -
  obtain quorum needed share where v: "cfg_float cfg ''petition_quorum'' = Inr quorum" "cfg_float cfg ''petition_supermajority'' = Inr needed"
    "\<not> feq (fadd (votes_for s) (votes_against s)) (Fin 0)" "fdiv (votes_for s) (fadd (votes_for s) (votes_against s)) = Inr share" "\<not> flt share needed"
    using assms(2) by (auto simp: vote_carried_def)
  have "flt quorum needed"
    by (rule cross_float [OF assms(1) _ _ _ v(2,1)])
       (simp_all add: cross_field_invariants_def float_keyI [OF schema_petition_supermajority] float_keyI [OF schema_petition_quorum])
  then have "needed \<noteq> NaN" by auto
  then have "fle (fl 0.51) needed" using read_petition_supermajority [OF assms(1)] v(2) by auto
  from supermajority_majority [OF assms(3-7) v(3) this v(4,5)] show ?thesis .
qed

text \<open>
  The vote of a petition: it starts with the latest signature of a signer, is over, and counts the first
  ballot of each node inside the window, at the reputation of the node when it signed or, if it did not
  sign in time, when it voted; it is carried against the weight of the network.
\<close>

definition petition_signed :: "libm \<Rightarrow> pydict \<Rightarrow> chain \<Rightarrow> string \<Rightarrow> pyfloat \<Rightarrow> (string \<times> pyfloat) list \<Rightarrow> petition_state \<Rightarrow> bool" where
  "petition_signed L cfg chain pid network_weight sigs s \<longleftrightarrow> (\<exists>fev keyed days share W.
     first_event (of_type ''petition_file'' ''petition_id'' pid chain) = Some fev \<and> event_time fev = Inr (ps_filed_at s)
     \<and> sort_events (of_type ''petition_sign'' ''petition_id'' pid chain) = Inr keyed
     \<and> cfg_float cfg ''petition_signature_window_days'' = Inr days \<and> cfg_float cfg ''petition_signature_threshold'' = Inr share
     \<and> sigs = filter (\<lambda>x. \<not> flt (fadd (ps_filed_at s) (fmul days seconds_per_day)) (snd x)) (first_signs nonempty_str keyed)
     \<and> (\<forall>(n, t) \<in> set sigs. rep_at L cfg chain n t (W n))
     \<and> signature_weight s = fsum (map (\<lambda>x. W (fst x)) sigs) \<and> signature_threshold s = fmul network_weight share
     \<and> fle (fmul network_weight share) (signature_weight s) \<and> flt (Fin 0) (fmul network_weight share)
     \<and> (\<exists>started. latest_by (map fst (first_signs nonempty_str keyed)) (of_type ''petition_sign'' ''petition_id'' pid chain) (ps_filed_at s) = Inr started
          \<and> voting_started_at s = Some started))"

definition petition_voted :: "libm \<Rightarrow> pydict \<Rightarrow> chain \<Rightarrow> string \<Rightarrow> pyfloat \<Rightarrow> pyfloat \<Rightarrow> (string \<times> pyfloat) list \<Rightarrow> petition_state \<Rightarrow> bool" where
  "petition_voted L cfg chain pid now network_weight sigs s \<longleftrightarrow> (\<exists>started days d keyed bs W.
     voting_started_at s = Some started \<and> cfg_float cfg ''petition_vote_window_days'' = Inr days \<and> d = fadd started (fmul days seconds_per_day)
     \<and> voting_deadline s = Some d \<and> \<not> fle now d
     \<and> sort_events (of_type ''petition_vote'' ''petition_id'' pid chain) = Inr keyed
     \<and> bs = first_ballots nonempty_str (\<lambda>t. \<not> flt t started \<and> \<not> flt d t) ''for'' ''against'' keyed
     \<and> (\<forall>(n, y, t) \<in> set bs. rep_at L cfg chain n (case map_of sigs n of Some u \<Rightarrow> u | None \<Rightarrow> t) (W n))
     \<and> votes_for s = side_weight W True bs \<and> votes_against s = side_weight W False bs
     \<and> vote_carried cfg network_weight s)"

lemma memo_pair:
  assumes "memo_of (rep_at L cfg chain) [] sigs c1" "memo_of (rep_at L cfg chain) c1 (acts_of bs) c2" "(n, y, t) \<in> set bs"
  shows "rep_at L cfg chain n (case map_of sigs n of Some u \<Rightarrow> u | None \<Rightarrow> t) (cached c2 n)"
proof (cases "map_of sigs n")
  case None
  then have "n \<notin> dom (map_of c1)" using assms(1) by (simp add: memo_of_def map_of_eq_None_iff)
  moreover have "(n, t) \<in> set (acts_of bs)" using assms(3) by (force simp: acts_of_def)
  ultimately show ?thesis using assms(2) None unfolding memo_of_def by fastforce
next
  case (Some u)
  then have "(n, u) \<in> set sigs" by (rule map_of_SomeD)
  then have "rep_at L cfg chain n u (cached c1 n)" "n \<in> dom (map_of c1)"
    using assms(1) unfolding memo_of_def by force+
  then show ?thesis using Some cached_mono [of c1 c2 n] assms(2) by (simp add: memo_of_def)
qed

lemma voting_phase_passed:
  assumes "voting_phase L cfg chain now N cache started s0 = Inr s" "ps_status s \<in> {passed, executed_petition}"
    and "memo_of (rep_at L cfg chain) [] sigs cache"
  shows "petition_voted L cfg chain (ps_petition_id s0) now N sigs s \<and> challenge_cleared L cfg chain now s
    \<and> (ps_status s = executed_petition \<longleftrightarrow> of_type ''petition_execute'' ''petition_id'' (ps_petition_id s0) chain \<noteq> [])
    \<and> signature_weight s = signature_weight s0 \<and> signature_threshold s = signature_threshold s0 \<and> ps_filed_at s = ps_filed_at s0
    \<and> voting_started_at s = Some started"
proof -
  let ?votes = "of_type ''petition_vote'' ''petition_id'' (ps_petition_id s0) chain"
  obtain days t where days: "cfg_float cfg ''petition_vote_window_days'' = Inr days"
    and t: "tally_votes (governance_weight L cfg chain) nonempty_str (\<lambda>ts. \<not> flt ts started \<and> \<not> flt (fadd started (fmul days seconds_per_day)) ts) ''for'' ''against'' ?votes cache = Inr t"
    using assms(1) by (auto simp: voting_phase_def day_setting_def Let_def bnd_eq_Inr)
  let ?d = "fadd started (fmul days seconds_per_day)"
  define s1 where "s1 = s0\<lparr>ps_status := voting, voting_started_at := Some started, voting_deadline := Some ?d,
                  votes_for := for_weight t, votes_against := against_weight t\<rparr>"
  have e1: "(if fle now ?d then Inr s1 else count_votes L cfg chain now N s1) = Inr s"
    using assms(1) days t by (auto simp: voting_phase_def day_setting_def Let_def s1_def)
  then have over: "\<not> fle now ?d" using assms(2) by (auto simp: s1_def split: if_splits)
  then have c: "vote_carried cfg N s1" "challenge_phase L cfg chain now s1 = Inr s" using e1 count_votes_passed assms(2) by auto
  have "voting_deadline s1 = Some ?d" by (simp add: s1_def)
  note ch = challenge_phase_passed [OF c(2) assms(2) this]
  then obtain st u where s: "s = s1\<lparr>challenge_window_until := u, ps_status := st\<rparr>" by blast
  obtain keyed where k: "sort_events ?votes = Inr keyed" and b: "memo_of (rep_at L cfg chain) cache
      (acts_of (first_ballots nonempty_str (\<lambda>ts. \<not> flt ts started \<and> \<not> flt ?d ts) ''for'' ''against'' keyed)) (ta_cache t)"
    "for_weight t = side_weight (cached (ta_cache t)) True (first_ballots nonempty_str (\<lambda>ts. \<not> flt ts started \<and> \<not> flt ?d ts) ''for'' ''against'' keyed)"
    "against_weight t = side_weight (cached (ta_cache t)) False (first_ballots nonempty_str (\<lambda>ts. \<not> flt ts started \<and> \<not> flt ?d ts) ''for'' ''against'' keyed)"
    using gov.tally_exact [OF t] by blast
  have f: "voting_started_at s = Some started" "voting_deadline s = Some ?d" "votes_for s = for_weight t" "votes_against s = against_weight t"
    "ps_petition_id s = ps_petition_id s0" "signature_weight s = signature_weight s0" "signature_threshold s = signature_threshold s0"
    "ps_filed_at s = ps_filed_at s0" by (simp_all add: s s1_def)
  have "vote_carried cfg N s" using c(1) s by (simp add: vote_carried_def)
  then have "petition_voted L cfg chain (ps_petition_id s0) now N sigs s" unfolding petition_voted_def
    using f days over k b(2,3) memo_pair [OF assms(3) b(1)]
    by (intro exI [of _ started] exI [of _ days] exI [of _ ?d] exI [of _ keyed] exI [of _ "cached (ta_cache t)"] exI conjI refl) auto
  then show ?thesis using ch f by simp
qed

lemma petition_reaches_vote:
  assumes "compute_petition_state L set_order cfg pid chain now = Inr s" "ps_status s \<in> {passed, executed_petition}"
  shows "\<exists>N sigs. network_governance_weight L set_order cfg chain now = Inr N \<and> petition_signed L cfg chain pid N sigs s
    \<and> petition_voted L cfg chain pid now N sigs s \<and> challenge_cleared L cfg chain now s
    \<and> (ps_status s = executed_petition \<longleftrightarrow> of_type ''petition_execute'' ''petition_id'' pid chain \<noteq> [])"
proof -
  let ?signs = "of_type ''petition_sign'' ''petition_id'' pid chain"
  obtain fev where fev: "first_event (of_type ''petition_file'' ''petition_id'' pid chain) = Some fev"
    using assms by (cases "first_event (of_type ''petition_file'' ''petition_id'' pid chain)") (auto simp: compute_petition_state_def petition_not_found_def)
  obtain f_at body N share days keyed seen weight cache where
    r: "event_time fev = Inr f_at" "network_governance_weight L set_order cfg chain now = Inr N" "cfg_float cfg ''petition_signature_threshold'' = Inr share"
    "cfg_float cfg ''petition_signature_window_days'' = Inr days" "sort_events ?signs = Inr keyed"
    "foldres (sign_step L cfg chain (fadd f_at (fmul days seconds_per_day))) keyed ([], Fin 0, []) = Inr (seen, weight, cache)"
    and rest: "(let s0 = (petition_not_found pid)\<lparr>ps_status := signatures, ps_filer_id := py_str (py_or (get fev ''node_id'') (PStr [])),
                     ps_filed_at := f_at, petition_payload := body, signature_weight := weight, signature_threshold := fmul N share\<rparr> in
          if fle (fmul N share) weight \<and> flt (Fin 0) (fmul N share)
          then bnd (latest_by seen ?signs f_at) (\<lambda>started. voting_phase L cfg chain now N cache started s0)
          else Inr (if flt (fadd f_at (fmul days seconds_per_day)) now then s0\<lparr>ps_status := failed_signatures\<rparr> else s0)) = Inr s"
    using assms(1) fev unfolding compute_petition_state_def day_setting_def by (auto simp: bnd_eq_Inr Let_def)
  let ?close = "fadd f_at (fmul days seconds_per_day)"
  define s0 where "s0 = (petition_not_found pid)\<lparr>ps_status := signatures, ps_filer_id := py_str (py_or (get fev ''node_id'') (PStr [])),
                     ps_filed_at := f_at, petition_payload := body, signature_weight := weight, signature_threshold := fmul N share\<rparr>"
  have th: "fle (fmul N share) weight \<and> flt (Fin 0) (fmul N share)"
  proof (rule ccontr)
    assume "\<not> ?thesis"
    then have "s = (if flt ?close now then s0\<lparr>ps_status := failed_signatures\<rparr> else s0)" using rest by (auto simp: Let_def s0_def)
    then show False using assms(2) by (auto simp: s0_def split: if_splits)
  qed
  then obtain started where l: "latest_by seen ?signs f_at = Inr started" and v: "voting_phase L cfg chain now N cache started s0 = Inr s"
    using rest by (auto simp: Let_def s0_def bnd_eq_Inr)
  define sigs where "sigs = filter (\<lambda>x. \<not> flt ?close (snd x)) (first_signs nonempty_str keyed)"
  have e: "seen = map fst (first_signs nonempty_str keyed)" "memo_of (rep_at L cfg chain) [] sigs cache" "weight = fsum (map (\<lambda>x. cached cache (fst x)) sigs)"
    using sign_loop_exact [OF r(6) refl refl] by (simp_all add: sigs_def fsum_def)
  have s0: "ps_petition_id s0 = pid" "signature_weight s0 = weight" "signature_threshold s0 = fmul N share" "ps_filed_at s0 = f_at"
    by (simp_all add: s0_def petition_not_found_def)
  note p = voting_phase_passed [OF v assms(2) e(2), unfolded s0]
  have W: "\<forall>(n, t) \<in> set sigs. rep_at L cfg chain n t (cached cache n)" using e(2) by (auto simp: memo_of_def)
  have "petition_signed L cfg chain pid N sigs s" unfolding petition_signed_def
    by (rule exI [of _ fev], rule exI [of _ keyed], rule exI [of _ days], rule exI [of _ share], rule exI [of _ "cached cache"])
       (use p r fev th e W l in \<open>simp add: sigs_def\<close>)
  with p r(2) show ?thesis by blast
qed

text \<open>
  C20: a petition passes, and only then is executed, by the weight of the network. If the state of a
  petition is passed or executed, then it was filed, and its signatures are exactly the first of each
  node, those later than the configured days after the filing left out; with each node weighing its
  active reputation at its signature they reach the configured fraction of the network's weight, which is
  positive. The vote starts with the latest signature, lasts the configured days and is over; it counts
  exactly the first ballot of each node inside that time, at the node's reputation when it signed or else
  voted, and meets the configured quorum of the network's weight and the supermajority. The challenge
  window after it is over too, and no challenge stands: none was filed, or the weight upholding it is not
  the greater, or it is still being voted on. Under an acceptable configuration the weight in favour
  exceeds the weight against. It counts as executed exactly if an execution is on the chain.
\<close>

theorem petition_passes_by_vote:
  assumes "config_ok cfg" "pow_fraction L"
    and "compute_petition_state L set_order cfg pid chain now = Inr s" "ps_status s \<in> {passed, executed_petition}"
  shows "(\<exists>N sigs. network_governance_weight L set_order cfg chain now = Inr N \<and> petition_signed L cfg chain pid N sigs s
         \<and> petition_voted L cfg chain pid now N sigs s)
    \<and> (fisfinite (fadd (votes_for s) (votes_against s)) \<longrightarrow> flt (votes_against s) (votes_for s))
    \<and> challenge_cleared L cfg chain now s
    \<and> (ps_status s = executed_petition \<longleftrightarrow> of_type ''petition_execute'' ''petition_id'' pid chain \<noteq> [])"
proof -
  obtain N sigs where p: "network_governance_weight L set_order cfg chain now = Inr N" "petition_signed L cfg chain pid N sigs s"
    "petition_voted L cfg chain pid now N sigs s" "challenge_cleared L cfg chain now s"
    "ps_status s = executed_petition \<longleftrightarrow> of_type ''petition_execute'' ''petition_id'' pid chain \<noteq> []"
    using petition_reaches_vote [OF assms(3,4)] by blast
  have "flt (votes_against s) (votes_for s)" if fin: "fisfinite (fadd (votes_for s) (votes_against s))"
  proof -
    from p(3) obtain bs W where b: "\<forall>(n, y, t) \<in> set bs. rep_at L cfg chain n (case map_of sigs n of Some u \<Rightarrow> u | None \<Rightarrow> t) (W n)"
      "votes_for s = side_weight W True bs" "votes_against s = side_weight W False bs" "vote_carried cfg N s"
      unfolding petition_voted_def by blast
    then have "\<forall>(n, y, t) \<in> set bs. \<exists>u. rep_at L cfg chain n u (W n)" by fast
    from side_weight_nonneg [OF assms(1,2) this] have "fnonneg (votes_for s)" "fnonneg (votes_against s)"
      using fadd_finite [OF fin] b(2,3) by simp_all
    moreover have "fval (votes_for s)" "fval (votes_against s)" using b by (simp_all add: side_weight_def)
    ultimately show ?thesis using vote_carried_majority [OF assms(1) b(4)] fin by blast
  qed
  then show ?thesis using p by blast
qed

text \<open>
  The vote starts with the latest event of a signer, a repeated signature included: whoever signed may
  sign again during the vote, and the ballots cast before no longer count.
\<close>

lemma signing_again_moves_vote:
  defines "signed \<equiv> \<lambda>t. [(''event_type'', PStr ''petition_sign''), (''node_id'', PStr ''a''), (''timestamp'', PInt t), (''payload'', PDict [(''petition_id'', PStr ''p'')])]"
  shows "first_signs nonempty_str [((Fin 1, 0), signed 1), ((Fin 9, 0), signed 9)] = [(''a'', Fin 1)]
    \<and> latest_by [''a''] [signed 1] d = Inr (Fin 1) \<and> latest_by [''a''] [signed 1, signed 9] d = Inr (Fin 9)"
  by (simp add: signed_def latest_by_def in_str_set_def in_strs_def event_time_def py_or_def List.map_filter_def fmax_def)

text \<open>A challenge filed late in the challenge window is still open when the petition counts as passed.\<close>

lemma passed_while_challenged:
  defines "chain \<equiv> [PDict [(''event_type'', PStr ''challenge_file''), (''node_id'', PStr ''b''), (''timestamp'', PInt 100), (''payload'', PDict [(''petition_id'', PStr ''p'')])]]"
    and "s \<equiv> (petition_not_found ''p'')\<lparr>voting_deadline := Some (Fin 50)\<rparr>"
  shows "(\<exists>s'. challenge_phase L baseline_config chain (Fin 172860) s = Inr s' \<and> ps_status s' = passed)
    \<and> (\<exists>ch. compute_challenge_state L baseline_config ''p'' chain (Fin 172860) = Inr ch \<and> ch_outcome ch = pending)"
proof -
  have "\<exists>ch. compute_challenge_state L baseline_config ''p'' chain (Fin 172860) = Inr ch \<and> ch_outcome ch = pending"
    by (simp add: compute_challenge_state_def chain_def of_type_def ev_is_def about_def payload_def first_event_def event_time_def py_or_def
        hours_setting_def seconds_per_hour_def cfg_simps tally_votes_def sort_events_def empty_tally_def Let_def)
  then obtain ch where ch: "compute_challenge_state L baseline_config ''p'' chain (Fin 172860) = Inr ch" "ch_outcome ch = pending" by blast
  moreover have "of_type ''petition_execute'' ''petition_id'' ''p'' chain = []" by (simp add: of_type_def chain_def ev_is_def)
  ultimately show ?thesis
    by (simp add: challenge_phase_def s_def petition_not_found_def hours_setting_def seconds_per_hour_def cfg_simps float_or_def Let_def)
qed

text \<open>A node with reputation that files, signs and carries a petition and an upgrade\<close>

definition gov_example :: chain where
  "gov_example =
    [PDict [(''event_type'', PStr ''prediction_create''), (''node_id'', PStr ''a''), (''payload'', PDict [(''market_id'', PStr ''m'')])],
     PDict [(''event_type'', PStr ''market_snapshot''), (''timestamp'', PFloat (Fin 1)),
            (''payload'', PDict [(''market_id'', PStr ''m''), (''frozen_participant_count'', PInt 5), (''frozen_total_stake'', PFloat (Fin 10))])],
     PDict [(''event_type'', PStr ''prediction_place''), (''node_id'', PStr ''a''), (''timestamp'', PFloat (Fin 2)),
            (''payload'', PDict [(''market_id'', PStr ''m''), (''side'', PStr ''yes''), (''stake_amount'', PFloat (Fin 10))])],
     PDict [(''event_type'', PStr ''resolution_finalize''), (''timestamp'', PFloat (Fin 3)),
            (''payload'', PDict [(''market_id'', PStr ''m''), (''outcome'', PStr ''yes''), (''is_provisional'', PBool False)])],
     PDict [(''event_type'', PStr ''petition_file''), (''node_id'', PStr ''a''), (''timestamp'', PInt 86403),
            (''payload'', PDict [(''petition_id'', PStr ''p''), (''petition_payload'', PDict [(''type'', PStr ''UPDATE_PARAM'')])])],
     PDict [(''event_type'', PStr ''petition_sign''), (''node_id'', PStr ''a''), (''timestamp'', PInt 86403), (''sequence'', PInt 1),
            (''payload'', PDict [(''petition_id'', PStr ''p'')])],
     PDict [(''event_type'', PStr ''petition_vote''), (''node_id'', PStr ''a''), (''timestamp'', PInt 86403), (''sequence'', PInt 2),
            (''payload'', PDict [(''petition_id'', PStr ''p''), (''vote'', PStr ''for'')])],
     PDict [(''event_type'', PStr ''upgrade_propose''), (''node_id'', PStr ''a''), (''timestamp'', PInt 86403), (''sequence'', PInt 3),
            (''payload'', PDict [(''proposal_id'', PStr ''u''), (''release_hash'', PStr ''r'')])],
     PDict [(''event_type'', PStr ''upgrade_sign''), (''node_id'', PStr ''a''), (''timestamp'', PInt 86403), (''sequence'', PInt 4),
            (''payload'', PDict [(''proposal_id'', PStr ''u'')])],
     PDict [(''event_type'', PStr ''upgrade_vote''), (''node_id'', PStr ''a''), (''timestamp'', PInt 86403), (''sequence'', PInt 5),
            (''payload'', PDict [(''proposal_id'', PStr ''u''), (''vote'', PStr ''for'')])],
     PDict [(''event_type'', PStr ''upgrade_activate''), (''node_id'', PStr ''a''), (''timestamp'', PInt 86403), (''sequence'', PInt 6),
            (''payload'', PDict [(''proposal_id'', PStr ''u'')])]]"

lemma gov_example_events: "as_event_list gov_example = Inr (events_of gov_example)"
  by (simp add: as_event_list_def gov_example_def sort_events_def sort_key_def key_lt_def py_or_def)

lemma gov_example_index: "index_markets (events_of gov_example) = Inr [(''m'', rep_example_market)]"
  by (simp add: index_markets_def index_step_def update_market_def gov_example_def rep_example_market_def new_market_def ev_is_def payload_def
      py_or_def read_prediction_def dict_get_def)

lemma gov_example_undisputed: "effective_outcome ''yes'' ''m'' (map PDict (events_of gov_example)) = Inr ''yes''"
  by (simp add: effective_outcome_def gov_example_def collect_disputes_def open_step_def stake_step_def resolve_step_def ev_is_def payload_def)

lemma gov_example_rep: "compute_oracle_rep baseline_config ''a'' gov_example = Inr (Fin 10)"
proof -
  have "compute_farming_pct baseline_config ''a'' (map PDict (events_of gov_example)) = Inr (Fin 0)"
    by (simp add: compute_farming_pct_def gov_example_def farming_step_def picked_side_probability_def ev_is_def payload_def cfg_simps)
  moreover have "\<exists>k. farming_multiplier baseline_config (Fin 0) = Inr k" by (simp add: farming_multiplier_def cfg_simps)
  moreover have "prediction_step baseline_config ''a'' k ''yes'' (predictions rep_example_market) pr (Fin 0, Fin 0, Fin 0) = Inr (Fin 0, Fin 10, Fin 0)"
    if "pr \<in> set (predictions rep_example_market)" for k pr
    using that by (simp add: prediction_step_def staked_pred_settlement_def pool_step_def rep_example_market_def Let_def)
  moreover have "md_market_id rep_example_market = ''m''" "\<exists>pr. predictions rep_example_market = [pr]" by (simp_all add: rep_example_market_def)
  ultimately show ?thesis using rep_example_mintable
    by (auto simp: compute_oracle_rep_def compute_oracle_rep_breakdown_def gov_example_events gov_example_index market_step_def gov_example_undisputed Let_def fsub_def)
qed

lemma gov_example_last: "last_successful_prediction_ts baseline_config ''a'' gov_example = Inr (Some (Fin 3))"
proof -
  have "md_market_id rep_example_market = ''m''" "finalize_ts rep_example_market = Fin 3"
    "predictions rep_example_market = [\<lparr>p_node_id = PStr ''a'', p_side = PStr ''yes'', p_stake_amount = PFloat (Fin 10), p_probability = PNone, p_timestamp = PFloat (Fin 2)\<rparr>]"
    by (simp_all add: rep_example_market_def)
  then show ?thesis using rep_example_mintable
    by (simp add: last_successful_prediction_ts_def gov_example_events gov_example_index gov_example_undisputed success_step_def py_or_def Let_def fmax_def)
qed

lemma gov_example_weight:
  assumes "t \<in> {Fin 86403, Fin 1728003}"
  shows "compute_oracle_rep_active \<lparr>log2 = (\<lambda>_. Fin 0), pow = (\<lambda>_ _. Fin 1)\<rparr> baseline_config ''a'' gov_example t = Inr (Fin 10)"
proof -
  obtain d where d: "fdiv (fsub t (Fin 3)) seconds_per_day = Inr (Fin d)" "0 \<le> d" "d \<le> 90" using assms by (auto simp: fsub_def seconds_per_day_def)
  then have "decay_factor_for_age \<lparr>log2 = (\<lambda>_. Fin 0), pow = (\<lambda>_ _. Fin 1)\<rparr> baseline_config (Some (fmax (Fin 0) (Fin d))) = Inr (Fin 1)"
    by (simp add: decay_factor_for_age_def cfg_simps fmax_def)
  then show ?thesis using gov_example_rep gov_example_last d(1) by (simp add: compute_oracle_rep_active_def)
qed

theorem petition_passes_by_vote_witness:
  "\<exists>s. compute_petition_state \<lparr>log2 = (\<lambda>_. Fin 0), pow = (\<lambda>_ _. Fin 1)\<rparr> (\<lambda>_. [''a'']) baseline_config ''p'' gov_example (Fin 1728003) = Inr s
     \<and> ps_status s = passed \<and> vote_carried baseline_config (Fin 10) s"
proof -
  let ?L = "\<lparr>log2 = (\<lambda>_. Fin 0), pow = (\<lambda>_ _. Fin 1)\<rparr>" and ?o = "\<lambda>_::string set. [''a'']"
  let ?file = "[(''event_type'', PStr ''petition_file''), (''node_id'', PStr ''a''), (''timestamp'', PInt 86403),
            (''payload'', PDict [(''petition_id'', PStr ''p''), (''petition_payload'', PDict [(''type'', PStr ''UPDATE_PARAM'')])])]"
  let ?sign = "[(''event_type'', PStr ''petition_sign''), (''node_id'', PStr ''a''), (''timestamp'', PInt 86403), (''sequence'', PInt 1),
            (''payload'', PDict [(''petition_id'', PStr ''p'')])]"
  let ?vote = "[(''event_type'', PStr ''petition_vote''), (''node_id'', PStr ''a''), (''timestamp'', PInt 86403), (''sequence'', PInt 2),
            (''payload'', PDict [(''petition_id'', PStr ''p''), (''vote'', PStr ''for'')])]"
  have w: "compute_oracle_rep_active ?L baseline_config ''a'' gov_example (Fin 86403) = Inr (Fin 10)"
    "compute_oracle_rep_active ?L baseline_config ''a'' gov_example (Fin 1728003) = Inr (Fin 10)" by (simp_all add: gov_example_weight)
  have ty: "of_type ''petition_file'' ''petition_id'' ''p'' gov_example = [?file]" "of_type ''petition_sign'' ''petition_id'' ''p'' gov_example = [?sign]"
    "of_type ''petition_vote'' ''petition_id'' ''p'' gov_example = [?vote]" "of_type ''challenge_file'' ''petition_id'' ''p'' gov_example = []"
    "of_type ''petition_execute'' ''petition_id'' ''p'' gov_example = []"
    by (simp_all add: of_type_def gov_example_def ev_is_def about_def payload_def)
  have n: "network_governance_weight ?L ?o baseline_config gov_example (Fin 1728003) = Inr (Fin 10)"
    using w by (simp add: network_governance_weight_def network_weight_and_cache_def weigh_step_def governance_weight_def fsum_def)
  have "fval (Fin 10)" using fval_fl [of 10] by simp
  then have part: "fle (fmul (Fin 10) (fl q)) (Fin 10) \<and> fnonneg (fmul (Fin 10) (fl q))" if "0 \<le> q" "q \<le> 1" for q
    using unit_fmul [of "Fin 10" "fl q"] unit_interval_fl that by simp
  have q: "fl (1/4) = Fin (1/4)" "fl (5/2) = Fin (5/2)" using fl_dyadic [of 1 2] fl_dyadic [of 5 1] by simp_all
  have t: "\<exists>t. tally_votes (governance_weight ?L baseline_config gov_example) nonempty_str (\<lambda>ts. \<not> flt ts (Fin 86403) \<and> \<not> flt (Fin 691203) ts)
      ''for'' ''against'' [?vote] [(''a'', Fin 10)] = Inr t \<and> for_weight t = Fin 10 \<and> against_weight t = Fin 0"
    by (simp add: tally_votes_def sort_events_def sort_key_def py_or_def tally_step_def empty_tally_def governance_weight_def payload_def Let_def)
  then obtain t where t: "tally_votes (governance_weight ?L baseline_config gov_example) nonempty_str (\<lambda>ts. \<not> flt ts (Fin 86403) \<and> \<not> flt (Fin 691203) ts)
      ''for'' ''against'' [?vote] [(''a'', Fin 10)] = Inr t" "for_weight t = Fin 10" "against_weight t = Fin 0" by blast
  have ch: "compute_challenge_state ?L baseline_config ''p'' gov_example (Fin 1728003) = Inr (no_challenge ''p'')"
    by (simp add: compute_challenge_state_def first_event_def ty)
  have phase: "\<exists>s. challenge_phase ?L baseline_config gov_example (Fin 1728003) s0 = Inr s \<and> ps_status s = passed"
    if "ps_petition_id s0 = ''p''" "voting_deadline s0 = Some (Fin 691203)" for s0
    using that ch ty by (simp add: challenge_phase_def Let_def hours_setting_def seconds_per_hour_def cfg_simps float_or_def no_challenge_def)
  have count: "\<exists>s. count_votes ?L baseline_config gov_example (Fin 1728003) (Fin 10) s0 = Inr s \<and> ps_status s = passed"
    if "votes_for s0 = Fin 10" "votes_against s0 = Fin 0" "ps_petition_id s0 = ''p''" "voting_deadline s0 = Some (Fin 691203)" for s0
  proof -
    have "\<not> flt (Fin 10) (fmul (Fin 10) (fl (3/10)))" "\<not> flt (Fin 1) (fl (67/100))"
      using part [of "3/10"] fl_unit [of "67/100"] flt_antisym_not by auto
    then show ?thesis using that phase [OF that(3,4)] by (simp add: count_votes_def Let_def cfg_simps)
  qed
  have v: "\<exists>s. voting_phase ?L baseline_config gov_example (Fin 1728003) (Fin 10) [(''a'', Fin 10)] (Fin 86403) s0 = Inr s \<and> ps_status s = passed"
    if "ps_petition_id s0 = ''p''" for s0
    using that t by (simp add: voting_phase_def Let_def day_setting_def seconds_per_day_def cfg_simps ty count)
  have "\<exists>s. compute_petition_state ?L ?o baseline_config ''p'' gov_example (Fin 1728003) = Inr s \<and> ps_status s = passed"
    using w q v n by (simp add: compute_petition_state_def ty first_event_def event_time_def py_or_def payload_def py_dict_def cfg_simps day_setting_def seconds_per_day_def
        Let_def sort_events_def sort_key_def sign_step_def governance_weight_def latest_by_def in_str_set_def in_strs_def petition_not_found_def List.map_filter_def)
  then obtain s where s: "compute_petition_state ?L ?o baseline_config ''p'' gov_example (Fin 1728003) = Inr s" "ps_status s = passed" by blast
  have "pow_fraction ?L" by (simp add: pow_fraction_def)
  from petition_passes_by_vote [OF baseline_ok this s(1)] s(2) obtain N sigs where "network_governance_weight ?L ?o baseline_config gov_example (Fin 1728003) = Inr N"
    "petition_voted ?L baseline_config gov_example ''p'' (Fin 1728003) N sigs s" by blast
  then have "vote_carried baseline_config (Fin 10) s" using n unfolding petition_voted_def by auto
  then show ?thesis using s by blast
qed

end
