(* ===== verification/Upgrade.thy ===== *)
theory Upgrade
  imports Petition
begin

text \<open>
  \<open>services/infonet/governance/upgrade_hash.py\<close>: the state of an upgrade proposal, derived from the
  chain: signatures, vote, challenge, readiness of the heavy nodes, activation.
\<close>

record readiness =
  total_heavy_nodes :: nat
  ready_count :: nat
  ready_fraction :: pyfloat
  threshold_met :: bool

datatype upgrade_status = up_signatures | up_voting | up_challenge | activation | activated | up_failed_signatures | up_failed_vote
  | up_voided_challenge | failed_activation | up_not_found

record upgrade_state =
  up_proposal_id :: string
  up_status :: upgrade_status
  up_proposer_id :: string
  up_filed_at :: pyfloat
  release_hash :: string
  target_protocol_version :: string
  up_signature_weight :: pyfloat
  up_for :: pyfloat
  up_against :: pyfloat
  up_voting_started_at :: "pyfloat option"
  up_voting_deadline :: "pyfloat option"
  up_challenge_until :: "pyfloat option"
  activation_deadline :: "pyfloat option"
  up_readiness :: readiness

definition proposal_not_found :: "string \<Rightarrow> upgrade_state" where
  "proposal_not_found proposal_id = \<lparr>up_proposal_id = proposal_id, up_status = up_not_found, up_proposer_id = [], up_filed_at = Fin 0,
     release_hash = [], target_protocol_version = [], up_signature_weight = Fin 0, up_for = Fin 0, up_against = Fin 0,
     up_voting_started_at = None, up_voting_deadline = None, up_challenge_until = None, activation_deadline = None,
     up_readiness = \<lparr>total_heavy_nodes = 0, ready_count = 0, ready_fraction = Fin 0, threshold_met = False\<rparr>\<rparr>"

text \<open>A late signature is not remembered: the node may sign again.\<close>

definition up_sign_step :: "libm \<Rightarrow> pydict \<Rightarrow> chain \<Rightarrow> pyfloat \<Rightarrow> (pyfloat \<times> int) \<times> pydict \<Rightarrow> signing \<Rightarrow> signing res" where
  "up_sign_step L cfg chain window_end = (\<lambda>((ts, q), ev) (seen, weight, cache). case any_str (get ev ''node_id'') of
       None \<Rightarrow> Inr (seen, weight, cache)
     | Some signer \<Rightarrow>
         if signer \<in> set seen \<or> flt window_end ts then Inr (seen, weight, cache)
         else bnd (governance_weight L cfg chain signer ts cache) (\<lambda>(w, cache'). Inr (seen @ [signer], fadd weight w, cache')))"

definition heavy_ready :: "string set \<Rightarrow> string \<Rightarrow> pydict list \<Rightarrow> string set" where
  "heavy_ready heavy_set r_hash events =
     {node \<in> heavy_set. \<exists>ev \<in> set events. get ev ''node_id'' = PStr node \<and> get (payload ev) ''release_hash'' = PStr r_hash}"

definition activation_phase :: "pydict \<Rightarrow> chain \<Rightarrow> pyfloat \<Rightarrow> string set \<Rightarrow> upgrade_state \<Rightarrow> upgrade_state res" where
  "activation_phase cfg chain now heavy_set s =
     bnd (day_setting cfg ''upgrade_activation_window_days'') (\<lambda>window.
     let deadline = fadd (case up_challenge_until s of Some u \<Rightarrow> float_or u (up_filed_at s) | None \<Rightarrow> up_filed_at s) window;
         ready = heavy_ready heavy_set (release_hash s) (of_type ''upgrade_signal_ready'' ''proposal_id'' (up_proposal_id s) chain)
     in bnd (if heavy_set = {} then Inr (Fin 0) else int_truediv (int (card ready)) (int (max (card heavy_set) 1))) (\<lambda>fraction.
        bnd (cfg_float cfg ''upgrade_activation_threshold'') (\<lambda>threshold.
        let met = fle threshold fraction;
            s' = s\<lparr>up_status := activation, activation_deadline := Some deadline,
                   up_readiness := \<lparr>total_heavy_nodes = card heavy_set, ready_count = card ready, ready_fraction = fraction, threshold_met = met\<rparr>\<rparr>
        in Inr (if of_type ''upgrade_activate'' ''proposal_id'' (up_proposal_id s) chain \<noteq> [] then s'\<lparr>up_status := activated\<rparr>
                else if met then s'
                else if flt deadline now then s'\<lparr>up_status := failed_activation\<rparr>
                else s'))))"

definition challenge_weights :: "libm \<Rightarrow> pydict \<Rightarrow> chain \<Rightarrow> pyfloat \<Rightarrow> weight_cache \<Rightarrow> string \<Rightarrow> (pyfloat \<times> pyfloat) option res" where
  "challenge_weights L cfg chain until cache proposal_id =
     (case first_event (of_type ''upgrade_challenge'' ''proposal_id'' proposal_id chain) of
        None \<Rightarrow> Inr None
      | Some challenge_event \<Rightarrow>
          let votes = of_type ''upgrade_challenge_vote'' ''proposal_id'' proposal_id chain in
          bnd (sort_events votes) (\<lambda>_.
          bnd (if \<exists>ev \<in> set votes. any_str (get ev ''node_id'') \<noteq> None then event_time challenge_event else Inr (Fin 0)) (\<lambda>challenge_at.
          bnd (tally_votes (governance_weight L cfg chain) any_str (\<lambda>ts. \<not> flt ts challenge_at \<and> \<not> flt until ts) ''uphold'' ''void'' votes cache) (\<lambda>t.
            Inr (Some (for_weight t, against_weight t))))))"

definition up_challenge_phase :: "libm \<Rightarrow> pydict \<Rightarrow> chain \<Rightarrow> pyfloat \<Rightarrow> string set \<Rightarrow> weight_cache \<Rightarrow> upgrade_state \<Rightarrow> upgrade_state res" where
  "up_challenge_phase L cfg chain now heavy_set cache s =
     bnd (hours_setting cfg ''upgrade_challenge_window_hours'') (\<lambda>window.
     let until = fadd (case up_voting_deadline s of Some d \<Rightarrow> float_or d (up_filed_at s) | None \<Rightarrow> up_filed_at s) window;
         s' = s\<lparr>up_status := up_challenge, up_challenge_until := Some until\<rparr>
     in bnd (challenge_weights L cfg chain until cache (up_proposal_id s)) (\<lambda>c.
        if flt until now \<and> (case c of None \<Rightarrow> False | Some (uphold_w, void_w) \<Rightarrow> flt void_w uphold_w)
        then Inr (s'\<lparr>up_status := up_voided_challenge\<rparr>)
        else if fle now until then Inr s'
        else activation_phase cfg chain now heavy_set s'))"

definition up_count_votes :: "libm \<Rightarrow> pydict \<Rightarrow> chain \<Rightarrow> pyfloat \<Rightarrow> string set \<Rightarrow> pyfloat \<Rightarrow> weight_cache \<Rightarrow> upgrade_state \<Rightarrow> upgrade_state res" where
  "up_count_votes L cfg chain now heavy_set network_weight cache s =
     (let participating = fadd (up_for s) (up_against s) in
      bnd (cfg_float cfg ''upgrade_quorum'') (\<lambda>quorum.
        if flt participating (fmul network_weight quorum) \<or> feq participating (Fin 0) then Inr (s\<lparr>up_status := up_failed_vote\<rparr>)
        else bnd (fdiv (up_for s) participating) (\<lambda>share.
             bnd (cfg_float cfg ''upgrade_supermajority'') (\<lambda>needed.
               if flt share needed then Inr (s\<lparr>up_status := up_failed_vote\<rparr>)
               else up_challenge_phase L cfg chain now heavy_set cache s))))"

definition up_voting_phase :: "libm \<Rightarrow> pydict \<Rightarrow> chain \<Rightarrow> pyfloat \<Rightarrow> string set \<Rightarrow> pyfloat \<Rightarrow> weight_cache \<Rightarrow> pyfloat \<Rightarrow> upgrade_state \<Rightarrow> upgrade_state res" where
  "up_voting_phase L cfg chain now heavy_set network_weight cache started s =
     bnd (day_setting cfg ''upgrade_vote_window_days'') (\<lambda>window.
     let deadline = fadd started window in
     bnd (tally_votes (governance_weight L cfg chain) any_str (\<lambda>ts. \<not> flt ts started \<and> \<not> flt deadline ts) ''for'' ''against''
            (of_type ''upgrade_vote'' ''proposal_id'' (up_proposal_id s) chain) cache) (\<lambda>t.
       let s' = s\<lparr>up_status := up_voting, up_voting_started_at := Some started, up_voting_deadline := Some deadline,
                  up_for := for_weight t, up_against := against_weight t\<rparr> in
       if fle now deadline then Inr s' else up_count_votes L cfg chain now heavy_set network_weight (ta_cache t) s'))"

definition compute_upgrade_state :: "libm \<Rightarrow> (string set \<Rightarrow> string list) \<Rightarrow> pydict \<Rightarrow> string \<Rightarrow> chain \<Rightarrow> pyfloat \<Rightarrow> string set option \<Rightarrow> upgrade_state res" where
  "compute_upgrade_state L set_order cfg proposal_id chain now heavy_node_ids =
     (let heavy_set = (case heavy_node_ids of Some h \<Rightarrow> h | None \<Rightarrow> {}) in
      case first_event (of_type ''upgrade_propose'' ''proposal_id'' proposal_id chain) of
        None \<Rightarrow> Inr (proposal_not_found proposal_id)
      | Some propose_event \<Rightarrow>
          bnd (event_time propose_event) (\<lambda>f_at.
          bnd (network_weight_and_cache L set_order cfg chain now) (\<lambda>(network_weight, cache0).
          bnd (cfg_float cfg ''upgrade_signature_threshold'') (\<lambda>share.
          bnd (day_setting cfg ''upgrade_signature_window_days'') (\<lambda>window.
          let signs = of_type ''upgrade_sign'' ''proposal_id'' proposal_id chain; threshold = fmul network_weight share; pp = payload propose_event in
          bnd (sort_events signs) (\<lambda>keyed.
          bnd (foldres (up_sign_step L cfg chain (fadd f_at window)) keyed ([], Fin 0, cache0)) (\<lambda>(seen, weight, cache).
          let s = (proposal_not_found proposal_id)\<lparr>up_status := up_signatures, up_proposer_id := py_str (py_or (get propose_event ''node_id'') (PStr [])),
                     up_filed_at := f_at, release_hash := py_str (py_or (get pp ''release_hash'') (PStr [])),
                     target_protocol_version := py_str (py_or (get pp ''target_protocol_version'') (PStr [])), up_signature_weight := weight\<rparr> in
          if fle threshold weight \<and> flt (Fin 0) threshold
          then bnd (latest_by seen signs f_at) (\<lambda>started. up_voting_phase L cfg chain now heavy_set network_weight cache started s)
          else Inr (if flt (fadd f_at window) now then s\<lparr>up_status := up_failed_signatures\<rparr> else s))))))))"

definition validate_upgrade_proposal :: "pydict \<Rightarrow> pyfloat \<Rightarrow> pyval \<Rightarrow> pyval \<Rightarrow> pyval \<Rightarrow> governance_verdict res" where
  "validate_upgrade_proposal cfg filer_common_rep r_hash description version =
     (let blank = (\<lambda>v. case v of PStr s \<Rightarrow> strip s = [] | _ \<Rightarrow> True) in
      bnd (cfg_float cfg ''upgrade_filing_cost'') (\<lambda>cost.
       Inr (if flt filer_common_rep cost then gov_verdict False ''insufficient_common_rep''
            else if blank r_hash then gov_verdict False ''release_hash_required''
            else if (case description of PStr s \<Rightarrow> 4000 < length s | _ \<Rightarrow> True) then gov_verdict False ''release_description_invalid''
            else if blank version then gov_verdict False ''target_protocol_version_required''
            else gov_verdict True ''ok'')))"

subsection \<open>What an activation rests on\<close>

text \<open>
  One memo serves the whole evaluation: it is filled with the weights of all nodes of the chain at the
  current time, so every node of the chain has its current reputation as weight wherever it acts. (The
  empty id is not counted as a node of the chain, but may sign and vote: it has a reputation of its own
  at some time.)
\<close>

definition weighs :: "libm \<Rightarrow> pydict \<Rightarrow> chain \<Rightarrow> pyfloat \<Rightarrow> (string \<Rightarrow> pyfloat) \<Rightarrow> string \<Rightarrow> bool" where
  "weighs L cfg chain now W n \<longleftrightarrow> (if n \<in> acting_nodes chain then rep_at L cfg chain n now (W n) else \<exists>t. rep_at L cfg chain n t (W n))"

definition memo_now :: "libm \<Rightarrow> pydict \<Rightarrow> chain \<Rightarrow> pyfloat \<Rightarrow> weight_cache \<Rightarrow> bool" where
  "memo_now L cfg chain now c \<longleftrightarrow> acting_nodes chain \<subseteq> dom (map_of c) \<and> (\<forall>n \<in> dom (map_of c). weighs L cfg chain now (cached c) n)"

lemma memo_now_step:
  assumes "memo_now L cfg chain now c" "memo_of (rep_at L cfg chain) c acts c'"
  shows "memo_now L cfg chain now c'"
  unfolding memo_now_def
proof (intro conjI ballI)
  have le: "map_of c \<subseteq>\<^sub>m map_of c'" using assms(2) by (simp add: memo_of_def)
  show "acting_nodes chain \<subseteq> dom (map_of c')" using assms by (auto simp: memo_now_def memo_of_def)
  fix n assume n: "n \<in> dom (map_of c')"
  show "weighs L cfg chain now (cached c') n"
  proof (cases "n \<in> dom (map_of c)")
    case True
    then have "cached c' n = cached c n" using cached_mono [OF le] by simp
    moreover have "weighs L cfg chain now (cached c) n" using True assms(1) unfolding memo_now_def by blast
    ultimately show ?thesis by (simp only: weighs_def)
  next
    case False
    then have "n \<in> fst ` set acts" using n assms(2) by (simp add: memo_of_def)
    then obtain t where "(n, t) \<in> set acts" by auto
    then have "rep_at L cfg chain n t (cached c' n)" using False assms(2) unfolding memo_of_def by fast
    moreover have "n \<notin> acting_nodes chain" using False assms(1) by (auto simp: memo_now_def)
    ultimately show ?thesis by (auto simp: weighs_def)
  qed
qed

lemma network_loop:
  assumes "foldres (weigh_step L cfg chain now) ns (ws0, c0) = Inr (ws, c)" "\<forall>n \<in> dom (map_of c0). rep_at L cfg chain n now (cached c0 n)"
  shows "ws = ws0 @ map (cached c) ns \<and> dom (map_of c) = dom (map_of c0) \<union> set ns \<and> map_of c0 \<subseteq>\<^sub>m map_of c
    \<and> (\<forall>n \<in> dom (map_of c). rep_at L cfg chain n now (cached c n))"
  using assms
proof (induction ns arbitrary: ws0 c0)
  case (Cons n ns)
  obtain st where st: "weigh_step L cfg chain now n (ws0, c0) = Inr st" "foldres (weigh_step L cfg chain now) ns st = Inr (ws, c)"
    using Cons.prems(1) by (auto simp: bnd_eq_Inr)
  then obtain w c1 where w: "governance_weight L cfg chain n now c0 = Inr (w, c1)" and "st = (ws0 @ [w], c1)"
    by (auto simp: weigh_step_def bnd_eq_Inr)
  with st(2) have rest: "foldres (weigh_step L cfg chain now) ns (ws0 @ [w], c1) = Inr (ws, c)" by simp
  note m = gov.weight_memo [OF w]
  have c1: "cached c1 n = w" using m by (simp add: cached_def)
  have old: "cached c1 k = cached c0 k" if "k \<in> dom (map_of c0)" for k using cached_mono that m by blast
  have "rep_at L cfg chain k now (cached c1 k)" if "k \<in> dom (map_of c1)" for k
  proof (cases "k \<in> dom (map_of c0)")
    case False
    then have "k = n" using that m by (auto split: if_splits)
    then show ?thesis using m False c1 by simp
  qed (use Cons.prems(2) old in simp)
  with Cons.IH [OF rest] have ih: "ws = (ws0 @ [w]) @ map (cached c) ns" "dom (map_of c) = dom (map_of c1) \<union> set ns" "map_of c1 \<subseteq>\<^sub>m map_of c"
    "\<forall>n \<in> dom (map_of c). rep_at L cfg chain n now (cached c n)" by blast+
  have "cached c n = w" using cached_mono [OF ih(3), of n] m c1 by auto
  moreover have "map_of c0 \<subseteq>\<^sub>m map_of c" by (rule map_le_trans [OF _ ih(3)]) (use m in blast)
  moreover have "dom (map_of c1) = insert n (dom (map_of c0))" using m by simp
  ultimately show ?case using ih by simp
qed simp

lemma network_memo:
  assumes "network_weight_and_cache L set_order cfg chain now = Inr (N, c)" "set (set_order (acting_nodes chain)) = acting_nodes chain"
  shows "memo_now L cfg chain now c \<and> N = fsum (map (cached c) (set_order (acting_nodes chain))) \<and> network_governance_weight L set_order cfg chain now = Inr N"
proof -
  obtain ws where f: "foldres (weigh_step L cfg chain now) (set_order (acting_nodes chain)) ([], []) = Inr (ws, c)" "N = fsum ws"
    using assms(1) by (auto simp: network_weight_and_cache_def bnd_eq_Inr)
  from network_loop [OF f(1)] show ?thesis using assms f(2)
    by (auto simp: network_governance_weight_def memo_now_def weighs_def)
qed

lemma up_sign_loop_exact:
  "foldres (up_sign_step L cfg chain window_end) keyed (seen0, w0, c0) = Inr (seen, w, c) \<Longrightarrow>
    sigs = filter (\<lambda>x. fst x \<notin> set seen0) (first_signs any_str (filter (\<lambda>k. \<not> flt window_end (fst (fst k))) keyed)) \<Longrightarrow>
    seen = seen0 @ map fst sigs \<and> memo_of (rep_at L cfg chain) c0 sigs c \<and> w = foldl fadd w0 (map (\<lambda>x. cached c (fst x)) sigs)"
proof (induction keyed arbitrary: seen0 w0 c0 sigs)
  case Nil
  then show ?case by (simp add: memo_Nil)
next
  case (Cons k ks)
  obtain ts q ev where k: "k = ((ts, q), ev)" by (metis surj_pair)
  from Cons.prems(1) obtain seen1 w1 c1 where st: "up_sign_step L cfg chain window_end k (seen0, w0, c0) = Inr (seen1, w1, c1)"
    "foldres (up_sign_step L cfg chain window_end) ks (seen1, w1, c1) = Inr (seen, w, c)" by (auto simp: bnd_eq_Inr)
  note ih = Cons.IH [OF st(2) refl]
  show ?case
  proof (cases "\<exists>n. any_str (get ev ''node_id'') = Some n \<and> n \<notin> set seen0 \<and> \<not> flt window_end ts")
    case False
    then have same: "seen1 = seen0" "w1 = w0" "c1 = c0" using st(1) by (auto simp: k up_sign_step_def split: option.splits)
    have "sigs = filter (\<lambda>x. fst x \<notin> set seen0) (first_signs any_str (filter (\<lambda>k. \<not> flt window_end (fst (fst k))) ks))"
      using Cons.prems(2) False by (auto simp: k split: option.splits intro!: filter_cong)
    then show ?thesis using ih same by simp
  next
    case True
    then obtain n where n: "any_str (get ev ''node_id'') = Some n" "n \<notin> set seen0" "\<not> flt window_end ts" by blast
    obtain wt where wt: "governance_weight L cfg chain n ts c0 = Inr (wt, c1)" and r: "seen1 = seen0 @ [n]" "w1 = fadd w0 wt"
      using st(1) n by (auto simp: k up_sign_step_def bnd_eq_Inr)
    let ?more = "filter (\<lambda>x. fst x \<notin> set (seen0 @ [n])) (first_signs any_str (filter (\<lambda>k. \<not> flt window_end (fst (fst k))) ks))"
    have sigs: "sigs = (n, ts) # ?more" using Cons.prems(2) n by (simp add: k conj_commute)
    have "n \<notin> fst ` set ?more" by auto
    from gov.memo_Cons [OF wt, of ?more c] ih this have "memo_of (rep_at L cfg chain) c0 sigs c \<and> cached c n = wt" by (simp add: r(1) sigs)
    then show ?thesis using ih by (simp add: r sigs)
  qed
qed

definition upgrade_carried :: "pydict \<Rightarrow> pyfloat \<Rightarrow> upgrade_state \<Rightarrow> bool" where
  "upgrade_carried cfg network_weight s \<longleftrightarrow> (\<exists>quorum needed share. cfg_float cfg ''upgrade_quorum'' = Inr quorum
     \<and> cfg_float cfg ''upgrade_supermajority'' = Inr needed
     \<and> \<not> flt (fadd (up_for s) (up_against s)) (fmul network_weight quorum) \<and> \<not> feq (fadd (up_for s) (up_against s)) (Fin 0)
     \<and> fdiv (up_for s) (fadd (up_for s) (up_against s)) = Inr share \<and> \<not> flt share needed)"

text \<open>The readiness recorded is that of the heavy nodes that signalled the release of the proposal.\<close>

definition readiness_of :: "pydict \<Rightarrow> chain \<Rightarrow> string set \<Rightarrow> upgrade_state \<Rightarrow> bool" where
  "readiness_of cfg chain heavy s \<longleftrightarrow>
     ready_count (up_readiness s) = card (heavy_ready heavy (release_hash s) (of_type ''upgrade_signal_ready'' ''proposal_id'' (up_proposal_id s) chain))
     \<and> (\<exists>threshold. cfg_float cfg ''upgrade_activation_threshold'' = Inr threshold
          \<and> (threshold_met (up_readiness s) \<longleftrightarrow> fle threshold (ready_fraction (up_readiness s))))
     \<and> (heavy \<noteq> {} \<longrightarrow> int_truediv (int (ready_count (up_readiness s))) (int (max (card heavy) 1)) = Inr (ready_fraction (up_readiness s)))"

definition in_activation :: "upgrade_state \<Rightarrow> bool" where
  "in_activation s \<longleftrightarrow> up_status s \<in> {activation, activated, failed_activation}"

lemma activation_phase_result:
  assumes "activation_phase cfg chain now heavy s = Inr s'"
  shows "in_activation s' \<and> readiness_of cfg chain heavy s' \<and> up_challenge_until s' = up_challenge_until s \<and> up_for s' = up_for s \<and> up_against s' = up_against s
    \<and> up_proposal_id s' = up_proposal_id s \<and> up_voting_started_at s' = up_voting_started_at s \<and> up_voting_deadline s' = up_voting_deadline s
    \<and> up_filed_at s' = up_filed_at s \<and> up_signature_weight s' = up_signature_weight s
    \<and> (up_status s' = activated \<longleftrightarrow> of_type ''upgrade_activate'' ''proposal_id'' (up_proposal_id s) chain \<noteq> [])
    \<and> (up_status s' = failed_activation \<longrightarrow> \<not> threshold_met (up_readiness s') \<and> (\<exists>d. activation_deadline s' = Some d \<and> flt d now))"
proof -
  let ?ready = "heavy_ready heavy (release_hash s) (of_type ''upgrade_signal_ready'' ''proposal_id'' (up_proposal_id s) chain)"
  obtain window fraction threshold where w: "day_setting cfg ''upgrade_activation_window_days'' = Inr window"
    "(if heavy = {} then Inr (Fin 0) else int_truediv (int (card ?ready)) (int (max (card heavy) 1))) = Inr fraction"
    "cfg_float cfg ''upgrade_activation_threshold'' = Inr threshold"
    using assms by (auto simp: activation_phase_def Let_def bnd_eq_Inr)
  define d where "d = fadd (case up_challenge_until s of Some u \<Rightarrow> float_or u (up_filed_at s) | None \<Rightarrow> up_filed_at s) window"
  define s1 where "s1 = s\<lparr>up_status := activation, activation_deadline := Some d,
     up_readiness := \<lparr>total_heavy_nodes = card heavy, ready_count = card ?ready, ready_fraction = fraction, threshold_met = fle threshold fraction\<rparr>\<rparr>"
  have s': "s' = (if of_type ''upgrade_activate'' ''proposal_id'' (up_proposal_id s) chain \<noteq> [] then s1\<lparr>up_status := activated\<rparr>
      else if fle threshold fraction then s1 else if flt d now then s1\<lparr>up_status := failed_activation\<rparr> else s1)"
    using assms w unfolding activation_phase_def s1_def d_def Let_def by auto
  have s1: "up_status s1 = activation" "activation_deadline s1 = Some d" "up_challenge_until s1 = up_challenge_until s" "up_for s1 = up_for s"
    "up_against s1 = up_against s" "up_proposal_id s1 = up_proposal_id s" "up_voting_started_at s1 = up_voting_started_at s"
    "up_voting_deadline s1 = up_voting_deadline s" "up_filed_at s1 = up_filed_at s" "up_signature_weight s1 = up_signature_weight s" "release_hash s1 = release_hash s" "threshold_met (up_readiness s1) \<longleftrightarrow> fle threshold fraction"
    "ready_count (up_readiness s1) = card ?ready" "ready_fraction (up_readiness s1) = fraction" by (simp_all add: s1_def)
  have "heavy \<noteq> {} \<longrightarrow> int_truediv (int (card ?ready)) (int (max (card heavy) 1)) = Inr fraction" using w(2) by metis
  then have "readiness_of cfg chain heavy s'" using s1 w(3) unfolding readiness_of_def s' by simp
  then show ?thesis using s1 by (simp add: s' in_activation_def)
qed

text \<open>
  The challenge window is over, and either no challenge was raised or the weight that upholds it, counted
  over the first ballot of each node between the challenge and the end of the window, is not the greater.
\<close>

definition challenge_not_upheld :: "libm \<Rightarrow> pydict \<Rightarrow> chain \<Rightarrow> pyfloat \<Rightarrow> (string \<Rightarrow> pyfloat) \<Rightarrow> upgrade_state \<Rightarrow> bool" where
  "challenge_not_upheld L cfg chain now W s \<longleftrightarrow> (\<exists>hours d u. cfg_float cfg ''upgrade_challenge_window_hours'' = Inr hours \<and> up_voting_deadline s = Some d
     \<and> u = fadd (float_or d (up_filed_at s)) (fmul hours seconds_per_hour) \<and> up_challenge_until s = Some u \<and> \<not> fle now u
     \<and> (\<forall>cev c_at keyed. first_event (of_type ''upgrade_challenge'' ''proposal_id'' (up_proposal_id s) chain) = Some cev \<longrightarrow> event_time cev = Inr c_at \<longrightarrow>
          sort_events (of_type ''upgrade_challenge_vote'' ''proposal_id'' (up_proposal_id s) chain) = Inr keyed \<longrightarrow>
          (let bs = first_ballots any_str (\<lambda>t. \<not> flt t c_at \<and> \<not> flt u t) ''uphold'' ''void'' keyed
           in (\<forall>b \<in> set bs. weighs L cfg chain now W (fst b))
              \<and> \<not> (flt u now \<and> flt (side_weight W False bs) (side_weight W True bs)))))"

lemma challenge_weights_exact:
  assumes "challenge_weights L cfg chain u c pid = Inr r"
  shows "\<exists>acts c'. memo_of (rep_at L cfg chain) c acts c' \<and> (\<forall>cev c_at keyed bs. first_event (of_type ''upgrade_challenge'' ''proposal_id'' pid chain) = Some cev \<longrightarrow>
    event_time cev = Inr c_at \<longrightarrow> sort_events (of_type ''upgrade_challenge_vote'' ''proposal_id'' pid chain) = Inr keyed \<longrightarrow>
    bs = first_ballots any_str (\<lambda>t. \<not> flt t c_at \<and> \<not> flt u t) ''uphold'' ''void'' keyed \<longrightarrow>
      fst ` set bs \<subseteq> dom (map_of c') \<and> r = Some (side_weight (cached c') True bs, side_weight (cached c') False bs))"
proof (cases "first_event (of_type ''upgrade_challenge'' ''proposal_id'' pid chain)")
  case None
  then show ?thesis using memo_Nil by fastforce
next
  case (Some cev)
  let ?votes = "of_type ''upgrade_challenge_vote'' ''proposal_id'' pid chain"
  obtain v_at t where v_at: "(if \<exists>ev \<in> set ?votes. any_str (get ev ''node_id'') \<noteq> None then event_time cev else Inr (Fin 0)) = Inr v_at"
    and t: "tally_votes (governance_weight L cfg chain) any_str (\<lambda>ts. \<not> flt ts v_at \<and> \<not> flt u ts) ''uphold'' ''void'' ?votes c = Inr t"
    and r: "r = Some (for_weight t, against_weight t)" using assms Some by (auto simp: challenge_weights_def Let_def bnd_eq_Inr)
  from gov.tally_exact [OF t] obtain keyed where k: "sort_events ?votes = Inr keyed"
    and e: "memo_of (rep_at L cfg chain) c (acts_of (first_ballots any_str (\<lambda>ts. \<not> flt ts v_at \<and> \<not> flt u ts) ''uphold'' ''void'' keyed)) (ta_cache t)"
      "for_weight t = side_weight (cached (ta_cache t)) True (first_ballots any_str (\<lambda>ts. \<not> flt ts v_at \<and> \<not> flt u ts) ''uphold'' ''void'' keyed)"
      "against_weight t = side_weight (cached (ta_cache t)) False (first_ballots any_str (\<lambda>ts. \<not> flt ts v_at \<and> \<not> flt u ts) ''uphold'' ''void'' keyed)" by blast
  have same: "first_ballots any_str (\<lambda>t. \<not> flt t c_at \<and> \<not> flt u t) ''uphold'' ''void'' keyed
      = first_ballots any_str (\<lambda>ts. \<not> flt ts v_at \<and> \<not> flt u ts) ''uphold'' ''void'' keyed" if "event_time cev = Inr c_at" for c_at
  proof (cases "\<exists>ev \<in> set ?votes. any_str (get ev ''node_id'') \<noteq> None")
    case True
    then show ?thesis using v_at that by simp
  next
    case False
    have "first_ballots any_str inside yes no keyed = []" for inside yes no
    proof (rule ccontr)
      assume "first_ballots any_str inside yes no keyed \<noteq> []"
      then obtain n y v where "(n, y, v) \<in> set (first_ballots any_str inside yes no keyed)" by (metis list.set_intros(1) neq_Nil_conv surj_pair)
      from first_ballots_events [OF this] obtain q ev where "((v, q), ev) \<in> set keyed" "any_str (get ev ''node_id'') = Some n" by blast
      then show False using sorted_event [OF k] False by fastforce
    qed
    then show ?thesis by simp
  qed
  have "fst ` set (first_ballots any_str (\<lambda>ts. \<not> flt ts v_at \<and> \<not> flt u ts) ''uphold'' ''void'' keyed) \<subseteq> dom (map_of (ta_cache t))"
    using e(1) by (auto simp: memo_of_def)
  with Some k e r same show ?thesis by (intro exI conjI [OF e(1)]) auto
qed

lemma up_challenge_phase_result:
  assumes "up_challenge_phase L cfg chain now heavy c s = Inr s'" "in_activation s'" "memo_now L cfg chain now c" "up_voting_deadline s = Some d"
  shows "\<exists>acts c'. memo_of (rep_at L cfg chain) c acts c' \<and> challenge_not_upheld L cfg chain now (cached c') s'
    \<and> (\<exists>s1. activation_phase cfg chain now heavy s1 = Inr s' \<and> up_for s1 = up_for s \<and> up_against s1 = up_against s
      \<and> up_proposal_id s1 = up_proposal_id s \<and> up_voting_started_at s1 = up_voting_started_at s \<and> up_voting_deadline s1 = up_voting_deadline s
      \<and> up_filed_at s1 = up_filed_at s \<and> up_signature_weight s1 = up_signature_weight s)"
proof -
  obtain hours where h: "cfg_float cfg ''upgrade_challenge_window_hours'' = Inr hours"
    using assms(1) by (auto simp: up_challenge_phase_def hours_setting_def Let_def bnd_eq_Inr)
  define u where "u = fadd (float_or d (up_filed_at s)) (fmul hours seconds_per_hour)"
  define s1 where "s1 = s\<lparr>up_status := up_challenge, up_challenge_until := Some u\<rparr>"
  obtain r where r: "challenge_weights L cfg chain u c (up_proposal_id s) = Inr r"
    using assms(1,4) h unfolding up_challenge_phase_def hours_setting_def Let_def u_def by (auto simp: bnd_eq_Inr)
  have res: "(if flt u now \<and> (case r of None \<Rightarrow> False | Some (uphold_w, void_w) \<Rightarrow> flt void_w uphold_w) then Inr (s1\<lparr>up_status := up_voided_challenge\<rparr>)
        else if fle now u then Inr s1 else activation_phase cfg chain now heavy s1) = Inr s'"
    using assms(1) unfolding up_challenge_phase_def hours_setting_def h bnd_Inr Let_def assms(4) option.case u_def [symmetric] s1_def [symmetric] r .
  have no: "\<not> (flt u now \<and> (case r of None \<Rightarrow> False | Some (uphold_w, void_w) \<Rightarrow> flt void_w uphold_w)) \<and> \<not> fle now u"
    using res assms(2) by (auto simp: s1_def in_activation_def split: if_splits)
  then have act: "activation_phase cfg chain now heavy s1 = Inr s'" using res by (simp split: if_splits)
  note keep = activation_phase_result [OF act]
  from challenge_weights_exact [OF r] obtain acts c' where m: "memo_of (rep_at L cfg chain) c acts c'"
    and ex: "\<And>cev c_at keyed bs. first_event (of_type ''upgrade_challenge'' ''proposal_id'' (up_proposal_id s) chain) = Some cev \<Longrightarrow>
      event_time cev = Inr c_at \<Longrightarrow> sort_events (of_type ''upgrade_challenge_vote'' ''proposal_id'' (up_proposal_id s) chain) = Inr keyed \<Longrightarrow>
      bs = first_ballots any_str (\<lambda>t. \<not> flt t c_at \<and> \<not> flt u t) ''uphold'' ''void'' keyed \<Longrightarrow>
      fst ` set bs \<subseteq> dom (map_of c') \<and> r = Some (side_weight (cached c') True bs, side_weight (cached c') False bs)"
    by blast
  have now: "memo_now L cfg chain now c'" by (rule memo_now_step [OF assms(3) m])
  have "challenge_not_upheld L cfg chain now (cached c') s'" unfolding challenge_not_upheld_def
  proof (intro exI conjI allI impI)
    show "cfg_float cfg ''upgrade_challenge_window_hours'' = Inr hours" by (rule h)
    show "up_voting_deadline s' = Some d" using keep assms(4) by (simp add: s1_def)
    show "fadd (float_or d (up_filed_at s)) (fmul hours seconds_per_hour) = fadd (float_or d (up_filed_at s')) (fmul hours seconds_per_hour)"
      using keep by (simp add: s1_def)
    show "up_challenge_until s' = Some (fadd (float_or d (up_filed_at s)) (fmul hours seconds_per_hour))" using keep by (simp add: s1_def u_def)
    show "\<not> fle now (fadd (float_or d (up_filed_at s)) (fmul hours seconds_per_hour))" using no by (simp add: u_def)
    fix cev c_at keyed
    assume "first_event (of_type ''upgrade_challenge'' ''proposal_id'' (up_proposal_id s') chain) = Some cev" "event_time cev = Inr c_at"
      "sort_events (of_type ''upgrade_challenge_vote'' ''proposal_id'' (up_proposal_id s') chain) = Inr keyed"
    then have "fst ` set (first_ballots any_str (\<lambda>t. \<not> flt t c_at \<and> \<not> flt u t) ''uphold'' ''void'' keyed) \<subseteq> dom (map_of c')"
      "r = Some (side_weight (cached c') True (first_ballots any_str (\<lambda>t. \<not> flt t c_at \<and> \<not> flt u t) ''uphold'' ''void'' keyed),
                 side_weight (cached c') False (first_ballots any_str (\<lambda>t. \<not> flt t c_at \<and> \<not> flt u t) ''uphold'' ''void'' keyed))"
      using ex [OF _ _ _ refl, of cev c_at keyed] keep by (simp_all add: s1_def)
    then show "let bs = first_ballots any_str (\<lambda>t. \<not> flt t c_at \<and> \<not> flt (fadd (float_or d (up_filed_at s)) (fmul hours seconds_per_hour)) t) ''uphold'' ''void'' keyed
           in (\<forall>b \<in> set bs. weighs L cfg chain now (cached c') (fst b))
              \<and> \<not> (flt (fadd (float_or d (up_filed_at s)) (fmul hours seconds_per_hour)) now \<and> flt (side_weight (cached c') False bs) (side_weight (cached c') True bs))"
      using no now unfolding Let_def memo_now_def u_def [symmetric] by auto
  qed
  moreover have "up_for s1 = up_for s" "up_against s1 = up_against s" "up_proposal_id s1 = up_proposal_id s" "up_voting_started_at s1 = up_voting_started_at s"
    "up_voting_deadline s1 = up_voting_deadline s" "up_filed_at s1 = up_filed_at s" "up_signature_weight s1 = up_signature_weight s" by (simp_all add: s1_def)
  ultimately show ?thesis using m act by blast
qed

lemma up_count_votes_result:
  assumes "up_count_votes L cfg chain now heavy N cache s = Inr s'" "in_activation s'"
  shows "upgrade_carried cfg N s \<and> up_challenge_phase L cfg chain now heavy cache s = Inr s'"
proof -
  let ?p = "fadd (up_for s) (up_against s)"
  have no: "s' \<noteq> s\<lparr>up_status := up_failed_vote\<rparr>" using assms(2) by (auto simp: in_activation_def)
  obtain quorum where q: "cfg_float cfg ''upgrade_quorum'' = Inr quorum" using assms(1) by (auto simp: up_count_votes_def Let_def bnd_eq_Inr)
  then have n: "\<not> (flt ?p (fmul N quorum) \<or> feq ?p (Fin 0))" using assms(1) no by (auto simp: up_count_votes_def Let_def)
  obtain share needed where sh: "fdiv (up_for s) ?p = Inr share" "cfg_float cfg ''upgrade_supermajority'' = Inr needed"
    using assms(1) q n by (auto simp: up_count_votes_def Let_def bnd_eq_Inr)
  have "\<not> flt share needed" using assms(1) q n sh no by (auto simp: up_count_votes_def Let_def)
  then show ?thesis using assms(1) q n sh by (auto simp: up_count_votes_def Let_def upgrade_carried_def)
qed

lemma upgrade_carried_majority:
  assumes "config_ok cfg" "upgrade_carried cfg N s" "fval (up_for s)" "fnonneg (up_for s)" "fval (up_against s)" "fnonneg (up_against s)"
    and "fisfinite (fadd (up_for s) (up_against s))"
  shows "flt (up_against s) (up_for s)"
proof -
  obtain quorum needed share where v: "cfg_float cfg ''upgrade_quorum'' = Inr quorum" "cfg_float cfg ''upgrade_supermajority'' = Inr needed"
    "\<not> feq (fadd (up_for s) (up_against s)) (Fin 0)" "fdiv (up_for s) (fadd (up_for s) (up_against s)) = Inr share" "\<not> flt share needed"
    using assms(2) by (auto simp: upgrade_carried_def)
  have "flt quorum needed"
    by (rule cross_float [OF assms(1) _ _ _ v(2,1)])
       (simp_all add: cross_field_invariants_def float_keyI [OF schema_upgrade_supermajority] float_keyI [OF schema_upgrade_quorum])
  then have "needed \<noteq> NaN" by auto
  then have "fle (fl 0.51) needed" using read_upgrade_supermajority [OF assms(1)] v(2) by auto
  from supermajority_majority [OF assms(3-7) v(3) this v(4,5)] show ?thesis .
qed

text \<open>
  The signatures of a proposal: the first of each node not later than the configured days after the
  proposal; at the weights \<open>W\<close> they reach the configured fraction of the network's weight. And its vote:
  the first ballot of each node between the latest signature and the end of the configured days.
\<close>

definition upgrade_signed :: "libm \<Rightarrow> pydict \<Rightarrow> chain \<Rightarrow> string \<Rightarrow> pyfloat \<Rightarrow> pyfloat \<Rightarrow> (string \<Rightarrow> pyfloat) \<Rightarrow> upgrade_state \<Rightarrow> bool" where
  "upgrade_signed L cfg chain pid now network_weight W s \<longleftrightarrow> (\<exists>pev keyed days share sigs started.
     first_event (of_type ''upgrade_propose'' ''proposal_id'' pid chain) = Some pev \<and> event_time pev = Inr (up_filed_at s)
     \<and> sort_events (of_type ''upgrade_sign'' ''proposal_id'' pid chain) = Inr keyed
     \<and> cfg_float cfg ''upgrade_signature_window_days'' = Inr days \<and> cfg_float cfg ''upgrade_signature_threshold'' = Inr share
     \<and> sigs = first_signs any_str (filter (\<lambda>k. \<not> flt (fadd (up_filed_at s) (fmul days seconds_per_day)) (fst (fst k))) keyed)
     \<and> (\<forall>x \<in> set sigs. weighs L cfg chain now W (fst x)) \<and> up_signature_weight s = fsum (map (\<lambda>x. W (fst x)) sigs)
     \<and> fle (fmul network_weight share) (up_signature_weight s) \<and> flt (Fin 0) (fmul network_weight share)
     \<and> latest_by (map fst sigs) (of_type ''upgrade_sign'' ''proposal_id'' pid chain) (up_filed_at s) = Inr started \<and> up_voting_started_at s = Some started)"

definition upgrade_voted :: "libm \<Rightarrow> pydict \<Rightarrow> chain \<Rightarrow> string \<Rightarrow> pyfloat \<Rightarrow> pyfloat \<Rightarrow> (string \<Rightarrow> pyfloat) \<Rightarrow> upgrade_state \<Rightarrow> bool" where
  "upgrade_voted L cfg chain pid now network_weight W s \<longleftrightarrow> (\<exists>started days d keyed bs.
     up_voting_started_at s = Some started \<and> cfg_float cfg ''upgrade_vote_window_days'' = Inr days \<and> d = fadd started (fmul days seconds_per_day)
     \<and> up_voting_deadline s = Some d \<and> \<not> fle now d
     \<and> sort_events (of_type ''upgrade_vote'' ''proposal_id'' pid chain) = Inr keyed
     \<and> bs = first_ballots any_str (\<lambda>t. \<not> flt t started \<and> \<not> flt d t) ''for'' ''against'' keyed
     \<and> (\<forall>b \<in> set bs. weighs L cfg chain now W (fst b))
     \<and> up_for s = side_weight W True bs \<and> up_against s = side_weight W False bs
     \<and> upgrade_carried cfg network_weight s)"

lemma side_weight_later:
  assumes "map_of c \<subseteq>\<^sub>m map_of c'" "fst ` set bs \<subseteq> dom (map_of c)"
  shows "side_weight (cached c) side bs = side_weight (cached c') side bs"
  by (rule side_weight_cong) (use cached_mono [OF assms(1)] assms(2) in force)

lemma up_voting_phase_result:
  assumes "up_voting_phase L cfg chain now heavy N c started s0 = Inr s" "in_activation s" "memo_now L cfg chain now c"
  shows "\<exists>c'. map_of c \<subseteq>\<^sub>m map_of c' \<and> memo_now L cfg chain now c' \<and> upgrade_voted L cfg chain (up_proposal_id s0) now N (cached c') s
    \<and> challenge_not_upheld L cfg chain now (cached c') s \<and> up_voting_started_at s = Some started
    \<and> up_filed_at s = up_filed_at s0 \<and> up_signature_weight s = up_signature_weight s0
    \<and> (\<exists>s2. activation_phase cfg chain now heavy s2 = Inr s \<and> up_proposal_id s2 = up_proposal_id s0)"
proof -
  let ?votes = "of_type ''upgrade_vote'' ''proposal_id'' (up_proposal_id s0) chain"
  obtain days t where days: "cfg_float cfg ''upgrade_vote_window_days'' = Inr days"
    and t: "tally_votes (governance_weight L cfg chain) any_str (\<lambda>ts. \<not> flt ts started \<and> \<not> flt (fadd started (fmul days seconds_per_day)) ts) ''for'' ''against'' ?votes c = Inr t"
    using assms(1) by (auto simp: up_voting_phase_def day_setting_def Let_def bnd_eq_Inr)
  let ?d = "fadd started (fmul days seconds_per_day)"
  define s1 where "s1 = s0\<lparr>up_status := up_voting, up_voting_started_at := Some started, up_voting_deadline := Some ?d,
                  up_for := for_weight t, up_against := against_weight t\<rparr>"
  have e1: "(if fle now ?d then Inr s1 else up_count_votes L cfg chain now heavy N (ta_cache t) s1) = Inr s"
    using assms(1) days t by (auto simp: up_voting_phase_def day_setting_def Let_def s1_def)
  then have over: "\<not> fle now ?d" using assms(2) by (auto simp: s1_def in_activation_def split: if_splits)
  then have "up_count_votes L cfg chain now heavy N (ta_cache t) s1 = Inr s" using e1 by simp
  from up_count_votes_result [OF this assms(2)] have carried: "upgrade_carried cfg N s1"
    and phase: "up_challenge_phase L cfg chain now heavy (ta_cache t) s1 = Inr s" by blast+
  define bs where "bs keyed = first_ballots any_str (\<lambda>ts. \<not> flt ts started \<and> \<not> flt ?d ts) ''for'' ''against'' keyed" for keyed
  from gov.tally_exact [OF t] obtain keyed where k: "sort_events ?votes = Inr keyed" and m: "memo_of (rep_at L cfg chain) c (acts_of (bs keyed)) (ta_cache t)"
    and w: "for_weight t = side_weight (cached (ta_cache t)) True (bs keyed)" "against_weight t = side_weight (cached (ta_cache t)) False (bs keyed)"
    unfolding bs_def by blast
  have now: "memo_now L cfg chain now (ta_cache t)" by (rule memo_now_step [OF assms(3) m])
  have "up_voting_deadline s1 = Some ?d" by (simp add: s1_def)
  from up_challenge_phase_result [OF phase assms(2) now this] obtain acts c' s2 where m': "memo_of (rep_at L cfg chain) (ta_cache t) acts c'"
    and ch: "challenge_not_upheld L cfg chain now (cached c') s"
    and s2: "activation_phase cfg chain now heavy s2 = Inr s" "up_for s2 = up_for s1" "up_against s2 = up_against s1" "up_proposal_id s2 = up_proposal_id s1"
      "up_voting_started_at s2 = up_voting_started_at s1" "up_voting_deadline s2 = up_voting_deadline s1" "up_filed_at s2 = up_filed_at s1"
      "up_signature_weight s2 = up_signature_weight s1" by blast
  have le: "map_of (ta_cache t) \<subseteq>\<^sub>m map_of c'" using m' by (simp add: memo_of_def)
  have in_dom: "fst ` set (bs keyed) \<subseteq> dom (map_of (ta_cache t))" using m by (simp add: memo_of_def)
  have now': "memo_now L cfg chain now c'" by (rule memo_now_step [OF now m'])
  have "\<forall>b \<in> set (bs keyed). weighs L cfg chain now (cached c') (fst b)"
    using now' in_dom cached_mono [OF le] unfolding memo_now_def by blast
  moreover have f: "up_for s = side_weight (cached c') True (bs keyed)" "up_against s = side_weight (cached c') False (bs keyed)"
    using activation_phase_result [OF s2(1)] s2(2,3) w side_weight_later [OF le in_dom] by (simp_all add: s1_def)
  moreover have f2: "up_voting_started_at s = Some started" "up_voting_deadline s = Some ?d" "up_filed_at s = up_filed_at s0"
    "up_signature_weight s = up_signature_weight s0" using activation_phase_result [OF s2(1)] s2 by (simp_all add: s1_def)
  moreover have "upgrade_carried cfg N s"
    using carried activation_phase_result [OF s2(1)] s2(2,3) by (simp add: upgrade_carried_def)
  ultimately have "upgrade_voted L cfg chain (up_proposal_id s0) now N (cached c') s" unfolding upgrade_voted_def
    by (intro exI [of _ started] exI [of _ days] exI [of _ ?d] exI [of _ keyed] exI [of _ "bs keyed"]) (use days over k in \<open>simp add: bs_def\<close>)
  moreover have "map_of c \<subseteq>\<^sub>m map_of c'" by (rule memo_trans [OF m m'])
  moreover have "up_proposal_id s2 = up_proposal_id s0" using s2(4) by (simp add: s1_def)
  ultimately show ?thesis using now' ch f2 s2(1) by blast
qed

lemma upgrade_reaches_vote:
  assumes "compute_upgrade_state L set_order cfg pid chain now heavy_ids = Inr s" "in_activation s"
    and order: "set (set_order (acting_nodes chain)) = acting_nodes chain"
  shows "\<exists>N W. network_governance_weight L set_order cfg chain now = Inr N \<and> N = fsum (map W (set_order (acting_nodes chain)))
    \<and> (\<forall>n \<in> acting_nodes chain. weighs L cfg chain now W n)
    \<and> upgrade_signed L cfg chain pid now N W s \<and> upgrade_voted L cfg chain pid now N W s \<and> challenge_not_upheld L cfg chain now W s
    \<and> (\<exists>s2. activation_phase cfg chain now (case heavy_ids of Some h \<Rightarrow> h | None \<Rightarrow> {}) s2 = Inr s \<and> up_proposal_id s2 = pid)"
proof -
  let ?signs = "of_type ''upgrade_sign'' ''proposal_id'' pid chain" and ?heavy = "case heavy_ids of Some h \<Rightarrow> h | None \<Rightarrow> {}"
  obtain pev where pev: "first_event (of_type ''upgrade_propose'' ''proposal_id'' pid chain) = Some pev"
    using assms by (cases "first_event (of_type ''upgrade_propose'' ''proposal_id'' pid chain)") (auto simp: compute_upgrade_state_def proposal_not_found_def in_activation_def)
  obtain f_at N c0 share days keyed seen weight c s0 where
    r: "event_time pev = Inr f_at" "network_weight_and_cache L set_order cfg chain now = Inr (N, c0)"
      "cfg_float cfg ''upgrade_signature_threshold'' = Inr share" "cfg_float cfg ''upgrade_signature_window_days'' = Inr days"
      "sort_events ?signs = Inr keyed"
      "foldres (up_sign_step L cfg chain (fadd f_at (fmul days seconds_per_day))) keyed ([], Fin 0, c0) = Inr (seen, weight, c)"
    and s0: "s0 = (proposal_not_found pid)\<lparr>up_status := up_signatures, up_proposer_id := py_str (py_or (get pev ''node_id'') (PStr [])),
                     up_filed_at := f_at, release_hash := py_str (py_or (get (payload pev) ''release_hash'') (PStr [])),
                     target_protocol_version := py_str (py_or (get (payload pev) ''target_protocol_version'') (PStr [])), up_signature_weight := weight\<rparr>"
    and rest: "(if fle (fmul N share) weight \<and> flt (Fin 0) (fmul N share)
          then bnd (latest_by seen ?signs f_at) (\<lambda>started. up_voting_phase L cfg chain now ?heavy N c started s0)
          else Inr (if flt (fadd f_at (fmul days seconds_per_day)) now then s0\<lparr>up_status := up_failed_signatures\<rparr> else s0)) = Inr s"
    using assms(1) pev unfolding compute_upgrade_state_def day_setting_def Let_def by (auto simp: bnd_eq_Inr)
  let ?close = "fadd f_at (fmul days seconds_per_day)"
  have th: "fle (fmul N share) weight \<and> flt (Fin 0) (fmul N share)"
  proof (rule ccontr)
    assume "\<not> ?thesis"
    then have "s = (if flt ?close now then s0\<lparr>up_status := up_failed_signatures\<rparr> else s0)" using rest by auto
    then show False using assms(2) by (auto simp: s0 in_activation_def split: if_splits)
  qed
  then obtain started where l: "latest_by seen ?signs f_at = Inr started" and v: "up_voting_phase L cfg chain now ?heavy N c started s0 = Inr s"
    using rest by (auto simp: bnd_eq_Inr)
  define sigs where "sigs = first_signs any_str (filter (\<lambda>k. \<not> flt ?close (fst (fst k))) keyed)"
  have e: "seen = map fst sigs" "memo_of (rep_at L cfg chain) c0 sigs c" "weight = fsum (map (\<lambda>x. cached c (fst x)) sigs)"
    using up_sign_loop_exact [OF r(6) refl] by (simp_all add: sigs_def fsum_def)
  note net = network_memo [OF r(2) order]
  have now: "memo_now L cfg chain now c" by (rule memo_now_step [OF net [THEN conjunct1] e(2)])
  have s0: "up_proposal_id s0 = pid" "up_filed_at s0 = f_at" "up_signature_weight s0 = weight" by (simp_all add: s0 proposal_not_found_def)
  from up_voting_phase_result [OF v assms(2) now, unfolded s0] obtain c' where le: "map_of c \<subseteq>\<^sub>m map_of c'" and now': "memo_now L cfg chain now c'"
    and p: "upgrade_voted L cfg chain pid now N (cached c') s" "challenge_not_upheld L cfg chain now (cached c') s" "up_voting_started_at s = Some started"
      "up_filed_at s = f_at" "up_signature_weight s = weight"
      "\<exists>s2. activation_phase cfg chain now ?heavy s2 = Inr s \<and> up_proposal_id s2 = pid" by blast
  have in_dom: "fst ` set sigs \<subseteq> dom (map_of c)" using e(2) by (simp add: memo_of_def)
  have "map (\<lambda>x. cached c (fst x)) sigs = map (\<lambda>x. cached c' (fst x)) sigs" using in_dom cached_mono [OF le] by force
  then have sum: "up_signature_weight s = fsum (map (\<lambda>x. cached c' (fst x)) sigs)" by (simp only: p(5) e(3))
  have reached: "fle (fmul N share) (up_signature_weight s)" "flt (Fin 0) (fmul N share)" using th p(5) by simp_all
  have "\<forall>x \<in> set sigs. weighs L cfg chain now (cached c') (fst x)" using in_dom cached_mono [OF le] now' unfolding memo_now_def by blast
  then have "upgrade_signed L cfg chain pid now N (cached c') s" unfolding upgrade_signed_def
    by - (rule exI [of _ pev], rule exI [of _ keyed], rule exI [of _ days], rule exI [of _ share], rule exI [of _ sigs], rule exI [of _ started],
        use p(3,4) r(1,3,4,5) pev sum reached e(1) l in \<open>simp add: sigs_def\<close>)
  moreover have "N = fsum (map (cached c') (set_order (acting_nodes chain)))"
  proof -
    have "map_of c0 \<subseteq>\<^sub>m map_of c'" by (rule map_le_trans [OF _ le]) (use e(2) in \<open>simp add: memo_of_def\<close>)
    then have "\<forall>n \<in> acting_nodes chain. cached c' n = cached c0 n" using net cached_mono unfolding memo_now_def by blast
    then have "map (cached c0) (set_order (acting_nodes chain)) = map (cached c') (set_order (acting_nodes chain))" using order by simp
    moreover have "N = fsum (map (cached c0) (set_order (acting_nodes chain)))" using net by blast
    ultimately show ?thesis by (simp only:)
  qed
  moreover have "\<forall>n \<in> acting_nodes chain. weighs L cfg chain now (cached c') n" using now' unfolding memo_now_def by blast
  ultimately show ?thesis using p net by blast
qed

text \<open>
  C21: an upgrade reaches activation only by the weight of the network. Let a proposal be in activation,
  activated or failed there, and let the iteration over a set visit its elements. Then there is one
  weight per node, its current active reputation, whose sum is the weight of the network, and: the first
  signatures of the nodes within the configured days reach the configured fraction of it; the vote
  starts with the latest signature and is over, counts exactly the first ballot of each node in its time,
  and meets quorum and supermajority, in favour outweighing against; the challenge window after it is
  over, and if a challenge was raised, the first ballots of the nodes between the challenge and the end
  of the window that uphold it do not outweigh those that reject it. The readiness recorded counts the
  heavy nodes that signalled the release. A proposal fails here only below the readiness threshold and
  after the deadline; it is activated exactly if an activation is on the chain, ready or not.
\<close>

theorem upgrade_activation_by_vote:
  assumes "config_ok cfg" "pow_fraction L" "set (set_order (acting_nodes chain)) = acting_nodes chain"
    and "compute_upgrade_state L set_order cfg pid chain now heavy_ids = Inr s" "in_activation s"
  shows "(\<exists>N W. network_governance_weight L set_order cfg chain now = Inr N \<and> N = fsum (map W (set_order (acting_nodes chain)))
      \<and> (\<forall>n \<in> acting_nodes chain. rep_at L cfg chain n now (W n))
      \<and> upgrade_signed L cfg chain pid now N W s \<and> upgrade_voted L cfg chain pid now N W s \<and> challenge_not_upheld L cfg chain now W s)
    \<and> (fisfinite (fadd (up_for s) (up_against s)) \<longrightarrow> flt (up_against s) (up_for s))
    \<and> readiness_of cfg chain (case heavy_ids of Some h \<Rightarrow> h | None \<Rightarrow> {}) s
    \<and> (up_status s = activated \<longleftrightarrow> of_type ''upgrade_activate'' ''proposal_id'' pid chain \<noteq> [])
    \<and> (up_status s = failed_activation \<longrightarrow> \<not> threshold_met (up_readiness s) \<and> (\<exists>d. activation_deadline s = Some d \<and> flt d now))"
proof -
  obtain N W s2 where n: "network_governance_weight L set_order cfg chain now = Inr N" "N = fsum (map W (set_order (acting_nodes chain)))"
    "\<forall>n \<in> acting_nodes chain. weighs L cfg chain now W n"
    and p: "upgrade_signed L cfg chain pid now N W s" "upgrade_voted L cfg chain pid now N W s" "challenge_not_upheld L cfg chain now W s"
    and s2: "activation_phase cfg chain now (case heavy_ids of Some h \<Rightarrow> h | None \<Rightarrow> {}) s2 = Inr s" "up_proposal_id s2 = pid"
    using upgrade_reaches_vote [OF assms(4,5,3)] by blast
  note a = activation_phase_result [OF s2(1), unfolded s2(2)]
  have maj: "flt (up_against s) (up_for s)" if fin: "fisfinite (fadd (up_for s) (up_against s))"
  proof -
    from p(2) obtain bs where b: "\<forall>b \<in> set bs. weighs L cfg chain now W (fst b)" "up_for s = side_weight W True bs" "up_against s = side_weight W False bs"
      "upgrade_carried cfg N s" unfolding upgrade_voted_def by blast
    have "\<exists>u. rep_at L cfg chain n u (W n)" if "(n, y, t) \<in> set bs" for n y t
      using b(1) that by (fastforce simp: weighs_def split: if_splits)
    then have "\<forall>(n, y, t) \<in> set bs. \<exists>u. rep_at L cfg chain n u (W n)" by blast
    from side_weight_nonneg [OF assms(1,2) this] have "fnonneg (up_for s)" "fnonneg (up_against s)" using fadd_finite [OF fin] b(2,3) by simp_all
    moreover have "fval (up_for s)" "fval (up_against s)" using b by (simp_all add: side_weight_def)
    ultimately show ?thesis using upgrade_carried_majority [OF assms(1) b(4)] fin by blast
  qed
  have "\<forall>n \<in> acting_nodes chain. rep_at L cfg chain n now (W n)" using n(3) by (simp add: weighs_def)
  with n(1,2) p have vote: "\<exists>N W. network_governance_weight L set_order cfg chain now = Inr N \<and> N = fsum (map W (set_order (acting_nodes chain)))
      \<and> (\<forall>n \<in> acting_nodes chain. rep_at L cfg chain n now (W n))
      \<and> upgrade_signed L cfg chain pid now N W s \<and> upgrade_voted L cfg chain pid now N W s \<and> challenge_not_upheld L cfg chain now W s" by blast
  have act: "readiness_of cfg chain (case heavy_ids of Some h \<Rightarrow> h | None \<Rightarrow> {}) s"
    "up_status s = activated \<longleftrightarrow> of_type ''upgrade_activate'' ''proposal_id'' pid chain \<noteq> []"
    "up_status s = failed_activation \<longrightarrow> \<not> threshold_met (up_readiness s) \<and> (\<exists>d. activation_deadline s = Some d \<and> flt d now)"
    using a by blast+
  show ?thesis by (intro conjI impI vote maj act(1,2) act(3) [THEN mp, THEN conjunct1] act(3) [THEN mp, THEN conjunct2])
qed

text \<open>
  The witness activates a proposal whose only heavy node never signalled: the activation event needs no
  readiness.
\<close>

theorem upgrade_activation_by_vote_witness:
  "\<exists>s. compute_upgrade_state \<lparr>log2 = (\<lambda>_. Fin 0), pow = (\<lambda>_ _. Fin 1)\<rparr> (\<lambda>_. [''a'']) baseline_config ''u'' gov_example (Fin 1728003) (Some {''h''}) = Inr s
     \<and> up_status s = activated \<and> ready_count (up_readiness s) = 0"
proof -
  let ?L = "\<lparr>log2 = (\<lambda>_. Fin 0), pow = (\<lambda>_ _. Fin 1)\<rparr>" and ?o = "\<lambda>_::string set. [''a'']"
  let ?pr = "[(''event_type'', PStr ''upgrade_propose''), (''node_id'', PStr ''a''), (''timestamp'', PInt 86403), (''sequence'', PInt 3),
            (''payload'', PDict [(''proposal_id'', PStr ''u''), (''release_hash'', PStr ''r'')])]"
  let ?sign = "[(''event_type'', PStr ''upgrade_sign''), (''node_id'', PStr ''a''), (''timestamp'', PInt 86403), (''sequence'', PInt 4),
            (''payload'', PDict [(''proposal_id'', PStr ''u'')])]"
  let ?vote = "[(''event_type'', PStr ''upgrade_vote''), (''node_id'', PStr ''a''), (''timestamp'', PInt 86403), (''sequence'', PInt 5),
            (''payload'', PDict [(''proposal_id'', PStr ''u''), (''vote'', PStr ''for'')])]"
  have w: "compute_oracle_rep_active ?L baseline_config ''a'' gov_example (Fin 1728003) = Inr (Fin 10)" by (simp add: gov_example_weight)
  have ty: "of_type ''upgrade_propose'' ''proposal_id'' ''u'' gov_example = [?pr]" "of_type ''upgrade_sign'' ''proposal_id'' ''u'' gov_example = [?sign]"
    "of_type ''upgrade_vote'' ''proposal_id'' ''u'' gov_example = [?vote]" "of_type ''upgrade_challenge'' ''proposal_id'' ''u'' gov_example = []"
    "of_type ''upgrade_signal_ready'' ''proposal_id'' ''u'' gov_example = []" "\<exists>x. of_type ''upgrade_activate'' ''proposal_id'' ''u'' gov_example = [x]"
    by (simp_all add: of_type_def gov_example_def ev_is_def about_def payload_def)
  have n: "network_weight_and_cache ?L ?o baseline_config gov_example (Fin 1728003) = Inr (Fin 10, [(''a'', Fin 10)])"
    using w by (simp add: network_weight_and_cache_def weigh_step_def governance_weight_def fsum_def)
  have "fval (Fin 10)" using fval_fl [of 10] by simp
  then have part: "fle (fmul (Fin 10) (fl q)) (Fin 10)" if "0 \<le> q" "q \<le> 1" for q
    using unit_fmul [of "Fin 10" "fl q"] unit_interval_fl that by simp
  have q: "fl (1/4) = Fin (1/4)" "fl (5/2) = Fin (5/2)" using fl_dyadic [of 1 2] fl_dyadic [of 5 1] by simp_all
  have act: "\<exists>s. activation_phase baseline_config gov_example (Fin 1728003) {''h''} s0 = Inr s \<and> up_status s = activated"
    if "up_proposal_id s0 = ''u''" "up_challenge_until s0 = Some (Fin 1468803)" for s0
    using that ty by (auto simp: activation_phase_def Let_def day_setting_def seconds_per_day_def cfg_simps float_or_def heavy_ready_def int_truediv_def float_of_rat_exact_def)
  have phase: "\<exists>s. up_challenge_phase ?L baseline_config gov_example (Fin 1728003) {''h''} c s0 = Inr s \<and> up_status s = activated"
    if "up_proposal_id s0 = ''u''" "up_voting_deadline s0 = Some (Fin 1296003)" for s0 c
    using that ty act by (simp add: up_challenge_phase_def Let_def hours_setting_def seconds_per_hour_def cfg_simps float_or_def challenge_weights_def first_event_def)
  have count: "\<exists>s. up_count_votes ?L baseline_config gov_example (Fin 1728003) {''h''} (Fin 10) c s0 = Inr s \<and> up_status s = activated"
    if "up_for s0 = Fin 10" "up_against s0 = Fin 0" "up_proposal_id s0 = ''u''" "up_voting_deadline s0 = Some (Fin 1296003)" for s0 c
  proof -
    have "\<not> flt (Fin 10) (fmul (Fin 10) (fl (2/5)))" "\<not> flt (Fin 1) (fl (4/5))"
      using part [of "2/5"] fl_unit [of "4/5"] flt_antisym_not by auto
    then show ?thesis using that phase [OF that(3,4)] by (simp add: up_count_votes_def Let_def cfg_simps)
  qed
  have v: "\<exists>s. up_voting_phase ?L baseline_config gov_example (Fin 1728003) {''h''} (Fin 10) [(''a'', Fin 10)] (Fin 86403) s0 = Inr s \<and> up_status s = activated"
    if "up_proposal_id s0 = ''u''" for s0
    using that count by (simp add: up_voting_phase_def Let_def day_setting_def seconds_per_day_def cfg_simps ty any_str_def
        tally_votes_def sort_events_def sort_key_def py_or_def tally_step_def empty_tally_def governance_weight_def payload_def)
  have "\<exists>s. compute_upgrade_state ?L ?o baseline_config ''u'' gov_example (Fin 1728003) (Some {''h''}) = Inr s \<and> up_status s = activated"
    using q v n by (simp add: compute_upgrade_state_def ty first_event_def event_time_def py_or_def payload_def cfg_simps day_setting_def seconds_per_day_def any_str_def
        Let_def sort_events_def sort_key_def up_sign_step_def governance_weight_def latest_by_def in_str_set_def in_strs_def proposal_not_found_def List.map_filter_def)
  then obtain s where s: "compute_upgrade_state ?L ?o baseline_config ''u'' gov_example (Fin 1728003) (Some {''h''}) = Inr s" "up_status s = activated" by blast
  have "acting_nodes gov_example = {''a''}" by (auto simp: acting_nodes_def gov_example_def List.map_filter_def)
  then have order: "set (?o (acting_nodes gov_example)) = acting_nodes gov_example" by simp
  have "pow_fraction ?L" by (simp add: pow_fraction_def)
  moreover have "in_activation s" using s(2) by (simp add: in_activation_def)
  ultimately have "readiness_of baseline_config gov_example (case Some {''h''} of Some h \<Rightarrow> h | None \<Rightarrow> {}) s"
    using upgrade_activation_by_vote [OF baseline_ok _ order s(1)] by blast
  moreover have "of_type ''upgrade_signal_ready'' ''proposal_id'' x gov_example = []" for x
    by (simp add: of_type_def gov_example_def ev_is_def)
  ultimately have "ready_count (up_readiness s) = card (heavy_ready {''h''} (release_hash s) [])" by (simp add: readiness_of_def)
  then have "ready_count (up_readiness s) = 0" by (simp add: heavy_ready_def)
  then show ?thesis using s by blast
qed

end
