(* ===== verification/Snapshot_Event.thy ===== *)
theory Snapshot_Event
  imports Evidence Json Schema
begin

text \<open>
  The snapshot as an event: \<open>compute_snapshot_event_hash\<close> of
  \<open>services/infonet/markets/snapshot.py\<close>, and how what \<open>build_snapshot\<close> builds fits the schema of
  the event it is written into.
\<close>

definition compute_snapshot_event_hash :: "primitives \<Rightarrow> pydict \<Rightarrow> string \<Rightarrow> string \<Rightarrow> int \<Rightarrow> string" where
  "compute_snapshot_event_hash P snapshot_payload m creator_node_id sequence =
     sha256 P (json_dumps (PDict
       [(''event_type'', PStr ''market_snapshot''), (''market_id'', PStr m), (''node_id'', PStr creator_node_id),
        (''sequence'', PInt sequence), (''payload'', PDict snapshot_payload)]))"

text \<open>The payload as it is emitted, with its hash.\<close>

definition hashed_snapshot :: "primitives \<Rightarrow> pydict \<Rightarrow> string \<Rightarrow> string \<Rightarrow> int \<Rightarrow> pydict" where
  "hashed_snapshot P d m creator_node_id sequence =
     d @ [(''snapshot_event_hash'', PStr (compute_snapshot_event_hash P d m creator_node_id sequence))]"

lemma registry_market_snapshot: "validate_infonet_event_payload ''market_snapshot'' v = validate_market_snapshot v"
proof -
  have m: "''market_snapshot'' \<in> set infonet_economy_event_types" by (simp add: infonet_economy_event_types_def)
  have l: "map_of schema_registry ''market_snapshot'' = Some (snd (reg ''market_snapshot'' [''market_id'', ''frozen_participant_count'', ''frozen_total_stake'', ''frozen_predictor_ids'', ''frozen_probability_state'', ''frozen_at''] [''snapshot_event_hash''] validate_market_snapshot))"
    by (simp add: schema_registry_def reg_def)
  show ?thesis using m l by (simp add: validate_infonet_event_payload_def validate_payload_def reg_def)
qed

text \<open>The payload of the hash, in the order in which the code builds it, or in any other.\<close>

lemma hash_payload_order:
  assumes "distinct (map fst d)" "distinct (map fst d')" "set d = set d'"
  shows "compute_snapshot_event_hash P d m n i = compute_snapshot_event_hash P d' m n i"
  using json_dumps_dict_order [OF assms] by (simp add: compute_snapshot_event_hash_def)

lemma snapshot_verdict:
  assumes "build_snapshot m chain frozen_at = Inr d"
  shows "validate_market_snapshot (PDict (d @ e)) = Inr (True, ''ok'') \<longleftrightarrow>
    num_cmp (flt (Fin 0)) (get d ''frozen_at'')
    \<and> (\<forall>ev \<in> set (events_for_market m chain). \<forall>node side w st. counted_prediction ev = Some (node, side, w, st) \<longrightarrow> strip node \<noteq> [])"
proof -
  obtain t where t: "finite_float frozen_at = Some t" using assms by (auto simp: build_snapshot_def split: option.splits)
  define acc where "acc = snapshot_loop (events_for_market m chain)"
  obtain q where d: "d = [(''market_id'', PStr m), (''frozen_participant_count'', PInt (int (length (predictor_ids acc)))),
        (''frozen_total_stake'', PFloat (total_stake acc)), (''frozen_predictor_ids'', PList (map PStr (predictor_ids acc))),
        (''frozen_probability_state'', PDict [(''yes'', PFloat q), (''no'', PFloat (fsub (Fin 1) q))]), (''frozen_at'', PFloat t)]"
    using build_snapshot_run [OF t, of m chain] assms by (auto simp: Let_def acc_def)
  have total: "fle (Fin 0) (total_stake acc)" using loop_amounts by (simp add: fnonneg_def acc_def)
  have ids: "list_all is_nonempty_str (map PStr (predictor_ids acc)) \<longleftrightarrow>
      (\<forall>ev \<in> set (events_for_market m chain). \<forall>node side w st. counted_prediction ev = Some (node, side, w, st) \<longrightarrow> strip node \<noteq> [])"
  proof -
    have "list_all is_nonempty_str (map PStr (predictor_ids acc)) \<longleftrightarrow> (\<forall>n \<in> set (predictor_ids acc). strip n \<noteq> [])"
      by (simp add: list_all_iff is_nonempty_str_def)
    then show ?thesis unfolding acc_def predictor_ids_set by blast
  qed
  show ?thesis
    unfolding validate_market_snapshot_def checked_accepts d
    using total by (simp add: ids is_positive_number_def is_nonnegative_number_def num_cmp_def conj_commute)
qed

text \<open>
  C22: a snapshot fits the schema of its event. What \<open>build_snapshot\<close> builds is accepted by the schema of
  \<open>market_snapshot\<close>, with its hash appended or without, exactly if the freeze time is positive and no
  counted predictor has a name of white space only. Written by any node into a well-ordered event, it
  is what \<open>find_snapshot\<close> returns from then on, whatever is appended later; the hash does not depend on
  the order of its keys.
\<close>

theorem snapshot_well_typed:
  assumes "build_snapshot m chain frozen_at = Inr d"
  shows "let d' = hashed_snapshot P d m creator i in
    (validate_infonet_event_payload ''market_snapshot'' (PDict d') = Inr (True, ''ok'') \<longleftrightarrow>
       num_cmp (flt (Fin 0)) (get d ''frozen_at'')
       \<and> (\<forall>ev \<in> set (events_for_market m chain). \<forall>node side w st. counted_prediction ev = Some (node, side, w, st) \<longrightarrow> strip node \<noteq> []))
    \<and> validate_infonet_event_payload ''market_snapshot'' (PDict d) = validate_infonet_event_payload ''market_snapshot'' (PDict d')
    \<and> (find_snapshot m chain = Inr None \<longrightarrow> ev_is ''market_snapshot'' ev \<longrightarrow> payload ev = d' \<longrightarrow> has_valid_ordering ev \<longrightarrow>
         find_snapshot m (chain @ PDict ev # later) = Inr (Some d'))
    \<and> (\<forall>e. distinct (map fst e) \<longrightarrow> set e = set d \<longrightarrow> compute_snapshot_event_hash P e m creator i = compute_snapshot_event_hash P d m creator i)"
proof -
  let ?d' = "hashed_snapshot P d m creator i"
  obtain t where t: "finite_float frozen_at = Some t" using assms by (auto simp: build_snapshot_def split: option.splits)
  obtain ids total q n where d: "d = [(''market_id'', PStr m), (''frozen_participant_count'', PInt n), (''frozen_total_stake'', PFloat total),
      (''frozen_predictor_ids'', PList ids), (''frozen_probability_state'', PDict [(''yes'', PFloat q), (''no'', PFloat (fsub (Fin 1) q))]), (''frozen_at'', PFloat t)]"
    using build_snapshot_run [OF t, of m chain] assms by (auto simp: Let_def)
  have v: "validate_market_snapshot (PDict ?d') = Inr (True, ''ok'') \<longleftrightarrow> num_cmp (flt (Fin 0)) (get d ''frozen_at'')
       \<and> (\<forall>ev \<in> set (events_for_market m chain). \<forall>node side w st. counted_prediction ev = Some (node, side, w, st) \<longrightarrow> strip node \<noteq> [])"
    unfolding hashed_snapshot_def by (rule snapshot_verdict [OF assms])
  have same: "validate_market_snapshot (PDict d) = validate_market_snapshot (PDict ?d')"
    by (simp add: validate_market_snapshot_def checked_def required_def hashed_snapshot_def d)
  have mid: "market_id ev = m" if "payload ev = ?d'" using that by (auto simp: market_id_def hashed_snapshot_def d py_or_def)
  have "find_snapshot m (chain @ PDict ev # later) = Inr (Some ?d')"
    if "find_snapshot m chain = Inr None" "ev_is ''market_snapshot'' ev" "payload ev = ?d'" "has_valid_ordering ev"
  proof -
    have "first_authoritative_event (events_for_market m chain) ''market_snapshot'' = None"
      using that(1) by (auto simp: find_snapshot_def split: option.splits if_splits)
    then have "first_authoritative_event (events_for_market m (chain @ PDict ev # later)) ''market_snapshot'' = Some ev"
      using that mid by (simp add: first_authoritative_event_def find_append_cases events_for_market_def)
    then show ?thesis using that by (simp add: find_snapshot_def)
  qed
  note find = this
  have "distinct (map fst d)" by (simp add: d)
  then have order: "\<forall>e. distinct (map fst e) \<longrightarrow> set e = set d \<longrightarrow> compute_snapshot_event_hash P e m creator i = compute_snapshot_event_hash P d m creator i"
    using hash_payload_order by blast
  show ?thesis
    unfolding Let_def registry_market_snapshot by (intro conjI v same order) (blast intro: find)
qed

theorem snapshot_well_typed_witness:
  "\<exists>d. build_snapshot ''m'' [PDict [(''event_type'', PStr ''prediction_place''), (''node_id'', PStr '' ''),
       (''payload'', PDict [(''market_id'', PStr ''m''), (''side'', PStr ''yes'')])]] (PInt 5) = Inr d
     \<and> validate_infonet_event_payload ''market_snapshot'' (PDict (hashed_snapshot plain_primitives d ''m'' ''c'' 1)) \<noteq> Inr (True, ''ok'')"
    (is "\<exists>d. build_snapshot _ ?c _ = _ \<and> _")
proof -
  let ?ev = "[(''event_type'', PStr ''prediction_place''), (''node_id'', PStr '' ''),
       (''payload'', PDict [(''market_id'', PStr ''m''), (''side'', PStr ''yes'')])]"
  have t: "finite_float (PInt 5) = Some (Fin 5)" by (simp add: finite_float_def)
  obtain d where d: "build_snapshot ''m'' ?c (PInt 5) = Inr d" using build_snapshot_run [OF t, of "''m''" ?c] by (auto simp: Let_def)
  have "?ev \<in> set (events_for_market ''m'' ?c)" by (simp add: events_for_market_def market_id_def payload_def py_or_def)
  moreover have "counted_prediction ?ev = Some ('' '', ''yes'', Fin 1, Fin 0)"
    by (simp add: counted_prediction_def ev_is_def payload_def prediction_weight_def Let_def)
  moreover have "strip '' '' = []" by (simp add: strip_def is_space_def)
  ultimately have "validate_infonet_event_payload ''market_snapshot'' (PDict (hashed_snapshot plain_primitives d ''m'' ''c'' 1)) \<noteq> Inr (True, ''ok'')"
    using snapshot_well_typed [OF d, of plain_primitives "''c''" 1 "[]" "[]"] unfolding Let_def by metis
  with d show ?thesis by blast
qed

end
