(* ===== verification/Text_Facts.thy ===== *)
theory Text_Facts
  imports Float_Facts PyValue
begin

text \<open>
  Which characters the texts of numbers consist of. Formats that separate fields by a bar or lines by a
  line break rest on it.
\<close>

definition number_chars :: string where
  "number_chars = ''0123456789.e+-infa''"

definition numeric :: "string \<Rightarrow> bool" where
  "numeric s \<longleftrightarrow> set s \<subseteq> set number_chars"

lemma numeric_simps [simp]:
  "numeric []" "numeric (c # s) \<longleftrightarrow> c \<in> set number_chars \<and> numeric s" "numeric (s @ t) \<longleftrightarrow> numeric s \<and> numeric t"
  by (auto simp: numeric_def)

lemma numeric_sub: "numeric s \<Longrightarrow> numeric (take n s)" "numeric s \<Longrightarrow> numeric (drop n s)" "c \<in> set number_chars \<Longrightarrow> numeric (replicate n c)"
  by (auto simp: numeric_def dest: in_set_takeD in_set_dropD)

lemma number_chars_members [simp]:
  "CHR ''0'' \<in> set number_chars" "CHR ''.'' \<in> set number_chars" "CHR ''e'' \<in> set number_chars"
  "CHR ''+'' \<in> set number_chars" "CHR ''-'' \<in> set number_chars" "CHR ''i'' \<in> set number_chars"
  "CHR ''n'' \<in> set number_chars" "CHR ''f'' \<in> set number_chars" "CHR ''a'' \<in> set number_chars"
  by (simp_all add: number_chars_def)

lemma digit_char_in:
  assumes "0 \<le> n" "n < 10" shows "char_of (48 + n :: int) \<in> set number_chars"
proof -
  have "list_all (\<lambda>k. char_of (48 + int k) \<in> set number_chars) [0..<10]" by code_simp
  then have "char_of (48 + int (nat n)) \<in> set number_chars" using assms unfolding list_all_iff by (metis atLeastLessThan_iff nat_less_iff atLeastLessThan_upt of_nat_numeral zero_le)
  then show ?thesis using assms by simp
qed

lemma numeric_digits: "0 \<le> n \<Longrightarrow> numeric (nat_digits n)"
proof (induction n rule: nat_digits.induct)
  case (1 n)
  have d: "char_of (48 + n mod 10) \<in> set number_chars" by (intro digit_char_in) simp_all
  show ?case
  proof (cases "n < 10")
    case True
    then show ?thesis using d 1 by (subst nat_digits.simps) simp
  next
    case False
    then have "numeric (nat_digits (n div 10))" using 1 by simp
    then show ?thesis using d False by (subst nat_digits.simps) simp
  qed
qed

lemma numeric_int: "numeric (int_str n)"
  by (simp add: int_str_def numeric_digits)

lemma find_member: "find P xs = Some x \<Longrightarrow> x \<in> set xs"
  by (auto simp: find_Some_iff)

lemma shortest_digits_nonneg:
  assumes "shortest_digits q = Some (m, k)" "0 \<le> q" shows "0 \<le> m"
proof -
  let ?cand = "\<lambda>p. let k = dec_exp q - int p + 1; s = q / 10 powi k; lo = \<lfloor>s\<rfloor>
             in map (\<lambda>m. (m, k)) (if s - of_int lo \<le> of_int (lo + 1) - s then [lo, lo + 1] else [lo + 1, lo])"
  have "(m, k) \<in> set (concat (map ?cand [1..<18]))"
    using assms(1) unfolding shortest_digits_def Let_def by (rule find_member)
  then obtain p where "(m, k) \<in> set (?cand p)" unfolding set_concat set_map by blast
  then have "m = \<lfloor>q / 10 powi k\<rfloor> \<or> m = \<lfloor>q / 10 powi k\<rfloor> + 1" by (auto simp: Let_def split: if_splits)
  moreover have "0 \<le> \<lfloor>q / 10 powi k\<rfloor>" using assms(2) by simp
  ultimately show ?thesis by linarith
qed

lemma numeric_format: "numeric ds \<Longrightarrow> numeric (format_digits ds pt)"
  by (auto simp: format_digits_def Let_def numeric_sub numeric_digits)

lemma numeric_float: "numeric (float_repr x)"
proof (cases x)
  case (Fin q)
  then show ?thesis
    using shortest_digits_nonneg [of "\<bar>q\<bar>"] by (auto simp: Let_def numeric_digits intro!: numeric_format split: option.split)
qed simp_all

lemma numeric_plain: "numeric s \<Longrightarrow> CHR ''|'' \<notin> set s" "numeric s \<Longrightarrow> CHR 0x0A \<notin> set s"
  by (auto simp: numeric_def number_chars_def)

end
