(* ===== verification/Partition.thy ===== *)
theory Partition
  imports Text_Facts Oracle_Rep Time_Validity Json Schema "HOL-Library.Multiset"
begin

text \<open>
  \<open>services/infonet/partition/\<close>: the two consistency tiers of the event types
  (\<open>two_tier_state.py\<close>), the provisional flag of a node whose chain is stale (\<open>provisional.py\<close>), and
  the epoch checkpoints with the root over the events of an epoch (\<open>epoch_checkpoint.py\<close>).
\<close>

subsection \<open>Tiers\<close>

definition tier1_event_types :: "string list" where
  "tier1_event_types = [''uprep'', ''downrep'', ''gate_enter'', ''gate_exit'', ''gate_lock'', ''post_create'', ''post_reply'',
     ''citizenship_claim'', ''prediction_create'', ''prediction_place'', ''truth_stake_place'', ''bounty_create'', ''bounty_claim'']"

definition tier2_event_types :: "string list" where
  "tier2_event_types = [''market_snapshot'', ''evidence_submit'', ''resolution_stake'', ''bootstrap_resolution_vote'', ''resolution_finalize'',
     ''truth_stake_resolve'', ''dispute_open'', ''dispute_stake'', ''dispute_resolve'',
     ''gate_suspend_file'', ''gate_suspend_vote'', ''gate_suspend_execute'', ''gate_shutdown_file'', ''gate_shutdown_vote'', ''gate_shutdown_execute'',
     ''gate_unsuspend'', ''gate_shutdown_appeal_file'', ''gate_shutdown_appeal_vote'', ''gate_shutdown_appeal_resolve'',
     ''petition_file'', ''petition_sign'', ''petition_vote'', ''challenge_file'', ''challenge_vote'', ''petition_execute'',
     ''upgrade_propose'', ''upgrade_sign'', ''upgrade_vote'', ''upgrade_challenge'', ''upgrade_challenge_vote'', ''upgrade_signal_ready'', ''upgrade_activate'',
     ''coin_transfer'', ''coin_mint'', ''identity_rotate'']"

definition infrastructure_types :: "string list" where
  "infrastructure_types = [''node_register'']"

definition classify_event_type :: "string \<Rightarrow> string" where
  "classify_event_type et =
     (if et \<in> set tier1_event_types then ''tier1''
      else if et \<in> set tier2_event_types then ''tier2''
      else if et \<in> set infrastructure_types then ''infrastructure''
      else ''unknown'')"

definition assert_classification_complete :: "unit res" where
  "assert_classification_complete =
     (if \<not> set infonet_economy_event_types \<subseteq> set tier1_event_types \<union> set tier2_event_types \<union> set infrastructure_types then Inl AssertionError
      else if set tier1_event_types \<inter> set tier2_event_types \<noteq> {} then Inl AssertionError
      else Inr ())"

subsection \<open>The provisional flag\<close>

definition default_max_chain_lag_s :: pyfloat where
  "default_max_chain_lag_s = Fin 60"

definition chain_lag_seconds :: "chain \<Rightarrow> pyfloat \<Rightarrow> pyfloat res" where
  "chain_lag_seconds chain now =
     bnd (chain_majority_time chain default_median_n) (\<lambda>cmt.
       Inr (if fle cmt (Fin 0) then PosInf else fmax (Fin 0) (fsub now cmt)))"

definition is_chain_stale :: "chain \<Rightarrow> pyfloat \<Rightarrow> pyfloat \<Rightarrow> bool res" where
  "is_chain_stale chain now max_lag = bnd (chain_lag_seconds chain now) (\<lambda>lag. Inr (flt max_lag lag))"

definition should_mark_provisional :: "string \<Rightarrow> chain \<Rightarrow> pyfloat \<Rightarrow> pyfloat \<Rightarrow> bool res" where
  "should_mark_provisional et chain now max_lag =
     (if classify_event_type et \<noteq> ''tier2'' then Inr False else is_chain_stale chain now max_lag)"

subsection \<open>Epoch checkpoints\<close>

datatype checkpoint_status = Pending | Confirmed | Failed

record epoch_checkpoint =
  epoch_id :: int
  root_hash :: string
  epoch_start_ts :: pyfloat
  epoch_end_ts :: pyfloat
  participating_heavy_node_ids :: "string set"
  signatures :: "(string \<times> string) list"
  threshold :: pyfloat

definition participation_fraction :: "epoch_checkpoint \<Rightarrow> int \<Rightarrow> pyfloat res" where
  "participation_fraction c total_heavy_nodes =
     (if total_heavy_nodes \<le> 0 then Inr (Fin 0)
      else int_truediv (int (card (participating_heavy_node_ids c))) total_heavy_nodes)"

definition checkpoint_state :: "epoch_checkpoint \<Rightarrow> int \<Rightarrow> pyfloat \<Rightarrow> checkpoint_status res" where
  "checkpoint_state c total_heavy_nodes now =
     bnd (participation_fraction c total_heavy_nodes) (\<lambda>f.
       Inr (if fle (threshold c) f then Confirmed else if flt (epoch_end_ts c) now then Failed else Pending))"

definition is_checkpoint_confirmed :: "epoch_checkpoint \<Rightarrow> int \<Rightarrow> pyfloat \<Rightarrow> bool res" where
  "is_checkpoint_confirmed c total_heavy_nodes now =
     bnd (checkpoint_state c total_heavy_nodes now) (\<lambda>s. Inr (s = Confirmed))"

text \<open>The events of the window, then their keys: time, sequence number and event id.\<close>

definition window_event :: "pyfloat \<Rightarrow> pyfloat \<Rightarrow> pydict \<Rightarrow> pydict list \<Rightarrow> pydict list res" where
  "window_event from until ev out =
     bnd (catching type_or_value (bnd (event_time ev) (\<lambda>t. Inr (Some t))) (Inr None)) (\<lambda>r. case r of
         None \<Rightarrow> Inr out
       | Some ts \<Rightarrow> Inr (if fle from ts \<and> flt ts until then out @ [ev] else out))"

type_synonym epoch_sort_key = "(pyfloat \<times> int) \<times> string"

definition epoch_key :: "pydict \<Rightarrow> epoch_sort_key res" where
  "epoch_key ev = bnd (sort_key ev) (\<lambda>k. Inr (k, py_str (py_or (get ev ''event_id'') (PStr []))))"

definition epoch_lt :: "epoch_sort_key \<Rightarrow> epoch_sort_key \<Rightarrow> bool" where
  "epoch_lt a b = (if feq (fst (fst a)) (fst (fst b)) \<and> snd (fst a) = snd (fst b) then str_lt (snd a) (snd b)
     else key_lt (fst a) (fst b))"

definition epoch_events :: "chain \<Rightarrow> pyfloat \<Rightarrow> pyfloat \<Rightarrow> (epoch_sort_key \<times> pydict) list res" where
  "epoch_events chain from until =
     bnd (foldres (window_event from until) (events_of chain) []) (\<lambda>evs.
     bnd (mapres (\<lambda>ev. bnd (epoch_key ev) (\<lambda>k. Inr (k, ev))) evs) (\<lambda>keyed.
       Inr (sort_by (\<lambda>a b. epoch_lt (fst a) (fst b)) keyed)))"

definition canonical_line :: "pydict \<Rightarrow> string" where
  "canonical_line ev = json_dumps (PDict ev) @ [CHR 0x0A]"

definition canonical_epoch_root :: "primitives \<Rightarrow> chain \<Rightarrow> pyfloat \<Rightarrow> pyfloat \<Rightarrow> string res" where
  "canonical_epoch_root P chain from until =
     bnd (epoch_events chain from until) (\<lambda>keyed. Inr (sha256 P (concat (map (canonical_line \<circ> snd) keyed))))"

subsection \<open>Tiers are complete\<close>

lemma tiers_disjoint: "et \<in> set tier1_event_types \<Longrightarrow> et \<notin> set tier2_event_types"
  by (auto simp: tier1_event_types_def tier2_event_types_def)

text \<open>Every economy event type has a tier, and no other type has one.\<close>

lemma classification_complete:
  "assert_classification_complete = Inr () \<and> (classify_event_type et \<noteq> ''unknown'' \<longleftrightarrow> et \<in> set infonet_economy_event_types)"
proof
  have "set infonet_economy_event_types = set tier1_event_types \<union> set tier2_event_types \<union> set infrastructure_types"
    unfolding infonet_economy_event_types_def tier1_event_types_def tier2_event_types_def infrastructure_types_def by auto
  then show "assert_classification_complete = Inr ()" "classify_event_type et \<noteq> ''unknown'' \<longleftrightarrow> et \<in> set infonet_economy_event_types"
    using tiers_disjoint by (auto simp: assert_classification_complete_def classify_event_type_def)
qed

lemma finalize_tier2 [simp]: "classify_event_type ''resolution_finalize'' = ''tier2''"
  by (simp add: classify_event_type_def tier1_event_types_def tier2_event_types_def)

subsection \<open>Provisional outcomes\<close>

text \<open>A node's view is live: some node has a timestamp, and the time of the chain is at most the lag behind.\<close>

definition live_view :: "chain \<Rightarrow> pyfloat \<Rightarrow> pyfloat \<Rightarrow> bool" where
  "live_view chain now max_lag \<longleftrightarrow> (\<exists>cmt. chain_majority_time chain default_median_n = Inr cmt
     \<and> \<not> fle cmt (Fin 0) \<and> \<not> flt max_lag (fmax (Fin 0) (fsub now cmt)))"

lemma not_provisional_live:
  assumes "should_mark_provisional ''resolution_finalize'' chain now max_lag = Inr False" "fisfinite max_lag"
  shows "live_view chain now max_lag"
proof -
  have "flt max_lag PosInf" using assms(2) by (auto elim: fisfiniteE)
  then show ?thesis using assms(1)
    by (auto simp: should_mark_provisional_def is_chain_stale_def chain_lag_seconds_def live_view_def bnd_eq_Inr split: if_splits)
qed

text \<open>
  The outcome of a market as its producer flagged it, on the producer's view of the chain.
\<close>

definition flagged_by_producer :: "(pydict \<Rightarrow> chain \<times> pyfloat) \<Rightarrow> pyfloat \<Rightarrow> pydict \<Rightarrow> bool" where
  "flagged_by_producer view max_lag ev \<longleftrightarrow> (\<exists>b. should_mark_provisional ''resolution_finalize'' (fst (view ev)) (snd (view ev)) max_lag = Inr b
     \<and> get (payload ev) ''is_provisional'' = PBool b)"

text \<open>The market that pays a nonzero reputation was finalized without the flag.\<close>

lemma minting_finalize:
  assumes "compute_oracle_rep cfg node chain = Inr r" "r \<noteq> Fin 0"
  shows "\<exists>final \<in> set (events_of chain). ev_is ''resolution_finalize'' final \<and> get (payload final) ''is_provisional'' = PBool False"
proof -
  from oracle_rep_changed [OF assms] obtain evs ms mid m original where o: "as_event_list chain = Inr evs" "index_markets evs = Inr ms" "(mid, m) \<in> set ms"
    "final_outcome m = Some original" by blast
  have src: "market_source (events_of chain) (mid, m)"
    using index_markets_source [OF o(2,3)] as_event_list_set [OF o(1)] by (simp add: market_source_def)
  obtain f where f: "md_finalize m = Some f" "get f ''is_provisional'' = PBool False"
    using o(4) by (auto simp: final_outcome_def split: option.splits if_splits)
  then show ?thesis using src by (auto simp: market_source_def)
qed

text \<open>
  C23: a partitioned network mints nothing. If every finalized outcome on the chain carries the flag
  that \<open>should_mark_provisional\<close> gave on its producer's view (a chain and a clock), then a nonzero oracle
  reputation needs a finalized outcome whose producer had a live view: a positive chain time, at most
  the allowed lag behind its clock.
\<close>

theorem partition_mints_nothing:
  assumes "\<forall>ev \<in> set (events_of chain). ev_is ''resolution_finalize'' ev \<longrightarrow> flagged_by_producer view max_lag ev"
    and "fisfinite max_lag" "compute_oracle_rep cfg node chain = Inr r" "r \<noteq> Fin 0"
  shows "\<exists>final \<in> set (events_of chain). ev_is ''resolution_finalize'' final \<and> live_view (fst (view final)) (snd (view final)) max_lag"
proof -
  obtain final where f: "final \<in> set (events_of chain)" "ev_is ''resolution_finalize'' final" "get (payload final) ''is_provisional'' = PBool False"
    using minting_finalize [OF assms(3,4)] by blast
  then have "should_mark_provisional ''resolution_finalize'' (fst (view final)) (snd (view final)) max_lag = Inr False"
    using assms(1) by (auto simp: flagged_by_producer_def)
  then show ?thesis using f not_provisional_live assms(2) by blast
qed

theorem partition_mints_nothing_witness:
  "\<exists>final \<in> set (events_of rep_example). ev_is ''resolution_finalize'' final
     \<and> live_view [PDict [(''node_id'', PStr ''a''), (''timestamp'', PInt 5)]] (Fin 6) (Fin 60)"
proof -
  let ?c = "[PDict [(''node_id'', PStr ''a''), (''timestamp'', PInt 5)]]"
  have m: "chain_majority_time ?c default_median_n = Inr (Fin 5)"
    by (simp add: chain_majority_time_def majority_timestamps_def timed_events_def finite_timestamp_def default_median_n_def median_def map_filter_def)
  have sm: "should_mark_provisional ''resolution_finalize'' ?c (Fin 6) (Fin 60) = Inr False"
    by (simp add: should_mark_provisional_def is_chain_stale_def chain_lag_seconds_def m fsub_def fmax_def)
  have "list_all (\<lambda>ev. ev_is ''resolution_finalize'' ev \<longrightarrow> get (payload ev) ''is_provisional'' = PBool False) (events_of rep_example)"
    by (simp add: rep_example_def ev_is_def payload_def)
  then have "\<forall>ev \<in> set (events_of rep_example). ev_is ''resolution_finalize'' ev \<longrightarrow> flagged_by_producer (\<lambda>_. (?c, Fin 6)) (Fin 60) ev"
    unfolding flagged_by_producer_def list_all_iff using sm by (metis fst_conv snd_conv)
  from partition_mints_nothing [OF this _ rep_example_oracle_rep] show ?thesis by simp
qed

subsection \<open>Epoch roots\<close>

text \<open>Strict linear orders and their lexicographic product\<close>

definition linear_lt :: "('a \<Rightarrow> 'a \<Rightarrow> bool) \<Rightarrow> bool" where
  "linear_lt lt \<longleftrightarrow> (\<forall>a. \<not> lt a a) \<and> (\<forall>a b c. lt a b \<longrightarrow> lt b c \<longrightarrow> lt a c) \<and> (\<forall>a b. lt a b \<or> a = b \<or> lt b a)"

definition lex_lt :: "('a \<Rightarrow> 'a \<Rightarrow> bool) \<Rightarrow> ('b \<Rightarrow> 'b \<Rightarrow> bool) \<Rightarrow> 'a \<times> 'b \<Rightarrow> 'a \<times> 'b \<Rightarrow> bool" where
  "lex_lt l1 l2 a b = (if fst a = fst b then l2 (snd a) (snd b) else l1 (fst a) (fst b))"

lemma linear_lex: "linear_lt l1 \<Longrightarrow> linear_lt l2 \<Longrightarrow> linear_lt (lex_lt l1 l2)"
  unfolding linear_lt_def lex_lt_def by (smt (verit, best) prod_eq_iff)

lemma linear_weak: "linear_lt lt \<Longrightarrow> weak_order (\<lambda>a b. lt (f a) (f b))"
  unfolding linear_lt_def weak_order_def by metis

lemma linear_str: "linear_lt str_lt"
  unfolding linear_lt_def using str_lt_trans str_lt_linear by auto

text \<open>The order of the floats, with NaN below all others\<close>

definition ftotal_lt :: "pyfloat \<Rightarrow> pyfloat \<Rightarrow> bool" where
  "ftotal_lt x y \<longleftrightarrow> flt x y \<or> x = NaN \<and> y \<noteq> NaN"

lemma linear_ftotal: "linear_lt ftotal_lt"
proof -
  have "\<not> ftotal_lt a a" for a by (cases a) (auto simp: ftotal_lt_def)
  moreover have "ftotal_lt a c" if "ftotal_lt a b" "ftotal_lt b c" for a b c
    using that by (cases a; cases b; cases c) (auto simp: ftotal_lt_def)
  moreover have "ftotal_lt a b \<or> a = b \<or> ftotal_lt b a" for a b by (cases a; cases b) (auto simp: ftotal_lt_def)
  ultimately show ?thesis unfolding linear_lt_def by blast
qed

definition total_epoch_lt :: "epoch_sort_key \<Rightarrow> epoch_sort_key \<Rightarrow> bool" where
  "total_epoch_lt = lex_lt (lex_lt ftotal_lt (<)) str_lt"

lemma linear_epoch: "linear_lt total_epoch_lt"
  unfolding total_epoch_lt_def by (intro linear_lex linear_str linear_ftotal) (auto simp: linear_lt_def)

lemma epoch_lt_total: "fst (fst a) \<noteq> NaN \<Longrightarrow> fst (fst b) \<noteq> NaN \<Longrightarrow> epoch_lt a b = total_epoch_lt a b"
  by (cases "fst (fst a)"; cases "fst (fst b)")
    (auto simp: epoch_lt_def total_epoch_lt_def lex_lt_def key_lt_def ftotal_lt_def prod_eq_iff)

text \<open>A serialisation is one line: it contains no line break.\<close>

definition one_line :: "string \<Rightarrow> bool" where
  "one_line s \<longleftrightarrow> CHR 0x0A \<notin> set s"

lemma one_line_simps [simp]:
  "one_line []" "one_line (c # s) \<longleftrightarrow> c \<noteq> CHR 0x0A \<and> one_line s" "one_line (s @ t) \<longleftrightarrow> one_line s \<and> one_line t"
  by (auto simp: one_line_def)

lemma one_line_concat: "\<forall>s \<in> set ss. one_line s \<Longrightarrow> one_line (concat ss)"
  by (auto simp: one_line_def)

lemma one_line_join: "one_line sep \<Longrightarrow> \<forall>s \<in> set ss. one_line s \<Longrightarrow> one_line (join sep ss)"
  by (induction sep ss rule: join.induct) auto

lemma one_line_int [simp]: "one_line (int_str n)"
  using numeric_plain(2) [OF numeric_int] by (simp add: one_line_def)

lemma one_line_float [simp]: "one_line (json_float x)"
  using numeric_plain(2) [OF numeric_float [of x]] by (cases x) (simp_all add: one_line_def)

lemma one_line_hex: "n < 16 \<Longrightarrow> hex_digit n \<noteq> CHR 0x0A"
proof
  assume "n < 16" "hex_digit n = CHR 0x0A"
  then have "of_char (hex_digit n) = (10 :: nat)" by simp
  then show False using \<open>n < 16\<close> by (simp add: hex_digit_def of_char_of split: if_splits)
qed

lemma one_line_json_char: "one_line (json_char c)"
proof -
  have q: "char_of (92 :: nat) \<noteq> CHR 0x0A" "char_of (34 :: nat) \<noteq> CHR 0x0A" by (simp_all add: char_of_eq_iff)
  have "c \<noteq> CHR 0x0A" if "of_char c \<noteq> (10 :: nat)" using that by auto
  then show ?thesis using q by (auto simp: json_char_def Let_def one_line_hex)
qed

lemma one_line_json_str [simp]: "one_line (json_str s)"
proof -
  have "char_of (34 :: nat) \<noteq> CHR 0x0A" by (simp add: char_of_eq_iff)
  then show ?thesis by (auto simp: json_str_def intro!: one_line_concat one_line_json_char)
qed

lemma one_line_json: "one_line (json_dumps v)"
proof (induction v rule: json_dumps.induct)
  case (6 xs)
  then show ?case by (auto intro!: one_line_join)
next
  case (7 d)
  then show ?case by (auto intro!: one_line_join)
qed simp_all

text \<open>Lines can be read back from their concatenation.\<close>

lemma first_line: "one_line l \<Longrightarrow> one_line m \<Longrightarrow> l @ CHR 0x0A # xs = m @ CHR 0x0A # ys \<Longrightarrow> l = m \<and> xs = ys"
proof (induction l arbitrary: m)
  case Nil
  then show ?case by (cases m) auto
next
  case (Cons c l)
  then show ?case by (cases m) auto
qed

lemma lines_inj:
  assumes "\<forall>l \<in> set ls. one_line l" "\<forall>l \<in> set ms. one_line l" "concat (map (\<lambda>l. l @ [CHR 0x0A]) ls) = concat (map (\<lambda>l. l @ [CHR 0x0A]) ms)"
  shows "ls = ms"
  using assms
proof (induction ls arbitrary: ms)
  case Nil
  then show ?case by (cases ms) auto
next
  case (Cons l ls)
  then obtain m ms' where ms: "ms = m # ms'" by (cases ms) auto
  have "l @ CHR 0x0A # concat (map (\<lambda>l. l @ [CHR 0x0A]) ls) = m @ CHR 0x0A # concat (map (\<lambda>l. l @ [CHR 0x0A]) ms')"
    using Cons.prems(3) by (simp add: ms)
  from first_line [OF _ _ this] have "l = m \<and> concat (map (\<lambda>l. l @ [CHR 0x0A]) ls) = concat (map (\<lambda>l. l @ [CHR 0x0A]) ms')"
    using Cons.prems by (simp add: ms)
  then show ?case using Cons.IH [of ms'] Cons.prems by (simp add: ms)
qed

text \<open>Sorting by a strict linear order on unique keys depends on the elements only.\<close>

lemma mset_sort_by [simp]: "mset (sort_by lt xs) = mset xs"
proof -
  have "mset (ins_by lt x ys) = add_mset x (mset ys)" for x ys by (induction ys) auto
  then show ?thesis by (induction xs) auto
qed

lemma sorted_mset_unique:
  assumes "sorted_wrt (\<lambda>a b. \<not> lt (f b) (f a)) xs" "sorted_wrt (\<lambda>a b. \<not> lt (f b) (f a)) ys" "mset xs = mset ys"
    and "linear_lt lt" "inj_on f (set xs)"
  shows "xs = ys"
  using assms(1-3,5)
proof (induction xs arbitrary: ys)
  case (Cons x xs)
  then obtain y ys' where ys: "ys = y # ys'" by (cases ys) auto
  have "x = y"
  proof (rule ccontr)
    assume n: "x \<noteq> y"
    have s: "set (x # xs) = set ys" using Cons.prems(3) by (metis set_mset_mset)
    then have "\<not> lt (f y) (f x)" "\<not> lt (f x) (f y)" using Cons.prems(1,2) n by (auto simp: ys)
    then have "f x = f y" using assms(4) unfolding linear_lt_def by blast
    then show False using n Cons.prems(4) s by (auto simp: ys inj_on_def)
  qed
  then show ?case using Cons by (auto simp: ys)
qed simp

lemma sort_by_mset_unique:
  assumes "mset xs = mset ys" "linear_lt lt" "inj_on f (set xs)"
  shows "sort_by (\<lambda>a b. lt (f a) (f b)) xs = sort_by (\<lambda>a b. lt (f a) (f b)) ys"
  by (rule sorted_mset_unique [where lt = lt and f = f]) (use assms in \<open>auto intro!: sorted_sort_by linear_weak\<close>)

lemma sort_by_same: "(\<And>a b. a \<in> set xs \<Longrightarrow> b \<in> set xs \<Longrightarrow> lt a b = lt' a b) \<Longrightarrow> sort_by lt xs = sort_by lt' xs"
proof (induction xs)
  case (Cons x xs)
  have "ins_by lt x ys = ins_by lt' x ys" if "\<forall>y \<in> set ys. lt y x = lt' y x" for ys
    using that by (induction ys) auto
  then show ?case using Cons by simp
qed simp

text \<open>The window: the events whose time is a number inside it.\<close>

definition in_epoch :: "pyfloat \<Rightarrow> pyfloat \<Rightarrow> pydict \<Rightarrow> bool" where
  "in_epoch from until ev \<longleftrightarrow> (\<exists>t. event_time ev = Inr t \<and> fle from t \<and> flt t until)"

definition epoch_members :: "chain \<Rightarrow> pyfloat \<Rightarrow> pyfloat \<Rightarrow> pydict list" where
  "epoch_members chain from until = filter (in_epoch from until) (events_of chain)"

lemma window_loop: "foldres (window_event from until) evs out = Inr r \<Longrightarrow> r = out @ filter (in_epoch from until) evs"
proof (induction evs arbitrary: out)
  case (Cons ev evs)
  obtain out' where o: "window_event from until ev out = Inr out'" "foldres (window_event from until) evs out' = Inr r"
    using Cons.prems by (auto simp: bnd_eq_Inr)
  have "out' = out @ filter (in_epoch from until) [ev]"
  proof (cases "event_time ev")
    case (Inl e)
    then show ?thesis using o(1) by (auto simp: window_event_def in_epoch_def catching_def split: if_splits)
  qed (use o(1) in \<open>auto simp: window_event_def in_epoch_def split: if_splits\<close>)
  then show ?case using Cons.IH [OF o(2)] by simp
qed simp

lemma keyed_members:
  assumes "epoch_events chain from until = Inr ks"
  shows "\<exists>keyed. mapres (\<lambda>ev. bnd (epoch_key ev) (\<lambda>k. Inr (k, ev))) (epoch_members chain from until) = Inr keyed
    \<and> ks = sort_by (\<lambda>a b. total_epoch_lt (fst a) (fst b)) keyed
    \<and> (\<forall>(k, ev) \<in> set keyed. ev \<in> set (epoch_members chain from until) \<and> epoch_key ev = Inr k)"
proof -
  obtain evs keyed where k: "foldres (window_event from until) (events_of chain) [] = Inr evs"
    "mapres (\<lambda>ev. bnd (epoch_key ev) (\<lambda>k. Inr (k, ev))) evs = Inr keyed" "ks = sort_by (\<lambda>a b. epoch_lt (fst a) (fst b)) keyed"
    using assms by (auto simp: epoch_events_def bnd_eq_Inr)
  then have evs: "evs = epoch_members chain from until" using window_loop by (fastforce simp: epoch_members_def)
  have src: "\<forall>(k, ev) \<in> set keyed. ev \<in> set evs \<and> epoch_key ev = Inr k"
    using mapres_source [OF k(2)] by (auto simp: bnd_eq_Inr)
  have "fst (fst (fst x)) \<noteq> NaN" if "x \<in> set keyed" for x
  proof -
    have "in_epoch from until (snd x)" "epoch_key (snd x) = Inr (fst x)" using src that by (auto simp: evs epoch_members_def)
    then obtain t where "fst (fst (fst x)) = t" "fle from t" by (auto simp: in_epoch_def epoch_key_def sort_key_def event_time_def bnd_eq_Inr dest!: sym [of _ "fst x"])
    then show ?thesis using fle_NaN_free by blast
  qed
  then have "ks = sort_by (\<lambda>a b. total_epoch_lt (fst a) (fst b)) keyed" unfolding k(3) by (intro sort_by_same epoch_lt_total) auto
  then show ?thesis using k(2) src by (auto simp: evs)
qed

lemma mapres_mset: "mapres f xs = Inr as \<Longrightarrow> mapres f ys = Inr bs \<Longrightarrow> mset xs = mset ys \<Longrightarrow> mset as = mset bs"
proof -
  have "mapres f zs = Inr cs \<Longrightarrow> cs = map (\<lambda>z. projr (f z)) zs" for zs cs
    by (induction zs arbitrary: cs) (auto simp: bnd_eq_Inr)
  then show "mapres f xs = Inr as \<Longrightarrow> mapres f ys = Inr bs \<Longrightarrow> mset xs = mset ys \<Longrightarrow> mset as = mset bs"
    by (metis mset_map)
qed

text \<open>The canonical lines of an epoch, in their order\<close>

definition epoch_lines :: "chain \<Rightarrow> pyfloat \<Rightarrow> pyfloat \<Rightarrow> string list res" where
  "epoch_lines chain from until = bnd (epoch_events chain from until) (\<lambda>ks. Inr (map (\<lambda>(k, ev). json_dumps (PDict ev)) ks))"

lemma root_of_lines:
  "canonical_epoch_root P chain from until = bnd (epoch_lines chain from until) (\<lambda>ls. Inr (sha256 P (concat (map (\<lambda>l. l @ [CHR 0x0A]) ls))))"
  by (cases "epoch_events chain from until")
    (simp_all add: canonical_epoch_root_def epoch_lines_def canonical_line_def comp_def case_prod_unfold)

lemma epoch_lines_one_line: "epoch_lines chain from until = Inr ls \<Longrightarrow> \<forall>l \<in> set ls. one_line l"
  using one_line_json by (auto simp: epoch_lines_def bnd_eq_Inr simp del: json_dumps.simps)

text \<open>
  C24: what an epoch root commits to. Two chains have the same root exactly if their windows have the
  same canonical lines in the same order, or else the two texts are a collision of SHA-256. The order
  of arrival does not matter: chains with the same events in the window, in any order, have the same
  root, provided no two different events of the window share time, sequence number and event id.
\<close>

theorem epoch_root_agreement:
  assumes "canonical_epoch_root P c1 from until = Inr r1" "canonical_epoch_root P c2 from until = Inr r2"
  shows "\<exists>l1 l2. epoch_lines c1 from until = Inr l1 \<and> epoch_lines c2 from until = Inr l2
    \<and> (r1 = r2 \<longleftrightarrow> l1 = l2 \<or> (\<exists>t1 t2. t1 \<noteq> t2 \<and> sha256 P t1 = sha256 P t2 \<and> r1 = sha256 P t1 \<and> r2 = sha256 P t2))
    \<and> (mset (epoch_members c1 from until) = mset (epoch_members c2 from until) \<longrightarrow> inj_on epoch_key (set (epoch_members c1 from until))
        \<longrightarrow> r1 = r2)"
proof -
  obtain k1 k2 where k: "epoch_events c1 from until = Inr k1" "epoch_events c2 from until = Inr k2"
    using assms by (auto simp: canonical_epoch_root_def bnd_eq_Inr)
  define l1 where "l1 = map (\<lambda>(k, ev). json_dumps (PDict ev)) k1"
  define l2 where "l2 = map (\<lambda>(k, ev). json_dumps (PDict ev)) k2"
  have l: "epoch_lines c1 from until = Inr l1" "epoch_lines c2 from until = Inr l2" by (simp_all add: epoch_lines_def k l1_def l2_def)
  let ?t = "\<lambda>ls. concat (map (\<lambda>l. l @ [CHR 0x0A]) ls) :: string"
  have r: "r1 = sha256 P (?t l1)" "r2 = sha256 P (?t l2)" using assms l by (simp_all add: root_of_lines)
  have "?t l1 = ?t l2 \<longleftrightarrow> l1 = l2" using lines_inj epoch_lines_one_line l by blast
  then have commit: "r1 = r2 \<longleftrightarrow> l1 = l2 \<or> (\<exists>t1 t2. t1 \<noteq> t2 \<and> sha256 P t1 = sha256 P t2 \<and> r1 = sha256 P t1 \<and> r2 = sha256 P t2)"
    using r by metis
  have "r1 = r2" if m: "mset (epoch_members c1 from until) = mset (epoch_members c2 from until)" and inj: "inj_on epoch_key (set (epoch_members c1 from until))"
  proof -
    obtain s1 where s1: "mapres (\<lambda>ev. bnd (epoch_key ev) (\<lambda>k. Inr (k, ev))) (epoch_members c1 from until) = Inr s1"
      "k1 = sort_by (\<lambda>a b. total_epoch_lt (fst a) (fst b)) s1" "\<forall>(k, ev) \<in> set s1. ev \<in> set (epoch_members c1 from until) \<and> epoch_key ev = Inr k"
      using keyed_members [OF k(1)] by blast
    obtain s2 where s2: "mapres (\<lambda>ev. bnd (epoch_key ev) (\<lambda>k. Inr (k, ev))) (epoch_members c2 from until) = Inr s2"
      "k2 = sort_by (\<lambda>a b. total_epoch_lt (fst a) (fst b)) s2"
      using keyed_members [OF k(2)] by blast
    have "inj_on fst (set s1)"
    proof (rule inj_onI)
      fix x y assume xy: "x \<in> set s1" "y \<in> set s1" "fst x = fst y"
      then have "epoch_key (snd x) = Inr (fst x)" "epoch_key (snd y) = Inr (fst y)"
        "snd x \<in> set (epoch_members c1 from until)" "snd y \<in> set (epoch_members c1 from until)" using s1(3) by auto
      then have "snd x = snd y" using xy(3) inj by (simp add: inj_on_def)
      then show "x = y" using xy(3) by (simp add: prod_eq_iff)
    qed
    then have "k1 = k2"
      unfolding s1(2) s2(2) using mapres_mset [OF s1(1) s2(1) m] linear_epoch by (intro sort_by_mset_unique)
    then show ?thesis using r by (simp add: l1_def l2_def)
  qed
  then show ?thesis using commit l by blast
qed

theorem epoch_root_agreement_witness:
  "\<exists>r1 r2. canonical_epoch_root plain_primitives [PDict [(''timestamp'', PInt 1)], PDict [(''timestamp'', PInt 2)]] (Fin 0) (Fin 9) = Inr r1
     \<and> canonical_epoch_root plain_primitives [PDict [(''timestamp'', PInt 2)], PDict [(''timestamp'', PInt 1)]] (Fin 0) (Fin 9) = Inr r2 \<and> r1 = r2"
proof -
  let ?a = "[(''timestamp'', PInt 1)]" and ?b = "[(''timestamp'', PInt 2)]"
  have t: "event_time ?a = Inr (Fin 1)" "event_time ?b = Inr (Fin 2)" "epoch_key ?a = Inr ((Fin 1, 0), [])" "epoch_key ?b = Inr ((Fin 2, 0), [])"
    by (simp_all add: event_time_def epoch_key_def sort_key_def py_or_def)
  have e: "epoch_events [PDict ?a, PDict ?b] (Fin 0) (Fin 9) = Inr [(((Fin 1, 0), []), ?a), (((Fin 2, 0), []), ?b)]"
    "epoch_events [PDict ?b, PDict ?a] (Fin 0) (Fin 9) = Inr [(((Fin 1, 0), []), ?a), (((Fin 2, 0), []), ?b)]"
    by (simp_all add: epoch_events_def window_event_def t epoch_lt_def key_lt_def)
  obtain r1 r2 where r: "canonical_epoch_root plain_primitives [PDict ?a, PDict ?b] (Fin 0) (Fin 9) = Inr r1"
    "canonical_epoch_root plain_primitives [PDict ?b, PDict ?a] (Fin 0) (Fin 9) = Inr r2"
    by (simp add: canonical_epoch_root_def e)
  have m: "in_epoch (Fin 0) (Fin 9) ?a" "in_epoch (Fin 0) (Fin 9) ?b" by (simp_all add: in_epoch_def t)
  have "mset (epoch_members [PDict ?a, PDict ?b] (Fin 0) (Fin 9)) = mset (epoch_members [PDict ?b, PDict ?a] (Fin 0) (Fin 9))"
    "inj_on epoch_key (set (epoch_members [PDict ?a, PDict ?b] (Fin 0) (Fin 9)))"
    using m by (simp_all add: epoch_members_def t add_mset_commute)
  then show ?thesis using epoch_root_agreement [OF r] r by blast
qed

text \<open>
  Without an event id the key is not unique: two events of different nodes with the same time and
  sequence number are hashed in the order in which the chain has them.
\<close>

lemma epoch_root_order_dependent:
  "canonical_epoch_root plain_primitives [PDict [(''node_id'', PStr ''a'')], PDict [(''node_id'', PStr ''b'')]] (Fin 0) (Fin 9)
   \<noteq> canonical_epoch_root plain_primitives [PDict [(''node_id'', PStr ''b'')], PDict [(''node_id'', PStr ''a'')]] (Fin 0) (Fin 9)"
proof -
  have k: "epoch_key [(''node_id'', PStr c)] = Inr ((Fin 0, 0), [])" "event_time [(''node_id'', PStr c)] = Inr (Fin 0)" for c
    by (simp_all add: event_time_def epoch_key_def sort_key_def py_or_def)
  have j: "json_dumps (PDict [(''node_id'', PStr ''a'')]) \<noteq> json_dumps (PDict [(''node_id'', PStr ''b'')])"
    by (simp add: json_str_def json_char_def)
  have e: "epoch_lines [PDict [(''node_id'', PStr x)], PDict [(''node_id'', PStr y)]] (Fin 0) (Fin 9)
      = Inr [json_dumps (PDict [(''node_id'', PStr x)]), json_dumps (PDict [(''node_id'', PStr y)])]" for x y
    by (simp add: epoch_lines_def epoch_events_def window_event_def k epoch_lt_def key_lt_def del: json_dumps.simps)
  have "\<forall>l \<in> set [json_dumps (PDict [(''node_id'', PStr x)]), json_dumps (PDict [(''node_id'', PStr y)])]. one_line l" for x y
    using one_line_json by (simp del: json_dumps.simps)
  then show ?thesis
    using first_line [OF one_line_json one_line_json, of "PDict [(''node_id'', PStr ''a'')]" "json_dumps (PDict [(''node_id'', PStr ''b'')]) @ [CHR 0x0A]"
        "PDict [(''node_id'', PStr ''b'')]" "json_dumps (PDict [(''node_id'', PStr ''a'')]) @ [CHR 0x0A]"] j
    by (auto simp add: root_of_lines e plain_primitives_def simp del: json_dumps.simps)
qed

subsection \<open>Checkpoints\<close>

text \<open>A confirmed checkpoint stays confirmed, whatever the time and whoever signs later.\<close>

lemma confirmed_stable:
  assumes "is_checkpoint_confirmed c n now = Inr True" "participating_heavy_node_ids c \<subseteq> S" "finite S"
    and "is_checkpoint_confirmed (c\<lparr>participating_heavy_node_ids := S\<rparr>) n later = Inr b"
  shows "b"
proof (cases "n \<le> 0")
  case True
  then show ?thesis using assms(1,4) by (auto simp: is_checkpoint_confirmed_def checkpoint_state_def participation_fraction_def split: if_splits)
next
  case False
  let ?q = "\<lambda>X :: string set. rat_of_int (int (card X)) / of_int n"
  have "card (participating_heavy_node_ids c) \<le> card S" by (rule card_mono) (use assms in auto)
  then have le: "?q (participating_heavy_node_ids c) \<le> ?q S" using False by (intro divide_right_mono) auto
  have "fle (threshold c) (fl (?q (participating_heavy_node_ids c)))"
    using assms(1) False by (auto simp: is_checkpoint_confirmed_def checkpoint_state_def participation_fraction_def int_truediv_def
        float_of_rat_exact_def bnd_eq_Inr Let_def split: if_splits pyfloat.splits)
  then have "fle (threshold c) (fl (?q S))" using fl_mono [OF le] fle_trans by blast
  then show ?thesis
    using assms(4) False by (auto simp: is_checkpoint_confirmed_def checkpoint_state_def participation_fraction_def int_truediv_def
        float_of_rat_exact_def bnd_eq_Inr Let_def split: if_splits pyfloat.splits)
qed

end
