(* ===== verification/Function_Keys.thy ===== *)
theory Function_Keys
  imports Argon2id Text_Facts
begin

text \<open>
  \<open>services/infonet/privacy/function_keys/nullifier.py\<close> and \<open>challenge_response.py\<close>: nullifiers and
  their tracker, challenges, and signed responses. Secrets, nonces and codes are byte strings; SHA-256
  (in hexadecimal) and HMAC-SHA256 on bytes are parameters, and so are the random nonce and the clock.
\<close>

type_synonym bytes = "8 word list"

record mac_primitives =
  hash_hex :: "bytes \<Rightarrow> string"
  hmac :: "bytes \<Rightarrow> bytes \<Rightarrow> bytes"

text \<open>\<open>b"|".join(parts)\<close>\<close>

definition bar :: bytes where
  "bar = utf8 ''|''"

fun join_bytes :: "bytes list \<Rightarrow> bytes" where
  "join_bytes [] = []"
| "join_bytes [b] = b"
| "join_bytes (b # c # bs) = b @ bar @ join_bytes (c # bs)"

subsection \<open>Nullifiers\<close>

text \<open>What a caller may pass: bytes, text, or something else.\<close>

datatype arg = Bytes bytes | Text string | Other

fun byte_arg :: "arg \<Rightarrow> bytes res" where
  "byte_arg (Bytes b) = Inr b" | "byte_arg _ = Inl TypeError"

fun name_arg :: "arg \<Rightarrow> string res" where
  "name_arg (Text s) = (if s = [] then Inl ValueError else Inr s)" | "name_arg _ = Inl ValueError"

definition nullifier_text :: "bytes \<Rightarrow> string \<Rightarrow> bytes" where
  "nullifier_text secret operator_id = secret @ bar @ utf8 operator_id"

definition derive_nullifier :: "mac_primitives \<Rightarrow> arg \<Rightarrow> arg \<Rightarrow> string res" where
  "derive_nullifier M secret operator_id =
     bnd (byte_arg secret) (\<lambda>s. bnd (name_arg operator_id) (\<lambda>oid. Inr (hash_hex M (nullifier_text s oid))))"

record nullifier_tracker =
  seen_nullifiers :: "string set"

definition has_seen :: "nullifier_tracker \<Rightarrow> string \<Rightarrow> bool" where
  "has_seen t n \<longleftrightarrow> n \<in> seen_nullifiers t"

definition check_and_record :: "string \<Rightarrow> nullifier_tracker \<Rightarrow> bool \<times> nullifier_tracker" where
  "check_and_record n t = (if n \<in> seen_nullifiers t then (False, t) else (True, t\<lparr>seen_nullifiers := insert n (seen_nullifiers t)\<rparr>))"

subsection \<open>Challenges and responses\<close>

definition default_challenge_ttl_seconds :: pyfloat where
  "default_challenge_ttl_seconds = Fin 300"

record function_key =
  fk_secret :: bytes
  fk_epoch :: string
  fk_credential :: bytes
  fk_issuer_context :: bytes

record function_key_challenge =
  ch_nonce :: bytes
  ch_operator_id :: string
  ch_issued_at :: pyfloat

definition canonical_bytes :: "function_key_challenge \<Rightarrow> bytes" where
  "canonical_bytes ch = join_bytes [utf8 ''function_key_challenge'', ch_nonce ch, utf8 (ch_operator_id ch), utf8 (float_repr (ch_issued_at ch))]"

record function_key_response =
  re_nonce :: bytes
  re_operator_id :: string
  re_issued_at :: pyfloat
  re_nullifier :: string
  re_mac :: bytes

text \<open>\<open>token\<close> is the outcome of \<open>secrets.token_bytes(32)\<close>, \<open>clock\<close> that of \<open>time.time()\<close>.\<close>

definition issue_challenge :: "arg \<Rightarrow> pyfloat option \<Rightarrow> bytes \<Rightarrow> pyfloat \<Rightarrow> function_key_challenge res" where
  "issue_challenge operator_id now token clock =
     bnd (name_arg operator_id) (\<lambda>oid.
       Inr \<lparr>ch_nonce = token, ch_operator_id = oid, ch_issued_at = (case now of Some t \<Rightarrow> t | None \<Rightarrow> clock)\<rparr>)"

definition response_body :: "function_key_challenge \<Rightarrow> string \<Rightarrow> bytes" where
  "response_body ch nullifier = canonical_bytes ch @ bar @ utf8 nullifier"

definition sign_response :: "mac_primitives \<Rightarrow> function_key \<Rightarrow> function_key_challenge \<Rightarrow> function_key_response res" where
  "sign_response M key ch =
     bnd (derive_nullifier M (Bytes (fk_secret key)) (Text (ch_operator_id ch))) (\<lambda>nullifier.
       Inr \<lparr>re_nonce = ch_nonce ch, re_operator_id = ch_operator_id ch, re_issued_at = ch_issued_at ch, re_nullifier = nullifier,
            re_mac = hmac M (fk_secret key) (response_body ch nullifier)\<rparr>)"

definition challenge_of :: "function_key_response \<Rightarrow> function_key_challenge" where
  "challenge_of r = \<lparr>ch_nonce = re_nonce r, ch_operator_id = re_operator_id r, ch_issued_at = re_issued_at r\<rparr>"

definition verify_response :: "mac_primitives \<Rightarrow> function_key_response \<Rightarrow> function_key \<Rightarrow> pyfloat \<Rightarrow> pyfloat option \<Rightarrow> pyfloat \<Rightarrow> bytes set \<Rightarrow> bool \<times> string" where
  "verify_response M r key max_age now clock seen_nonces =
     (if re_nonce r \<in> seen_nonces then (False, ''replay_nonce_seen'')
      else let age_s = fsub (case now of Some t \<Rightarrow> t | None \<Rightarrow> clock) (re_issued_at r) in
        if flt max_age age_s \<or> flt age_s (Fin 0) then (False, ''stale_challenge'')
        else if hmac M (fk_secret key) (response_body (challenge_of r) (re_nullifier r)) \<noteq> re_mac r then (False, ''invalid_mac'')
        else (True, ''ok''))"

subsection \<open>Fields between bars\<close>

lemma utf8_append: "utf8 (s @ t) = utf8 s @ utf8 t"
  by (simp add: utf8_def)

lemma utf8_bar [simp]: "utf8 (CHR ''|'' # s) = bar @ utf8 s"
  using utf8_append [of "''|''" s] by (simp add: bar_def)

lemma utf8_inject [simp]: "utf8 s = utf8 t \<longleftrightarrow> s = t"
  by (metis utf8_decode_utf8)

lemma join_utf8: "join_bytes (map utf8 fs) = utf8 (join ''|'' fs)"
proof (induction "''|''" fs rule: join.induct)
  case (3 s t ts)
  then show ?case by (simp add: utf8_append)
qed (simp_all add: utf8_def)

lemma bar_last:
  assumes "s @ CHR ''|'' # t = s' @ CHR ''|'' # t'" "CHR ''|'' \<notin> set t" "CHR ''|'' \<notin> set t'"
  shows "s = s' \<and> t = t'"
proof -
  have first: "a = b \<and> x = y" if "a @ CHR ''|'' # x = b @ CHR ''|'' # y" "CHR ''|'' \<notin> set a" "CHR ''|'' \<notin> set b" for a b x y :: string
    using that
  proof (induction a arbitrary: b)
    case Nil
    then show ?case by (cases b) auto
  next
    case (Cons c a)
    then show ?case by (cases b) auto
  qed
  have "rev t @ CHR ''|'' # rev s = rev t' @ CHR ''|'' # rev s'" using arg_cong [OF assms(1), of rev] by simp
  from first [OF this] show ?thesis using assms by auto
qed

text \<open>
  The text a response signs: with nonces of one length it determines the nonce, the operator, the written
  time and the nullifier, even if the operator's name contains bars.
\<close>

lemma response_body_text:
  "response_body ch n = utf8 ''function_key_challenge'' @ bar @ ch_nonce ch @ bar
     @ utf8 (ch_operator_id ch @ ''|'' @ float_repr (ch_issued_at ch) @ ''|'' @ n)"
  by (simp add: response_body_def canonical_bytes_def utf8_append del: float_repr.simps)

lemma response_body_inject:
  assumes "response_body c n = response_body c' n'" "length (ch_nonce c) = length (ch_nonce c')" "CHR ''|'' \<notin> set n" "CHR ''|'' \<notin> set n'"
  shows "ch_nonce c = ch_nonce c' \<and> ch_operator_id c = ch_operator_id c' \<and> float_repr (ch_issued_at c) = float_repr (ch_issued_at c') \<and> n = n'"
proof -
  have e: "ch_nonce c = ch_nonce c'" "ch_operator_id c @ ''|'' @ float_repr (ch_issued_at c) @ ''|'' @ n = ch_operator_id c' @ ''|'' @ float_repr (ch_issued_at c') @ ''|'' @ n'"
    using assms(1,2) by (simp_all add: response_body_text)
  from e(2) have "(ch_operator_id c @ ''|'' @ float_repr (ch_issued_at c)) @ CHR ''|'' # n = (ch_operator_id c' @ ''|'' @ float_repr (ch_issued_at c')) @ CHR ''|'' # n'"
    by simp
  from bar_last [OF this assms(3,4)] have "n = n'" "ch_operator_id c @ CHR ''|'' # float_repr (ch_issued_at c) = ch_operator_id c' @ CHR ''|'' # float_repr (ch_issued_at c')"
    by simp_all
  with bar_last [OF this(2)] show ?thesis using e(1) numeric_plain(1) numeric_float by blast
qed

subsection \<open>Redemption\<close>

definition fresh_age :: "pyfloat \<Rightarrow> pyfloat \<Rightarrow> pyfloat \<Rightarrow> bool" where
  "fresh_age max_age t issued \<longleftrightarrow> \<not> flt max_age (fsub t issued) \<and> \<not> flt (fsub t issued) (Fin 0)"

lemma verify_accepts:
  "verify_response M r key max_age now clock seen = (True, why) \<longleftrightarrow> why = ''ok'' \<and> re_nonce r \<notin> seen
     \<and> fresh_age max_age (case now of Some t \<Rightarrow> t | None \<Rightarrow> clock) (re_issued_at r)
     \<and> re_mac r = hmac M (fk_secret key) (response_body (challenge_of r) (re_nullifier r))"
  by (auto simp: verify_response_def Let_def fresh_age_def)

lemma sign_response_fields:
  assumes "sign_response M key ch = Inr r"
  shows "challenge_of r = ch \<and> ch_operator_id ch \<noteq> [] \<and> re_nullifier r = hash_hex M (nullifier_text (fk_secret key) (ch_operator_id ch))
    \<and> re_mac r = hmac M (fk_secret key) (response_body ch (re_nullifier r))"
  using assms by (auto simp: sign_response_def derive_nullifier_def challenge_of_def bnd_eq_Inr split: if_splits)

text \<open>An operator's tracker over a sequence of presented nullifiers: its answers and its final state\<close>

fun present_all :: "string list \<Rightarrow> nullifier_tracker \<Rightarrow> bool list \<times> nullifier_tracker" where
  "present_all [] t = ([], t)"
| "present_all (n # ns) t = (let (b, t') = check_and_record n t; (bs, t'') = present_all ns t' in (b # bs, t''))"

lemma present_all_answers:
  assumes "present_all ns t = (bs, t')"
  shows "length bs = length ns \<and> seen_nullifiers t' = seen_nullifiers t \<union> set ns
    \<and> (\<forall>i < length ns. bs ! i \<longleftrightarrow> ns ! i \<notin> seen_nullifiers t \<and> ns ! i \<notin> set (take i ns))"
  using assms
proof (induction ns arbitrary: t bs t')
  case (Cons n ns)
  obtain b u where b: "check_and_record n t = (b, u)" by fastforce
  obtain cs v where c: "present_all ns u = (cs, v)" by fastforce
  have r: "bs = b # cs" "t' = v" using Cons.prems by (simp_all add: b c)
  have u: "b \<longleftrightarrow> n \<notin> seen_nullifiers t" "seen_nullifiers u = insert n (seen_nullifiers t)"
    using b by (auto simp: check_and_record_def split: if_splits)
  from Cons.IH [OF c] u show ?case by (auto simp: r less_Suc_eq_0_disj)
qed simp

text \<open>
  C25: the redemption of a function key. A response signed for a challenge is accepted by the operator
  exactly while its nonce is new and its age is within the window; its nullifier is the same for every
  challenge of the operator, so among all the redemptions the holder signs for one operator the
  tracker admits the first and no other, and none once the nullifier was seen; for two operators the
  nullifiers differ, unless the two texts are a collision of SHA-256.
\<close>

theorem function_key_redemption:
  assumes "list_all2 (\<lambda>ch r. sign_response M key ch = Inr r) chs rs"
  shows "(\<forall>r \<in> set rs. verify_response M r key max_age now clock seen = (True, ''ok'') \<longleftrightarrow>
       re_nonce r \<notin> seen \<and> fresh_age max_age (case now of Some t \<Rightarrow> t | None \<Rightarrow> clock) (re_issued_at r))
    \<and> (\<forall>bs t'. (\<forall>ch \<in> set chs. ch_operator_id ch = oid) \<longrightarrow> present_all (map re_nullifier rs) t = (bs, t') \<longrightarrow>
         (\<forall>i < length rs. bs ! i \<longleftrightarrow> i = 0 \<and> re_nullifier (rs ! 0) \<notin> seen_nullifiers t))
    \<and> (\<forall>i < length rs. \<forall>j < length rs. ch_operator_id (chs ! i) \<noteq> ch_operator_id (chs ! j) \<longrightarrow>
         re_nullifier (rs ! i) \<noteq> re_nullifier (rs ! j)
         \<or> (\<exists>x y. x \<noteq> y \<and> hash_hex M x = hash_hex M y \<and> x = nullifier_text (fk_secret key) (ch_operator_id (chs ! i))
              \<and> y = nullifier_text (fk_secret key) (ch_operator_id (chs ! j))))"
proof -
  have len: "length chs = length rs" using assms by (rule list_all2_lengthD)
  have f: "challenge_of (rs ! i) = chs ! i \<and> re_nullifier (rs ! i) = hash_hex M (nullifier_text (fk_secret key) (ch_operator_id (chs ! i)))
      \<and> re_mac (rs ! i) = hmac M (fk_secret key) (response_body (chs ! i) (re_nullifier (rs ! i)))" if "i < length rs" for i
    using sign_response_fields [OF list_all2_nthD2 [OF assms that]] by blast
  have 1: "verify_response M r key max_age now clock seen = (True, ''ok'') \<longleftrightarrow>
       re_nonce r \<notin> seen \<and> fresh_age max_age (case now of Some t \<Rightarrow> t | None \<Rightarrow> clock) (re_issued_at r)" if mem: "r \<in> set rs" for r
  proof -
    obtain i where "i < length rs" "rs ! i = r" using mem unfolding in_set_conv_nth by blast
    then show ?thesis using f [of i] by (auto simp: verify_accepts)
  qed
  have 2: "bs ! i \<longleftrightarrow> i = 0 \<and> re_nullifier (rs ! 0) \<notin> seen_nullifiers t"
    if same: "\<forall>ch \<in> set chs. ch_operator_id ch = oid" and p: "present_all (map re_nullifier rs) t = (bs, t')" and i: "i < length rs" for bs t' i
  proof -
    have n: "re_nullifier (rs ! k) = re_nullifier (rs ! 0)" if "k < length rs" for k
    proof -
      have "chs ! k \<in> set chs" "chs ! 0 \<in> set chs" using that len by (auto intro: nth_mem)
      moreover have "0 < length rs" using that by linarith
      ultimately show ?thesis using f [OF that] f [of 0] same by simp
    qed
    have "re_nullifier (rs ! 0) \<in> set (take i (map re_nullifier rs)) \<longleftrightarrow> 0 < i"
      using i by (cases rs; cases i) auto
    then show ?thesis using present_all_answers [OF p] i n [OF i] by auto
  qed
  have 3: "re_nullifier (rs ! i) \<noteq> re_nullifier (rs ! j)
         \<or> (\<exists>x y. x \<noteq> y \<and> hash_hex M x = hash_hex M y \<and> x = nullifier_text (fk_secret key) (ch_operator_id (chs ! i))
              \<and> y = nullifier_text (fk_secret key) (ch_operator_id (chs ! j)))"
    if "i < length rs" "j < length rs" "ch_operator_id (chs ! i) \<noteq> ch_operator_id (chs ! j)" for i j
    using f [OF that(1)] f [OF that(2)] that(3) by (auto simp: nullifier_text_def)
  show ?thesis using 1 2 3 by blast
qed

text \<open>An instance for examples: the hash and the code are the texts themselves.\<close>

definition plain_macs :: mac_primitives where
  "plain_macs = \<lparr>hash_hex = utf8_decode, hmac = (\<lambda>k b. k @ b)\<rparr>"

theorem function_key_redemption_witness:
  "\<exists>r1 r2 b1 b2 t. sign_response plain_macs \<lparr>fk_secret = [7], fk_epoch = [], fk_credential = [], fk_issuer_context = []\<rparr>
        \<lparr>ch_nonce = [1], ch_operator_id = ''op'', ch_issued_at = Fin 0\<rparr> = Inr r1
     \<and> sign_response plain_macs \<lparr>fk_secret = [7], fk_epoch = [], fk_credential = [], fk_issuer_context = []\<rparr>
        \<lparr>ch_nonce = [2], ch_operator_id = ''op'', ch_issued_at = Fin 10\<rparr> = Inr r2
     \<and> present_all [re_nullifier r1, re_nullifier r2] \<lparr>seen_nullifiers = {}\<rparr> = ([b1, b2], t) \<and> b1 \<and> \<not> b2"
proof -
  let ?k = "\<lparr>fk_secret = [7], fk_epoch = [], fk_credential = [], fk_issuer_context = []\<rparr>"
  let ?c1 = "\<lparr>ch_nonce = [1], ch_operator_id = ''op'', ch_issued_at = Fin 0\<rparr>" and ?c2 = "\<lparr>ch_nonce = [2], ch_operator_id = ''op'', ch_issued_at = Fin 10\<rparr>"
  obtain r1 r2 where r: "sign_response plain_macs ?k ?c1 = Inr r1" "sign_response plain_macs ?k ?c2 = Inr r2"
    by (simp add: sign_response_def derive_nullifier_def)
  have "\<exists>b1 b2 t. present_all (map re_nullifier [r1, r2]) \<lparr>seen_nullifiers = {}\<rparr> = ([b1, b2], t)"
    by (cases "re_nullifier r2 = re_nullifier r1") (auto simp: check_and_record_def Let_def)
  then obtain b1 b2 t where p: "present_all (map re_nullifier [r1, r2]) \<lparr>seen_nullifiers = {}\<rparr> = ([b1, b2], t)" by blast
  have l: "list_all2 (\<lambda>ch r. sign_response plain_macs ?k ch = Inr r) [?c1, ?c2] [r1, r2]" using r by simp
  have o: "\<forall>ch \<in> set [?c1, ?c2]. ch_operator_id ch = ''op''" by simp
  have "\<forall>i < length [r1, r2]. [b1, b2] ! i \<longleftrightarrow> i = 0 \<and> re_nullifier ([r1, r2] ! 0) \<notin> seen_nullifiers \<lparr>seen_nullifiers = {}\<rparr>"
    by (rule function_key_redemption [OF l, THEN conjunct2, THEN conjunct1, THEN spec, THEN spec, THEN mp, THEN mp, OF o p])
  note th = this [rule_format]
  have "b1 \<and> \<not> b2" using th [of 0] th [of 1] by auto
  with r p show ?thesis by auto
qed

text \<open>
  What an accepted response binds. Two responses accepted under one key with the same code, with
  nonces of one length and nullifiers without bars, have the same nonce, operator, written time and
  nullifier, or else the two texts that were signed differ and have one HMAC.
\<close>

theorem response_binding:
  assumes "verify_response M r key a now clock seen = (True, w)" "verify_response M r' key a' now' clock' seen' = (True, w')"
    and "re_mac r = re_mac r'" "length (re_nonce r) = length (re_nonce r')" "CHR ''|'' \<notin> set (re_nullifier r)" "CHR ''|'' \<notin> set (re_nullifier r')"
  shows "re_nonce r = re_nonce r' \<and> re_operator_id r = re_operator_id r' \<and> float_repr (re_issued_at r) = float_repr (re_issued_at r')
      \<and> re_nullifier r = re_nullifier r'
    \<or> (let x = response_body (challenge_of r) (re_nullifier r); y = response_body (challenge_of r') (re_nullifier r') in
        x \<noteq> y \<and> hmac M (fk_secret key) x = hmac M (fk_secret key) y)"
proof (cases "response_body (challenge_of r) (re_nullifier r) = response_body (challenge_of r') (re_nullifier r')")
  case True
  then show ?thesis using response_body_inject [OF True] assms(4-6) by (simp add: challenge_of_def)
next
  case False
  then show ?thesis using assms(1-3) by (auto simp: verify_accepts Let_def)
qed

text \<open>Two responses under a code that ignores the text\<close>

theorem response_binding_witness:
  "let M = \<lparr>hash_hex = utf8_decode, hmac = (\<lambda>k b. k)\<rparr>; ch = \<lparr>ch_nonce = [1], ch_operator_id = ''op'', ch_issued_at = Fin 0\<rparr> in
     response_body ch ''x'' \<noteq> response_body ch ''y'' \<and> hmac M [7] (response_body ch ''x'') = hmac M [7] (response_body ch ''y'')"
proof -
  let ?M = "\<lparr>hash_hex = utf8_decode, hmac = (\<lambda>k b. k)\<rparr>" and ?k = "\<lparr>fk_secret = [7], fk_epoch = [], fk_credential = [], fk_issuer_context = []\<rparr>"
  let ?r = "\<lambda>n. \<lparr>re_nonce = [1], re_operator_id = ''op'', re_issued_at = Fin 0, re_nullifier = n, re_mac = [7]\<rparr>"
  have v: "verify_response ?M (?r n) ?k (Fin 300) (Some (Fin 5)) (Fin 0) {} = (True, ''ok'')" for n
    by (simp add: verify_accepts challenge_of_def fresh_age_def fsub_def)
  show ?thesis using response_binding [OF v [of "''x''"] v [of "''y''"]] by (simp add: challenge_of_def)
qed

text \<open>
  Verification does not derive the nullifier again: whoever holds the key can sign any nullifier, and is
  accepted with a fresh one each time.
\<close>

lemma any_nullifier_accepted:
  assumes "re_nonce r \<notin> seen" "fresh_age max_age t (re_issued_at r)"
  shows "verify_response M (r\<lparr>re_nullifier := n, re_mac := hmac M (fk_secret key) (response_body (challenge_of r) n)\<rparr>) key max_age (Some t) clock seen = (True, ''ok'')"
  using assms by (simp add: verify_accepts challenge_of_def)

text \<open>A challenge issued at NaN is never too old.\<close>

lemma nan_never_stale: "fresh_age max_age t NaN"
  by (cases t) (simp_all add: fresh_age_def fsub_def)

end
