(* ===== verification/Utc_Date.thy ===== *)
theory Utc_Date
  imports Text_Facts Argon2id
begin

text \<open>
  The UTC day a receipt shows: \<open>datetime.fromtimestamp(t, tz=timezone.utc).strftime("%Y-%m-%d")\<close> of
  \<open>services/infonet/privacy/function_keys/receipt.py\<close>, the Gregorian calendar behind it, and that the
  text determines the day.
\<close>

subsection \<open>The UTC day of a timestamp\<close>

text \<open>
  \<open>datetime.fromtimestamp(ts, tz=timezone.utc)\<close>: the fraction is rounded half-even to microseconds, the
  seconds must fit the platform's 64-bit time and the year must lie between 1 and 9999.
\<close>

definition microseconds :: "rat \<Rightarrow> int" where
  "microseconds q = (let whole = trunc q in
     whole * 1000000 + (case fl ((q - of_int whole) * 1000000) of Fin x \<Rightarrow> rnd_even x | _ \<Rightarrow> 0))"

text \<open>The date of a day number, counted from 1970-01-01, in the Gregorian calendar\<close>

definition year_of_era :: "int \<Rightarrow> int" where
  "year_of_era doe = (doe - doe div 1460 + doe div 36524 - doe div 146096) div 365"

definition day_of_year :: "int \<Rightarrow> int" where
  "day_of_year doe = (let y = year_of_era doe in doe - (365 * y + y div 4 - y div 100))"

definition civil_date :: "int \<Rightarrow> int \<times> int \<times> int" where
  "civil_date n =
     (let z = n + 719468; era = z div 146097; doe = z mod 146097; doy = day_of_year doe;
          mp = (5 * doy + 2) div 153; d = doy - (153 * mp + 2) div 5 + 1;
          m = (if mp < 10 then mp + 3 else mp - 9)
      in (year_of_era doe + 400 * era + (if m \<le> 2 then 1 else 0), m, d))"

definition two_digits :: "int \<Rightarrow> string" where
  "two_digits n = (if n < 10 then ''0'' @ int_str n else int_str n)"

definition utc_date :: "pyfloat \<Rightarrow> (int \<times> int \<times> int) res" where
  "utc_date t = (case t of
       NaN \<Rightarrow> Inl ValueError | PosInf \<Rightarrow> Inl OverflowError | NegInf \<Rightarrow> Inl OverflowError
     | Fin q \<Rightarrow>
         let secs = microseconds q div 1000000; (y, m, d) = civil_date (secs div 86400) in
         if secs < - (2 ^ 63) \<or> 2 ^ 63 \<le> secs then Inl OverflowError
         else if y - 1900 < - (2 ^ 31) \<or> 2 ^ 31 \<le> y - 1900 then Inl OSError
         else if y < 1 \<or> 9999 < y then Inl ValueError
         else Inr (y, m, d))"

definition day_bucket_of :: "pyfloat \<Rightarrow> string res" where
  "day_bucket_of t = bnd (utc_date t) (\<lambda>(y, m, d). Inr (int_str y @ ''-'' @ two_digits m @ ''-'' @ two_digits d))"

lemma microseconds_int: "microseconds (of_int k) = k * 1000000"
  by (simp add: microseconds_def Let_def trunc_def rnd_even_def)

subsection \<open>The calendar\<close>

text \<open>The first day of a year, counted within its era of 400 years from the first of March\<close>

definition year_start :: "int \<Rightarrow> int" where
  "year_start y = 365 * y + y div 4 - y div 100"

lemma day_of_year_eq: "day_of_year doe = doe - year_start (year_of_era doe)"
  by (simp add: day_of_year_def year_start_def Let_def)

lemma year_of_era_step:
  assumes "0 \<le> d" "d < 146096" shows "year_of_era d \<le> year_of_era (d + 1)"
proof (cases "d = 146095")
  case False
  then have "(d + 1) div 1460 \<le> d div 1460 + 1" "d div 36524 \<le> (d + 1) div 36524" "(d + 1) div 146096 = 0" "d div 146096 = 0"
    using assms by (simp_all add: zdiv_mono1)
  then show ?thesis unfolding year_of_era_def by (intro zdiv_mono1) linarith+
qed (simp add: year_of_era_def)

lemma year_of_era_mono: "d \<le> d' \<Longrightarrow> 0 \<le> d \<Longrightarrow> d' \<le> 146096 \<Longrightarrow> year_of_era d \<le> year_of_era d'"
proof (induction d' rule: int_ge_induct)
  case (step i)
  then show ?case using year_of_era_step [of i] by simp
qed simp

text \<open>A year within the era is a century, a group of four years and a year of it.\<close>

lemma year_split:
  fixes c q r :: int
  assumes "0 \<le> q" "q \<le> 24" "0 \<le> r" "r \<le> 3"
  shows "year_start (100 * c + 4 * q + r) = 36524 * c + 1461 * q + 365 * r"
proof -
  have "(100 * c + 4 * q + r) div 100 = c" by (rule int_div_pos_eq [where r = "4 * q + r"]) (use assms in auto)
  moreover have "(100 * c + 4 * q + r) div 4 = 25 * c + q" by (rule int_div_pos_eq [where r = r]) (use assms in auto)
  ultimately show ?thesis by (simp add: year_start_def)
qed

lemma year_parts: "0 \<le> y \<Longrightarrow> \<exists>c q r. y = 100 * c + 4 * q + r \<and> c = y div 100 \<and> 0 \<le> q \<and> q \<le> 24 \<and> 0 \<le> r \<and> r \<le> (3 :: int)"
  by (intro exI [of _ "y div 100"] exI [of _ "y mod 100 div 4"] exI [of _ "y mod 100 mod 4"]) auto

lemma year_begin:
  assumes "0 \<le> y" "y \<le> 399" shows "year_of_era (year_start y) = y"
proof -
  obtain c q r where y: "y = 100 * c + 4 * q + r" "c = y div 100" and b: "0 \<le> q" "q \<le> 24" "0 \<le> r" "r \<le> 3" using year_parts [OF assms(1)] by blast
  have c: "0 \<le> c" "c \<le> 3" using assms by (simp_all add: y(2))
  have s: "year_start y = 36524 * c + 1461 * q + 365 * r" unfolding y(1) by (rule year_split [OF b])
  have "year_start y div 36524 = c" by (rule int_div_pos_eq [where r = "1461 * q + 365 * r"]) (use s b in linarith)+
  moreover have "year_start y div 1460 = 25 * c + q" by (rule int_div_pos_eq [where r = "24 * c + q + 365 * r"]) (use s b c in \<open>simp_all add: distrib_left\<close>)
  moreover have "year_start y div 146096 = 0" using s b c by simp
  ultimately have "year_of_era (year_start y) = (365 * y) div 365" using s y(1) by (simp add: year_of_era_def)
  then show ?thesis by simp
qed

lemma year_end:
  assumes "0 \<le> y" "y \<le> 399" shows "year_of_era (year_start (y + 1) - 1) = y"
proof -
  obtain c q r where y: "y + 1 = 100 * c + 4 * q + r" "c = (y + 1) div 100" and b: "0 \<le> q" "q \<le> 24" "0 \<le> r" "r \<le> 3"
    using year_parts [of "y + 1"] assms(1) by auto
  have c: "0 \<le> c" "c \<le> 4" using assms by (simp_all add: y(2))
  have s: "year_start (y + 1) = 36524 * c + 1461 * q + 365 * r" unfolding y(1) by (rule year_split [OF b])
  have le: "year_start (y + 1) - 1 < 146096" using assms(2) by (simp add: year_start_def)
  have nn: "0 < year_start (y + 1)" using assms(1) by (simp add: year_start_def)
  have d4: "(year_start (y + 1) - 1) div 146096 = 0" using le nn by simp
  have d1: "(year_start (y + 1) - 1) div 1460 = 25 * c + q"
    by (rule int_div_pos_eq [where r = "24 * c + q + 365 * r - 1"]) (use s b c y(1) assms in \<open>simp_all add: distrib_left\<close>)
  show ?thesis
  proof (cases "q = 0 \<and> r = 0")
    case True
    have "(year_start (y + 1) - 1) div 36524 = c - 1" by (rule int_div_pos_eq [where r = 36523]) (use s True in auto)
    then have "year_of_era (year_start (y + 1) - 1) = (365 * y + 363) div 365" using s y(1) d1 d4 True by (simp add: year_of_era_def)
    then show ?thesis by simp
  next
    case False
    have "(year_start (y + 1) - 1) div 36524 = c" by (rule int_div_pos_eq [where r = "1461 * q + 365 * r - 1"]) (use s b False in linarith)+
    then have "year_of_era (year_start (y + 1) - 1) = (365 * y + 364) div 365" using s y(1) d1 d4 by (simp add: year_of_era_def)
    then show ?thesis by simp
  qed
qed

lemma year_of_era_range:
  assumes "0 \<le> doe" "doe < 146097"
  shows "0 \<le> year_of_era doe \<and> year_of_era doe \<le> 399 \<and> year_start (year_of_era doe) \<le> doe \<and> doe - year_start (year_of_era doe) \<le> 365"
proof -
  let ?y = "year_of_era doe"
  have "year_of_era 0 \<le> ?y" "?y \<le> year_of_era 146096" using assms by (auto intro!: year_of_era_mono)
  then have r: "0 \<le> ?y" "?y \<le> 399" by (simp_all add: year_of_era_def)
  have lo: "year_start ?y \<le> doe"
  proof (rule ccontr)
    assume "\<not> year_start ?y \<le> doe"
    then have "doe \<le> year_start ?y - 1" "?y \<noteq> 0" using assms by (auto simp: year_start_def)
    moreover have "year_start ?y - 1 \<le> 146096" using r by (simp add: year_start_def)
    ultimately have "?y \<le> year_of_era (year_start ?y - 1)" using assms by (intro year_of_era_mono) auto
    also have "\<dots> = ?y - 1" using year_end [of "?y - 1"] r \<open>?y \<noteq> 0\<close> by simp
    finally show False by simp
  qed
  have hi: "doe - year_start ?y \<le> 365"
  proof (cases "?y = 399")
    case True
    then show ?thesis using assms by (simp add: year_start_def)
  next
    case False
    have "doe < year_start (?y + 1)"
    proof (rule ccontr)
      assume "\<not> doe < year_start (?y + 1)"
      then have "year_of_era (year_start (?y + 1)) \<le> ?y" using assms r by (intro year_of_era_mono) (auto simp: year_start_def)
      then show False using year_begin [of "?y + 1"] r False by simp
    qed
    moreover have "year_start (?y + 1) \<le> year_start ?y + 366" 
      using zdiv_mono1 [of ?y "?y + 1" 100] zdiv_mono1 [of "?y + 1" "?y + 4" 4] by (simp add: year_start_def)
    ultimately show ?thesis by linarith
  qed
  show ?thesis using r lo hi by blast
qed

text \<open>The day number of a date, the inverse\<close>

definition day_number :: "int \<times> int \<times> int \<Rightarrow> int" where
  "day_number = (\<lambda>(y, m, d). let y' = (if m \<le> 2 then y - 1 else y); mp = (if m > 2 then m - 3 else m + 9) in
     146097 * (y' div 400) + year_start (y' mod 400) + (153 * mp + 2) div 5 + d - 1 - 719468)"

lemma day_number_civil: "day_number (civil_date n) = n"
proof -
  define z where "z = n + 719468"
  define doe where "doe = z mod 146097"
  define doy where "doy = day_of_year doe"
  define mp where "mp = (5 * doy + 2) div 153"
  have r: "0 \<le> year_of_era doe" "year_of_era doe \<le> 399" "0 \<le> doy" "doy \<le> 365"
    using year_of_era_range [of doe] by (simp_all add: doe_def doy_def day_of_year_eq)
  have mp: "0 \<le> mp" "mp \<le> 11" using r(3,4) by (simp_all add: mp_def)
  define m where "m = (if mp < 10 then mp + 3 else mp - 9)"
  have m: "(if m > 2 then m - 3 else m + 9) = mp" "m \<le> 2 \<longleftrightarrow> \<not> mp < 10" using mp by (auto simp: m_def)
  define y where "y = year_of_era doe + 400 * (z div 146097)"
  have y: "y div 400 = z div 146097" "y mod 400 = year_of_era doe" using r(1,2) by (simp_all add: y_def)
  have c: "civil_date n = (y + (if m \<le> 2 then 1 else 0), m, doy - (153 * mp + 2) div 5 + 1)"
    by (simp add: civil_date_def Let_def z_def doe_def doy_def mp_def m_def y_def)
  have "doy = doe - year_start (year_of_era doe)" by (simp add: doy_def day_of_year_eq)
  moreover have "z = 146097 * (z div 146097) + doe" by (simp add: doe_def)
  moreover have "(if m \<le> 2 then y + (if m \<le> 2 then 1 else 0) - 1 else y + (if m \<le> 2 then 1 else 0)) = y" by simp
  ultimately show ?thesis unfolding c day_number_def by (simp add: Let_def m(1) y z_def)
qed

lemma civil_date_inject: "civil_date a = civil_date b \<longleftrightarrow> a = b"
  by (metis day_number_civil)

text \<open>The text of a date determines it.\<close>

lemma two_digits_int: "0 \<le> n \<Longrightarrow> digits_val (two_digits n) = n \<and> CHR ''-'' \<notin> set (two_digits n)"
proof -
  assume n: "0 \<le> n"
  have m: "CHR ''-'' \<notin> set (nat_digits k)" if "0 \<le> k" for k
    using that
  proof (induction k rule: nat_digits.induct)
    case (1 k)
    have d: "char_of (48 + k mod 10) \<noteq> CHR ''-''"
    proof
      assume "char_of (48 + k mod 10) = CHR ''-''"
      then have "(of_char (char_of (48 + k mod 10) :: char) :: int) = of_char CHR ''-''" by simp
      then show False using digit_char [of "k mod 10"] by simp
    qed
    show ?case
    proof (cases "k < 10")
      case True
      then show ?thesis using 1 d by (subst nat_digits.simps) simp
    next
      case False
      then have "CHR ''-'' \<notin> set (nat_digits (k div 10))" using 1 by simp
      then show ?thesis using d False by (subst nat_digits.simps) simp
    qed
  qed
  have z: "digits_val (CHR ''0'' # s) = digits_val s" for s by (simp add: digits_val_def digit_val_def)
  show ?thesis using n m [OF n] digits_nat_digits [OF n] z by (auto simp: two_digits_def int_str_def)
qed

lemma dash_first:
  assumes "s @ CHR ''-'' # t = s' @ CHR ''-'' # t'" "CHR ''-'' \<notin> set s" "CHR ''-'' \<notin> set s'"
  shows "s = s' \<and> t = t'"
  using assms
proof (induction s arbitrary: s')
  case Nil
  then show ?case by (cases s') auto
next
  case (Cons c s)
  then show ?case by (cases s') auto
qed

definition date_text :: "int \<times> int \<times> int \<Rightarrow> string" where
  "date_text = (\<lambda>(y, m, d). int_str y @ ''-'' @ two_digits m @ ''-'' @ two_digits d)"

lemma year_text: "1 \<le> y \<Longrightarrow> digits_val (int_str y) = y \<and> CHR ''-'' \<notin> set (int_str y)"
  using two_digits_int [of "y"] by (cases "y < 10") (auto simp: two_digits_def digits_val_def digit_val_def)

lemma date_text_inject:
  assumes "date_text (y, m, d) = date_text (y', m', d')" "1 \<le> y" "1 \<le> y'" "0 \<le> m" "0 \<le> m'" "0 \<le> d" "0 \<le> d'"
  shows "(y, m, d) = (y', m', d')"
proof -
  have 1: "int_str y = int_str y' \<and> two_digits m @ CHR ''-'' # two_digits d = two_digits m' @ CHR ''-'' # two_digits d'"
    by (rule dash_first) (use assms(1) year_text [OF assms(2)] year_text [OF assms(3)] in \<open>simp_all add: date_text_def\<close>)
  then have 2: "two_digits m = two_digits m' \<and> two_digits d = two_digits d'"
    by (intro dash_first) (use two_digits_int assms in auto)
  have "y = y'" using 1 year_text [OF assms(2)] year_text [OF assms(3)] by metis
  moreover have "m = m'" using 2 two_digits_int [OF assms(4)] two_digits_int [OF assms(5)] by metis
  moreover have "d = d'" using 2 two_digits_int [OF assms(6)] two_digits_int [OF assms(7)] by metis
  ultimately show ?thesis by simp
qed

lemma civil_date_range:
  assumes "civil_date n = (y, m, d)" shows "1 \<le> m \<and> m \<le> 12 \<and> 1 \<le> d"
proof -
  define doy where "doy = day_of_year ((n + 719468) mod 146097)"
  define mp where "mp = (5 * doy + 2) div 153"
  have r: "0 \<le> doy" "doy \<le> 365" using year_of_era_range [of "(n + 719468) mod 146097"] by (simp_all add: doy_def day_of_year_eq)
  then have mp: "0 \<le> mp" "mp \<le> 11" by (simp_all add: mp_def)
  have "153 * mp \<le> 5 * doy + 2" by (simp add: mp_def)
  then have "(153 * mp + 2) div 5 \<le> doy" by linarith
  moreover have "civil_date n = (year_of_era ((n + 719468) mod 146097) + 400 * ((n + 719468) div 146097) +
      (if (if mp < 10 then mp + 3 else mp - 9) \<le> 2 then 1 else 0), if mp < 10 then mp + 3 else mp - 9, doy - (153 * mp + 2) div 5 + 1)"
    unfolding civil_date_def Let_def doy_def mp_def ..
  then have "m = (if mp < 10 then mp + 3 else mp - 9)" "d = doy - (153 * mp + 2) div 5 + 1" using assms by (simp_all only: prod.inject)
  ultimately show ?thesis using mp by (cases "mp < 10") auto
qed

text \<open>The UTC day of a timestamp; a day bucket names the day and nothing else.\<close>

definition utc_day :: "pyfloat \<Rightarrow> int option" where
  "utc_day t = (case t of Fin q \<Rightarrow> Some (microseconds q div 1000000 div 86400) | _ \<Rightarrow> None)"

lemma day_bucket_utc_day:
  assumes "day_bucket_of t = Inr b"
  shows "\<exists>n y m d. utc_day t = Some n \<and> civil_date n = (y, m, d) \<and> b = date_text (y, m, d) \<and> 1 \<le> y"
proof -
  obtain q where "t = Fin q" using assms by (cases t) (auto simp: day_bucket_of_def utc_date_def)
  moreover obtain y m d where "civil_date (microseconds q div 1000000 div 86400) = (y, m, d)" by (metis surj_pair)
  ultimately show ?thesis using assms
    by (auto simp: day_bucket_of_def utc_date_def utc_day_def date_text_def Let_def split: if_splits)
qed

lemma day_bucket_same_day:
  assumes "day_bucket_of t = Inr b" "day_bucket_of t' = Inr b'" shows "b = b' \<longleftrightarrow> utc_day t = utc_day t'"
proof -
  obtain n y m d where 1: "utc_day t = Some n" "civil_date n = (y, m, d)" "b = date_text (y, m, d)" "1 \<le> y" using day_bucket_utc_day [OF assms(1)] by blast
  obtain n' y' m' d' where 2: "utc_day t' = Some n'" "civil_date n' = (y', m', d')" "b' = date_text (y', m', d')" "1 \<le> y'" using day_bucket_utc_day [OF assms(2)] by blast
  have "b = b' \<longleftrightarrow> (y, m, d) = (y', m', d')"
  proof
    assume "b = b'"
    then have "date_text (y, m, d) = date_text (y', m', d')" by (simp only: 1(3) 2(3))
    moreover have "1 \<le> y" "1 \<le> y'" "0 \<le> m" "0 \<le> m'" "0 \<le> d" "0 \<le> d'"
      using civil_date_range [OF 1(2)] civil_date_range [OF 2(2)] 1(4) 2(4) by simp_all
    ultimately show "(y, m, d) = (y', m', d')" by (rule date_text_inject)
  qed (simp only: 1(3) 2(3))
  also have "\<dots> \<longleftrightarrow> civil_date n = civil_date n'" by (simp only: 1(2) 2(2))
  finally show ?thesis by (simp only: civil_date_inject 1(1) 2(1) option.inject)
qed

end
