(* ===== verification/Receipts.thy ===== *)
theory Receipts
  imports Function_Keys Utc_Date
begin

text \<open>
  \<open>services/infonet/privacy/function_keys/receipt.py\<close> and \<open>batched_settlement.py\<close>: the two receipts of a
  redemption, signed by operator and citizen, and the counters an operator settles with.
\<close>

subsection \<open>Receipts\<close>

datatype denial_code = INVALID_SIGNATURE | NULLIFIER_ALREADY_SEEN | RATE_LIMIT_EXCEEDED

fun denial_value :: "denial_code \<Rightarrow> string" where
  "denial_value INVALID_SIGNATURE = ''invalid_signature''"
| "denial_value NULLIFIER_ALREADY_SEEN = ''nullifier_already_seen''"
| "denial_value RATE_LIMIT_EXCEEDED = ''rate_limit_exceeded''"

record receipt =
  rc_role :: string
  rc_receipt_id :: string
  rc_operator_id :: string
  rc_day_bucket :: string
  rc_nullifier_prefix :: string
  rc_signature :: bytes

record receipt_pair =
  verification :: receipt
  fulfillment :: receipt

definition sign_bytes :: "mac_primitives \<Rightarrow> bytes \<Rightarrow> bytes \<Rightarrow> bytes" where
  "sign_bytes M secret body = hmac M secret body"

definition verify_bytes :: "mac_primitives \<Rightarrow> bytes \<Rightarrow> bytes \<Rightarrow> bytes \<Rightarrow> bool" where
  "verify_bytes M secret body sig \<longleftrightarrow> sign_bytes M secret body = sig"

definition receipt_body :: "string \<Rightarrow> string \<Rightarrow> string \<Rightarrow> string \<Rightarrow> string \<Rightarrow> bytes" where
  "receipt_body role rid oid day pre = join_bytes [utf8 ''function_key_receipt'', utf8 role, utf8 rid, utf8 oid, utf8 day, utf8 pre]"

text \<open>\<open>s[:n]\<close>, counting from the end for a negative \<open>n\<close>\<close>

definition prefix_slice :: "string \<Rightarrow> int \<Rightarrow> string" where
  "prefix_slice s n = take (nat (if n < 0 then int (length s) + n else n)) s"

definition make_receipt :: "mac_primitives \<Rightarrow> bytes \<Rightarrow> string \<Rightarrow> string \<Rightarrow> string \<Rightarrow> string \<Rightarrow> string \<Rightarrow> receipt" where
  "make_receipt M secret role rid oid day pre =
     \<lparr>rc_role = role, rc_receipt_id = rid, rc_operator_id = oid, rc_day_bucket = day, rc_nullifier_prefix = pre,
      rc_signature = sign_bytes M secret (receipt_body role rid oid day pre)\<rparr>"

text \<open>\<open>token\<close> is the outcome of \<open>secrets.token_hex(16)\<close>.\<close>

definition issue_verification_receipt :: "mac_primitives \<Rightarrow> string \<Rightarrow> bytes \<Rightarrow> arg \<Rightarrow> pyfloat \<Rightarrow> string option \<Rightarrow> int \<Rightarrow> string \<Rightarrow> receipt res" where
  "issue_verification_receipt M operator_id operator_secret nullifier timestamp rid prefix_len token = (case nullifier of
       Text n \<Rightarrow>
         if int (length n) < prefix_len then Inl ValueError
         else bnd (day_bucket_of timestamp) (\<lambda>day.
           let i = (case rid of Some r \<Rightarrow> if r = [] then token else r | None \<Rightarrow> token) in
           Inr (make_receipt M operator_secret ''verification'' i operator_id day (prefix_slice n prefix_len)))
     | _ \<Rightarrow> Inl ValueError)"

definition counter_sign_fulfillment :: "mac_primitives \<Rightarrow> receipt \<Rightarrow> bytes \<Rightarrow> receipt res" where
  "counter_sign_fulfillment M v citizen_secret =
     (if rc_role v \<noteq> ''verification'' then Inl ValueError
      else Inr (make_receipt M citizen_secret ''fulfillment'' (rc_receipt_id v) (rc_operator_id v) (rc_day_bucket v) (rc_nullifier_prefix v)))"

definition body_of :: "string \<Rightarrow> receipt \<Rightarrow> bytes" where
  "body_of role r = receipt_body role (rc_receipt_id r) (rc_operator_id r) (rc_day_bucket r) (rc_nullifier_prefix r)"

definition verify_receipt_pair :: "mac_primitives \<Rightarrow> receipt_pair \<Rightarrow> bytes \<Rightarrow> bytes \<Rightarrow> bool" where
  "verify_receipt_pair M p operator_secret citizen_secret =
     (if rc_role (verification p) \<noteq> ''verification'' then False
      else if rc_role (fulfillment p) \<noteq> ''fulfillment'' then False
      else if rc_receipt_id (verification p) \<noteq> rc_receipt_id (fulfillment p) then False
      else if rc_operator_id (verification p) \<noteq> rc_operator_id (fulfillment p) then False
      else if \<not> verify_bytes M operator_secret (body_of ''verification'' (verification p)) (rc_signature (verification p)) then False
      else if \<not> verify_bytes M citizen_secret (body_of ''fulfillment'' (fulfillment p)) (rc_signature (fulfillment p)) then False
      else True)"

subsection \<open>Settlement\<close>

record settlement_batch =
  sb_period_id :: string
  sb_operator_id :: string
  successful_count :: int
  denial_counts :: "(string \<times> int) list"
  finalized :: bool

definition new_batch :: "string \<Rightarrow> string \<Rightarrow> settlement_batch" where
  "new_batch p oid = \<lparr>sb_period_id = p, sb_operator_id = oid, successful_count = 0, denial_counts = [], finalized = False\<rparr>"

definition record_redemption :: "settlement_batch \<Rightarrow> settlement_batch res" where
  "record_redemption b = (if finalized b then Inl RuntimeError else Inr (b\<lparr>successful_count := successful_count b + 1\<rparr>))"

definition record_denial :: "arg \<Rightarrow> settlement_batch \<Rightarrow> settlement_batch res" where
  "record_denial code b =
     (if finalized b then Inl RuntimeError
      else bnd (name_arg code) (\<lambda>c. Inr (b\<lparr>denial_counts := AList.update c (dict_get (denial_counts b) c 0 + 1) (denial_counts b)\<rparr>)))"

definition finalize_batch :: "settlement_batch \<Rightarrow> (pydict \<times> settlement_batch) res" where
  "finalize_batch b =
     (if finalized b then Inl RuntimeError
      else Inr ([(''period_id'', PStr (sb_period_id b)), (''operator_id'', PStr (sb_operator_id b)),
                 (''successful_count'', PInt (successful_count b)),
                 (''denial_counts'', PDict (map (\<lambda>(k, v). (k, PInt v)) (denial_counts b)))],
                b\<lparr>finalized := True\<rparr>))"

subsection \<open>Two phases\<close>

lemma verify_pair_iff:
  "verify_receipt_pair M p os cs \<longleftrightarrow> rc_role (verification p) = ''verification'' \<and> rc_role (fulfillment p) = ''fulfillment''
     \<and> rc_receipt_id (verification p) = rc_receipt_id (fulfillment p) \<and> rc_operator_id (verification p) = rc_operator_id (fulfillment p)
     \<and> rc_signature (verification p) = hmac M os (body_of ''verification'' (verification p))
     \<and> rc_signature (fulfillment p) = hmac M cs (body_of ''fulfillment'' (fulfillment p))"
  by (auto simp: verify_receipt_pair_def verify_bytes_def sign_bytes_def)

lemma issued_receipt:
  assumes "issue_verification_receipt M oid os nullifier t rid k token = Inr v"
  shows "\<exists>n day i. nullifier = Text n \<and> day_bucket_of t = Inr day \<and> v = make_receipt M os ''verification'' i oid day (prefix_slice n k)
    \<and> i = (case rid of Some r \<Rightarrow> if r = [] then token else r | None \<Rightarrow> token)"
  using assms by (auto simp: issue_verification_receipt_def Let_def bnd_eq_Inr split: arg.splits if_splits)

text \<open>
  C26: the two phases of a receipt. A verification receipt, counter-signed by the citizen, makes a pair
  that verifies under the two secrets, and both receipts carry the same id, operator, day and prefix.
  What they carry is exactly: of the time the date of its UTC day, and of the nullifier its first
  characters, as many as the prefix length (for a negative length, all but as many of the last). Hence
  a receipt issued for another time is the same receipt exactly if the day is the same, and for another
  nullifier exactly if the prefix is the same.
\<close>

theorem receipt_pair_verifies:
  assumes "issue_verification_receipt M oid os (Text n) t rid k token = Inr v" "counter_sign_fulfillment M v cs = Inr f"
  shows "verify_receipt_pair M \<lparr>verification = v, fulfillment = f\<rparr> os cs
    \<and> rc_receipt_id f = rc_receipt_id v \<and> rc_operator_id v = oid \<and> rc_operator_id f = oid
    \<and> rc_day_bucket f = rc_day_bucket v \<and> rc_nullifier_prefix f = rc_nullifier_prefix v
    \<and> rc_nullifier_prefix v = take (if 0 \<le> k then nat k else length n - nat (- k)) n
    \<and> (0 \<le> k \<longrightarrow> int (length (rc_nullifier_prefix v)) = k)
    \<and> (\<exists>y m d. rc_day_bucket v = date_text (y, m, d) \<and> utc_day t = Some (day_number (y, m, d)))
    \<and> (\<forall>t' v'. issue_verification_receipt M oid os (Text n) t' rid k token = Inr v' \<longrightarrow> (v' = v \<longleftrightarrow> utc_day t' = utc_day t))
    \<and> (\<forall>n' v'. issue_verification_receipt M oid os (Text n') t rid k token = Inr v' \<longrightarrow>
          (v' = v \<longleftrightarrow> take (if 0 \<le> k then nat k else length n' - nat (- k)) n' = take (if 0 \<le> k then nat k else length n - nat (- k)) n))"
proof -
  obtain day i where v: "day_bucket_of t = Inr day" "v = make_receipt M os ''verification'' i oid day (prefix_slice n k)"
    "i = (case rid of Some r \<Rightarrow> if r = [] then token else r | None \<Rightarrow> token)" using issued_receipt [OF assms(1)] by blast
  have f: "f = make_receipt M cs ''fulfillment'' i oid day (prefix_slice n k)"
    using assms(2) by (auto simp: counter_sign_fulfillment_def v(2) make_receipt_def split: if_splits)
  have 1: "verify_receipt_pair M \<lparr>verification = v, fulfillment = f\<rparr> os cs"
    by (simp add: verify_pair_iff v(2) f make_receipt_def body_of_def sign_bytes_def)
  have 2: "v' = v \<longleftrightarrow> utc_day t' = utc_day t" if i': "issue_verification_receipt M oid os (Text n) t' rid k token = Inr v'" for t' v'
  proof -
    obtain day' where v': "day_bucket_of t' = Inr day'" "v' = make_receipt M os ''verification'' i oid day' (prefix_slice n k)"
      using issued_receipt [OF i'] v(3) by blast
    have "v' = v \<longleftrightarrow> day' = day" unfolding v'(2) v(2) by (auto simp: make_receipt_def)
    then show ?thesis using day_bucket_same_day [OF v'(1) v(1)] by simp
  qed
  have pre: "prefix_slice x k = take (if 0 \<le> k then nat k else length x - nat (- k)) x" for x
    unfolding prefix_slice_def by (rule arg_cong [where f = "\<lambda>i. take i x"]) auto
  have 3: "v' = v \<longleftrightarrow> prefix_slice n' k = prefix_slice n k" if i': "issue_verification_receipt M oid os (Text n') t rid k token = Inr v'" for n' v'
  proof -
    have "v' = make_receipt M os ''verification'' i oid day (prefix_slice n' k)" using issued_receipt [OF i'] v by auto
    then show ?thesis unfolding v(2) by (auto simp: make_receipt_def)
  qed
  have len: "k \<le> int (length n)" using assms(1) by (auto simp: issue_verification_receipt_def split: if_splits)
  obtain u y m d where "utc_day t = Some u" "civil_date u = (y, m, d)" "day = date_text (y, m, d)" using day_bucket_utc_day [OF v(1)] by blast
  then have 4: "\<exists>y m d. day = date_text (y, m, d) \<and> utc_day t = Some (day_number (y, m, d))" using day_number_civil by metis
  have fields: "rc_receipt_id f = rc_receipt_id v" "rc_operator_id v = oid" "rc_operator_id f = oid" "rc_day_bucket f = rc_day_bucket v"
    "rc_nullifier_prefix f = rc_nullifier_prefix v" "rc_nullifier_prefix v = prefix_slice n k" "rc_day_bucket v = day"
    by (simp_all add: v(2) f make_receipt_def)
  have 5: "0 \<le> k \<longrightarrow> int (length (rc_nullifier_prefix v)) = k" using len by (simp add: fields(6) pre)
  show ?thesis using 1 2 3 4 5 fields by (simp only: pre) simp
qed

theorem receipt_pair_verifies_witness:
  "\<exists>v f. issue_verification_receipt plain_macs ''op'' [1] (Text ''0123456789'') (Fin 86399) None 8 ''id'' = Inr v
     \<and> counter_sign_fulfillment plain_macs v [2] = Inr f \<and> rc_day_bucket f = ''1970-01-01''
     \<and> verify_receipt_pair plain_macs \<lparr>verification = v, fulfillment = f\<rparr> [1] [2]"
proof -
  let ?v = "make_receipt plain_macs [1] ''verification'' ''id'' ''op'' ''1970-01-01'' ''01234567''"
  let ?f = "make_receipt plain_macs [2] ''fulfillment'' ''id'' ''op'' ''1970-01-01'' ''01234567''"
  have "microseconds 86399 div 1000000 = 86399" using microseconds_int [of 86399] by simp
  moreover have "civil_date 0 = (1970, 1, 1)" by code_simp
  ultimately have u: "utc_date (Fin 86399) = Inr (1970, 1, 1)" by (simp add: utc_date_def)
  have d: "day_bucket_of (Fin 86399) = Inr ''1970-01-01''" unfolding day_bucket_of_def u by code_simp
  have v: "issue_verification_receipt plain_macs ''op'' [1] (Text ''0123456789'') (Fin 86399) None 8 ''id'' = Inr ?v"
    by (simp add: issue_verification_receipt_def d prefix_slice_def numeral_eq_Suc)
  have f: "counter_sign_fulfillment plain_macs ?v [2] = Inr ?f" by (simp add: counter_sign_fulfillment_def make_receipt_def)
  from receipt_pair_verifies [OF v f] have "verify_receipt_pair plain_macs \<lparr>verification = ?v, fulfillment = ?f\<rparr> [1] [2]" by (rule conjunct1)
  moreover have "rc_day_bucket ?f = ''1970-01-01''" by (simp only: make_receipt_def receipt.simps)
  ultimately show ?thesis using v f by (intro exI conjI)
qed

text \<open>
  What a verified pair is: under the same day and prefix on both sides, the operator's and the citizen's
  own signature of one redemption. The two sides' days and prefixes are not compared, so the two halves
  of different redemptions with one receipt id verify as well.
\<close>

lemma verified_pair_shape:
  assumes "verify_receipt_pair M p os cs" "rc_day_bucket (fulfillment p) = rc_day_bucket (verification p)"
    "rc_nullifier_prefix (fulfillment p) = rc_nullifier_prefix (verification p)"
  shows "counter_sign_fulfillment M (verification p) cs = Inr (fulfillment p)"
  using assms by (auto simp: verify_pair_iff counter_sign_fulfillment_def make_receipt_def sign_bytes_def body_of_def)

lemma mixed_pair_accepted:
  "verify_receipt_pair M \<lparr>verification = make_receipt M os ''verification'' rid oid day pre,
     fulfillment = make_receipt M cs ''fulfillment'' rid oid day' pre'\<rparr> os cs"
  by (simp add: verify_pair_iff make_receipt_def body_of_def sign_bytes_def)

text \<open>The fields are joined with bars unescaped: a receipt id or an operator with a bar shifts them.\<close>

lemma receipt_body_ambiguous:
  "receipt_body role (a @ ''|'' @ b) c day pre = receipt_body role a (b @ ''|'' @ c) day pre"
  by (simp add: receipt_body_def utf8_append)

subsection \<open>Settlement\<close>

text \<open>What is called on a batch, and the run of a sequence of calls: each call's success, and the final state\<close>

datatype settle_call = Redeem | Deny arg | Close

fun settle_step :: "settle_call \<Rightarrow> settlement_batch \<Rightarrow> settlement_batch res" where
  "settle_step Redeem b = record_redemption b"
| "settle_step (Deny code) b = record_denial code b"
| "settle_step Close b = map_sum id snd (finalize_batch b)"

text \<open>The state after a sequence of calls, where the caller drops the calls that raise\<close>

fun settle_run :: "settle_call list \<Rightarrow> settlement_batch \<Rightarrow> settlement_batch" where
  "settle_run [] b = b"
| "settle_run (c # cs) b = settle_run cs (case settle_step c b of Inr b' \<Rightarrow> b' | Inl _ \<Rightarrow> b)"

text \<open>The calls before the first \<open>finalize\<close>, and what they report\<close>

definition open_calls :: "settle_call list \<Rightarrow> settle_call list" where
  "open_calls cs = takeWhile (\<lambda>c. c \<noteq> Close) cs"

definition reported :: "settle_call list \<Rightarrow> string \<Rightarrow> int" where
  "reported cs code = (if code = [] then 0 else int (length (filter (\<lambda>c. c = Deny (Text code)) cs)))"

lemma batch_closed:
  "finalized b \<Longrightarrow> settle_step c b = Inl RuntimeError \<and> settle_run cs b = b"
proof -
  assume f: "finalized b"
  have s: "settle_step c b = Inl RuntimeError" for c
    using f by (cases c) (simp_all add: record_redemption_def record_denial_def finalize_batch_def)
  have "settle_run cs b = b" by (induction cs) (simp_all add: s)
  with s show ?thesis by blast
qed

lemma denial_step:
  "\<not> finalized b \<Longrightarrow> (case record_denial code b of Inr b' \<Rightarrow> b' | Inl _ \<Rightarrow> b) =
    (case code of Text c \<Rightarrow> if c = [] then b else b\<lparr>denial_counts := AList.update c (dict_get (denial_counts b) c 0 + 1) (denial_counts b)\<rparr> | _ \<Rightarrow> b)"
  by (cases code) (simp_all add: record_denial_def)

lemma settle_run_counts:
  assumes "\<not> finalized b"
  shows "successful_count (settle_run cs b) = successful_count b + int (length (filter (\<lambda>c. c = Redeem) (open_calls cs)))
    \<and> dict_get (denial_counts (settle_run cs b)) code 0 = dict_get (denial_counts b) code 0 + reported (open_calls cs) code
    \<and> (finalized (settle_run cs b) \<longleftrightarrow> Close \<in> set cs)
    \<and> sb_period_id (settle_run cs b) = sb_period_id b \<and> sb_operator_id (settle_run cs b) = sb_operator_id b"
  using assms
proof (induction cs arbitrary: b)
  case (Cons c cs)
  show ?case
  proof (cases c)
    case Redeem
    then show ?thesis using Cons.IH [of "b\<lparr>successful_count := successful_count b + 1\<rparr>"] Cons.prems
      by (simp add: record_redemption_def open_calls_def reported_def)
  next
    case (Deny a)
    let ?b = "case record_denial a b of Inr b' \<Rightarrow> b' | Inl _ \<Rightarrow> b"
    have b: "\<not> finalized ?b" "successful_count ?b = successful_count b" "sb_period_id ?b = sb_period_id b" "sb_operator_id ?b = sb_operator_id b"
      "dict_get (denial_counts ?b) code 0 = dict_get (denial_counts b) code 0 + (if code \<noteq> [] \<and> a = Text code then 1 else 0)"
      using Cons.prems by (auto simp: denial_step dict_get_update split: arg.splits)
    show ?thesis using Cons.IH [OF b(1)] b(2-) Deny by (simp add: open_calls_def reported_def)
  next
    case Close
    then show ?thesis using Cons.prems batch_closed [of "b\<lparr>finalized := True\<rparr>" c cs] by (simp add: finalize_batch_def open_calls_def reported_def)
  qed
qed (simp add: open_calls_def reported_def)

text \<open>
  C27: a batch counts what happened before it was closed. After any sequence of calls the successes are the
  redemptions, and the count of a code the denials with it, that were recorded before the first
  \<open>finalize\<close>; denials without a code count nowhere; the batch is closed exactly if \<open>finalize\<close> was
  called, and from then on every call raises and changes nothing. The payload of \<open>finalize\<close> is the
  period, the operator and these counts.
\<close>

theorem batch_counts:
  "let b = settle_run cs (new_batch p oid) in
     successful_count b = int (length (filter (\<lambda>c. c = Redeem) (open_calls cs)))
   \<and> dict_get (denial_counts b) code 0 = reported (open_calls cs) code
   \<and> (finalized b = (Close \<in> set cs))
   \<and> (if Close \<in> set cs then \<forall>c. settle_step c b = Inl RuntimeError
      else finalize_batch b = Inr ([(''period_id'', PStr p), (''operator_id'', PStr oid),
               (''successful_count'', PInt (int (length (filter (\<lambda>c. c = Redeem) cs)))),
               (''denial_counts'', PDict (map (map_prod id PInt) (denial_counts b)))], b\<lparr>finalized := True\<rparr>))"
proof -
  let ?b = "settle_run cs (new_batch p oid)"
  have n: "\<not> finalized (new_batch p oid)" by (simp add: new_batch_def)
  note c = settle_run_counts [OF n, of cs code]
  have o: "open_calls cs = cs" if "Close \<notin> set cs" using that by (auto simp: open_calls_def takeWhile_eq_all_conv)
  have m: "(\<lambda>(k, v). (k, PInt v)) = map_prod id PInt" by (rule ext) (simp split: prod.split)
  show ?thesis
  proof (cases "Close \<in> set cs")
    case True
    then have "\<forall>c. settle_step c ?b = Inl RuntimeError" using c batch_closed by blast
    then show ?thesis using c True by (simp add: Let_def new_batch_def dict_get_def)
  next
    case False
    then show ?thesis using c o by (simp add: Let_def new_batch_def dict_get_def finalize_batch_def m)
  qed
qed

end
