(* ===== verification/Mesh_Text.thy ===== *)
theory Mesh_Text
  imports Evidence Schema
begin

text \<open>
  What the mesh services share: \<open>str.lower\<close>, \<open>int()\<close> with a default (\<open>_safe_int\<close> of \<open>mesh_protocol.py\<close>,
  \<open>mesh_schema.py\<close>, \<open>mesh_ibf.py\<close> and \<open>mesh_hashchain.py\<close>), and equality of values as Python's \<open>==\<close>
  decides it between a dict and one that was computed from it.
\<close>

text \<open>\<open>str.lower\<close> below code point 256\<close>

definition lower_char :: "char \<Rightarrow> char" where
  "lower_char c = (let n = of_char c :: nat in if 192 \<le> n \<and> n \<le> 222 \<and> n \<noteq> 215 then char_of (n + 32) else lower c)"

definition lower_text :: "string \<Rightarrow> string" where
  "lower_text s = map lower_char s"

text \<open>\<open>int(val)\<close> with a default; the overflow of an infinite float escapes.\<close>

definition safe_int_or :: "pyval \<Rightarrow> int \<Rightarrow> int res" where
  "safe_int_or v n = catching type_or_value (py_int v) (Inr n)"

text \<open>
  \<open>a == b\<close>: numbers by value, containers by their items, dicts without regard to order. The two sides
  share their objects, so a NaN is compared with itself, which a container takes as equal.
\<close>

function same_value :: "pyval \<Rightarrow> pyval \<Rightarrow> bool" where
  "same_value a b = (case (a, b) of
       (PList xs, PList ys) \<Rightarrow> length xs = length ys \<and> list_all (\<lambda>(x, y). same_value x y) (zip xs ys)
     | (PDict d, PDict e) \<Rightarrow> length d = length e \<and> list_all (\<lambda>(k, v). case map_of e k of None \<Rightarrow> False | Some w \<Rightarrow> same_value v w) d
     | _ \<Rightarrow> (case (num_val a, num_val b) of (Some x, Some y) \<Rightarrow> feq x y \<or> x = NaN \<and> y = NaN | _ \<Rightarrow> a = b))"
  by pat_completeness auto
termination
  by (relation "measure (\<lambda>(a, b). size a)") (auto dest!: set_zip_leftD simp: less_Suc_eq_le size_list_estimation' intro!: size_list_estimation')

declare same_value.simps [simp del]

subsection \<open>Texts in normal form\<close>

lemma lower_char_facts: "lower_char (lower_char c) = lower_char c \<and> is_space (lower_char c) = is_space c"
proof -
  define n where "n = (of_char c :: nat)"
  have c: "c = char_of n" by (simp add: n_def)
  have n: "n < 256" using nat_of_char_less_256 [of c] by (simp add: n_def)
  consider "192 \<le> n \<and> n \<le> 222 \<and> n \<noteq> 215" | "65 \<le> n \<and> n \<le> 90" | "\<not> (192 \<le> n \<and> n \<le> 222 \<and> n \<noteq> 215)" "\<not> (65 \<le> n \<and> n \<le> 90)" by blast
  then show ?thesis
  proof cases
    case 1
    then have "lower_char c = char_of (n + 32)" by (simp add: lower_char_def n_def [symmetric])
    then show ?thesis using 1 n unfolding c by (auto simp: lower_char_def lower_def is_space_def)
  next
    case 2
    then have "lower_char c = char_of (n + 32)" by (simp add: lower_char_def lower_def n_def [symmetric])
    then show ?thesis using 2 n unfolding c by (auto simp: lower_char_def lower_def is_space_def)
  next
    case 3
    then have "lower_char c = c" by (auto simp: lower_char_def lower_def n_def [symmetric])
    then show ?thesis by simp
  qed
qed

lemma lower_idem [simp]: "lower_text (lower_text s) = lower_text s"
  by (simp add: lower_text_def lower_char_facts)

lemma lower_Nil [simp]: "lower_text s = [] \<longleftrightarrow> s = []" "lower_text [] = []"
  by (simp_all add: lower_text_def)

lemma dropWhile_lower: "dropWhile is_space (map lower_char s) = map lower_char (dropWhile is_space s)"
  by (induction s) (simp_all add: lower_char_facts)

lemma strip_lower: "strip (lower_text s) = lower_text (strip s)"
  by (simp add: strip_def lower_text_def dropWhile_lower rev_map)

lemma strip_idem [simp]: "strip (strip s) = strip s"
proof -
  define t where "t = dropWhile is_space s"
  define u where "u = rev (dropWhile is_space (rev t))"
  have "t = [] \<or> \<not> is_space (hd t)" unfolding t_def using hd_dropWhile [of is_space s] by blast
  moreover obtain w where "t = u @ w" using takeWhile_dropWhile_id [of is_space "rev t"] unfolding u_def by (metis rev_append rev_rev_ident)
  ultimately have "u = [] \<or> \<not> is_space (hd u)" by (cases u) auto
  then have "dropWhile is_space u = u" by (simp add: dropWhile_eq_self_iff)
  moreover have "strip s = u" by (simp add: strip_def t_def u_def)
  moreover have "dropWhile is_space (rev u) = rev u" by (simp add: u_def)
  ultimately show ?thesis by (simp add: strip_def [of u])
qed

end
