(* ===== verification/Merkle.thy ===== *)
theory Merkle
  imports Mesh_Text
begin

text \<open>
  \<open>services/mesh/mesh_merkle.py\<close>: Merkle trees over a chain's event ids, proofs of membership and their
  verification. SHA-256 is the parameter of \<^typ>\<open>primitives\<close>; a proof to verify is whatever a peer sent.
\<close>

subsection \<open>The code\<close>

definition hash_leaf :: "primitives \<Rightarrow> string \<Rightarrow> string" where
  "hash_leaf P v = sha256 P v"

definition hash_pair :: "primitives \<Rightarrow> string \<Rightarrow> string \<Rightarrow> string" where
  "hash_pair P l r = sha256 P (l @ r)"

text \<open>The inner loop: the last node of an odd level is paired with itself.\<close>

fun next_level :: "primitives \<Rightarrow> string list \<Rightarrow> string list" where
  "next_level P [] = []"
| "next_level P [l] = [hash_pair P l l]"
| "next_level P (l # r # hs) = hash_pair P l r # next_level P hs"

lemma length_next_level: "length (next_level P hs) = (length hs + 1) div 2"
  by (induction P hs rule: next_level.induct) auto

text \<open>The outer loop: levels from the leaves up to a single node\<close>

function levels_from :: "primitives \<Rightarrow> string list \<Rightarrow> string list list" where
  "levels_from P level = (if 1 < length level then level # levels_from P (next_level P level) else [level])"
  by pat_completeness auto
termination
  by (relation "measure (\<lambda>(P, level). length level)") (auto simp: length_next_level)

declare levels_from.simps [simp del]

definition build_merkle_levels :: "primitives \<Rightarrow> string list \<Rightarrow> string list list" where
  "build_merkle_levels P leaves = (if leaves = [] then [] else levels_from P (map (hash_leaf P) leaves))"

definition merkle_root :: "primitives \<Rightarrow> string list \<Rightarrow> string" where
  "merkle_root P leaves = (let levels = build_merkle_levels P leaves in if levels = [] then [] else hd (last levels))"

definition proof_step :: "string \<Rightarrow> bool \<Rightarrow> pydict" where
  "proof_step h is_right = [(''hash'', PStr h), (''side'', PStr (if is_right then ''left'' else ''right''))]"

text \<open>The loop over the levels below the root; levels that are not a tree's can raise.\<close>

fun proof_steps :: "string list list \<Rightarrow> nat \<Rightarrow> pydict list res" where
  "proof_steps [] i = Inr []"
| "proof_steps (level # levels) i =
     (let is_right = odd i; sibling = (if is_right then i - 1 else i + 1) in
      bnd (if length level \<le> sibling then (if i < length level then Inr (level ! i) else Inl IndexError) else Inr (level ! sibling)) (\<lambda>h.
      bnd (proof_steps levels (i div 2)) (\<lambda>ps. Inr (proof_step h is_right # ps))))"

definition merkle_proof_from_levels :: "string list list \<Rightarrow> int \<Rightarrow> pydict list res" where
  "merkle_proof_from_levels levels index =
     (if levels = [] then Inr []
      else if index < 0 \<or> int (length (hd levels)) \<le> index then Inr []
      else proof_steps (butlast levels) (nat index))"

definition step_sibling :: "pydict \<Rightarrow> string" where
  "step_sibling step = py_str (get_or step ''hash'' (PStr []))"

definition step_is_left :: "pydict \<Rightarrow> bool" where
  "step_is_left step \<longleftrightarrow> lower_text (py_str (get_or step ''side'' (PStr ''right''))) = ''left''"

fun climb :: "primitives \<Rightarrow> string \<Rightarrow> pydict list \<Rightarrow> string" where
  "climb P current [] = current"
| "climb P current (step # ps) =
     climb P (if step_is_left step then hash_pair P (step_sibling step) current else hash_pair P current (step_sibling step)) ps"

definition verify_merkle_proof :: "primitives \<Rightarrow> string \<Rightarrow> int \<Rightarrow> pydict list \<Rightarrow> string \<Rightarrow> bool" where
  "verify_merkle_proof P leaf_value index ps r \<longleftrightarrow> climb P (hash_leaf P leaf_value) ps = r"

subsection \<open>Levels and positions\<close>

lemma next_level_nth:
  "i < length hs \<Longrightarrow> next_level P hs ! (i div 2) =
    (if odd i then hash_pair P (hs ! (i - 1)) (hs ! i) else hash_pair P (hs ! i) (if i + 1 < length hs then hs ! (i + 1) else hs ! i))"
proof (induction P hs arbitrary: i rule: next_level.induct)
  case (3 P l r hs)
  show ?case
  proof (cases "i < 2")
    case True
    then show ?thesis by (auto simp: less_2_cases_iff)
  next
    case False
    then obtain j where j: "i = Suc (Suc j)" by (metis add_2_eq_Suc le_Suc_ex not_less)
    have "j < length hs" using 3(2) j by simp
    from "3.IH" [OF this] show ?thesis using j by (cases j) auto
  qed
qed simp_all

lemma levels_from_not_Nil [simp]: "levels_from P hs \<noteq> []"
  by (subst levels_from.simps) simp

lemma levels_from_hd [simp]: "hd (levels_from P hs) = hs"
  by (subst levels_from.simps) simp

lemma levels_from_step:
  assumes "1 < length hs"
  shows "butlast (levels_from P hs) = hs # butlast (levels_from P (next_level P hs))" "last (levels_from P hs) = last (levels_from P (next_level P hs))"
  by (subst levels_from.simps, use assms in simp)+

lemma levels_from_single: "\<not> 1 < length hs \<Longrightarrow> levels_from P hs = [hs]"
  by (subst levels_from.simps) simp

text \<open>
  The node that a proof's sides name, from the root down: below a node \<open>p\<close> the child \<open>2 p\<close> or \<open>2 p + 1\<close>,
  the missing right child of an odd level being the last node.
\<close>

fun position :: "nat list \<Rightarrow> bool list \<Rightarrow> nat" where
  "position (n # ns) (is_right # ss) = min (n - 1) (2 * position ns ss + (if is_right then 1 else 0))"
| "position _ _ = 0"

definition tree_sizes :: "primitives \<Rightarrow> string list \<Rightarrow> nat list" where
  "tree_sizes P leaves = map length (butlast (build_merkle_levels P leaves))"

lemma proof_step_reads [simp]: "step_sibling (proof_step h b) = h" "step_is_left (proof_step h b) = b"
proof -
  have "lower_text ''left'' = ''left''" "lower_text ''right'' = ''right''" by code_simp+
  then show "step_sibling (proof_step h b) = h" "step_is_left (proof_step h b) = b"
    by (simp_all add: step_sibling_def step_is_left_def proof_step_def get_or_def)
qed

lemma levels_complete:
  "i < length hs \<Longrightarrow> \<exists>ps. proof_steps (butlast (levels_from P hs)) i = Inr ps
     \<and> climb P (hs ! i) ps = hd (last (levels_from P hs))
     \<and> position (map length (butlast (levels_from P hs))) (map step_is_left ps) = i
     \<and> length ps = length (butlast (levels_from P hs))"
proof (induction P hs arbitrary: i rule: levels_from.induct)
  case (1 P hs)
  show ?case
  proof (cases "1 < length hs")
    case True
    let ?up = "next_level P hs"
    have "i div 2 < length ?up" using 1(2) by (simp add: length_next_level)
    from "1.IH" [OF True this] obtain ps where ps: "proof_steps (butlast (levels_from P ?up)) (i div 2) = Inr ps"
      "climb P (?up ! (i div 2)) ps = hd (last (levels_from P ?up))"
      "position (map length (butlast (levels_from P ?up))) (map step_is_left ps) = i div 2" "length ps = length (butlast (levels_from P ?up))" by blast
    define h where "h = (if odd i then hs ! (i - 1) else if i + 1 < length hs then hs ! (i + 1) else hs ! i)"
    have s: "proof_steps (butlast (levels_from P hs)) i = Inr (proof_step h (odd i) # ps)"
      using 1(2) by (auto simp: levels_from_step(1) [OF True] Let_def ps(1) h_def)
    have n: "?up ! (i div 2) = (if odd i then hash_pair P h (hs ! i) else hash_pair P (hs ! i) h)"
      using next_level_nth [OF 1(2), of P] by (simp add: h_def)
    have "min (length hs - 1) (2 * (i div 2) + (if odd i then 1 else 0)) = i" using 1(2) by auto
    then show ?thesis using s n ps by (auto simp: levels_from_step [OF True])
  next
    case False
    then show ?thesis using 1(2) by (cases hs) (auto simp: levels_from_single)
  qed
qed

text \<open>The number of steps is the logarithm of the number of leaves, rounded up.\<close>

lemma levels_depth:
  "hs \<noteq> [] \<Longrightarrow> length hs \<le> 2 ^ length (butlast (levels_from P hs)) \<and> (1 < length hs \<longrightarrow> 2 ^ length (butlast (levels_from P hs)) < 2 * length hs)"
proof (induction P hs rule: levels_from.induct)
  case (1 P hs)
  show ?case
  proof (cases "1 < length hs")
    case True
    let ?up = "next_level P hs"
    have "?up \<noteq> []" using 1(2) length_next_level [of P hs] by (cases hs) auto
    note ih = "1.IH" [OF True this]
    define k where "k = length (butlast (levels_from P ?up))"
    have k: "length (butlast (levels_from P hs)) = Suc k" by (simp add: levels_from_step(1) [OF True] k_def del: length_butlast)
    have l: "length ?up = (length hs + 1) div 2" by (rule length_next_level)
    have lo: "length ?up \<le> 2 ^ k" and hi: "1 < length ?up \<longrightarrow> 2 ^ k < 2 * length ?up" using ih by (simp_all add: k_def)
    have "k = 0" if "\<not> 1 < length ?up" using that by (simp add: k_def levels_from_single)
    then have "2 ^ k < length hs" using hi l True lo by (cases "1 < length ?up"; cases k) auto
    then show ?thesis using lo l k by simp
  next
    case False
    then show ?thesis using 1(2) by (cases hs) (auto simp: levels_from_single)
  qed
qed

text \<open>
  C28: proofs of a built tree verify. The proof for each position of the leaves exists, has as many steps as
  the logarithm of their number rounded up, names that position by its sides, and verifies
  the leaf there against the root; outside the positions the proof is empty.
\<close>

theorem merkle_complete:
  assumes "i < length leaves"
  shows "(\<exists>ps. merkle_proof_from_levels (build_merkle_levels P leaves) (int i) = Inr ps
      \<and> (\<forall>j. verify_merkle_proof P (leaves ! i) j ps (merkle_root P leaves))
      \<and> position (tree_sizes P leaves) (map step_is_left ps) = i
      \<and> length leaves \<le> 2 ^ length ps \<and> (1 < length leaves \<longrightarrow> 2 ^ length ps < 2 * length leaves))
    \<and> (\<forall>k. k < 0 \<or> int (length leaves) \<le> k \<longrightarrow> merkle_proof_from_levels (build_merkle_levels P leaves) k = Inr [])"
proof -
  let ?hs = "map (hash_leaf P) leaves"
  have ne: "leaves \<noteq> []" using assms by auto
  have b: "build_merkle_levels P leaves = levels_from P ?hs" using ne by (simp add: build_merkle_levels_def)
  from levels_complete [of i ?hs P] assms obtain ps where ps: "proof_steps (butlast (levels_from P ?hs)) i = Inr ps"
    "climb P (?hs ! i) ps = hd (last (levels_from P ?hs))" "position (map length (butlast (levels_from P ?hs))) (map step_is_left ps) = i"
    "length ps = length (butlast (levels_from P ?hs))" by auto
  have d: "length leaves \<le> 2 ^ length ps" "1 < length leaves \<longrightarrow> 2 ^ length ps < 2 * length leaves"
    using levels_depth [of ?hs P] ne by (simp_all add: ps(4) del: length_butlast)
  have "merkle_proof_from_levels (build_merkle_levels P leaves) (int i) = Inr ps" using assms ps(1) by (simp add: merkle_proof_from_levels_def b)
  moreover have "verify_merkle_proof P (leaves ! i) j ps (merkle_root P leaves)" for j
    using assms ps(2) by (simp add: verify_merkle_proof_def merkle_root_def b)
  ultimately show ?thesis using d ps(3) by (auto simp: tree_sizes_def b merkle_proof_from_levels_def)
qed

text \<open>Some hash with 64 characters, for examples\<close>

definition padded_primitives :: primitives where
  "padded_primitives = \<lparr>sha256 = (\<lambda>s. (if length s < 64 then CHR ''0'' else CHR ''1'') # replicate 62 (CHR ''0'') @ take 1 (rev s @ ''0'')), nfc = (\<lambda>s. s)\<rparr>"

lemma padded_length: "length (sha256 padded_primitives s) = 64"
  by (simp add: padded_primitives_def)

theorem merkle_complete_witness:
  "\<exists>ps. merkle_proof_from_levels (build_merkle_levels padded_primitives [''a'', ''b'', ''c'']) 2 = Inr ps \<and> length ps = 2
     \<and> verify_merkle_proof padded_primitives ''c'' 2 ps (merkle_root padded_primitives [''a'', ''b'', ''c''])"
proof -
  have i: "2 < length [''a'', ''b'', ''c'']" by simp
  from merkle_complete [OF i, of padded_primitives] obtain ps where ps: "merkle_proof_from_levels (build_merkle_levels padded_primitives [''a'', ''b'', ''c'']) (int 2) = Inr ps"
    "\<forall>j. verify_merkle_proof padded_primitives ([''a'', ''b'', ''c''] ! 2) j ps (merkle_root padded_primitives [''a'', ''b'', ''c''])"
    "length [''a'', ''b'', ''c''] \<le> 2 ^ length ps" "(2 :: nat) ^ length ps < 2 * length [''a'', ''b'', ''c'']" by auto
  have "length ps = 2"
  proof (rule antisym)
    show "length ps \<le> 2" using ps(4) power_increasing [of 3 "length ps" "2 :: nat"] by (cases "3 \<le> length ps") auto
    show "2 \<le> length ps" using ps(3) power_increasing [of "length ps" 1 "2 :: nat"] by (cases "length ps \<le> 1") auto
  qed
  with ps(1,2) show ?thesis by auto
qed

subsection \<open>What a proof proves\<close>

text \<open>The texts that verifying a proof hashes, and those that building the tree hashed\<close>

fun climbed :: "primitives \<Rightarrow> string \<Rightarrow> pydict list \<Rightarrow> string list" where
  "climbed P current [] = []"
| "climbed P current (step # ps) =
     (let text = (if step_is_left step then step_sibling step @ current else current @ step_sibling step) in text # climbed P (sha256 P text) ps)"

fun paired :: "string list \<Rightarrow> string list" where
  "paired [] = []"
| "paired [l] = [l @ l]"
| "paired (l # r # hs) = (l @ r) # paired hs"

definition tree_texts :: "primitives \<Rightarrow> string list \<Rightarrow> string set" where
  "tree_texts P leaves = set leaves \<union> (\<Union>level \<in> set (butlast (build_merkle_levels P leaves)). set (paired level))"

lemma paired_nth:
  "i < (length hs + 1) div 2 \<Longrightarrow> paired hs ! i = hs ! (2 * i) @ hs ! min (length hs - 1) (2 * i + 1) \<and> i < length (paired hs)"
proof (induction hs arbitrary: i rule: paired.induct)
  case (3 l r hs)
  then show ?case
  proof (cases i)
    case (Suc j)
    then have "j < (length hs + 1) div 2" using 3(2) by simp
    then have "hs \<noteq> []" by (cases hs) auto
    then have "min (length (l # r # hs) - 1) (2 * i + 1) = Suc (Suc (min (length hs - 1) (2 * j + 1)))"
      by (cases hs) (simp_all add: Suc)
    then have "(l # r # hs) ! min (length (l # r # hs) - 1) (2 * i + 1) = hs ! min (length hs - 1) (2 * j + 1)"
      by (simp only: nth_Cons_Suc)
    then show ?thesis using "3.IH" [OF \<open>j < _\<close>] by (simp add: Suc)
  qed simp
qed simp_all

lemma next_level_paired: "next_level P hs = map (sha256 P) (paired hs)"
  by (induction P hs rule: next_level.induct) (simp_all add: hash_pair_def)

lemma climb_climbed: "climb P current (step # ps) = climb P (sha256 P (if step_is_left step then step_sibling step @ current else current @ step_sibling step)) ps"
  by (simp add: hash_pair_def)

lemma levels_sound:
  assumes "hs \<noteq> []" "\<forall>h \<in> set hs. length h = L" "\<forall>s. length (sha256 P s) = L" "length current = L"
    and "length ps = length (butlast (levels_from P hs))" "climb P current ps = hd (last (levels_from P hs))"
    and "\<forall>x \<in> set (climbed P current ps). \<forall>level \<in> set (butlast (levels_from P hs)). \<forall>y \<in> set (paired level). sha256 P x = sha256 P y \<longrightarrow> x = y"
  defines "p \<equiv> position (map length (butlast (levels_from P hs))) (map step_is_left ps)"
  shows "p < length hs \<and> current = hs ! p"
  using assms(1-7) unfolding p_def
proof (induction P hs arbitrary: current ps rule: levels_from.induct)
  case (1 P hs)
  show ?case
  proof (cases "1 < length hs")
    case True
    let ?up = "next_level P hs"
    note lv = levels_from_step [OF True, of P]
    obtain step qs where ps: "ps = step # qs" using "1.prems"(5) lv(1) by (cases ps) auto
    define tx where "tx = (if step_is_left step then step_sibling step @ current else current @ step_sibling step)"
    define q where "q = position (map length (butlast (levels_from P ?up))) (map step_is_left qs)"
    have c: "climb P (sha256 P tx) qs = hd (last (levels_from P ?up))" using "1.prems"(6) by (simp add: ps lv climb_climbed tx_def del: climb.simps)
    have t: "set (climbed P current ps) = insert tx (set (climbed P (sha256 P tx) qs))" by (simp add: ps Let_def tx_def)
    have up: "?up = map (sha256 P) (paired hs)" "length ?up = (length hs + 1) div 2" by (rule next_level_paired, rule length_next_level)
    have ne: "?up \<noteq> []" using True up(2) by (cases ?up) auto
    have "q < length ?up \<and> sha256 P tx = ?up ! q" unfolding q_def
      by (rule "1.IH" [OF True]) (use ne up "1.prems"(3,5,7) c t in \<open>auto simp: lv ps\<close>)
    then have q: "q < (length hs + 1) div 2" "sha256 P tx = next_level P hs ! q" using up(2) by simp_all
    then have q: "q < (length hs + 1) div 2" "sha256 P tx = sha256 P (paired hs ! q)" "paired hs ! q \<in> set (paired hs)"
      using up(1) paired_nth [OF q(1)] nth_mem [of q "paired hs"] by simp_all
    then have "tx = paired hs ! q" using "1.prems"(7) t by (auto simp: lv)
    then have cut: "tx = hs ! (2 * q) @ hs ! min (length hs - 1) (2 * q + 1)" using paired_nth [OF q(1)] by simp
    have b: "2 * q < length hs" "min (length hs - 1) (2 * q + 1) < length hs" using q(1) True by auto
    then have "length (hs ! (2 * q)) = L" "length (hs ! min (length hs - 1) (2 * q + 1)) = L" using "1.prems"(2) by auto
    then have "current = (if step_is_left step then hs ! min (length hs - 1) (2 * q + 1) else hs ! (2 * q))"
      using cut "1.prems"(4) by (auto simp: tx_def split: if_splits)
    moreover have "min (length hs - 1) (2 * q) = 2 * q" using b(1) by auto
    ultimately show ?thesis using b by (auto simp: ps lv q_def [symmetric])
  next
    case False
    then show ?thesis using "1.prems" by (cases hs) (auto simp: levels_from_single)
  qed
qed

text \<open>
  C29: an accepted proof of full depth proves membership at the position that its sides name, whatever the
  hashes a peer put into it, unless a tx hashed by the verification and a tx hashed for the tree
  are different with the same SHA-256; the index that is passed plays no part. Hashes have one length.
\<close>

theorem merkle_sound:
  assumes "\<forall>s. length (sha256 P s) = 64" "leaves \<noteq> []"
    and "verify_merkle_proof P v j ps (merkle_root P leaves)" "length ps = length (tree_sizes P leaves)"
  shows "(let p = position (tree_sizes P leaves) (map step_is_left ps) in p < length leaves \<and> leaves ! p = v)
    \<or> (\<exists>x \<in> insert v (set (climbed P (hash_leaf P v) ps)). \<exists>y \<in> tree_texts P leaves. x \<noteq> y \<and> sha256 P x = sha256 P y)"
proof (rule disjCI)
  let ?hs = "map (hash_leaf P) leaves" and ?p = "position (tree_sizes P leaves) (map step_is_left ps)"
  have b: "build_merkle_levels P leaves = levels_from P ?hs" using assms(2) by (simp add: build_merkle_levels_def)
  assume nc: "\<not> (\<exists>x \<in> insert v (set (climbed P (hash_leaf P v) ps)). \<exists>y \<in> tree_texts P leaves. x \<noteq> y \<and> sha256 P x = sha256 P y)"
  have "?p < length ?hs \<and> hash_leaf P v = ?hs ! ?p" unfolding tree_sizes_def b
  proof (rule levels_sound [where L = 64])
    show "climb P (hash_leaf P v) ps = hd (last (levels_from P ?hs))" using assms(3) by (simp add: verify_merkle_proof_def merkle_root_def b)
    show "length ps = length (butlast (levels_from P ?hs))" using assms(4) by (simp add: tree_sizes_def b del: length_butlast)
    show "\<forall>x \<in> set (climbed P (hash_leaf P v) ps). \<forall>level \<in> set (butlast (levels_from P ?hs)). \<forall>y \<in> set (paired level). sha256 P x = sha256 P y \<longrightarrow> x = y"
      using nc by (auto simp: tree_texts_def b)
  qed (use assms(1,2) in \<open>simp_all add: hash_leaf_def\<close>)
  then have p: "?p < length leaves" "sha256 P v = sha256 P (leaves ! ?p)" by (simp_all add: hash_leaf_def)
  then have "leaves ! ?p \<in> tree_texts P leaves" by (simp add: tree_texts_def)
  then have "v = leaves ! ?p" using nc p(2) by blast
  then show "let p = ?p in p < length leaves \<and> leaves ! p = v" using p(1) by (simp add: Let_def)
qed

lemma apart:
  fixes f :: "'a \<Rightarrow> 'b"
  shows "f a \<noteq> f b \<Longrightarrow> f x \<noteq> f a \<Longrightarrow> f x \<noteq> f b \<Longrightarrow> \<not> (\<exists>u \<in> insert b {x}. \<exists>y \<in> {a, b, x}. u \<noteq> y \<and> f u = f y)"
  by auto

theorem merkle_sound_witness:
  "\<exists>ps. verify_merkle_proof padded_primitives ''b'' 7 ps (merkle_root padded_primitives [''a'', ''b''])
     \<and> (let p = position (tree_sizes padded_primitives [''a'', ''b'']) (map step_is_left ps) in p < 2 \<and> [''a'', ''b''] ! p = ''b'')"
proof -
  let ?P = padded_primitives and ?ps = "[proof_step (hash_leaf padded_primitives ''a'') True]"
  have b: "build_merkle_levels ?P [''a'', ''b''] = [[hash_leaf ?P ''a'', hash_leaf ?P ''b''], [hash_pair ?P (hash_leaf ?P ''a'') (hash_leaf ?P ''b'')]]"
    by (simp add: build_merkle_levels_def levels_from.simps)
  have v: "verify_merkle_proof ?P ''b'' 7 ?ps (merkle_root ?P [''a'', ''b''])" by (simp add: verify_merkle_proof_def merkle_root_def b)
  have l: "length ?ps = length (tree_sizes ?P [''a'', ''b''])" by (simp add: tree_sizes_def b)
  have h: "\<forall>s. length (sha256 ?P s) = 64" by (simp add: padded_length)
  have tt: "tree_texts ?P [''a'', ''b''] = {''a'', ''b'', hash_leaf ?P ''a'' @ hash_leaf ?P ''b''}" by (auto simp: tree_texts_def b)
  have cc: "set (climbed ?P (hash_leaf ?P ''b'') ?ps) = {hash_leaf ?P ''a'' @ hash_leaf ?P ''b''}" by simp
  have ab: "sha256 ?P ''a'' \<noteq> sha256 ?P ''b''" by (simp add: padded_primitives_def)
  have inner: "sha256 ?P (hash_leaf ?P ''a'' @ hash_leaf ?P ''b'') \<noteq> sha256 ?P [c]" for c
  proof -
    have "hd (sha256 ?P s) = (if length s < 64 then CHR ''0'' else CHR ''1'')" for s by (simp add: padded_primitives_def)
    from this [of "hash_leaf ?P ''a'' @ hash_leaf ?P ''b''"] this [of "[c]"] show ?thesis by (auto simp: hash_leaf_def padded_length)
  qed
  have nc: "\<not> (\<exists>x \<in> insert ''b'' (set (climbed ?P (hash_leaf ?P ''b'') ?ps)). \<exists>y \<in> tree_texts ?P [''a'', ''b'']. x \<noteq> y \<and> sha256 ?P x = sha256 ?P y)"
    unfolding tt cc by (rule apart) (rule ab inner)+
  have "let p = position (tree_sizes ?P [''a'', ''b'']) (map step_is_left ?ps) in p < length [''a'', ''b''] \<and> [''a'', ''b''] ! p = ''b''"
    using merkle_sound [OF h _ v l] nc by blast
  then show ?thesis using v by (intro exI [of _ ?ps]) (simp add: numeral_2_eq_2)
qed

text \<open>
  What the proofs do not show. The index is not compared with the sides. An odd level with its last node
  repeated is the same level, so a chain with its last event twice has the same root. A shorter proof
  shows an inner node to be a leaf, since leaves and pairs are hashed alike.
\<close>

lemma index_not_bound: "verify_merkle_proof P v i ps r \<longleftrightarrow> verify_merkle_proof P v j ps r"
  by (simp add: verify_merkle_proof_def)

lemma next_level_repeat: "odd (length hs) \<Longrightarrow> next_level P (hs @ [last hs]) = next_level P hs"
proof (induction P hs rule: next_level.induct)
  case (3 P l r hs)
  then have "hs \<noteq> []" by auto
  then show ?case using 3 by simp
qed simp_all

lemma repeated_last_leaf_same_root:
  assumes "odd (length leaves)" "1 < length leaves" shows "merkle_root P (leaves @ [last leaves]) = merkle_root P leaves"
proof -
  let ?hs = "map (hash_leaf P) leaves"
  have ne: "leaves \<noteq> []" using assms by auto
  have "next_level P (?hs @ [last ?hs]) = next_level P ?hs" by (rule next_level_repeat) (simp add: assms)
  then have "last (levels_from P (?hs @ [last ?hs])) = last (levels_from P ?hs)"
    using levels_from_step(2) [of "?hs @ [last ?hs]" P] levels_from_step(2) [of ?hs P] assms by (simp only: length_append length_map)
  then show ?thesis using ne by (simp add: merkle_root_def build_merkle_levels_def last_map)
qed

lemma inner_node_accepted:
  "verify_merkle_proof P (hash_leaf P a @ hash_leaf P b) j [] (merkle_root P [a, b])"
  by (simp add: verify_merkle_proof_def merkle_root_def build_merkle_levels_def levels_from.simps hash_pair_def hash_leaf_def)
end
