(* ===== verification/Ibf.thy ===== *)
theory Ibf
  imports Function_Keys "HOL-Library.Multiset"
begin

text \<open>
  \<open>services/mesh/mesh_ibf.py\<close>: the invertible Bloom lookup tables two nodes compare to find which events
  each of them lacks, and the minhash sketches they compare first. Keyed BLAKE2b with 8 bytes of digest
  is the parameter \<open>B\<close>, taking the key and the data.
\<close>

subsection \<open>The code: hashes and cells\<close>

type_synonym blake = "bytes \<Rightarrow> bytes \<Rightarrow> bytes"

definition key_size :: nat where
  "key_size = 32"

definition default_seeds :: "pyval list" where
  "default_seeds = [PInt 0x243F6A8885A308D3, PInt 0x13198A2E03707344, PInt 0xA4093822299F31D0]"

definition fingerprint_seed :: int where
  "fingerprint_seed = 0xC0FFEE1234567890"

text \<open>\<open>int.from_bytes(bs, "little")\<close> and \<open>n.to_bytes(8, "little")\<close>\<close>

fun from_bytes :: "bytes \<Rightarrow> int" where
  "from_bytes [] = 0"
| "from_bytes (b # bs) = uint b + 256 * from_bytes bs"

definition little_endian :: "int \<Rightarrow> bytes" where
  "little_endian n = map (\<lambda>i. word_of_int (n div 256 ^ i)) [0..<8]"

definition to_bytes :: "int \<Rightarrow> bytes res" where
  "to_bytes n = (if 0 \<le> n \<and> n < 2 ^ 64 then Inr (little_endian n) else Inl OverflowError)"

text \<open>The seeds of a received table are whatever the peer sent: only ints and bools have \<open>to_bytes\<close>.\<close>

fun seed_bytes :: "pyval \<Rightarrow> bytes res" where
  "seed_bytes (PInt n) = to_bytes n"
| "seed_bytes (PBool b) = to_bytes (if b then 1 else 0)"
| "seed_bytes _ = Inl AttributeError"

definition hash64 :: "blake \<Rightarrow> bytes \<Rightarrow> pyval \<Rightarrow> int res" where
  "hash64 B data seed = bnd (seed_bytes seed) (\<lambda>key. Inr (from_bytes (B key data)))"

definition fingerprint :: "blake \<Rightarrow> bytes \<Rightarrow> int" where
  "fingerprint B data = from_bytes (B (little_endian fingerprint_seed) data)"

definition xor_bytes :: "bytes \<Rightarrow> bytes \<Rightarrow> bytes" where
  "xor_bytes a b = map2 xor a b"

definition ensure_key :: "bytes \<Rightarrow> bytes res" where
  "ensure_key key = (if length key \<noteq> key_size then Inl ValueError else Inr key)"

record iblt_cell =
  ce_count :: int
  ce_key_xor :: bytes
  ce_hash_xor :: int

definition empty_cell :: iblt_cell where
  "empty_cell = \<lparr>ce_count = 0, ce_key_xor = replicate key_size 0, ce_hash_xor = 0\<rparr>"

definition add_key :: "blake \<Rightarrow> bytes \<Rightarrow> int \<Rightarrow> iblt_cell \<Rightarrow> iblt_cell" where
  "add_key B key sign c =
     \<lparr>ce_count = ce_count c + sign, ce_key_xor = xor_bytes (ce_key_xor c) key, ce_hash_xor = xor (ce_hash_xor c) (fingerprint B key)\<rparr>"

subsection \<open>The code: tables\<close>

record iblt =
  ib_size :: int
  ib_seeds :: "pyval list"
  ib_cells :: "iblt_cell list"

definition new_iblt :: "int \<Rightarrow> pyval list \<Rightarrow> iblt res" where
  "new_iblt n seeds =
     (if n \<le> 0 then Inl ValueError
      else Inr \<lparr>ib_size = n, ib_seeds = (if seeds = [] then default_seeds else seeds), ib_cells = replicate (nat n) empty_cell\<rparr>)"

definition indexes :: "blake \<Rightarrow> iblt \<Rightarrow> bytes \<Rightarrow> nat list res" where
  "indexes B t key = bnd (ensure_key key) (\<lambda>k. mapres (\<lambda>seed. bnd (hash64 B k seed) (\<lambda>h. Inr (nat (h mod ib_size t)))) (ib_seeds t))"

definition update_cell :: "nat \<Rightarrow> (iblt_cell \<Rightarrow> iblt_cell) \<Rightarrow> iblt_cell list \<Rightarrow> iblt_cell list res" where
  "update_cell i f cells = (if i < length cells then Inr (cells[i := f (cells ! i)]) else Inl IndexError)"

definition add_everywhere :: "blake \<Rightarrow> bytes \<Rightarrow> int \<Rightarrow> iblt \<Rightarrow> iblt res" where
  "add_everywhere B key sign t =
     bnd (ensure_key key) (\<lambda>k. bnd (indexes B t k) (\<lambda>is.
       bnd (foldres (\<lambda>i. update_cell i (add_key B k sign)) is (ib_cells t)) (\<lambda>cells. Inr (t\<lparr>ib_cells := cells\<rparr>))))"

definition insert_key :: "blake \<Rightarrow> bytes \<Rightarrow> iblt \<Rightarrow> iblt res" where
  "insert_key B key t = add_everywhere B key 1 t"

definition delete_key :: "blake \<Rightarrow> bytes \<Rightarrow> iblt \<Rightarrow> iblt res" where
  "delete_key B key t = add_everywhere B key (- 1) t"

definition subtract_cell :: "iblt_cell \<Rightarrow> iblt_cell \<Rightarrow> iblt_cell" where
  "subtract_cell c d =
     \<lparr>ce_count = ce_count c - ce_count d, ce_key_xor = xor_bytes (ce_key_xor c) (ce_key_xor d), ce_hash_xor = xor (ce_hash_xor c) (ce_hash_xor d)\<rparr>"

text \<open>Seeds are compared as numbers, which decides it since a node's own seeds are ints.\<close>

definition subtract :: "iblt \<Rightarrow> iblt \<Rightarrow> iblt res" where
  "subtract a b =
     (if ib_size a \<noteq> ib_size b \<or> \<not> list_all2 py_eq (ib_seeds a) (ib_seeds b) then Inl ValueError
      else bnd (new_iblt (ib_size a) (ib_seeds a)) (\<lambda>out.
        if length (ib_cells b) < length (ib_cells a) \<or> length (ib_cells out) < length (ib_cells a) then Inl IndexError
        else Inr (out\<lparr>ib_cells := map2 subtract_cell (ib_cells a) (ib_cells b) @ drop (length (ib_cells a)) (ib_cells out)\<rparr>)))"

definition build_iblt :: "blake \<Rightarrow> bytes list \<Rightarrow> int \<Rightarrow> iblt res" where
  "build_iblt B keys n = bnd (new_iblt n []) (foldres (insert_key B) keys)"

subsection \<open>The code: decoding\<close>

text \<open>
  The variables of \<open>decode\<close>: the cells of the table, the two lists of keys, and the stack of cells to look
  at, its top first.
\<close>

record decode_state =
  de_cells :: "iblt_cell list"
  de_plus :: "bytes list"
  de_minus :: "bytes list"
  de_stack :: "nat list"

definition peel_other :: "blake \<Rightarrow> bytes \<Rightarrow> int \<Rightarrow> nat \<Rightarrow> nat \<Rightarrow> decode_state \<Rightarrow> decode_state res" where
  "peel_other B key sign idx j st =
     (if j = idx then Inr st
      else bnd (update_cell j (add_key B key (- sign)) (de_cells st)) (\<lambda>cells.
        Inr (st\<lparr>de_cells := cells, de_stack := (if \<bar>ce_count (cells ! j)\<bar> = 1 then j # de_stack st else de_stack st)\<rparr>)))"

definition decode_step :: "blake \<Rightarrow> iblt \<Rightarrow> nat \<Rightarrow> nat list \<Rightarrow> decode_state \<Rightarrow> decode_state res" where
  "decode_step B t idx rest st0 =
     (let st = st0\<lparr>de_stack := rest\<rparr> in
      if length (de_cells st) \<le> idx then Inl IndexError
      else let cell = de_cells st ! idx in
        if \<bar>ce_count cell\<bar> \<noteq> 1 then Inr st
        else let key = ce_key_xor cell in
          if fingerprint B key \<noteq> ce_hash_xor cell then Inr st
          else let sign = (if ce_count cell = 1 then 1 else - 1);
                   st = (if sign = 1 then st\<lparr>de_plus := de_plus st @ [key]\<rparr> else st\<lparr>de_minus := de_minus st @ [key]\<rparr>) in
            bnd (indexes B t key) (\<lambda>is.
              bnd (foldres (peel_other B key sign idx) is st) (\<lambda>st.
                bnd (update_cell idx (\<lambda>_. empty_cell) (de_cells st)) (\<lambda>cells. Inr (st\<lparr>de_cells := cells\<rparr>)))))"

text \<open>The loop: \<^const>\<open>None\<close> if it never ends\<close>

partial_function (option) decode_loop :: "blake \<Rightarrow> iblt \<Rightarrow> decode_state \<Rightarrow> decode_state res option" where
  "decode_loop B t st = (case de_stack st of
       [] \<Rightarrow> Some (Inr st)
     | idx # rest \<Rightarrow> (case decode_step B t idx rest st of Inl e \<Rightarrow> Some (Inl e) | Inr st' \<Rightarrow> decode_loop B t st'))"

definition decode_start :: "iblt \<Rightarrow> decode_state" where
  "decode_start t = \<lparr>de_cells = ib_cells t, de_plus = [], de_minus = [],
     de_stack = rev (filter (\<lambda>i. \<bar>ce_count (ib_cells t ! i)\<bar> = 1) [0..<length (ib_cells t)])\<rparr>"

definition cell_is_empty :: "iblt_cell \<Rightarrow> bool" where
  "cell_is_empty c \<longleftrightarrow> ce_count c = 0 \<and> ce_hash_xor c = 0 \<and> ce_key_xor c = replicate key_size 0"

text \<open>The result is success and the keys only here, only there; the table is left with the final cells.\<close>

definition decode :: "blake \<Rightarrow> iblt \<Rightarrow> ((bool \<times> bytes list \<times> bytes list) \<times> iblt) res option" where
  "decode B t = map_option (\<lambda>r. bnd r (\<lambda>st.
     Inr ((list_all cell_is_empty (de_cells st), de_plus st, de_minus st), t\<lparr>ib_cells := de_cells st\<rparr>))) (decode_loop B t (decode_start t))"

subsection \<open>The code: sketches\<close>

definition minhash_seed :: int where
  "minhash_seed = 0x9E3779B97F4A7C15"

definition sketch_step :: "int \<Rightarrow> int \<Rightarrow> int list \<Rightarrow> int list" where
  "sketch_step k h mins =
     (if int (length mins) < k then sort (mins @ [h])
      else if h < last mins then sort (butlast mins @ [h]) else mins)"

definition minhash_sketch :: "blake \<Rightarrow> bytes list \<Rightarrow> int \<Rightarrow> int list res" where
  "minhash_sketch B keys k =
     (if k \<le> 0 then Inr [] else foldres (\<lambda>key mins. bnd (hash64 B key (PInt minhash_seed)) (\<lambda>h. Inr (sketch_step k h mins))) keys [])"

definition minhash_similarity :: "int list \<Rightarrow> int list \<Rightarrow> pyfloat res" where
  "minhash_similarity a b =
     (if a = [] \<or> b = [] then Inr (Fin 0)
      else let k = min (length a) (length b) in
        if k \<le> 0 then Inr (Fin 0)
        else bnd (float_of_int (int k)) (\<lambda>d. bnd (float_of_int (int (card (set (take k a) \<inter> set (take k b))))) (\<lambda>n. fdiv n d)))"

subsection \<open>A sketch holds the smallest hashes\<close>

lemma take_sort_snoc:
  fixes s :: "int list"
  assumes "sorted s" "0 < n" "n \<le> length s"
  shows "take n (sort (s @ [h])) = (if h < last (take n s) then sort (butlast (take n s) @ [h]) else take n s)"
proof -
  let ?m = "take n s" and ?r = "drop n s"
  have ne: "?m \<noteq> []" using assms by auto
  have split: "?m @ ?r = s" by simp
  then have "sorted (?m @ ?r)" using assms(1) by simp
  then have s: "sorted ?m" "sorted ?r" "\<forall>x \<in> set ?m. \<forall>y \<in> set ?r. x \<le> y" unfolding sorted_append by blast+
  have "sorted (butlast ?m @ [last ?m])" using s(1) append_butlast_last_id [OF ne] by simp
  then have bl: "\<forall>x \<in> set (butlast ?m). x \<le> last ?m" unfolding sorted_append by simp
  have "set ?m = insert (last ?m) (set (butlast ?m))" using arg_cong [OF append_butlast_last_id [OF ne], of set] by simp
  then have ml: "\<forall>x \<in> set ?m. x \<le> last ?m" using bl by simp
  have lm: "last ?m \<in> set ?m" using ne by (rule last_in_set)
  show ?thesis
  proof (cases "h < last ?m")
    case True
    have "sort (s @ [h]) = sort (butlast ?m @ [h]) @ last ?m # ?r"
    proof (rule properties_for_sort)
      have "mset s = mset (butlast ?m @ [last ?m]) + mset ?r" unfolding append_butlast_last_id [OF ne] mset_append [symmetric] split ..
      then show "mset (sort (butlast ?m @ [h]) @ last ?m # ?r) = mset (s @ [h])" by simp
      have "\<forall>x \<in> set (butlast ?m @ [h]). x \<le> last ?m" using True bl by simp
      moreover have "\<forall>y \<in> set ?r. last ?m \<le> y" using s(3) lm by blast
      ultimately show "sorted (sort (butlast ?m @ [h]) @ last ?m # ?r)" using s(2) by (auto simp: sorted_append simp del: set_take_subset intro: order_trans)
    qed
    then show ?thesis using True assms by simp
  next
    case False
    have "sort (s @ [h]) = ?m @ sort (?r @ [h])"
    proof (rule properties_for_sort)
      have "mset s = mset ?m + mset ?r" unfolding mset_append [symmetric] split ..
      then show "mset (?m @ sort (?r @ [h])) = mset (s @ [h])" by simp
      have "\<forall>x \<in> set ?m. x \<le> h" using ml False by auto
      then show "sorted (?m @ sort (?r @ [h]))" using s(1,3) by (auto simp: sorted_append)
    qed
    then show ?thesis using False assms by simp
  qed
qed

text \<open>
  What the bounded loop of \<open>minhash_sketch\<close> computes: the \<open>k\<close> smallest hashes of the keys, sorted, with
  repetitions; so it does not depend on the order of the keys, and all of them if there are fewer.
\<close>

theorem minhash_sketch_smallest:
  "minhash_sketch B keys k = Inr (take (nat k) (sort (map (\<lambda>key. from_bytes (B (little_endian minhash_seed) key)) keys)))"
proof (cases "k \<le> 0")
  case False
  let ?h = "\<lambda>key. from_bytes (B (little_endian minhash_seed) key)"
  have h: "hash64 B key (PInt minhash_seed) = Inr (?h key)" for key by (simp add: hash64_def to_bytes_def minhash_seed_def)
  have f: "fold (\<lambda>key. sketch_step k (?h key)) keys [] = take (nat k) (sort (map ?h keys))"
  proof (induction keys rule: rev_induct)
    case (snoc key keys)
    let ?s = "sort (map ?h keys)" and ?n = "nat k"
    have e: "sort (map ?h keys @ [?h key]) = sort (?s @ [?h key])" by (rule properties_for_sort) simp_all
    show ?case
    proof (cases "int (length keys) < k")
      case True
      then show ?thesis using snoc by (simp add: e sketch_step_def)
    next
      case f: False
      then have "?n \<le> length ?s" "0 < ?n" using \<open>\<not> k \<le> 0\<close> by simp_all
      then show ?thesis using snoc take_sort_snoc [of ?s ?n "?h key"] f by (simp add: e sketch_step_def)
    qed
  qed simp
  show ?thesis using False f by (simp add: minhash_sketch_def foldres_total [of keys _ "\<lambda>key. sketch_step k (?h key)"] h)
qed (simp add: minhash_sketch_def)

subsection \<open>A table that decoding never leaves\<close>

lemma xor_bytes_same [simp]: "xor_bytes k k = replicate (length k) 0"
  by (simp add: xor_bytes_def zip_same_conv_map map_replicate_const o_def)

lemma xor_bytes_zero [simp]: "length k = n \<Longrightarrow> xor_bytes (replicate n 0) k = k" "length k = n \<Longrightarrow> xor_bytes k (replicate n 0) = k"
  by (auto simp: xor_bytes_def list_eq_iff_nth_eq)

lemma indexes_bound:
  assumes "indexes B t key = Inr is" "0 < ib_size t" "length (ib_cells t) = nat (ib_size t)" "i \<in> set is" shows "i < length (ib_cells t)"
proof -
  obtain ms where "mapres (\<lambda>seed. bnd (hash64 B key seed) (\<lambda>h. Inr (nat (h mod ib_size t)))) (ib_seeds t) = Inr is"
    using assms(1) by (auto simp: indexes_def ensure_key_def bnd_eq_Inr split: if_splits)
  from mapres_source [OF this assms(4)] obtain h where "i = nat (h mod ib_size t)" by (auto simp: bnd_eq_Inr)
  then show ?thesis using assms(2,3) by (simp add: nat_less_iff)
qed

text \<open>A cell with one key, and a table with nothing else\<close>

definition single :: "blake \<Rightarrow> bytes \<Rightarrow> int \<Rightarrow> iblt_cell" where
  "single B key sign = \<lparr>ce_count = sign, ce_key_xor = key, ce_hash_xor = fingerprint B key\<rparr>"

lemma single_algebra:
  assumes "length key = key_size"
  shows "add_key B key s empty_cell = single B key s" "add_key B key (- s) (single B key s) = empty_cell" "add_key B key s (single B key (- s)) = empty_cell"
  using assms by (simp_all add: add_key_def single_def empty_cell_def)

lemma cell_counts [simp]: "ce_count (single B key s) = s" "ce_count empty_cell = 0"
  by (simp_all add: single_def empty_cell_def)

text \<open>
  Looking at the first cell of a lone key moves it, negated, to the key's two other cells; looking at
  the last of them moves it back.
\<close>

definition lone_key :: "blake \<Rightarrow> bytes \<Rightarrow> nat \<Rightarrow> nat \<Rightarrow> nat \<Rightarrow> nat \<Rightarrow> iblt_cell list \<Rightarrow> nat list \<Rightarrow> bool" where
  "lone_key B key n a b c cells stack \<longleftrightarrow> stack \<noteq> []
     \<and> (hd stack = a \<and> cells = (replicate n empty_cell)[a := single B key 1]
      \<or> hd stack = c \<and> cells = (replicate n empty_cell)[b := single B key (- 1), c := single B key (- 1)])"

lemma replicate_update [simp]: "(replicate n x)[i := x] = replicate n x"
  by (cases "i < n") (simp_all add: list_eq_iff_nth_eq nth_list_update)

lemma lone_key_step:
  assumes "lone_key B key n a b c (de_cells st) (idx # rest)" "indexes B t key = Inr [a, b, c]" "distinct [a, b, c]"
    "a < n" "b < n" "c < n" "length key = key_size"
  shows "\<exists>st'. decode_step B t idx rest st = Inr st' \<and> lone_key B key n a b c (de_cells st') (de_stack st')"
proof -
  consider "idx = a" "de_cells st = (replicate n empty_cell)[a := single B key 1]"
    | "idx = c" "de_cells st = (replicate n empty_cell)[b := single B key (- 1), c := single B key (- 1)]"
    using assms(1) by (auto simp: lone_key_def)
  then show ?thesis
  proof cases
    case 1
    have f: "foldres (peel_other B key 1 a) [a, b, c] (st\<lparr>de_stack := rest, de_plus := de_plus st @ [key]\<rparr>)
        = Inr (st\<lparr>de_cells := (replicate n empty_cell)[a := single B key 1, b := single B key (- 1), c := single B key (- 1)],
                  de_stack := c # b # rest, de_plus := de_plus st @ [key]\<rparr>)"
      using assms(3-7) by (simp add: peel_other_def update_cell_def 1 single_algebra nth_list_update)
    show ?thesis using assms(2-6) f
      by (simp add: decode_step_def Let_def 1 nth_list_update)
         (simp add: single_def update_cell_def lone_key_def list_update_swap)
  next
    case 2
    have f: "foldres (peel_other B key (- 1) c) [a, b, c] (st\<lparr>de_stack := rest, de_minus := de_minus st @ [key]\<rparr>)
        = Inr (st\<lparr>de_cells := (replicate n empty_cell)[b := single B key (- 1), c := single B key (- 1), a := single B key 1, b := empty_cell],
                  de_stack := a # rest, de_minus := de_minus st @ [key]\<rparr>)"
      using assms(3-7) single_algebra(1) [of key B 1] single_algebra(2) [of key B "- 1"]
      by (simp add: peel_other_def update_cell_def 2 nth_list_update)
    have e: "(replicate n empty_cell)[b := x, c := y, a := z, b := empty_cell, c := empty_cell] = (replicate n empty_cell)[a := z]" for x y z
      using assms(3-6) by (auto simp: list_eq_iff_nth_eq nth_list_update)
    show ?thesis using assms(2-6) f e
      by (simp add: decode_step_def Let_def 2 nth_list_update)
         (simp add: single_def update_cell_def lone_key_def)
  qed
qed

lemma lone_key_forever:
  assumes "indexes B t key = Inr [a, b, c]" "distinct [a, b, c]" "a < n" "b < n" "c < n" "length key = key_size"
    and "lone_key B key n a b c (de_cells st) (de_stack st)"
  shows "decode_loop B t st = None"
proof -
  let ?I = "\<lambda>st. lone_key B key n a b c (de_cells st) (de_stack st)"
  have "B' = B \<longrightarrow> t' = t \<longrightarrow> \<not> ?I st" if "decode_loop B' t' st = Some r" for B' t' st r
    using that
  proof (rule decode_loop.raw_induct [where P = "\<lambda>B' t' st _. B' = B \<longrightarrow> t' = t \<longrightarrow> \<not> ?I st", rotated])
    fix loop B' t' st r
    assume ih: "\<And>B' t' st r. loop B' t' st = Some r \<Longrightarrow> B' = B \<longrightarrow> t' = t \<longrightarrow> \<not> ?I st"
      and body: "(case de_stack st of [] \<Rightarrow> Some (Inr st)
        | idx # rest \<Rightarrow> (case decode_step B' t' idx rest st of Inl e \<Rightarrow> Some (Inl e) | Inr st' \<Rightarrow> loop B' t' st')) = Some r"
    show "B' = B \<longrightarrow> t' = t \<longrightarrow> \<not> ?I st"
    proof (intro impI notI)
      assume eq: "B' = B" "t' = t" and i: "?I st"
      then obtain idx rest where st: "de_stack st = idx # rest" by (cases "de_stack st") (auto simp: lone_key_def)
      with i have "lone_key B key n a b c (de_cells st) (idx # rest)" by simp
      from lone_key_step [OF this assms(1-6)] obtain st' where "decode_step B t idx rest st = Inr st'" "?I st'" by blast
      then show False using ih [of B t st' r] body by (simp add: st eq)
    qed
  qed
  from this [of B t st] assms(7) show ?thesis by (cases "decode_loop B t st") auto
qed

lemma lone_table_diverges:
  assumes "indexes B t key = Inr [a, b, c]" "distinct [a, b, c]" "length key = key_size" "a < n" "b < n" "c < n"
    and "ib_cells t = (replicate n empty_cell)[a := single B key 1]"
  shows "decode B t = None"
proof -
  have "filter (\<lambda>i. \<bar>ce_count (ib_cells t ! i)\<bar> = 1) [0..<n] = filter (\<lambda>i. i = a) [0..<n]"
    by (rule filter_cong) (use assms(4,7) in \<open>auto simp: nth_list_update\<close>)
  also have "\<dots> = [a]" using assms(4) by (induction n) auto
  finally have "de_stack (decode_start t) = [a]" by (simp add: decode_start_def assms(7))
  then have "lone_key B key n a b c (de_cells (decode_start t)) (de_stack (decode_start t))" by (simp add: lone_key_def decode_start_def assms(7))
  then show ?thesis using lone_key_forever [OF assms(1,2,4-6,3)] by (simp add: decode_def)
qed

text \<open>A table that nodes build or receive in full: as many cells as its size, each with a 32-byte sum\<close>

definition well_sized :: "iblt \<Rightarrow> bool" where
  "well_sized t \<longleftrightarrow> 0 < ib_size t \<and> ib_seeds t \<noteq> [] \<and> length (ib_cells t) = nat (ib_size t) \<and> (\<forall>c \<in> set (ib_cells t). length (ce_key_xor c) = key_size)"

definition sum_cell :: "iblt_cell \<Rightarrow> iblt_cell \<Rightarrow> iblt_cell" where
  "sum_cell c d = \<lparr>ce_count = ce_count c + ce_count d, ce_key_xor = xor_bytes (ce_key_xor c) (ce_key_xor d), ce_hash_xor = xor (ce_hash_xor c) (ce_hash_xor d)\<rparr>"

lemma xor_bytes_cancel: "length x = length y \<Longrightarrow> xor_bytes (xor_bytes x y) y = x"
  by (auto simp: xor_bytes_def list_eq_iff_nth_eq xor.assoc)

lemma subtract_sum: "length (ce_key_xor c) = length (ce_key_xor d) \<Longrightarrow> subtract_cell (sum_cell c d) d = c"
  by (simp add: subtract_cell_def sum_cell_def xor_bytes_cancel xor.assoc)

lemma usable_seeds: "indexes B t key = Inr is \<Longrightarrow> list_all2 py_eq (ib_seeds t) (ib_seeds t)"
proof -
  assume "indexes B t key = Inr is"
  then have "mapres (\<lambda>seed. bnd (hash64 B key seed) (\<lambda>h. Inr (nat (h mod ib_size t)))) (ib_seeds t) = Inr is"
    by (auto simp: indexes_def ensure_key_def split: if_splits)
  then have "\<forall>s \<in> set (ib_seeds t). py_eq s s"
  proof (intro ballI)
    fix s assume "mapres (\<lambda>seed. bnd (hash64 B key seed) (\<lambda>h. Inr (nat (h mod ib_size t)))) (ib_seeds t) = Inr is" "s \<in> set (ib_seeds t)"
    from mapres_target [OF this] obtain bs where "seed_bytes s = Inr bs" by (auto simp: hash64_def bnd_eq_Inr)
    then show "py_eq s s" by (cases s) (simp_all add: py_eq_def)
  qed
  then show ?thesis by (simp add: list_all2_same)
qed

text \<open>
  C31: one received table stops a node for good. Whatever table a node built of its own events, there is a
  table of the same shape, all of whose cells a peer can send, such that decoding the difference, which
  the node does while handling the peer's message, never ends; all it takes is one 32-byte key
  whose three cells are distinct.
\<close>

theorem decode_may_never_return:
  assumes "well_sized t" "indexes B t key = Inr [a, b, c]" "distinct [a, b, c]"
  shows "\<exists>remote diff. well_sized remote \<and> ib_size remote = ib_size t \<and> ib_seeds remote = ib_seeds t
    \<and> subtract remote t = Inr diff \<and> decode B diff = None"
proof -
  let ?n = "nat (ib_size t)"
  let ?lone = "(replicate ?n empty_cell)[a := single B key 1]"
  have k: "length key = key_size" using assms(2) by (auto simp: indexes_def ensure_key_def split: if_splits)
  have w: "0 < ib_size t" "ib_seeds t \<noteq> []" "length (ib_cells t) = ?n" "\<forall>c \<in> set (ib_cells t). length (ce_key_xor c) = key_size"
    using assms(1) by (simp_all add: well_sized_def)
  have i: "a < ?n" "b < ?n" "c < ?n" using indexes_bound [OF assms(2) w(1,3)] w(3) by simp_all
  define remote where "remote = t\<lparr>ib_cells := map2 sum_cell ?lone (ib_cells t)\<rparr>"
  define diff where "diff = t\<lparr>ib_cells := ?lone\<rparr>"
  have len: "length (ce_key_xor (?lone ! j)) = key_size" if "j < ?n" for j
    using that k i by (cases "j = a") (simp_all add: nth_list_update empty_cell_def single_def)
  have kl: "length (ce_key_xor (ib_cells t ! j)) = key_size" if "j < ?n" for j using that w(3,4) by simp
  have "map2 subtract_cell (ib_cells remote) (ib_cells t) = ?lone"
    by (rule nth_equalityI) (simp_all add: remote_def w(3) subtract_sum len kl)
  then have s: "subtract remote t = Inr diff" using w usable_seeds [OF assms(2)] by (simp add: subtract_def new_iblt_def remote_def diff_def)
  have "well_sized remote"
    using w len kl by (auto simp: well_sized_def remote_def sum_cell_def in_set_conv_nth xor_bytes_def)
  moreover have "decode B diff = None"
    by (rule lone_table_diverges [where n = ?n and key = key and a = a and b = b and c = c]) (use assms(2,3) k i in \<open>simp_all add: diff_def indexes_def\<close>)
  ultimately show ?thesis using s by (intro exI [of _ remote] exI [of _ diff]) (simp add: remote_def)
qed

theorem decode_may_never_return_witness:
  "\<exists>t remote diff. new_iblt 16 [] = Inr t \<and> subtract remote t = Inr diff \<and> decode (\<lambda>key data. take 1 key) diff = None"
proof -
  define t where "t = \<lparr>ib_size = 16, ib_seeds = default_seeds, ib_cells = replicate 16 empty_cell\<rparr>"
  have n: "new_iblt 16 [] = Inr t" by (simp add: new_iblt_def t_def)
  have w: "well_sized t" by (simp add: well_sized_def t_def default_seeds_def empty_cell_def)
  have i: "indexes (\<lambda>key data. take 1 key) \<lparr>ib_size = 16, ib_seeds = default_seeds, ib_cells = replicate 16 empty_cell\<rparr> (replicate 32 0) = Inr [3, 4, 0]"
    by code_simp
  have d: "distinct [3, 4, 0 :: nat]" by simp
  from decode_may_never_return [OF w i [folded t_def] d] n show ?thesis by blast
qed
end
