(* ===== verification/Ibf_Decode.thy ===== *)
theory Ibf_Decode
  imports Ibf
begin

text \<open>
  What the tables of \<open>services/mesh/mesh_ibf.py\<close> are for: a table of inserted keys is the sum of its keys,
  the difference of two nodes' tables is the signed sum of the keys only one of them has, and decoding
  that difference ends and returns those keys.
\<close>

subsection \<open>Cells as signed sums of keys\<close>

lemma length_xor_bytes [simp]: "length (xor_bytes x y) = min (length x) (length y)"
  by (simp add: xor_bytes_def)

lemma xor_bytes_assoc: "xor_bytes (xor_bytes x y) z = xor_bytes x (xor_bytes y z)"
  by (rule nth_equalityI) (simp_all add: xor_bytes_def xor.assoc)

lemma xor_bytes_commute: "xor_bytes x y = xor_bytes y x"
  by (rule nth_equalityI) (simp_all add: xor_bytes_def xor.commute)

lemma xor_bytes_swap: "xor_bytes (xor_bytes x y) z = xor_bytes (xor_bytes x z) y"
  by (simp add: xor_bytes_assoc xor_bytes_commute [of y z])

lemma add_key_commute: "add_key B k s (add_key B k' s' c) = add_key B k' s' (add_key B k s c)"
  by (simp add: add_key_def xor_bytes_swap xor.assoc xor.commute [of "fingerprint B k"])

lemma add_key_undo: "length (ce_key_xor c) = length k \<Longrightarrow> add_key B k (- s) (add_key B k s c) = c"
  by (simp add: add_key_def xor_bytes_cancel xor.assoc)

lemma subtract_add_left: "subtract_cell (add_key B k s c) d = add_key B k s (subtract_cell c d)"
  by (simp add: subtract_cell_def add_key_def xor_bytes_swap xor.assoc xor.commute [of "fingerprint B k"])

lemma subtract_add_right: "subtract_cell c (add_key B k s d) = add_key B k (- s) (subtract_cell c d)"
  by (simp add: subtract_cell_def add_key_def xor_bytes_assoc xor.assoc)

definition hits :: "blake \<Rightarrow> iblt \<Rightarrow> bytes \<Rightarrow> nat \<Rightarrow> nat" where
  "hits B t key i = (case indexes B t key of Inr is \<Rightarrow> count_list is i | Inl _ \<Rightarrow> 0)"

fun put :: "blake \<Rightarrow> iblt \<Rightarrow> nat \<Rightarrow> bytes \<times> int \<Rightarrow> iblt_cell \<Rightarrow> iblt_cell" where
  "put B t i (k, s) = (add_key B k s ^^ hits B t k i)"

definition sum_of :: "blake \<Rightarrow> iblt \<Rightarrow> (bytes \<times> int) list \<Rightarrow> nat \<Rightarrow> iblt_cell" where
  "sum_of B t D i = fold (put B t i) D empty_cell"

lemma put_commute: "put B t i d \<circ> put B t i d' = put B t i d' \<circ> put B t i d"
proof -
  obtain k s k' s' where d: "d = (k, s)" "d' = (k', s')" by (cases d; cases d') auto
  have 1: "add_key B k s ((add_key B k' s' ^^ n) c) = (add_key B k' s' ^^ n) (add_key B k s c)" for n c
    by (induction n) (simp_all add: add_key_commute [of B k s k' s'])
  have "(add_key B k s ^^ m) ((add_key B k' s' ^^ n) c) = (add_key B k' s' ^^ n) ((add_key B k s ^^ m) c)" for m n c
    by (induction m) (simp_all add: 1)
  then show ?thesis by (simp add: d fun_eq_iff)
qed

lemma sum_of_perm: "mset D = mset E \<Longrightarrow> sum_of B t D i = sum_of B t E i"
  unfolding sum_of_def by (metis fold_multiset_equiv put_commute)

lemma good_sum: "\<forall>(k, s) \<in> set D. length k = key_size \<Longrightarrow> length (ce_key_xor (sum_of B t D i)) = key_size"
proof -
  have 1: "length (ce_key_xor ((add_key B k s ^^ n) c)) = key_size" if "length (ce_key_xor c) = key_size" "length k = key_size" for k s n c
    using that by (induction n) (simp_all add: add_key_def)
  have "\<forall>(k, s) \<in> set D. length k = key_size \<Longrightarrow> length (ce_key_xor c) = key_size \<Longrightarrow> length (ce_key_xor (fold (put B t i) D c)) = key_size" for c
    by (induction D arbitrary: c) (auto simp: 1)
  moreover assume "\<forall>(k, s) \<in> set D. length k = key_size"
  ultimately show ?thesis by (simp add: sum_of_def empty_cell_def)
qed

lemma sum_of_snoc: "sum_of B t (D @ [d]) i = put B t i d (sum_of B t D i)"
  by (simp add: sum_of_def)

lemma sum_of_filter: "sum_of B t D i = sum_of B t (filter (\<lambda>(k, s). 0 < hits B t k i) D) i"
proof -
  have "fold (put B t i) D c = fold (put B t i) (filter (\<lambda>(k, s). 0 < hits B t k i) D) c" for c
    by (induction D arbitrary: c) auto
  then show ?thesis by (simp add: sum_of_def)
qed

text \<open>Taking one key out of a sum\<close>

lemma sum_of_remove:
  assumes "d \<in> set D" shows "sum_of B t D i = put B t i d (sum_of B t (remove1 d D) i)"
proof -
  have "mset D = mset (remove1 d D @ [d])" using assms by simp
  from sum_of_perm [OF this] show ?thesis by (simp add: sum_of_snoc)
qed

subsection \<open>Tables of inserted keys and their difference\<close>

definition holds :: "blake \<Rightarrow> iblt \<Rightarrow> iblt_cell list \<Rightarrow> (bytes \<times> int) list \<Rightarrow> bool" where
  "holds B t cells D \<longleftrightarrow> length cells = nat (ib_size t) \<and> (\<forall>i < length cells. cells ! i = sum_of B t D i)"

lemma holds_nth: "holds B t cells D \<Longrightarrow> i < length cells \<Longrightarrow> cells ! i = sum_of B t D i"
  by (simp add: holds_def)

lemma update_all:
  "foldres (\<lambda>i. update_cell i f) is cells = Inr cells' \<Longrightarrow> length cells' = length cells \<and> (\<forall>i < length cells. cells' ! i = (f ^^ count_list is i) (cells ! i))"
proof (induction "is" arbitrary: cells)
  case (Cons j js)
  then obtain c1 where c1: "update_cell j f cells = Inr c1" "foldres (\<lambda>i. update_cell i f) js c1 = Inr cells'" by (auto simp: bnd_eq_Inr)
  then have j: "j < length cells" "foldres (\<lambda>i. update_cell i f) js (cells[j := f (cells ! j)]) = Inr cells'"
    by (simp_all add: update_cell_def split: if_splits)
  from Cons.IH [OF j(2)] show ?case by (auto simp: nth_list_update funpow_swap1)
qed simp

lemma hits_cong: "ib_size t = ib_size t' \<Longrightarrow> ib_seeds t = ib_seeds t' \<Longrightarrow> indexes B t = indexes B t'"
  by (simp add: indexes_def fun_eq_iff)

lemma sum_of_cong: "ib_size t = ib_size t' \<Longrightarrow> ib_seeds t = ib_seeds t' \<Longrightarrow> sum_of B t D i = sum_of B t' D i"
proof -
  assume "ib_size t = ib_size t'" "ib_seeds t = ib_seeds t'"
  then have "put B t i d = put B t' i d" for d by (cases d) (simp add: hits_def hits_cong [of t t' B])
  then have "put B t i = put B t' i" by (rule ext)
  then show ?thesis by (simp add: sum_of_def)
qed

lemma insert_holds:
  assumes "insert_key B key t = Inr t'" "holds B t (ib_cells t) D"
  shows "holds B t' (ib_cells t') (D @ [(key, 1)]) \<and> ib_size t' = ib_size t \<and> ib_seeds t' = ib_seeds t \<and> length key = key_size"
proof -
  obtain "is" cells where k: "length key = key_size" and i: "indexes B t key = Inr is"
    and c: "foldres (\<lambda>i. update_cell i (add_key B key 1)) is (ib_cells t) = Inr cells" and t': "t' = t\<lparr>ib_cells := cells\<rparr>"
    using assms(1) by (auto simp: insert_key_def add_everywhere_def ensure_key_def bnd_eq_Inr split: if_splits)
  have s: "sum_of B t' E j = sum_of B t E j" for E j by (rule sum_of_cong) (simp_all add: t')
  have "holds B t' (ib_cells t') (D @ [(key, 1)])"
    unfolding holds_def s using update_all [OF c] assms(2) by (simp add: holds_def sum_of_snoc hits_def i t')
  then show ?thesis using k by (simp add: t')
qed

lemma build_holds:
  assumes "build_iblt B A n = Inr t"
  shows "holds B t (ib_cells t) (map (\<lambda>k. (k, 1)) A) \<and> ib_size t = n \<and> 0 < n \<and> ib_seeds t = default_seeds \<and> (\<forall>k \<in> set A. length k = key_size)"
proof -
  obtain t0 where t0: "new_iblt n [] = Inr t0" and f: "foldres (insert_key B) A t0 = Inr t" using assms by (auto simp: build_iblt_def bnd_eq_Inr)
  have z: "holds B t0 (ib_cells t0) []" "ib_size t0 = n" "0 < n" "ib_seeds t0 = default_seeds"
    using t0 by (auto simp: new_iblt_def holds_def sum_of_def split: if_splits)
  have "foldres (insert_key B) A t0 = Inr t \<Longrightarrow> holds B t0 (ib_cells t0) D \<Longrightarrow>
      holds B t (ib_cells t) (D @ map (\<lambda>k. (k, 1)) A) \<and> ib_size t = ib_size t0 \<and> ib_seeds t = ib_seeds t0 \<and> (\<forall>k \<in> set A. length k = key_size)" for D
  proof (induction A arbitrary: D t0)
    case (Cons k A)
    then obtain t1 where 1: "insert_key B k t0 = Inr t1" "foldres (insert_key B) A t1 = Inr t" by (auto simp: bnd_eq_Inr)
    from insert_holds [OF 1(1) Cons.prems(2)] Cons.IH [OF 1(2), of "D @ [(k, 1)]"] show ?case by simp
  qed simp
  from this [OF f z(1)] z show ?thesis by simp
qed

definition signed_keys :: "bytes list \<Rightarrow> bytes list \<Rightarrow> (bytes \<times> int) list" where
  "signed_keys xs ys = map (\<lambda>k. (k, 1)) xs @ map (\<lambda>k. (k, - 1)) ys"

text \<open>The keys only one side has\<close>

definition differing :: "bytes list \<Rightarrow> bytes list \<Rightarrow> (bytes \<times> int) list" where
  "differing here there = signed_keys (filter (\<lambda>k. k \<notin> set there) here) (filter (\<lambda>k. k \<notin> set here) there)"

lemma subtract_sums: "subtract_cell (sum_of B t (map (\<lambda>k. (k, 1)) xs) i) (sum_of B t (map (\<lambda>k. (k, 1)) ys) i) = sum_of B t (signed_keys xs ys) i"
proof -
  have l: "subtract_cell ((add_key B k s ^^ n) c) d = (add_key B k s ^^ n) (subtract_cell c d)" for k s n c d
    by (induction n) (simp_all add: subtract_add_left)
  have r: "subtract_cell c ((add_key B k s ^^ n) d) = (add_key B k (- s) ^^ n) (subtract_cell c d)" for k s n c d
    by (induction n) (simp_all add: subtract_add_right)
  have L: "subtract_cell (fold (put B t i) (map (\<lambda>k. (k, 1)) xs) c) d = fold (put B t i) (map (\<lambda>k. (k, 1)) xs) (subtract_cell c d)" for c d
    by (induction xs arbitrary: c) (simp_all add: l)
  have R: "subtract_cell c (fold (put B t i) (map (\<lambda>k. (k, 1)) ys) d) = fold (put B t i) (map (\<lambda>k. (k, - 1)) ys) (subtract_cell c d)" for c d
    by (induction ys arbitrary: d) (simp_all add: r)
  have e: "subtract_cell empty_cell empty_cell = empty_cell" by (simp add: subtract_cell_def empty_cell_def)
  show ?thesis by (simp add: sum_of_def signed_keys_def L R e)
qed

lemma signed_cancel:
  assumes "distinct xs" "distinct ys" "\<forall>k \<in> set xs. length k = key_size" "\<forall>k \<in> set ys. length k = key_size"
  shows "sum_of B t (signed_keys xs ys) i = sum_of B t (differing xs ys) i"
proof -
  let ?c = "filter (\<lambda>k. k \<in> set ys) xs" and ?c' = "filter (\<lambda>k. k \<in> set xs) ys"
  let ?pairs = "concat (map (\<lambda>k. [(k, 1), (k, - 1)]) ?c)"
  have same: "mset ?c = mset ?c'" by (rule set_eq_iff_mset_eq_distinct [THEN iffD1]) (use assms(1,2) in auto)
  have p: "mset (concat (map (\<lambda>k. [(k, 1), (k, - 1)]) zs)) = image_mset (\<lambda>k. (k, 1)) (mset zs) + image_mset (\<lambda>k. (k, - 1 :: int)) (mset zs)" for zs :: "bytes list"
    by (induction zs) auto
  have part: "mset zs = mset (filter P zs) + mset (filter (\<lambda>k. \<not> P k) zs)" for P and zs :: "bytes list"
    by (simp add: multiset_partition [symmetric])
  have "mset (signed_keys xs ys) = image_mset (\<lambda>k. (k, 1)) (mset xs) + image_mset (\<lambda>k. (k, - 1)) (mset ys)" by (simp add: signed_keys_def)
  also have "\<dots> = mset ?pairs + mset (differing xs ys)"
    unfolding p differing_def signed_keys_def mset_append mset_map
    by (subst part [of xs "\<lambda>k. k \<in> set ys"], subst part [of ys "\<lambda>k. k \<in> set xs"]) (simp add: same del: mset_filter)
  finally have "sum_of B t (signed_keys xs ys) i = sum_of B t (?pairs @ differing xs ys) i" by (intro sum_of_perm) simp
  also have "\<dots> = fold (put B t i) (differing xs ys) (fold (put B t i) ?pairs empty_cell)" by (simp add: sum_of_def)
  also have "fold (put B t i) ?pairs empty_cell = empty_cell"
  proof -
    have g: "length (ce_key_xor ((add_key B k 1 ^^ n) c)) = length k" if "length (ce_key_xor c) = length k" for k n c
      using that by (induction n) (simp_all add: add_key_def)
    have undo: "(add_key B k (- 1) ^^ n) ((add_key B k 1 ^^ n) c) = c" if "length (ce_key_xor c) = length k" for k n c
    proof (induction n)
      case (Suc n)
      have "(add_key B k (- 1) ^^ Suc n) ((add_key B k 1 ^^ Suc n) c) = (add_key B k (- 1) ^^ n) (add_key B k (- 1) (add_key B k 1 ((add_key B k 1 ^^ n) c)))"
        by (simp add: funpow_swap1)
      also have "add_key B k (- 1) (add_key B k 1 ((add_key B k 1 ^^ n) c)) = (add_key B k 1 ^^ n) c" by (rule add_key_undo) (rule g [OF that])
      finally show ?case using Suc by simp
    qed simp
    have "\<forall>k \<in> set zs. length k = key_size \<Longrightarrow> fold (put B t i) (concat (map (\<lambda>k. [(k, 1), (k, - 1)]) zs)) empty_cell = empty_cell" for zs
      by (induction zs) (simp_all add: undo empty_cell_def)
    then show ?thesis using assms(3) by simp
  qed
  finally show ?thesis by (simp add: sum_of_def)
qed

lemma difference_holds:
  assumes "build_iblt B xs n = Inr a" "build_iblt B ys n = Inr b" "distinct xs" "distinct ys"
  shows "\<exists>d. subtract a b = Inr d \<and> holds B d (ib_cells d) (differing xs ys) \<and> ib_size d = n \<and> ib_seeds d = default_seeds \<and> 0 < n \<and> (\<forall>(k, s) \<in> set (differing xs ys). length k = key_size)"
proof -
  note h = build_holds [OF assms(1)] build_holds [OF assms(2)]
  let ?d = "a\<lparr>ib_cells := map2 subtract_cell (ib_cells a) (ib_cells b)\<rparr>"
  have l: "length (ib_cells a) = nat n" "length (ib_cells b) = nat n" using h by (simp_all add: holds_def)
  have "ib_seeds a \<noteq> []" "list_all2 py_eq (ib_seeds a) (ib_seeds b)" using h by (simp_all add: default_seeds_def py_eq_def)
  then have s: "subtract a b = Inr ?d" using h l by (simp add: subtract_def new_iblt_def)
  have c: "sum_of B ?d E i = sum_of B a E i" "sum_of B b E i = sum_of B a E i" for E i by (rule sum_of_cong, use h in simp_all)+
  have "ib_cells ?d ! i = sum_of B ?d (differing xs ys) i" if "i < nat n" for i
  proof -
    have "ib_cells ?d ! i = subtract_cell (ib_cells a ! i) (ib_cells b ! i)" using that l by simp
    also have "ib_cells a ! i = sum_of B a (map (\<lambda>k. (k, 1)) xs) i" by (rule holds_nth [OF h(1) [THEN conjunct1]]) (use that l(1) in simp)
    also have "ib_cells b ! i = sum_of B a (map (\<lambda>k. (k, 1)) ys) i" unfolding c(2) [symmetric] by (rule holds_nth [OF h(2) [THEN conjunct1]]) (use that l(2) in simp)
    also have "subtract_cell (sum_of B a (map (\<lambda>k. (k, 1)) xs) i) (sum_of B a (map (\<lambda>k. (k, 1)) ys) i) = sum_of B a (signed_keys xs ys) i" by (rule subtract_sums)
    also have "\<dots> = sum_of B a (differing xs ys) i" by (rule signed_cancel [OF assms(3,4)]) (use h in simp_all)
    finally show ?thesis unfolding c(1) .
  qed
  moreover have "length (ib_cells ?d) = nat n" by (simp add: l)
  moreover have "ib_size ?d = n" "ib_seeds ?d = default_seeds" using h(1) by simp_all
  ultimately have "holds B ?d (ib_cells ?d) (differing xs ys)" unfolding holds_def by simp
  moreover have "\<forall>(k, s) \<in> set (differing xs ys). length k = key_size" using h(1,2) by (auto simp: differing_def signed_keys_def)
  ultimately show ?thesis using s h(1) by (intro exI [of _ ?d]) simp
qed

text \<open>A table can be built of any keys of the right length.\<close>

lemma indexes_total:
  assumes "length key = key_size" "ib_seeds t = default_seeds" shows "\<exists>is. indexes B t key = Inr is"
  using assms by (simp add: indexes_def ensure_key_def default_seeds_def hash64_def to_bytes_def)

lemma update_all_total:
  "\<forall>i \<in> set is. i < length cells \<Longrightarrow> \<exists>cells'. foldres (\<lambda>i. update_cell i f) is cells = Inr cells' \<and> length cells' = length cells"
proof (induction "is" arbitrary: cells)
  case (Cons i js)
  then show ?case using Cons.IH [of "cells[i := f (cells ! i)]"] by (simp add: update_cell_def)
qed simp

lemma insert_total:
  assumes "length key = key_size" "ib_seeds t = default_seeds" "0 < ib_size t" "length (ib_cells t) = nat (ib_size t)"
  shows "\<exists>t'. insert_key B key t = Inr t' \<and> ib_seeds t' = default_seeds \<and> ib_size t' = ib_size t \<and> length (ib_cells t') = nat (ib_size t)"
proof -
  obtain "is" where i: "indexes B t key = Inr is" using indexes_total [OF assms(1,2)] by blast
  have "\<forall>i \<in> set is. i < length (ib_cells t)" using indexes_bound [OF i assms(3,4)] by blast
  from update_all_total [OF this, of "add_key B key 1"] i assms show ?thesis
    by (auto simp: insert_key_def add_everywhere_def ensure_key_def)
qed

lemma build_total:
  assumes "0 < n" "\<forall>k \<in> set A. length k = key_size" shows "\<exists>t. build_iblt B A n = Inr t"
proof -
  have "\<exists>t'. foldres (insert_key B) A t = Inr t'"
    if "ib_seeds t = default_seeds" "ib_size t = n" "length (ib_cells t) = nat n" for t
    using that assms(2)
  proof (induction A arbitrary: t)
    case (Cons k A)
    then obtain t1 where "insert_key B k t = Inr t1" "ib_seeds t1 = default_seeds" "ib_size t1 = n" "length (ib_cells t1) = nat n"
      using insert_total [of k t B] assms(1) by auto
    then show ?case using Cons by simp
  qed simp
  then show ?thesis using assms(1) by (simp add: build_iblt_def new_iblt_def)
qed

text \<open>The difference of two tables depends on the keys only one side has.\<close>

lemma difference_of_differing:
  assumes "build_iblt B xs n = Inr a" "build_iblt B ys n = Inr b" "distinct xs" "distinct ys" "subtract a b = Inr d"
  shows "\<exists>a' b'. build_iblt B (filter (\<lambda>k. k \<notin> set ys) xs) n = Inr a' \<and> build_iblt B (filter (\<lambda>k. k \<notin> set xs) ys) n = Inr b' \<and> subtract a' b' = Inr d"
proof -
  let ?x = "filter (\<lambda>k. k \<notin> set ys) xs" and ?y = "filter (\<lambda>k. k \<notin> set xs) ys"
  have "0 < n" "\<forall>k \<in> set ?x. length k = key_size" "\<forall>k \<in> set ?y. length k = key_size" using build_holds [OF assms(1)] build_holds [OF assms(2)] by auto
  then obtain a' b' where ab: "build_iblt B ?x n = Inr a'" "build_iblt B ?y n = Inr b'" using build_total by meson
  have "distinct ?x" "distinct ?y" using assms(3,4) by simp_all
  from difference_holds [OF ab this] obtain d' where d': "subtract a' b' = Inr d'" "holds B d' (ib_cells d') (differing ?x ?y)" "ib_size d' = n" "ib_seeds d' = default_seeds"
    by blast
  have d: "holds B d (ib_cells d) (differing xs ys)" "ib_size d = n" "ib_seeds d = default_seeds" using difference_holds [OF assms(1-4)] assms(5) by auto
  have "differing ?x ?y = differing xs ys" by (simp add: differing_def) (simp add: conj_commute cong: conj_cong filter_cong)
  then have "ib_cells d' = ib_cells d"
    using d d' sum_of_cong [of d' d B] by (intro nth_equalityI) (simp_all add: holds_def)
  then have "d' = d" using d d' by simp
  with ab d'(1) show ?thesis by blast
qed

subsection \<open>Decoding a difference\<close>

text \<open>
  What decoding relies on, for the keys that differ: the cells of a key are distinct; no cell with several
  keys looks like one with a single key; the keys do not cancel out everywhere. The last two hold
  but for coincidences of the hashes.
\<close>

definition spread_keys :: "blake \<Rightarrow> iblt \<Rightarrow> (bytes \<times> int) list \<Rightarrow> bool" where
  "spread_keys B t D \<longleftrightarrow> (\<forall>(k, s) \<in> set D. case indexes B t k of Inr is \<Rightarrow> distinct is | Inl _ \<Rightarrow> False)"

definition no_false_peel :: "blake \<Rightarrow> iblt \<Rightarrow> (bytes \<times> int) list \<Rightarrow> bool" where
  "no_false_peel B t D \<longleftrightarrow> (\<forall>E \<in> set (subseqs D). \<forall>i \<in> set [0..<nat (ib_size t)]. let c = sum_of B t E i in
     \<bar>ce_count c\<bar> = 1 \<longrightarrow> fingerprint B (ce_key_xor c) = ce_hash_xor c \<longrightarrow> length (filter (\<lambda>(k, s). 0 < hits B t k i) E) = 1)"

definition no_hidden_keys :: "blake \<Rightarrow> iblt \<Rightarrow> (bytes \<times> int) list \<Rightarrow> bool" where
  "no_hidden_keys B t D \<longleftrightarrow> (\<forall>E \<in> set (subseqs D). E \<noteq> [] \<longrightarrow> \<not> list_all (\<lambda>i. cell_is_empty (sum_of B t E i)) [0..<nat (ib_size t)])"

text \<open>The state of the loop: the cells are the sum of the keys still to be found.\<close>

definition found_keys :: "(bytes \<times> int) list \<Rightarrow> (bytes \<times> int \<Rightarrow> bool) \<Rightarrow> int \<Rightarrow> bytes set" where
  "found_keys D P s = {k. (k, s) \<in> set D \<and> \<not> P (k, s)}"

definition decoding :: "blake \<Rightarrow> iblt \<Rightarrow> (bytes \<times> int) list \<Rightarrow> (bytes \<times> int \<Rightarrow> bool) \<Rightarrow> decode_state \<Rightarrow> bool" where
  "decoding B t D P st \<longleftrightarrow> holds B t (de_cells st) (filter P D) \<and> (\<forall>i \<in> set (de_stack st). i < nat (ib_size t))
     \<and> distinct (de_plus st) \<and> distinct (de_minus st) \<and> set (de_plus st) = found_keys D P 1 \<and> set (de_minus st) = found_keys D P (- 1)"

lemma peel_all:
  assumes "foldres (peel_other B key sign idx) is st = Inr st'" "distinct is"
  shows "length (de_cells st') = length (de_cells st) \<and> de_plus st' = de_plus st \<and> de_minus st' = de_minus st
    \<and> (\<forall>j < length (de_cells st). de_cells st' ! j = (if j \<in> set is \<and> j \<noteq> idx then add_key B key (- sign) (de_cells st ! j) else de_cells st ! j))
    \<and> length (de_stack st') \<le> length is + length (de_stack st) \<and> set (de_stack st') \<subseteq> set is \<union> set (de_stack st)"
  using assms
proof (induction "is" arbitrary: st)
  case (Cons i js)
  then obtain s1 where s1: "peel_other B key sign idx i st = Inr s1" "foldres (peel_other B key sign idx) js s1 = Inr st'" by (auto simp: bnd_eq_Inr)
  note ih = Cons.IH [OF s1(2)]
  show ?case
  proof (cases "i = idx")
    case True
    then have "s1 = st" using s1(1) by (simp add: peel_other_def)
    then show ?thesis using ih True Cons.prems(2) by auto
  next
    case False
    then have i: "i < length (de_cells st)" using s1(1) by (auto simp: peel_other_def update_cell_def bnd_eq_Inr split: if_splits)
    have e: "de_cells s1 = (de_cells st)[i := add_key B key (- sign) (de_cells st ! i)]" "de_plus s1 = de_plus st" "de_minus s1 = de_minus st"
      "de_stack s1 = i # de_stack st \<or> de_stack s1 = de_stack st"
      using s1(1) False i by (auto simp: peel_other_def update_cell_def split: if_splits)
    have "de_cells st' ! j = (if j \<in> set (i # js) \<and> j \<noteq> idx then add_key B key (- sign) (de_cells st ! j) else de_cells st ! j)"
      if "j < length (de_cells st)" for j
      using ih Cons.prems(2) that False i by (auto simp: e(1) nth_list_update)
    then show ?thesis using ih Cons.prems(2) e by auto
  qed
qed simp

lemma peel_all_total:
  "\<forall>i \<in> set is. i < length (de_cells st) \<Longrightarrow> \<exists>st'. foldres (peel_other B key sign idx) is st = Inr st'"
proof (induction "is" arbitrary: st)
  case (Cons i js)
  obtain s1 where s1: "peel_other B key sign idx i st = Inr s1"
    using Cons.prems by (cases "i = idx") (simp_all add: peel_other_def update_cell_def)
  then have "length (de_cells s1) = length (de_cells st)" using Cons.prems by (auto simp: peel_other_def update_cell_def split: if_splits)
  then show ?case using Cons s1 by simp
qed simp

lemma length_indexes: "indexes B t key = Inr is \<Longrightarrow> length is = length (ib_seeds t)"
  by (auto simp: indexes_def ensure_key_def bnd_eq_Inr dest: mapres_length split: if_splits)

lemma indexes_below: "indexes B t key = Inr is \<Longrightarrow> 0 < ib_size t \<Longrightarrow> i \<in> set is \<Longrightarrow> i < nat (ib_size t)"
  using indexes_bound [of B "t\<lparr>ib_cells := replicate (nat (ib_size t)) empty_cell\<rparr>" key "is" i] by (simp add: indexes_def)

definition honest :: "blake \<Rightarrow> iblt \<Rightarrow> (bytes \<times> int) list \<Rightarrow> bool" where
  "honest B t D \<longleftrightarrow> 0 < ib_size t \<and> distinct (map fst D) \<and> (\<forall>(k, s) \<in> set D. length k = key_size \<and> (s = 1 \<or> s = - 1)) \<and> spread_keys B t D"

lemma count_list_distinct: "distinct xs \<Longrightarrow> count_list xs x = (if x \<in> set xs then 1 else 0)"
  by (induction xs) auto

text \<open>A cell that looks like a single key is one.\<close>

lemma peelable_cell:
  assumes "honest B t D" "no_false_peel B t D" "i < nat (ib_size t)"
    and "\<bar>ce_count (sum_of B t (filter P D) i)\<bar> = 1" "fingerprint B (ce_key_xor (sum_of B t (filter P D) i)) = ce_hash_xor (sum_of B t (filter P D) i)"
  shows "\<exists>k s is. (k, s) \<in> set (filter P D) \<and> sum_of B t (filter P D) i = single B k s \<and> indexes B t k = Inr is \<and> distinct is \<and> i \<in> set is
    \<and> (\<forall>(k', s') \<in> set (filter P D). (k', s') \<noteq> (k, s) \<longrightarrow> hits B t k' i = 0)"
proof -
  let ?h = "\<lambda>(k, s). 0 < hits B t k i"
  have "filter P D \<in> set (subseqs D)" by (simp add: in_set_subseqs)
  from assms(2) [unfolded no_false_peel_def Let_def, rule_format, OF this, of i] assms(3-5)
  have "length (filter ?h (filter P D)) = 1" by (simp del: filter_filter)
  then obtain d where d: "filter ?h (filter P D) = [d]" by (cases "filter ?h (filter P D)") auto
  obtain k s where ks: "d = (k, s)" by fastforce
  have m: "(k, s) \<in> set (filter P D)" "0 < hits B t k i" using arg_cong [OF d, of set] by (auto simp: ks)
  obtain "is" where i: "indexes B t k = Inr is" "distinct is" using m(1) assms(1) by (auto simp: honest_def spread_keys_def split: sum.splits)
  have mem: "i \<in> set is" using m(2) i by (simp add: hits_def count_list_distinct split: if_splits)
  then have "hits B t k i = 1" using i by (simp add: hits_def count_list_distinct)
  moreover have "length k = key_size" using m(1) assms(1) by (auto simp: honest_def)
  moreover have "sum_of B t (filter P D) i = sum_of B t [(k, s)] i" by (subst sum_of_filter) (simp only: d ks)
  ultimately have "sum_of B t (filter P D) i = single B k s" by (simp add: sum_of_def single_algebra)
  moreover have "hits B t k' i = 0" if "(k', s') \<in> set (filter P D)" "(k', s') \<noteq> (k, s)" for k' s'
  proof (rule ccontr)
    assume "hits B t k' i \<noteq> 0"
    then have "(k', s') \<in> set (filter ?h (filter P D))" using that(1) by simp
    then show False unfolding d using that(2) ks by simp
  qed
  ultimately show ?thesis using m(1) i mem by blast
qed

text \<open>Looking at a cell keeps the state, and brings the end closer.\<close>

definition work :: "iblt \<Rightarrow> (bytes \<times> int) list \<Rightarrow> (bytes \<times> int \<Rightarrow> bool) \<Rightarrow> decode_state \<Rightarrow> nat" where
  "work t D P st = length (filter P D) * (length (ib_seeds t) + 1) + length (de_stack st)"

lemma peel_sum:
  assumes "honest B t D" "(k, s) \<in> set (filter P D)" "indexes B t k = Inr is" "distinct is"
  shows "sum_of B t (filter (\<lambda>d. P d \<and> d \<noteq> (k, s)) D) j = (if j \<in> set is then add_key B k (- s) (sum_of B t (filter P D) j) else sum_of B t (filter P D) j)"
proof -
  have dD: "distinct D" using assms(1) by (simp add: honest_def distinct_map)
  have f: "remove1 (k, s) (filter P D) = filter (\<lambda>d. P d \<and> d \<noteq> (k, s)) D"
    using dD by (simp add: distinct_remove1_removeAll removeAll_filter_not_eq conj_commute neq_commute)
  have e: "sum_of B t (filter P D) j = put B t j (k, s) (sum_of B t (filter (\<lambda>d. P d \<and> d \<noteq> (k, s)) D) j)"
    using sum_of_remove [OF assms(2), of B t j] by (simp only: f)
  have "\<forall>(k, s) \<in> set (filter (\<lambda>d. P d \<and> d \<noteq> (k, s)) D). length k = key_size" using assms(1) by (auto simp: honest_def)
  then have g: "length (ce_key_xor (sum_of B t (filter (\<lambda>d. P d \<and> d \<noteq> (k, s)) D) j)) = length k"
    using good_sum assms(1,2) by (auto simp: honest_def)
  have h: "hits B t k j = (if j \<in> set is then 1 else 0)" using assms(3,4) by (simp add: hits_def count_list_distinct)
  show ?thesis using e add_key_undo [OF g, of B s] by (auto simp: h)
qed

lemma decode_step_progress:
  assumes inv: "decoding B t D P st" and hon: "honest B t D" "no_false_peel B t D" and stack: "de_stack st = idx # rest"
  shows "\<exists>st' P'. decode_step B t idx rest st = Inr st' \<and> decoding B t D P' st' \<and> work t D P' st' < work t D P st"
proof -
  let ?n = "nat (ib_size t)" and ?c = "de_cells st ! idx"
  have h: "holds B t (de_cells st) (filter P D)" and len: "length (de_cells st) = ?n" and idx: "idx < ?n"
    using inv stack by (simp_all add: decoding_def holds_def)
  have c: "?c = sum_of B t (filter P D) idx" using h idx len by (simp add: holds_nth)
  show ?thesis
  proof (cases "\<bar>ce_count ?c\<bar> = 1 \<and> fingerprint B (ce_key_xor ?c) = ce_hash_xor ?c")
    case False
    then have "decode_step B t idx rest st = Inr (st\<lparr>de_stack := rest\<rparr>)" using idx len by (auto simp: decode_step_def Let_def)
    moreover have "decoding B t D P (st\<lparr>de_stack := rest\<rparr>)" using inv stack by (simp add: decoding_def)
    moreover have "work t D P (st\<lparr>de_stack := rest\<rparr>) < work t D P st" by (simp add: work_def stack)
    ultimately show ?thesis by blast
  next
    case True
    then obtain k s "is" where ks: "(k, s) \<in> set (filter P D)" "?c = single B k s" "indexes B t k = Inr is" "distinct is" "idx \<in> set is"
      "\<forall>(k', s') \<in> set (filter P D). (k', s') \<noteq> (k, s) \<longrightarrow> hits B t k' idx = 0"
      using peelable_cell [OF hon idx, of P] unfolding c by blast
    have s: "s = 1 \<or> s = - 1" using ks(1) hon(1) by (auto simp: honest_def)
    define s1 where "s1 = (if s = 1 then st\<lparr>de_stack := rest, de_plus := de_plus st @ [k]\<rparr> else st\<lparr>de_stack := rest, de_minus := de_minus st @ [k]\<rparr>)"
    have s1: "de_cells s1 = de_cells st" "de_stack s1 = rest" by (simp_all add: s1_def)
    have below: "\<forall>i \<in> set is. i < ?n" using indexes_below [OF ks(3)] hon(1) by (simp add: honest_def)
    obtain s2 where s2: "foldres (peel_other B k s idx) is s1 = Inr s2" using peel_all_total [of "is" s1 B k s idx] below len s1 by auto
    note p = peel_all [OF s2 ks(4)]
    define st' where "st' = s2\<lparr>de_cells := (de_cells s2)[idx := empty_cell]\<rparr>"
    have l2: "length (de_cells s2) = ?n" using p len s1 by simp
    have step: "decode_step B t idx rest st = Inr st'"
      using idx len s s2 ks(3) l2 by (auto simp: decode_step_def Let_def ks(2) single_def st'_def update_cell_def s1_def)
    let ?P = "\<lambda>d. P d \<and> d \<noteq> (k, s)"
    have "de_cells st' ! j = sum_of B t (filter ?P D) j" if j: "j < ?n" for j
    proof (cases "j = idx")
      case True
      have "filter (\<lambda>(k', s'). 0 < hits B t k' idx) (filter ?P D) = []" using ks(6) by (fastforce simp: filter_empty_conv)
      then have "sum_of B t (filter ?P D) idx = empty_cell" by (subst sum_of_filter) (simp only: sum_of_def fold_simps id_apply)
      then show ?thesis using True l2 idx by (simp add: st'_def)
    next
      case False
      have "de_cells st ! j = sum_of B t (filter P D) j" using h j len by (simp add: holds_nth)
      then show ?thesis using False p j len l2 s1 peel_sum [OF hon(1) ks(1,3,4), of j] by (simp add: st'_def)
    qed
    then have "holds B t (de_cells st') (filter ?P D)" using l2 by (simp add: holds_def st'_def)
    moreover have "\<forall>i \<in> set (de_stack st'). i < ?n" using p below inv stack s1 by (auto simp: decoding_def st'_def)
    moreover have "k \<notin> found_keys D P s" using ks(1) by (simp add: found_keys_def)
    moreover have "found_keys D ?P s' = (if s' = s then insert k (found_keys D P s') else found_keys D P s')" for s'
      using ks(1) by (auto simp: found_keys_def)
    ultimately have "decoding B t D ?P st'" using inv s p by (auto simp: decoding_def st'_def s1_def)
    moreover have "length (filter P D) = Suc (length (filter ?P D))"
    proof -
      have "distinct D" using hon(1) by (simp add: honest_def distinct_map)
      then have "remove1 (k, s) (filter P D) = filter ?P D" by (simp add: distinct_remove1_removeAll removeAll_filter_not_eq conj_commute neq_commute)
      then show ?thesis using length_remove1 [of "(k, s)" "filter P D"] ks(1) length_pos_if_in_set [OF ks(1)] by simp
    qed
    then have "work t D ?P st' < work t D P st" using p length_indexes [OF ks(3)] s1 stack by (simp add: work_def st'_def)
    ultimately show ?thesis using step by blast
  qed
qed

lemma decode_loop_ends:
  assumes "decoding B t D P st" "honest B t D" "no_false_peel B t D"
  shows "\<exists>st' P'. decode_loop B t st = Some (Inr st') \<and> decoding B t D P' st' \<and> de_stack st' = []"
  using assms(1)
proof (induction "work t D P st" arbitrary: P st rule: less_induct)
  case less
  show ?case
  proof (cases "de_stack st")
    case Nil
    then show ?thesis using less.prems by (intro exI [of _ st] exI [of _ P]) (simp add: decode_loop.simps)
  next
    case (Cons idx rest)
    from decode_step_progress [OF less.prems assms(2,3) Cons] obtain s1 P1
      where s1: "decode_step B t idx rest st = Inr s1" "decoding B t D P1 s1" "work t D P1 s1 < work t D P st" by blast
    from less.hyps [OF s1(3,2)] show ?thesis by (subst decode_loop.simps) (simp add: Cons s1(1))
  qed
qed

lemma decode_start_decoding:
  assumes "holds B t (ib_cells t) D" shows "decoding B t D (\<lambda>_. True) (decode_start t)"
  using assms by (auto simp: decoding_def decode_start_def found_keys_def holds_def)

lemma all_found:
  assumes "holds B t cells (filter P D)" "honest B t D" "no_hidden_keys B t D"
  shows "list_all cell_is_empty cells \<longleftrightarrow> filter P D = []"
proof -
  have "list_all cell_is_empty cells \<longleftrightarrow> list_all (\<lambda>i. cell_is_empty (sum_of B t (filter P D) i)) [0..<nat (ib_size t)]"
    using assms(1) by (auto simp: holds_def list_all_length)
  moreover have "filter P D \<in> set (subseqs D)" by (simp add: in_set_subseqs)
  moreover have "list_all (\<lambda>i. cell_is_empty (sum_of B t [] i)) [0..<nat (ib_size t)]" by (simp add: list_all_iff sum_of_def cell_is_empty_def empty_cell_def)
  ultimately show ?thesis using assms(3) unfolding no_hidden_keys_def by metis
qed

lemma decode_of_difference:
  assumes "build_iblt B here n = Inr a" "build_iblt B there n = Inr b" "distinct here" "distinct there" "subtract a b = Inr d"
    and "spread_keys B a (differing here there) \<and> no_false_peel B a (differing here there) \<and> no_hidden_keys B a (differing here there)"
  shows "\<exists>ok xs ys d'. decode B d = Some (Inr ((ok, xs, ys), d')) \<and> distinct xs \<and> distinct ys
    \<and> set xs \<subseteq> set here - set there \<and> set ys \<subseteq> set there - set here
    \<and> (ok \<longleftrightarrow> set xs = set here - set there \<and> set ys = set there - set here)"
proof -
  let ?D = "differing here there"
  have d: "subtract a b = Inr d" "holds B d (ib_cells d) ?D" "ib_size d = n" "0 < n" "\<forall>(k, s) \<in> set ?D. length k = key_size"
    using difference_holds [OF assms(1-4)] assms(5) by auto
  have sz: "ib_size a = ib_size d" "ib_seeds a = ib_seeds d"
    using build_holds [OF assms(1)] d(1,3) by (auto simp: subtract_def new_iblt_def split: if_splits)
  have same: "indexes B d = indexes B a" "sum_of B d E i = sum_of B a E i" "hits B d = hits B a" for E i
    using sz hits_cong [of d a B] sum_of_cong [of d a B] by (simp_all add: hits_def fun_eq_iff)
  have "distinct (map fst ?D)" using assms(3,4) by (auto simp: differing_def signed_keys_def o_def)
  then have hon: "honest B d ?D" using d(3-5) assms(6)
    by (auto simp: honest_def spread_keys_def same differing_def signed_keys_def)
  have nfp: "no_false_peel B d ?D" and nh: "no_hidden_keys B d ?D"
    using assms(6) by (simp_all add: no_false_peel_def no_hidden_keys_def same sz)
  obtain st P where st: "decode_loop B d (decode_start d) = Some (Inr st)" "decoding B d ?D P st"
    using decode_loop_ends [OF decode_start_decoding [OF d(2)] hon nfp] by blast
  have res: "decode B d = Some (Inr ((list_all cell_is_empty (de_cells st), de_plus st, de_minus st), d\<lparr>ib_cells := de_cells st\<rparr>))"
    by (simp add: decode_def st(1))
  have ok: "list_all cell_is_empty (de_cells st) \<longleftrightarrow> (\<forall>d \<in> set ?D. \<not> P d)"
    using all_found [OF _ hon nh, of "de_cells st" P] st(2) by (simp add: decoding_def filter_empty_conv)
  have m: "(k, 1) \<in> set ?D \<longleftrightarrow> k \<in> set here - set there" "(k, - 1) \<in> set ?D \<longleftrightarrow> k \<in> set there - set here" for k
    by (auto simp: differing_def signed_keys_def)
  have sgn: "s = 1 \<or> s = - 1" if "(k, s) \<in> set ?D" for k s using that by (auto simp: differing_def signed_keys_def)
  have f: "set (de_plus st) \<subseteq> set here - set there" "set (de_minus st) \<subseteq> set there - set here" "set (de_plus st) = {k \<in> set here - set there. \<not> P (k, 1)}" "set (de_minus st) = {k \<in> set there - set here. \<not> P (k, - 1)}"
    using st(2) m by (auto simp: decoding_def found_keys_def)
  have "(\<forall>d \<in> set ?D. \<not> P d) \<longleftrightarrow> (\<forall>k \<in> set here - set there. \<not> P (k, 1)) \<and> (\<forall>k \<in> set there - set here. \<not> P (k, - 1))"
    using m sgn by (metis (no_types, lifting) surj_pair)
  then have "list_all cell_is_empty (de_cells st) \<longleftrightarrow> set (de_plus st) = set here - set there \<and> set (de_minus st) = set there - set here"
    unfolding ok f by auto
  then show ?thesis using res st(2) f unfolding decoding_def
    by (intro exI [of _ "list_all cell_is_empty (de_cells st)"] exI [of _ "de_plus st"] exI [of _ "de_minus st"]
          exI [of _ "d\<lparr>ib_cells := de_cells st\<rparr>"] conjI) simp_all
qed

text \<open>
  C30: the difference of two nodes' tables and its decoding. For any two tables of the same size built
  from distinct keys, the difference is the very table that the keys only here and the keys only there
  give, whatever keys both nodes have. Decoding it is correct if each of these keys has distinct cells and the hashes
  do not coincide by accident: it ends without raising, every key it reports as only here or only
  there is so and is reported once, and it reports success exactly if it found all keys that differ.
\<close>

theorem decode_honest:
  assumes "build_iblt B here n = Inr a" "build_iblt B there n = Inr b" "distinct here" "distinct there"
  shows "\<exists>d. subtract a b = Inr d
    \<and> (\<exists>a' b'. build_iblt B (filter (\<lambda>k. k \<notin> set there) here) n = Inr a' \<and> build_iblt B (filter (\<lambda>k. k \<notin> set here) there) n = Inr b'
          \<and> subtract a' b' = Inr d)
    \<and> (spread_keys B a (differing here there) \<and> no_false_peel B a (differing here there) \<and> no_hidden_keys B a (differing here there) \<longrightarrow>
        (\<exists>ok xs ys d'. decode B d = Some (Inr ((ok, xs, ys), d')) \<and> distinct xs \<and> distinct ys
          \<and> set xs \<subseteq> set here - set there \<and> set ys \<subseteq> set there - set here
          \<and> (ok \<longleftrightarrow> set xs = set here - set there \<and> set ys = set there - set here)))"
proof -
  obtain d where d: "subtract a b = Inr d" using difference_holds [OF assms] by blast
  show ?thesis using d difference_of_differing [OF assms d] decode_of_difference [OF assms d] by blast
qed

lemma same_shape:
  assumes "ib_size t = ib_size t'" "ib_seeds t = ib_seeds t'"
  shows "spread_keys B t D = spread_keys B t' D" "no_false_peel B t D = no_false_peel B t' D" "no_hidden_keys B t D = no_hidden_keys B t' D"
proof -
  have "indexes B t = indexes B t'" "hits B t = hits B t'" "sum_of B t E i = sum_of B t' E i" for E i
    using assms hits_cong [of t t' B] sum_of_cong [of t t' B] by (simp_all add: hits_def fun_eq_iff)
  then show "spread_keys B t D = spread_keys B t' D" "no_false_peel B t D = no_false_peel B t' D" "no_hidden_keys B t D = no_hidden_keys B t' D"
    using assms(1) by (simp_all add: spread_keys_def no_false_peel_def no_hidden_keys_def)
qed

text \<open>Two nodes with one event in common and one each of their own, whose cells overlap\<close>

definition example_blake :: blake where
  "example_blake key data = [hd key + hd data]"

theorem decode_honest_witness:
  "\<exists>a b d ok xs ys d'. build_iblt example_blake [replicate 32 1, replicate 32 3] 16 = Inr a
     \<and> build_iblt example_blake [replicate 32 3, replicate 32 2] 16 = Inr b
     \<and> subtract a b = Inr d \<and> decode example_blake d = Some (Inr ((ok, xs, ys), d')) \<and> distinct xs \<and> distinct ys
     \<and> set xs \<subseteq> {replicate 32 1} \<and> set ys \<subseteq> {replicate 32 2} \<and> (ok \<longleftrightarrow> set xs = {replicate 32 1} \<and> set ys = {replicate 32 2})"
proof -
  let ?x = "[replicate 32 1, replicate 32 3] :: bytes list" and ?y = "[replicate 32 3, replicate 32 2] :: bytes list"
  let ?t = "\<lparr>ib_size = 16, ib_seeds = default_seeds, ib_cells = []\<rparr>"
  have "case build_iblt example_blake ?x 16 of Inr _ \<Rightarrow> True | Inl _ \<Rightarrow> False" by code_simp
  then obtain a where a: "build_iblt example_blake ?x 16 = Inr a" by (auto split: sum.splits)
  have "case build_iblt example_blake ?y 16 of Inr _ \<Rightarrow> True | Inl _ \<Rightarrow> False" by code_simp
  then obtain b where b: "build_iblt example_blake ?y 16 = Inr b" by (auto split: sum.splits)
  have "ib_size a = ib_size ?t" "ib_seeds a = ib_seeds ?t" using build_holds [OF a] by simp_all
  note shape = same_shape [OF this, of example_blake]
  have h: "spread_keys example_blake a (differing ?x ?y)" "no_false_peel example_blake a (differing ?x ?y)" "no_hidden_keys example_blake a (differing ?x ?y)"
    unfolding shape by code_simp+
  have ne: "replicate 32 1 \<noteq> (replicate 32 3 :: bytes)" "replicate 32 3 \<noteq> (replicate 32 2 :: bytes)" "replicate 32 1 \<noteq> (replicate 32 2 :: bytes)" by code_simp+
  then have dist: "distinct ?x" "distinct ?y" and sets: "set ?x - set ?y = {replicate 32 1}" "set ?y - set ?x = {replicate 32 2}" by auto
  from decode_honest [OF a b dist] h a b show ?thesis unfolding sets by blast
qed

text \<open>
  The condition on the cells is needed. Here the key of this node hits the tenth cell twice, so that cell
  shows the other node's key with the wrong sign: decoding reports each node's key as the other's.
\<close>

lemma repeated_cell_false_report:
  assumes "build_iblt B [k] 16 = Inr a" "build_iblt B [k'] 16 = Inr b" "k \<noteq> k'"
    and i: "indexes B a k = Inr [10, 10, 9]" "indexes B a k' = Inr [10, 9, 2]"
  shows "\<exists>d d'. subtract a b = Inr d \<and> decode B d = Some (Inr ((False, [k'], [k]), d'))"
proof -
  have D: "differing [k] [k'] = [(k, 1), (k', - 1)]" using assms(3) by (simp add: differing_def signed_keys_def)
  from difference_holds [OF assms(1,2)] obtain d where d: "subtract a b = Inr d" "holds B d (ib_cells d) [(k, 1), (k', - 1)]" "ib_size d = 16"
    "ib_seeds d = default_seeds" and l: "length k = key_size" "length k' = key_size" unfolding D by auto
  have ix: "indexes B d = indexes B a" using hits_cong [of d a B] build_holds [OF assms(1)] d(3,4) by simp
  let ?E = empty_cell and ?X = "add_key B k' (- 1) (single B k 1)"
  have len: "length (ib_cells d) = 16" using d(2,3) by (simp add: holds_def)
  have nth: "ib_cells d ! j = (add_key B k' (- 1) ^^ hits B d k' j) ((add_key B k 1 ^^ hits B d k j) ?E)" if "j < 16" for j
    using d(2) that len by (simp add: holds_def sum_of_def)
  have ten: "add_key B k' (- 1) (add_key B k 1 (single B k 1)) = single B k' 1"
    using l by (simp add: add_key_def single_def xor_bytes_assoc xor.assoc)
  have all: "j \<in> {0, 1, 2, 3, 4, 5, 6, 7, 8, 9, 10, 11, 12, 13, 14, 15}" if "j < 16" for j :: nat using that by (simp add: less_Suc_eq eval_nat_numeral)
  have cells: "ib_cells d = [?E, ?E, single B k' (- 1), ?E, ?E, ?E, ?E, ?E, ?E, ?X, single B k' 1, ?E, ?E, ?E, ?E, ?E]"
  proof (rule nth_equalityI)
    fix j assume "j < length (ib_cells d)"
    then have j: "j < 16" using len by simp
    show "ib_cells d ! j = [?E, ?E, single B k' (- 1), ?E, ?E, ?E, ?E, ?E, ?E, ?X, single B k' 1, ?E, ?E, ?E, ?E, ?E] ! j"
      using nth [OF j] all [OF j] by (auto simp: hits_def ix i single_algebra l ten)
  qed (simp add: len)
  have nine: "add_key B k' (- 1) ?X = single B k (- 1)" using l by (simp add: add_key_def single_def xor_bytes_assoc xor.assoc)
  let ?S = "\<lambda>two nine ten plus minus stack. \<lparr>de_cells = [?E, ?E, two, ?E, ?E, ?E, ?E, ?E, ?E, nine, ten, ?E, ?E, ?E, ?E, ?E],
    de_plus = plus, de_minus = minus, de_stack = stack\<rparr>"
  let ?D = "add_key B k' (- 1) (single B k' (- 1))" and ?T = "add_key B k 1 (single B k 1)"
  have sing: "ce_count (single B q n) = n" "ce_key_xor (single B q n) = q" "ce_hash_xor (single B q n) = fingerprint B q" for q n
    by (simp_all add: single_def)
  have cnt: "ce_count ?X = 0" "ce_count ?D = - 2" "ce_count ?T = 2" by (simp_all add: add_key_def)
  have start: "decode_start d = ?S (single B k' (- 1)) ?X (single B k' 1) [] [] [10, 2]"
    by (simp add: decode_start_def cells cnt upt_rec)
  have s1: "decode_step B d 10 [2] (?S (single B k' (- 1)) ?X (single B k' 1) [] [] [10, 2]) = Inr (?S ?D (single B k (- 1)) ?E [k'] [] [9, 2])"
    by (simp add: decode_step_def Let_def ix i(2) peel_other_def update_cell_def nine cnt sing)
  have s2: "decode_step B d 9 [2] (?S ?D (single B k (- 1)) ?E [k'] [] [9, 2]) = Inr (?S ?D ?E ?T [k'] [k] [10, 2])"
    by (simp add: decode_step_def Let_def ix i(1) peel_other_def update_cell_def cnt single_algebra l sing)
  have s3: "decode_step B d 10 [2] (?S ?D ?E ?T [k'] [k] [10, 2]) = Inr (?S ?D ?E ?T [k'] [k] [2])" by (simp add: decode_step_def Let_def cnt)
  have s4: "decode_step B d 2 [] (?S ?D ?E ?T [k'] [k] [2]) = Inr (?S ?D ?E ?T [k'] [k] [])" by (simp add: decode_step_def Let_def cnt)
  have "decode_loop B d (decode_start d) = Some (Inr (?S ?D ?E ?T [k'] [k] []))"
    unfolding start by (simp add: decode_loop.simps s1 s2 s3 s4)
  then show ?thesis using d(1) by (simp add: decode_def cell_is_empty_def cnt)
qed

end
