(* ===== verification/Ibf_Wire.thy ===== *)
theory Ibf_Wire
  imports Ibf Mesh_Text
begin

text \<open>
  The tables of \<open>services/mesh/mesh_ibf.py\<close> on the wire: \<open>to_compact_dict\<close> and \<open>from_compact_dict\<close>, with the
  base64 of Python's standard library, and that a table survives the way there and back.
\<close>

subsection \<open>Base64\<close>

definition b64_alphabet :: string where
  "b64_alphabet = ''ABCDEFGHIJKLMNOPQRSTUVWXYZabcdefghijklmnopqrstuvwxyz0123456789+/''"

definition b64_value :: "char \<Rightarrow> nat option" where
  "b64_value c = (let i = length (takeWhile (\<lambda>d. d \<noteq> c) b64_alphabet) in if i < 64 then Some i else None)"

definition sextet :: "nat \<Rightarrow> char" where
  "sextet n = b64_alphabet ! n"

fun b64_encode :: "bytes \<Rightarrow> string" where
  "b64_encode [] = []"
| "b64_encode [a] = [sextet (unat a div 4), sextet (unat a mod 4 * 16), CHR ''='', CHR ''='']"
| "b64_encode [a, b] = [sextet (unat a div 4), sextet (unat a mod 4 * 16 + unat b div 16), sextet (unat b mod 16 * 4), CHR ''='']"
| "b64_encode (a # b # c # bs) =
     [sextet (unat a div 4), sextet (unat a mod 4 * 16 + unat b div 16), sextet (unat b mod 16 * 4 + unat c div 64), sextet (unat c mod 64)]
     @ b64_encode bs"

text \<open>
  \<open>binascii.a2b_base64\<close> without strict mode: other characters are skipped, enough padding ends the
  input, and an unfinished group is an error. The state is the position in the group of four, the bits
  left over and the padding characters seen.
\<close>

fun a2b_base64 :: "nat \<Rightarrow> nat \<Rightarrow> nat \<Rightarrow> string \<Rightarrow> bytes res" where
  "a2b_base64 quad left pads [] = (if quad = 0 then Inr [] else Inl ValueError)"
| "a2b_base64 quad left pads (ch # cs) =
     (if ch = CHR ''='' then
        (if 2 \<le> quad then (if 4 \<le> quad + (pads + 1) then Inr [] else a2b_base64 quad left (pads + 1) cs) else a2b_base64 quad left pads cs)
      else (case b64_value ch of
          None \<Rightarrow> a2b_base64 quad left pads cs
        | Some v \<Rightarrow>
            if quad = 0 then a2b_base64 1 v 0 cs
            else if quad = 1 then bnd (a2b_base64 2 (v mod 16) 0 cs) (\<lambda>bs. Inr (word_of_nat (left * 4 + v div 16) # bs))
            else if quad = 2 then bnd (a2b_base64 3 (v mod 4) 0 cs) (\<lambda>bs. Inr (word_of_nat (left * 16 + v div 4) # bs))
            else bnd (a2b_base64 0 0 0 cs) (\<lambda>bs. Inr (word_of_nat (left * 64 + v) # bs))))"

definition b64_decode :: "string \<Rightarrow> bytes res" where
  "b64_decode s = (if list_all (\<lambda>c. (of_char c :: nat) < 128) s then a2b_base64 0 0 0 s else Inl ValueError)"

subsection \<open>Tables as dictionaries\<close>

definition to_compact_dict :: "iblt \<Rightarrow> pydict" where
  "to_compact_dict t =
     [(''m'', PInt (ib_size t)), (''s'', PList (ib_seeds t)),
      (''c'', PList (map (\<lambda>c. PList [PInt (ce_count c), PStr (b64_encode (ce_key_xor c)), PInt (ce_hash_xor c)]) (ib_cells t)))]"

text \<open>The items that iterating over a value gives: those of a list, the characters of a text, the keys of a dict\<close>

fun items_of :: "pyval \<Rightarrow> pyval list res" where
  "items_of (PList xs) = Inr xs"
| "items_of (PStr s) = Inr (map (\<lambda>c. PStr [c]) s)"
| "items_of (PDict d) = Inr (map (\<lambda>(k, _). PStr k) d)"
| "items_of _ = Inl TypeError"

definition cell_of_raw :: "pyval \<Rightarrow> iblt_cell res" where
  "cell_of_raw raw = bnd (items_of raw) (\<lambda>xs. case xs of
       [n, key_b64, hash_xor] \<Rightarrow>
         bnd (safe_int_or n 0) (\<lambda>n. bnd (b64_decode (py_str key_b64)) (\<lambda>k. bnd (safe_int_or hash_xor 0) (\<lambda>h.
           Inr \<lparr>ce_count = n, ce_key_xor = k, ce_hash_xor = h\<rparr>)))
     | _ \<Rightarrow> Inl ValueError)"

definition from_compact_dict :: "pydict \<Rightarrow> iblt res" where
  "from_compact_dict data =
     bnd (safe_int_or (py_or (get_or data ''m'' (PInt 0)) (PInt 0)) 0) (\<lambda>n.
     let seeds = py_or (get data ''s'') (PList default_seeds); cells = py_or (get data ''c'') (PList []) in
     bnd (items_of seeds) (\<lambda>seeds.
     bnd (new_iblt n seeds) (\<lambda>t.
     bnd (items_of cells) (\<lambda>raws.
       if int (length raws) \<noteq> n then Inl ValueError
       else bnd (mapres cell_of_raw raws) (\<lambda>cs. Inr (t\<lparr>ib_cells := cs\<rparr>))))))"

subsection \<open>There and back\<close>

lemma sextet_value: "n < 64 \<Longrightarrow> b64_value (sextet n) = Some n \<and> sextet n \<noteq> CHR ''='' \<and> (of_char (sextet n) :: nat) < 128"
proof -
  have "list_all (\<lambda>n. b64_value (sextet n) = Some n \<and> sextet n \<noteq> CHR ''='' \<and> (of_char (sextet n) :: nat) < 128) [0..<64]" by code_simp
  then show "n < 64 \<Longrightarrow> ?thesis" by (simp add: list_all_iff)
qed

lemma byte_bound: "unat (a :: 8 word) < 256"
proof -
  have "unat a < 2 ^ LENGTH(8)" by (rule unsigned_less)
  then show ?thesis by simp
qed

lemma byte_parts:
  fixes a b :: "8 word"
  shows "unat a div 4 < 64" "unat a mod 4 * 16 + unat b div 16 < 64" "unat a mod 16 * 4 + unat b div 64 < 64"
proof -
  have "unat a < 256" "unat b < 256" using byte_bound by simp_all
  then show "unat a div 4 < 64" "unat a mod 4 * 16 + unat b div 16 < 64" "unat a mod 16 * 4 + unat b div 64 < 64" by auto
qed

lemma byte_back: "unat a div 4 * 4 + (unat a mod 4 * 16 + unat (b :: 8 word) div 16) div 16 = unat (a :: 8 word)"
  "(unat a mod 4 * 16 + unat b div 16) mod 16 = unat b div 16"
  "unat a div 16 * 16 + (unat a mod 16 * 4 + unat b div 64) div 4 = unat a"
  "(unat a mod 16 * 4 + unat b div 64) mod 4 = unat b div 64"
proof -
  have "unat b < 256" by (rule byte_bound)
  then have "unat b div 16 < 16" "unat b div 64 < 4" by auto
  then show "unat a div 4 * 4 + (unat a mod 4 * 16 + unat b div 16) div 16 = unat a" "(unat a mod 4 * 16 + unat b div 16) mod 16 = unat b div 16"
    "unat a div 16 * 16 + (unat a mod 16 * 4 + unat b div 64) div 4 = unat a" "(unat a mod 16 * 4 + unat b div 64) mod 4 = unat b div 64"
    by simp_all
qed

lemma a2b_encode: "a2b_base64 0 l p (b64_encode bs) = Inr bs"
proof (induction bs arbitrary: l p rule: b64_encode.induct)
  case (2 a)
  have "unat a div 4 < 64" "unat a mod 4 * 16 < 64" using byte_parts(1) [of a] byte_parts(2) [of a 0] by simp_all
  then show ?case using byte_back(1) [of a 0] by (simp add: sextet_value)
next
  case (3 a b)
  have "unat b mod 16 * 4 < 64" using byte_parts(3) [of b 0] by simp
  then show ?case using byte_parts(1) [of a] byte_parts(2) [of a b] byte_back(1,2) [of a b] byte_back(3) [of b 0] by (simp add: sextet_value)
next
  case (4 a b c bs)
  have "unat c mod 64 < 64" by simp
  then show ?case using byte_parts(1) [of a] byte_parts(2) [of a b] byte_parts(3) [of b c] byte_back(1,2) [of a b] byte_back(3,4) [of b c] 4
    by (simp add: sextet_value)
qed simp

lemma b64_round_trip: "b64_decode (b64_encode bs) = Inr bs"
proof -
  have "list_all (\<lambda>c. (of_char c :: nat) < 128) (b64_encode bs)"
  proof (induction bs rule: b64_encode.induct)
    case (2 a)
    have "unat a div 4 < 64" "unat a mod 4 * 16 < 64" using byte_parts(1) [of a] byte_parts(2) [of a 0] by simp_all
    then show ?case by (simp add: sextet_value)
  next
    case (3 a b)
    have "unat b mod 16 * 4 < 64" using byte_parts(3) [of b 0] by simp
    then show ?case using byte_parts(1) [of a] byte_parts(2) [of a b] by (simp add: sextet_value)
  next
    case (4 a b c bs)
    then show ?case using byte_parts(1) [of a] byte_parts(2) [of a b] byte_parts(3) [of b c] by (simp add: sextet_value)
  qed simp
  then show ?thesis by (simp add: b64_decode_def a2b_encode)
qed

text \<open>
  C32: a table received is the table sent: for every table with its number of cells and with seeds,
  whatever its cells hold, \<open>from_compact_dict\<close> gives back the table that \<open>to_compact_dict\<close> wrote.
  A table that is read has the size the dictionary names and as many cells.
\<close>

theorem compact_round_trip:
  assumes "0 < ib_size t" "length (ib_cells t) = nat (ib_size t)" "ib_seeds t \<noteq> []"
  shows "from_compact_dict (to_compact_dict t) = Inr t \<and> (\<forall>data u. from_compact_dict data = Inr u \<longrightarrow> length (ib_cells u) = nat (ib_size u) \<and> 0 < ib_size u)"
proof
  let ?raw = "\<lambda>c. PList [PInt (ce_count c), PStr (b64_encode (ce_key_xor c)), PInt (ce_hash_xor c)]"
  have r: "cell_of_raw (?raw c) = Inr c" for c by (simp add: cell_of_raw_def safe_int_or_def b64_round_trip)
  have "mapres cell_of_raw (map ?raw (ib_cells t)) = Inr (ib_cells t)" by (simp add: mapres_Inr_conv list_all2_conv_all_nth r)
  moreover have "ib_cells t \<noteq> []" using assms(1,2) by auto
  ultimately show "from_compact_dict (to_compact_dict t) = Inr t"
    using assms by (simp add: from_compact_dict_def to_compact_dict_def get_or_def safe_int_or_def new_iblt_def)
  show "\<forall>data u. from_compact_dict data = Inr u \<longrightarrow> length (ib_cells u) = nat (ib_size u) \<and> 0 < ib_size u"
    by (auto simp: from_compact_dict_def new_iblt_def Let_def bnd_eq_Inr dest!: mapres_length split: if_splits)
qed

theorem compact_round_trip_witness:
  "\<exists>t. new_iblt 2 [] = Inr t \<and> from_compact_dict (to_compact_dict t) = Inr t"
proof -
  let ?t = "\<lparr>ib_size = 2, ib_seeds = default_seeds, ib_cells = replicate 2 empty_cell\<rparr>"
  have "from_compact_dict (to_compact_dict ?t) = Inr ?t"
    by (rule compact_round_trip [THEN conjunct1]) (simp_all add: default_seeds_def)
  then show ?thesis by (intro exI [of _ ?t]) (simp add: new_iblt_def)
qed

text \<open>The padding and the skipped characters make many texts of one key: the texts are not canonical.\<close>

lemma other_text_same_key: "b64_decode (''-'' @ b64_encode bs) = Inr bs"
proof -
  have "b64_value CHR ''-'' = None" by code_simp
  then show ?thesis using b64_round_trip [of bs] by (simp add: b64_decode_def split: if_splits)
qed

end
