(* ===== verification/Mesh_Protocol.thy ===== *)
theory Mesh_Protocol
  imports Mesh_Text Json
begin

text \<open>
  \<open>services/mesh/mesh_protocol.py\<close>: the normal form of the payload of every event type, which is what is
  signed, and the signed context that binds a request to its endpoint.
\<close>

subsection \<open>The code: fields\<close>

definition protocol_version :: string where
  "protocol_version = ''infonet/2''"

definition network_id :: string where
  "network_id = ''sb-testnet-0''"

definition signed_context_field :: string where
  "signed_context_field = ''signed_context''"

text \<open>\<open>str(payload.get(k, default))\<close>, \<open>str(payload.get(k, "") or "")\<close> and \<open>_safe_int(payload.get(k, 0), 0)\<close>\<close>

definition text_get :: "pydict \<Rightarrow> string \<Rightarrow> pyval \<Rightarrow> string" where
  "text_get d k default_value = py_str (get_or d k default_value)"

definition text_or :: "pydict \<Rightarrow> string \<Rightarrow> string" where
  "text_or d k = py_str (py_or (get_or d k (PStr [])) (PStr []))"

definition int_get :: "pydict \<Rightarrow> string \<Rightarrow> int res" where
  "int_get d k = safe_int_or (get_or d k (PInt 0)) 0"

text \<open>A field that is set only if its text is not empty\<close>

definition field_unless_empty :: "string \<Rightarrow> string \<Rightarrow> pydict" where
  "field_unless_empty k s = (if s = [] then [] else [(k, PStr s)])"

definition normalize_signed_context :: "pyval \<Rightarrow> pydict res" where
  "normalize_signed_context v = (case v of
       PDict d \<Rightarrow>
         bnd (int_get d ''version'') (\<lambda>version. bnd (int_get d ''sequence'') (\<lambda>sequence.
           Inr ([(''protocol'', PStr (text_or d ''protocol'')), (''version'', PInt version), (''event_type'', PStr (text_or d ''event_type'')),
                 (''kind'', PStr (text_or d ''kind'')), (''endpoint'', PStr (text_or d ''endpoint'')),
                 (''lane_floor'', PStr (lower_text (strip (text_or d ''lane_floor'')))), (''sequence_domain'', PStr (text_or d ''sequence_domain'')),
                 (''node_id'', PStr (text_or d ''node_id'')), (''sequence'', PInt sequence),
                 (''body_hash'', PStr (lower_text (strip (text_or d ''body_hash''))))]
             @ field_unless_empty ''gate_id'' (lower_text (strip (text_or d ''gate_id'')))
             @ field_unless_empty ''recipient_id'' (strip (text_or d ''recipient_id''))
             @ field_unless_empty ''target_id'' (strip (text_or d ''target_id'')))))
     | _ \<Rightarrow> Inr [])"

definition signed_context_part :: "pydict \<Rightarrow> pydict res" where
  "signed_context_part p =
     bnd (normalize_signed_context (get p signed_context_field)) (\<lambda>sc. Inr (if sc = [] then [] else [(signed_context_field, PDict sc)]))"

definition normalize_number :: "pyval \<Rightarrow> pyval" where
  "normalize_number v = (case py_float v of
       Inl e \<Rightarrow> PInt 0
     | Inr (Fin q) \<Rightarrow> if of_int \<lfloor>q\<rfloor> = q then PInt \<lfloor>q\<rfloor> else PFloat (Fin q)
     | Inr x \<Rightarrow> PFloat x)"

definition transport_lock_part :: "pydict \<Rightarrow> pydict" where
  "transport_lock_part p = field_unless_empty ''transport_lock'' (lower_text (strip (text_or p ''transport_lock'')))"

subsection \<open>The code: payloads\<close>

text \<open>A payload whose normal form ends with its transport lock and its signed context\<close>

definition with_context :: "(pydict \<Rightarrow> pydict res) \<Rightarrow> pydict \<Rightarrow> pydict res" where
  "with_context normalized p = bnd (normalized p) (\<lambda>n. bnd (signed_context_part p) (\<lambda>sc. Inr (n @ sc)))"

definition normalize_message_payload :: "pydict \<Rightarrow> pydict res" where
  "normalize_message_payload = with_context (\<lambda>p. Inr
     ([(''message'', PStr (text_get p ''message'' (PStr []))), (''destination'', PStr (text_get p ''destination'' (PStr []))),
       (''channel'', PStr (text_get p ''channel'' (PStr ''LongFast''))), (''priority'', PStr (text_get p ''priority'' (PStr ''normal''))),
       (''ephemeral'', PBool (truthy (get_or p ''ephemeral'' (PBool False))))]
      @ transport_lock_part p))"

definition normalize_gate_message_payload :: "pydict \<Rightarrow> pydict res" where
  "normalize_gate_message_payload = with_context (\<lambda>p. bnd (int_get p ''epoch'') (\<lambda>epoch. Inr
     ([(''gate'', PStr (lower_text (strip (text_get p ''gate'' (PStr []))))), (''ciphertext'', PStr (text_get p ''ciphertext'' (PStr []))),
       (''nonce'', PStr (text_get p ''nonce'' (get_or p ''iv'' (PStr [])))), (''sender_ref'', PStr (text_get p ''sender_ref'' (PStr []))),
       (''format'', PStr (lower_text (strip (py_str (py_or (get_or p ''format'' (PStr ''mls1'')) (PStr ''mls1''))))))]
      @ (if 0 < epoch then [(''epoch'', PInt epoch)] else [])
      @ field_unless_empty ''gate_envelope'' (strip (text_or p ''gate_envelope''))
      @ field_unless_empty ''envelope_hash'' (strip (text_or p ''envelope_hash''))
      @ field_unless_empty ''reply_to'' (strip (text_or p ''reply_to''))
      @ transport_lock_part p)))"

definition normalize_vote_payload :: "pydict \<Rightarrow> pydict res" where
  "normalize_vote_payload = with_context (\<lambda>p. bnd (int_get p ''vote'') (\<lambda>vote. Inr
     [(''target_id'', PStr (text_get p ''target_id'' (PStr []))), (''vote'', PInt vote), (''gate'', PStr (text_get p ''gate'' (PStr [])))]))"

definition normalize_gate_create_payload :: "pydict \<Rightarrow> pydict res" where
  "normalize_gate_create_payload = with_context (\<lambda>p. Inr
     [(''gate_id'', PStr (lower_text (text_get p ''gate_id'' (PStr [])))), (''display_name'', PStr (take 64 (text_get p ''display_name'' (PStr [])))),
      (''rules'', (case get_or p ''rules'' (PDict []) of PDict d \<Rightarrow> PDict d | _ \<Rightarrow> PDict []))])"

definition normalize_prediction_payload :: "pydict \<Rightarrow> pydict" where
  "normalize_prediction_payload p =
     [(''market_title'', PStr (text_get p ''market_title'' (PStr []))), (''side'', PStr (text_get p ''side'' (PStr []))),
      (''stake_amount'', normalize_number (get_or p ''stake_amount'' (PFloat (Fin 0))))]"

definition normalize_stake_payload :: "pydict \<Rightarrow> pydict res" where
  "normalize_stake_payload p = bnd (int_get p ''duration_days'') (\<lambda>days. Inr
     [(''message_id'', PStr (text_get p ''message_id'' (PStr []))), (''poster_id'', PStr (text_get p ''poster_id'' (PStr []))),
      (''side'', PStr (text_get p ''side'' (PStr []))), (''amount'', normalize_number (get_or p ''amount'' (PFloat (Fin 0)))),
      (''duration_days'', PInt days)])"

definition normalize_dm_key_payload :: "pydict \<Rightarrow> pydict res" where
  "normalize_dm_key_payload = with_context (\<lambda>p. bnd (int_get p ''timestamp'') (\<lambda>ts. Inr
     ([(''dh_pub_key'', PStr (text_get p ''dh_pub_key'' (PStr []))), (''dh_algo'', PStr (text_get p ''dh_algo'' (PStr []))), (''timestamp'', PInt ts)]
      @ transport_lock_part p)))"

definition normalize_dm_message_payload :: "pydict \<Rightarrow> pydict res" where
  "normalize_dm_message_payload = with_context (\<lambda>p. bnd (int_get p ''timestamp'') (\<lambda>ts. Inr
     ([(''recipient_id'', PStr (text_get p ''recipient_id'' (PStr []))), (''delivery_class'', PStr (lower_text (text_get p ''delivery_class'' (PStr [])))),
       (''recipient_token'', PStr (text_get p ''recipient_token'' (PStr []))), (''ciphertext'', PStr (text_get p ''ciphertext'' (PStr []))),
       (''msg_id'', PStr (text_get p ''msg_id'' (PStr []))), (''timestamp'', PInt ts),
       (''format'', PStr (lower_text (strip (py_str (py_or (get_or p ''format'' (PStr ''dm1'')) (PStr ''dm1''))))))]
      @ (if truthy (get p ''session_welcome'') then [(''session_welcome'', PStr (py_str (get p ''session_welcome'')))] else [])
      @ field_unless_empty ''sender_seal'' (text_or p ''sender_seal'')
      @ field_unless_empty ''relay_salt'' (lower_text (strip (text_or p ''relay_salt'')))
      @ transport_lock_part p)))"

definition normalize_dm_message_payload_legacy :: "pydict \<Rightarrow> pydict res" where
  "normalize_dm_message_payload_legacy p = bnd (int_get p ''timestamp'') (\<lambda>ts. Inr
     [(''recipient_id'', PStr (text_get p ''recipient_id'' (PStr []))), (''delivery_class'', PStr (lower_text (text_get p ''delivery_class'' (PStr [])))),
      (''recipient_token'', PStr (text_get p ''recipient_token'' (PStr []))), (''ciphertext'', PStr (text_get p ''ciphertext'' (PStr []))),
      (''msg_id'', PStr (text_get p ''msg_id'' (PStr []))), (''timestamp'', PInt ts)])"

definition mailbox_claim :: "pydict \<Rightarrow> pyval" where
  "mailbox_claim c = PDict [(''type'', PStr (lower_text (text_get c ''type'' (PStr [])))), (''token'', PStr (text_get c ''token'' (PStr [])))]"

definition normalize_mailbox_claims :: "pydict \<Rightarrow> pyval list" where
  "normalize_mailbox_claims p = (case get_or p ''mailbox_claims'' (PList []) of
       PList claims \<Rightarrow> List.map_filter (\<lambda>c. case c of PDict d \<Rightarrow> Some (mailbox_claim d) | _ \<Rightarrow> None) claims
     | _ \<Rightarrow> [])"

definition normalize_dm_poll_payload :: "pydict \<Rightarrow> pydict res" where
  "normalize_dm_poll_payload = with_context (\<lambda>p. bnd (int_get p ''timestamp'') (\<lambda>ts. Inr
     ([(''mailbox_claims'', PList (normalize_mailbox_claims p)), (''timestamp'', PInt ts), (''nonce'', PStr (text_get p ''nonce'' (PStr [])))]
      @ transport_lock_part p)))"

definition normalize_dm_count_payload :: "pydict \<Rightarrow> pydict res" where
  "normalize_dm_count_payload p = normalize_dm_poll_payload p"

definition normalize_dm_block_payload :: "pydict \<Rightarrow> pydict res" where
  "normalize_dm_block_payload = with_context (\<lambda>p. Inr
     ([(''blocked_id'', PStr (text_get p ''blocked_id'' (PStr []))), (''action'', PStr (lower_text (text_get p ''action'' (PStr ''block''))))]
      @ transport_lock_part p))"

definition normalize_dm_key_witness_payload :: "pydict \<Rightarrow> pydict res" where
  "normalize_dm_key_witness_payload = with_context (\<lambda>p. bnd (int_get p ''timestamp'') (\<lambda>ts. Inr
     ([(''target_id'', PStr (text_get p ''target_id'' (PStr []))), (''dh_pub_key'', PStr (text_get p ''dh_pub_key'' (PStr []))), (''timestamp'', PInt ts)]
      @ transport_lock_part p)))"

definition normalize_trust_vouch_payload :: "pydict \<Rightarrow> pydict res" where
  "normalize_trust_vouch_payload = with_context (\<lambda>p. bnd (int_get p ''timestamp'') (\<lambda>ts. Inr
     ([(''target_id'', PStr (text_get p ''target_id'' (PStr []))), (''note'', PStr (take 140 (text_get p ''note'' (PStr [])))), (''timestamp'', PInt ts)]
      @ transport_lock_part p)))"

definition normalize_key_rotate_payload :: "pydict \<Rightarrow> pydict res" where
  "normalize_key_rotate_payload = with_context (\<lambda>p. bnd (int_get p ''timestamp'') (\<lambda>ts. Inr
     ([(''old_node_id'', PStr (text_get p ''old_node_id'' (PStr []))), (''old_public_key'', PStr (text_get p ''old_public_key'' (PStr []))),
       (''old_public_key_algo'', PStr (text_get p ''old_public_key_algo'' (PStr []))), (''new_public_key'', PStr (text_get p ''new_public_key'' (PStr []))),
       (''new_public_key_algo'', PStr (text_get p ''new_public_key_algo'' (PStr []))), (''timestamp'', PInt ts),
       (''old_signature'', PStr (text_get p ''old_signature'' (PStr [])))]
      @ transport_lock_part p)))"

definition normalize_key_revoke_payload :: "pydict \<Rightarrow> pydict res" where
  "normalize_key_revoke_payload = with_context (\<lambda>p. bnd (int_get p ''revoked_at'') (\<lambda>revoked_at. bnd (int_get p ''grace_until'') (\<lambda>grace_until. Inr
     ([(''revoked_public_key'', PStr (text_get p ''revoked_public_key'' (PStr []))), (''revoked_public_key_algo'', PStr (text_get p ''revoked_public_key_algo'' (PStr []))),
       (''revoked_at'', PInt revoked_at), (''grace_until'', PInt grace_until), (''reason'', PStr (take 140 (text_get p ''reason'' (PStr []))))]
      @ transport_lock_part p))))"

definition normalize_abuse_report_payload :: "pydict \<Rightarrow> pydict" where
  "normalize_abuse_report_payload p =
     [(''target_id'', PStr (text_get p ''target_id'' (PStr []))), (''reason'', PStr (take 280 (text_get p ''reason'' (PStr [])))),
      (''gate'', PStr (text_get p ''gate'' (PStr []))), (''evidence'', PStr (take 256 (text_get p ''evidence'' (PStr []))))]"

text \<open>The inner functions \<open>_f\<close> and \<open>_i\<close>\<close>

definition sar_float :: "pydict \<Rightarrow> string \<Rightarrow> pyfloat res" where
  "sar_float p k = catching type_or_value (py_float (py_or (get_or p k (PFloat (Fin 0))) (PFloat (Fin 0)))) (Inr (Fin 0))"

definition sar_int :: "pydict \<Rightarrow> string \<Rightarrow> int res" where
  "sar_int p k = catching type_or_value (py_int (py_or (get_or p k (PInt 0)) (PInt 0))) (Inr 0)"

definition normalize_sar_anomaly_payload :: "pydict \<Rightarrow> pydict res" where
  "normalize_sar_anomaly_payload p =
     bnd (sar_float p ''lat'') (\<lambda>lat. bnd (sar_float p ''lon'') (\<lambda>lon. bnd (sar_float p ''magnitude'') (\<lambda>magnitude.
     bnd (sar_float p ''confidence'') (\<lambda>confidence. bnd (sar_int p ''scene_count'') (\<lambda>scene_count. Inr
       [(''anomaly_id'', PStr (take 128 (text_get p ''anomaly_id'' (PStr [])))), (''kind'', PStr (take 48 (text_get p ''kind'' (PStr [])))),
        (''lat'', PFloat lat), (''lon'', PFloat lon), (''magnitude'', PFloat magnitude),
        (''magnitude_unit'', PStr (take 32 (text_get p ''magnitude_unit'' (PStr [])))), (''confidence'', PFloat confidence),
        (''first_seen'', PStr (take 32 (text_get p ''first_seen'' (PStr [])))), (''last_seen'', PStr (take 32 (text_get p ''last_seen'' (PStr [])))),
        (''stack_id'', PStr (take 64 (text_get p ''stack_id'' (PStr [])))), (''scene_count'', PInt scene_count),
        (''evidence_hash'', PStr (take 128 (text_get p ''evidence_hash'' (PStr [])))), (''solver'', PStr (take 64 (text_get p ''solver'' (PStr [])))),
        (''source_constellation'', PStr (take 64 (text_get p ''source_constellation'' (PStr []))))])))))"

definition normalize_payload :: "string \<Rightarrow> pydict \<Rightarrow> pydict res" where
  "normalize_payload et p =
     (if et = ''message'' then normalize_message_payload p
      else if et = ''gate_message'' then normalize_gate_message_payload p
      else if et = ''vote'' then normalize_vote_payload p
      else if et = ''gate_create'' then normalize_gate_create_payload p
      else if et = ''prediction'' then Inr (normalize_prediction_payload p)
      else if et = ''stake'' then normalize_stake_payload p
      else if et = ''dm_key'' then normalize_dm_key_payload p
      else if et = ''dm_message'' then normalize_dm_message_payload p
      else if et = ''dm_poll'' then normalize_dm_poll_payload p
      else if et = ''dm_count'' then normalize_dm_count_payload p
      else if et = ''dm_block'' then normalize_dm_block_payload p
      else if et = ''dm_key_witness'' then normalize_dm_key_witness_payload p
      else if et = ''trust_vouch'' then normalize_trust_vouch_payload p
      else if et = ''key_rotate'' then normalize_key_rotate_payload p
      else if et = ''key_revoke'' then normalize_key_revoke_payload p
      else if et = ''abuse_report'' then Inr (normalize_abuse_report_payload p)
      else if et = ''sar_anomaly'' then normalize_sar_anomaly_payload p
      else Inr p)"

subsection \<open>The code: signed contexts\<close>

text \<open>\<open>json.dumps\<close> with sorted keys and compact separators (\<open>canonical_json\<close> of \<open>mesh_crypto.py\<close>)\<close>

definition canonical_json :: "pydict \<Rightarrow> string" where
  "canonical_json d = json_dumps (PDict d)"

definition without :: "string \<Rightarrow> pydict \<Rightarrow> pydict" where
  "without k d = filter (\<lambda>(k', _). k' \<noteq> k) d"

definition payload_body_hash :: "primitives \<Rightarrow> string \<Rightarrow> pydict \<Rightarrow> string res" where
  "payload_body_hash P et p =
     bnd (normalize_payload et (without signed_context_field p)) (\<lambda>n. Inr (sha256 P (canonical_json (without signed_context_field n))))"

text \<open>The arguments of a request that a signed context binds\<close>

record request_context =
  rq_event_type :: string
  rq_kind :: string
  rq_endpoint :: string
  rq_lane_floor :: string
  rq_sequence_domain :: string
  rq_node_id :: string
  rq_sequence :: int
  rq_gate_id :: string
  rq_recipient_id :: string
  rq_target_id :: string

definition build_signed_context :: "primitives \<Rightarrow> request_context \<Rightarrow> pydict \<Rightarrow> pydict res" where
  "build_signed_context P rq p = bnd (payload_body_hash P (rq_event_type rq) p) (\<lambda>h. Inr
     ([(''protocol'', PStr ''shadowbroker''), (''version'', PInt 1), (''event_type'', PStr (rq_event_type rq)), (''kind'', PStr (rq_kind rq)),
       (''endpoint'', PStr (rq_endpoint rq)), (''lane_floor'', PStr (lower_text (strip (rq_lane_floor rq)))),
       (''sequence_domain'', PStr (rq_sequence_domain rq)), (''node_id'', PStr (rq_node_id rq)), (''sequence'', PInt (rq_sequence rq)),
       (''body_hash'', PStr h)]
      @ (if rq_gate_id rq = [] then [] else [(''gate_id'', PStr (lower_text (strip (rq_gate_id rq))))])
      @ (if rq_recipient_id rq = [] then [] else [(''recipient_id'', PStr (strip (rq_recipient_id rq)))])
      @ (if rq_target_id rq = [] then [] else [(''target_id'', PStr (strip (rq_target_id rq)))])))"

definition validate_signed_context :: "primitives \<Rightarrow> request_context \<Rightarrow> pydict \<Rightarrow> (bool \<times> string) res" where
  "validate_signed_context P rq p =
     bnd (normalize_signed_context (get p signed_context_field)) (\<lambda>supplied.
       if supplied = [] then Inr (True, ''signed_context_absent'')
       else bnd (build_signed_context P rq p) (\<lambda>expected.
         if \<not> same_value (PDict supplied) (PDict expected) then Inr (False, ''signed_context_mismatch'')
         else Inr (True, ''signed_context_ok'')))"

subsection \<open>Normal forms\<close>

lemma field_unless_empty_simps [simp]:
  "field_unless_empty k [] = []"
  "map_of (field_unless_empty k s) k' = (if k = k' \<and> s \<noteq> [] then Some (PStr s) else None)"
  by (simp_all add: field_unless_empty_def)

lemma py_str_or [simp]: "py_str (py_or (PStr s) (PStr t)) = (if s = [] then t else s)" "py_or (PStr s) (PStr []) = PStr s"
  by (cases s; simp add: py_or_def)+

lemma get_or_map_of [simp]: "map_of d k = Some v \<Longrightarrow> get_or d k w = v" "map_of d k = None \<Longrightarrow> get_or d k w = w"
  by (simp_all add: get_or_def)

lemma strip_Nil [simp]: "strip [] = []"
  by (simp add: strip_def)

lemma text_fields:
  assumes "map_of d k = (if s = [] then None else Some (PStr s))"
  shows "text_or d k = s"
  using assms by (cases "s = []") (simp_all add: text_or_def)

lemma text_get_fields: "map_of d k = Some (PStr s) \<Longrightarrow> text_get d k w = s"
  by (simp add: text_get_def)

lemma text_or_fields: "map_of d k = Some (PStr s) \<Longrightarrow> text_or d k = s"
  by (simp add: text_or_def)

lemma int_get_fields: "map_of d k = Some (PInt n) \<Longrightarrow> int_get d k = Inr n" "map_of d k = None \<Longrightarrow> int_get d k = Inr 0"
  by (simp_all add: int_get_def safe_int_or_def)

lemma py_str_truthy: "truthy v \<Longrightarrow> (\<forall>x. v = PFloat x \<longrightarrow> float_repr x \<noteq> []) \<Longrightarrow> py_str v \<noteq> []"
  by (cases v) auto

lemma take_take_min [simp]: "take n (take n s) = take n s"
  by simp

lemma normalize_signed_context_idem:
  assumes "normalize_signed_context v = Inr sc" "sc \<noteq> []"
  shows "normalize_signed_context (PDict sc) = Inr sc"
proof -
  obtain d where v: "v = PDict d" using assms by (auto simp: normalize_signed_context_def split: pyval.splits)
  from assms(1) obtain a b where ab: "int_get d ''version'' = Inr a" "int_get d ''sequence'' = Inr b"
    unfolding v normalize_signed_context_def by (auto simp: bnd_eq_Inr)
  define g where "g = lower_text (strip (text_or d ''gate_id''))"
  define r where "r = strip (text_or d ''recipient_id'')"
  define t where "t = strip (text_or d ''target_id'')"
  have idem: "lower_text (strip g) = g" "strip r = r" "strip t = t" by (simp_all add: g_def r_def t_def strip_lower)
  have sc: "sc = [(''protocol'', PStr (text_or d ''protocol'')), (''version'', PInt a), (''event_type'', PStr (text_or d ''event_type'')),
                 (''kind'', PStr (text_or d ''kind'')), (''endpoint'', PStr (text_or d ''endpoint'')),
                 (''lane_floor'', PStr (lower_text (strip (text_or d ''lane_floor'')))), (''sequence_domain'', PStr (text_or d ''sequence_domain'')),
                 (''node_id'', PStr (text_or d ''node_id'')), (''sequence'', PInt b),
                 (''body_hash'', PStr (lower_text (strip (text_or d ''body_hash''))))]
             @ field_unless_empty ''gate_id'' g @ field_unless_empty ''recipient_id'' r @ field_unless_empty ''target_id'' t"
    using assms(1) unfolding v normalize_signed_context_def by (simp add: ab g_def r_def t_def)
  have f: "text_or sc ''gate_id'' = g" "text_or sc ''recipient_id'' = r" "text_or sc ''target_id'' = t"
    by (rule text_fields; simp add: sc map_add_def)+
  have "text_or sc k = text_or d k" if "k \<in> {''protocol'', ''event_type'', ''kind'', ''endpoint'', ''sequence_domain'', ''node_id''}" for k
    using that by (intro text_or_fields) (auto simp: sc)
  moreover have "text_or sc ''lane_floor'' = lower_text (strip (text_or d ''lane_floor''))" "text_or sc ''body_hash'' = lower_text (strip (text_or d ''body_hash''))"
    by (rule text_or_fields; simp add: sc)+
  moreover have "int_get sc ''version'' = Inr a" "int_get sc ''sequence'' = Inr b" by (rule int_get_fields; simp add: sc)+
  ultimately show ?thesis unfolding normalize_signed_context_def by (simp add: f idem strip_lower) (simp add: sc)
qed

lemma signed_context_part_idem:
  assumes "signed_context_part p = Inr sc" "map_of fs signed_context_field = None"
  shows "signed_context_part (fs @ sc) = Inr sc"
proof -
  from assms(1) obtain c where c: "normalize_signed_context (get p signed_context_field) = Inr c" "sc = (if c = [] then [] else [(signed_context_field, PDict c)])"
    by (auto simp: signed_context_part_def bnd_eq_Inr)
  show ?thesis
  proof (cases "c = []")
    case True
    then show ?thesis using assms(2) by (simp add: c signed_context_part_def get_def normalize_signed_context_def)
  next
    case False
    then show ?thesis using assms(2) normalize_signed_context_idem [OF c(1)] by (simp add: c signed_context_part_def get_def map_add_def)
  qed
qed

lemma signed_context_only: "signed_context_part p = Inr sc \<Longrightarrow> k \<noteq> signed_context_field \<Longrightarrow> map_of sc k = None"
  by (auto simp: signed_context_part_def bnd_eq_Inr split: if_splits)

text \<open>A dict that holds the given fields and perhaps a signed context\<close>

definition holds :: "pydict \<Rightarrow> pydict \<Rightarrow> bool" where
  "holds d fs \<longleftrightarrow> (\<forall>k. k \<noteq> signed_context_field \<longrightarrow> map_of d k = map_of fs k)"

lemma with_context_idem:
  assumes "with_context F p = Inr n"
    and "\<And>fs. F p = Inr fs \<Longrightarrow> map_of fs signed_context_field = None"
    and "\<And>fs d. F p = Inr fs \<Longrightarrow> holds d fs \<Longrightarrow> F d = Inr fs"
  shows "with_context F n = Inr n"
proof -
  obtain fs sc where sc: "F p = Inr fs" "signed_context_part p = Inr sc" "n = fs @ sc" using assms(1) by (auto simp: with_context_def bnd_eq_Inr)
  have "map_of n k = map_of fs k" if "k \<noteq> signed_context_field" for k
    using signed_context_only [OF sc(2) that] by (simp add: sc map_add_def split: option.splits)
  then have "F n = Inr fs" using assms(3) [OF sc(1)] by (simp add: holds_def)
  moreover have "signed_context_part n = Inr sc" unfolding sc using sc(2) assms(2) [OF sc(1)] by (intro signed_context_part_idem) auto
  ultimately show ?thesis by (simp add: with_context_def sc)
qed

lemma holds_fields:
  assumes "holds d fs" "k \<noteq> signed_context_field"
  shows "text_get d k w = text_get fs k w" "text_or d k = text_or fs k" "int_get d k = int_get fs k" "get_or d k w = get_or fs k w" "get d k = get fs k"
  using assms by (simp_all add: holds_def text_get_def text_or_def int_get_def get_or_def get_def)

lemma fields_Cons [simp]:
  "text_get ((k', v) # d) k w = (if k = k' then py_str v else text_get d k w)"
  "text_or ((k', v) # d) k = (if k = k' then py_str (py_or v (PStr [])) else text_or d k)"
  "int_get ((k', v) # d) k = (if k = k' then safe_int_or v 0 else int_get d k)"
  "get_or ((k', v) # d) k w = (if k = k' then v else get_or d k w)"
  by (simp_all add: text_get_def text_or_def int_get_def get_or_def)

lemma fields_append [simp]:
  "text_or (field_unless_empty k' s @ d) k = (if k = k' \<and> s \<noteq> [] then s else text_or d k)"
  "get (field_unless_empty k' s @ d) k = (if k = k' \<and> s \<noteq> [] then PStr s else get d k)"
  "int_get (field_unless_empty k' s @ d) k = (if k = k' \<and> s \<noteq> [] then safe_int_or (PStr s) 0 else int_get d k)"
  by (simp_all add: field_unless_empty_def)

lemma fields_lock [simp]:
  "text_or (transport_lock_part p) k = (if k = ''transport_lock'' then lower_text (strip (text_or p ''transport_lock'')) else [])"
  "get (transport_lock_part p) k = (if k = ''transport_lock'' \<and> strip (text_or p k) \<noteq> [] then PStr (lower_text (strip (text_or p k))) else PNone)"
  "k \<noteq> ''transport_lock'' \<Longrightarrow> int_get (transport_lock_part p) k = Inr 0"
  by (simp_all add: transport_lock_part_def field_unless_empty_def text_or_def int_get_def get_or_def get_def safe_int_or_def)

lemma transport_lock_idem:
  assumes "holds d fs" "text_or fs ''transport_lock'' = lower_text (strip (text_or p ''transport_lock''))"
  shows "transport_lock_part d = transport_lock_part p"
  using assms by (simp add: transport_lock_part_def strip_lower holds_fields signed_context_field_def)

lemma safe_int_Inr [simp]: "safe_int_or (PInt n) w = Inr n"
  by (simp add: safe_int_or_def)

lemma transport_lock_no_context [simp]: "map_of (transport_lock_part p) ''signed_context'' = None"
  by (simp add: transport_lock_part_def)

lemma payload_idem:
  assumes "with_context (\<lambda>p. bnd (G p) (\<lambda>x. Inr (fs p x @ transport_lock_part p))) p = Inr n"
    and "\<And>x. map_of (fs p x) signed_context_field = None" "\<And>x. text_or (fs p x @ transport_lock_part p) ''transport_lock'' = lower_text (strip (text_or p ''transport_lock''))"
    and "\<And>x d. G p = Inr x \<Longrightarrow> holds d (fs p x @ transport_lock_part p) \<Longrightarrow> \<exists>y. G d = Inr y \<and> fs d y = fs p x"
  shows "with_context (\<lambda>p. bnd (G p) (\<lambda>x. Inr (fs p x @ transport_lock_part p))) n = Inr n"
proof (rule with_context_idem [OF assms(1)])
  fix r assume "bnd (G p) (\<lambda>x. Inr (fs p x @ transport_lock_part p)) = Inr r"
  then obtain x where x: "G p = Inr x" "r = fs p x @ transport_lock_part p" by (auto simp: bnd_eq_Inr)
  then show "map_of r signed_context_field = None" using assms(2) by (simp add: map_add_def signed_context_field_def)
  fix d assume d: "holds d r"
  then have "transport_lock_part d = transport_lock_part p" unfolding x by (intro transport_lock_idem [of d]) (auto simp: assms(3))
  then show "bnd (G d) (\<lambda>x. Inr (fs d x @ transport_lock_part d)) = Inr r" using assms(4) [OF x(1) d [unfolded x]] by (auto simp: x)
qed

lemma payload_idem_simple:
  assumes "with_context (\<lambda>p. Inr (fs p @ transport_lock_part p)) p = Inr n"
    and "map_of (fs p) signed_context_field = None" "text_or (fs p @ transport_lock_part p) ''transport_lock'' = lower_text (strip (text_or p ''transport_lock''))"
    and "\<And>d. holds d (fs p @ transport_lock_part p) \<Longrightarrow> fs d = fs p"
  shows "with_context (\<lambda>p. Inr (fs p @ transport_lock_part p)) n = Inr n"
proof (rule payload_idem [of "\<lambda>_. Inr ()" "\<lambda>p _. fs p", unfolded bnd_Inr])
  show "\<exists>y. Inr () = (Inr y :: unit res) \<and> fs d = fs p" if "holds d (fs p @ transport_lock_part p)" for x d using assms(4) [OF that] by auto
qed (fact assms(1-3))+

lemma message_idem: "normalize_message_payload p = Inr n \<Longrightarrow> normalize_message_payload n = Inr n"
  unfolding normalize_message_payload_def
  by (erule payload_idem_simple) (simp_all add: signed_context_field_def holds_fields)

lemma dm_block_idem: "normalize_dm_block_payload p = Inr n \<Longrightarrow> normalize_dm_block_payload n = Inr n"
  unfolding normalize_dm_block_payload_def
  by (erule payload_idem_simple) (simp_all add: signed_context_field_def holds_fields)

lemma dm_key_idem: "normalize_dm_key_payload p = Inr n \<Longrightarrow> normalize_dm_key_payload n = Inr n"
  unfolding normalize_dm_key_payload_def
  by (erule payload_idem) (simp_all add: signed_context_field_def holds_fields)

lemma dm_key_witness_idem: "normalize_dm_key_witness_payload p = Inr n \<Longrightarrow> normalize_dm_key_witness_payload n = Inr n"
  unfolding normalize_dm_key_witness_payload_def
  by (erule payload_idem) (simp_all add: signed_context_field_def holds_fields)

lemma trust_vouch_idem: "normalize_trust_vouch_payload p = Inr n \<Longrightarrow> normalize_trust_vouch_payload n = Inr n"
  unfolding normalize_trust_vouch_payload_def
  by (erule payload_idem) (simp_all add: signed_context_field_def holds_fields)

lemma key_rotate_idem: "normalize_key_rotate_payload p = Inr n \<Longrightarrow> normalize_key_rotate_payload n = Inr n"
  unfolding normalize_key_rotate_payload_def
  by (erule payload_idem) (simp_all add: signed_context_field_def holds_fields)

lemma key_revoke_idem: "normalize_key_revoke_payload p = Inr n \<Longrightarrow> normalize_key_revoke_payload n = Inr n"
proof -
  let ?G = "\<lambda>p. bnd (int_get p ''revoked_at'') (\<lambda>a. bnd (int_get p ''grace_until'') (\<lambda>g. Inr (a, g)))"
  let ?fs = "\<lambda>p x. [(''revoked_public_key'', PStr (text_get p ''revoked_public_key'' (PStr []))), (''revoked_public_key_algo'', PStr (text_get p ''revoked_public_key_algo'' (PStr []))),
       (''revoked_at'', PInt (fst x)), (''grace_until'', PInt (snd x)), (''reason'', PStr (take 140 (text_get p ''reason'' (PStr []))))]"
  have eq: "normalize_key_revoke_payload = with_context (\<lambda>p. bnd (?G p) (\<lambda>x. Inr (?fs p x @ transport_lock_part p)))"
    unfolding normalize_key_revoke_payload_def by (rule arg_cong [of _ _ with_context]) (auto simp: bnd_def split: sum.splits)
  show "normalize_key_revoke_payload n = Inr n" if "normalize_key_revoke_payload p = Inr n"
    using that unfolding eq
    by (rule payload_idem) (auto simp: signed_context_field_def holds_fields bnd_eq_Inr)
qed

lemma mailbox_claims_idem:
  assumes "get_or d ''mailbox_claims'' (PList []) = PList (normalize_mailbox_claims p)"
  shows "normalize_mailbox_claims d = normalize_mailbox_claims p"
proof -
  have claim: "\<exists>e. c = PDict e \<and> mailbox_claim e = c" if "c \<in> set (normalize_mailbox_claims p)" for c
    using that by (auto simp: normalize_mailbox_claims_def map_filter_def mailbox_claim_def split: pyval.splits)
  have "List.map_filter (\<lambda>c. case c of PDict d \<Rightarrow> Some (mailbox_claim d) | _ \<Rightarrow> None) cs = cs" if "\<forall>c \<in> set cs. \<exists>e. c = PDict e \<and> mailbox_claim e = c" for cs
    using that by (induction cs) (auto simp: List.map_filter_simps split: pyval.splits)
  then show ?thesis using assms claim by (simp add: normalize_mailbox_claims_def [of d])
qed

lemma dm_poll_idem: "normalize_dm_poll_payload p = Inr n \<Longrightarrow> normalize_dm_poll_payload n = Inr n"
  unfolding normalize_dm_poll_payload_def
proof (erule payload_idem)
  fix x d
  let ?fs = "\<lambda>p x. [(''mailbox_claims'', PList (normalize_mailbox_claims p)), (''timestamp'', PInt x), (''nonce'', PStr (text_get p ''nonce'' (PStr [])))]"
  assume "int_get p ''timestamp'' = Inr x" and d: "holds d (?fs p x @ transport_lock_part p)"
  have "normalize_mailbox_claims d = normalize_mailbox_claims p"
    by (rule mailbox_claims_idem) (simp add: holds_fields [OF d] signed_context_field_def)
  then show "\<exists>y. int_get d ''timestamp'' = Inr y \<and> ?fs d y = ?fs p x"
    by (simp add: holds_fields [OF d] signed_context_field_def)
qed (simp_all add: signed_context_field_def)

lemma vote_idem: "normalize_vote_payload p = Inr n \<Longrightarrow> normalize_vote_payload n = Inr n"
  unfolding normalize_vote_payload_def
  by (erule with_context_idem) (auto simp: bnd_eq_Inr signed_context_field_def holds_fields)

lemma gate_create_idem: "normalize_gate_create_payload p = Inr n \<Longrightarrow> normalize_gate_create_payload n = Inr n"
  unfolding normalize_gate_create_payload_def
  by (erule with_context_idem) (auto simp: signed_context_field_def holds_fields split: pyval.splits)

lemma gate_message_idem:
  assumes "normalize_gate_message_payload p = Inr n" "get n ''format'' \<noteq> PStr []"
  shows "normalize_gate_message_payload n = Inr n"
proof -
  let ?fmt = "lower_text (strip (py_str (py_or (get_or p ''format'' (PStr ''mls1'')) (PStr ''mls1''))))"
  let ?fs = "\<lambda>p epoch. [(''gate'', PStr (lower_text (strip (text_get p ''gate'' (PStr []))))), (''ciphertext'', PStr (text_get p ''ciphertext'' (PStr []))),
       (''nonce'', PStr (text_get p ''nonce'' (get_or p ''iv'' (PStr [])))), (''sender_ref'', PStr (text_get p ''sender_ref'' (PStr []))),
       (''format'', PStr (lower_text (strip (py_str (py_or (get_or p ''format'' (PStr ''mls1'')) (PStr ''mls1''))))))]
      @ (if 0 < epoch then [(''epoch'', PInt epoch)] else [])
      @ field_unless_empty ''gate_envelope'' (strip (text_or p ''gate_envelope''))
      @ field_unless_empty ''envelope_hash'' (strip (text_or p ''envelope_hash''))
      @ field_unless_empty ''reply_to'' (strip (text_or p ''reply_to''))"
  have eq: "normalize_gate_message_payload = with_context (\<lambda>p. bnd (int_get p ''epoch'') (\<lambda>epoch. Inr (?fs p epoch @ transport_lock_part p)))"
    unfolding normalize_gate_message_payload_def by simp
  show ?thesis
    using assms(1) unfolding eq
  proof (rule payload_idem)
    fix x d
    assume "int_get p ''epoch'' = Inr x" and d: "holds d (?fs p x @ transport_lock_part p)"
    have "get n ''format'' = PStr ?fmt" using assms(1) by (auto simp: eq with_context_def bnd_eq_Inr)
    then have fmt: "?fmt \<noteq> []" using assms(2) by metis
    then show "\<exists>y. int_get d ''epoch'' = Inr y \<and> ?fs d y = ?fs p x"
      by (cases "0 < x") (simp_all add: holds_fields [OF d] signed_context_field_def strip_lower)
  qed (auto simp: signed_context_field_def)
qed

text \<open>Every float of the payload is one of the format and prints (a \<open>Fin\<close> holds any rational, also those no double has).\<close>

definition floats_ok :: "pydict \<Rightarrow> bool" where
  "floats_ok d = list_all (\<lambda>(k, v). case v of PFloat x \<Rightarrow> fval x \<and> float_repr x \<noteq> [] | _ \<Rightarrow> True) d"

lemma floats_ok_get: "floats_ok d \<Longrightarrow> get d k = PFloat x \<Longrightarrow> fval x \<and> float_repr x \<noteq> []"
  by (induction d) (auto simp: floats_ok_def get_def split: if_splits option.splits)

lemma dm_message_idem:
  assumes "normalize_dm_message_payload p = Inr n" "floats_ok p" "get n ''format'' \<noteq> PStr []"
  shows "normalize_dm_message_payload n = Inr n"
proof -
  let ?fmt = "lower_text (strip (py_str (py_or (get_or p ''format'' (PStr ''dm1'')) (PStr ''dm1''))))"
  let ?fs = "\<lambda>p ts. [(''recipient_id'', PStr (text_get p ''recipient_id'' (PStr []))), (''delivery_class'', PStr (lower_text (text_get p ''delivery_class'' (PStr [])))),
       (''recipient_token'', PStr (text_get p ''recipient_token'' (PStr []))), (''ciphertext'', PStr (text_get p ''ciphertext'' (PStr []))),
       (''msg_id'', PStr (text_get p ''msg_id'' (PStr []))), (''timestamp'', PInt ts),
       (''format'', PStr (lower_text (strip (py_str (py_or (get_or p ''format'' (PStr ''dm1'')) (PStr ''dm1''))))))]
      @ (if truthy (get p ''session_welcome'') then [(''session_welcome'', PStr (py_str (get p ''session_welcome'')))] else [])
      @ field_unless_empty ''sender_seal'' (text_or p ''sender_seal'')
      @ field_unless_empty ''relay_salt'' (lower_text (strip (text_or p ''relay_salt'')))"
  have eq: "normalize_dm_message_payload = with_context (\<lambda>p. bnd (int_get p ''timestamp'') (\<lambda>ts. Inr (?fs p ts @ transport_lock_part p)))"
    unfolding normalize_dm_message_payload_def by simp
  show ?thesis
    using assms(1) unfolding eq
  proof (rule payload_idem)
    fix x d
    assume "int_get p ''timestamp'' = Inr x" and d: "holds d (?fs p x @ transport_lock_part p)"
    have "get n ''format'' = PStr ?fmt" using assms(1) by (auto simp: eq with_context_def bnd_eq_Inr)
    then have fmt: "?fmt \<noteq> []" using assms(3) by metis
    then show "\<exists>y. int_get d ''timestamp'' = Inr y \<and> ?fs d y = ?fs p x"
      using py_str_truthy [of "get p ''session_welcome''"] floats_ok_get [OF assms(2), of "''session_welcome''"]
      by (cases "truthy (get p ''session_welcome'')") (simp_all add: holds_fields [OF d] signed_context_field_def strip_lower)
  qed (auto simp: signed_context_field_def)
qed

lemma float_of_int_fval: "float_of_int n = Inr x \<Longrightarrow> fval x"
  by (auto simp: float_of_int_def float_of_rat_exact_def split: if_splits)

lemma parse_float_fval: "parse_float s = Some x \<Longrightarrow> fval x"
  by (auto simp: parse_float_def Let_def split: option.splits prod.splits if_splits)

lemma floats_ok_float:
  assumes "floats_ok d" "py_float (get_or d k (PFloat (Fin 0))) = Inr x"
  shows "fval x"
proof (cases "map_of d k")
  case (Some v)
  then show ?thesis using assms floats_ok_get [OF assms(1), of k]
    by (cases v) (auto simp: get_def float_of_int_fval parse_float_fval split: option.splits)
qed (use assms in auto)

lemma normalize_number_idem:
  assumes "\<And>x. py_float v = Inr x \<Longrightarrow> fval x"
  shows "normalize_number (normalize_number v) = normalize_number v"
proof (cases "py_float v")
  case (Inr x)
  show ?thesis
  proof (cases "\<exists>q. x = Fin q \<and> of_int \<lfloor>q\<rfloor> = q")
    case True
    then obtain q where q: "x = Fin q" "of_int \<lfloor>q\<rfloor> = q" by blast
    then have "fl q = Fin q" using assms [OF Inr] by (intro fl_exact) (auto simp: in_range_def)
    then have "float_of_int \<lfloor>q\<rfloor> = Inr (Fin q)" unfolding float_of_int_def q(2) by (simp add: float_of_rat_exact_def)
    then show ?thesis by (simp add: normalize_number_def Inr q)
  next
    case False
    then show ?thesis using Inr by (cases x) (simp_all add: normalize_number_def)
  qed
qed (simp add: normalize_number_def)

lemma sar_float_get: "sar_float ((k', v) # d) k = (if k = k' then catching type_or_value (py_float (py_or v (PFloat (Fin 0)))) (Inr (Fin 0)) else sar_float d k)"
  by (simp add: sar_float_def)

lemma sar_int_get: "sar_int ((k', v) # d) k = (if k = k' then catching type_or_value (py_int (py_or v (PInt 0))) (Inr 0) else sar_int d k)"
  by (simp add: sar_int_def)

lemma py_or_zero [simp]: "py_or (PFloat x) (PFloat (Fin 0)) = PFloat x" "py_or (PInt n) (PInt 0) = PInt n"
  by (simp_all add: py_or_def)

lemma sar_idem: "normalize_sar_anomaly_payload p = Inr n \<Longrightarrow> normalize_sar_anomaly_payload n = Inr n"
  by (auto simp: normalize_sar_anomaly_payload_def bnd_eq_Inr sar_float_get sar_int_get)

lemma stake_idem: "normalize_stake_payload p = Inr n \<Longrightarrow> floats_ok p \<Longrightarrow> normalize_stake_payload n = Inr n"
  by (auto simp: normalize_stake_payload_def bnd_eq_Inr intro!: normalize_number_idem floats_ok_float)

lemma prediction_idem: "floats_ok p \<Longrightarrow> normalize_prediction_payload (normalize_prediction_payload p) = normalize_prediction_payload p"
  by (simp add: normalize_prediction_payload_def normalize_number_idem floats_ok_float)

lemma abuse_report_idem: "normalize_abuse_report_payload (normalize_abuse_report_payload p) = normalize_abuse_report_payload p"
  by (simp add: normalize_abuse_report_payload_def)

text \<open>
  C33: A payload that has been normalised is in normal form: normalising it again changes nothing, so a
  node that verifies what it received computes the text the author signed. This holds for every event
  type, with two conditions. The first: the format of the normalised payload is not the empty text, where
  the type is \<open>gate_message\<close> or \<open>dm_message\<close> (the normal form of a blank format is not normal, as
  \<open>blank_format_twice\<close> shows). The second, \<open>floats_ok\<close>: every float among the fields is one a Python
  float can hold and its text is not empty, so that the model's rationals stay those of the program.
\<close>

theorem normalize_idempotent:
  assumes "normalize_payload et p = Inr n" "floats_ok p" "et \<in> {''gate_message'', ''dm_message''} \<longrightarrow> get n ''format'' \<noteq> PStr []"
  shows "normalize_payload et n = Inr n"
  using assms unfolding normalize_payload_def normalize_dm_count_payload_def
  by (auto simp: message_idem gate_message_idem vote_idem gate_create_idem prediction_idem stake_idem dm_key_idem dm_message_idem dm_poll_idem
      dm_block_idem dm_key_witness_idem trust_vouch_idem key_rotate_idem key_revoke_idem abuse_report_idem sar_idem split: if_splits)

subsection \<open>What a signed context binds\<close>

lemma same_value_dict:
  assumes "same_value (PDict d) (PDict e)" "distinct (map fst d)" "distinct (map fst e)"
  shows "rel_option same_value (map_of d k) (map_of e k)"
proof -
  have len: "length d = length e" and all: "\<And>k v. (k, v) \<in> set d \<Longrightarrow> \<exists>w. map_of e k = Some w \<and> same_value v w"
    using assms(1) by (auto simp: same_value.simps [of "PDict d"] list_all_iff split: option.splits)
  have sub: "fst ` set d \<subseteq> fst ` set e" using all by (force dest!: map_of_SomeD)
  have "card (fst ` set d) = card (fst ` set e)"
    using distinct_card [OF assms(2)] distinct_card [OF assms(3)] len by simp
  with sub have keys: "fst ` set d = fst ` set e" by (intro card_subset_eq) auto
  show ?thesis
  proof (cases "map_of d k")
    case None
    then have "map_of e k = None" using keys by (simp add: map_of_eq_None_iff)
    with None show ?thesis by simp
  next
    case (Some v)
    then show ?thesis using all [OF map_of_SomeD [OF Some]] by auto
  qed
qed

lemma same_value_text [simp]: "same_value v (PStr s) \<longleftrightarrow> v = PStr s" "same_value (PStr s) v \<longleftrightarrow> v = PStr s"
  by (cases v; auto simp: same_value.simps)+

lemma same_value_PInt: "same_value v (PInt n) \<Longrightarrow> same_value v (PInt m) \<Longrightarrow> n = m"
  by (cases v) (auto simp: same_value.simps elim: feq.elims)

lemma normalize_signed_context_distinct: "normalize_signed_context v = Inr d \<Longrightarrow> distinct (map fst d)"
  by (auto simp: normalize_signed_context_def field_unless_empty_def bnd_eq_Inr split: pyval.splits)

lemma build_signed_context_distinct: "build_signed_context P rq p = Inr d \<Longrightarrow> distinct (map fst d)"
  by (auto simp: build_signed_context_def bnd_eq_Inr)

lemma build_signed_context_fields:
  assumes "build_signed_context P rq p = Inr e"
  shows "\<exists>h. payload_body_hash P (rq_event_type rq) p = Inr h \<and> map_of e ''body_hash'' = Some (PStr h)"
    "map_of e ''event_type'' = Some (PStr (rq_event_type rq))" "map_of e ''kind'' = Some (PStr (rq_kind rq))"
    "map_of e ''endpoint'' = Some (PStr (rq_endpoint rq))" "map_of e ''lane_floor'' = Some (PStr (lower_text (strip (rq_lane_floor rq))))"
    "map_of e ''sequence_domain'' = Some (PStr (rq_sequence_domain rq))" "map_of e ''node_id'' = Some (PStr (rq_node_id rq))"
    "map_of e ''sequence'' = Some (PInt (rq_sequence rq))"
    "map_of e ''gate_id'' = (if rq_gate_id rq = [] then None else Some (PStr (lower_text (strip (rq_gate_id rq)))))"
    "map_of e ''recipient_id'' = (if rq_recipient_id rq = [] then None else Some (PStr (strip (rq_recipient_id rq))))"
    "map_of e ''target_id'' = (if rq_target_id rq = [] then None else Some (PStr (strip (rq_target_id rq))))"
  using assms by (auto simp: build_signed_context_def bnd_eq_Inr)

lemma validate_signed_context_ok:
  assumes "validate_signed_context P rq p = Inr (True, ''signed_context_ok'')"
  shows "\<exists>d e. normalize_signed_context (get p signed_context_field) = Inr d \<and> build_signed_context P rq p = Inr e
    \<and> (\<forall>k. rel_option same_value (map_of d k) (map_of e k))"
proof -
  obtain d e where de: "normalize_signed_context (get p signed_context_field) = Inr d" "build_signed_context P rq p = Inr e" "same_value (PDict d) (PDict e)"
    using assms by (auto simp: validate_signed_context_def bnd_eq_Inr split: if_splits)
  then show ?thesis using same_value_dict [OF de(3) normalize_signed_context_distinct [OF de(1)] build_signed_context_distinct [OF de(2)]] by blast
qed

text \<open>
  C34: A signed context binds the request: two requests that are accepted with the same supplied context
  have the same event type, kind, endpoint, lane floor, sequence domain, author and sequence number, the same gate,
  recipient and target, and the normal forms of their bodies hash to the same value, so they are the same text
  unless they are a collision of SHA-256.
\<close>

theorem signed_context_binds:
  assumes "validate_signed_context P rq p = Inr (True, ''signed_context_ok'')"
    and "validate_signed_context P rq' p' = Inr (True, ''signed_context_ok'')"
    and "get p signed_context_field = get p' signed_context_field"
  shows "rq_event_type rq = rq_event_type rq' \<and> rq_kind rq = rq_kind rq' \<and> rq_endpoint rq = rq_endpoint rq'
      \<and> lower_text (strip (rq_lane_floor rq)) = lower_text (strip (rq_lane_floor rq'))
      \<and> rq_sequence_domain rq = rq_sequence_domain rq' \<and> rq_node_id rq = rq_node_id rq' \<and> rq_sequence rq = rq_sequence rq'
      \<and> lower_text (strip (rq_gate_id rq)) = lower_text (strip (rq_gate_id rq'))
      \<and> strip (rq_recipient_id rq) = strip (rq_recipient_id rq') \<and> strip (rq_target_id rq) = strip (rq_target_id rq')
      \<and> (\<exists>n n'. normalize_payload (rq_event_type rq) (without signed_context_field p) = Inr n
          \<and> normalize_payload (rq_event_type rq) (without signed_context_field p') = Inr n'
          \<and> sha256 P (canonical_json (without signed_context_field n)) = sha256 P (canonical_json (without signed_context_field n')))"
proof -
  obtain d e where e: "build_signed_context P rq p = Inr e" "normalize_signed_context (get p signed_context_field) = Inr d"
      "\<And>k. rel_option same_value (map_of d k) (map_of e k)" using validate_signed_context_ok [OF assms(1)] by blast
  obtain d' e' where e': "build_signed_context P rq' p' = Inr e'" "normalize_signed_context (get p' signed_context_field) = Inr d'"
      "\<And>k. rel_option same_value (map_of d' k) (map_of e' k)" using validate_signed_context_ok [OF assms(2)] by blast
  have "d' = d" using e(2) e'(2) assms(3) by simp
  then have both: "rel_option same_value (map_of d k) (map_of e k) \<and> rel_option same_value (map_of d k) (map_of e' k)" for k
    using e(3) e'(3) by blast
  have texts: "map_of e k = map_of e' k" if "map_of e k = None \<or> (\<exists>s. map_of e k = Some (PStr s))" for k
    using that both [of k] by (cases "map_of d k"; cases "map_of e k"; cases "map_of e' k") auto
  note f = build_signed_context_fields [OF e(1)] and f' = build_signed_context_fields [OF e'(1)]
  have "rq_event_type rq = rq_event_type rq' \<and> rq_kind rq = rq_kind rq' \<and> rq_endpoint rq = rq_endpoint rq'
      \<and> lower_text (strip (rq_lane_floor rq)) = lower_text (strip (rq_lane_floor rq'))
      \<and> rq_sequence_domain rq = rq_sequence_domain rq' \<and> rq_node_id rq = rq_node_id rq'"
    using texts [of "''event_type''"] texts [of "''kind''"] texts [of "''endpoint''"] texts [of "''lane_floor''"]
      texts [of "''sequence_domain''"] texts [of "''node_id''"] by (simp add: f(2-7) f'(2-7))
  moreover have "rq_sequence rq = rq_sequence rq'"
    using both [of "''sequence''"] same_value_PInt by (auto simp: f(8) f'(8) option_rel_Some2)
  moreover have "lower_text (strip (rq_gate_id rq)) = lower_text (strip (rq_gate_id rq')) \<and> strip (rq_recipient_id rq) = strip (rq_recipient_id rq')
      \<and> strip (rq_target_id rq) = strip (rq_target_id rq')"
  proof -
    have "map_of e ''gate_id'' = map_of e' ''gate_id''" "map_of e ''recipient_id'' = map_of e' ''recipient_id''" "map_of e ''target_id'' = map_of e' ''target_id''"
      by (rule texts; simp add: f(9-11))+
    then show ?thesis by (auto simp: f(9-11) f'(9-11) split: if_splits)
  qed
  moreover have "\<exists>h. payload_body_hash P (rq_event_type rq) p = Inr h \<and> payload_body_hash P (rq_event_type rq') p' = Inr h"
    using f(1) f'(1) texts [of "''body_hash''"] by auto
  ultimately show ?thesis by (auto simp: payload_body_hash_def bnd_eq_Inr)
qed

subsection \<open>On concrete payloads\<close>

definition lowering_primitives :: primitives where
  "lowering_primitives = \<lparr>sha256 = lower_text, nfc = (\<lambda>s. s)\<rparr>"

definition example_request :: request_context where
  "example_request = \<lparr>rq_event_type = ''vote'', rq_kind = ''k'', rq_endpoint = ''/v'', rq_lane_floor = ''Weak'', rq_sequence_domain = ''v'',
     rq_node_id = ''n'', rq_sequence = 3, rq_gate_id = [], rq_recipient_id = [], rq_target_id = ''T''\<rparr>"

definition example_context :: pydict where
  "example_context = [(''protocol'', PStr ''shadowbroker''), (''version'', PInt 1), (''event_type'', PStr ''vote''), (''kind'', PStr ''k''),
     (''endpoint'', PStr ''/v''), (''lane_floor'', PStr ''weak''), (''sequence_domain'', PStr ''v''), (''node_id'', PStr ''n''), (''sequence'', PInt 3),
     (''target_id'', PStr ''T''),
     (''body_hash'', PStr (lower_text (canonical_json [(''gate'', PStr ''g''), (''target_id'', PStr ''t''), (''vote'', PInt 1)])))]"

definition example_vote :: "pyval \<Rightarrow> pydict" where
  "example_vote v = [(''target_id'', PStr ''t''), (''vote'', v), (''gate'', PStr ''g''), (''signed_context'', PDict example_context)]"

lemma example_votes_accepted:
  "validate_signed_context lowering_primitives example_request (example_vote (PInt 1)) = Inr (True, ''signed_context_ok'')"
  "validate_signed_context lowering_primitives example_request (example_vote (PBool True)) = Inr (True, ''signed_context_ok'')"
  by code_simp+

lemma signed_context_binds_witness:
  "\<exists>n n'. normalize_payload ''vote'' (without signed_context_field (example_vote (PInt 1))) = Inr n
     \<and> normalize_payload ''vote'' (without signed_context_field (example_vote (PBool True))) = Inr n'
     \<and> sha256 lowering_primitives (canonical_json (without signed_context_field n)) = sha256 lowering_primitives (canonical_json (without signed_context_field n'))"
  using signed_context_binds [OF example_votes_accepted] by (simp add: example_vote_def signed_context_field_def example_request_def)

lemma normalize_idempotent_witness:
  "normalize_payload ''dm_block'' [(''blocked_id'', PStr ''b''), (''action'', PStr ''block'')] = Inr [(''blocked_id'', PStr ''b''), (''action'', PStr ''block'')]"
proof -
  have "normalize_payload ''dm_block'' [(''blocked_id'', PStr ''b''), (''action'', PStr ''BLOCK''), (''extra'', PFloat PosInf)]
      = Inr [(''blocked_id'', PStr ''b''), (''action'', PStr ''block'')]"
    by code_simp
  then show ?thesis by (rule normalize_idempotent) (simp_all add: floats_ok_def)
qed

text \<open>A blank format is not empty, so the default does not replace it, and the result is empty, which it does.\<close>

lemma blank_format_twice:
  "bnd (normalize_payload ''gate_message'' [(''format'', PStr '' '')]) (\<lambda>n. Inr (get n ''format'')) = Inr (PStr [])"
  "bnd (normalize_payload ''gate_message'' [(''format'', PStr '' '')]) (\<lambda>n. bnd (normalize_payload ''gate_message'' n) (\<lambda>n. Inr (get n ''format'')))
     = Inr (PStr ''mls1'')"
  by code_simp+

text \<open>
  Python takes \<open>True\<close>, \<open>1\<close> and \<open>1.0\<close> as equal, so all three equal their normal form and are signed as \<open>1\<close>;
  as JSON they are three texts.
\<close>

lemma equal_but_not_canonical:
  defines "p \<equiv> \<lambda>v. [(''target_id'', PStr ''t''), (''vote'', v), (''gate'', PStr ''g'')]"
  shows "normalize_payload ''vote'' (p (PBool True)) = Inr (p (PInt 1))" "same_value (PDict (p (PBool True))) (PDict (p (PInt 1)))"
    "canonical_json (p (PBool True)) \<noteq> canonical_json (p (PInt 1))"
  unfolding p_def by code_simp+

end
