(* ===== verification/Mesh_Schema.thy ===== *)
theory Mesh_Schema
  imports Mesh_Protocol Ibf_Wire Events Anti_Gaming
begin

text \<open>
  \<open>services/mesh/mesh_schema.py\<close>: the validators of the ledger's own event types, the registry, what the
  public and the two private ledgers accept, and the sealed bytes those ledgers require. The registry of
  the extension types is the state of \<open>Events\<close>; \<open>log2\<close> is the C library's.
\<close>

subsection \<open>The code: sealed bytes\<close>

text \<open>
  \<open>base64.b64decode(text, validate=True)\<close>, which is \<open>binascii.a2b_base64\<close> in strict mode: only characters of the
  alphabet, then the padding, then nothing. The arguments are the position in the group of four, the bits left
  over, the number of pads and whether padding has started.
\<close>

fun a2b_strict :: "nat \<Rightarrow> nat \<Rightarrow> nat \<Rightarrow> bool \<Rightarrow> string \<Rightarrow> bytes option" where
  "a2b_strict quad rest pads started [] = (if quad = 0 then Some [] else None)"
| "a2b_strict quad rest pads started (c # cs) =
     (if c = CHR ''='' then
        if quad = 0 then None
        else if 2 \<le> quad \<and> 4 \<le> quad + (pads + 1) then (if cs \<noteq> [] then None else Some [])
        else a2b_strict quad rest (if 2 \<le> quad then pads + 1 else pads) True cs
      else if started then None
      else (case b64_value c of None \<Rightarrow> None | Some v \<Rightarrow>
          if quad = 0 then a2b_strict 1 v 0 started cs
          else if quad = 1 then map_option (Cons (word_of_nat (4 * rest + v div 16))) (a2b_strict 2 (v mod 16) 0 started cs)
          else if quad = 2 then map_option (Cons (word_of_nat (16 * rest + v div 4))) (a2b_strict 3 (v mod 4) 0 started cs)
          else map_option (Cons (word_of_nat (64 * rest + v))) (a2b_strict 0 0 0 started cs)))"

definition url_safe_char :: "char \<Rightarrow> char" where
  "url_safe_char c = (if c = CHR ''-'' then CHR ''+'' else if c = CHR ''_'' then CHR ''/'' else c)"

definition is_ascii :: "string \<Rightarrow> bool" where
  "is_ascii s = list_all (\<lambda>c. (of_char c :: nat) < 128) s"

definition decode_base64ish :: "pyval \<Rightarrow> bytes option" where
  "decode_base64ish v =
     (let raw = strip (py_str (py_or v (PStr [])));
          padded = raw @ replicate (nat ((- int (length raw)) mod 4)) (CHR ''='')
      in if raw = [] \<or> list_ex is_space raw \<or> \<not> is_ascii padded then None
         else case a2b_strict 0 0 0 False padded of
             Some bs \<Rightarrow> Some bs
           | None \<Rightarrow> a2b_strict 0 0 0 False (map url_safe_char padded))"

definition sealed_ciphertext_prefixes :: "string list" where
  "sealed_ciphertext_prefixes = [''x3dh1:'', ''dm1:'', ''mls1:'', ''sealed:'']"

definition starts_with :: "string \<Rightarrow> string \<Rightarrow> bool" where
  "starts_with s p \<longleftrightarrow> take (length p) s = p"

definition strip_sealed_ciphertext_prefix :: "string \<Rightarrow> string" where
  "strip_sealed_ciphertext_prefix s = (case find (starts_with (lower_text s)) sealed_ciphertext_prefixes of
       Some p \<Rightarrow> drop (length p) s | None \<Rightarrow> s)"

definition sealed_ciphertext_has_known_prefix :: "string \<Rightarrow> bool" where
  "sealed_ciphertext_has_known_prefix s = list_ex (starts_with (lower_text (strip s))) sealed_ciphertext_prefixes"

definition decode_sealed_ciphertext_value :: "string \<Rightarrow> bytes option" where
  "decode_sealed_ciphertext_value s =
     (if strip s = [] then None else decode_base64ish (PStr (strip_sealed_ciphertext_prefix (strip s))))"

definition byte_entropy :: "libm \<Rightarrow> bytes \<Rightarrow> pyfloat res" where
  "byte_entropy M data =
     (if data = [] then Inr (Fin 0)
      else let counts = map (\<lambda>b. count_list data (word_of_nat b)) [0..<256]; total = fl (of_nat (length data)) in
        bnd (mapres (\<lambda>c. bnd (fdiv (fl (of_nat c)) total) (\<lambda>q. Inr (fmul q (log2 M q)))) (filter (\<lambda>c. c \<noteq> 0) counts)) (\<lambda>xs.
          Inr (fneg (fsum xs))))"

text \<open>\<open>bytes.decode("utf-8")\<close> succeeds\<close>

fun utf8_valid :: "nat list \<Rightarrow> bool" where
  "utf8_valid [] = True"
| "utf8_valid (b # bs) =
     (if b < 128 then utf8_valid bs
      else if 194 \<le> b \<and> b \<le> 223 then (case bs of c # r \<Rightarrow> 128 \<le> c \<and> c < 192 \<and> utf8_valid r | _ \<Rightarrow> False)
      else if 224 \<le> b \<and> b \<le> 239 then (case bs of c # d # r \<Rightarrow>
          (if b = 224 then 160 else 128) \<le> c \<and> c < (if b = 237 then 160 else 192) \<and> 128 \<le> d \<and> d < 192 \<and> utf8_valid r | _ \<Rightarrow> False)
      else if 240 \<le> b \<and> b \<le> 244 then (case bs of c # d # e # r \<Rightarrow>
          (if b = 240 then 144 else 128) \<le> c \<and> c < (if b = 244 then 144 else 192) \<and> 128 \<le> d \<and> d < 192 \<and> 128 \<le> e \<and> e < 192 \<and> utf8_valid r | _ \<Rightarrow> False)
      else False)"

definition printable_byte :: "8 word \<Rightarrow> bool" where
  "printable_byte b \<longleftrightarrow> 32 \<le> b \<and> b \<le> 126 \<or> b = 9 \<or> b = 10 \<or> b = 13"

text \<open>The calls leave \<open>min_bytes\<close> at 8 and \<open>entropy_floor\<close> at 2.5.\<close>

definition validate_sealed_bytes_field :: "libm \<Rightarrow> pydict \<Rightarrow> string \<Rightarrow> verdict res" where
  "validate_sealed_bytes_field M p field =
     (let raw = strip (text_or p field) in
      case decode_sealed_ciphertext_value raw of
        None \<Rightarrow> Inr (False, field @ '' must be base64-encoded sealed bytes'')
      | Some data \<Rightarrow>
          if length data < 8 then Inr (False, field @ '' is too short'')
          else if sealed_ciphertext_has_known_prefix raw then Inr (True, ''ok'')
          else if 32 \<le> length data then
            bnd (int_truediv (int (length (filter printable_byte data))) (int (length data))) (\<lambda>share.
              if flt (fl (9 / 10)) share \<and> utf8_valid (map unat data) then Inr (False, field @ '' looks like encoded plaintext'')
              else bnd (byte_entropy M data) (\<lambda>entropy.
                if flt entropy (Fin (5 / 2)) then Inr (False, field @ '' entropy is too low for sealed bytes'') else Inr (True, ''ok'')))
          else Inr (True, ''ok''))"

subsection \<open>The code: validators\<close>

text \<open>\<open>payload.get(k) in (n1, n2)\<close>: numbers by value\<close>

definition in_ints :: "pyval \<Rightarrow> int list \<Rightarrow> bool" where
  "in_ints v ns = num_cmp (\<lambda>x. \<exists>n \<in> set ns. feq x (Fin (of_int n))) v"

definition blank_text :: "pydict \<Rightarrow> string \<Rightarrow> bool" where
  "blank_text p k \<longleftrightarrow> strip (text_get p k (PStr [])) = []"

text \<open>\<open>_safe_int(payload.get(k, 0) or 0, 0)\<close>\<close>

definition int_or_zero :: "pydict \<Rightarrow> string \<Rightarrow> int res" where
  "int_or_zero p k = safe_int_or (py_or (get_or p k (PInt 0)) (PInt 0)) 0"

definition validate_message :: "pydict \<Rightarrow> verdict res" where
  "validate_message p = checked [''message'', ''destination'', ''channel'', ''priority'', ''ephemeral'']
    [(\<lambda>p. \<not> in_strs (get p ''priority'') [''normal'', ''high'', ''emergency'', ''low''], ''Invalid priority''),
     (\<lambda>p. \<not> is_bool (get p ''ephemeral''), ''ephemeral must be boolean'')] (PDict p)"

definition validate_gate_message :: "pydict \<Rightarrow> verdict res" where
  "validate_gate_message p = required [''gate'', ''ciphertext'', ''nonce'', ''sender_ref''] (PDict p) (\<lambda>p.
     if has_key p ''message'' then Inr (False, ''plaintext gate message field is not allowed'')
     else if blank_text p ''gate'' then Inr (False, ''gate cannot be empty'')
     else bnd (if has_key p ''epoch'' then bnd (int_or_zero p ''epoch'') (\<lambda>e. Inr (e \<le> 0))
               else Inr (blank_text p ''ciphertext'' \<and> blank_text p ''nonce'' \<and> blank_text p ''sender_ref'')) (\<lambda>bad_epoch.
       Inr (if bad_epoch then (False, ''epoch must be a positive integer'')
            else if blank_text p ''ciphertext'' then (False, ''ciphertext cannot be empty'')
            else if blank_text p ''nonce'' then (False, ''nonce cannot be empty'')
            else if blank_text p ''sender_ref'' then (False, ''sender_ref cannot be empty'')
            else if lower_text (strip (py_str (py_or (get_or p ''format'' (PStr ''mls1'')) (PStr ''mls1'')))) \<noteq> ''mls1''
            then (False, ''Unsupported gate message format'')
            else (True, ''ok''))))"

definition validate_vote :: "pydict \<Rightarrow> verdict res" where
  "validate_vote p = checked [''target_id'', ''vote'', ''gate'']
    [(\<lambda>p. \<not> in_ints (get p ''vote'') [- 1, 1], ''Invalid vote'')] (PDict p)"

definition mesh_validate_gate_create :: "pydict \<Rightarrow> verdict res" where
  "mesh_validate_gate_create p = checked [''gate_id'', ''display_name'', ''rules'']
    [(\<lambda>p. \<not> is_dict (get p ''rules''), ''rules must be an object'')] (PDict p)"

definition validate_prediction :: "pydict \<Rightarrow> verdict res" where
  "validate_prediction p = checked [''market_title'', ''side'', ''stake_amount''] [] (PDict p)"

definition validate_stake :: "pydict \<Rightarrow> verdict res" where
  "validate_stake p = checked [''message_id'', ''poster_id'', ''side'', ''amount'', ''duration_days''] [] (PDict p)"

definition validate_dm_block :: "pydict \<Rightarrow> verdict res" where
  "validate_dm_block p = checked [''blocked_id'', ''action'']
    [(\<lambda>p. \<not> in_strs (get p ''action'') [''block'', ''unblock''], ''Invalid action'')] (PDict p)"

definition validate_dm_key :: "pydict \<Rightarrow> verdict res" where
  "validate_dm_key p = checked [''dh_pub_key'', ''dh_algo'', ''timestamp'']
    [(\<lambda>p. \<not> in_strs (get p ''dh_algo'') [''X25519'', ''ECDH'', ''ECDH_P256''], ''Invalid dh_algo'')] (PDict p)"

definition validate_dm_message :: "pydict \<Rightarrow> verdict res" where
  "validate_dm_message p = required [''recipient_id'', ''delivery_class'', ''recipient_token'', ''ciphertext'', ''msg_id'', ''timestamp''] (PDict p) (\<lambda>p.
     let delivery_class = lower_text (text_get p ''delivery_class'' (PStr []));
         dm_format = lower_text (strip (py_str (py_or (get_or p ''format'' (PStr ''mls1'')) (PStr ''mls1''))))
     in Inr (if delivery_class \<notin> {''request'', ''shared''} then (False, ''Invalid delivery_class'')
        else if delivery_class = ''shared'' \<and> blank_text p ''recipient_token'' then (False, ''recipient_token required for shared delivery'')
        else if dm_format \<notin> {''mls1'', ''dm1''} then (False, ''Unknown DM format: '' @ dm_format)
        else (True, ''ok'')))"

fun validate_claims :: "pyval list \<Rightarrow> verdict" where
  "validate_claims [] = (True, ''ok'')"
| "validate_claims (PDict c # cs) =
     (let claim_type = lower_text (text_get c ''type'' (PStr [])) in
      if claim_type \<notin> {''self'', ''requests'', ''shared''} then (False, ''Invalid mailbox claim type'')
      else if blank_text c ''token'' then (False, claim_type @ '' mailbox claims require token'')
      else validate_claims cs)"
| "validate_claims (_ # cs) = (False, ''mailbox_claims entries must be objects'')"

definition validate_mailbox_claims :: "pyval \<Rightarrow> verdict" where
  "validate_mailbox_claims claims = (case claims of
       PList (c # cs) \<Rightarrow> validate_claims (c # cs)
     | _ \<Rightarrow> (False, ''mailbox_claims must be a non-empty list''))"

definition validate_dm_poll :: "pydict \<Rightarrow> verdict res" where
  "validate_dm_poll p = required [''mailbox_claims'', ''timestamp'', ''nonce''] (PDict p) (\<lambda>p. Inr (validate_mailbox_claims (get p ''mailbox_claims'')))"

definition validate_dm_count :: "pydict \<Rightarrow> verdict res" where
  "validate_dm_count p = validate_dm_poll p"

definition validate_key_rotate :: "pydict \<Rightarrow> verdict res" where
  "validate_key_rotate p = checked [''old_node_id'', ''old_public_key'', ''old_public_key_algo'', ''new_public_key'', ''new_public_key_algo'',
     ''timestamp'', ''old_signature''] [] (PDict p)"

definition validate_key_revoke :: "pydict \<Rightarrow> verdict res" where
  "validate_key_revoke p = required [''revoked_public_key'', ''revoked_public_key_algo'', ''revoked_at'', ''grace_until'', ''reason''] (PDict p) (\<lambda>p.
     bnd (int_or_zero p ''revoked_at'') (\<lambda>revoked_at. bnd (int_or_zero p ''grace_until'') (\<lambda>grace_until.
       Inr (if revoked_at \<le> 0 then (False, ''revoked_at must be a positive timestamp'')
            else if grace_until < revoked_at then (False, ''grace_until must be >= revoked_at'')
            else (True, ''ok'')))))"

definition validate_abuse_report :: "pydict \<Rightarrow> verdict res" where
  "validate_abuse_report p = checked [''target_id'', ''reason'']
    [(\<lambda>p. blank_text p ''reason'', ''reason cannot be empty'')] (PDict p)"

subsection \<open>The code: the registry and the ledgers\<close>

record event_schema =
  es_required_fields :: "string list"
  es_optional_fields :: "string list"
  es_validate :: "pydict \<Rightarrow> verdict res"

definition mesh_schema_registry :: "(string \<times> event_schema) list" where
  "mesh_schema_registry =
    [(''message'', \<lparr>es_required_fields = [''message'', ''destination'', ''channel'', ''priority'', ''ephemeral''], es_optional_fields = [], es_validate = validate_message\<rparr>),
     (''gate_message'', \<lparr>es_required_fields = [''gate'', ''ciphertext'', ''nonce'', ''sender_ref''], es_optional_fields = [''format''], es_validate = validate_gate_message\<rparr>),
     (''vote'', \<lparr>es_required_fields = [''target_id'', ''vote'', ''gate''], es_optional_fields = [], es_validate = validate_vote\<rparr>),
     (''gate_create'', \<lparr>es_required_fields = [''gate_id'', ''display_name'', ''rules''], es_optional_fields = [], es_validate = mesh_validate_gate_create\<rparr>),
     (''prediction'', \<lparr>es_required_fields = [''market_title'', ''side'', ''stake_amount''], es_optional_fields = [], es_validate = validate_prediction\<rparr>),
     (''stake'', \<lparr>es_required_fields = [''message_id'', ''poster_id'', ''side'', ''amount'', ''duration_days''], es_optional_fields = [], es_validate = validate_stake\<rparr>),
     (''dm_block'', \<lparr>es_required_fields = [''blocked_id'', ''action''], es_optional_fields = [], es_validate = validate_dm_block\<rparr>),
     (''dm_key'', \<lparr>es_required_fields = [''dh_pub_key'', ''dh_algo'', ''timestamp''], es_optional_fields = [], es_validate = validate_dm_key\<rparr>),
     (''dm_message'', \<lparr>es_required_fields = [''recipient_id'', ''delivery_class'', ''recipient_token'', ''ciphertext'', ''msg_id'', ''timestamp''],
        es_optional_fields = [], es_validate = validate_dm_message\<rparr>),
     (''dm_poll'', \<lparr>es_required_fields = [''mailbox_claims'', ''timestamp'', ''nonce''], es_optional_fields = [], es_validate = validate_dm_poll\<rparr>),
     (''dm_count'', \<lparr>es_required_fields = [''mailbox_claims'', ''timestamp'', ''nonce''], es_optional_fields = [], es_validate = validate_dm_count\<rparr>),
     (''key_rotate'', \<lparr>es_required_fields = [''old_node_id'', ''old_public_key'', ''old_public_key_algo'', ''new_public_key'', ''new_public_key_algo'',
        ''timestamp'', ''old_signature''], es_optional_fields = [], es_validate = validate_key_rotate\<rparr>),
     (''key_revoke'', \<lparr>es_required_fields = [''revoked_public_key'', ''revoked_public_key_algo'', ''revoked_at'', ''grace_until'', ''reason''],
        es_optional_fields = [], es_validate = validate_key_revoke\<rparr>),
     (''abuse_report'', \<lparr>es_required_fields = [''target_id'', ''reason''], es_optional_fields = [''gate'', ''evidence''], es_validate = validate_abuse_report\<rparr>)]"

definition get_schema :: "string \<Rightarrow> event_schema option" where
  "get_schema et = map_of mesh_schema_registry et"

definition public_ledger_event_types :: "string list" where
  "public_ledger_event_types = active_public_ledger_event_types @ [''gate_message'', ''dm_message'']"

definition public_ledger_forbidden_fields :: "string list" where
  "public_ledger_forbidden_fields =
    [''ip'', ''ip_address'', ''origin_ip'', ''source_ip'', ''client_ip'', ''host'', ''hostname'', ''origin'', ''originator'', ''originator_hint'',
     ''routing_hint'', ''route'', ''route_hint'', ''route_reason'', ''routed_via'', ''transport'', ''transport_handle'', ''transport_lock'',
     ''recipient_id'', ''recipient_token'', ''delivery_class'', ''mailbox_claims'', ''dh_pub_key'', ''sender_token'']"

definition validate_event_payload :: "ledger_registries \<Rightarrow> string \<Rightarrow> pyval \<Rightarrow> verdict res" where
  "validate_event_payload R et v = (case get_schema et of
       None \<Rightarrow> (case map_of (extension_validators R) et of Some ext \<Rightarrow> ext v | None \<Rightarrow> Inr (False, ''Unknown event_type''))
     | Some sch \<Rightarrow> (case v of
         PDict p \<Rightarrow> bnd (normalize_payload et p) (\<lambda>n.
           if \<not> same_value (PDict n) (PDict p) then Inr (False, ''Payload is not normalized'')
           else if et \<notin> {''message'', ''gate_message''} \<and> has_key p ''ephemeral'' then Inr (False, ''ephemeral not allowed for this event type'')
           else es_validate sch p)
       | _ \<Rightarrow> Inl AttributeError))"

definition folded_key :: "string \<Rightarrow> string" where
  "folded_key k = lower_text (strip k)"

definition key_list :: "string list \<Rightarrow> string" where
  "key_list ks = join '', '' (sort_by str_lt ks)"

definition private_gate_ledger_allowed_fields :: "string list" where
  "private_gate_ledger_allowed_fields = [''gate'', ''ciphertext'', ''nonce'', ''sender_ref'', ''format'', ''epoch'', ''gate_envelope'', ''envelope_hash'',
     ''reply_to'', ''transport_lock'', ''signed_context'']"

definition private_dm_ledger_allowed_fields :: "string list" where
  "private_dm_ledger_allowed_fields = [''recipient_id'', ''delivery_class'', ''recipient_token'', ''ciphertext'', ''msg_id'', ''timestamp'', ''format'',
     ''session_welcome'', ''sender_seal'', ''relay_salt'', ''transport_lock'', ''signed_context'']"

text \<open>\<open>ok, reason = check; if not ok: return ok, reason\<close>\<close>

definition and_then :: "verdict res \<Rightarrow> verdict res \<Rightarrow> verdict res" where
  "and_then m rest = bnd m (\<lambda>(ok, reason). if ok then rest else Inr (False, reason))"

definition validate_private_gate_ledger_payload :: "libm \<Rightarrow> ledger_registries \<Rightarrow> pyval \<Rightarrow> verdict res" where
  "validate_private_gate_ledger_payload M R v = and_then (validate_event_payload R ''gate_message'' v)
     (let p = Schema.fields v;
          unexpected = filter (\<lambda>k. folded_key k \<notin> set private_gate_ledger_allowed_fields) (map fst p);
          lock = lower_text (strip (text_or p ''transport_lock''))
      in if unexpected \<noteq> [] then Inr (False, ''private gate ledger payload contains unsupported fields: '' @ key_list unexpected)
         else if has_key p ''message'' \<or> has_key p ''_local_plaintext'' \<or> has_key p ''_local_reply_to''
         then Inr (False, ''private gate ledger payload must not contain plaintext'')
         else if lock \<noteq> [] \<and> lock \<notin> {''private'', ''private_strong'', ''rns'', ''onion''}
         then Inr (False, ''gate messages require private transport_lock'')
         else and_then (validate_sealed_bytes_field M p ''ciphertext'')
             (and_then (validate_sealed_bytes_field M p ''nonce'') (Inr (True, ''ok''))))"

definition validate_private_dm_ledger_payload :: "libm \<Rightarrow> ledger_registries \<Rightarrow> pyval \<Rightarrow> verdict res" where
  "validate_private_dm_ledger_payload M R v = and_then (validate_event_payload R ''dm_message'' v)
     (let p = Schema.fields v;
          unexpected = filter (\<lambda>k. folded_key k \<notin> set private_dm_ledger_allowed_fields) (map fst p)
      in if unexpected \<noteq> [] then Inr (False, ''private DM ledger payload contains unsupported fields: '' @ key_list unexpected)
         else if has_key p ''message'' \<or> has_key p ''plaintext'' \<or> has_key p ''_local_plaintext''
         then Inr (False, ''private DM ledger payload must not contain plaintext'')
         else if lower_text (strip (text_or p ''transport_lock'')) \<noteq> ''private_strong''
         then Inr (False, ''DM hashchain spool requires private_strong transport_lock'')
         else if strip (text_or p ''ciphertext'') = [] then Inr (False, ''ciphertext cannot be empty'')
         else and_then (validate_sealed_bytes_field M p ''ciphertext'') (Inr (True, ''ok'')))"

definition validate_public_ledger_payload :: "libm \<Rightarrow> ledger_registries \<Rightarrow> string \<Rightarrow> pyval \<Rightarrow> verdict res" where
  "validate_public_ledger_payload M R et v =
     (if et = ''gate_message'' then validate_private_gate_ledger_payload M R v
      else if et \<notin> set public_ledger_event_types \<and> \<not> is_extension_event_type R et
      then Inr (False, et @ '' is not allowed on the public ledger'')
      else case v of
        PDict p \<Rightarrow>
          (let forbidden = filter (\<lambda>k. folded_key k \<in> set public_ledger_forbidden_fields) (map fst p);
               destination = lower_text (strip (text_or p ''destination''))
           in if forbidden \<noteq> [] then Inr (False, ''public ledger payload contains forbidden fields: '' @ key_list forbidden)
              else if et = ''message'' \<and> destination \<noteq> [] \<and> destination \<noteq> ''broadcast''
              then Inr (False, ''public ledger message destination must be broadcast'')
              else Inr (True, ''ok''))
      | _ \<Rightarrow> Inl AttributeError)"

definition validate_protocol_fields :: "string \<Rightarrow> string \<Rightarrow> verdict" where
  "validate_protocol_fields version network =
     (if version \<noteq> protocol_version then (False, ''Unsupported protocol_version'')
      else if network \<noteq> network_id then (False, ''network_id mismatch'')
      else (True, ''ok''))"

subsection \<open>What the ledgers accept\<close>

lemma and_then_accepts: "and_then m rest = Inr (True, r) \<longleftrightarrow> (\<exists>w. m = Inr (True, w)) \<and> rest = Inr (True, r)"
  by (auto simp: and_then_def bnd_eq_Inr split: if_splits)

lemma schema_validators: "get_schema et = Some sch \<Longrightarrow> (et, sch) \<in> set mesh_schema_registry"
  by (simp add: get_schema_def map_of_SomeD)

text \<open>Every validator accepts only payloads that have the fields its registry entry lists.\<close>

lemma registry_required_fields:
  assumes "(et, sch) \<in> set mesh_schema_registry" "es_validate sch p = Inr (True, r)"
  shows "\<forall>k \<in> set (es_required_fields sch). has_key p k"
  using assms unfolding mesh_schema_registry_def
  by (auto simp: validate_message_def validate_gate_message_def validate_vote_def mesh_validate_gate_create_def validate_prediction_def
      validate_stake_def validate_dm_block_def validate_dm_key_def validate_dm_message_def validate_dm_poll_def validate_dm_count_def
      validate_key_rotate_def validate_key_revoke_def validate_abuse_report_def checked_accepts dest!: required_accepts)

lemma registered_accepts:
  assumes "validate_event_payload R et v = Inr (True, r)" "get_schema et = Some sch"
  shows "\<exists>p n. v = PDict p \<and> normalize_payload et p = Inr n \<and> same_value (PDict n) (PDict p) \<and> es_validate sch p = Inr (True, r)
      \<and> (\<forall>k \<in> set (es_required_fields sch). has_key p k) \<and> (has_key p ''ephemeral'' \<longrightarrow> et \<in> {''message'', ''gate_message''})"
proof -
  obtain p where v: "v = PDict p" using assms by (auto simp: validate_event_payload_def split: pyval.splits)
  then show ?thesis
    using assms registry_required_fields [OF schema_validators [OF assms(2)]]
    by (auto simp: validate_event_payload_def bnd_eq_Inr split: if_splits)
qed

lemma sealed_field_accepts:
  assumes "validate_sealed_bytes_field M p k = Inr (True, r)"
  shows "\<exists>bs. decode_sealed_ciphertext_value (strip (text_or p k)) = Some bs \<and> 8 \<le> length bs"
  using assms by (auto simp: validate_sealed_bytes_field_def Let_def split: option.splits if_splits)

lemma same_value_field:
  assumes "same_value (PDict n) (PDict p)" "map_of n k = Some (PStr s)"
  shows "map_of p k = Some (PStr s)"
  using assms map_of_SomeD [OF assms(2)] by (fastforce simp: same_value.simps [of "PDict n"] list_all_iff split: option.splits)

lemma gate_schema: "get_schema ''gate_message'' = Some \<lparr>es_required_fields = [''gate'', ''ciphertext'', ''nonce'', ''sender_ref''],
    es_optional_fields = [''format''], es_validate = validate_gate_message\<rparr>"
  by (simp add: get_schema_def mesh_schema_registry_def)

lemma gate_normal_fields:
  assumes "normalize_payload ''gate_message'' p = Inr n"
  shows "map_of n ''gate'' = Some (PStr (lower_text (strip (text_get p ''gate'' (PStr [])))))"
    "map_of n ''ciphertext'' = Some (PStr (text_get p ''ciphertext'' (PStr [])))" "map_of n ''nonce'' = Some (PStr (text_get p ''nonce'' (get_or p ''iv'' (PStr []))))"
    "map_of n ''format'' = Some (PStr (lower_text (strip (py_str (py_or (get_or p ''format'' (PStr ''mls1'')) (PStr ''mls1''))))))"
  using assms by (auto simp: normalize_payload_def normalize_gate_message_payload_def with_context_def bnd_eq_Inr)

lemma gate_fields:
  assumes "validate_event_payload R ''gate_message'' v = Inr (True, r)"
  shows "\<exists>p g c n. v = PDict p \<and> get p ''gate'' = PStr g \<and> g \<noteq> [] \<and> g = lower_text (strip g) \<and> get p ''ciphertext'' = PStr c \<and> strip c \<noteq> []
      \<and> get p ''nonce'' = PStr n \<and> strip n \<noteq> [] \<and> get p ''format'' = PStr ''mls1'' \<and> \<not> has_key p ''message''"
proof -
  obtain p n where p: "v = PDict p" "normalize_payload ''gate_message'' p = Inr n" "same_value (PDict n) (PDict p)" "validate_gate_message p = Inr (True, r)"
    using registered_accepts [OF assms gate_schema] by auto
  from p(4) have ok: "\<not> has_key p ''message'' \<and> \<not> blank_text p ''gate'' \<and> \<not> blank_text p ''ciphertext'' \<and> \<not> blank_text p ''nonce''
      \<and> lower_text (strip (py_str (py_or (get_or p ''format'' (PStr ''mls1'')) (PStr ''mls1'')))) = ''mls1''"
    unfolding validate_gate_message_def by (auto dest!: required_accepts simp: bnd_eq_Inr split: if_splits)
  note f = gate_normal_fields [OF p(2), THEN same_value_field [OF p(3)]]
  define g where "g = lower_text (strip (text_get p ''gate'' (PStr [])))"
  define c where "c = text_get p ''ciphertext'' (PStr [])"
  define m where "m = text_get p ''nonce'' (get_or p ''iv'' (PStr []))"
  have maps: "map_of p ''gate'' = Some (PStr g)" "map_of p ''ciphertext'' = Some (PStr c)" "map_of p ''nonce'' = Some (PStr m)"
      "map_of p ''format'' = Some (PStr ''mls1'')"
    using f ok by (simp_all only: g_def c_def m_def)
  then have "text_get p ''nonce'' (PStr []) = m" by (simp add: text_get_fields)
  then have "strip m \<noteq> []" "strip c \<noteq> []" "g \<noteq> []" using ok by (simp_all add: blank_text_def g_def c_def)
  moreover have "g = lower_text (strip g)" by (simp add: g_def strip_lower)
  ultimately show ?thesis using maps ok
    by - (rule exI [of _ p], rule exI [of _ g], rule exI [of _ c], rule exI [of _ m], simp add: p(1) get_def)
qed

text \<open>
  C39: What the private ledger of gates replicates is sealed: an accepted payload has only the listed fields, none
  of them plaintext, a gate name in normal form, the format MLS, a transport lock that is private if there is one,
  and a ciphertext and a nonce that decode to at least eight bytes.
\<close>

theorem gate_ledger_sealed:
  assumes "validate_private_gate_ledger_payload M R v = Inr (True, r)"
  shows "\<exists>p g c n cs ns. v = PDict p
      \<and> (\<forall>k \<in> set (map fst p). folded_key k \<in> set private_gate_ledger_allowed_fields)
      \<and> \<not> has_key p ''message'' \<and> \<not> has_key p ''_local_plaintext'' \<and> \<not> has_key p ''_local_reply_to''
      \<and> get p ''gate'' = PStr g \<and> g \<noteq> [] \<and> g = lower_text (strip g) \<and> get p ''format'' = PStr ''mls1''
      \<and> lower_text (strip (text_or p ''transport_lock'')) \<in> {[], ''private'', ''private_strong'', ''rns'', ''onion''}
      \<and> get p ''ciphertext'' = PStr c \<and> decode_sealed_ciphertext_value (strip c) = Some cs \<and> 8 \<le> length cs
      \<and> get p ''nonce'' = PStr n \<and> decode_sealed_ciphertext_value (strip n) = Some ns \<and> 8 \<le> length ns"
proof -
  from assms obtain w where ev: "validate_event_payload R ''gate_message'' v = Inr (True, w)"
    by (auto simp: validate_private_gate_ledger_payload_def and_then_accepts)
  obtain p g c n where p: "v = PDict p" "get p ''gate'' = PStr g" "g \<noteq> []" "g = lower_text (strip g)" "get p ''ciphertext'' = PStr c"
      "get p ''nonce'' = PStr n" "get p ''format'' = PStr ''mls1''" "\<not> has_key p ''message''"
    using gate_fields [OF ev] by blast
  from assms have rest: "filter (\<lambda>k. folded_key k \<notin> set private_gate_ledger_allowed_fields) (map fst p) = []"
      "\<not> has_key p ''_local_plaintext''" "\<not> has_key p ''_local_reply_to''"
      "lower_text (strip (text_or p ''transport_lock'')) \<in> {[], ''private'', ''private_strong'', ''rns'', ''onion''}"
      "\<exists>w. validate_sealed_bytes_field M p ''ciphertext'' = Inr (True, w)" "\<exists>w. validate_sealed_bytes_field M p ''nonce'' = Inr (True, w)"
    unfolding validate_private_gate_ledger_payload_def p(1) and_then_accepts by (simp_all add: Let_def and_then_accepts split: if_splits)
  have "text_or p k = s" if "get p k = PStr s" for k s
    using that by (auto simp: get_def text_or_def get_or_def split: option.splits)
  then have "text_or p ''ciphertext'' = c" "text_or p ''nonce'' = n" using p by blast+
  then obtain cs ns where "decode_sealed_ciphertext_value (strip c) = Some cs" "8 \<le> length cs" "decode_sealed_ciphertext_value (strip n) = Some ns" "8 \<le> length ns"
    using rest(5,6) sealed_field_accepts by metis
  moreover have "\<forall>k \<in> set (map fst p). folded_key k \<in> set private_gate_ledger_allowed_fields"
    using rest(1) by (simp only: filter_empty_conv) blast
  ultimately show ?thesis using p rest(2-4)
    by - (rule exI [of _ p], rule exI [of _ g], rule exI [of _ c], rule exI [of _ n], rule exI [of _ cs], rule exI [of _ ns], blast)
qed


lemma example_gate_payload_accepted:
  "validate_private_gate_ledger_payload \<lparr>log2 = (\<lambda>x. Fin 0), pow = (\<lambda>x y. x)\<rparr> initial_registries
     (PDict [(''gate'', PStr ''g''), (''ciphertext'', PStr ''AAECAwQFBgc''), (''nonce'', PStr ''mls1:__ECAwQFBgc=''), (''sender_ref'', PStr ''r''), (''format'', PStr ''mls1'')])
   = Inr (True, ''ok'')"
  by code_simp

lemma gate_ledger_sealed_witness:
  "\<exists>cs. decode_sealed_ciphertext_value ''AAECAwQFBgc'' = Some cs \<and> 8 \<le> length cs"
  using gate_ledger_sealed [OF example_gate_payload_accepted] by (auto simp: strip_def is_space_def)

text \<open>A known prefix turns the test for plaintext off: the same bytes are refused without it.\<close>

lemma prefix_hides_plaintext:
  defines "secret \<equiv> concat (replicate 11 ''QUJD'')"
  shows "validate_sealed_bytes_field M [(''ciphertext'', PStr secret)] ''ciphertext'' = Inr (False, ''ciphertext looks like encoded plaintext'')"
    "validate_sealed_bytes_field M [(''ciphertext'', PStr (''sealed:'' @ secret))] ''ciphertext'' = Inr (True, ''ok'')"
proof -
  have dec: "decode_sealed_ciphertext_value secret = Some (concat (replicate 11 [65, 66, 67]))" unfolding secret_def by code_simp
  have dec': "decode_sealed_ciphertext_value (''sealed:'' @ secret) = Some (concat (replicate 11 [65, 66, 67]))" unfolding secret_def by code_simp
  have pre: "sealed_ciphertext_has_known_prefix (''sealed:'' @ secret)" "\<not> sealed_ciphertext_has_known_prefix secret"
      "strip secret = secret" "strip (''sealed:'' @ secret) = ''sealed:'' @ secret" unfolding secret_def by code_simp+
  have bytes: "filter printable_byte (concat (replicate 11 [65, 66, 67])) = concat (replicate 11 [65, 66, 67])"
      "utf8_valid (map unat (concat (replicate 11 [65, 66, 67 :: 8 word])))" "length (concat (replicate 11 [65, 66, 67 :: 8 word])) = 33" by code_simp+
  have "int_truediv 33 33 = Inr (Fin 1)" by (simp add: int_truediv_def float_of_rat_exact_def)
  moreover have "flt (fl (9 / 10)) (Fin 1)"
  proof -
    have "is_double (1023 / 1024)" unfolding is_double_def by (rule exI [of _ 1023], rule exI [of _ "- 10"]) (simp add: power_int_def power_divide)
    then have "fl (1023 / 1024) = Fin (1023 / 1024)" by (intro fl_exact) (auto simp: in_range_def)
    moreover have "fle (fl (9 / 10)) (fl (1023 / 1024))" by (rule fl_mono) simp
    ultimately show ?thesis using fle_flt_trans [of "fl (9 / 10)" "Fin (1023 / 1024)" "Fin 1"] by simp
  qed
  ultimately show "validate_sealed_bytes_field M [(''ciphertext'', PStr secret)] ''ciphertext'' = Inr (False, ''ciphertext looks like encoded plaintext'')"
    by (simp add: validate_sealed_bytes_field_def pre dec bytes)
  show "validate_sealed_bytes_field M [(''ciphertext'', PStr (''sealed:'' @ secret))] ''ciphertext'' = Inr (True, ''ok'')"
    using pre dec' bytes(3) by (simp add: validate_sealed_bytes_field_def)
qed

text \<open>A direct message needs fields that the public ledger forbids, so it is never accepted there.\<close>

lemma dm_never_public:
  assumes "validate_event_payload R ''dm_message'' v = Inr (True, w)"
  shows "validate_public_ledger_payload M R ''dm_message'' v \<noteq> Inr (True, r)"
proof -
  have "get_schema ''dm_message'' = Some \<lparr>es_required_fields = [''recipient_id'', ''delivery_class'', ''recipient_token'', ''ciphertext'', ''msg_id'', ''timestamp''],
      es_optional_fields = [], es_validate = validate_dm_message\<rparr>"
    by (simp add: get_schema_def mesh_schema_registry_def)
  then obtain p where p: "v = PDict p" "has_key p ''recipient_id''" using registered_accepts [OF assms] by auto
  then have "''recipient_id'' \<in> set (filter (\<lambda>k. folded_key k \<in> set public_ledger_forbidden_fields) (map fst p))"
    by (auto simp: has_key_def folded_key_def strip_def is_space_def lower_text_def lower_char_def lower_def public_ledger_forbidden_fields_def
        dest!: map_of_SomeD intro: rev_image_eqI)
  then have "filter (\<lambda>k. folded_key k \<in> set public_ledger_forbidden_fields) (map fst p) \<noteq> []" by (metis empty_iff list.set(1))
  then show ?thesis by (auto simp: validate_public_ledger_payload_def p(1) Let_def)
qed

text \<open>After the cutover, the economy's types are validated by their own schema, and they are on the public ledger.\<close>

lemma economy_types_validated:
  assumes "perform_cutover initial_registries = Inr R" "et \<in> set infonet_economy_event_types"
  shows "validate_event_payload R et v = validate_infonet_event_payload et v" "is_extension_event_type R et"
proof -
  have R: "extension_validators R = fold (\<lambda>et. AList.update et (validate_infonet_event_payload et)) infonet_economy_event_types []"
    using assms(1) by (simp add: perform_cutover_run initial_registries_def) (metis ledger_registries.select_convs(2))
  have "list_all (\<lambda>t. t \<notin> set (map fst mesh_schema_registry)) infonet_economy_event_types" by code_simp
  then have "get_schema et = None" using assms(2) by (simp only: list_all_iff get_schema_def map_of_eq_None_iff set_map) simp
  moreover have m: "map_of (extension_validators R) et = Some (validate_infonet_event_payload et)" using assms(2) by (simp add: R map_of_fold_update)
  ultimately show "validate_event_payload R et v = validate_infonet_event_payload et v" by (simp add: validate_event_payload_def)
  show "is_extension_event_type R et" using map_of_SomeD [OF m] by (force simp: is_extension_event_type_def)
qed

end
