(* ===== verification/Mesh_Crypto.thy ===== *)
theory Mesh_Crypto
  imports Mesh_Schema
begin

text \<open>
  \<open>services/mesh/mesh_crypto.py\<close>: node ids derived from public keys, the text a signature covers, and the
  verification of signatures. The hash of raw bytes and the two signature schemes of the \<open>cryptography\<close> package are
  parameters, and so is whether ids of the old, shorter form are blocked.
\<close>

subsection \<open>The code\<close>

record crypto =
  raw_sha256 :: "bytes \<Rightarrow> string"
  ed25519_accepts :: "bytes \<Rightarrow> bytes \<Rightarrow> string \<Rightarrow> bool"
  ecdsa_accepts :: "bytes \<Rightarrow> bytes \<Rightarrow> string \<Rightarrow> bool"
  legacy_ids_blocked :: bool

definition node_id_prefix :: string where
  "node_id_prefix = ''!sb_''"

definition node_digest :: "crypto \<Rightarrow> pyval \<Rightarrow> string res" where
  "node_digest C k = (case k of PStr s \<Rightarrow> bnd (b64_decode s) (\<lambda>raw. Inr (raw_sha256 C raw)) | _ \<Rightarrow> Inl TypeError)"

definition derive_node_id_from_digest :: "string \<Rightarrow> nat \<Rightarrow> string" where
  "derive_node_id_from_digest digest n = node_id_prefix @ take n digest"

definition derive_node_id :: "crypto \<Rightarrow> pyval \<Rightarrow> bool \<Rightarrow> string res" where
  "derive_node_id C k legacy = bnd (node_digest C k) (\<lambda>digest. Inr (derive_node_id_from_digest digest (if legacy then 16 else 32)))"

definition derive_node_id_candidates :: "crypto \<Rightarrow> pyval \<Rightarrow> string list res" where
  "derive_node_id_candidates C k = bnd (node_digest C k) (\<lambda>digest.
     Inr (fold (\<lambda>n ids. let candidate = derive_node_id_from_digest digest n in if candidate \<in> set ids then ids else ids @ [candidate]) [32, 16] []))"

text \<open>Every exception is caught; the record of old ids that are still in use is telemetry.\<close>

definition verify_node_binding :: "crypto \<Rightarrow> pyval \<Rightarrow> pyval \<Rightarrow> bool" where
  "verify_node_binding C node k =
     (let raw = strip (py_str (py_or node (PStr []))) in
      case derive_node_id_candidates C k of
        Inr (current # older) \<Rightarrow> raw = current \<or> raw \<in> set older \<and> \<not> legacy_ids_blocked C
      | _ \<Rightarrow> False)"

definition build_signature_payload :: "string \<Rightarrow> pyval \<Rightarrow> int \<Rightarrow> pydict \<Rightarrow> string res" where
  "build_signature_payload et node sequence p =
     bnd (normalize_payload et p) (\<lambda>n.
       let signed_part = (if et = ''gate_message'' then without ''gate_envelope'' n else n) in
       case node of
         PStr s \<Rightarrow> Inr (join ''|'' [protocol_version, network_id, et, s, int_str sequence, canonical_json signed_part])
       | _ \<Rightarrow> Inl TypeError)"

text \<open>\<open>str.upper\<close> on ASCII: no other character becomes part of a name of the two lists.\<close>

definition upper_char :: "char \<Rightarrow> char" where
  "upper_char c = (let n = of_char c :: nat in if 97 \<le> n \<and> n \<le> 122 then char_of (n - 32) else c)"

definition parse_public_key_algo :: "pyval \<Rightarrow> string res" where
  "parse_public_key_algo v = (case py_or v (PStr []) of
       PStr s \<Rightarrow>
         (let u = map upper_char (strip s) in
          Inr (if u \<in> {''ED25519'', ''EDDSA''} then ''Ed25519''
               else if u \<in> {''ECDSA'', ''ECDSA_P256'', ''P-256'', ''P256''} then ''ECDSA_P256''
               else []))
     | _ \<Rightarrow> Inl AttributeError)"

text \<open>\<open>bytes.fromhex\<close>: pairs of digits, with ASCII white space between them\<close>

definition hex_value :: "char \<Rightarrow> nat option" where
  "hex_value c = (let n = of_char c :: nat in
     if 48 \<le> n \<and> n \<le> 57 then Some (n - 48) else if 97 \<le> n \<and> n \<le> 102 then Some (n - 87)
     else if 65 \<le> n \<and> n \<le> 70 then Some (n - 55) else None)"

definition ascii_space :: "char \<Rightarrow> bool" where
  "ascii_space c = (let n = of_char c :: nat in 9 \<le> n \<and> n \<le> 13 \<or> n = 32)"

fun from_hex :: "string \<Rightarrow> bytes option" where
  "from_hex [] = Some []"
| "from_hex [c] = (if ascii_space c then Some [] else None)"
| "from_hex (c # d # cs) =
     (if ascii_space c then from_hex (d # cs)
      else case (hex_value c, hex_value d) of
          (Some a, Some b) \<Rightarrow> map_option (Cons (word_of_nat (16 * a + b))) (from_hex cs)
        | _ \<Rightarrow> None)"

definition verify_signature :: "crypto \<Rightarrow> pyval \<Rightarrow> pyval \<Rightarrow> pyval \<Rightarrow> string \<Rightarrow> bool res" where
  "verify_signature C k algo signature message =
     (case signature of
        PStr h \<Rightarrow> (case from_hex h of
            None \<Rightarrow> Inr False
          | Some sig \<Rightarrow> (case k of
              PStr s \<Rightarrow> (case b64_decode s of
                  Inl e \<Rightarrow> Inr False
                | Inr pub \<Rightarrow> bnd (parse_public_key_algo algo) (\<lambda>a.
                    Inr (if a = ''Ed25519'' then ed25519_accepts C pub sig message
                         else if a = ''ECDSA_P256'' then ecdsa_accepts C pub sig message
                         else False)))
            | _ \<Rightarrow> Inr False))
      | _ \<Rightarrow> Inr False)"

subsection \<open>Node ids\<close>

lemma verify_node_binding_key:
  assumes "verify_node_binding C node k"
  shows "\<exists>s raw. k = PStr s \<and> b64_decode s = Inr raw"
proof -
  obtain ids where "derive_node_id_candidates C k = Inr ids" using assms by (auto simp: verify_node_binding_def Let_def split: sum.splits)
  then obtain d where "node_digest C k = Inr d" by (auto simp: derive_node_id_candidates_def bnd_eq_Inr)
  then show ?thesis by (cases k) (auto simp: node_digest_def bnd_eq_Inr)
qed

text \<open>
  Two spellings of a public key that decode to the same bytes have the same node ids and verify the same
  signatures. Spellings abound: the decoder skips characters outside its alphabet.
\<close>

lemma b64_decode_skips:
  assumes "b64_value c = None" "c \<noteq> CHR ''=''" "(of_char c :: nat) < 128"
  shows "b64_decode (xs @ c # ys) = b64_decode (xs @ ys)"
proof -
  have "a2b_base64 q r p (xs @ c # ys) = a2b_base64 q r p (xs @ ys)" for q r p
    by (induction xs arbitrary: q r p) (use assms in \<open>auto split: option.splits\<close>)
  then show ?thesis using assms(3) by (simp add: b64_decode_def)
qed

lemma respelled_key:
  assumes "b64_decode s = b64_decode t"
  shows "verify_node_binding C node (PStr s) = verify_node_binding C node (PStr t)"
    "verify_signature C (PStr s) algo signature message = verify_signature C (PStr t) algo signature message"
  using assms by (simp_all add: verify_node_binding_def derive_node_id_candidates_def node_digest_def verify_signature_def
      cong: pyval.case_cong option.case_cong)

end
