(* ===== verification/Chain_Event.thy ===== *)
theory Chain_Event
  imports Mesh_Crypto
begin

text \<open>
  \<open>ChainEvent\<close> of \<open>services/mesh/mesh_hashchain.py\<close>: an event, its hash, and its dictionary. The fields of a received
  event are any JSON values.
\<close>

subsection \<open>The code\<close>

definition genesis_hash :: string where
  "genesis_hash = replicate 64 (CHR ''0'')"

record chain_event =
  ev_event_id :: string
  ev_prev_hash :: pyval
  ev_event_type :: pyval
  ev_node_id :: pyval
  ev_payload :: pyval
  ev_timestamp :: pyval
  ev_sequence :: pyval
  ev_signature :: pyval
  ev_network_id :: pyval
  ev_public_key :: pyval
  ev_public_key_algo :: pyval
  ev_protocol_version :: pyval

definition compute_hash :: "primitives \<Rightarrow> pyval \<Rightarrow> pyval \<Rightarrow> pyval \<Rightarrow> pyval \<Rightarrow> pyval \<Rightarrow> pyval \<Rightarrow> pyval \<Rightarrow> string" where
  "compute_hash P prev_hash et node body ts sequence network =
     sha256 P (join '':'' [py_str prev_hash, py_str et, py_str node, json_dumps body, py_str ts, py_str sequence, py_str network])"

definition new_chain_event :: "primitives \<Rightarrow> pyfloat \<Rightarrow> pyval \<Rightarrow> pyval \<Rightarrow> pyval \<Rightarrow> pyval \<Rightarrow> pyval \<Rightarrow> pyval \<Rightarrow> pyval \<Rightarrow> pyval \<Rightarrow> pyval \<Rightarrow> pyval \<Rightarrow> pyval \<Rightarrow> chain_event" where
  "new_chain_event P now prev_hash et node body ts sequence signature network public_key algo version =
     (let ts = py_or ts (PFloat now); network = py_or network (PStr network_id); version = py_or version (PStr protocol_version) in
      \<lparr>ev_event_id = compute_hash P prev_hash et node body ts sequence network, ev_prev_hash = prev_hash, ev_event_type = et, ev_node_id = node,
       ev_payload = body, ev_timestamp = ts, ev_sequence = sequence, ev_signature = signature, ev_network_id = network,
       ev_public_key = public_key, ev_public_key_algo = algo, ev_protocol_version = version\<rparr>)"

definition event_to_dict :: "chain_event \<Rightarrow> pydict" where
  "event_to_dict e =
     [(''event_id'', PStr (ev_event_id e)), (''prev_hash'', ev_prev_hash e), (''event_type'', ev_event_type e), (''node_id'', ev_node_id e),
      (''payload'', ev_payload e), (''timestamp'', ev_timestamp e), (''sequence'', ev_sequence e), (''signature'', ev_signature e),
      (''network_id'', ev_network_id e), (''public_key'', ev_public_key e), (''public_key_algo'', ev_public_key_algo e),
      (''protocol_version'', ev_protocol_version e)]"

text \<open>\<open>d[k]\<close>\<close>

definition item :: "pydict \<Rightarrow> string \<Rightarrow> pyval res" where
  "item d k = (case map_of d k of Some v \<Rightarrow> Inr v | None \<Rightarrow> Inl KeyError)"

text \<open>The message of the exception slices the stored id, which fails for values that have no slices.\<close>

definition mismatch_error :: "pydict \<Rightarrow> pyexc" where
  "mismatch_error d = (case get_or d ''event_id'' (PStr ''?'') of PStr _ \<Rightarrow> ValueError | PList _ \<Rightarrow> ValueError | _ \<Rightarrow> TypeError)"

definition event_from_dict :: "primitives \<Rightarrow> pyfloat \<Rightarrow> pydict \<Rightarrow> chain_event res" where
  "event_from_dict P now d =
     bnd (item d ''prev_hash'') (\<lambda>prev_hash. bnd (item d ''event_type'') (\<lambda>et. bnd (item d ''node_id'') (\<lambda>node.
     bnd (item d ''payload'') (\<lambda>body. bnd (item d ''timestamp'') (\<lambda>ts.
       let e = new_chain_event P now prev_hash et node body ts (get_or d ''sequence'' (PInt 0)) (get_or d ''signature'' (PStr []))
             (get_or d ''network_id'' (PStr network_id)) (get_or d ''public_key'' (PStr [])) (get_or d ''public_key_algo'' (PStr []))
             (get_or d ''protocol_version'' (PStr protocol_version))
       in if get d ''event_id'' \<noteq> PStr (ev_event_id e) then Inl (mismatch_error d) else Inr e)))))"

subsection \<open>There and back\<close>

lemma item_simps [simp]: "item ((k', v) # d) k = (if k = k' then Inr v else item d k)"
  by (simp add: item_def)

lemma event_round_trip:
  assumes "e = new_chain_event P now prev_hash et node body ts sequence signature network public_key algo version"
    and "truthy ts \<or> truthy (PFloat now)"
  shows "event_from_dict P now' (event_to_dict e) = Inr e"
  using assms by (auto simp: event_from_dict_def event_to_dict_def new_chain_event_def Let_def py_or_def protocol_version_def network_id_def)

text \<open>An event that is loaded carries the hash of its content, and its fields are those of the dictionary.\<close>

lemma event_from_dict_id:
  assumes "event_from_dict P now d = Inr e" "truthy (get d ''timestamp'')" "truthy (get d ''network_id'')"
  shows "get d ''event_id'' = PStr (compute_hash P (get d ''prev_hash'') (get d ''event_type'') (get d ''node_id'') (get d ''payload'')
      (get d ''timestamp'') (get_or d ''sequence'' (PInt 0)) (get d ''network_id''))"
    "ev_event_id e = compute_hash P (get d ''prev_hash'') (get d ''event_type'') (get d ''node_id'') (get d ''payload'')
      (get d ''timestamp'') (get_or d ''sequence'' (PInt 0)) (get d ''network_id'')"
proof -
  have get: "get_or d ''network_id'' w = get d ''network_id''" for w
    using assms(3) by (simp add: get_def get_or_def split: option.splits)
  have it: "item d k = Inr v \<Longrightarrow> v = get d k" for k v by (auto simp: item_def get_def split: option.splits)
  show "get d ''event_id'' = PStr (compute_hash P (get d ''prev_hash'') (get d ''event_type'') (get d ''node_id'') (get d ''payload'')
      (get d ''timestamp'') (get_or d ''sequence'' (PInt 0)) (get d ''network_id''))"
    "ev_event_id e = compute_hash P (get d ''prev_hash'') (get d ''event_type'') (get d ''node_id'') (get d ''payload'')
      (get d ''timestamp'') (get_or d ''sequence'' (PInt 0)) (get d ''network_id'')"
    using assms by (auto simp: event_from_dict_def bnd_eq_Inr Let_def new_chain_event_def get split: if_splits dest!: it)
qed

end
