(* ===== verification/Replay_Filter.thy ===== *)
theory Replay_Filter
  imports Ibf Argon2id Float_Facts
begin

text \<open>
  The replay filter of \<open>services/mesh/mesh_hashchain.py\<close>: two bit sets that take turns, so that what was added is
  remembered for at least one period. The digest is a parameter; the salt is part of the state.
\<close>

subsection \<open>The code\<close>

record replay_filter =
  rf_size_bits :: nat
  rf_hash_count :: nat
  rf_rotate_s :: int
  rf_salt :: bytes
  rf_active :: bytes
  rf_previous :: bytes
  rf_last_rotate :: pyfloat

definition empty_bits :: "nat \<Rightarrow> bytes" where
  "empty_bits n = replicate (n div 8 + 1) 0"

definition new_replay_filter :: "int \<Rightarrow> int \<Rightarrow> int \<Rightarrow> bytes \<Rightarrow> pyfloat \<Rightarrow> replay_filter" where
  "new_replay_filter size_bits hash_count rotate_s salt now =
     (let n = nat (max 1024 size_bits) in
      \<lparr>rf_size_bits = n, rf_hash_count = nat (max 2 hash_count), rf_rotate_s = max 60 rotate_s, rf_salt = salt,
       rf_active = empty_bits n, rf_previous = empty_bits n, rf_last_rotate = now\<rparr>)"

definition rotate_if_needed :: "pyfloat \<Rightarrow> replay_filter \<Rightarrow> replay_filter" where
  "rotate_if_needed now f =
     (if flt (fsub now (rf_last_rotate f)) (Fin (of_int (rf_rotate_s f))) then f
      else f\<lparr>rf_previous := rf_active f, rf_active := empty_bits (rf_size_bits f), rf_last_rotate := now\<rparr>)"

text \<open>\<open>int.from_bytes(b, "big")\<close> and \<open>idx.to_bytes(2, "big")\<close>\<close>

definition big_endian :: "bytes \<Rightarrow> nat" where
  "big_endian bs = foldl (\<lambda>n b. 256 * n + unat b) 0 bs"

definition two_bytes :: "nat \<Rightarrow> bytes" where
  "two_bytes n = [word_of_nat (n div 256), word_of_nat n]"

definition positions :: "(bytes \<Rightarrow> bytes) \<Rightarrow> replay_filter \<Rightarrow> string \<Rightarrow> nat list" where
  "positions digest f value =
     map (\<lambda>i. big_endian (take 8 (digest (rf_salt f @ two_bytes i @ utf8 value))) mod rf_size_bits f) [0..<rf_hash_count f]"

definition set_bit_at :: "nat \<Rightarrow> bytes \<Rightarrow> bytes" where
  "set_bit_at pos bs = bs[pos div 8 := bs ! (pos div 8) OR push_bit (pos mod 8) 1]"

definition bit_at :: "bytes \<Rightarrow> nat \<Rightarrow> bool" where
  "bit_at bs pos \<longleftrightarrow> bs ! (pos div 8) AND push_bit (pos mod 8) 1 \<noteq> 0"

definition filter_add :: "(bytes \<Rightarrow> bytes) \<Rightarrow> pyfloat \<Rightarrow> string \<Rightarrow> replay_filter \<Rightarrow> replay_filter" where
  "filter_add digest now value f =
     (let f = rotate_if_needed now f in f\<lparr>rf_active := fold set_bit_at (positions digest f value) (rf_active f)\<rparr>)"

definition filter_seen :: "(bytes \<Rightarrow> bytes) \<Rightarrow> pyfloat \<Rightarrow> string \<Rightarrow> replay_filter \<Rightarrow> bool \<times> replay_filter" where
  "filter_seen digest now value f =
     (let f = rotate_if_needed now f in
      (list_all (\<lambda>pos. bit_at (rf_active f) pos \<or> bit_at (rf_previous f) pos) (positions digest f value), f))"

subsection \<open>What the filter remembers\<close>

text \<open>The operations of a filter, for runs\<close>

datatype filter_op = Add string | Seen string

fun filter_step :: "(bytes \<Rightarrow> bytes) \<Rightarrow> pyfloat \<times> filter_op \<Rightarrow> replay_filter \<Rightarrow> replay_filter" where
  "filter_step digest (now, Add v) f = filter_add digest now v f"
| "filter_step digest (now, Seen v) f = snd (filter_seen digest now v f)"

definition filter_wf :: "replay_filter \<Rightarrow> bool" where
  "filter_wf f \<longleftrightarrow> 0 < rf_size_bits f \<and> length (rf_active f) = rf_size_bits f div 8 + 1 \<and> length (rf_previous f) = rf_size_bits f div 8 + 1"

definition same_layout :: "replay_filter \<Rightarrow> replay_filter \<Rightarrow> bool" where
  "same_layout f g \<longleftrightarrow> rf_size_bits f = rf_size_bits g \<and> rf_hash_count f = rf_hash_count g \<and> rf_rotate_s f = rf_rotate_s g \<and> rf_salt f = rf_salt g"

lemma length_set_bits [simp]: "length (fold set_bit_at ps bs) = length bs"
  by (induction ps arbitrary: bs) (simp_all add: set_bit_at_def)

lemma filter_wf_new: "filter_wf (new_replay_filter n h r s t)"
  by (simp add: filter_wf_def new_replay_filter_def empty_bits_def Let_def)

lemma filter_wf_step: "filter_wf f \<Longrightarrow> filter_wf (filter_step D e f)"
  by (cases e; cases "snd e") (auto simp: filter_wf_def filter_add_def filter_seen_def rotate_if_needed_def empty_bits_def Let_def)

lemma rotate_shape: "same_layout (rotate_if_needed now f) f"
  by (simp add: rotate_if_needed_def same_layout_def)

lemma same_layout_step: "same_layout (filter_step D e f) f"
  by (cases e; cases "snd e") (auto simp: filter_add_def filter_seen_def rotate_if_needed_def same_layout_def Let_def)

lemma positions_shape: "same_layout f g \<Longrightarrow> positions D f v = positions D g v"
  by (simp add: positions_def same_layout_def)

lemma positions_bound: "filter_wf f \<Longrightarrow> p \<in> set (positions D f v) \<Longrightarrow> p < rf_size_bits f \<and> p div 8 < length (rf_active f)"
  unfolding positions_def filter_wf_def by (auto simp: less_Suc_eq_le intro!: div_le_mono simp del: div_less_iff_less_mult)

lemma bit_at_iff: "bit_at bs p \<longleftrightarrow> bit (bs ! (p div 8)) (p mod 8)"
  by (simp add: bit_at_def push_bit_of_1 and_exp_eq_0_iff_not_bit)

lemma bit_set_same: "p div 8 < length bs \<Longrightarrow> bit_at (set_bit_at p bs) p"
  by (simp add: bit_at_iff set_bit_at_def bit_or_iff bit_exp_iff)

lemma bit_set_keeps: "bit_at bs q \<Longrightarrow> bit_at (set_bit_at p bs) q"
  by (cases "p div 8 < length bs"; cases "p div 8 = q div 8") (auto simp: bit_at_iff set_bit_at_def bit_or_iff nth_list_update list_update_beyond)

lemma fold_set_bit:
  assumes "\<forall>p \<in> set ps. p div 8 < length bs"
  shows "(\<forall>p \<in> set ps. bit_at (fold set_bit_at ps bs) p) \<and> (\<forall>q. bit_at bs q \<longrightarrow> bit_at (fold set_bit_at ps bs) q)"
  using assms
proof (induction ps arbitrary: bs)
  case (Cons p ps)
  have "length (set_bit_at p bs) = length bs" by (simp add: set_bit_at_def)
  then show ?case using Cons.IH [of "set_bit_at p bs"] Cons.prems bit_set_same [of p bs] bit_set_keeps by auto
qed simp

text \<open>Everything of a value is in the active set, or in one of the two.\<close>

definition in_active :: "(bytes \<Rightarrow> bytes) \<Rightarrow> string \<Rightarrow> replay_filter \<Rightarrow> bool" where
  "in_active D v f \<longleftrightarrow> (\<forall>p \<in> set (positions D f v). bit_at (rf_active f) p)"

definition in_either :: "(bytes \<Rightarrow> bytes) \<Rightarrow> string \<Rightarrow> replay_filter \<Rightarrow> bool" where
  "in_either D v f \<longleftrightarrow> (\<forall>p \<in> set (positions D f v). bit_at (rf_active f) p \<or> bit_at (rf_previous f) p)"

definition rotates :: "pyfloat \<Rightarrow> replay_filter \<Rightarrow> bool" where
  "rotates now f \<longleftrightarrow> \<not> flt (fsub now (rf_last_rotate f)) (Fin (of_int (rf_rotate_s f)))"

lemma rotate_cases:
  "\<not> rotates now f \<Longrightarrow> rotate_if_needed now f = f"
  "rotates now f \<Longrightarrow> in_active D v f \<Longrightarrow> in_either D v (rotate_if_needed now f) \<and> rf_last_rotate (rotate_if_needed now f) = now"
  by (auto simp: rotates_def rotate_if_needed_def in_active_def in_either_def positions_def)

lemma filter_wf_rotate: "filter_wf f \<Longrightarrow> filter_wf (rotate_if_needed now f)"
  by (auto simp: filter_wf_def rotate_if_needed_def empty_bits_def)

lemma filter_add_keeps:
  assumes "filter_wf f"
  shows "in_active D v (filter_add D now v f)"
    "in_active D w (rotate_if_needed now f) \<Longrightarrow> in_active D w (filter_add D now v f)"
    "in_either D w (rotate_if_needed now f) \<Longrightarrow> in_either D w (filter_add D now v f)"
proof -
  define g where "g = rotate_if_needed now f"
  have pos: "positions D (filter_add D now v f) w = positions D g w" for w by (simp add: positions_def filter_add_def Let_def g_def)
  have b: "\<forall>p \<in> set (positions D g v). p div 8 < length (rf_active g)"
    using positions_bound [of g _ D v] filter_wf_rotate [OF assms, of now] unfolding g_def [symmetric] by blast
  have add: "rf_active (filter_add D now v f) = fold set_bit_at (positions D g v) (rf_active g)" "rf_previous (filter_add D now v f) = rf_previous g"
    by (simp_all add: filter_add_def Let_def g_def)
  note fs = fold_set_bit [OF b]
  show "in_active D v (filter_add D now v f)" using fs by (simp add: in_active_def pos add)
  show "in_active D w (rotate_if_needed now f) \<Longrightarrow> in_active D w (filter_add D now v f)"
    using fs by (simp add: in_active_def pos add g_def [symmetric])
  show "in_either D w (rotate_if_needed now f) \<Longrightarrow> in_either D w (filter_add D now v f)"
    using fs by (auto simp: in_either_def pos add g_def [symmetric])
qed

lemma filter_step_keeps:
  assumes "filter_wf f"
  shows "\<not> rotates (fst e) f \<Longrightarrow> in_active D w f \<Longrightarrow> in_active D w (filter_step D e f) \<and> rf_last_rotate (filter_step D e f) = rf_last_rotate f"
    "\<not> rotates (fst e) f \<Longrightarrow> in_either D w f \<Longrightarrow> in_either D w (filter_step D e f) \<and> rf_last_rotate (filter_step D e f) = rf_last_rotate f"
    "rotates (fst e) f \<Longrightarrow> in_active D w f \<Longrightarrow> in_either D w (filter_step D e f) \<and> rf_last_rotate (filter_step D e f) = fst e"
proof -
  obtain now op where e: "e = (now, op)" by (cases e) auto
  have last: "rf_last_rotate (filter_step D e f) = rf_last_rotate (rotate_if_needed now f)"
    by (cases op) (simp_all add: e filter_add_def filter_seen_def Let_def)
  have act: "in_active D w (rotate_if_needed now f) \<Longrightarrow> in_active D w (filter_step D e f)"
    and eit: "in_either D w (rotate_if_needed now f) \<Longrightarrow> in_either D w (filter_step D e f)"
    using filter_add_keeps [OF assms] by (cases op; simp add: e filter_seen_def Let_def)+
  show "\<not> rotates (fst e) f \<Longrightarrow> in_active D w f \<Longrightarrow> in_active D w (filter_step D e f) \<and> rf_last_rotate (filter_step D e f) = rf_last_rotate f"
    "\<not> rotates (fst e) f \<Longrightarrow> in_either D w f \<Longrightarrow> in_either D w (filter_step D e f) \<and> rf_last_rotate (filter_step D e f) = rf_last_rotate f"
    "rotates (fst e) f \<Longrightarrow> in_active D w f \<Longrightarrow> in_either D w (filter_step D e f) \<and> rf_last_rotate (filter_step D e f) = fst e"
    using act eit rotate_cases(1) [of now f] rotate_cases(2) [of now f D w] last by (auto simp: e)
qed

lemma seen_in_either: "in_either D v (rotate_if_needed now f) \<Longrightarrow> fst (filter_seen D now v f)"
  by (simp add: filter_seen_def Let_def in_either_def list_all_iff)

text \<open>A value survives one rotation, and the next one is at least (almost) a period later.\<close>

lemma rotates_late:
  assumes "rotates (Fin t) f" "rf_last_rotate f = Fin T" "rf_rotate_s f = 3600"
  shows "T + 7199 / 2 < t"
proof (rule ccontr)
  assume "\<not> T + 7199 / 2 < t"
  then have "fle (fl (t - T)) (fl (7199 / 2))" by (intro fl_mono) simp
  moreover have "is_double (7199 / 2)" unfolding is_double_def by (rule exI [of _ 7199], rule exI [of _ "- 1"]) (simp add: power_int_def)
  then have "fl (7199 / 2) = Fin (7199 / 2)" by (intro fl_exact) (auto simp: in_range_def)
  ultimately have "flt (fl (t - T)) (Fin 3600)" using fle_flt_trans [of "fl (t - T)" "Fin (7199 / 2)" "Fin 3600"] by simp
  then show False using assms by (simp add: rotates_def fsub_def)
qed

definition remembers :: "(bytes \<Rightarrow> bytes) \<Rightarrow> string \<Rightarrow> rat \<Rightarrow> replay_filter \<Rightarrow> bool" where
  "remembers D v T f \<longleftrightarrow> filter_wf f \<and> rf_rotate_s f = 3600
     \<and> (in_active D v f \<and> rf_last_rotate f = Fin T \<or> in_either D v f \<and> (\<exists>t. rf_last_rotate f = Fin t \<and> T + 7199 / 2 < t))"

lemma remembers_not_twice:
  assumes "rf_last_rotate f = Fin u" "T + 7199 / 2 < u" "t \<le> T + 7199" "rf_rotate_s f = 3600"
  shows "\<not> rotates (Fin t) f"
  using rotates_late [of t f u] assms by auto

lemma remembers_step:
  assumes "remembers D v T f" "t \<le> T + 7199"
  shows "remembers D v T (filter_step D (Fin t, op) f)"
proof -
  let ?e = "(Fin t, op)"
  have wf: "filter_wf f" "rf_rotate_s f = 3600" using assms(1) by (auto simp: remembers_def)
  then have wf': "filter_wf (filter_step D ?e f)" "rf_rotate_s (filter_step D ?e f) = 3600"
    using filter_wf_step [of f D ?e] same_layout_step [of D ?e f] by (auto simp: same_layout_def)
  note keeps = filter_step_keeps [OF wf(1), of ?e D v, unfolded fst_conv]
  from assms(1) consider "in_active D v f" "rf_last_rotate f = Fin T" | u where "in_either D v f" "rf_last_rotate f = Fin u" "T + 7199 / 2 < u"
    by (auto simp: remembers_def)
  then show ?thesis
  proof cases
    case 1
    then show ?thesis using keeps(1,3) wf' rotates_late [OF _ 1(2) wf(2)] by (cases "rotates (Fin t) f") (auto simp: remembers_def)
  next
    case 2
    then have "\<not> rotates (Fin t) f" using remembers_not_twice assms(2) wf(2) by blast
    then show ?thesis using keeps(2) 2 wf' by (auto simp: remembers_def)
  qed
qed

lemma remembers_seen:
  assumes "remembers D v T f" "t \<le> T + 7199"
  shows "fst (filter_seen D (Fin t) v f)"
proof (rule seen_in_either)
  from assms(1) consider "in_active D v f" | u where "in_either D v f" "rf_last_rotate f = Fin u" "T + 7199 / 2 < u" "rf_rotate_s f = 3600"
    by (auto simp: remembers_def)
  then show "in_either D v (rotate_if_needed (Fin t) f)"
  proof cases
    case 1
    then show ?thesis using rotate_cases [where now = "Fin t" and f = f] by (cases "rotates (Fin t) f") (auto simp: in_either_def in_active_def)
  next
    case 2
    then have "\<not> rotates (Fin t) f" using remembers_not_twice assms(2) by blast
    then show ?thesis using 2 rotate_cases(1) by simp
  qed
qed

text \<open>
  C40: The replay filter has no false negatives for almost two periods: after a value was added to a filter of the
  ledger's shape, every test up to 7199 seconds after the filter's last rotation finds it, whatever is added and tested
  in between; and every position lies inside the bit sets.
\<close>

theorem replay_filter_remembers:
  assumes "filter_wf f" "rf_rotate_s f = 3600" "rf_last_rotate (filter_add D now v f) = Fin T"
    and "\<forall>(t, op) \<in> set ops. t \<le> T + 7199" "t \<le> T + 7199"
  defines "g \<equiv> fold (\<lambda>(t, op). filter_step D (Fin t, op)) ops (filter_add D now v f)"
  shows "fst (filter_seen D (Fin t) v g) \<and> (\<forall>w. \<forall>p \<in> set (positions D g w). p div 8 < length (rf_active g) \<and> p div 8 < length (rf_previous g))"
proof -
  have "remembers D v T (filter_add D now v f)"
    using filter_add_keeps(1) [OF assms(1)] filter_wf_step [OF assms(1), of D "(now, Add v)"] same_layout_step [of D "(now, Add v)" f] assms(2,3)
    by (auto simp: remembers_def same_layout_def)
  then have "remembers D v T g"
    unfolding g_def using assms(4) by (induction ops arbitrary: f rule: rev_induct) (auto intro: remembers_step)
  then show ?thesis using remembers_seen [OF _ assms(5)] positions_bound by (auto simp: remembers_def filter_wf_def)
qed

definition example_filter :: replay_filter where
  "example_filter = new_replay_filter 1000000 3 3600 [7] (Fin 0)"

lemma replay_filter_remembers_witness:
  "fst (filter_seen id (Fin 7000) ''ab'' (filter_step id (Fin 3700, Add ''cd'') (filter_add id (Fin 0) ''ab'' example_filter)))"
proof -
  have "rf_last_rotate (filter_add id (Fin 0) ''ab'' example_filter) = Fin 0"
    by (simp add: filter_add_def rotate_if_needed_def example_filter_def new_replay_filter_def Let_def fsub_def)
  moreover have "filter_wf example_filter" by (simp only: example_filter_def filter_wf_new)
  moreover have "rf_rotate_s example_filter = 3600" by (simp add: example_filter_def new_replay_filter_def Let_def)
  ultimately show ?thesis
    using replay_filter_remembers [of example_filter id "Fin 0" "''ab''" 0 "[(3700, Add ''cd'')]" 7000] by simp
qed

end
