(* ===== verification/Hashchain.thy ===== *)
theory Hashchain
  imports Chain_Event Replay_Filter
begin

text \<open>
  The ledger of \<open>services/mesh/mesh_hashchain.py\<close>, the class \<open>Infonet\<close>: its state and the operations that read or
  extend it one event at a time. Events are dictionaries as they were received. A table is an association list in
  insertion order; its keys are the values the code looks up, so that a key that cannot be hashed raises. Files, timers,
  metrics, log lines and the hooks of other services are left out.
\<close>

subsection \<open>The state\<close>

record revocation =
  rv_public_key :: pyval
  rv_public_key_algo :: pyval
  rv_revoked_at :: int
  rv_grace_until :: int
  rv_reason :: pyval
  rv_event_id :: pyval
  rv_node_id :: pyval

record infonet =
  in_events :: "pydict list"
  in_head :: pyval
  in_sequences :: "(pyval \<times> int) list"
  in_domains :: "(pyval \<times> int) list"
  in_index :: "(pyval \<times> nat) list"
  in_bindings :: "(string \<times> string) list"
  in_revocations :: "(pyval \<times> revocation) list"
  in_filter :: replay_filter
  in_validated :: nat
  in_type_counts :: "(pyval \<times> int) list"
  in_active_count :: int
  in_registered :: "string list"
  in_chain_bytes :: int

text \<open>
  What a call reads from outside: the hash of texts and of bytes, the keys, the C library, the registries of event types,
  the limits from the environment, and the random salt of a new filter.
\<close>

record chain_env =
  en_prim :: primitives
  en_crypto :: crypto
  en_libm :: libm
  en_digest :: "bytes \<Rightarrow> bytes"
  en_registries :: ledger_registries
  en_max_age_s :: int
  en_spool_limit :: int
  en_spool_sender_limit :: int
  en_spool_ttl_s :: int
  en_salt :: bytes

definition fresh_filter :: "chain_env \<Rightarrow> pyfloat \<Rightarrow> replay_filter" where
  "fresh_filter E now = new_replay_filter 1000000 3 3600 (en_salt E) now"

definition new_infonet :: "chain_env \<Rightarrow> pyfloat \<Rightarrow> infonet" where
  "new_infonet E now = \<lparr>in_events = [], in_head = PStr genesis_hash, in_sequences = [], in_domains = [], in_index = [], in_bindings = [],
     in_revocations = [], in_filter = fresh_filter E now, in_validated = 0, in_type_counts = [], in_active_count = 0, in_registered = [],
     in_chain_bytes = 2\<rparr>"

text \<open>\<open>table.get(key)\<close>\<close>

definition lookup_key :: "(pyval \<times> 'a) list \<Rightarrow> pyval \<Rightarrow> 'a option res" where
  "lookup_key t k = (if hashable k then Inr (map_of t k) else Inl TypeError)"

text \<open>\<open>evt.get(k, "")\<close> and \<open>_safe_int(evt.get(k, 0) or 0, 0)\<close>\<close>

definition field :: "pydict \<Rightarrow> string \<Rightarrow> pyval" where
  "field evt k = get_or evt k (PStr [])"

definition event_sequence :: "pydict \<Rightarrow> int res" where
  "event_sequence evt = int_or_zero evt ''sequence''"

definition max_payload_bytes :: int where
  "max_payload_bytes = 4096"

definition critical_event_types :: "string list" where
  "critical_event_types = [''key_rotate'', ''key_revoke'']"

subsection \<open>Sequences, bindings, revocations, counters\<close>

datatype sequence_key = Node_Key pyval | Domain_Key string

definition sequence_table_for_event :: "pyval \<Rightarrow> pyval \<Rightarrow> sequence_key" where
  "sequence_table_for_event et node =
     (let normalized = lower_text (strip (py_str (py_or et (PStr [])))) in
      if normalized = ''gate_message'' then Domain_Key (py_str node @ ''|gate_message'')
      else if normalized = ''dm_message'' then Domain_Key (py_str node @ ''|dm_message'')
      else Node_Key node)"

definition last_sequence :: "infonet \<Rightarrow> sequence_key \<Rightarrow> int res" where
  "last_sequence s k = (case k of
       Node_Key v \<Rightarrow> bnd (lookup_key (in_sequences s) v) (\<lambda>r. Inr (case r of Some n \<Rightarrow> n | None \<Rightarrow> 0))
     | Domain_Key d \<Rightarrow> Inr (case map_of (in_domains s) (PStr d) of Some n \<Rightarrow> n | None \<Rightarrow> 0))"

definition set_sequence :: "sequence_key \<Rightarrow> int \<Rightarrow> infonet \<Rightarrow> infonet" where
  "set_sequence k n s = (case k of
       Node_Key v \<Rightarrow> s\<lparr>in_sequences := AList.update v n (in_sequences s)\<rparr>
     | Domain_Key d \<Rightarrow> s\<lparr>in_domains := AList.update (PStr d) n (in_domains s)\<rparr>)"

definition validate_and_set_sequence :: "string \<Rightarrow> int \<Rightarrow> string \<Rightarrow> infonet \<Rightarrow> verdict \<times> infonet" where
  "validate_and_set_sequence node sequence domain s =
     (if sequence \<le> 0 then ((False, ''Sequence must be a positive integer''), s)
      else let d = lower_text (strip domain);
               k = (if d \<noteq> [] then Domain_Key (node @ ''|'' @ d) else Node_Key (PStr node))
           in case last_sequence s k of
               Inl e \<Rightarrow> ((False, []), s)
             | Inr seen \<Rightarrow>
                 if sequence \<le> seen then ((False, ''Replay detected: sequence '' @ int_str sequence @ '' <= last '' @ int_str seen), s)
                 else ((True, ''ok''), set_sequence k sequence s))"

definition bind_public_key :: "pyval \<Rightarrow> pyval \<Rightarrow> infonet \<Rightarrow> verdict \<times> infonet" where
  "bind_public_key k node s =
     (let key = py_str (py_or k (PStr [])); node = py_str (py_or node (PStr [])) in
      if key = [] \<or> node = [] then ((False, ''Missing public key binding fields''), s)
      else case map_of (in_bindings s) key of
          Some existing \<Rightarrow>
            if existing \<noteq> [] \<and> existing \<noteq> node then ((False, ''public key already bound to '' @ existing), s)
            else ((True, ''ok''), s\<lparr>in_bindings := AList.update key node (in_bindings s)\<rparr>)
        | None \<Rightarrow> ((True, ''ok''), s\<lparr>in_bindings := AList.update key node (in_bindings s)\<rparr>))"

text \<open>The payload is a dictionary: what is stored has been validated.\<close>

definition payload_of :: "pydict \<Rightarrow> pydict" where
  "payload_of evt = Schema.fields (get evt ''payload'')"

definition revocation_of :: "pydict \<Rightarrow> pyval \<Rightarrow> revocation res" where
  "revocation_of evt public_key =
     (let p = payload_of evt in
      bnd (int_or_zero p ''revoked_at'') (\<lambda>revoked_at.
      bnd (safe_int_or (py_or (get_or p ''grace_until'' (PInt revoked_at)) (PInt revoked_at)) revoked_at) (\<lambda>grace_until.
        Inr \<lparr>rv_public_key = public_key, rv_public_key_algo = py_or (get p ''revoked_public_key_algo'') (get evt ''public_key_algo''),
             rv_revoked_at = revoked_at, rv_grace_until = grace_until, rv_reason = field p ''reason'',
             rv_event_id = field evt ''event_id'', rv_node_id = field evt ''node_id''\<rparr>)))"

definition apply_revocation :: "pydict \<Rightarrow> infonet \<Rightarrow> infonet res" where
  "apply_revocation evt s =
     (let public_key = py_or (get (payload_of evt) ''revoked_public_key'') (field evt ''public_key'') in
      if \<not> truthy public_key then Inr s
      else bnd (revocation_of evt public_key) (\<lambda>info.
        bnd (lookup_key (in_revocations s) public_key) (\<lambda>existing.
          Inr (if (case existing of None \<Rightarrow> True | Some old \<Rightarrow> rv_revoked_at old \<le> rv_revoked_at info)
               then s\<lparr>in_revocations := AList.update public_key info (in_revocations s)\<rparr> else s))))"

definition revocation_status :: "pyfloat \<Rightarrow> pyval \<Rightarrow> infonet \<Rightarrow> bool res" where
  "revocation_status now k s = bnd (lookup_key (in_revocations s) k) (\<lambda>r.
     Inr (case r of None \<Rightarrow> False | Some info \<Rightarrow> flt (Fin (of_int (rv_grace_until info))) now))"

text \<open>\<open>json.dumps(evt)\<close> with its defaults, of which only the length is used\<close>

definition ascii_json_char :: "char \<Rightarrow> string" where
  "ascii_json_char c = (let n = of_char c :: nat in
     if 127 < n then [char_of (92 :: nat), CHR ''u'', CHR ''0'', CHR ''0'', hex_digit (n div 16), hex_digit (n mod 16)] else json_char c)"

definition ascii_json_str :: "string \<Rightarrow> string" where
  "ascii_json_str s = [char_of (34 :: nat)] @ concat (map ascii_json_char s) @ [char_of (34 :: nat)]"

fun default_json :: "pyval \<Rightarrow> string" where
  "default_json (PStr s) = ascii_json_str s"
| "default_json (PList xs) = ''['' @ join '', '' (map default_json xs) @ '']''"
| "default_json (PDict d) = ''{'' @ join '', '' (map (\<lambda>(k, v). ascii_json_str k @ '': '' @ default_json v) d) @ ''}''"
| "default_json v = json_dumps v"

definition count_type :: "pydict \<Rightarrow> infonet \<Rightarrow> infonet" where
  "count_type evt s =
     (let t = get_or evt ''event_type'' (PStr ''unknown''); node = py_str (py_or (field evt ''node_id'') (PStr []));
          n = (case map_of (in_type_counts s) t of Some n \<Rightarrow> n | None \<Rightarrow> 0)
      in s\<lparr>in_type_counts := AList.update t (n + 1) (in_type_counts s),
           in_registered := (if t = PStr ''node_register'' \<and> node \<noteq> [] then set_add node (in_registered s) else in_registered s)\<rparr>)"

definition update_counters_for_event :: "pydict \<Rightarrow> infonet \<Rightarrow> infonet" where
  "update_counters_for_event evt s = (count_type evt s)
     \<lparr>in_active_count := in_active_count s + 1, in_chain_bytes := in_chain_bytes s + int (length (default_json (PDict evt))) + 2\<rparr>"

subsection \<open>Gate messages: what their signature may cover\<close>

definition event_payload_dict :: "pydict \<Rightarrow> pydict" where
  "event_payload_dict evt = (case get evt ''payload'' of PDict p \<Rightarrow> p | _ \<Rightarrow> [])"

definition private_gate_signature_payload :: "string \<Rightarrow> pydict \<Rightarrow> bool \<Rightarrow> pydict res" where
  "private_gate_signature_payload gate evt include_reply_to =
     (let p = event_payload_dict evt; reply_to = strip (text_or p ''reply_to'') in
      bnd (int_or_zero p ''epoch'') (\<lambda>epoch.
        normalize_payload ''gate_message''
          ([(''gate'', PStr (lower_text (strip gate))), (''ciphertext'', PStr (text_or p ''ciphertext'')), (''nonce'', PStr (text_or p ''nonce'')),
            (''sender_ref'', PStr (text_or p ''sender_ref'')),
            (''format'', PStr (py_str (py_or (get_or p ''format'' (PStr ''mls1'')) (PStr ''mls1''))))]
           @ (if 0 < epoch then [(''epoch'', PInt epoch)] else [])
           @ field_unless_empty ''envelope_hash'' (strip (text_or p ''envelope_hash''))
           @ transport_lock_part p
           @ (if include_reply_to then field_unless_empty ''reply_to'' reply_to else []))))"

definition first_of_each_text :: "pydict list \<Rightarrow> pydict list" where
  "first_of_each_text variants =
     rev (fold (\<lambda>v kept. if canonical_json v \<in> set (map canonical_json kept) then kept else v # kept) variants [])"

definition private_gate_signature_payload_variants :: "string \<Rightarrow> pydict \<Rightarrow> pydict list res" where
  "private_gate_signature_payload_variants gate evt =
     (let reply_to = strip (text_or (event_payload_dict evt) ''reply_to'') in
      bnd (private_gate_signature_payload gate evt True) (\<lambda>p.
      bnd (private_gate_signature_payload gate evt False) (\<lambda>no_reply.
        Inr (first_of_each_text
          ([p] @ (if reply_to \<noteq> [] then [no_reply] else [])
           @ (if has_key p ''epoch''
              then [without ''epoch'' p] @ (if reply_to \<noteq> [] then [without ''epoch'' no_reply] else []) else []))))))"

fun any_res :: "('a \<Rightarrow> bool res) \<Rightarrow> 'a list \<Rightarrow> bool res" where
  "any_res f [] = Inr False"
| "any_res f (x # xs) = bnd (f x) (\<lambda>b. if b then Inr True else any_res f xs)"

text \<open>Whether one of the texts the signature may cover is covered by it\<close>

definition signature_ok :: "chain_env \<Rightarrow> string \<Rightarrow> pyval \<Rightarrow> int \<Rightarrow> pyval \<Rightarrow> pyval \<Rightarrow> pyval \<Rightarrow> pydict list \<Rightarrow> bool res" where
  "signature_ok E et node sequence public_key algo signature payloads =
     any_res (\<lambda>p. bnd (build_signature_payload et node sequence p) (\<lambda>m. verify_signature (en_crypto E) public_key algo signature m)) payloads"

end
