(* ===== verification/Hashchain_Ingest.thy ===== *)
theory Hashchain_Ingest
  imports Hashchain
begin

text \<open>
  \<open>ingest_events\<close> of the ledger: the checks an event from outside passes, in the order of the code, and what
  accepting it changes. A check decides the event or lets it go on; it may change the state (the replay filter rotates,
  a public key is bound) and it may raise, and then the changes made so far stay. Every call of the clock while one
  event is handled gives the same time.
\<close>

subsection \<open>Checks\<close>

datatype outcome = Accepted | Duplicate | Rejected string

type_synonym check = "infonet \<Rightarrow> outcome option res \<times> infonet"

text \<open>A check that only reads\<close>

definition reads :: "(infonet \<Rightarrow> outcome option res) \<Rightarrow> check" where
  "reads f s = (f s, s)"

definition reject_if :: "bool \<Rightarrow> string \<Rightarrow> outcome option res" where
  "reject_if bad why = Inr (if bad then Some (Rejected why) else None)"

definition reject_verdict :: "verdict \<Rightarrow> outcome option res" where
  "reject_verdict v = reject_if (\<not> fst v) (snd v)"

fun run_checks :: "check list \<Rightarrow> check" where
  "run_checks [] s = (Inr None, s)"
| "run_checks (c # cs) s = (case c s of
       (Inr None, s') \<Rightarrow> run_checks cs s'
     | decided \<Rightarrow> decided)"

subsection \<open>The code: the spool of direct messages\<close>

definition dm_spool_target_key :: "pydict \<Rightarrow> string \<times> string" where
  "dm_spool_target_key p =
     (let delivery_class = lower_text (strip (text_or p ''delivery_class'')) in
      (delivery_class, if delivery_class = ''shared'' then strip (text_or p ''recipient_token'') else strip (text_or p ''recipient_id'')))"

text \<open>One event of the chain, newest first: whether the loop stops, because both limits are reached, and the counts\<close>

definition spool_event :: "chain_env \<Rightarrow> pyfloat \<Rightarrow> string \<times> string \<Rightarrow> string \<Rightarrow> pydict \<Rightarrow> int \<times> int \<Rightarrow> (bool \<times> int \<times> int) res" where
  "spool_event E now target sender evt n =
     (let p = event_payload_dict evt in
      if get evt ''event_type'' \<noteq> PStr ''dm_message'' \<or> dm_spool_target_key p \<noteq> target then Inr (False, n)
      else bnd (py_float (py_or (get_or p ''timestamp'' (get_or evt ''timestamp'' (PInt 0))) (PInt 0))) (\<lambda>ts.
        if flt (Fin 0) ts \<and> flt (Fin (of_int (en_spool_ttl_s E))) (fsub now ts) then Inr (False, n)
        else let n_all = fst n + 1;
                 by_sender = (if sender \<noteq> [] \<and> strip (py_str (py_or (field evt ''node_id'') (PStr []))) = sender then snd n + 1 else snd n)
             in Inr (en_spool_limit E \<le> n_all \<and> (sender = [] \<or> en_spool_sender_limit E \<le> by_sender), n_all, by_sender)))"

primrec dm_spool_counts :: "chain_env \<Rightarrow> pyfloat \<Rightarrow> string \<times> string \<Rightarrow> string \<Rightarrow> pydict list \<Rightarrow> int \<times> int \<Rightarrow> (int \<times> int) res" where
  "dm_spool_counts E now target sender [] n = Inr n"
| "dm_spool_counts E now target sender (evt # evts) n =
     bnd (spool_event E now target sender evt n) (\<lambda>(stop, n'). if stop then Inr n' else dm_spool_counts E now target sender evts n')"

definition dm_spool_active_counts :: "chain_env \<Rightarrow> pyfloat \<Rightarrow> pydict \<Rightarrow> string \<Rightarrow> infonet \<Rightarrow> (int \<times> int) res" where
  "dm_spool_active_counts E now p sender s =
     (let target = dm_spool_target_key p in
      if snd target = [] then Inr (0, 0) else dm_spool_counts E now target (strip sender) (rev (in_events s)) (0, 0))"

subsection \<open>The code: the checks of \<open>ingest_events\<close>\<close>

definition check_type :: "pydict \<Rightarrow> check" where
  "check_type evt = reads (\<lambda>s. bnd (event_sequence evt) (\<lambda>_. bnd (in_str_set (field evt ''event_type'') public_ledger_event_types) (\<lambda>ok.
     reject_if (\<not> ok) ''Unsupported event_type'')))"

definition check_ids :: "pydict \<Rightarrow> check" where
  "check_ids evt = reads (\<lambda>s. reject_if (\<not> truthy (field evt ''event_id'') \<or> \<not> truthy (field evt ''prev_hash'')) ''Missing event_id or prev_hash'')"

definition check_index :: "pydict \<Rightarrow> check" where
  "check_index evt = reads (\<lambda>s. bnd (lookup_key (in_index s) (field evt ''event_id'')) (\<lambda>r. Inr (if r = None then None else Some Duplicate)))"

definition check_replay_filter :: "chain_env \<Rightarrow> pyfloat \<Rightarrow> pydict \<Rightarrow> check" where
  "check_replay_filter E now evt s = (case field evt ''event_id'' of
       PStr i \<Rightarrow> (case filter_seen (en_digest E) now i (in_filter s) of
           (hit, f) \<Rightarrow> (Inr (if hit then Some Duplicate else None), s\<lparr>in_filter := f\<rparr>))
     | _ \<Rightarrow> (Inl AttributeError, s\<lparr>in_filter := rotate_if_needed now (in_filter s)\<rparr>))"

definition check_prev :: "pyval \<Rightarrow> pydict \<Rightarrow> check" where
  "check_prev expected evt = reads (\<lambda>s. reject_if (field evt ''prev_hash'' \<noteq> expected) ''prev_hash does not match head'')"

definition check_network :: "pydict \<Rightarrow> check" where
  "check_network evt = reads (\<lambda>s. reject_if (get evt ''network_id'' \<noteq> PStr network_id) ''network_id mismatch'')"

definition check_head :: "pydict \<Rightarrow> check" where
  "check_head evt = reads (\<lambda>s. reject_if (field evt ''prev_hash'' \<noteq> in_head s) ''prev_hash does not match head'')"

definition event_key :: "pydict \<Rightarrow> sequence_key" where
  "event_key evt = sequence_table_for_event (field evt ''event_type'') (field evt ''node_id'')"

definition check_sequence :: "pydict \<Rightarrow> check" where
  "check_sequence evt = reads (\<lambda>s. bnd (event_sequence evt) (\<lambda>n.
     if n \<le> 0 then Inr (Some (Rejected ''Invalid sequence''))
     else bnd (last_sequence s (event_key evt)) (\<lambda>m. reject_if (n \<le> m) ''Replay detected'')))"

definition check_fresh :: "chain_env \<Rightarrow> pyfloat \<Rightarrow> pydict \<Rightarrow> check" where
  "check_fresh E now evt = reads (\<lambda>s.
     if en_max_age_s E \<le> 0 then Inr None
     else bnd (int_or_zero evt ''timestamp'') (\<lambda>ts.
       if ts \<le> 0 then Inr None
       else bnd (py_int (PFloat now)) (\<lambda>n. reject_if (en_max_age_s E < \<bar>n - ts\<bar>) ''Event timestamp outside freshness window'')))"

definition event_body :: "pydict \<Rightarrow> pyval" where
  "event_body evt = get_or evt ''payload'' (PDict [])"

definition check_payload :: "chain_env \<Rightarrow> pydict \<Rightarrow> check" where
  "check_payload E evt = reads (\<lambda>s. bnd (validate_event_payload (en_registries E) (text_of (field evt ''event_type'')) (event_body evt)) reject_verdict)"

definition check_ledger :: "chain_env \<Rightarrow> pyfloat \<Rightarrow> pydict \<Rightarrow> check" where
  "check_ledger E now evt = reads (\<lambda>s.
     let et = text_of (field evt ''event_type''); body = event_body evt in
     if et = ''gate_message'' then bnd (validate_private_gate_ledger_payload (en_libm E) (en_registries E) body) reject_verdict
     else if et = ''dm_message'' then
       bnd (and_then (validate_private_dm_ledger_payload (en_libm E) (en_registries E) body)
              (bnd (dm_spool_active_counts E now (Schema.fields body) (py_str (py_or (field evt ''node_id'') (PStr []))) s) (\<lambda>(n_all, by_sender).
                Inr (if en_spool_sender_limit E \<le> by_sender then (False, ''DM hashchain sender spool full for recipient'')
                     else if en_spool_limit E \<le> n_all then (False, ''DM hashchain spool full for recipient'')
                     else (True, ''ok''))))) reject_verdict
     else bnd (validate_public_ledger_payload (en_libm E) (en_registries E) et body) reject_verdict)"

definition check_ephemeral :: "pydict \<Rightarrow> check" where
  "check_ephemeral evt = reads (\<lambda>s. reject_if (field evt ''event_type'' = PStr ''message'' \<and> \<not> has_key (Schema.fields (event_body evt)) ''ephemeral'')
     ''Missing ephemeral flag'')"

definition check_size :: "pydict \<Rightarrow> check" where
  "check_size evt = reads (\<lambda>s. reject_if (max_payload_bytes < int (length (utf8 (json_dumps (event_body evt))))) ''Payload too large'')"

definition check_version :: "pydict \<Rightarrow> check" where
  "check_version evt = reads (\<lambda>s. reject_if (py_or (get evt ''protocol_version'') (PStr protocol_version) \<noteq> PStr protocol_version)
     ''Unsupported protocol_version'')"

definition check_signature_fields :: "pydict \<Rightarrow> check" where
  "check_signature_fields evt = reads (\<lambda>s.
     if \<not> truthy (field evt ''signature'') \<or> \<not> truthy (field evt ''public_key'') \<or> \<not> truthy (field evt ''public_key_algo'')
     then Inr (Some (Rejected ''Missing signature fields''))
     else bnd (parse_public_key_algo (field evt ''public_key_algo'')) (\<lambda>a. reject_if (a = []) ''Unsupported public_key_algo''))"

text \<open>A payload field that is set names the key of the event.\<close>

definition names_other :: "pydict \<Rightarrow> string \<Rightarrow> pyval \<Rightarrow> bool" where
  "names_other p k v \<longleftrightarrow> truthy (get p k) \<and> get p k \<noteq> v"

definition check_revoke_target :: "pydict \<Rightarrow> check" where
  "check_revoke_target evt = reads (\<lambda>s. let p = Schema.fields (event_body evt) in
     if field evt ''event_type'' \<noteq> PStr ''key_revoke'' then Inr None
     else if names_other p ''revoked_public_key'' (field evt ''public_key'') then Inr (Some (Rejected ''revoked_public_key must match public_key''))
     else reject_if (names_other p ''revoked_public_key_algo'' (field evt ''public_key_algo'')) ''revoked_public_key_algo must match public_key_algo'')"

definition check_revoked :: "pyfloat \<Rightarrow> pydict \<Rightarrow> check" where
  "check_revoked now evt = reads (\<lambda>s. bnd (revocation_status now (field evt ''public_key'') s) (\<lambda>revoked.
     reject_if (revoked \<and> field evt ''event_type'' \<noteq> PStr ''key_revoke'') ''public key is revoked''))"

definition check_sequence_again :: "pydict \<Rightarrow> check" where
  "check_sequence_again evt = reads (\<lambda>s. bnd (event_sequence evt) (\<lambda>n. bnd (last_sequence s (event_key evt)) (\<lambda>m.
     reject_if (n \<le> m) (''Replay detected: sequence '' @ int_str n @ '' <= last '' @ int_str m))))"

definition check_binding :: "chain_env \<Rightarrow> pydict \<Rightarrow> check" where
  "check_binding E evt s =
     (if \<not> verify_node_binding (en_crypto E) (field evt ''node_id'') (field evt ''public_key'') then (Inr (Some (Rejected ''node_id mismatch'')), s)
      else case bind_public_key (field evt ''public_key'') (field evt ''node_id'') s of (v, s') \<Rightarrow> (reject_verdict v, s'))"

definition signature_payloads :: "pydict \<Rightarrow> pydict list res" where
  "signature_payloads evt = (let p = Schema.fields (event_body evt) in
     if field evt ''event_type'' = PStr ''gate_message'' then private_gate_signature_payload_variants (text_or p ''gate'') evt else Inr [p])"

definition signed_ok :: "chain_env \<Rightarrow> pydict \<Rightarrow> bool res" where
  "signed_ok E evt = bnd (event_sequence evt) (\<lambda>n. bnd (signature_payloads evt) (\<lambda>ps.
     signature_ok E (text_of (field evt ''event_type'')) (field evt ''node_id'') n (field evt ''public_key'') (field evt ''public_key_algo'')
       (field evt ''signature'') ps))"

definition check_signature :: "chain_env \<Rightarrow> pydict \<Rightarrow> check" where
  "check_signature E evt = reads (\<lambda>s. bnd (signed_ok E evt) (\<lambda>ok. reject_if (\<not> ok) ''Invalid signature''))"

definition value_key_type :: "pyexc \<Rightarrow> bool" where
  "value_key_type e \<longleftrightarrow> type_or_value e \<or> e = KeyError"

text \<open>The text of the exception is not part of the modelled reason.\<close>

definition check_hash :: "chain_env \<Rightarrow> pyfloat \<Rightarrow> pydict \<Rightarrow> check" where
  "check_hash E now evt = reads (\<lambda>s. case event_from_dict (en_prim E) now evt of
       Inl e \<Rightarrow> if value_key_type e then Inr (Some (Rejected ''event_id hash mismatch'')) else Inl e
     | Inr e \<Rightarrow> reject_if (PStr (ev_event_id e) \<noteq> field evt ''event_id'') ''event_id mismatch'')"

subsection \<open>The code: accepting\<close>

definition add_event :: "pydict \<Rightarrow> infonet \<Rightarrow> infonet" where
  "add_event evt s = s\<lparr>in_events := in_events s @ [evt], in_index := AList.update (field evt ''event_id'') (length (in_events s)) (in_index s),
     in_head := field evt ''event_id''\<rparr>"

definition remember_id :: "chain_env \<Rightarrow> pyfloat \<Rightarrow> pyval \<Rightarrow> infonet \<Rightarrow> infonet" where
  "remember_id E now i s = (case i of PStr t \<Rightarrow> s\<lparr>in_filter := filter_add (en_digest E) now t (in_filter s)\<rparr> | _ \<Rightarrow> s)"

definition accept_event :: "chain_env \<Rightarrow> pyfloat \<Rightarrow> pydict \<Rightarrow> check" where
  "accept_event E now evt s =
     (case event_sequence evt of
        Inl e \<Rightarrow> (Inl e, s)
      | Inr n \<Rightarrow>
          (let s' = remember_id E now (field evt ''event_id'') (update_counters_for_event evt (set_sequence (event_key evt) n (add_event evt s))) in
           if field evt ''event_type'' = PStr ''key_revoke''
           then (case apply_revocation evt s' of Inl e \<Rightarrow> (Inl e, s') | Inr s'' \<Rightarrow> (Inr (Some Accepted), s''))
           else (Inr (Some Accepted), s')))"

definition ingest_checks :: "chain_env \<Rightarrow> pyfloat \<Rightarrow> pyval \<Rightarrow> pydict \<Rightarrow> check list" where
  "ingest_checks E now expected evt =
     [check_type evt, check_ids evt, check_index evt, check_replay_filter E now evt, check_prev expected evt, check_network evt, check_head evt,
      check_sequence evt, check_fresh E now evt, check_payload E evt, check_ledger E now evt, check_ephemeral evt, check_size evt,
      check_version evt, check_signature_fields evt, check_revoke_target evt, check_revoked now evt, check_sequence_again evt,
      check_binding E evt, check_signature E evt, check_hash E now evt]"

definition ingest_event :: "chain_env \<Rightarrow> pyfloat \<Rightarrow> pyval \<Rightarrow> pyval \<Rightarrow> check" where
  "ingest_event E now expected v s = (case v of
       PDict evt \<Rightarrow> run_checks (ingest_checks E now expected evt @ [accept_event E now evt]) s
     | _ \<Rightarrow> (Inr (Some (Rejected ''Event is not an object'')), s))"

record ingest_report =
  accepted :: nat
  duplicates :: nat
  rejected :: "(nat \<times> string) list"

definition count_outcome :: "nat \<Rightarrow> outcome \<Rightarrow> ingest_report \<Rightarrow> ingest_report" where
  "count_outcome i d r = (case d of
       Accepted \<Rightarrow> r\<lparr>accepted := accepted r + 1\<rparr>
     | Duplicate \<Rightarrow> r\<lparr>duplicates := duplicates r + 1\<rparr>
     | Rejected why \<Rightarrow> r\<lparr>rejected := rejected r @ [(i, why)]\<rparr>)"

text \<open>The loop over a batch: each event comes with the time at which it is handled.\<close>

fun ingest_loop :: "chain_env \<Rightarrow> nat \<Rightarrow> pyval \<Rightarrow> (pyfloat \<times> pyval) list \<Rightarrow> ingest_report \<Rightarrow> infonet \<Rightarrow> ingest_report res \<times> infonet" where
  "ingest_loop E i expected [] r s = (Inr r, s)"
| "ingest_loop E i expected ((now, v) # evts) r s = (case ingest_event E now expected v s of
       (Inl e, s') \<Rightarrow> (Inl e, s')
     | (Inr None, s') \<Rightarrow> ingest_loop E (i + 1) expected evts r s'
     | (Inr (Some d), s') \<Rightarrow>
         ingest_loop E (i + 1) (if d = Accepted then field (Schema.fields v) ''event_id'' else expected) evts (count_outcome i d r) s')"

definition ingest_events :: "chain_env \<Rightarrow> (pyfloat \<times> pyval) list \<Rightarrow> infonet \<Rightarrow> ingest_report res \<times> infonet" where
  "ingest_events E evts s = ingest_loop E 0 (in_head s) evts \<lparr>accepted = 0, duplicates = 0, rejected = []\<rparr> s"

end
