(* ===== verification/Ingest_Facts.thy ===== *)
theory Ingest_Facts
  imports Hashchain_Ingest
begin

text \<open>
  What passing the checks of \<open>ingest_events\<close> means, the invariant of the ledger, and that every batch keeps it.
\<close>

subsection \<open>Running checks\<close>

named_theorems check_defs \<open>the checks that only read\<close>

lemmas [check_defs] = check_type_def check_ids_def check_index_def check_prev_def check_network_def check_head_def check_sequence_def
  check_fresh_def check_payload_def check_ledger_def check_ephemeral_def check_size_def check_version_def check_signature_fields_def
  check_revoke_target_def check_revoked_def check_sequence_again_def check_signature_def check_hash_def

lemma reads_eq [simp]: "reads f s = (r, t) \<longleftrightarrow> f s = r \<and> t = s"
  by (auto simp: reads_def)

lemma reject_if_eq [simp]:
  "reject_if b w = Inr None \<longleftrightarrow> \<not> b" "reject_if b w \<noteq> Inr (Some Accepted)" "reject_if b w \<noteq> Inl e" "reject_if b w \<noteq> Inr (Some Duplicate)"
  by (simp_all add: reject_if_def)

lemma reject_verdict_eq [simp]:
  "reject_verdict v = Inr None \<longleftrightarrow> fst v" "reject_verdict v \<noteq> Inr (Some Accepted)" "reject_verdict v \<noteq> Inl e" "reject_verdict v \<noteq> Inr (Some Duplicate)"
  by (simp_all add: reject_verdict_def)

lemma run_checks_pass: "run_checks (c # cs) s = (Inr None, t) \<longleftrightarrow> (\<exists>u. c s = (Inr None, u) \<and> run_checks cs u = (Inr None, t))"
  by (auto split: prod.splits sum.splits option.splits)

lemma run_checks_append:
  "run_checks (cs @ ds) s = (case run_checks cs s of (Inr None, t) \<Rightarrow> run_checks ds t | decided \<Rightarrow> decided)"
  by (induction cs s rule: run_checks.induct) (auto split: prod.splits sum.splits option.splits)

definition never_accepts :: "check \<Rightarrow> bool" where
  "never_accepts c \<longleftrightarrow> (\<forall>s. fst (c s) \<noteq> Inr (Some Accepted))"

lemma never_accepts_reads: "(\<And>s. f s \<noteq> Inr (Some Accepted)) \<Longrightarrow> never_accepts (reads f)"
  by (simp add: never_accepts_def reads_def)

lemma bnd_never: "(\<And>x. f x \<noteq> Inr (Some Accepted)) \<Longrightarrow> bnd m f \<noteq> Inr (Some Accepted)"
  by (auto simp: bnd_def split: sum.splits)

lemma if_never: "x \<noteq> Inr (Some Accepted) \<Longrightarrow> y \<noteq> Inr (Some Accepted) \<Longrightarrow> (if b then x else y) \<noteq> Inr (Some Accepted)"
  by simp

lemma plain_never: "Inr None \<noteq> Inr (Some Accepted)" "Inr (Some (Rejected w)) \<noteq> Inr (Some Accepted)" "Inr (if b then None else Some Duplicate) \<noteq> Inr (Some Accepted)"
  by simp_all

lemma sum_never: "(\<And>e. f e \<noteq> Inr (Some Accepted)) \<Longrightarrow> (\<And>x. g x \<noteq> Inr (Some Accepted)) \<Longrightarrow> case_sum f g m \<noteq> Inr (Some Accepted)"
  by (cases m) simp_all

lemma Inl_never: "Inl e \<noteq> Inr (Some Accepted)"
  by simp

lemmas never_intros = never_accepts_reads bnd_never if_never sum_never plain_never Inl_never reject_if_eq(2) reject_verdict_eq(2)

lemma read_checks_never:
  "never_accepts (check_type evt)" "never_accepts (check_ids evt)" "never_accepts (check_index evt)" "never_accepts (check_prev x evt)"
  "never_accepts (check_network evt)" "never_accepts (check_head evt)" "never_accepts (check_sequence evt)" "never_accepts (check_fresh E now evt)"
  "never_accepts (check_payload E evt)" "never_accepts (check_ledger E now evt)" "never_accepts (check_ephemeral evt)" "never_accepts (check_size evt)"
  "never_accepts (check_version evt)" "never_accepts (check_signature_fields evt)" "never_accepts (check_revoke_target evt)"
  "never_accepts (check_revoked now evt)" "never_accepts (check_sequence_again evt)" "never_accepts (check_signature E evt)" "never_accepts (check_hash E now evt)"
  unfolding check_defs Let_def by (intro never_intros)+

lemma write_checks_never: "never_accepts (check_replay_filter E now evt)" "never_accepts (check_binding E evt)"
  by (auto simp: never_accepts_def check_replay_filter_def check_binding_def split: pyval.splits prod.splits)

lemma checks_never_accept: "c \<in> set (ingest_checks E now x evt) \<Longrightarrow> never_accepts c"
  unfolding ingest_checks_def using read_checks_never write_checks_never by (auto simp only: list.set insert_iff empty_iff)

lemma run_checks_never: "(\<And>c. c \<in> set cs \<Longrightarrow> never_accepts c) \<Longrightarrow> fst (run_checks cs s) \<noteq> Inr (Some Accepted)"
proof (induction cs arbitrary: s)
  case (Cons c cs)
  have "fst (c s) \<noteq> Inr (Some Accepted)" using Cons.prems [of c] by (simp add: never_accepts_def)
  then show ?case using Cons.IH Cons.prems by (auto split: prod.splits sum.splits option.splits)
qed simp

subsection \<open>What an accepted event is\<close>

lemma pure_reads: "reads f s = (Inr None, t) \<longleftrightarrow> f s = Inr None \<and> t = s"
  by auto

lemma replay_filter_state: "check_replay_filter E now evt s = (r, t) \<Longrightarrow> \<exists>f. t = s\<lparr>in_filter := f\<rparr>"
  by (auto simp: check_replay_filter_def split: pyval.splits prod.splits)

lemma bind_public_key_state: "bind_public_key k node s = (r, t) \<Longrightarrow> \<exists>b. t = s\<lparr>in_bindings := b\<rparr>"
  unfolding bind_public_key_def Let_def
  by (auto split: option.splits if_splits intro: exI [of _ "in_bindings s"])

lemma binding_state: "check_binding E evt s = (r, t) \<Longrightarrow> \<exists>b. t = s\<lparr>in_bindings := b\<rparr>"
  by (auto simp: check_binding_def split: prod.splits if_splits dest: bind_public_key_state intro: exI [of _ "in_bindings s"])

text \<open>The checks change nothing but the filter and the bindings, whatever they decide, and a binding that is set stays.\<close>

definition bindings_kept :: "infonet \<Rightarrow> infonet \<Rightarrow> bool" where
  "bindings_kept s t \<longleftrightarrow> (\<forall>k n. map_of (in_bindings s) k = Some n \<and> n \<noteq> [] \<longrightarrow> map_of (in_bindings t) k = Some n)"

definition aside :: "infonet \<Rightarrow> infonet \<Rightarrow> bool" where
  "aside s t \<longleftrightarrow> (\<exists>f b. t = s\<lparr>in_filter := f, in_bindings := b\<rparr>) \<and> bindings_kept s t"

lemma aside_refl [simp]: "aside s s"
  unfolding aside_def bindings_kept_def by (rule conjI, rule exI [of _ "in_filter s"], rule exI [of _ "in_bindings s"]) simp_all

lemma aside_trans: "aside s t \<Longrightarrow> aside t u \<Longrightarrow> aside s u"
  unfolding aside_def bindings_kept_def by (elim conjE exE) (rule conjI, hypsubst, simp, blast, simp)

lemma bind_public_key_keeps: "bind_public_key k node s = (r, t) \<Longrightarrow> bindings_kept s t"
  by (auto simp: bind_public_key_def bindings_kept_def Let_def update_conv' split: option.splits if_splits)

lemma aside_fields:
  assumes "aside s t"
  shows "in_events t = in_events s" "in_head t = in_head s" "in_sequences t = in_sequences s" "in_domains t = in_domains s"
    "in_index t = in_index s" "in_revocations t = in_revocations s" "last_sequence t k = last_sequence s k"
  using assms by (auto simp: aside_def last_sequence_def split: sequence_key.splits)

definition stays_aside :: "check \<Rightarrow> bool" where
  "stays_aside c \<longleftrightarrow> (\<forall>s. aside s (snd (c s)))"

lemma reads_aside [simp]: "stays_aside (reads f)"
  by (simp add: stays_aside_def reads_def)

lemma write_checks_aside: "stays_aside (check_replay_filter E now evt)" "stays_aside (check_binding E evt)"
proof -
  have "aside s (s\<lparr>in_filter := f\<rparr>)" for s f
    unfolding aside_def bindings_kept_def by (rule conjI, rule exI [of _ f], rule exI [of _ "in_bindings s"]) simp_all
  then show "stays_aside (check_replay_filter E now evt)"
    unfolding stays_aside_def using replay_filter_state by (metis prod.collapse)
  have "bindings_kept s (s\<lparr>in_bindings := b\<rparr>) \<Longrightarrow> aside s (s\<lparr>in_bindings := b\<rparr>)" for s b
    unfolding aside_def by (rule conjI, rule exI [of _ "in_filter s"], rule exI [of _ b]) simp_all
  moreover have "check_binding E evt s = (r, t) \<Longrightarrow> bindings_kept s t" for s r t
    by (auto simp: check_binding_def bindings_kept_def split: prod.splits if_splits dest!: bind_public_key_keeps)
  ultimately show "stays_aside (check_binding E evt)"
    unfolding stays_aside_def using binding_state by (metis prod.collapse)
qed

lemma checks_aside: "c \<in> set (ingest_checks E now x evt) \<Longrightarrow> stays_aside c"
  unfolding ingest_checks_def using write_checks_aside by (auto simp: check_defs)

lemma run_checks_aside: "(\<And>c. c \<in> set cs \<Longrightarrow> stays_aside c) \<Longrightarrow> aside s (snd (run_checks cs s))"
proof (induction cs arbitrary: s)
  case (Cons c cs)
  have "aside s (snd (c s))" using Cons.prems [of c] by (simp add: stays_aside_def)
  then show ?case using Cons.IH [of "snd (c s)"] Cons.prems
    by (auto split: prod.splits sum.splits option.splits intro: aside_trans)
qed simp

definition well_signed :: "chain_env \<Rightarrow> pydict \<Rightarrow> bool" where
  "well_signed E evt \<longleftrightarrow> signed_ok E evt = Inr True \<and> verify_node_binding (en_crypto E) (field evt ''node_id'') (field evt ''public_key'')"

definition well_hashed :: "chain_env \<Rightarrow> pydict \<Rightarrow> bool" where
  "well_hashed E evt \<longleftrightarrow> (\<exists>now e. event_from_dict (en_prim E) now evt = Inr e)"

lemma field_get: "truthy (field evt k) \<Longrightarrow> get evt k = field evt k"
  by (auto simp: field_def get_def get_or_def split: option.splits)

lemma signed_ok_node:
  assumes "signed_ok E evt = Inr True"
  shows "\<exists>n. field evt ''node_id'' = PStr n"
proof -
  have some: "any_res f xs = Inr True \<Longrightarrow> \<exists>x. f x = Inr True" for f :: "pydict \<Rightarrow> bool res" and xs
    by (induction xs) (auto simp: bnd_eq_Inr split: if_splits)
  from assms obtain n ps where "signature_ok E (text_of (field evt ''event_type'')) (field evt ''node_id'') n (field evt ''public_key'')
      (field evt ''public_key_algo'') (field evt ''signature'') ps = Inr True"
    by (auto simp: signed_ok_def bnd_eq_Inr)
  then obtain p m where "build_signature_payload (text_of (field evt ''event_type'')) (field evt ''node_id'') n p = Inr m"
    unfolding signature_ok_def by (auto dest!: some simp: bnd_eq_Inr)
  then show ?thesis by (cases "field evt ''node_id''") (auto simp: build_signature_payload_def Let_def bnd_eq_Inr)
qed

definition ingest_ready :: "chain_env \<Rightarrow> pyfloat \<Rightarrow> pydict \<Rightarrow> infonet \<Rightarrow> infonet \<Rightarrow> bool" where
  "ingest_ready E now evt s t \<longleftrightarrow>
     (\<exists>i et n m. field evt ''event_id'' = PStr i \<and> i \<noteq> [] \<and> map_of (in_index s) (PStr i) = None
       \<and> field evt ''event_type'' = PStr et \<and> et \<in> set public_ledger_event_types
       \<and> field evt ''prev_hash'' = in_head s \<and> get evt ''network_id'' = PStr network_id
       \<and> event_sequence evt = Inr n \<and> 0 < n \<and> last_sequence s (event_key evt) = Inr m \<and> m < n
       \<and> well_signed E evt \<and> well_hashed E evt
       \<and> (revocation_status now (field evt ''public_key'') s = Inr False \<or> et = ''key_revoke'')
       \<and> aside s t \<and> map_of (in_bindings t) (py_str (field evt ''public_key'')) = Some (py_str (field evt ''node_id'')))"

lemma bind_public_key_ok:
  assumes "bind_public_key (PStr k) (PStr n) s = (v, t)" "fst v"
  shows "map_of (in_bindings t) k = Some n \<and> (\<forall>k' n'. map_of (in_bindings s) k' = Some n' \<and> n' \<noteq> [] \<longrightarrow> map_of (in_bindings t) k' = Some n')"
  using assms by (auto simp: bind_public_key_def Let_def update_conv' split: option.splits if_splits)

lemma check_replay_filter_pass: "check_replay_filter E now evt s = (Inr None, t) \<Longrightarrow> \<exists>i. field evt ''event_id'' = PStr i"
  by (auto simp: check_replay_filter_def split: pyval.splits)

lemma check_type_pass: "check_type evt s = (Inr None, t) \<Longrightarrow> \<exists>et n. event_sequence evt = Inr n \<and> field evt ''event_type'' = PStr et \<and> et \<in> set public_ledger_event_types"
  by (auto simp: check_type_def bnd_eq_Inr in_str_set_def in_strs_iff split: if_splits)

lemma check_sequence_pass: "check_sequence evt s = (Inr None, t) \<Longrightarrow>
    \<exists>n m. event_sequence evt = Inr n \<and> 0 < n \<and> last_sequence s (event_key evt) = Inr m \<and> m < n"
  by (auto simp: check_sequence_def bnd_eq_Inr split: if_splits)

lemma check_index_pass: "check_index evt s = (Inr None, t) \<Longrightarrow> map_of (in_index s) (field evt ''event_id'') = None"
  by (auto simp: check_index_def bnd_eq_Inr lookup_key_def split: if_splits)

lemma check_revoked_pass: "check_revoked now evt s = (Inr None, t) \<Longrightarrow> revocation_status now (field evt ''public_key'') s = Inr False \<or> field evt ''event_type'' = PStr ''key_revoke''"
  by (auto simp: check_revoked_def bnd_eq_Inr)

lemma check_binding_pass:
  assumes "check_binding E evt s = (Inr None, t)"
  shows "verify_node_binding (en_crypto E) (field evt ''node_id'') (field evt ''public_key'')"
    "\<exists>v. bind_public_key (field evt ''public_key'') (field evt ''node_id'') s = (v, t) \<and> fst v"
proof -
  obtain v u where v: "bind_public_key (field evt ''public_key'') (field evt ''node_id'') s = (v, u)" by (cases "bind_public_key (field evt ''public_key'') (field evt ''node_id'') s")
  have ok: "verify_node_binding (en_crypto E) (field evt ''node_id'') (field evt ''public_key'')"
    using assms by (cases "verify_node_binding (en_crypto E) (field evt ''node_id'') (field evt ''public_key'')") (simp_all add: check_binding_def)
  then show "verify_node_binding (en_crypto E) (field evt ''node_id'') (field evt ''public_key'')" .
  show "\<exists>v. bind_public_key (field evt ''public_key'') (field evt ''node_id'') s = (v, t) \<and> fst v"
    using assms ok v by (simp add: check_binding_def)
qed

lemma check_hash_pass: "check_hash E now evt s = (Inr None, t) \<Longrightarrow> well_hashed E evt"
  by (auto simp: check_hash_def well_hashed_def split: sum.splits if_splits)

definition reader :: "check \<Rightarrow> bool" where
  "reader c \<longleftrightarrow> (\<exists>f. c = reads f)"

lemma run_checks_read:
  assumes "reader c"
  shows "run_checks (c # cs) s = (Inr None, t) \<longleftrightarrow> c s = (Inr None, s) \<and> run_checks cs s = (Inr None, t)"
  using assms unfolding reader_def run_checks_pass by (elim exE, hypsubst) (simp only: reads_eq, blast)

text \<open>The states the checks pass through: the filter changes at the fourth check, the bindings at the nineteenth.\<close>

lemma checks_pass_states:
  assumes "run_checks (ingest_checks E now x evt) s = (Inr None, t)"
  shows "\<exists>s1. check_replay_filter E now evt s = (Inr None, s1) \<and> check_binding E evt s1 = (Inr None, t)
    \<and> check_type evt s = (Inr None, s) \<and> check_ids evt s = (Inr None, s) \<and> check_index evt s = (Inr None, s)
    \<and> check_prev x evt s1 = (Inr None, s1) \<and> check_network evt s1 = (Inr None, s1) \<and> check_head evt s1 = (Inr None, s1)
    \<and> check_sequence evt s1 = (Inr None, s1) \<and> check_fresh E now evt s1 = (Inr None, s1) \<and> check_payload E evt s1 = (Inr None, s1)
    \<and> check_ledger E now evt s1 = (Inr None, s1) \<and> check_ephemeral evt s1 = (Inr None, s1) \<and> check_size evt s1 = (Inr None, s1)
    \<and> check_version evt s1 = (Inr None, s1) \<and> check_signature_fields evt s1 = (Inr None, s1) \<and> check_revoke_target evt s1 = (Inr None, s1)
    \<and> check_revoked now evt s1 = (Inr None, s1) \<and> check_sequence_again evt s1 = (Inr None, s1)
    \<and> check_signature E evt t = (Inr None, t) \<and> check_hash E now evt t = (Inr None, t)"
proof -
  have rd: "reader (check_type evt)" "reader (check_ids evt)" "reader (check_index evt)" "reader (check_prev x evt)" "reader (check_network evt)"
    "reader (check_head evt)" "reader (check_sequence evt)" "reader (check_fresh E now evt)" "reader (check_payload E evt)" "reader (check_ledger E now evt)"
    "reader (check_ephemeral evt)" "reader (check_size evt)" "reader (check_version evt)" "reader (check_signature_fields evt)" "reader (check_revoke_target evt)"
    "reader (check_revoked now evt)" "reader (check_sequence_again evt)" "reader (check_signature E evt)" "reader (check_hash E now evt)"
    unfolding check_defs reader_def by blast+
  from assms obtain s1 where "check_replay_filter E now evt s = (Inr None, s1)" "check_type evt s = (Inr None, s)" "check_ids evt s = (Inr None, s)"
      "check_index evt s = (Inr None, s)"
      and r: "run_checks (drop 4 (ingest_checks E now x evt)) s1 = (Inr None, t)"
    unfolding ingest_checks_def run_checks_read [OF rd(1)] run_checks_read [OF rd(2)] run_checks_read [OF rd(3)] run_checks_pass [of "check_replay_filter E now evt"]
    by auto
  from r obtain u where "check_binding E evt s1 = (Inr None, u)" "run_checks [check_signature E evt, check_hash E now evt] u = (Inr None, t)"
    and "check_prev x evt s1 = (Inr None, s1) \<and> check_network evt s1 = (Inr None, s1) \<and> check_head evt s1 = (Inr None, s1)
    \<and> check_sequence evt s1 = (Inr None, s1) \<and> check_fresh E now evt s1 = (Inr None, s1) \<and> check_payload E evt s1 = (Inr None, s1)
    \<and> check_ledger E now evt s1 = (Inr None, s1) \<and> check_ephemeral evt s1 = (Inr None, s1) \<and> check_size evt s1 = (Inr None, s1)
    \<and> check_version evt s1 = (Inr None, s1) \<and> check_signature_fields evt s1 = (Inr None, s1) \<and> check_revoke_target evt s1 = (Inr None, s1)
    \<and> check_revoked now evt s1 = (Inr None, s1) \<and> check_sequence_again evt s1 = (Inr None, s1)"
    unfolding ingest_checks_def drop_Suc_Cons numeral_nat drop_0 run_checks_read [OF rd(4)] run_checks_read [OF rd(5)] run_checks_read [OF rd(6)]
      run_checks_read [OF rd(7)] run_checks_read [OF rd(8)] run_checks_read [OF rd(9)] run_checks_read [OF rd(10)] run_checks_read [OF rd(11)]
      run_checks_read [OF rd(12)] run_checks_read [OF rd(13)] run_checks_read [OF rd(14)] run_checks_read [OF rd(15)] run_checks_read [OF rd(16)]
      run_checks_read [OF rd(17)] run_checks_pass [of "check_binding E evt"]
    by blast
  moreover from this(2) have "u = t" "check_signature E evt t = (Inr None, t)" "check_hash E now evt t = (Inr None, t)"
    unfolding run_checks_read [OF rd(18)] run_checks_read [OF rd(19)] by auto
  ultimately show ?thesis using \<open>check_replay_filter E now evt s = (Inr None, s1)\<close> \<open>check_type evt s = (Inr None, s)\<close>
    \<open>check_ids evt s = (Inr None, s)\<close> \<open>check_index evt s = (Inr None, s)\<close> by blast
qed

lemma checks_pass_ready:
  assumes "run_checks (ingest_checks E now x evt) s = (Inr None, t)"
  shows "ingest_ready E now evt s t"
proof -
  obtain s1 where s1: "check_replay_filter E now evt s = (Inr None, s1)" "check_binding E evt s1 = (Inr None, t)" "check_type evt s = (Inr None, s)"
      "check_ids evt s = (Inr None, s)" "check_index evt s = (Inr None, s)" "check_network evt s1 = (Inr None, s1)" "check_head evt s1 = (Inr None, s1)"
      "check_sequence evt s1 = (Inr None, s1)" "check_revoked now evt s1 = (Inr None, s1)" "check_signature E evt t = (Inr None, t)" "check_hash E now evt t = (Inr None, t)"
    using checks_pass_states [OF assms] by blast
  have as: "aside s s1" "aside s1 t" "aside s t"
    using write_checks_aside [unfolded stays_aside_def] s1(1,2) by (metis snd_conv aside_trans)+
  obtain i where i: "field evt ''event_id'' = PStr i" "i \<noteq> []"
    using check_replay_filter_pass [OF s1(1)] s1(4) by (auto simp: check_ids_def)
  obtain et n where et: "event_sequence evt = Inr n" "field evt ''event_type'' = PStr et" "et \<in> set public_ledger_event_types"
    using check_type_pass [OF s1(3)] by blast
  obtain m where m: "0 < n" "last_sequence s (event_key evt) = Inr m" "m < n"
    using check_sequence_pass [OF s1(8)] et(1) aside_fields [OF as(1)] by auto
  have sig: "signed_ok E evt = Inr True" using s1(10) by (auto simp: check_signature_def bnd_eq_Inr)
  then obtain nd where nd: "field evt ''node_id'' = PStr nd" using signed_ok_node by blast
  obtain k where k: "field evt ''public_key'' = PStr k" using check_binding_pass(1) [OF s1(2)] verify_node_binding_key by blast
  obtain v where v: "bind_public_key (PStr k) (PStr nd) s1 = (v, t)" "fst v" using check_binding_pass(2) [OF s1(2)] nd k by auto
  have "revocation_status now (field evt ''public_key'') s1 = revocation_status now (field evt ''public_key'') s"
    using aside_fields [OF as(1)] by (simp add: revocation_status_def)
  then have "revocation_status now (field evt ''public_key'') s = Inr False \<or> et = ''key_revoke''" using check_revoked_pass [OF s1(9)] et(2) by auto
  moreover have "field evt ''prev_hash'' = in_head s" "get evt ''network_id'' = PStr network_id"
    using s1(6,7) aside_fields [OF as(1)] by (simp_all add: check_head_def check_network_def)
  moreover have "map_of (in_index s) (PStr i) = None" using check_index_pass [OF s1(5)] i by simp
  moreover have "well_signed E evt" "well_hashed E evt" using sig check_binding_pass(1) [OF s1(2)] check_hash_pass [OF s1(11)] by (simp_all add: well_signed_def)
  moreover have "map_of (in_bindings t) (py_str (field evt ''public_key'')) = Some (py_str (field evt ''node_id''))"
    using bind_public_key_ok [OF v] by (simp add: k nd)
  ultimately show ?thesis unfolding ingest_ready_def using i et m as(3) by blast
qed

text \<open>What an event that passes says for itself, whatever the ledger holds\<close>

definition content_ok :: "chain_env \<Rightarrow> pyfloat \<Rightarrow> pydict \<Rightarrow> bool" where
  "content_ok E now evt \<longleftrightarrow> (\<exists>s. check_payload E evt s = (Inr None, s) \<and> check_fresh E now evt s = (Inr None, s) \<and> check_size evt s = (Inr None, s))"

lemma content_ok_parts:
  assumes "content_ok E now evt"
  shows "\<exists>r. validate_event_payload (en_registries E) (text_of (field evt ''event_type'')) (event_body evt) = Inr (True, r)"
    "length (utf8 (json_dumps (event_body evt))) \<le> 4096"
    "0 < en_max_age_s E \<Longrightarrow> int_or_zero evt ''timestamp'' = Inr ts \<Longrightarrow> 0 < ts \<Longrightarrow> \<exists>n. py_int (PFloat now) = Inr n \<and> \<bar>n - ts\<bar> \<le> en_max_age_s E"
  using assms by (auto simp: content_ok_def check_payload_def check_size_def check_fresh_def max_payload_bytes_def bnd_eq_Inr not_less)

text \<open>Deciding an event: accepted with the checks passed, or nothing but the filter and the bindings changed.\<close>

lemma ingest_event_cases:
  assumes "ingest_event E now x v s = (r, t)"
  shows "(\<exists>evt u. v = PDict evt \<and> ingest_ready E now evt s u \<and> content_ok E now evt \<and> accept_event E now evt u = (r, t)) \<or> r \<noteq> Inr (Some Accepted) \<and> r \<noteq> Inr None \<and> aside s t"
proof (cases v)
  case (PDict evt)
  show ?thesis
  proof (cases "run_checks (ingest_checks E now x evt) s")
    case (Pair q u)
    have q: "q \<noteq> Inr (Some Accepted)" using run_checks_never [of "ingest_checks E now x evt" s] checks_never_accept [of _ E now x evt] Pair by simp
    have u: "aside s u" using run_checks_aside [of "ingest_checks E now x evt" s] checks_aside [of _ E now x evt] Pair by simp
    show ?thesis
    proof (cases "q = Inr None")
      case True
      have "content_ok E now evt" using checks_pass_states Pair True unfolding content_ok_def by blast
      moreover have "accept_event E now evt u = (r, t)"
        using assms True Pair unfolding ingest_event_def PDict by (auto simp: run_checks_append split: prod.splits sum.splits option.splits)
      ultimately show ?thesis using checks_pass_ready Pair True PDict by blast
    next
      case False
      then have "r = q \<and> t = u" using assms Pair unfolding ingest_event_def PDict by (auto simp: run_checks_append split: sum.splits option.splits)
      then show ?thesis using q u False by blast
    qed
  qed
qed (use assms in \<open>auto simp: ingest_event_def\<close>)

end
