(* ===== verification/Ledger_Invariant.thy ===== *)
theory Ledger_Invariant
  imports Ingest_Facts "HOL-Library.Sublist"
begin

text \<open>
  The invariant of the ledger: its events form a chain of hashes, every one signed by its author and numbered above all
  earlier ones of the same author, and the index finds each. Every batch from outside keeps it, whatever it contains and
  even when it raises half-way.
\<close>

subsection \<open>The invariant\<close>

fun linked :: "pyval \<Rightarrow> pydict list \<Rightarrow> bool" where
  "linked p [] = True"
| "linked p (evt # evts) = (field evt ''prev_hash'' = p \<and> linked (field evt ''event_id'') evts)"

definition head_after :: "pyval \<Rightarrow> pydict list \<Rightarrow> pyval" where
  "head_after p evts = (if evts = [] then p else field (last evts) ''event_id'')"

definition sequence_of :: "pydict \<Rightarrow> int" where
  "sequence_of evt = (case event_sequence evt of Inr n \<Rightarrow> n | Inl e \<Rightarrow> 0)"

definition authentic :: "chain_env \<Rightarrow> pydict \<Rightarrow> bool" where
  "authentic E evt \<longleftrightarrow> well_signed E evt \<and> well_hashed E evt \<and> get evt ''network_id'' = PStr network_id \<and> 0 < sequence_of evt
     \<and> (\<exists>i. field evt ''event_id'' = PStr i \<and> i \<noteq> [])"

definition index_ok :: "infonet \<Rightarrow> bool" where
  "index_ok s \<longleftrightarrow> (\<forall>k i. map_of (in_index s) k = Some i \<longleftrightarrow> i < length (in_events s) \<and> field (in_events s ! i) ''event_id'' = k)"

definition increasing :: "pydict list \<Rightarrow> bool" where
  "increasing evts \<longleftrightarrow> sorted_wrt (\<lambda>a b. event_key a = event_key b \<longrightarrow> sequence_of a < sequence_of b) evts"

definition tables_ok :: "infonet \<Rightarrow> bool" where
  "tables_ok s \<longleftrightarrow> (\<forall>evt \<in> set (in_events s). \<exists>m. last_sequence s (event_key evt) = Inr m \<and> sequence_of evt \<le> m)"

definition ledger_inv :: "chain_env \<Rightarrow> pyval \<Rightarrow> infonet \<Rightarrow> bool" where
  "ledger_inv E base s \<longleftrightarrow> linked base (in_events s) \<and> in_head s = head_after base (in_events s) \<and> index_ok s
     \<and> list_all (authentic E) (in_events s) \<and> increasing (in_events s) \<and> tables_ok s"

lemma linked_snoc: "linked p (evts @ [evt]) \<longleftrightarrow> linked p evts \<and> field evt ''prev_hash'' = head_after p evts"
  by (induction evts arbitrary: p) (auto simp: head_after_def)

lemma head_after_snoc [simp]: "head_after p (evts @ [evt]) = field evt ''event_id''"
  by (simp add: head_after_def)

lemma ledger_inv_aside:
  assumes "aside s t" "ledger_inv E base s"
  shows "ledger_inv E base t"
  using assms(2) aside_fields [OF assms(1)] by (simp add: ledger_inv_def index_ok_def tables_ok_def)

subsection \<open>Accepting keeps it\<close>

lemma last_sequence_set:
  assumes "last_sequence s k = Inr m"
  shows "last_sequence (set_sequence k n s) k = Inr n" "k' \<noteq> k \<Longrightarrow> last_sequence (set_sequence k n s) k' = last_sequence s k'"
  using assms by (auto simp: last_sequence_def set_sequence_def lookup_key_def update_conv' bnd_eq_Inr split: sequence_key.splits if_splits)

lemma count_type_fields [simp]:
  "in_events (count_type evt s) = in_events s" "in_head (count_type evt s) = in_head s" "in_index (count_type evt s) = in_index s"
  "in_sequences (count_type evt s) = in_sequences s" "in_domains (count_type evt s) = in_domains s"
  "in_bindings (count_type evt s) = in_bindings s" "in_revocations (count_type evt s) = in_revocations s"
  by (simp_all add: count_type_def Let_def)

lemma counters_fields [simp]:
  "in_events (update_counters_for_event evt s) = in_events s" "in_head (update_counters_for_event evt s) = in_head s"
  "in_index (update_counters_for_event evt s) = in_index s" "in_sequences (update_counters_for_event evt s) = in_sequences s"
  "in_domains (update_counters_for_event evt s) = in_domains s" "in_bindings (update_counters_for_event evt s) = in_bindings s"
  "in_revocations (update_counters_for_event evt s) = in_revocations s"
  by (simp_all add: update_counters_for_event_def)

lemma remember_fields [simp]:
  "in_events (remember_id E now i s) = in_events s" "in_head (remember_id E now i s) = in_head s" "in_index (remember_id E now i s) = in_index s"
  "in_sequences (remember_id E now i s) = in_sequences s" "in_domains (remember_id E now i s) = in_domains s"
  "in_bindings (remember_id E now i s) = in_bindings s" "in_revocations (remember_id E now i s) = in_revocations s"
  by (simp_all add: remember_id_def split: pyval.splits)

lemma set_sequence_fields [simp]:
  "in_events (set_sequence k n s) = in_events s" "in_head (set_sequence k n s) = in_head s" "in_index (set_sequence k n s) = in_index s"
  "in_bindings (set_sequence k n s) = in_bindings s" "in_revocations (set_sequence k n s) = in_revocations s"
  by (simp_all add: set_sequence_def split: sequence_key.splits)

lemma apply_revocation_fields:
  assumes "apply_revocation evt s = Inr t"
  shows "in_events t = in_events s \<and> in_head t = in_head s \<and> in_index t = in_index s \<and> in_sequences t = in_sequences s
    \<and> in_domains t = in_domains s \<and> in_bindings t = in_bindings s"
  using assms by (auto simp: apply_revocation_def Let_def bnd_eq_Inr split: if_splits)

lemma accept_event_state:
  assumes "accept_event E now evt u = (r, t)" "event_sequence evt = Inr n"
  shows "in_events t = in_events u @ [evt] \<and> in_head t = field evt ''event_id'' \<and> in_index t = AList.update (field evt ''event_id'') (length (in_events u)) (in_index u)
    \<and> in_sequences t = in_sequences (set_sequence (event_key evt) n u) \<and> in_domains t = in_domains (set_sequence (event_key evt) n u)
    \<and> in_bindings t = in_bindings u \<and> (r = Inr (Some Accepted) \<or> (\<exists>e. r = Inl e))"
proof -
  define s' where "s' = remember_id E now (field evt ''event_id'') (update_counters_for_event evt (set_sequence (event_key evt) n (add_event evt u)))"
  have "in_sequences (set_sequence k n (add_event evt u)) = in_sequences (set_sequence k n u)" "in_domains (set_sequence k n (add_event evt u)) = in_domains (set_sequence k n u)" for k
    by (simp_all add: set_sequence_def add_event_def split: sequence_key.splits)
  then have s': "in_events s' = in_events u @ [evt]" "in_head s' = field evt ''event_id''" "in_index s' = AList.update (field evt ''event_id'') (length (in_events u)) (in_index u)"
      "in_sequences s' = in_sequences (set_sequence (event_key evt) n u)" "in_domains s' = in_domains (set_sequence (event_key evt) n u)" "in_bindings s' = in_bindings u"
    by (simp_all add: s'_def add_event_def)
  have "(r, t) = (Inr (Some Accepted), s') \<or> (\<exists>e. (r, t) = (Inl e, s')) \<or> r = Inr (Some Accepted) \<and> apply_revocation evt s' = Inr t"
    using assms by (auto simp: accept_event_def s'_def [symmetric] Let_def split: if_splits sum.splits)
  then show ?thesis using s' apply_revocation_fields [of evt s' t] by auto
qed

lemma last_sequence_tables: "in_sequences t = in_sequences s \<Longrightarrow> in_domains t = in_domains s \<Longrightarrow> last_sequence t k = last_sequence s k"
  by (cases k) (simp_all add: last_sequence_def)

lemma index_ok_snoc:
  assumes "index_ok s" "map_of (in_index s) (field evt ''event_id'') = None" "in_events t = in_events s @ [evt]"
    "in_index t = AList.update (field evt ''event_id'') (length (in_events s)) (in_index s)"
  shows "index_ok t"
proof -
  have "i < length (in_events s) \<Longrightarrow> field (in_events s ! i) ''event_id'' \<noteq> field evt ''event_id''" for i
    using assms(1,2) unfolding index_ok_def by (metis option.simps(3))
  then show ?thesis using assms(1) unfolding index_ok_def assms(3,4) by (auto simp: update_conv' nth_append less_Suc_eq)
qed

lemma accept_keeps:
  assumes "ledger_inv E base s" "ingest_ready E now evt s u" "accept_event E now evt u = (r, t)"
  shows "ledger_inv E base t" "in_events t = in_events s @ [evt]" "in_bindings t = in_bindings u" "r = Inr (Some Accepted) \<or> (\<exists>e. r = Inl e)"
proof -
  obtain i n m where rd: "field evt ''event_id'' = PStr i" "i \<noteq> []" "map_of (in_index s) (PStr i) = None" "field evt ''prev_hash'' = in_head s"
      "get evt ''network_id'' = PStr network_id" "event_sequence evt = Inr n" "0 < n" "last_sequence s (event_key evt) = Inr m" "m < n"
      "well_signed E evt" "well_hashed E evt" "aside s u"
    using assms(2) unfolding ingest_ready_def by blast
  note as = aside_fields [OF rd(12)]
  note t = accept_event_state [OF assms(3) rd(6)]
  show ev: "in_events t = in_events s @ [evt]" using t as by simp
  show "in_bindings t = in_bindings u" "r = Inr (Some Accepted) \<or> (\<exists>e. r = Inl e)" using t by blast+
  have seq: "sequence_of evt = n" by (simp add: sequence_of_def rd)
  have ls: "last_sequence t k = (if k = event_key evt then Inr n else last_sequence s k)" for k
  proof -
    have u: "last_sequence u (event_key evt) = Inr m" "last_sequence u k = last_sequence s k" using rd(8) last_sequence_tables [of u s] as by auto
    have "last_sequence t k = last_sequence (set_sequence (event_key evt) n u) k" using last_sequence_tables t by blast
    then show ?thesis using last_sequence_set(1) [OF u(1)] last_sequence_set(2) [OF u(1)] u(2) by auto
  qed
  have "linked base (in_events t)" "in_head t = head_after base (in_events t)"
    using assms(1) t rd(1,4) by (auto simp: ledger_inv_def ev linked_snoc)
  moreover have "index_ok t"
    using assms(1) rd(1,3) t as ev by (intro index_ok_snoc [of s evt t]) (auto simp: ledger_inv_def)
  moreover have "list_all (authentic E) (in_events t)"
    using assms(1) rd seq by (auto simp: ledger_inv_def ev authentic_def)
  moreover have "increasing (in_events t)"
    using assms(1) rd(8,9) seq by (fastforce simp: ledger_inv_def ev increasing_def sorted_wrt_append tables_ok_def)
  moreover have "tables_ok t"
    using assms(1) rd(8,9) seq by (fastforce simp: ledger_inv_def ev tables_ok_def ls)
  ultimately show "ledger_inv E base t" by (simp add: ledger_inv_def)
qed

text \<open>One event of a batch: it is appended, or the events, the head, the index and the sequences stay.\<close>

definition kept_by :: "pydict list \<Rightarrow> outcome option res \<Rightarrow> pyval \<Rightarrow> pydict list \<Rightarrow> bool" where
  "kept_by old r v new \<longleftrightarrow> (case r of
       Inr (Some Accepted) \<Rightarrow> new = old @ [Schema.fields v]
     | Inr (Some d) \<Rightarrow> new = old
     | Inr None \<Rightarrow> False
     | Inl e \<Rightarrow> new = old \<or> new = old @ [Schema.fields v])"

lemma ingest_event_keeps:
  assumes "ledger_inv E base s" "ingest_event E now x v s = (r, t)"
  shows "ledger_inv E base t \<and> kept_by (in_events s) r v (in_events t)"
  using ingest_event_cases [OF assms(2)]
proof (elim disjE exE conjE)
  fix evt u
  assume h: "v = PDict evt" "ingest_ready E now evt s u" "accept_event E now evt u = (r, t)"
  show ?thesis using accept_keeps [OF assms(1) h(2,3)] h(1) by (auto simp: kept_by_def)
next
  assume h: "r \<noteq> Inr (Some Accepted)" "r \<noteq> Inr None" "aside s t"
  show ?thesis using ledger_inv_aside [OF h(3) assms(1)] aside_fields [OF h(3)] h(1,2)
    by (auto simp: kept_by_def split: sum.splits option.splits outcome.splits)
qed

subsection \<open>Batches\<close>

definition batch_kept :: "chain_env \<Rightarrow> pyval \<Rightarrow> (pyfloat \<times> pyval) list \<Rightarrow> ingest_report \<Rightarrow> infonet \<Rightarrow> ingest_report res \<Rightarrow> infonet \<Rightarrow> bool" where
  "batch_kept E base evts r s q t \<longleftrightarrow> ledger_inv E base t \<and> (\<exists>new. in_events t = in_events s @ new \<and> subseq new (map (\<lambda>e. Schema.fields (snd e)) evts)
    \<and> (\<forall>rep. q = Inr rep \<longrightarrow> accepted rep = accepted r + length new
          \<and> accepted rep + duplicates rep + length (rejected rep) = accepted r + duplicates r + length (rejected r) + length evts))"

lemma batch_kept_step:
  assumes "batch_kept E base evts (count_outcome i d r) u q t" "in_events u = in_events s @ (if d = Accepted then [Schema.fields v] else [])"
  shows "batch_kept E base ((now, v) # evts) r s q t"
proof -
  from assms(1) obtain new where new: "ledger_inv E base t" "in_events t = in_events u @ new" "subseq new (map (\<lambda>e. Schema.fields (snd e)) evts)"
      "\<forall>rep. q = Inr rep \<longrightarrow> accepted rep = accepted (count_outcome i d r) + length new \<and> accepted rep + duplicates rep + length (rejected rep)
         = accepted (count_outcome i d r) + duplicates (count_outcome i d r) + length (rejected (count_outcome i d r)) + length evts"
    unfolding batch_kept_def by blast
  show ?thesis unfolding batch_kept_def
  proof (intro conjI exI [of _ "(if d = Accepted then [Schema.fields v] else []) @ new"])
    show "subseq ((if d = Accepted then [Schema.fields v] else []) @ new) (map (\<lambda>e. Schema.fields (snd e)) ((now, v) # evts))"
      using list_emb.list_emb_Cons [OF new(3)] new(3) by (cases "d = Accepted") simp_all
    show "\<forall>rep. q = Inr rep \<longrightarrow> accepted rep = accepted r + length ((if d = Accepted then [Schema.fields v] else []) @ new)
        \<and> accepted rep + duplicates rep + length (rejected rep) = accepted r + duplicates r + length (rejected r) + length ((now, v) # evts)"
    proof (intro allI impI)
      fix rep assume "q = Inr rep"
      with new(4) show "accepted rep = accepted r + length ((if d = Accepted then [Schema.fields v] else []) @ new)
        \<and> accepted rep + duplicates rep + length (rejected rep) = accepted r + duplicates r + length (rejected r) + length ((now, v) # evts)"
        by (cases d) (auto simp: count_outcome_def)
    qed
  qed (use new(1,2) assms(2) in simp_all)
qed

lemma ingest_loop_keeps:
  assumes "ledger_inv E base s" "ingest_loop E i x evts r s = (q, t)"
  shows "batch_kept E base evts r s q t"
  using assms
proof (induction E i x evts r s rule: ingest_loop.induct)
  case (2 E i x now v evts r s)
  obtain p u where pu: "ingest_event E now x v s = (p, u)" by fastforce
  have u: "ledger_inv E base u" "kept_by (in_events s) p v (in_events u)" using ingest_event_keeps [OF 2(3) pu] by auto
  show ?case
  proof (cases p)
    case (Inl e)
    then have "t = u" "q = Inl e" using 2(4) pu by auto
    then show ?thesis using u Inl by (simp add: kept_by_def batch_kept_def) (elim disjE, simp_all add: subseq_singleton_left)
  next
    case (Inr od)
    then obtain d where d: "p = Inr (Some d)" using u(2) by (cases od) (auto simp: kept_by_def)
    define x' where "x' = (if d = Accepted then field (Schema.fields v) ''event_id'' else x)"
    have "ingest_loop E (i + 1) x' evts (count_outcome i d r) u = (q, t)" using 2(4) pu d by (simp add: x'_def)
    then have "batch_kept E base evts (count_outcome i d r) u q t" using 2(2) [OF pu [symmetric] d refl u(1)] by (simp add: x'_def)
    then show ?thesis using u(2) d by (elim batch_kept_step) (cases d, simp_all add: kept_by_def)
  qed
qed (auto simp: batch_kept_def)

lemma new_ledger_inv: "ledger_inv E (PStr genesis_hash) (new_infonet E now)"
  by (simp add: ledger_inv_def new_infonet_def index_ok_def head_after_def increasing_def tables_ok_def)

text \<open>
  C35: Whatever a batch from outside contains, and even when handling one of its events raises, the ledger stays a
  ledger: each event names the id of the event before it, the head is the id of the last one, the index finds exactly
  the events, every event is signed by the key its author's id is derived from, carries the hash of its content and
  belongs to this network, and the sequences of each author grow. Events are only added at the end, they are events of
  the batch in their order, and the report counts them.
\<close>

theorem ingest_keeps_ledger:
  assumes "ledger_inv E base s" "ingest_events E evts s = (q, t)"
  shows "ledger_inv E base t \<and> (\<exists>new. in_events t = in_events s @ new \<and> subseq new (map (\<lambda>e. Schema.fields (snd e)) evts)
    \<and> (\<forall>rep. q = Inr rep \<longrightarrow> accepted rep = length new \<and> accepted rep + duplicates rep + length (rejected rep) = length evts))"
  using ingest_loop_keeps [OF assms(1) assms(2) [unfolded ingest_events_def]] by (simp add: batch_kept_def)

end
