(* ===== verification/Ledger_Keys.thy ===== *)
theory Ledger_Keys
  imports Ledger_Invariant
begin

text \<open>
  What \<open>ingest_events\<close> lets into the ledger, and what the tables of keys do to later events: a binding of a key to a
  node id is made before the signature is verified and never changes, and a revocation gives way to a later one.
\<close>

subsection \<open>The events a batch adds\<close>

text \<open>
  A rule of ingestion: what one event keeps of the ledger and what holds of an event that is added. It carries over to
  batches, which do not end early for an event that is rejected and end at the first that raises.
\<close>

locale ingest_rule =
  fixes E :: chain_env and J :: "infonet \<Rightarrow> bool" and P :: "pyfloat \<Rightarrow> pydict \<Rightarrow> bool"
  assumes one_event: "J s \<Longrightarrow> ingest_event E now x v s = (r, t) \<Longrightarrow>
    J t \<and> (in_events t = in_events s \<or> in_events t = in_events s @ [Schema.fields v] \<and> P now (Schema.fields v))"
begin

lemma whole_loop:
  "ingest_loop E i x evts r s = (q, t) \<Longrightarrow> J s \<Longrightarrow>
    J t \<and> (\<exists>new. in_events t = in_events s @ new \<and> (\<forall>evt \<in> set new. \<exists>(now, v) \<in> set evts. evt = Schema.fields v \<and> P now evt))"
proof (induction evts arbitrary: i x r s)
  case (Cons e evts)
  obtain now v where e: "e = (now, v)" by fastforce
  obtain p u where pu: "ingest_event E now x v s = (p, u)" by fastforce
  note u = one_event [OF Cons.prems(2) pu]
  have "J t \<and> (\<exists>new. in_events t = in_events u @ new \<and> (\<forall>evt \<in> set new. \<exists>(now, v) \<in> set evts. evt = Schema.fields v \<and> P now evt))"
  proof (cases p)
    case (Inl y)
    then show ?thesis using Cons.prems(1) pu e u by auto
  next
    case (Inr od)
    then have "\<exists>i' x' r'. ingest_loop E i' x' evts r' u = (q, t)"
      using Cons.prems(1) pu e by (cases od) (simp only: ingest_loop.simps prod.case sum.case option.case, blast)+
    then show ?thesis using Cons.IH u by blast
  qed
  then obtain new where new: "J t" "in_events t = in_events u @ new" "\<forall>evt \<in> set new. \<exists>(now, v) \<in> set evts. evt = Schema.fields v \<and> P now evt"
    by blast
  show ?case
  proof (cases "in_events u = in_events s")
    case True
    then show ?thesis using new by (intro conjI exI [of _ new]) auto
  next
    case False
    then show ?thesis using new u e by (intro conjI exI [of _ "Schema.fields v # new"]) auto
  qed
qed simp

lemma whole_batch:
  "ingest_events E evts s = (q, t) \<Longrightarrow> J s \<Longrightarrow>
    J t \<and> (\<exists>new. in_events t = in_events s @ new \<and> (\<forall>evt \<in> set new. \<exists>(now, v) \<in> set evts. evt = Schema.fields v \<and> P now evt))"
  by (simp only: ingest_events_def) (rule whole_loop)

end

lemma ingest_step:
  assumes "ingest_event E now x v s = (r, t)"
  shows "(\<exists>evt u. v = PDict evt \<and> ingest_ready E now evt s u \<and> content_ok E now evt \<and> aside s u \<and> in_bindings t = in_bindings u
      \<and> in_events t = in_events s @ [evt]) \<or> aside s t \<and> in_events t = in_events s"
  using ingest_event_cases [OF assms]
proof (elim disjE exE conjE)
  fix evt u
  assume h: "v = PDict evt" "ingest_ready E now evt s u" "content_ok E now evt" "accept_event E now evt u = (r, t)"
  then obtain n where n: "event_sequence evt = Inr n" "aside s u" unfolding ingest_ready_def by blast
  show ?thesis using accept_event_state [OF h(4) n(1)] aside_fields(1) [OF n(2)] h n(2) by auto
qed (use aside_fields(1) in blast)

text \<open>What holds of an event that is handled at the time \<open>now\<close> and added\<close>

definition admissible :: "chain_env \<Rightarrow> pyfloat \<Rightarrow> pydict \<Rightarrow> bool" where
  "admissible E now evt \<longleftrightarrow>
     (\<exists>et why. field evt ''event_type'' = PStr et \<and> et \<in> set public_ledger_event_types \<and> et \<notin> set infonet_economy_event_types
        \<and> validate_event_payload (en_registries E) et (event_body evt) = Inr (True, why))
     \<and> length (utf8 (json_dumps (event_body evt))) \<le> 4096
     \<and> (\<forall>ts. 0 < en_max_age_s E \<and> int_or_zero evt ''timestamp'' = Inr ts \<and> 0 < ts \<longrightarrow>
          (\<exists>n. py_int (PFloat now) = Inr n \<and> \<bar>n - ts\<bar> \<le> en_max_age_s E))"

lemma ready_admissible:
  assumes "ingest_ready E now evt s u" "content_ok E now evt"
  shows "admissible E now evt"
proof -
  obtain et where et: "field evt ''event_type'' = PStr et" "et \<in> set public_ledger_event_types" using assms(1) unfolding ingest_ready_def by blast
  moreover have "list_all (\<lambda>et. et \<notin> set infonet_economy_event_types) public_ledger_event_types" by code_simp
  then have "et \<notin> set infonet_economy_event_types" using et(2) unfolding list_all_iff by blast
  moreover obtain why where "validate_event_payload (en_registries E) et (event_body evt) = Inr (True, why)"
    using content_ok_parts(1) [OF assms(2)] et(1) by auto
  ultimately show ?thesis
    unfolding admissible_def using content_ok_parts(2,3) [OF assms(2)] by blast
qed

interpretation admitted: ingest_rule E "\<lambda>s. True" "admissible E" for E
proof unfold_locales
  fix s now x v r t
  assume "ingest_event E now x v s = (r, t)"
  then show "True \<and> (in_events t = in_events s \<or> in_events t = in_events s @ [Schema.fields v] \<and> admissible E now (Schema.fields v))"
    using ingest_step ready_admissible by fastforce
qed

text \<open>
  C36: Every event that a batch adds to the ledger is one of the batch, a dictionary whose type is on the ledger's list,
  which has none of the types of the economy even after the cutover registered them; its payload passed the validator of
  its type and takes at most 4096 bytes; and where a freshness window is set, an event with a time was handled within that
  window. An older event is never added, so a node cannot catch up with the history of a chain beyond the window.
\<close>

theorem ingest_adds_admissible:
  assumes "ingest_events E evts s = (q, t)"
  shows "\<exists>new. in_events t = in_events s @ new \<and> (\<forall>evt \<in> set new. \<exists>(now, v) \<in> set evts. evt = Schema.fields v \<and> admissible E now evt)"
  using admitted.whole_batch [OF assms] by blast

subsection \<open>Bindings\<close>

text \<open>The key is bound to the id.\<close>

definition holds_key :: "string \<Rightarrow> string \<Rightarrow> infonet \<Rightarrow> bool" where
  "holds_key k n s \<longleftrightarrow> map_of (in_bindings s) k = Some n \<and> n \<noteq> []"

interpretation bound: ingest_rule E "holds_key k n" "\<lambda>now evt. field evt ''public_key'' = PStr k \<longrightarrow> py_str (field evt ''node_id'') = n" for E k n
proof unfold_locales
  fix s now x v r t
  assume h: "holds_key k n s" "ingest_event E now x v s = (r, t)"
  have kept: "holds_key k n u" if "aside s u" for u
    using that h(1) by (simp add: aside_def bindings_kept_def holds_key_def)
  show "holds_key k n t \<and> (in_events t = in_events s \<or> in_events t = in_events s @ [Schema.fields v]
      \<and> (field (Schema.fields v) ''public_key'' = PStr k \<longrightarrow> py_str (field (Schema.fields v) ''node_id'') = n))"
    using ingest_step [OF h(2)]
  proof (elim disjE exE conjE)
    fix evt u
    assume a: "v = PDict evt" "ingest_ready E now evt s u" "aside s u" "in_bindings t = in_bindings u" "in_events t = in_events s @ [evt]"
    have "map_of (in_bindings u) (py_str (field evt ''public_key'')) = Some (py_str (field evt ''node_id''))" using a(2) unfolding ingest_ready_def by blast
    then show ?thesis using kept [OF a(3)] a by (auto simp: holds_key_def)
  qed (use kept in blast)
qed

text \<open>
  C37: Once a public key is bound to a node id, the binding stays, and every later event signed with this spelling of the
  key is added only under exactly that id. The binding is made before the signature is verified and the id is compared
  without the blanks around it, so that an event with an invalid signature binds the key of someone else to their id with
  a blank, and from then on no event of theirs is added.
\<close>

theorem binding_excludes_other_ids:
  assumes "map_of (in_bindings s) k = Some n" "n \<noteq> []" "ingest_events E evts s = (q, t)"
  shows "map_of (in_bindings t) k = Some n
    \<and> (\<exists>new. in_events t = in_events s @ new \<and> (\<forall>evt \<in> set new. field evt ''public_key'' = PStr k \<longrightarrow> py_str (field evt ''node_id'') = n))"
  using bound.whole_batch [OF assms(3)] assms(1,2) unfolding holds_key_def by blast

subsection \<open>Revocations\<close>

text \<open>
  C38: An accepted revocation of a key leaves the revocation with the later time in force, and the key counts as revoked
  exactly when that one's period of grace is over. Since a revoked key may sign revocations, whoever has the key makes it
  valid again with a later one whose period of grace lies in the future.
\<close>

theorem latest_revocation_counts:
  assumes "accept_event E now evt s = (Inr (Some Accepted), t)" "field evt ''event_type'' = PStr ''key_revoke''"
    and "get (payload_of evt) ''revoked_public_key'' = PStr k" "k \<noteq> []" "revocation_of evt (PStr k) = Inr info"
  shows "revocation_status now' (PStr k) t = Inr (flt (Fin (of_int (rv_grace_until
      (case map_of (in_revocations s) (PStr k) of
         Some old \<Rightarrow> if rv_revoked_at info < rv_revoked_at old then old else info
       | None \<Rightarrow> info)))) now')"
proof -
  obtain n where n: "event_sequence evt = Inr n" using assms(1) by (auto simp: accept_event_def split: sum.splits)
  define s' where "s' = remember_id E now (field evt ''event_id'') (update_counters_for_event evt (set_sequence (event_key evt) n (add_event evt s)))"
  have s': "in_revocations s' = in_revocations s" by (simp add: s'_def add_event_def)
  have "apply_revocation evt s' = Inr t"
    using assms(1,2) n by (auto simp: accept_event_def s'_def [symmetric] Let_def split: sum.splits)
  then show ?thesis using assms(3-5) s'
    by (auto simp: apply_revocation_def py_or_def lookup_key_def revocation_status_def update_conv' not_le split: option.splits if_splits)
qed

subsection \<open>An example\<close>

definition example_payload :: pydict where
  "example_payload = [(''message'', PStr ''hi''), (''destination'', PStr ''broadcast''), (''channel'', PStr ''LongFast''), (''priority'', PStr ''normal''),
     (''ephemeral'', PBool False)]"

definition example_event :: "string \<Rightarrow> string \<Rightarrow> string \<Rightarrow> pydict" where
  "example_event key node sig = [(''event_id'', PStr ''ab''), (''prev_hash'', PStr genesis_hash), (''event_type'', PStr ''message''), (''node_id'', PStr node),
      (''payload'', PDict example_payload), (''timestamp'', PInt 1000), (''sequence'', PInt 1), (''signature'', PStr sig),
      (''network_id'', PStr network_id), (''public_key'', PStr key), (''public_key_algo'', PStr ''Ed25519''), (''protocol_version'', PStr protocol_version)]"

definition example_env :: chain_env where
  "example_env = \<lparr>en_prim = \<lparr>sha256 = (\<lambda>s. ''ab''), nfc = id\<rparr>,
     en_crypto = \<lparr>raw_sha256 = (\<lambda>bs. ''abc''), ed25519_accepts = (\<lambda>k s m. s = [171]), ecdsa_accepts = (\<lambda>k s m. False), legacy_ids_blocked = True\<rparr>,
     en_libm = \<lparr>log2 = (\<lambda>x. Fin 0), pow = (\<lambda>x y. x)\<rparr>, en_digest = (\<lambda>bs. [3]), en_registries = initial_registries, en_max_age_s = 86400,
     en_spool_limit = 2, en_spool_sender_limit = 2, en_spool_ttl_s = 100, en_salt = [1]\<rparr>"

definition example_ledger :: "(string \<times> string) list \<Rightarrow> (pyval \<times> revocation) list \<Rightarrow> infonet" where
  "example_ledger b rv = \<lparr>in_events = [], in_head = PStr genesis_hash, in_sequences = [], in_domains = [], in_index = [], in_bindings = b,
     in_revocations = rv, in_filter = \<lparr>rf_size_bits = 8, rf_hash_count = 1, rf_rotate_s = 3600, rf_salt = [1], rf_active = [0, 0], rf_previous = [0, 0],
       rf_last_rotate = Fin 0\<rparr>, in_validated = 0, in_type_counts = [], in_active_count = 0, in_registered = [], in_chain_bytes = 2\<rparr>"

named_theorems example_checks

lemma example_passes [example_checks]:
  "check_type (example_event k n g) (example_ledger b rv) = (Inr None, example_ledger b rv)"
  "check_ids (example_event k n g) (example_ledger b rv) = (Inr None, example_ledger b rv)"
  "check_index (example_event k n g) (example_ledger b rv) = (Inr None, example_ledger b rv)"
  "check_prev (PStr genesis_hash) (example_event k n g) (example_ledger b rv) = (Inr None, example_ledger b rv)"
  "check_network (example_event k n g) (example_ledger b rv) = (Inr None, example_ledger b rv)"
  "check_head (example_event k n g) (example_ledger b rv) = (Inr None, example_ledger b rv)"
  "check_fresh example_env (Fin 2000) (example_event k n g) (example_ledger b rv) = (Inr None, example_ledger b rv)"
  "check_payload example_env (example_event k n g) (example_ledger b rv) = (Inr None, example_ledger b rv)"
  "check_ledger example_env (Fin 2000) (example_event k n g) (example_ledger b rv) = (Inr None, example_ledger b rv)"
  "check_ephemeral (example_event k n g) (example_ledger b rv) = (Inr None, example_ledger b rv)"
  "check_version (example_event k n g) (example_ledger b rv) = (Inr None, example_ledger b rv)"
  "check_revoke_target (example_event k n g) (example_ledger b rv) = (Inr None, example_ledger b rv)"
  by code_simp+

lemma example_size [example_checks]: "check_size (example_event k n g) (example_ledger b rv) = (Inr None, example_ledger b rv)"
  by code_simp

lemma example_unseen [example_checks]:
  "check_replay_filter example_env (Fin 2000) (example_event k n g) (example_ledger b rv) = (Inr None, example_ledger b rv)"
  by (simp add: check_replay_filter_def example_event_def field_def get_or_def example_env_def example_ledger_def filter_seen_def rotate_if_needed_def
      positions_def bit_at_def big_endian_def fsub_def)

lemma example_first [example_checks]:
  "check_sequence (example_event k n g) (example_ledger b rv) = (Inr None, example_ledger b rv)"
  "check_sequence_again (example_event k n g) (example_ledger b rv) = (Inr None, example_ledger b rv)"
proof -
  have "event_sequence (example_event k n g) = Inr 1" by code_simp
  moreover have "event_key (example_event k n g) = Node_Key (PStr n)"
    by (simp add: event_key_def sequence_table_for_event_def example_event_def field_def get_or_def py_or_def Let_def) code_simp
  ultimately show "check_sequence (example_event k n g) (example_ledger b rv) = (Inr None, example_ledger b rv)"
      "check_sequence_again (example_event k n g) (example_ledger b rv) = (Inr None, example_ledger b rv)"
    by (simp_all add: check_sequence_def check_sequence_again_def last_sequence_def lookup_key_def example_ledger_def)
qed

lemma example_fields [simp]:
  "field (example_event k n g) ''public_key'' = PStr k" "field (example_event k n g) ''node_id'' = PStr n"
  "field (example_event k n g) ''public_key_algo'' = PStr ''Ed25519''" "field (example_event k n g) ''signature'' = PStr g"
  "field (example_event k n g) ''event_type'' = PStr ''message''" "field (example_event k n g) ''event_id'' = PStr ''ab''"
  "event_body (example_event k n g) = PDict example_payload" "event_sequence (example_event k n g) = Inr 1"
  by code_simp+

lemma example_key:
  assumes "k \<in> {''AAAA'', ''AAAA ''}"
  shows "b64_decode k = Inr [0, 0, 0]" "k \<noteq> []"
  using assms by (elim insertE emptyE; hypsubst; code_simp)+

lemma example_keyed [example_checks]:
  assumes "k \<in> {''AAAA'', ''AAAA ''}" "g \<noteq> []"
  shows "check_signature_fields (example_event k n g) s = (Inr None, s)"
    "strip n = ''!sb_abc'' \<Longrightarrow> verify_node_binding (en_crypto example_env) (PStr n) (PStr k)"
proof -
  have "parse_public_key_algo (PStr ''Ed25519'') = Inr ''Ed25519''" by code_simp
  then show "check_signature_fields (example_event k n g) s = (Inr None, s)"
    using example_key [OF assms(1)] assms(2) by (simp add: check_signature_fields_def)
  assume n: "strip n = ''!sb_abc''"
  then have "n \<noteq> []" by (auto simp: strip_def)
  then show "verify_node_binding (en_crypto example_env) (PStr n) (PStr k)"
    using n example_key [OF assms(1)]
    by (simp add: verify_node_binding_def derive_node_id_candidates_def node_digest_def py_or_def example_env_def derive_node_id_from_digest_def node_id_prefix_def)
qed

lemma example_signature [example_checks]:
  assumes "k \<in> {''AAAA'', ''AAAA ''}"
  shows "from_hex g = Some h \<Longrightarrow> check_signature example_env (example_event k n g) s = (if h = [171] then (Inr None, s) else (Inr (Some (Rejected ''Invalid signature'')), s))"
proof -
  obtain p where "normalize_payload ''message'' example_payload = Inr p" by (rule that) code_simp
  then obtain m where m: "build_signature_payload ''message'' (PStr n) 1 example_payload = Inr m" by (simp add: build_signature_payload_def)
  assume "from_hex g = Some h"
  moreover have "parse_public_key_algo (PStr ''Ed25519'') = Inr ''Ed25519''" by code_simp
  ultimately show ?thesis
    using m example_key [OF assms]
    by (simp add: check_signature_def signed_ok_def signature_payloads_def signature_ok_def verify_signature_def example_env_def reads_def reject_if_def)
qed

lemma example_hash [example_checks]: "check_hash example_env (Fin 2000) (example_event k n g) s = (Inr None, s)"
  by (simp add: check_hash_def event_from_dict_def example_event_def new_chain_event_def py_or_def compute_hash_def example_env_def field_def get_def get_or_def
      network_id_def protocol_version_def)

text \<open>The twenty-one checks of the example, reduced to the three that depend on the key, the id and the signature\<close>

lemma example_decided:
  assumes "k \<in> {''AAAA'', ''AAAA ''}" "strip n = ''!sb_abc''" "from_hex g = Some h" "g \<noteq> []" "map_of rv (PStr k) = None"
  shows "run_checks (ingest_checks example_env (Fin 2000) (PStr genesis_hash) (example_event k n g)) (example_ledger b rv) =
    (case bind_public_key (PStr k) (PStr n) (example_ledger b rv) of
       (v, s) \<Rightarrow> if \<not> fst v then (Inr (Some (Rejected (snd v))), s)
                else if h = [171] then (Inr None, s) else (Inr (Some (Rejected ''Invalid signature'')), s))"
proof -
  have "check_revoked (Fin 2000) (example_event k n g) (example_ledger b rv) = (Inr None, example_ledger b rv)"
    using assms(5) by (simp add: check_revoked_def revocation_status_def lookup_key_def example_ledger_def)
  moreover have "check_binding example_env (example_event k n g) (example_ledger b rv)
      = (case bind_public_key (PStr k) (PStr n) (example_ledger b rv) of (v, s) \<Rightarrow> (reject_verdict v, s))"
    using example_keyed(2) [OF assms(1,4,2)] by (simp add: check_binding_def)
  ultimately show ?thesis
    using assms by (simp add: ingest_checks_def example_checks reject_verdict_def reject_if_def split: prod.splits)
qed

lemma example_ingested:
  assumes "k \<in> {''AAAA'', ''AAAA ''}" "strip n = ''!sb_abc''" "from_hex g = Some h" "g \<noteq> []" "map_of rv (PStr k) = None"
  shows "ingest_events example_env [(Fin 2000, PDict (example_event k n g))] (example_ledger b rv) =
    (case bind_public_key (PStr k) (PStr n) (example_ledger b rv) of
       (v, s) \<Rightarrow> if \<not> fst v then (Inr \<lparr>accepted = 0, duplicates = 0, rejected = [(0, snd v)]\<rparr>, s)
                else if h = [171] then (Inr \<lparr>accepted = 1, duplicates = 0, rejected = []\<rparr>, snd (accept_event example_env (Fin 2000) (example_event k n g) s))
                else (Inr \<lparr>accepted = 0, duplicates = 0, rejected = [(0, ''Invalid signature'')]\<rparr>, s))"
proof -
  have "in_head (example_ledger b rv) = PStr genesis_hash" by (simp add: example_ledger_def)
  moreover define acc where "acc s = snd (accept_event example_env (Fin 2000) (example_event k n g) s)" for s
  have "accept_event example_env (Fin 2000) (example_event k n g) s = (Inr (Some Accepted), acc s)" for s
    by (simp add: accept_event_def Let_def acc_def)
  moreover obtain w why s where "bind_public_key (PStr k) (PStr n) (example_ledger b rv) = ((w, why), s)" by (metis prod.exhaust)
  ultimately show ?thesis
    using example_decided [OF assms, of b]
    by (cases "\<not> w"; cases "h = [171]") (simp_all add: ingest_events_def ingest_event_def run_checks_append count_outcome_def)
qed

lemma example_bind:
  assumes "k \<noteq> []" "n \<noteq> []"
  shows "map_of b k = None \<Longrightarrow> bind_public_key (PStr k) (PStr n) (example_ledger b rv) = ((True, ''ok''), example_ledger (AList.update k n b) rv)"
    "map_of b k = Some e \<Longrightarrow> e \<noteq> [] \<Longrightarrow> e \<noteq> n \<Longrightarrow>
      bind_public_key (PStr k) (PStr n) (example_ledger b rv) = ((False, ''public key already bound to '' @ e), example_ledger b rv)"
  using assms by (simp_all add: bind_public_key_def py_or_def example_ledger_def)

text \<open>The event with the bad signature is rejected, and yet it binds the key: the author's own event is then rejected.\<close>

lemma forged_event_binds:
  "ingest_events example_env [(Fin 2000, PDict (example_event ''AAAA'' '' !sb_abc'' ''cd''))] (example_ledger [] [])
     = (Inr \<lparr>accepted = 0, duplicates = 0, rejected = [(0, ''Invalid signature'')]\<rparr>, example_ledger [(''AAAA'', '' !sb_abc'')] [])"
proof -
  have "from_hex ''cd'' = Some [205]" "strip '' !sb_abc'' = ''!sb_abc''" by code_simp+
  from example_ingested [OF _ this(2,1), of "''AAAA''" "[]" "[]"] show ?thesis by (simp add: example_bind)
qed

lemma binding_excludes_other_ids_witness:
  "\<exists>new. in_events (snd (ingest_events example_env [(Fin 2000, PDict (example_event ''AAAA'' ''!sb_abc'' ''ab''))] (example_ledger [(''AAAA'', '' !sb_abc'')] []))) = new
     \<and> (\<forall>evt \<in> set new. field evt ''public_key'' = PStr ''AAAA'' \<longrightarrow> py_str (field evt ''node_id'') = '' !sb_abc'')"
  using binding_excludes_other_ids [of "example_ledger [(''AAAA'', '' !sb_abc'')] []" "''AAAA''" "'' !sb_abc''" example_env
      "[(Fin 2000, PDict (example_event ''AAAA'' ''!sb_abc'' ''ab''))]", OF _ _ surjective_pairing]
  by (simp add: example_ledger_def)

lemma owner_rejected:
  "ingest_events example_env [(Fin 2000, PDict (example_event ''AAAA'' ''!sb_abc'' ''ab''))] (example_ledger [(''AAAA'', '' !sb_abc'')] [])
     = (Inr \<lparr>accepted = 0, duplicates = 0, rejected = [(0, ''public key already bound to  !sb_abc'')]\<rparr>, example_ledger [(''AAAA'', '' !sb_abc'')] [])"
proof -
  have "from_hex ''ab'' = Some [171]" "strip ''!sb_abc'' = ''!sb_abc''" by code_simp+
  from example_ingested [OF _ this(2,1), of "''AAAA''" "[]" "[(''AAAA'', '' !sb_abc'')]"] show ?thesis by (simp add: example_bind)
qed

text \<open>The ledger without a binding takes the same event.\<close>

lemma owner_accepted:
  "\<exists>t. ingest_events example_env [(Fin 2000, PDict (example_event ''AAAA'' ''!sb_abc'' ''ab''))] (example_ledger [] [])
     = (Inr \<lparr>accepted = 1, duplicates = 0, rejected = []\<rparr>, t)"
proof -
  have "from_hex ''ab'' = Some [171]" "strip ''!sb_abc'' = ''!sb_abc''" by code_simp+
  from example_ingested [OF _ this(2,1), of "''AAAA''" "[]" "[]"] show ?thesis by (simp add: example_bind)
qed

text \<open>A revoked key written with a blank is another key for the table of revocations, and the same key for the signature.\<close>

definition example_revocation :: revocation where
  "example_revocation = \<lparr>rv_public_key = PStr ''AAAA'', rv_public_key_algo = PStr ''Ed25519'', rv_revoked_at = 500, rv_grace_until = 600,
     rv_reason = PStr ''stolen'', rv_event_id = PStr ''r'', rv_node_id = PStr ''!sb_abc''\<rparr>"

lemma respelled_key_not_revoked:
  "revocation_status (Fin 2000) (PStr ''AAAA'') (example_ledger [] [(PStr ''AAAA'', example_revocation)]) = Inr True"
  "\<exists>t. ingest_events example_env [(Fin 2000, PDict (example_event ''AAAA '' ''!sb_abc'' ''ab''))] (example_ledger [] [(PStr ''AAAA'', example_revocation)])
     = (Inr \<lparr>accepted = 1, duplicates = 0, rejected = []\<rparr>, t)"
proof -
  show "revocation_status (Fin 2000) (PStr ''AAAA'') (example_ledger [] [(PStr ''AAAA'', example_revocation)]) = Inr True"
    by (simp add: revocation_status_def lookup_key_def example_ledger_def example_revocation_def)
  have "from_hex ''ab'' = Some [171]" "strip ''!sb_abc'' = ''!sb_abc''" by code_simp+
  from example_ingested [OF _ this(2,1), of "''AAAA ''" "[(PStr ''AAAA'', example_revocation)]" "[]"]
  show "\<exists>t. ingest_events example_env [(Fin 2000, PDict (example_event ''AAAA '' ''!sb_abc'' ''ab''))] (example_ledger [] [(PStr ''AAAA'', example_revocation)])
     = (Inr \<lparr>accepted = 1, duplicates = 0, rejected = []\<rparr>, t)"
    by (simp add: example_bind)
qed

text \<open>Who holds a revoked key may still revoke it, later and with a longer period of grace.\<close>

lemma revoked_key_may_revoke:
  "field evt ''event_type'' = PStr ''key_revoke'' \<Longrightarrow> revocation_status now (field evt ''public_key'') s = Inr b \<Longrightarrow>
    check_revoked now evt s = (Inr None, s)"
  by (simp add: check_revoked_def)

definition example_withdrawal :: pydict where
  "example_withdrawal = [(''event_id'', PStr ''w''), (''event_type'', PStr ''key_revoke''), (''node_id'', PStr ''!sb_abc''), (''sequence'', PInt 2),
     (''payload'', PDict [(''revoked_public_key'', PStr ''AAAA''), (''revoked_public_key_algo'', PStr ''Ed25519''), (''revoked_at'', PInt 700),
        (''grace_until'', PInt 90000), (''reason'', PStr ''again'')])]"

definition example_withdrawn :: revocation where
  "example_withdrawn = \<lparr>rv_public_key = PStr ''AAAA'', rv_public_key_algo = PStr ''Ed25519'', rv_revoked_at = 700, rv_grace_until = 90000,
     rv_reason = PStr ''again'', rv_event_id = PStr ''w'', rv_node_id = PStr ''!sb_abc''\<rparr>"

lemma example_withdrawal_fields [simp]:
  "event_sequence example_withdrawal = Inr 2" "field example_withdrawal ''event_type'' = PStr ''key_revoke''"
  "get (payload_of example_withdrawal) ''revoked_public_key'' = PStr ''AAAA''" "revocation_of example_withdrawal (PStr ''AAAA'') = Inr example_withdrawn"
  by code_simp+

lemma latest_revocation_counts_witness:
  "revocation_status (Fin 2000) (PStr ''AAAA'') (example_ledger [] [(PStr ''AAAA'', example_revocation)]) = Inr True
   \<and> (\<exists>t. accept_event example_env (Fin 2000) example_withdrawal (example_ledger [] [(PStr ''AAAA'', example_revocation)]) = (Inr (Some Accepted), t)
        \<and> revocation_status (Fin 2000) (PStr ''AAAA'') t = Inr False)"
proof -
  define s where "s = example_ledger [] [(PStr ''AAAA'', example_revocation)]"
  have r: "map_of (in_revocations s) (PStr ''AAAA'') = Some example_revocation" by (simp add: s_def example_ledger_def)
  have "\<exists>t. apply_revocation example_withdrawal u = Inr t" for u by (simp add: apply_revocation_def py_or_def lookup_key_def Let_def)
  then obtain f where "apply_revocation example_withdrawal u = Inr (f u)" for u by metis
  then obtain t where t: "accept_event example_env (Fin 2000) example_withdrawal s = (Inr (Some Accepted), t)"
    by (simp only: accept_event_def example_withdrawal_fields sum.case Let_def simp_thms if_True)
  have "revocation_status (Fin 2000) (PStr ''AAAA'') t = Inr False"
    using latest_revocation_counts [OF t, of "''AAAA''" example_withdrawn "Fin 2000"] r
    by (simp add: example_revocation_def example_withdrawn_def)
  then show ?thesis using t respelled_key_not_revoked(1) by (auto simp: s_def)
qed

lemma example_ledger_inv: "ledger_inv E (PStr genesis_hash) (example_ledger b rv)"
  by (simp add: ledger_inv_def example_ledger_def index_ok_def head_after_def increasing_def tables_ok_def)

lemma ingest_keeps_ledger_witness:
  "\<exists>t. ingest_events example_env [(Fin 2000, PDict (example_event ''AAAA'' ''!sb_abc'' ''ab''))] (example_ledger [] [])
       = (Inr \<lparr>accepted = 1, duplicates = 0, rejected = []\<rparr>, t)
     \<and> ledger_inv example_env (PStr genesis_hash) t \<and> in_events t = [example_event ''AAAA'' ''!sb_abc'' ''ab'']"
proof -
  obtain t where t: "ingest_events example_env [(Fin 2000, PDict (example_event ''AAAA'' ''!sb_abc'' ''ab''))] (example_ledger [] [])
       = (Inr \<lparr>accepted = 1, duplicates = 0, rejected = []\<rparr>, t)" using owner_accepted by blast
  from ingest_keeps_ledger [OF example_ledger_inv t]
  obtain new where new: "ledger_inv example_env (PStr genesis_hash) t" "in_events t = in_events (example_ledger [] []) @ new"
      "subseq new [example_event ''AAAA'' ''!sb_abc'' ''ab'']" "length new = 1"
    by (elim conjE exE) (simp only: list.map snd_conv Schema.fields.simps ingest_report.simps, fastforce)
  have "in_events (example_ledger [] []) = []" by (simp add: example_ledger_def)
  moreover have "new = [example_event ''AAAA'' ''!sb_abc'' ''ab'']" using new(3,4) by (cases new) (simp_all split: if_splits)
  ultimately show ?thesis using t new(1,2) by (intro exI [of _ t]) (simp only: append.simps simp_thms)
qed

lemma ingest_adds_admissible_witness:
  "\<exists>t. ingest_events example_env [(Fin 2000, PDict (example_event ''AAAA'' ''!sb_abc'' ''ab''))] (example_ledger [] [])
       = (Inr \<lparr>accepted = 1, duplicates = 0, rejected = []\<rparr>, t)
     \<and> (\<forall>evt \<in> set (in_events t). admissible example_env (Fin 2000) evt)"
proof -
  obtain t where t: "ingest_events example_env [(Fin 2000, PDict (example_event ''AAAA'' ''!sb_abc'' ''ab''))] (example_ledger [] [])
       = (Inr \<lparr>accepted = 1, duplicates = 0, rejected = []\<rparr>, t)" using owner_accepted by blast
  moreover have "in_events (example_ledger [] []) = []" by (simp add: example_ledger_def)
  then have "\<forall>evt \<in> set (in_events t). admissible example_env (Fin 2000) evt" using ingest_adds_admissible [OF t] by auto
  ultimately show ?thesis by blast
qed

end
