(* ===== verification/Spec2Isabelle.thy ===== *)
theory Spec2Isabelle
  imports Dsl_Executor Events Lifecycle Time_Validity Market_Resolution Dispute Argon2id Filter_Funnel Common_Rep Gate_Locking Gate_Shutdown Upgrade
    Snapshot_Event Partition Receipts Merkle Ibf_Decode Ibf_Wire Mesh_Protocol Ledger_Keys
begin

text \<open>
  A verification development for two layers of Shadowbroker: the Infonet economy,
  \<open>src/backend/services/infonet/\<close> (prediction markets, reputation, gates, governance and privacy receipts computed as
  pure functions of a chain of signed events), and the part of \<open>src/backend/services/mesh/\<close> that carries such a chain
  between nodes (signed payloads, the schema of the ledger, the ledger itself, Merkle proofs and set reconciliation).

  The program. Producers append JSON events; every node computes the same answers by reading the chain: which phase a
  market is in, what its snapshot froze, how it resolves and who is paid, how much reputation a node has, who is in a gate,
  which petitions change the configuration. The economy has no mutable store besides the configuration and the registries
  of event types, so the model of an operation is a function of the configuration (\<open>cfg\<close>), the chain (a list of Python
  values, of which the dicts count, \<open>events_of\<close>) and the time. The ledger of the mesh is a record (\<open>infonet\<close>) that its
  operations take and return; an operation that raises returns the exception and the state reached. What the code raises
  is a value: \<open>'a res\<close> is an exception class or a result, and \<open>try/except\<close> is \<open>catching\<close> with the classes the clause
  names.

  Numbers and bytes. Python's ints are \<open>int\<close>. Floats are IEEE binary64 values (\<open>PyFloat\<close>: NaN, the infinities and
  rationals, every operation the correctly rounded exact one), so overflow, rounding, NaN comparisons and the exceptions of
  float division and conversion are in the model; the sign of zero is not. Bytes are \<open>8 word\<close>; text is a list of
  characters up to 255.

  Theories and code, the economy:
    \<^item> \<open>Prelude\<close>, \<open>PyFloat\<close>, \<open>PyValue\<close>, \<open>Float_Facts\<close>: results and loops over them, floats and their
      laws, JSON values and the conversions \<open>float\<close>, \<open>int\<close>, \<open>str\<close>.
    \<^item> \<open>Config\<close>, \<open>Config_Reads\<close>, \<open>Config_Cross\<close>: \<open>config.py\<close>, the baseline, the schema of the
      parameters, the cross-field invariants, and what a well-formed configuration (\<open>config_ok\<close>)
      guarantees to the code that reads a key.
    \<^item> \<open>Dsl_Executor\<close>: \<open>governance/dsl_executor.py\<close>, petition payloads. \<open>Schema\<close>: \<open>schema.py\<close>, the
      event registry and the payload validators. \<open>Events\<close>: \<open>events.py\<close> and \<open>_chain_cutover.py\<close>.
    \<^item> \<open>Event_Selection\<close>, \<open>Lifecycle\<close>, \<open>Snapshot\<close>, \<open>Snapshot_Event\<close>, \<open>Evidence\<close>, \<open>Data_Unavailable\<close>, \<open>Stalemate_Burn\<close>,
      \<open>Resolution_Base\<close>, \<open>Market_Resolution\<close>, \<open>Dispute\<close>: \<open>markets/\<close>.
    \<^item> \<open>Time_Validity\<close>, \<open>Identity_Rotation\<close>: \<open>time_validity.py\<close>, \<open>identity_rotation.py\<close>.
    \<^item> \<open>Json\<close>, \<open>One_Vote_Dedup\<close>, \<open>Eligibility\<close>, \<open>Argon2id\<close>, \<open>Filter_Funnel\<close>: \<open>bootstrap/\<close>.
    \<^item> \<open>Anti_Gaming\<close>, \<open>Oracle_Rep\<close>, \<open>Common_Rep\<close>: \<open>reputation/\<close>.
    \<^item> \<open>Gate_State\<close>, \<open>Gate_Locking\<close>, \<open>Gate_Shutdown\<close>: \<open>gates/\<close>, the state of a gate as a fold over its events, sacrifices
      and ratification, locks, suspension and shutdown with its appeals.
    \<^item> \<open>Governance_Votes\<close>, \<open>Petition\<close>, \<open>Upgrade\<close>: \<open>governance/\<close>, weighted votes, the phases of a petition with its
      challenge, and protocol upgrades.
    \<^item> \<open>Partition\<close>: \<open>partition/\<close>, stale chains, provisional outcomes and epoch checkpoints.
    \<^item> \<open>Function_Keys\<close>, \<open>Receipts\<close>: \<open>privacy/function_keys/\<close>, challenges, nullifiers, receipts and settlement batches.

  Theories and code, the mesh:
    \<^item> \<open>Mesh_Text\<close>, \<open>Mesh_Protocol\<close>: \<open>mesh_protocol.py\<close>, normal forms of payloads and the signed context of a request.
    \<^item> \<open>Mesh_Schema\<close>: \<open>mesh_schema.py\<close>, the validators of the ledger's event types and of what may be replicated.
    \<^item> \<open>Mesh_Crypto\<close>: \<open>mesh_crypto.py\<close>, node ids, the signed text, verification.
    \<^item> \<open>Merkle\<close>: \<open>mesh_merkle.py\<close>. \<open>Ibf\<close>, \<open>Ibf_Decode\<close>, \<open>Ibf_Wire\<close>: \<open>mesh_ibf.py\<close>, invertible Bloom lookup tables.
    \<^item> \<open>Replay_Filter\<close>, \<open>Chain_Event\<close>, \<open>Hashchain\<close>, \<open>Hashchain_Ingest\<close>, \<open>Ingest_Facts\<close>, \<open>Ledger_Invariant\<close>, \<open>Ledger_Keys\<close>:
      \<open>mesh_hashchain.py\<close>, the classes \<open>ReplayFilter\<close>, \<open>ChainEvent\<close> and \<open>Infonet\<close>. The fields of \<open>infonet\<close> are the
      attributes of the class; \<open>ingest_checks\<close> are the guards of \<open>ingest_events\<close> in their order, each a function of the
      state that decides the event, lets it go on or raises.

  What the lemmas show. Configurations stay well-formed under every petition, and a petition passes and an upgrade
  is activated only by exactly the first signatures and the first ballots of nodes inside their windows, each at its
  active reputation, with threshold, quorum and supermajority, and with no upheld challenge. A market moves forward, is
  decided for a side only with evidence and by the rule its bootstrap index selects, and exactly determined principal comes
  back, whatever the reason it ends for; reputation comes from finalized outcomes only, so that a provisional
  one mints nothing. Gate membership refines a machine that opens, admits, releases and closes for good; the locks
  of a gate determine who locked it and when. Votes, wrongly repeated or late, do not count twice. Receipts verify and
  reveal exactly the UTC day and the prefix of the configured length. Normal forms are idempotent (but for blank formats)
  and signed contexts bind a request. Merkle proofs are complete, and sound up to a collision that is exhibited; the
  difference of honest tables depends on the differing keys only, and decoding it ends with true differences when each of
  these keys has distinct cells (without that it need not, \<open>repeated_cell_false_report\<close>). Whatever a peer sends, the ledger stays linked, indexed,
  signed and sequenced. Where the code fails to do what it means to, a theorem or lemma says so (tables that are decoded
  forever, votes that start anew with a repeated signature, petitions that pass under a pending challenge, bindings made before the signature is verified, revocations that are withdrawn, plaintext behind a prefix).

  Interfaces. \<open>final_selection\<close> and \<open>market_view\<close> (\<open>Event_Selection\<close>) state what readers of a market rely on,
  \<open>weighting\<close> (\<open>Governance_Votes\<close>) what a tally relies on in the weights of its voters (a weight, once
  looked up, is remembered), \<open>ingest_rule\<close> (\<open>Ledger_Keys\<close>)
  what carries from one event to a batch; each is interpreted on the definitions of the code.

  Recursion and bounds. Loops over lists are structural. Building Merkle levels ends by a measure on the length;
  \<open>decode_loop\<close> is \<open>partial_function (option)\<close>, since it may not end, and it is proved both that it ends on the
  difference of honest tables of keys with distinct cells and that it does not for others. No fuel is used anywhere.

  Parameters. SHA-256 and Unicode normalisation (\<open>primitives\<close>), BLAKE2b, Argon2id and HMAC, the two signature schemes and
  the hash of raw bytes (\<open>crypto\<close>), the digest of the replay filter, the logarithm and the power of floats (\<open>libm\<close>), the
  order in which a Python set is walked; what a theorem needs of them is a named hypothesis (\<open>log2_nonneg\<close>,
  \<open>pow_fraction\<close>).

  Not modelled. Of \<open>mesh_hashchain.py\<close>: the store of gate messages, files, write-ahead log, timers and caches.
  \<open>privacy/contracts.py\<close> and the sibling packages \<open>dex\<close>, \<open>ringct\<close>, \<open>shielded_balance\<close> and \<open>stealth_address\<close> declare
  interfaces without an implementation. The adapters of the economy, the other mesh services, the web server and its
  routers, the fetchers and the scripts are input and output around third-party services.
\<close>

end
